(* ===== verification/Prelude.thy ===== *)
theory Prelude
  imports Main "HOL-Library.Word"
begin

text \<open>
  Shared vocabulary of the development: Go's fixed-width unsigned integers, the
  byte-slice helpers of the Go standard library that several packages use
  (\<open>bytes.LastIndex\<close>, \<open>bytes.TrimLeft\<close>, \<open>encoding/binary\<close>), and the generic lemmas
  on words and lists that the component theories build on.
\<close>

unbundle bit_operations_syntax

section \<open>Machine integers and byte slices\<close>

type_synonym u8 = "8 word"
type_synonym u16 = "16 word"
type_synonym u32 = "32 word"
type_synonym u64 = "64 word"
type_synonym bytes = "u8 list"

named_theorems cmd_defs "the numeric values of the named constants of the LCD protocol"
named_theorems key_defs "the numeric values of keys, key masks and symbols"
named_theorems frame_simps "which fields of the device state an operation leaves alone"
named_theorems sent_simps "what an operation hands to the serial link"

text \<open>The conversion \<open>byte(n)\<close> of a Go \<open>int\<close> keeps the low eight bits.\<close>

abbreviation to_byte :: "nat \<Rightarrow> u8" where
  "to_byte n \<equiv> word_of_nat n"

lemma unat_to_byte: "unat (to_byte n) = n mod 256"
  by (simp add: unat_of_nat)

lemma unat_to_byte_small [simp]: "n < 256 \<Longrightarrow> unat (to_byte n) = n"
  by (simp add: unat_to_byte)

lemma unat_u8_less [simp]: "unat (x :: u8) < 256"
  using unsigned_less [of x] by simp

lemma unat_u8_le [simp]: "unat (x :: u8) \<le> 255"
  using unat_u8_less [of x] by linarith

lemma to_byte_unat [simp]: "to_byte (unat x) = x"
  by simp

lemma to_byte_eq_0 [simp]: "n < 256 \<Longrightarrow> to_byte n = 0 \<longleftrightarrow> n = 0"
  by (auto simp: word_of_nat_eq_0_iff dest: dvd_imp_le)

lemma unat_add_u8: "unat (a + b :: u8) = (unat a + unat b) mod 256"
  by (simp add: unat_word_ariths)

lemma unat_add_u8_small: "unat a + unat b < 256 \<Longrightarrow> unat (a + b :: u8) = unat a + unat b"
  by (simp add: unat_add_u8)

lemma u8_le_iff: "(a :: u8) \<le> b \<longleftrightarrow> unat a \<le> unat b"
  by (rule word_le_nat_alt)

lemma u8_less_iff: "(a :: u8) < b \<longleftrightarrow> unat a < unat b"
  by (rule word_less_nat_alt)

lemma unat_u8_u64 [simp]: "unat (ucast (b :: u8) :: u64) = unat b"
proof -
  have "unat b < 2 ^ 64"
    by (rule less_le_trans [OF unat_u8_less]) simp
  then show ?thesis
    by (simp add: unsigned_ucast_eq take_bit_nat_eq_self)
qed

lemma unat_u8_u16 [simp]: "unat (ucast (b :: u8) :: u16) = unat b"
proof -
  have "unat b < 2 ^ 16"
    by (rule less_le_trans [OF unat_u8_less]) simp
  then show ?thesis
    by (simp add: unsigned_ucast_eq take_bit_nat_eq_self)
qed

lemma bit_u8_ge [simp]: "8 \<le> n \<Longrightarrow> \<not> bit (w :: u8) n"
  using bit_imp_le_length [of w n] by auto

lemma bit_u16_ge [simp]: "16 \<le> n \<Longrightarrow> \<not> bit (w :: u16) n"
  using bit_imp_le_length [of w n] by auto

lemma xor_left_cancel_self: "x XOR (x XOR y) = (y :: 'a::len word)"
  by (simp add: xor.assoc [symmetric])

section \<open>Fixed-width encodings\<close>

text \<open>
  \<open>binary.BigEndian\<close> and \<open>binary.LittleEndian\<close>: the value of a byte slice, and the two
  bytes \<open>binary.Write\<close> appends for a \<open>uint16\<close>.
\<close>

fun le_val :: "bytes \<Rightarrow> 'a::len word" where
  "le_val [] = 0"
| "le_val (b # bs) = ucast b OR push_bit 8 (le_val bs)"

definition be_val :: "bytes \<Rightarrow> 'a::len word" where
  "be_val bs = le_val (rev bs)"

definition be16_bytes :: "u16 \<Rightarrow> bytes" where
  "be16_bytes w = [ucast (drop_bit 8 w), ucast w]"

text \<open>\<open>binary.LittleEndian.PutUint64\<close>.\<close>

definition le64_bytes :: "u64 \<Rightarrow> bytes" where
  "le64_bytes w = map (\<lambda>i. ucast (drop_bit (8 * i) w)) [0..<8]"

lemma length_le64_bytes [simp]: "length (le64_bytes w) = 8"
  by (simp add: le64_bytes_def)

lemma length_be16_bytes [simp]: "length (be16_bytes w) = 2"
  by (simp add: be16_bytes_def)

lemma be_val_be16_bytes [simp]: "be_val (be16_bytes w) = w"
  by (auto simp: be_val_def be16_bytes_def bit_eq_iff bit_simps)

lemma be16_bytes_inject [simp]: "be16_bytes v = be16_bytes w \<longleftrightarrow> v = w"
  using be_val_be16_bytes by metis

lemma be16_bytes_be_val:
  assumes "length bs = 2"
  shows "be16_bytes (be_val bs) = bs"
proof -
  from assms obtain a b where "bs = [a, b]"
    by (auto simp: numeral_2_eq_2 length_Suc_conv)
  then show ?thesis
    by (auto simp: be_val_def be16_bytes_def bit_eq_iff bit_simps)
qed

text \<open>The little-endian bytes of a word, and reading them back.\<close>

fun le_bytes :: "nat \<Rightarrow> 'a::len word \<Rightarrow> bytes" where
  "le_bytes 0 w = []"
| "le_bytes (Suc n) w = ucast w # le_bytes n (drop_bit 8 w)"

lemma length_le_bytes [simp]: "length (le_bytes n w) = n"
  by (induction n arbitrary: w) simp_all

lemma le_val_le_bytes_take: "le_val (le_bytes n w) = take_bit (8 * n) w"
proof (induction n arbitrary: w)
  case (Suc n)
  show ?case
    by (rule bit_eqI) (auto simp: Suc bit_simps)
qed simp

lemma le_val_le_bytes: "LENGTH('a) \<le> 8 * n \<Longrightarrow> le_val (le_bytes n w) = (w :: 'a::len word)"
  by (rule bit_eqI) (auto simp: le_val_le_bytes_take bit_simps dest: bit_imp_le_length)

section \<open>Byte-slice helpers of the standard library\<close>

text \<open>
  \<open>bytes.LastIndex\<close> of a one-byte separator (\<open>None\<close> for \<open>-1\<close>) and \<open>bytes.TrimLeft\<close>
  of a one-byte cutset.
\<close>

fun last_index :: "'a \<Rightarrow> 'a list \<Rightarrow> nat option" where
  "last_index x [] = None"
| "last_index x (y # ys) =
     (case last_index x ys of
        Some i \<Rightarrow> Some (Suc i)
      | None \<Rightarrow> if x = y then Some 0 else None)"

definition trim_left :: "'a \<Rightarrow> 'a list \<Rightarrow> 'a list" where
  "trim_left c xs = dropWhile (\<lambda>x. x = c) xs"

lemma last_index_Some:
  "last_index x xs = Some i \<Longrightarrow> i < length xs \<and> xs ! i = x"
  by (induction xs arbitrary: i) (auto split: option.splits if_splits)

lemma last_index_None: "last_index x xs = None \<longleftrightarrow> x \<notin> set xs"
  by (induction xs) (auto split: option.splits)

lemma filter_trim_left [simp]: "filter (\<lambda>x. x \<noteq> c) (trim_left c xs) = filter (\<lambda>x. x \<noteq> c) xs"
  by (induction xs) (auto simp: trim_left_def)

lemma length_trim_left: "length (trim_left c xs) \<le> length xs"
  by (simp add: trim_left_def length_dropWhile_le)

text \<open>The verb \<open>%02x\<close> of \<open>fmt\<close> for one byte.\<close>

definition hex_digit :: "nat \<Rightarrow> char" where
  "hex_digit n = ''0123456789abcdef'' ! (n mod 16)"

definition hex2 :: "u8 \<Rightarrow> string" where
  "hex2 b = [hex_digit (unat b div 16), hex_digit (unat b)]"

text \<open>The verbs \<open>%d\<close> and \<open>%x\<close> for an unsigned number, \<open>%x\<close> for a byte slice, and a string
  literal as bytes.\<close>

fun show_dec :: "nat \<Rightarrow> string" where
  "show_dec n = (if n < 10 then [hex_digit n] else show_dec (n div 10) @ [hex_digit (n mod 10)])"

fun show_hex :: "nat \<Rightarrow> string" where
  "show_hex n = (if n < 16 then [hex_digit n] else show_hex (n div 16) @ [hex_digit (n mod 16)])"

declare show_dec.simps [simp del] show_hex.simps [simp del]

definition hex_bytes :: "bytes \<Rightarrow> string" where
  "hex_bytes bs = concat (map hex2 bs)"

definition ascii :: "string \<Rightarrow> bytes" where
  "ascii s = map of_char s"

section \<open>Generic list lemmas\<close>

lemma foldl_inject:
  assumes "\<And>x y a. f x a = f y a \<Longrightarrow> x = y"
    and "foldl f x zs = foldl f y zs"
  shows "x = y"
  using assms(2) by (induction zs arbitrary: x y) (auto dest: assms(1))

lemma take_append_exact [simp]: "length xs = n \<Longrightarrow> take n (xs @ ys) = xs"
  by simp

lemma drop_append_exact [simp]: "length xs = n \<Longrightarrow> drop n (xs @ ys) = ys"
  by simp

lemma funpow_8: "(f ^^ 8) x = f (f (f (f (f (f (f (f x)))))))"
  by (simp add: eval_nat_numeral)

end
