(* ===== verification/CfaPacket.thy ===== *)
theory CfaPacket
  imports Prelude
begin

text \<open>
  The packets of the Crystalfontz serial protocol: \<open>pkg/hw/cfa/packet.go\<close> and
  \<open>pkg/hw/cfa/command.go\<close>.  Outgoing packets (\<open>pktNoCrc\<close>) carry a command, a data length
  and a fixed 22-byte array; incoming ones (\<open>Packet\<close>) embed such a packet and add the
  checksum, as the Go struct does.
\<close>

section \<open>Commands\<close>

definition Cmd_Ping :: u8 where [cmd_defs]: "Cmd_Ping = 0x00"
definition Cmd_HwFwVers :: u8 where [cmd_defs]: "Cmd_HwFwVers = 0x01"
definition Cmd_ReadUserFlash :: u8 where [cmd_defs]: "Cmd_ReadUserFlash = 0x03"
definition Cmd_Reboot :: u8 where [cmd_defs]: "Cmd_Reboot = 0x05"
definition Cmd_Clear :: u8 where [cmd_defs]: "Cmd_Clear = 0x06"
definition Cmd_SetCursorPos :: u8 where [cmd_defs]: "Cmd_SetCursorPos = 0x0b"
definition Cmd_SetCursorStyle :: u8 where [cmd_defs]: "Cmd_SetCursorStyle = 0x0c"
definition Cmd_SetBacklight :: u8 where [cmd_defs]: "Cmd_SetBacklight = 0x0e"
definition Cmd_CfgKeyReports :: u8 where [cmd_defs]: "Cmd_CfgKeyReports = 0x17"
definition Cmd_ReadKeysPolled :: u8 where [cmd_defs]: "Cmd_ReadKeysPolled = 0x18"
definition Cmd_ReadReprtStat :: u8 where [cmd_defs]: "Cmd_ReadReprtStat = 0x1e"
definition Cmd_WriteDisp :: u8 where [cmd_defs]: "Cmd_WriteDisp = 0x1f"
definition Cmd_KeyLegendOnOffMask :: u8 where [cmd_defs]: "Cmd_KeyLegendOnOffMask = 0x20"
definition Report_Key :: u8 where [cmd_defs]: "Report_Key = 0x80"
definition CmdMask :: u8 where [cmd_defs]: "CmdMask = 0x3f"

datatype PktType = CFCommand | CFResponse | CFReport | CFError

definition PktType_of :: "u8 \<Rightarrow> PktType" where
  "PktType_of t =
     (if t = 0 then CFCommand else if t = 1 then CFResponse
      else if t = 2 then CFReport else CFError)"

definition Command_Type :: "u8 \<Rightarrow> PktType" where
  "Command_Type c = PktType_of (drop_bit 6 c)"

definition CommandFromResponse :: "u8 \<Rightarrow> u8" where
  "CommandFromResponse c = c AND CmdMask"

text \<open>The name of a command in the logs: a four-character class and the command.\<close>

definition Command_name :: "u8 \<Rightarrow> u8 \<Rightarrow> string" where
  "Command_name original c =
     (if c = Cmd_Ping then ''Ping'' else if c = Cmd_HwFwVers then ''HwFwVers''
      else if c = Cmd_ReadUserFlash then ''ReadUserFlash'' else if c = Cmd_Reboot then ''Reboot''
      else if c = Cmd_Clear then ''Clear'' else if c = Cmd_SetCursorPos then ''SetCursorPos''
      else if c = Cmd_SetCursorStyle then ''SetCursorStyle''
      else if c = Cmd_SetBacklight then ''SetBacklight''
      else if c = Cmd_CfgKeyReports then ''CfgKeyReports''
      else if c = Cmd_ReadKeysPolled then ''ReadKeys''
      else if c = Cmd_ReadReprtStat then ''ReadReportingAndStatus''
      else if c = Cmd_WriteDisp then ''Write''
      else if c = Cmd_KeyLegendOnOffMask then ''SetKeyLegend''
      else ''UNKNOWN_0x'' @ hex2 original)"

definition Command_String :: "u8 \<Rightarrow> string" where
  "Command_String c =
     (if c \<ge> 0xC0 then ''ERR_'' @ Command_name c (CommandFromResponse c)
      else if c \<ge> 0x80 then
        (if c = Report_Key then ''RPT_KeyActivity'' else ''RPT_'' @ Command_name c c)
      else if c \<ge> 0x40 then ''OK__'' @ Command_name c (CommandFromResponse c)
      else ''CMD_'' @ Command_name c c)"

section \<open>Packets\<close>

definition MAX_DATA_LENGTH :: nat where
  "MAX_DATA_LENGTH = 22"

record pktNoCrc =
  p_command :: u8
  p_data_length :: u8
  p_data :: bytes

record Packet = pktNoCrc +
  p_crc :: u16

text \<open>The errors the \<open>cfa\<close> package returns, those of \<open>io\<close> and \<open>os\<close> it passes on, a
  failure of the port itself, and a run-time panic.\<close>

datatype cfa_error =
    CmdOutOfRange u8 | DataOversized nat
  | ErrShortBuffer | ErrUnexpectedEOF | ErrEOF | ErrInvalid | ErrClosed | ErrShortWrite
  | EPacket | ERetry | EMissing | ELen | ERange | EFit | ENil
  | EPort nat | Panic

text \<open>A zero-valued \<open>pktNoCrc{}\<close>; the array always has its 22 bytes.\<close>

definition zero_pkt :: pktNoCrc where
  "zero_pkt = \<lparr>p_command = 0, p_data_length = 0, p_data = replicate MAX_DATA_LENGTH 0\<rparr>"

definition SetCommand :: "u8 \<Rightarrow> pktNoCrc \<Rightarrow> cfa_error + pktNoCrc" where
  "SetCommand cmd p =
     (if cmd AND 0xC0 \<noteq> 0 then Inl (CmdOutOfRange cmd) else Inr (p\<lparr>p_command := cmd\<rparr>))"

definition SetData :: "bytes \<Rightarrow> pktNoCrc \<Rightarrow> cfa_error + pktNoCrc" where
  "SetData d p =
     (if length d > MAX_DATA_LENGTH then Inl (DataOversized (length d))
      else Inr (p\<lparr>p_data_length := to_byte (length d), p_data := d @ drop (length d) (p_data p)\<rparr>))"

definition pkt_Data :: "('a) pktNoCrc_scheme \<Rightarrow> bytes" where
  "pkt_Data p = take (unat (p_data_length p)) (p_data p)"

section \<open>The checksum\<close>

fun crc_bit :: "u16 \<times> u8 \<Rightarrow> u16 \<times> u8" where
  "crc_bit (c, b) =
     (if (c XOR ucast b) AND 1 = 1 then drop_bit 1 c XOR 0x8408 else drop_bit 1 c, drop_bit 1 b)"

definition crc_byte :: "u16 \<Rightarrow> u8 \<Rightarrow> u16" where
  "crc_byte c b = fst ((crc_bit ^^ 8) (c, b))"

definition CfCrc :: "bytes \<Rightarrow> u16" where
  "CfCrc bs =
     (let crc = NOT (foldl crc_byte 0xffff bs)
      in (push_bit 8 crc AND 0xff00) OR drop_bit 8 crc)"

text \<open>The bytes the checksum covers, and the checksum with its error case.\<close>

definition Crc :: "('a) pktNoCrc_scheme \<Rightarrow> cfa_error + (u16 \<times> bytes)" where
  "Crc p =
     (if length (p_data p) < unat (p_data_length p) then Inl ErrShortBuffer
      else let buf = p_command p # p_data_length p # pkt_Data p in Inr (CfCrc buf, buf))"

definition pkt_buf :: "('a) pktNoCrc_scheme \<Rightarrow> cfa_error + bytes" where
  "pkt_buf p =
     (case Crc p of Inl e \<Rightarrow> Inl e | Inr (crc, buf) \<Rightarrow> Inr (buf @ be16_bytes crc))"

definition Validate :: "Packet \<Rightarrow> bool" where
  "Validate p = (case Crc p of Inl _ \<Rightarrow> False | Inr (crc, _) \<Rightarrow> crc = p_crc p)"

section \<open>Well-formed packets\<close>

definition wf_pkt :: "('a) pktNoCrc_scheme \<Rightarrow> bool" where
  "wf_pkt p \<longleftrightarrow> length (p_data p) = MAX_DATA_LENGTH \<and> unat (p_data_length p) \<le> MAX_DATA_LENGTH"

lemma wf_zero_pkt [simp]: "wf_pkt zero_pkt"
  by (simp add: wf_pkt_def zero_pkt_def)

lemma SetCommand_wf: "wf_pkt p \<Longrightarrow> SetCommand c p = Inr q \<Longrightarrow> wf_pkt q"
  by (auto simp: SetCommand_def wf_pkt_def split: if_splits)

lemma SetData_wf: "wf_pkt p \<Longrightarrow> SetData d p = Inr q \<Longrightarrow> wf_pkt q"
  by (auto simp: SetData_def wf_pkt_def MAX_DATA_LENGTH_def split: if_splits)

lemma pkt_Data_SetData: "SetData d p = Inr q \<Longrightarrow> pkt_Data q = d"
  by (auto simp: SetData_def pkt_Data_def MAX_DATA_LENGTH_def split: if_splits)

lemma length_pkt_Data: "wf_pkt p \<Longrightarrow> length (pkt_Data p) = unat (p_data_length p)"
  by (simp add: wf_pkt_def pkt_Data_def)

lemma pkt_buf_bytes:
  assumes "wf_pkt p"
  shows "pkt_buf p = Inr (p_command p # p_data_length p # pkt_Data p @
    be16_bytes (CfCrc (p_command p # p_data_length p # pkt_Data p)))"
  using assms by (simp add: pkt_buf_def Crc_def wf_pkt_def Let_def)

section \<open>The checksum separates inputs\<close>

text \<open>One shift step can be undone: the top bit of the result says which branch ran.\<close>

definition crc_shift :: "u16 \<Rightarrow> u16" where
  "crc_shift c = (if odd c then drop_bit 1 c XOR 0x8408 else drop_bit 1 c)"

lemma bit_crc_shift_top: "bit (crc_shift c) 15 = odd c"
  by (simp add: crc_shift_def bit_simps)

lemma drop_bit_1_odd_inject:
  fixes c d :: "'a::len word"
  assumes "drop_bit 1 c = drop_bit 1 d" and "odd c = odd d"
  shows "c = d"
proof (rule bit_eqI)
  fix n
  from assms(1) have "bit (drop_bit 1 c) m = bit (drop_bit 1 d) m" for m
    by simp
  then have "bit c (Suc m) = bit d (Suc m)" for m
    by (simp add: bit_drop_bit_eq)
  with assms(2) show "bit c n = bit d n"
    by (cases n) (simp_all add: bit_0)
qed

lemma crc_shift_alt: "crc_shift c = drop_bit 1 c XOR (if odd c then 0x8408 else 0)"
  by (simp add: crc_shift_def)

lemma crc_shift_inject:
  assumes eq: "crc_shift c = crc_shift d"
  shows "c = d"
proof -
  define k :: u16 where "k = (if odd c then 0x8408 else 0)"
  from eq have odd: "odd c = odd d"
    using bit_crc_shift_top by metis
  with eq have "drop_bit 1 c XOR k = drop_bit 1 d XOR k"
    by (simp only: crc_shift_alt k_def)
  then have "(drop_bit 1 c XOR k) XOR k = (drop_bit 1 d XOR k) XOR k"
    by (rule arg_cong)
  then have "drop_bit 1 c = drop_bit 1 d"
    by (simp only: xor.assoc xor_self_eq xor.right_neutral)
  then show "c = d"
    using odd by (rule drop_bit_1_odd_inject)
qed

lemma crc_bit_xor:
  "crc_bit (c, b) = (crc_shift (c XOR ucast b) XOR ucast (drop_bit 1 b), drop_bit 1 b)"
proof -
  define k :: u16 where "k = (if odd (c XOR ucast b) then 0x8408 else 0)"
  define x :: u16 where "x = ucast (drop_bit 1 b)"
  have "drop_bit 1 (c XOR ucast b) = drop_bit 1 c XOR x"
    unfolding x_def by (auto simp: bit_eq_iff bit_simps not_less)
  then have "crc_shift (c XOR ucast b) XOR x = drop_bit 1 c XOR k"
    unfolding crc_shift_alt k_def [symmetric]
    by (simp add: xor.commute xor_left_cancel_self xor.left_commute)
  moreover have "fst (crc_bit (c, b)) = drop_bit 1 c XOR k"
    by (simp add: k_def and_one_eq odd_iff_mod_2_eq_one)
  ultimately show ?thesis
    by (simp add: x_def)
qed

lemma crc_bit_iterate:
  "(crc_bit ^^ n) (c, b) =
     ((crc_shift ^^ n) (c XOR ucast b) XOR ucast (drop_bit n b), drop_bit n b)"
proof (induction n)
  case 0
  show ?case by (simp add: xor.assoc)
next
  case (Suc n)
  have "(crc_bit ^^ Suc n) (c, b) = crc_bit ((crc_bit ^^ n) (c, b))"
    by simp
  also have "\<dots> = crc_bit ((crc_shift ^^ n) (c XOR ucast b) XOR ucast (drop_bit n b), drop_bit n b)"
    by (simp only: Suc.IH)
  finally show ?case
    by (simp add: crc_bit_xor xor.assoc drop_bit_drop_bit del: crc_bit.simps)
qed

lemma crc_byte_shift: "crc_byte c b = (crc_shift ^^ 8) (c XOR ucast b)"
proof -
  have "drop_bit 8 b = 0"
    by (simp add: bit_eq_iff bit_simps)
  then show ?thesis
    by (simp add: crc_byte_def crc_bit_iterate)
qed

lemma crc_shift_xor: "crc_shift (x XOR y) = crc_shift x XOR crc_shift y"
proof -
  have "drop_bit 1 (x XOR y) = drop_bit 1 x XOR drop_bit 1 y"
    by (auto simp: bit_eq_iff bit_simps)
  moreover have "odd (x XOR y) = (odd x \<noteq> odd y)"
    by (simp add: even_xor_iff)
  ultimately show ?thesis
    by (auto simp: crc_shift_alt xor.assoc xor.left_commute xor.commute xor_left_cancel_self)
qed

lemma crc_shifts_xor: "(crc_shift ^^ n) (x XOR y) = (crc_shift ^^ n) x XOR (crc_shift ^^ n) y"
  by (induction n) (simp_all add: crc_shift_xor)

lemma crc_shifts_inject: "(crc_shift ^^ n) x = (crc_shift ^^ n) y \<Longrightarrow> x = y"
  by (induction n arbitrary: x y) (auto dest: crc_shift_inject)

text \<open>A byte in the upper half slides down unchanged through eight steps.\<close>

lemma crc_shift_upper:
  assumes "m < 8"
  shows "crc_shift (push_bit (Suc m) (ucast (b :: u8))) = push_bit m (ucast b)"
proof -
  have "even (push_bit (Suc m) (ucast b :: u16))"
    by simp
  moreover have "bit (drop_bit 1 (push_bit (Suc m) (ucast b :: u16))) n = bit (push_bit m (ucast b :: u16)) n"
    for n
  proof (cases "n - m < 8")
    case True
    with assms show ?thesis
      by (simp add: bit_simps del: push_bit_Suc) linarith
  next
    case False
    then show ?thesis
      by (simp add: bit_simps del: push_bit_Suc)
  qed
  ultimately show ?thesis
    by (simp add: crc_shift_def bit_eq_iff del: push_bit_Suc)
qed

lemma crc_shifts_upper: "n \<le> 8 \<Longrightarrow> (crc_shift ^^ n) (push_bit n (ucast (b :: u8))) = ucast b"
proof (induction n)
  case 0
  then show ?case by simp
next
  case (Suc n)
  have "(crc_shift ^^ Suc n) (push_bit (Suc n) (ucast b)) =
      (crc_shift ^^ n) (crc_shift (push_bit (Suc n) (ucast b)))"
    by (simp only: funpow_Suc_right o_apply)
  with Suc show ?case
    by (simp only: crc_shift_upper Suc_le_lessD Suc_leD)
qed

lemma crc_two_bytes:
  "crc_byte (crc_byte c a) b = (crc_shift ^^ 16) (c XOR (ucast a XOR push_bit 8 (ucast b)))"
proof -
  have "(crc_shift ^^ 16) (c XOR (ucast a XOR push_bit 8 (ucast b)))
      = (crc_shift ^^ 8) ((crc_shift ^^ 8) ((c XOR ucast a) XOR push_bit 8 (ucast b)))"
    by (simp add: funpow_add [symmetric, THEN fun_cong, unfolded o_apply] xor.assoc)
  also have "\<dots> = (crc_shift ^^ 8) ((crc_shift ^^ 8) (c XOR ucast a) XOR ucast b)"
    by (simp only: crc_shifts_xor crc_shifts_upper order_refl)
  finally show ?thesis
    by (simp only: crc_byte_shift)
qed

lemma crc_byte_inject_state: "crc_byte c b = crc_byte d b \<Longrightarrow> c = d"
  unfolding crc_byte_shift by (metis crc_shifts_inject xor.commute xor_left_cancel_self)

lemma two_bytes_inject:
  fixes a a' b b' :: u8
  assumes "ucast a XOR push_bit 8 (ucast b) = (ucast a' XOR push_bit 8 (ucast b') :: u16)"
  shows "a = a' \<and> b = b'"
proof -
  have lo: "x = ucast (ucast x XOR push_bit 8 (ucast y) :: u16)"
    and hi: "y = ucast (drop_bit 8 (ucast x XOR push_bit 8 (ucast y) :: u16))" for x y :: u8
    by (auto simp: bit_eq_iff bit_simps not_le)
  have "a = a'"
    by (metis assms lo)
  moreover have "b = b'"
    by (metis assms hi)
  ultimately show ?thesis ..
qed

lemma swap_bytes_twice:
  fixes c :: u16
  defines "sw \<equiv> \<lambda>c :: u16. (push_bit 8 c AND push_bit 8 (mask 8)) OR drop_bit 8 c"
  shows "sw (sw c) = c"
  by (auto simp: sw_def bit_eq_iff bit_simps not_le)

lemma CfCrc_inject:
  assumes "CfCrc xs = CfCrc ys"
  shows "foldl crc_byte 0xffff xs = foldl crc_byte 0xffff ys"
proof -
  have m: "(0xff00 :: u16) = push_bit 8 (mask 8)"
    by (simp add: mask_eq_exp_minus_1)
  from assms have "NOT (foldl crc_byte 0xffff xs) = NOT (foldl crc_byte 0xffff ys)"
    unfolding CfCrc_def Let_def m by (metis swap_bytes_twice)
  then show ?thesis
    by (metis bit.double_compl)
qed

text \<open>Every error burst confined to two adjacent bytes changes the checksum.\<close>

lemma CfCrc_burst:
  assumes "CfCrc (xs @ a # b # ys) = CfCrc (xs @ a' # b' # ys)"
  shows "a = a' \<and> b = b'"
proof -
  define c where "c = foldl crc_byte 0xffff xs"
  from assms have "foldl crc_byte (crc_byte (crc_byte c a) b) ys =
      foldl crc_byte (crc_byte (crc_byte c a') b') ys"
    unfolding c_def by (auto dest: CfCrc_inject)
  then have "crc_byte (crc_byte c a) b = crc_byte (crc_byte c a') b'"
    by (rule foldl_inject [rotated]) (rule crc_byte_inject_state)
  then have "c XOR (ucast a XOR push_bit 8 (ucast b)) = c XOR (ucast a' XOR push_bit 8 (ucast b'))"
    unfolding crc_two_bytes by (rule crc_shifts_inject)
  then have "ucast a XOR push_bit 8 (ucast b) = (ucast a' XOR push_bit 8 (ucast b') :: u16)"
    by (metis xor_left_cancel_self)
  then show ?thesis
    by (rule two_bytes_inject)
qed

end
