(* ===== verification/CfaKeys.thy ===== *)
theory CfaKeys
  imports CfaPacket
begin

text \<open>
  Keys and legends of the LCD: \<open>pkg/hw/cfa/buttons.go\<close>.  Key activities, key masks and
  symbols are the bytes of the protocol; the legend kinds are an enumeration of the driver.
\<close>

section \<open>Key activities and key masks\<close>

definition KEY_NO_KEY :: u8 where [key_defs]: "KEY_NO_KEY = 0"
definition KEY_UP_PRESS :: u8 where [key_defs]: "KEY_UP_PRESS = 1"
definition KEY_DOWN_PRESS :: u8 where [key_defs]: "KEY_DOWN_PRESS = 2"
definition KEY_LEFT_PRESS :: u8 where [key_defs]: "KEY_LEFT_PRESS = 3"
definition KEY_RIGHT_PRESS :: u8 where [key_defs]: "KEY_RIGHT_PRESS = 4"
definition KEY_ENTER_PRESS :: u8 where [key_defs]: "KEY_ENTER_PRESS = 5"
definition KEY_EXIT_PRESS :: u8 where [key_defs]: "KEY_EXIT_PRESS = 6"
definition KEY_UP_RELEASE :: u8 where [key_defs]: "KEY_UP_RELEASE = 7"
definition KEY_DOWN_RELEASE :: u8 where [key_defs]: "KEY_DOWN_RELEASE = 8"
definition KEY_LEFT_RELEASE :: u8 where [key_defs]: "KEY_LEFT_RELEASE = 9"
definition KEY_RIGHT_RELEASE :: u8 where [key_defs]: "KEY_RIGHT_RELEASE = 10"
definition KEY_ENTER_RELEASE :: u8 where [key_defs]: "KEY_ENTER_RELEASE = 11"
definition KEY_EXIT_RELEASE :: u8 where [key_defs]: "KEY_EXIT_RELEASE = 12"
definition KEY_UL_PRESS :: u8 where [key_defs]: "KEY_UL_PRESS = 13"
definition KEY_UR_PRESS :: u8 where [key_defs]: "KEY_UR_PRESS = 14"
definition KEY_LL_PRESS :: u8 where [key_defs]: "KEY_LL_PRESS = 15"
definition KEY_LR_PRESS :: u8 where [key_defs]: "KEY_LR_PRESS = 16"
definition KEY_UL_RELEASE :: u8 where [key_defs]: "KEY_UL_RELEASE = 17"
definition KEY_UR_RELEASE :: u8 where [key_defs]: "KEY_UR_RELEASE = 18"
definition KEY_LL_RELEASE :: u8 where [key_defs]: "KEY_LL_RELEASE = 19"
definition KEY_LR_RELEASE :: u8 where [key_defs]: "KEY_LR_RELEASE = 20"

definition KP_UL :: u8 where [key_defs]: "KP_UL = 1"
definition KP_UR :: u8 where [key_defs]: "KP_UR = 2"
definition KP_LL :: u8 where [key_defs]: "KP_LL = 4"
definition KP_LR :: u8 where [key_defs]: "KP_LR = 8"
definition KP_ALL_631 :: u8 where [key_defs]: "KP_ALL_631 = KP_UL OR KP_UR OR KP_LL OR KP_LR"

definition KP_UP :: u8 where [key_defs]: "KP_UP = 1"
definition KP_ENTER :: u8 where [key_defs]: "KP_ENTER = 2"
definition KP_EXIT :: u8 where [key_defs]: "KP_EXIT = 4"
definition KP_LEFT :: u8 where [key_defs]: "KP_LEFT = 8"
definition KP_RIGHT :: u8 where [key_defs]: "KP_RIGHT = 16"
definition KP_DOWN :: u8 where [key_defs]: "KP_DOWN = 32"
definition KP_UVDX_635 :: u8 where [key_defs]: "KP_UVDX_635 = KP_UP OR KP_DOWN OR KP_ENTER OR KP_EXIT"
definition KP_LVRX_635 :: u8 where [key_defs]: "KP_LVRX_635 = KP_ENTER OR KP_EXIT OR KP_LEFT OR KP_RIGHT"
definition KP_ALL_635 :: u8 where [key_defs]: "KP_ALL_635 = KP_UVDX_635 OR KP_LEFT OR KP_RIGHT"

text \<open>The translation tables for polled keys, and the translation.\<close>

definition xlate635 :: "(u8 \<times> u8) list" where
  "xlate635 =
     [(KP_UP, KEY_UP_RELEASE), (KP_ENTER, KEY_ENTER_RELEASE), (KP_EXIT, KEY_EXIT_RELEASE),
      (KP_LEFT, KEY_LEFT_RELEASE), (KP_RIGHT, KEY_RIGHT_RELEASE), (KP_DOWN, KEY_DOWN_RELEASE)]"

definition xlate631 :: "(u8 \<times> u8) list" where
  "xlate631 =
     [(KP_UL, KEY_UL_RELEASE), (KP_UR, KEY_UR_RELEASE),
      (KP_LL, KEY_LL_RELEASE), (KP_LR, KEY_LR_RELEASE)]"

fun keymaskToActivity :: "(u8 \<times> u8) list \<Rightarrow> u8 \<Rightarrow> u8 list" where
  "keymaskToActivity [] m = []"
| "keymaskToActivity ((em, ea) # table) m =
     (if em AND m \<noteq> 0 then ea # keymaskToActivity table m else keymaskToActivity table m)"

lemma length_keymaskToActivity: "length (keymaskToActivity t m) \<le> length t"
  by (induction t m rule: keymaskToActivity.induct) auto

section \<open>Display models and legends\<close>

datatype Model = Cfa631 | Cfa635

datatype Legend =
    LegendNone | LegendUVDX | Legend_VDX | LegendUV_X | LegendLVRX | Legend_VRX | LegendLV_X

definition LegendSymBlank :: u8 where [key_defs]: "LegendSymBlank = 0"
definition LegendSymExit :: u8 where [key_defs]: "LegendSymExit = 1"
definition LegendSymCheck :: u8 where [key_defs]: "LegendSymCheck = 2"
definition LegendSymUp :: u8 where [key_defs]: "LegendSymUp = 3"
definition LegendSymDown :: u8 where [key_defs]: "LegendSymDown = 4"
definition LegendSymRight :: u8 where [key_defs]: "LegendSymRight = 5"
definition LegendSymLeft :: u8 where [key_defs]: "LegendSymLeft = 6"

record LegendValues =
  lv_Enable :: bool
  lv_UL :: u8
  lv_UR :: u8
  lv_LL :: u8
  lv_LR :: u8

definition legend_values :: "u8 \<Rightarrow> u8 \<Rightarrow> LegendValues" where
  "legend_values ul ll = \<lparr>lv_Enable = True, lv_UL = ul, lv_UR = LegendSymCheck,
     lv_LL = ll, lv_LR = LegendSymExit\<rparr>"

fun Legend_Values :: "Legend \<Rightarrow> LegendValues" where
  "Legend_Values LegendUVDX = legend_values LegendSymUp LegendSymDown"
| "Legend_Values Legend_VDX = legend_values LegendSymBlank LegendSymDown"
| "Legend_Values LegendUV_X = legend_values LegendSymUp LegendSymBlank"
| "Legend_Values LegendLVRX = legend_values LegendSymLeft LegendSymRight"
| "Legend_Values Legend_VRX = legend_values LegendSymBlank LegendSymRight"
| "Legend_Values LegendLV_X = legend_values LegendSymLeft LegendSymBlank"
| "Legend_Values LegendNone =
     \<lparr>lv_Enable = False, lv_UL = 0, lv_UR = 0, lv_LL = 0, lv_LR = 0\<rparr>"

definition LegendValues_Bytes :: "LegendValues \<Rightarrow> bytes" where
  "LegendValues_Bytes lv =
     (if \<not> lv_Enable lv then [0] else [1, lv_UL lv, lv_UR lv, lv_LL lv, lv_LR lv])"

definition legendWidth_631 :: u8 where "legendWidth_631 = 3"
definition legendWidth_635 :: u8 where "legendWidth_635 = 1"

text \<open>Symbols of the display's character set, from \<open>SymLastCGRAM = 0x0f\<close> upwards.\<close>

definition SymLtLt :: u8 where [key_defs]: "SymLtLt = 0x14"
definition SymGtGt :: u8 where [key_defs]: "SymGtGt = 0x15"
definition SymUp :: u8 where [key_defs]: "SymUp = 0x1a"
definition SymDown :: u8 where [key_defs]: "SymDown = 0x1b"
definition SymCaret :: u8 where [key_defs]: "SymCaret = 0x1d"
definition SymCaron :: u8 where [key_defs]: "SymCaron = 0x1e"
definition SymSpace :: u8 where [key_defs]: "SymSpace = 0x20"

lemma length_legend_bytes: "length (LegendValues_Bytes (Legend_Values l)) \<le> 5"
  by (cases l) (simp_all add: LegendValues_Bytes_def legend_values_def)

end
