(* ===== verification/CfaPort.thy ===== *)
theory CfaPort
  imports CfaPacket
begin

text \<open>
  Reading packets off a port: \<open>GetPacket\<close> and \<open>badPacket\<close> of \<open>pkg/hw/cfa/serial.go\<close>, over
  the interface \<open>ReadFlusher\<close>, and the two implementations of that interface in the package
  whose code is Go rather than the operating system's: \<open>nopFlusher\<close> (\<open>util.go\<close>, used by the
  fuzzer) and the mock port (\<open>mock.go\<close>, in theory \<open>CfaMock\<close>).

  A \<open>Read\<close> of up to \<open>n\<close> bytes returns the bytes, an error and the port's next state;
  \<open>None\<close> is a \<open>Read\<close> that blocks for ever.
\<close>

section \<open>Reading a given number of bytes\<close>

type_synonym 'p reader = "nat \<Rightarrow> 'p \<Rightarrow> ((bytes \<times> cfa_error option) \<times> 'p) option"

text \<open>\<open>buf.ReadFrom(io.LimitReader(r, n))\<close>: read until \<open>n\<close> bytes, end of file or an error.\<close>

partial_function (option) readLimited ::
    "'p reader \<Rightarrow> nat \<Rightarrow> bytes \<Rightarrow> 'p \<Rightarrow> ((bytes \<times> cfa_error option) \<times> 'p) option" where
  "readLimited rd n acc p =
     (if n = 0 then Some ((acc, None), p)
      else case rd n p of
             None \<Rightarrow> None
           | Some ((bs, e), p') \<Rightarrow>
               (case e of
                  None \<Rightarrow> readLimited rd (n - length bs) (acc @ bs) p'
                | Some err \<Rightarrow>
                    Some ((acc @ bs, if err = ErrEOF then None else Some err), p')))"

section \<open>GetPacket\<close>

definition badPacket :: "('p \<Rightarrow> 'p) \<Rightarrow> 'p \<Rightarrow> ((cfa_error + Packet) \<times> 'p) option" where
  "badPacket flush r = Some (Inl EPacket, flush r)"

text \<open>The part after the two header bytes are in: data, checksum, validation.\<close>

definition GetPacket_crc ::
    "'p reader \<Rightarrow> u8 \<Rightarrow> u8 \<Rightarrow> bytes \<Rightarrow> 'p \<Rightarrow> ((cfa_error + Packet) \<times> 'p) option" where
  "GetPacket_crc rd cmd len d r =
     (case readLimited rd 2 [] r of
        None \<Rightarrow> None
      | Some ((c, Some e), r') \<Rightarrow> Some (Inl e, r')
      | Some ((c, None), r') \<Rightarrow>
          (if length c \<noteq> 2 then Some (Inl ErrUnexpectedEOF, r')
           else let p = \<lparr>p_command = cmd, p_data_length = len,
                         p_data = d @ drop (length d) (replicate MAX_DATA_LENGTH 0),
                         p_crc = be_val c\<rparr>
                in Some (if Validate p then Inr p else Inl ErrInvalid, r')))"

definition GetPacket_data ::
    "'p reader \<Rightarrow> u8 \<Rightarrow> u8 \<Rightarrow> 'p \<Rightarrow> ((cfa_error + Packet) \<times> 'p) option" where
  "GetPacket_data rd cmd len r =
     (if len = 0 then GetPacket_crc rd cmd len [] r
      else case readLimited rd (unat len) [] r of
             None \<Rightarrow> None
           | Some ((d, Some e), r') \<Rightarrow> Some (Inl e, r')
           | Some ((d, None), r') \<Rightarrow>
               (if length d \<noteq> unat len then Some (Inl ErrUnexpectedEOF, r')
                else GetPacket_crc rd cmd len d r'))"

definition GetPacket ::
    "'p reader \<Rightarrow> ('p \<Rightarrow> 'p) \<Rightarrow> 'p \<Rightarrow> ((cfa_error + Packet) \<times> 'p) option" where
  "GetPacket rd flush r =
     (case readLimited rd 2 [] r of
        None \<Rightarrow> None
      | Some ((h, Some e), r') \<Rightarrow> Some (Inl e, r')
      | Some ((h, None), r') \<Rightarrow>
          (if length h \<noteq> 2 then Some (Inl ErrUnexpectedEOF, r')
           else let cmd = h ! 0; len = h ! 1
                in (case Command_Type cmd of
                      CFReport \<Rightarrow>
                        (if cmd \<noteq> Report_Key then badPacket flush r'
                         else if unat len > MAX_DATA_LENGTH then badPacket flush r'
                         else GetPacket_data rd cmd len r')
                    | CFResponse \<Rightarrow>
                        (if unat len > MAX_DATA_LENGTH then badPacket flush r'
                         else GetPacket_data rd cmd len r')
                    | CFError \<Rightarrow> badPacket flush r'
                    | CFCommand \<Rightarrow> badPacket flush r')))"

section \<open>What a port has to promise\<close>

text \<open>Commands \<open>GetPacket\<close> lets through: responses and key reports.\<close>

definition incoming_cmd :: "u8 \<Rightarrow> bool" where
  "incoming_cmd c \<longleftrightarrow> Command_Type c = CFResponse \<or> c = Report_Key"

lemma Command_Type_Report_Key [simp]: "Command_Type Report_Key = CFReport"
  by (simp add: Command_Type_def PktType_of_def Report_Key_def)

text \<open>
  The contract of \<open>io.Reader\<close>, for a port with \<open>pending\<close> bytes on their way: a read returns
  at least one of them, at most as many as asked for, and keeps the rest in order.
\<close>

locale packet_source =
  fixes rd :: "'p reader"
    and flush :: "'p \<Rightarrow> 'p"
    and pending :: "'p \<Rightarrow> bytes"
    and ok :: "'p \<Rightarrow> bool"
  assumes read_some: "\<lbrakk>ok p; pending p \<noteq> []; 0 < n\<rbrakk> \<Longrightarrow>
    \<exists>k p'. 0 < k \<and> k \<le> n \<and> k \<le> length (pending p) \<and>
      rd n p = Some ((take k (pending p), None), p') \<and> ok p' \<and> pending p' = drop k (pending p)"
begin

lemma readLimited_pending:
  "\<lbrakk>ok p; n \<le> length (pending p)\<rbrakk> \<Longrightarrow>
   \<exists>p'. readLimited rd n acc p = Some ((acc @ take n (pending p), None), p') \<and>
     ok p' \<and> pending p' = drop n (pending p)"
proof (induction n arbitrary: acc p rule: less_induct)
  case (less n)
  show ?case
  proof (cases "n = 0")
    case True
    with less.prems show ?thesis
      by (simp add: readLimited.simps)
  next
    case False
    with less.prems(2) have "pending p \<noteq> []" by auto
    with less.prems(1) False obtain k p1 where k: "0 < k" "k \<le> n" "k \<le> length (pending p)"
      and rd: "rd n p = Some ((take k (pending p), None), p1)"
      and p1: "ok p1" "pending p1 = drop k (pending p)"
      using read_some [of p n] by blast
    have "n - k < n"
      using k False by simp
    moreover have "n - k \<le> length (pending p1)"
      using less.prems(2) p1 k by simp
    ultimately obtain p' where
      "readLimited rd (n - k) (acc @ take k (pending p)) p1 =
         Some (((acc @ take k (pending p)) @ take (n - k) (pending p1), None), p')"
      and p': "ok p'" "pending p' = drop (n - k) (pending p1)"
      using less.IH [of "n - k" p1 "acc @ take k (pending p)"] p1(1) by auto
    moreover have "take n (pending p) = take k (pending p) @ take (n - k) (pending p1)"
      using k p1(2) by (metis le_add_diff_inverse take_add)
    ultimately have "readLimited rd n acc p = Some ((acc @ take n (pending p), None), p')"
      using False rd k by (simp add: readLimited.simps [of rd n acc p] min_absorb2)
    moreover have "pending p' = drop n (pending p)"
      using p'(2) p1(2) k by simp
    ultimately show ?thesis
      using p'(1) by blast
  qed
qed

lemma readLimited_exact:
  assumes "ok p" and "pending p = bs @ rest" and "length bs = n"
  shows "\<exists>p'. readLimited rd n [] p = Some ((bs, None), p') \<and> ok p' \<and> pending p' = rest"
  using readLimited_pending [of p n "[]"] assms by auto

lemma GetPacket_crc_bytes:
  assumes "ok r" and "pending r = c @ rest" and "length c = 2"
  shows "\<exists>r'. GetPacket_crc rd cmd len d r =
      (let p = \<lparr>p_command = cmd, p_data_length = len,
                p_data = d @ drop (length d) (replicate MAX_DATA_LENGTH 0), p_crc = be_val c\<rparr>
       in Some (if Validate p then Inr p else Inl ErrInvalid, r')) \<and> ok r' \<and> pending r' = rest"
  using readLimited_exact [OF assms] assms(3) by (auto simp: GetPacket_crc_def)

lemma GetPacket_data_bytes:
  assumes "ok r" and "pending r = d @ c @ rest" and "length d = unat len"
  shows "\<exists>r'. GetPacket_data rd cmd len r = GetPacket_crc rd cmd len d r' \<and>
    ok r' \<and> pending r' = c @ rest"
proof (cases "len = 0")
  case True
  with assms show ?thesis
    by (auto simp: GetPacket_data_def)
next
  case False
  with readLimited_exact [OF assms] assms(3) show ?thesis
    by (auto simp: GetPacket_data_def)
qed

text \<open>A complete frame in front of the stream is read as one packet, or rejected as a whole.\<close>

lemma GetPacket_frame:
  assumes "ok r" and "pending r = cmd # len # d @ c @ rest"
    and "incoming_cmd cmd" and "unat len \<le> MAX_DATA_LENGTH"
    and "length d = unat len" and "length c = 2"
  shows "\<exists>r'. GetPacket rd flush r =
      (let p = \<lparr>p_command = cmd, p_data_length = len,
                p_data = d @ drop (length d) (replicate MAX_DATA_LENGTH 0), p_crc = be_val c\<rparr>
       in Some (if Validate p then Inr p else Inl ErrInvalid, r')) \<and> ok r' \<and> pending r' = rest"
proof -
  obtain r1 where r1: "readLimited rd 2 [] r = Some (([cmd, len], None), r1)"
    "ok r1" "pending r1 = d @ c @ rest"
    using readLimited_exact [of r "[cmd, len]" "d @ c @ rest" 2] assms(1,2) by auto
  obtain r2 where r2: "GetPacket_data rd cmd len r1 = GetPacket_crc rd cmd len d r2"
    "ok r2" "pending r2 = c @ rest"
    using GetPacket_data_bytes [OF r1(2,3) assms(5)] by auto
  have "GetPacket rd flush r = GetPacket_data rd cmd len r1"
    using r1(1) assms(3,4) by (auto simp: GetPacket_def incoming_cmd_def)
  then show ?thesis
    using r2 GetPacket_crc_bytes [OF r2(2,3) assms(6)] by auto
qed

end

section \<open>Frames and their packets\<close>

text \<open>The packet a frame with the given fields stands for, and the frame itself.\<close>

definition mk_packet :: "u8 \<Rightarrow> bytes \<Rightarrow> u16 \<Rightarrow> Packet" where
  "mk_packet cmd d c = \<lparr>p_command = cmd, p_data_length = to_byte (length d),
     p_data = d @ drop (length d) (replicate MAX_DATA_LENGTH 0), p_crc = c\<rparr>"

lemma Validate_mk:
  assumes "length d \<le> MAX_DATA_LENGTH"
  shows "Validate (mk_packet cmd d c) \<longleftrightarrow> c = CfCrc (cmd # to_byte (length d) # d)"
  using assms
  by (auto simp: Validate_def Crc_def mk_packet_def pkt_Data_def MAX_DATA_LENGTH_def Let_def)

section \<open>The fuzzer's port\<close>

text \<open>\<open>nopFlusher\<close> over a \<open>bytes.Buffer\<close>: reads from memory, flushing does nothing.\<close>

fun nop_Read :: "bytes reader" where
  "nop_Read n [] = Some (([], Some ErrEOF), [])"
| "nop_Read n (b # bs) = Some ((take n (b # bs), None), drop n (b # bs))"

definition nop_Flush :: "bytes \<Rightarrow> bytes" where
  "nop_Flush r = r"

interpretation nop: packet_source nop_Read nop_Flush "\<lambda>bs. bs" "\<lambda>_. True"
proof
  fix p :: bytes and n :: nat
  assume ne: "p \<noteq> []" and n: "0 < n"
  have "nop_Read n p = Some ((take n p, None), drop n p)"
    using ne by (cases p) simp_all
  with ne n show "\<exists>k p'. 0 < k \<and> k \<le> n \<and> k \<le> length p \<and>
      nop_Read n p = Some ((take k p, None), p') \<and> True \<and> p' = drop k p"
    by (cases "n \<le> length p") (auto intro: exI [of _ n] exI [of _ "length p"])
qed

section \<open>What the checksum accepts\<close>

text \<open>
  A frame is accepted exactly when the checksum register, run over the whole frame with the
  two checksum bytes, ends in one fixed residue.
\<close>

definition crc_residue :: u16 where
  "crc_residue = (crc_shift ^^ 16) (NOT 0)"

lemma Validate_residue:
  assumes "length d \<le> MAX_DATA_LENGTH" and "length c = 2"
  shows "Validate (mk_packet cmd d (be_val c)) \<longleftrightarrow>
    foldl crc_byte 0xffff (cmd # to_byte (length d) # d @ c) = crc_residue"
proof -
  from assms(2) obtain l h where c: "c = [l, h]"
    by (auto simp: numeral_2_eq_2 length_Suc_conv)
  define s where "s = foldl crc_byte 0xffff (cmd # to_byte (length d) # d)"
  define x :: u16 where "x = ucast l XOR push_bit 8 (ucast h)"
  have m: "(0xff00 :: u16) = push_bit 8 (mask 8)"
    by (simp add: mask_eq_exp_minus_1)
  define sw :: "u16 \<Rightarrow> u16" where "sw y = (push_bit 8 y AND push_bit 8 (mask 8)) OR drop_bit 8 y" for y
  have sw: "sw (sw y) = y" for y
    unfolding sw_def by (rule swap_bytes_twice)
  have "be_val c = sw x"
    by (auto simp: c be_val_def x_def sw_def bit_eq_iff bit_simps not_le)
  moreover have "CfCrc (cmd # to_byte (length d) # d) = sw (NOT s)"
    by (simp only: CfCrc_def Let_def m sw_def s_def)
  ultimately have "Validate (mk_packet cmd d (be_val c)) \<longleftrightarrow> x = NOT s"
    unfolding Validate_mk [OF assms(1)] by (metis sw)
  also have "\<dots> \<longleftrightarrow> s XOR x = NOT 0"
    by (auto simp: bit_eq_iff bit_simps)
  also have "\<dots> \<longleftrightarrow> (crc_shift ^^ 16) (s XOR x) = crc_residue"
    unfolding crc_residue_def by (metis crc_shifts_inject)
  also have "(crc_shift ^^ 16) (s XOR x) = foldl crc_byte 0xffff (cmd # to_byte (length d) # d @ c)"
    unfolding x_def crc_two_bytes [symmetric] by (simp add: s_def c)
  finally show ?thesis .
qed

lemma GetPacket_nop_frame:
  assumes "incoming_cmd cmd" and "length d \<le> MAX_DATA_LENGTH" and "length c = 2"
  shows "GetPacket nop_Read nop_Flush (cmd # to_byte (length d) # d @ c @ rest) =
    Some (if Validate (mk_packet cmd d (be_val c)) then Inr (mk_packet cmd d (be_val c))
          else Inl ErrInvalid, rest)"
  using nop.GetPacket_frame [of "cmd # to_byte (length d) # d @ c @ rest" cmd "to_byte (length d)" d c rest]
    assms by (auto simp: mk_packet_def Let_def MAX_DATA_LENGTH_def)

section \<open>Properties\<close>

text \<open>C1: whatever well-formed response or key report is written to the wire, \<open>GetPacket\<close>
  reads back: the same command, length and data, the checksum it was sent with, and it leaves
  exactly the bytes that followed the frame.\<close>

theorem GetPacket_reads_back:
  assumes "wf_pkt p" and "incoming_cmd (p_command p)" and "pkt_buf p = Inr frame"
  shows "\<exists>q. GetPacket nop_Read nop_Flush (frame @ rest) = Some (Inr q, rest) \<and>
    p_command q = p_command p \<and> p_data_length q = p_data_length p \<and>
    pkt_Data q = pkt_Data p \<and> wf_pkt q \<and> Validate q"
proof -
  define d where "d = pkt_Data p"
  define crc where "crc = CfCrc (p_command p # p_data_length p # d)"
  have d: "length d = unat (p_data_length p)" "length d \<le> MAX_DATA_LENGTH"
    using assms(1) length_pkt_Data [OF assms(1)] by (simp_all add: d_def wf_pkt_def)
  have len: "to_byte (length d) = p_data_length p"
    by (simp add: d(1))
  have frame: "frame = p_command p # to_byte (length d) # d @ be16_bytes crc"
    using assms(3) pkt_buf_bytes [OF assms(1)] by (simp add: d_def crc_def len [unfolded d_def])
  have "Validate (mk_packet (p_command p) d crc)"
    by (simp add: Validate_mk [OF d(2)] crc_def d(1))
  then show ?thesis
    using GetPacket_nop_frame [of "p_command p" d "be16_bytes crc" rest] assms(2) d
    by (auto simp: frame mk_packet_def pkt_Data_def wf_pkt_def)
      (auto simp: d_def pkt_Data_def)
qed

lemma GetPacket_reads_back_witness:
  "\<exists>q. GetPacket nop_Read nop_Flush ([0x40, 1, 7, 0xdd, 0xad] @ [9]) = Some (Inr q, [9]) \<and>
    p_command q = 0x40 \<and> p_data_length q = 1 \<and> pkt_Data q = [7]"
proof -
  define p :: pktNoCrc where "p = \<lparr>p_command = 0x40, p_data_length = 1, p_data = 7 # replicate 21 0\<rparr>"
  have wf: "wf_pkt p"
    by (simp add: p_def wf_pkt_def MAX_DATA_LENGTH_def)
  have cmd: "incoming_cmd (p_command p)"
    by (simp add: p_def incoming_cmd_def Command_Type_def PktType_of_def)
  have "CfCrc [0x40, 1, 7] = 0xddad"
    by (simp add: CfCrc_def crc_byte_def funpow_8)
  then have "pkt_buf p = Inr [0x40, 1, 7, 0xdd, 0xad]"
    by (simp add: pkt_buf_bytes [OF wf]) (simp add: p_def pkt_Data_def be16_bytes_def)
  from GetPacket_reads_back [OF wf cmd this, of "[9]"] show ?thesis
    by (auto simp: p_def pkt_Data_def)
qed

text \<open>C2: a frame that \<open>GetPacket\<close> accepts is rejected with \<open>os.ErrInvalid\<close> once any two
  adjacent bytes after its header (data or checksum) are altered in any way, and the port is
  left after the frame, in step with the next one.\<close>

theorem GetPacket_rejects_burst:
  assumes "GetPacket nop_Read nop_Flush (cmd # n # xs @ a # b # ys @ rest) = Some (Inr q, rest)"
    and "incoming_cmd cmd" and "unat n \<le> MAX_DATA_LENGTH"
    and "length xs + length ys = unat n" and "(a, b) \<noteq> (a', b')"
  shows "GetPacket nop_Read nop_Flush (cmd # n # xs @ a' # b' # ys @ rest) =
    Some (Inl ErrInvalid, rest)"
proof -
  have split: "\<exists>d c. zs = d @ c \<and> length d = unat n \<and> length c = 2"
    if "length zs = unat n + 2" for zs :: bytes
    using that by (intro exI [of _ "take (unat n) zs"] exI [of _ "drop (unat n) zs"]) simp
  obtain d c where dc: "xs @ a # b # ys = d @ c" "length d = unat n" "length c = 2"
    using split [of "xs @ a # b # ys"] assms(4) by auto
  obtain d' c' where dc': "xs @ a' # b' # ys = d' @ c'" "length d' = unat n" "length c' = 2"
    using split [of "xs @ a' # b' # ys"] assms(4) by auto
  have n: "to_byte (length d) = n" "to_byte (length d') = n"
    using dc dc' by simp_all
  have eq: "cmd # n # xs @ a # b # ys @ rest = cmd # to_byte (length d) # d @ c @ rest"
    and eq': "cmd # n # xs @ a' # b' # ys @ rest = cmd # to_byte (length d') # d' @ c' @ rest"
    using dc(1) dc'(1) n by (metis append_Cons append_assoc)+
  have "Validate (mk_packet cmd d (be_val c))"
    using assms(1,2,3) dc GetPacket_nop_frame [of cmd d c rest] unfolding eq
    by (auto split: if_splits)
  then have r: "foldl crc_byte 0xffff ((cmd # n # xs) @ a # b # ys) = crc_residue"
    using Validate_residue [of d c cmd] assms(3) dc n by simp
  have "\<not> Validate (mk_packet cmd d' (be_val c'))"
  proof
    assume "Validate (mk_packet cmd d' (be_val c'))"
    then have "foldl crc_byte 0xffff ((cmd # n # xs) @ a' # b' # ys) = crc_residue"
      using Validate_residue [of d' c' cmd] assms(3) dc' n by simp
    with r have "CfCrc ((cmd # n # xs) @ a # b # ys) = CfCrc ((cmd # n # xs) @ a' # b' # ys)"
      by (simp only: CfCrc_def)
    then show False
      using CfCrc_burst assms(5) by blast
  qed
  then show ?thesis
    using GetPacket_nop_frame [of cmd d' c' rest] assms(2,3) dc' unfolding eq' by simp
qed

lemma GetPacket_rejects_burst_witness:
  "GetPacket nop_Read nop_Flush [0x40, 1, 8, 0xdd, 0xad, 9] = Some (Inl ErrInvalid, [9])"
proof -
  have cmd: "incoming_cmd 0x40"
    by (simp add: incoming_cmd_def Command_Type_def PktType_of_def)
  have "CfCrc [0x40, 1, 7] = 0xddad"
    by (simp add: CfCrc_def crc_byte_def funpow_8)
  then have "\<exists>q. GetPacket nop_Read nop_Flush (0x40 # 1 # [] @ 7 # 0xdd # [0xad] @ [9]) = Some (Inr q, [9])"
    using GetPacket_nop_frame [of "0x40" "[7]" "[0xdd, 0xad]" "[9]"] cmd
    by (simp add: Validate_mk MAX_DATA_LENGTH_def be_val_def)
  then obtain q where
    "GetPacket nop_Read nop_Flush (0x40 # 1 # [] @ 7 # 0xdd # [0xad] @ [9]) = Some (Inr q, [9])" ..
  from GetPacket_rejects_burst [OF this cmd, of 8 "0xdd"] show ?thesis
    by (simp add: MAX_DATA_LENGTH_def)
qed

end
