(* ===== verification/CfaSerial.thy ===== *)
theory CfaSerial
  imports CfaKeys CfaPort "HOL-Library.Sublist"
begin

text \<open>
  The serial device of \<open>pkg/hw/cfa/serial.go\<close>: sending packets with retries, and the
  background reader that sorts incoming packets into the two channels.

  The sender's view of the outside world is three scripts, consumed from the front: the
  results of the port's \<open>Write\<close>s (an empty script means success), what each \<open>select\<close> in
  \<open>getPkt\<close> sees (an empty script means the timeout fires), and the clock readings.  Since every
  theorem is for all scripts, it holds for every behaviour of port, display and clock.
  \<open>sd_out\<close> records the packets handed to the port, oldest first.
\<close>

section \<open>The sender\<close>

datatype arrival = Arrive Packet | NoArrival | InClosed

record SerialDev =
  sd_out :: "pktNoCrc list"
  sd_wres :: "nat option list"
  sd_arr :: "arrival list"
  sd_clock :: "u64 list"

definition MaxTries :: nat where
  "MaxTries = 5"

definition sendOnly :: "pktNoCrc \<Rightarrow> SerialDev \<Rightarrow> cfa_error option \<times> SerialDev" where
  "sendOnly pkt sd =
     (case pkt_buf pkt of
        Inl e \<Rightarrow> (Some e, sd)
      | Inr _ \<Rightarrow>
          (case sd_wres sd of
             [] \<Rightarrow> (None, sd\<lparr>sd_out := sd_out sd @ [pkt]\<rparr>)
           | w # ws \<Rightarrow> (map_option EPort w, sd\<lparr>sd_out := sd_out sd @ [pkt], sd_wres := ws\<rparr>)))"

text \<open>
  \<open>getPkt\<close>: discard packets that answer another command; a nil packet from the closed channel
  is dereferenced, which panics.
\<close>

fun getPkt :: "u8 \<Rightarrow> arrival list \<Rightarrow> (cfa_error + Packet option) \<times> arrival list" where
  "getPkt cmd [] = (Inr None, [])"
| "getPkt cmd (NoArrival # as) = (Inr None, as)"
| "getPkt cmd (InClosed # as) = (Inl Panic, as)"
| "getPkt cmd (Arrive p # as) =
     (if CommandFromResponse (p_command p) = cmd then (Inr (Some p), as) else getPkt cmd as)"

definition sendPkt :: "pktNoCrc \<Rightarrow> SerialDev \<Rightarrow> (cfa_error + Packet option) \<times> SerialDev" where
  "sendPkt pkt sd =
     (case sendOnly pkt sd of
        (Some e, sd1) \<Rightarrow> (Inl e, sd1)
      | (None, sd1) \<Rightarrow>
          (case getPkt (p_command pkt) (sd_arr sd1) of
             (r, as) \<Rightarrow> (r, sd1\<lparr>sd_arr := as\<rparr>)))"

definition ping_pkt :: "u64 \<Rightarrow> pktNoCrc" where
  "ping_pkt nano = \<lparr>p_command = Cmd_Ping, p_data_length = 8,
     p_data = le64_bytes nano @ replicate 14 0\<rparr>"

definition ping :: "SerialDev \<Rightarrow> (cfa_error + bool) \<times> SerialDev" where
  "ping sd =
     (let nano = (case sd_clock sd of [] \<Rightarrow> 0 | t # _ \<Rightarrow> t);
          p = ping_pkt nano
      in (case sendPkt p (sd\<lparr>sd_clock := tl (sd_clock sd)\<rparr>) of
            (Inl e, sd1) \<Rightarrow> (Inl e, sd1)
          | (Inr None, sd1) \<Rightarrow> (Inr False, sd1)
          | (Inr (Some resp), sd1) \<Rightarrow> (Inr (p_data resp = p_data p), sd1)))"

text \<open>The retry loop with the given number of rounds left; errors of the ping in between are
  ignored, but a panic in it is not.\<close>

fun sendPktRetry_from :: "nat \<Rightarrow> pktNoCrc \<Rightarrow> SerialDev \<Rightarrow> (cfa_error + Packet) \<times> SerialDev" where
  "sendPktRetry_from 0 pkt sd = (Inl ERetry, sd)"
| "sendPktRetry_from (Suc r) pkt sd =
     (case sendPkt pkt sd of
        (Inl e, sd1) \<Rightarrow> (Inl e, sd1)
      | (Inr (Some p), sd1) \<Rightarrow> (Inr p, sd1)
      | (Inr None, sd1) \<Rightarrow>
          (case ping sd1 of
             (Inl Panic, sd2) \<Rightarrow> (Inl Panic, sd2)
           | (_, sd2) \<Rightarrow> sendPktRetry_from r pkt sd2))"

text \<open>\<open>for r := MaxTries; r >= 0; r--\<close> runs \<open>MaxTries + 1\<close> rounds.\<close>

definition sendPktRetry :: "pktNoCrc \<Rightarrow> SerialDev \<Rightarrow> (cfa_error + Packet) \<times> SerialDev" where
  "sendPktRetry pkt sd = sendPktRetry_from (MaxTries + 1) pkt sd"

section \<open>What the sender puts on the wire\<close>

lemma wf_ping_pkt [simp]: "wf_pkt (ping_pkt n)"
  by (simp add: wf_pkt_def ping_pkt_def MAX_DATA_LENGTH_def)

lemma sendOnly_out: "wf_pkt pkt \<Longrightarrow> sd_out (snd (sendOnly pkt sd)) = sd_out sd @ [pkt]"
  by (auto simp: sendOnly_def pkt_buf_bytes split: list.splits)

lemma getPkt_match: "fst (getPkt cmd as) = Inr (Some p) \<Longrightarrow> CommandFromResponse (p_command p) = cmd"
  by (induction cmd as rule: getPkt.induct) (auto split: if_splits)


lemma sendPkt_out: "wf_pkt pkt \<Longrightarrow> sd_out (snd (sendPkt pkt sd)) = sd_out sd @ [pkt]"
  using sendOnly_out [of pkt sd] by (auto simp: sendPkt_def split: prod.splits option.splits)

lemma sendPkt_match:
  assumes "sendPkt pkt sd = (Inr (Some p), sd')"
  shows "CommandFromResponse (p_command p) = p_command pkt"
proof -
  obtain sd1 :: SerialDev where "fst (getPkt (p_command pkt) (sd_arr sd1)) = Inr (Some p)"
    using assms by (auto simp: sendPkt_def split: prod.splits option.splits) (metis fst_conv)
  then show ?thesis by (rule getPkt_match)
qed

lemma getPkt_error: "fst (getPkt cmd as) = Inl e \<Longrightarrow> e = Panic"
  by (induction cmd as rule: getPkt.induct) (auto split: if_splits)

lemma sendOnly_error: "wf_pkt pkt \<Longrightarrow> fst (sendOnly pkt sd) = Some e \<Longrightarrow> \<exists>n. e = EPort n"
  by (auto simp: sendOnly_def pkt_buf_bytes split: list.splits)

lemma sendPkt_error:
  assumes "wf_pkt pkt" and "sendPkt pkt sd = (Inl e, sd')"
  shows "e \<noteq> ERetry"
  using assms sendOnly_error [OF assms(1), of sd] getPkt_error [of "p_command pkt"]
  by (auto simp: sendPkt_def split: prod.splits option.splits) (metis cfa_error.distinct fst_conv)+

lemma ping_out: "\<exists>n. sd_out (snd (ping sd)) = sd_out sd @ [ping_pkt n]"
  using sendPkt_out [OF wf_ping_pkt, of _ "sd\<lparr>sd_clock := tl (sd_clock sd)\<rparr>"]
  by (auto simp: ping_def Let_def split: prod.splits sum.splits option.splits) (metis snd_conv)+

text \<open>The packets of a call: rounds of the packet and a ping, then possibly the packet once more.\<close>

definition retry_trace :: "pktNoCrc \<Rightarrow> pktNoCrc list \<Rightarrow> pktNoCrc list \<Rightarrow> pktNoCrc list" where
  "retry_trace pkt pings fin = concat (map (\<lambda>q. [pkt, q]) pings) @ fin"

lemma sendPktRetry_from_trace:
  assumes "wf_pkt pkt" and "sendPktRetry_from r pkt sd = (res, sd')"
  shows "\<exists>pings fin. sd_out sd' = sd_out sd @ retry_trace pkt pings fin \<and>
    (\<forall>q \<in> set pings. \<exists>n. q = ping_pkt n) \<and> (fin = [] \<or> fin = [pkt]) \<and>
    length pings + length fin \<le> r \<and> (res = Inl ERetry \<longrightarrow> fin = [] \<and> length pings = r)"
  using assms(2)
proof (induction r arbitrary: sd)
  case 0
  then show ?case
    by (auto simp: retry_trace_def intro: exI [of _ "[]"])
next
  case (Suc r)
  obtain x sd1 where x: "sendPkt pkt sd = (x, sd1)"
    by (cases "sendPkt pkt sd")
  have out1: "sd_out sd1 = sd_out sd @ [pkt]"
    using sendPkt_out [OF assms(1), of sd] x by simp
  obtain y sd2 where y: "ping sd1 = (y, sd2)"
    by (cases "ping sd1")
  obtain n where out2: "sd_out sd2 = sd_out sd @ [pkt, ping_pkt n]"
    using ping_out [of sd1] y out1 by auto
  show ?case
  proof (cases "x = Inr None \<and> y \<noteq> Inl Panic")
    case True
    then have "sendPktRetry_from r pkt sd2 = (res, sd')"
      using Suc.prems x y by (auto split: sum.splits cfa_error.splits)
    from Suc.IH [OF this] obtain pings fin where
      "sd_out sd' = sd_out sd2 @ retry_trace pkt pings fin"
      "\<forall>q \<in> set pings. \<exists>n. q = ping_pkt n" "fin = [] \<or> fin = [pkt]"
      "length pings + length fin \<le> r" "res = Inl ERetry \<longrightarrow> fin = [] \<and> length pings = r"
      by blast
    then show ?thesis
      using out2
      by - (rule exI [of _ "ping_pkt n # pings"], rule exI [of _ "fin"], auto simp: retry_trace_def)
  next
    case False
    then consider (sent) "x \<noteq> Inr None" "sd' = sd1" "res \<noteq> Inl ERetry"
      | (panic) "sd' = sd2" "res = Inl Panic"
      using Suc.prems x y sendPkt_error [OF assms(1), of sd]
      by (auto split: sum.splits option.splits)
    then show ?thesis
    proof cases
      case sent
      then show ?thesis
        using out1 by - (rule exI [of _ "[]"], rule exI [of _ "[pkt]"], simp add: retry_trace_def)
    next
      case panic
      then show ?thesis
        using out2 by - (rule exI [of _ "[ping_pkt n]"], rule exI [of _ "[]"], auto simp: retry_trace_def)
    qed
  qed
qed

lemma sendPktRetry_from_match:
  "sendPktRetry_from r pkt sd = (Inr p, sd') \<Longrightarrow> CommandFromResponse (p_command p) = p_command pkt"
  by (induction r arbitrary: sd)
    (auto split: prod.splits sum.splits option.splits cfa_error.splits dest: sendPkt_match)

text \<open>Any call with a round to spare sends the packet at least once, before anything else.\<close>

lemma sendPktRetry_from_sends:
  assumes "wf_pkt pkt"
  shows "prefix (sd_out sd @ [pkt]) (sd_out (snd (sendPktRetry_from (Suc r) pkt sd)))"
proof -
  obtain x sd1 where x: "sendPkt pkt sd = (x, sd1)" by (cases "sendPkt pkt sd")
  obtain y sd2 where y: "ping sd1 = (y, sd2)" by (cases "ping sd1")
  have out1: "sd_out sd1 = sd_out sd @ [pkt]"
    using sendPkt_out [OF assms, of sd] x by simp
  have out2: "prefix (sd_out sd1) (sd_out sd2)"
    using ping_out [of sd1] y by auto
  have "prefix (sd_out sd2) (sd_out (snd (sendPktRetry_from r pkt sd2)))"
    using sendPktRetry_from_trace [OF assms, of r sd2] by (metis prefixI prod.collapse)
  then have "prefix (sd_out sd1) (sd_out (snd (sendPktRetry_from (Suc r) pkt sd)))"
    using x y out2 by (auto split: sum.splits option.splits cfa_error.splits intro: prefix_order.trans)
  then show ?thesis by (simp only: out1)
qed

section \<open>Retries recover from lost packets\<close>

lemma sendPkt_quiet:
  assumes "wf_pkt pkt" and "sd_wres sd = []"
  shows "sd_arr sd = NoArrival # as \<Longrightarrow>
      sendPkt pkt sd = (Inr None, sd\<lparr>sd_out := sd_out sd @ [pkt], sd_arr := as\<rparr>)"
    and "sd_arr sd = Arrive p # as \<Longrightarrow> CommandFromResponse (p_command p) = p_command pkt \<Longrightarrow>
      sendPkt pkt sd = (Inr (Some p), sd\<lparr>sd_out := sd_out sd @ [pkt], sd_arr := as\<rparr>)"
  using assms by (simp_all add: sendPkt_def sendOnly_def pkt_buf_bytes)

lemma sendPktRetry_answered:
  assumes "wf_pkt pkt" and "sd_wres sd = []" and "sd_arr sd = Arrive p # as"
    and "CommandFromResponse (p_command p) = p_command pkt"
  shows "sendPktRetry pkt sd = (Inr p, sd\<lparr>sd_out := sd_out sd @ [pkt], sd_arr := as\<rparr>)"
  using sendPkt_quiet(2) [OF assms(1-2) assms(3-4)] by (simp add: sendPktRetry_def)

lemma ping_quiet:
  assumes "sd_wres sd = []" and "sd_arr sd = NoArrival # as"
  shows "\<exists>sd'. ping sd = (Inr False, sd') \<and> sd_wres sd' = [] \<and> sd_arr sd' = as"
  using sendPkt_quiet(1) [OF wf_ping_pkt, of "sd\<lparr>sd_clock := tl (sd_clock sd)\<rparr>" as] assms
  by (simp add: ping_def Let_def)

lemma sendPktRetry_from_recovers:
  assumes "wf_pkt pkt" and "CommandFromResponse (p_command p) = p_command pkt"
    and "sd_wres sd = []" and "sd_arr sd = replicate (2 * k) NoArrival @ Arrive p # as" and "k < r"
  shows "\<exists>sd'. sendPktRetry_from r pkt sd = (Inr p, sd') \<and> sd_arr sd' = as"
  using assms(3-5)
proof (induction r arbitrary: k sd)
  case 0
  then show ?case by simp
next
  case (Suc r)
  show ?case
  proof (cases k)
    case 0
    with Suc.prems sendPkt_quiet(2) [OF assms(1) Suc.prems(1)] assms(2) show ?thesis
      by simp
  next
    case (Suc k')
    define as1 where "as1 = replicate (2 * k') NoArrival @ Arrive p # as"
    have "sd_arr sd = NoArrival # NoArrival # as1"
      using Suc.prems(2) Suc by (simp add: as1_def)
    from sendPkt_quiet(1) [OF assms(1) Suc.prems(1) this] obtain sd1 where
      sd1: "sendPkt pkt sd = (Inr None, sd1)" "sd_wres sd1 = []" "sd_arr sd1 = NoArrival # as1"
      using Suc.prems(1) by simp
    from ping_quiet [OF sd1(2,3)] obtain sd2 where
      sd2: "ping sd1 = (Inr False, sd2)" "sd_wres sd2 = []" "sd_arr sd2 = as1"
      by blast
    have "k' < r" using Suc.prems(3) Suc by simp
    from Suc.IH [OF sd2(2) sd2(3) [unfolded as1_def] this] show ?thesis
      using sd1(1) sd2(1) by simp
  qed
qed

section \<open>Properties of the sender\<close>

text \<open>C3: for every behaviour of port, display and clock, one call of \<open>sendPktRetry\<close> puts on the
  wire at most six rounds of the packet each followed by a ping, possibly ending in the bare
  packet; a returned packet answers the command that was sent; and \<open>ERetry\<close> comes back only
  after all six rounds.\<close>

theorem sendPktRetry_bounded:
  assumes "wf_pkt pkt" and "sendPktRetry pkt sd = (res, sd')"
  shows "(\<exists>pings fin. sd_out sd' = sd_out sd @ retry_trace pkt pings fin \<and>
      (\<forall>q \<in> set pings. \<exists>n. q = ping_pkt n) \<and> (fin = [] \<or> fin = [pkt]) \<and>
      length pings + length fin \<le> 6 \<and> (res = Inl ERetry \<longrightarrow> fin = [] \<and> length pings = 6)) \<and>
    (\<forall>p. res = Inr p \<longrightarrow> CommandFromResponse (p_command p) = p_command pkt)"
proof (intro conjI allI impI)
  show "\<exists>pings fin. sd_out sd' = sd_out sd @ retry_trace pkt pings fin \<and>
      (\<forall>q \<in> set pings. \<exists>n. q = ping_pkt n) \<and> (fin = [] \<or> fin = [pkt]) \<and>
      length pings + length fin \<le> 6 \<and> (res = Inl ERetry \<longrightarrow> fin = [] \<and> length pings = 6)"
    using sendPktRetry_from_trace [OF assms(1)] assms(2)
    by (simp add: sendPktRetry_def MaxTries_def)
  show "CommandFromResponse (p_command p) = p_command pkt" if "res = Inr p" for p
    using assms(2) unfolding that sendPktRetry_def by (rule sendPktRetry_from_match)
qed

lemma sendPktRetry_bounded_witness:
  "\<exists>res sd' pings fin. sendPktRetry zero_pkt \<lparr>sd_out = [], sd_wres = [], sd_arr = [], sd_clock = []\<rparr> = (res, sd') \<and>
     sd_out sd' = retry_trace zero_pkt pings fin \<and> length pings + length fin \<le> 6"
proof -
  define sd where "sd = \<lparr>sd_out = [], sd_wres = [], sd_arr = [], sd_clock = []\<rparr>"
  obtain res sd' where "sendPktRetry zero_pkt sd = (res, sd')"
    by (cases "sendPktRetry zero_pkt sd")
  with sendPktRetry_bounded [OF wf_zero_pkt this] show ?thesis
    by (auto simp: sd_def)
qed

text \<open>C4: a command survives up to five lost replies.  When the first \<open>k\<close> rounds see neither an
  answer nor a ping reply and the matching answer arrives in the next one, \<open>sendPktRetry\<close> returns
  that answer, for every \<open>k \<le> 5\<close>.\<close>

theorem sendPktRetry_recovers:
  assumes "wf_pkt pkt" and "CommandFromResponse (p_command p) = p_command pkt"
    and "sd_wres sd = []" and "sd_arr sd = replicate (2 * k) NoArrival @ Arrive p # as" and "k \<le> 5"
  shows "\<exists>sd'. sendPktRetry pkt sd = (Inr p, sd') \<and> sd_arr sd' = as"
  using sendPktRetry_from_recovers [OF assms(1-4), of 6] assms(5)
  by (simp add: sendPktRetry_def MaxTries_def)

lemma sendPktRetry_recovers_witness:
  defines "resp \<equiv> mk_packet 0x40 [] 0"
  shows "\<exists>sd'. sendPktRetry zero_pkt \<lparr>sd_out = [], sd_wres = [],
      sd_arr = replicate 10 NoArrival @ [Arrive resp], sd_clock = []\<rparr> = (Inr resp, sd')"
  using sendPktRetry_recovers [OF wf_zero_pkt, of resp
      "\<lparr>sd_out = [], sd_wres = [], sd_arr = replicate 10 NoArrival @ [Arrive resp], sd_clock = []\<rparr>" 5 "[]"]
  by (auto simp: resp_def mk_packet_def zero_pkt_def CommandFromResponse_def CmdMask_def)

section \<open>The background reader\<close>

text \<open>
  \<open>handleIncoming\<close> runs beside the clients.  Its state is the two buffered channels and the
  events of a polled packet it still has to send: \<open>sd.Events <- ka\<close> blocks on a full channel,
  and then the reader takes no further packet off the port.
\<close>

record rx =
  rx_In :: "Packet list"
  rx_Events :: "u8 list"
  rx_todo :: "u8 list"

definition cap_In :: nat where "cap_In = 5"
definition cap_Events :: nat where "cap_Events = 10"

definition KeyPollReleased :: nat where "KeyPollReleased = 2"

definition handlePacket :: "(u8 \<times> u8) list \<Rightarrow> Packet \<Rightarrow> rx \<Rightarrow> rx" where
  "handlePacket table p s =
     (if p_command p = Report_Key \<and> p_data_length p = 1 then
        (if length (rx_Events s) = cap_Events then s
         else s\<lparr>rx_Events := rx_Events s @ [p_data p ! 0]\<rparr>)
      else if CommandFromResponse (p_command p) = Cmd_ReadKeysPolled then
        (if p_data_length p \<noteq> 3 then s
         else if table = [] then s
         else s\<lparr>rx_todo := keymaskToActivity table (p_data p ! KeyPollReleased)\<rparr>)
      else (if length (rx_In s) = cap_In then s else s\<lparr>rx_In := rx_In s @ [p]\<rparr>))"

text \<open>The steps: the reader receives a packet or delivers one event of a poll; a client takes
  an event or a packet.\<close>

datatype rx_label = Receive Packet | Deliver u8 | TakeEvent u8 | TakeIn Packet

inductive rx_step :: "(u8 \<times> u8) list \<Rightarrow> rx \<Rightarrow> rx_label \<Rightarrow> rx \<Rightarrow> bool" for table where
  receive: "rx_todo s = [] \<Longrightarrow> rx_step table s (Receive p) (handlePacket table p s)"
| deliver: "rx_todo s = k # ks \<Longrightarrow> length (rx_Events s) < cap_Events \<Longrightarrow>
    rx_step table s (Deliver k) (s\<lparr>rx_Events := rx_Events s @ [k], rx_todo := ks\<rparr>)"
| take_event: "rx_Events s = k # ks \<Longrightarrow> rx_step table s (TakeEvent k) (s\<lparr>rx_Events := ks\<rparr>)"
| take_in: "rx_In s = p # ps \<Longrightarrow> rx_step table s (TakeIn p) (s\<lparr>rx_In := ps\<rparr>)"

definition rx_start :: rx where
  "rx_start = \<lparr>rx_In = [], rx_Events = [], rx_todo = []\<rparr>"

inductive rx_run :: "(u8 \<times> u8) list \<Rightarrow> rx_label list \<Rightarrow> rx \<Rightarrow> bool" for table where
  start: "rx_run table [] rx_start"
| step: "rx_run table ls s \<Longrightarrow> rx_step table s l t \<Longrightarrow> rx_run table (ls @ [l]) t"

inductive_cases rx_step_receiveE: "rx_step table s (Receive p) t"
inductive_cases rx_step_deliverE: "rx_step table s (Deliver k) t"
inductive_simps rx_step_receive: "rx_step table s (Receive p) t"
inductive_simps rx_step_deliver: "rx_step table s (Deliver k) t"
inductive_simps rx_step_take_event: "rx_step table s (TakeEvent k) t"
inductive_simps rx_step_take_in: "rx_step table s (TakeIn p) t"

lemmas rx_step_simps = rx_step_receive rx_step_deliver rx_step_take_event rx_step_take_in

text \<open>The key events a packet carries, and what the clients took.\<close>

definition packet_events :: "(u8 \<times> u8) list \<Rightarrow> Packet \<Rightarrow> u8 list" where
  "packet_events table p =
     (if p_command p = Report_Key \<and> p_data_length p = 1 then [p_data p ! 0]
      else if CommandFromResponse (p_command p) = Cmd_ReadKeysPolled \<and> p_data_length p = 3
      then keymaskToActivity table (p_data p ! KeyPollReleased) else [])"

fun label_events :: "(u8 \<times> u8) list \<Rightarrow> rx_label list \<Rightarrow> u8 list" where
  "label_events table [] = []"
| "label_events table (Receive p # ls) = packet_events table p @ label_events table ls"
| "label_events table (_ # ls) = label_events table ls"

fun taken_events :: "rx_label list \<Rightarrow> u8 list" where
  "taken_events [] = []"
| "taken_events (TakeEvent k # ls) = k # taken_events ls"
| "taken_events (_ # ls) = taken_events ls"

fun received_packets :: "rx_label list \<Rightarrow> Packet list" where
  "received_packets [] = []"
| "received_packets (Receive p # ls) = p # received_packets ls"
| "received_packets (_ # ls) = received_packets ls"

fun taken_packets :: "rx_label list \<Rightarrow> Packet list" where
  "taken_packets [] = []"
| "taken_packets (TakeIn p # ls) = p # taken_packets ls"
| "taken_packets (_ # ls) = taken_packets ls"

lemma label_events_append:
  "label_events table (ls @ ms) = label_events table ls @ label_events table ms"
  by (induction table ls rule: label_events.induct) auto

lemma taken_events_append: "taken_events (ls @ ms) = taken_events ls @ taken_events ms"
  by (induction ls rule: taken_events.induct) auto

lemma received_packets_append:
  "received_packets (ls @ ms) = received_packets ls @ received_packets ms"
  by (induction ls rule: received_packets.induct) auto

lemma taken_packets_append: "taken_packets (ls @ ms) = taken_packets ls @ taken_packets ms"
  by (induction ls rule: taken_packets.induct) auto

lemmas label_appends =
  label_events_append taken_events_append received_packets_append taken_packets_append

section \<open>Invariants of the reader\<close>

definition rx_bounded :: "(u8 \<times> u8) list \<Rightarrow> rx \<Rightarrow> bool" where
  "rx_bounded table s \<longleftrightarrow> length (rx_In s) \<le> cap_In \<and> length (rx_Events s) \<le> cap_Events \<and>
     length (rx_todo s) \<le> length table"

definition rx_ordered :: "(u8 \<times> u8) list \<Rightarrow> rx_label list \<Rightarrow> rx \<Rightarrow> bool" where
  "rx_ordered table ls s \<longleftrightarrow>
     subseq (taken_events ls @ rx_Events s @ rx_todo s) (label_events table ls) \<and>
     subseq (taken_packets ls @ rx_In s) (received_packets ls)"

lemma handlePacket_bounded:
  "rx_bounded table s \<Longrightarrow> rx_bounded table (handlePacket table p s)"
  using length_keymaskToActivity [of table]
  by (auto simp: rx_bounded_def handlePacket_def cap_In_def cap_Events_def)

lemma rx_step_bounded:
  assumes "rx_step table s l t" and "rx_bounded table s"
  shows "rx_bounded table t"
  using assms
proof (induction rule: rx_step.induct)
  case (receive s p)
  from receive.prems show ?case by (rule handlePacket_bounded)
qed (auto simp: rx_bounded_def)

lemma handlePacket_events:
  assumes "rx_todo s = []"
  shows "\<exists>es. rx_Events (handlePacket table p s) @ rx_todo (handlePacket table p s) =
    rx_Events s @ es \<and> (es = [] \<or> es = packet_events table p)"
  using assms by (simp add: handlePacket_def packet_events_def)

lemma handlePacket_packets:
  "\<exists>ps. rx_In (handlePacket table p s) = rx_In s @ ps \<and> (ps = [] \<or> ps = [p])"
  by (simp add: handlePacket_def)

lemma handlePacket_ordered:
  assumes "rx_todo s = []" and "rx_ordered table ls s"
  shows "rx_ordered table (ls @ [Receive p]) (handlePacket table p s)"
proof -
  obtain es where es: "rx_Events (handlePacket table p s) @ rx_todo (handlePacket table p s) =
      rx_Events s @ es" "es = [] \<or> es = packet_events table p"
    using handlePacket_events [OF assms(1)] by blast
  obtain ps where ps: "rx_In (handlePacket table p s) = rx_In s @ ps" "ps = [] \<or> ps = [p]"
    using handlePacket_packets by blast
  have "subseq ((taken_events ls @ rx_Events s) @ es) (label_events table ls @ packet_events table p)"
    using assms es(2) by (intro list_emb_append_mono) (auto simp: rx_ordered_def)
  moreover have "subseq ((taken_packets ls @ rx_In s) @ ps) (received_packets ls @ [p])"
    using assms(2) ps(2) by (intro list_emb_append_mono) (auto simp: rx_ordered_def)
  ultimately show ?thesis
    by (simp add: rx_ordered_def label_appends es(1) ps(1))
qed

lemma rx_step_ordered:
  assumes "rx_step table s l t" and "rx_ordered table ls s"
  shows "rx_ordered table (ls @ [l]) t"
  using assms
proof (induction rule: rx_step.induct)
  case (receive s p)
  then show ?case by (rule handlePacket_ordered)
qed (auto simp: rx_ordered_def label_appends)

lemma rx_run_bounded: "rx_run table ls s \<Longrightarrow> rx_bounded table s"
proof (induction rule: rx_run.induct)
  case start
  show ?case by (simp add: rx_start_def rx_bounded_def)
qed (rule rx_step_bounded)

lemma rx_run_ordered: "rx_run table ls s \<Longrightarrow> rx_ordered table ls s"
proof (induction rule: rx_run.induct)
  case start
  show ?case by (simp add: rx_start_def rx_ordered_def)
qed (rule rx_step_ordered)

section \<open>Properties of the reader\<close>

text \<open>C5: in every run of the background reader, under every interleaving with its clients, the
  channels stay within their capacities, and what clients have taken followed by what is still
  queued is a subsequence of what the display sent: events and packets may be dropped, but they
  are never invented, duplicated or reordered.\<close>

theorem handleIncoming_fifo:
  assumes "rx_run table ls s"
  shows "length (rx_In s) \<le> 5 \<and> length (rx_Events s) \<le> 10 \<and>
    subseq (taken_events ls @ rx_Events s @ rx_todo s) (label_events table ls) \<and>
    subseq (taken_packets ls @ rx_In s) (received_packets ls)"
  using rx_run_bounded [OF assms] rx_run_ordered [OF assms]
  by (simp add: rx_bounded_def rx_ordered_def cap_In_def cap_Events_def)

lemma rx_run_deliver:
  assumes "rx_run table ls s" and "rx_todo s = ks @ rest"
    and "length (rx_Events s) + length ks \<le> cap_Events"
  shows "rx_run table (ls @ map Deliver ks) (s\<lparr>rx_Events := rx_Events s @ ks, rx_todo := rest\<rparr>)"
  using assms
proof (induction ks arbitrary: ls s)
  case Nil
  then show ?case by (cases s) simp
next
  case (Cons k ks)
  define t where "t = s\<lparr>rx_Events := rx_Events s @ [k], rx_todo := ks @ rest\<rparr>"
  have "rx_step table s (Deliver k) t"
    unfolding t_def using Cons.prems by (intro rx_step.deliver) auto
  with Cons.prems(1) have "rx_run table (ls @ [Deliver k]) t"
    by (rule rx_run.step)
  from Cons.IH [OF this] Cons.prems(3) show ?case
    by (simp add: t_def)
qed

lemma handleIncoming_fifo_witness:
  "rx_run xlate631 [Receive (mk_packet Report_Key [17] 0)] \<lparr>rx_In = [], rx_Events = [17], rx_todo = []\<rparr> \<and>
   subseq [17] (label_events xlate631 [Receive (mk_packet Report_Key [17] 0)])"
proof -
  have "rx_step xlate631 rx_start (Receive (mk_packet Report_Key [17] 0))
      (handlePacket xlate631 (mk_packet Report_Key [17] 0) rx_start)"
    by (rule rx_step.receive) (simp add: rx_start_def)
  then have "rx_run xlate631 ([] @ [Receive (mk_packet Report_Key [17] 0)])
      (handlePacket xlate631 (mk_packet Report_Key [17] 0) rx_start)"
    by (rule rx_run.step [OF rx_run.start])
  then have run: "rx_run xlate631 [Receive (mk_packet Report_Key [17] 0)] \<lparr>rx_In = [], rx_Events = [17], rx_todo = []\<rparr>"
    by (simp add: handlePacket_def mk_packet_def rx_start_def cap_Events_def)
  with handleIncoming_fifo [OF run] show ?thesis
    by simp
qed

section \<open>A full event channel\<close>

definition is_poll :: "Packet \<Rightarrow> bool" where
  "is_poll p \<longleftrightarrow> p_command p \<noteq> Report_Key \<and> CommandFromResponse (p_command p) = Cmd_ReadKeysPolled \<and> p_data_length p = 3"

text \<open>The events in the channel, and those the reader still holds.\<close>

definition event_load :: "rx \<Rightarrow> nat" where
  "event_load s = length (rx_Events s) + length (rx_todo s)"

lemma rx_run_snocE:
  assumes "rx_run table (ls @ [l]) s"
  obtains u where "rx_run table ls u" "rx_step table u l s"
  using assms by (cases rule: rx_run.cases) auto

lemma keymaskToActivity_Nil [simp]: "keymaskToActivity [] m = []"
  using length_keymaskToActivity [of "[]" m] by simp

lemma handlePacket_load: "rx_todo s = [] \<Longrightarrow> event_load s \<le> event_load (handlePacket table p s)"
  by (simp add: event_load_def handlePacket_def)

lemma handlePacket_poll:
  "is_poll p \<Longrightarrow> rx_todo s = [] \<Longrightarrow> event_load (handlePacket table p s) = event_load s + length (packet_events table p)"
  by (auto simp: is_poll_def event_load_def handlePacket_def packet_events_def)

lemma rx_step_load:
  "rx_step table s l t \<Longrightarrow> taken_events [l] = [] \<Longrightarrow> event_load s \<le> event_load t"
  by (induction rule: rx_step.induct) (auto simp: handlePacket_load, auto simp: event_load_def)

lemma rx_run_load:
  "rx_run table (ls @ [Receive p] @ ms) s \<Longrightarrow> is_poll p \<Longrightarrow> taken_events ms = [] \<Longrightarrow>
     length (packet_events table p) \<le> event_load s"
proof (induction ms arbitrary: s rule: rev_induct)
  case Nil
  then obtain u where "rx_step table u (Receive p) s"
    by (auto elim: rx_run_snocE)
  with handlePacket_poll [OF Nil.prems(2)] show ?case
    by (auto simp: rx_step_receive)
next
  case (snoc l ms)
  have "rx_run table ((ls @ [Receive p] @ ms) @ [l]) s"
    using snoc.prems(1) by simp
  then obtain u where u: "rx_run table (ls @ [Receive p] @ ms) u" "rx_step table u l s"
    by (rule rx_run_snocE)
  moreover have t: "taken_events ms = []" "taken_events [l] = []"
    using snoc.prems(3) by (simp_all add: taken_events_append)
  ultimately show ?case
    using snoc.IH [OF u(1) snoc.prems(2) t(1)] rx_step_load [OF u(2) t(2)] by simp
qed

text \<open>More events than the channel holds: the reader keeps some, and receives nothing.\<close>

lemma rx_overloaded:
  "rx_run table (ls @ [Receive p] @ ms @ [Receive q] @ ns) s \<Longrightarrow> is_poll p \<Longrightarrow> is_poll q \<Longrightarrow> taken_events (ms @ ns) = [] \<Longrightarrow>
   10 < length (packet_events table p) + length (packet_events table q) \<Longrightarrow>
   10 < event_load s \<and> received_packets ns = []"
proof (induction ns arbitrary: s rule: rev_induct)
  case Nil
  have "rx_run table ((ls @ [Receive p] @ ms) @ [Receive q]) s"
    using Nil.prems(1) by simp
  then obtain u where u: "rx_run table (ls @ [Receive p] @ ms) u" "rx_step table u (Receive q) s"
    by (rule rx_run_snocE)
  from u(2) have "rx_todo u = []" "s = handlePacket table q u"
    by (auto simp: rx_step_receive)
  moreover have "length (packet_events table p) \<le> event_load u"
    using rx_run_load [OF u(1)] Nil.prems by simp
  ultimately show ?case
    using handlePacket_poll [OF Nil.prems(3)] Nil.prems(5) by simp
next
  case (snoc l ns)
  have "rx_run table ((ls @ [Receive p] @ ms @ [Receive q] @ ns) @ [l]) s"
    using snoc.prems(1) by simp
  then obtain u where u: "rx_run table (ls @ [Receive p] @ ms @ [Receive q] @ ns) u" "rx_step table u l s"
    by (rule rx_run_snocE)
  have t: "taken_events (ms @ ns) = []" "taken_events [l] = []"
    using snoc.prems(4) by (simp_all add: taken_events_append)
  from snoc.IH [OF u(1) snoc.prems(2,3) t(1) snoc.prems(5)] have ih: "10 < event_load u" "received_packets ns = []"
    by simp_all
  have "length (rx_Events u) \<le> 10"
    using rx_run_bounded [OF u(1)] by (simp add: rx_bounded_def cap_Events_def)
  with ih have "rx_todo u \<noteq> []"
    by (auto simp: event_load_def)
  with u(2) have "received_packets [l] = []"
    by (cases l) (auto simp: rx_step_receive)
  then show ?case
    using ih rx_step_load [OF u(2) t(2)] by (simp add: received_packets_append)
qed

text \<open>C6: the reader wedges.  Unlike a key report, the events of a polled packet are sent without looking at the
  channel's free space.  So in every run in which two polls report more than ten keys together and
  no client takes an event from the first of them on, whatever else is received, delivered or taken and in
  whatever order, not one packet is received after the second poll: the reader holds events it cannot
  deliver, and no step by which it could receive the reply to a command is possible.\<close>

theorem handleIncoming_wedges:
  assumes "rx_run table (ls @ [Receive p] @ ms @ [Receive q] @ ns) s" "is_poll p" "is_poll q"
    and "taken_events (ms @ ns) = []"
    and "10 < length (packet_events table p) + length (packet_events table q)"
  shows "received_packets ns = [] \<and> rx_todo s \<noteq> [] \<and> (\<forall>r t. \<not> rx_step table s (Receive r) t)"
proof -
  from rx_overloaded [OF assms] have o: "10 < event_load s" "received_packets ns = []" by simp_all
  have "length (rx_Events s) \<le> 10"
    using rx_run_bounded [OF assms(1)] by (simp add: rx_bounded_def cap_Events_def)
  with o(1) have "rx_todo s \<noteq> []"
    by (auto simp: event_load_def)
  with o(2) show ?thesis
    by (simp add: rx_step_receive)
qed

text \<open>Two polls that see all six keys released, with the channel filled in between and after.\<close>

definition all_released :: Packet where "all_released = mk_packet 0x58 [0, 0, 0x3f] 0"

lemma all_released_events: "packet_events xlate635 all_released = map snd xlate635" "is_poll all_released"
  by (simp_all add: all_released_def packet_events_def is_poll_def mk_packet_def CommandFromResponse_def cmd_defs key_defs
      xlate635_def KeyPollReleased_def)

lemma wedged_run:
  "rx_run xlate635 ([] @ [Receive all_released] @ map Deliver (map snd xlate635) @ [Receive all_released] @ map Deliver (take 4 (map snd xlate635)))
     (rx_start\<lparr>rx_Events := map snd xlate635 @ take 4 (map snd xlate635), rx_todo := drop 4 (map snd xlate635)\<rparr>)"
proof -
  define all where "all = map snd xlate635"
  have poll: "handlePacket xlate635 all_released s = s\<lparr>rx_todo := all\<rparr>" for s
    by (simp add: all_released_def handlePacket_def mk_packet_def CommandFromResponse_def cmd_defs key_defs
        xlate635_def KeyPollReleased_def all_def)
  have six: "length all = 6"
    by (simp add: all_def xlate635_def)
  have "rx_run xlate635 ([] @ [Receive all_released]) (rx_start\<lparr>rx_todo := all\<rparr>)"
    by (rule rx_run.step [OF rx_run.start])
      (metis poll rx_step.receive rx_start_def rx.simps(3))
  from rx_run_deliver [OF this, of all "[]"]
  have "rx_run xlate635 ([Receive all_released] @ map Deliver all) (rx_start\<lparr>rx_Events := all\<rparr>)"
    by (simp add: six rx_start_def cap_Events_def)
  then have "rx_run xlate635 (([Receive all_released] @ map Deliver all) @ [Receive all_released])
      (rx_start\<lparr>rx_Events := all, rx_todo := all\<rparr>)"
    by (rule rx_run.step) (metis poll rx_step.receive rx_start_def rx.simps(3) rx.update_convs(2))
  from rx_run_deliver [OF this, of "take 4 all" "drop 4 all"] show ?thesis
    unfolding all_def [symmetric] by (simp add: six rx_start_def cap_Events_def)
qed

lemma taken_events_delivers: "taken_events (map Deliver ks @ ls) = taken_events ls"
  by (induction ks) simp_all

theorem handleIncoming_wedges_witness:
  "\<exists>s. rx_run xlate635 ([] @ [Receive all_released] @ map Deliver (map snd xlate635) @ [Receive all_released] @ map Deliver (take 4 (map snd xlate635))) s
     \<and> length (rx_Events s) = 10 \<and> rx_todo s \<noteq> [] \<and> (\<forall>r t. \<not> rx_step xlate635 s (Receive r) t)"
proof -
  have "taken_events (map Deliver (map snd xlate635) @ map Deliver (take 4 (map snd xlate635))) = []"
    using taken_events_delivers [of "map snd xlate635" "map Deliver (take 4 (map snd xlate635))"]
      taken_events_delivers [of "take 4 (map snd xlate635)" "[]"] by simp
  moreover have "10 < length (packet_events xlate635 all_released) + length (packet_events xlate635 all_released)"
    unfolding all_released_events by (simp add: xlate635_def)
  ultimately have "rx_todo w \<noteq> [] \<and> (\<forall>r t. \<not> rx_step xlate635 w (Receive r) t)"
    if "w = rx_start\<lparr>rx_Events := map snd xlate635 @ take 4 (map snd xlate635), rx_todo := drop 4 (map snd xlate635)\<rparr>" for w
    using handleIncoming_wedges [OF wedged_run all_released_events(2) all_released_events(2)] that by simp
  moreover have "length (map snd xlate635 @ take 4 (map snd xlate635)) = 10"
    by (simp add: xlate635_def)
  ultimately show ?thesis
    using wedged_run by (intro exI conjI) (assumption, simp_all)
qed

end
