(* ===== verification/CfaText.thy ===== *)
theory CfaText
  imports CfaKeys
begin

text \<open>
  Fitting text to the display, from \<open>pkg/hw/cfa/util.go\<close>: word wrap (\<open>fit\<close>, \<open>wrapPos\<close>),
  padding and truncation, and the visible section of a scrolling line.  Text is a byte slice
  (\<open>LcdTxt\<close>); widths and positions are bytes, so their arithmetic wraps at 256.
\<close>

record Coord =
  Col :: u8
  Row :: u8

definition space :: u8 where "space = 0x20"

section \<open>Word wrap\<close>

text \<open>Find a space at or before \<open>width\<close>; 0 when there is none.\<close>

definition wrapPos :: "bytes \<Rightarrow> u8 \<Rightarrow> u8" where
  "wrapPos msg width =
     (if length msg \<le> unat width then to_byte (length msg)
      else case last_index space (take (unat (width + 1)) msg) of
             None \<Rightarrow> 0
           | Some i \<Rightarrow> to_byte i)"

definition nextWrap :: "bytes \<Rightarrow> u8 \<Rightarrow> u8" where
  "nextWrap msg col =
     (if wrapPos msg col = 0 then to_byte (min (length msg) (unat col)) else wrapPos msg col)"

function fit_loop :: "u8 \<Rightarrow> u8 \<Rightarrow> bytes list \<Rightarrow> bytes \<Rightarrow> bytes list" where
  "fit_loop col row ls msg =
     (if msg = [] then ls
      else let n = unat (nextWrap msg col);
               ls' = ls @ [take n msg]
           in if length ls' > unat row then ls'
              else fit_loop col row ls' (trim_left space (drop n msg)))"
  by pat_completeness auto
termination
  by (relation "measure (\<lambda>(col, row, ls, msg). Suc (unat row) - length ls)") auto

declare fit_loop.simps [simp del]

definition fit :: "bytes \<Rightarrow> Coord \<Rightarrow> bytes list" where
  "fit msg rect = fit_loop (Col rect) (Row rect) [] msg"

section \<open>Padding, truncating, the visible section\<close>

definition pad :: "bytes \<Rightarrow> u8 \<Rightarrow> bytes" where
  "pad line w = line @ replicate (unat w - length line) space"

definition truncate :: "bytes \<Rightarrow> u8 \<Rightarrow> bytes" where
  "truncate txt m = (if length txt \<le> unat m then txt else take (unat m) txt)"

definition padcate :: "bytes \<Rightarrow> u8 \<Rightarrow> bytes" where
  "padcate txt w = pad (truncate txt w) w"

definition visible :: "bytes \<Rightarrow> u8 \<Rightarrow> u8 \<Rightarrow> bool \<Rightarrow> bytes" where
  "visible txt start width ellipsis =
     (if unat start \<ge> length txt \<or> width = 0 then []
      else let vis0 = drop (unat start) txt;
               vis = (if length vis0 > unat width then take (unat width) vis0 else vis0)
           in if \<not> ellipsis \<or> width \<le> 3 then vis
              else let out = (if start \<noteq> 0 then vis[0 := SymLtLt] else vis)
                   in if unat (start + width) < length txt
                      then out[length out - 1 := SymGtGt] else out)"

lemma length_padcate [simp]: "length (padcate txt w) = unat w"
  by (simp add: padcate_def pad_def truncate_def)

section \<open>Lines fit\<close>

lemma wrapPos_le: "unat (wrapPos msg col) \<le> unat col \<and> unat (wrapPos msg col) \<le> length msg"
proof (cases "length msg \<le> unat col")
  case True
  then show ?thesis
    using le_less_trans [OF True unat_u8_less] by (simp add: wrapPos_def)
next
  case False
  show ?thesis
  proof (cases "last_index space (take (unat (col + 1)) msg)")
    case None
    with False show ?thesis by (simp add: wrapPos_def)
  next
    case (Some i)
    then have "i < length (take (unat (col + 1)) msg)"
      by (rule last_index_Some [THEN conjunct1])
    moreover have "unat (col + 1) \<le> unat col + 1"
      by (simp add: unat_add_u8)
    ultimately have "i \<le> unat col" by simp
    moreover then have "i < 256"
      using le_less_trans [OF _ unat_u8_less] by blast
    ultimately show ?thesis
      using False Some by (simp add: wrapPos_def)
  qed
qed

lemma nextWrap_le: "unat (nextWrap msg col) \<le> unat col"
proof -
  have "unat (to_byte (min (length msg) (unat col))) \<le> unat col"
    by (simp add: unat_to_byte)
  then show ?thesis
    using wrapPos_le [of msg col] by (simp add: nextWrap_def)
qed

lemma fit_loop_widths:
  assumes "\<forall>l \<in> set ls. length l \<le> unat col"
  shows "\<forall>l \<in> set (fit_loop col row ls msg). length l \<le> unat col"
  using assms
proof (induction col row ls msg rule: fit_loop.induct)
  case (1 col row ls msg)
  have "\<forall>l \<in> set (ls @ [take (unat (nextWrap msg col)) msg]). length l \<le> unat col"
    using "1.prems" nextWrap_le [of msg col] by auto
  with 1 show ?case
    by (simp add: fit_loop.simps [of col row ls msg] Let_def)
qed

lemma fit_loop_count:
  "length ls \<le> unat row \<Longrightarrow> length (fit_loop col row ls msg) \<le> Suc (unat row)"
proof (induction col row ls msg rule: fit_loop.induct)
  case (1 col row ls msg)
  then show ?case
    by (simp add: fit_loop.simps [of col row ls msg] Let_def)
qed

lemma fit_loop_nonempty: "ls \<noteq> [] \<or> msg \<noteq> [] \<Longrightarrow> fit_loop col row ls msg \<noteq> []"
proof (induction col row ls msg rule: fit_loop.induct)
  case (1 col row ls msg)
  then show ?case
    by (auto simp: fit_loop.simps [of col row ls msg] Let_def)
qed

section \<open>Nothing but spaces is lost\<close>

abbreviation ink :: "bytes \<Rightarrow> bytes" where
  "ink \<equiv> filter (\<lambda>c. c \<noteq> space)"

lemma ink_split: "ink (take n xs) @ ink (trim_left space (drop n xs)) = ink xs"
  by (simp flip: filter_append)

lemma fit_loop_ink:
  "\<exists>rest. ink (concat ls) @ ink msg = ink (concat (fit_loop col row ls msg)) @ rest \<and>
     (length (fit_loop col row ls msg) \<le> unat row \<longrightarrow> rest = [])"
proof (induction col row ls msg rule: fit_loop.induct)
  case (1 col row ls msg)
  define n where "n = unat (nextWrap msg col)"
  define ls' where "ls' = ls @ [take n msg]"
  define msg' where "msg' = trim_left space (drop n msg)"
  have ink: "ink (concat ls') @ ink msg' = ink (concat ls) @ ink msg"
    by (simp add: ls'_def msg'_def ink_split del: filter_trim_left)
  have step: "msg \<noteq> [] \<Longrightarrow> fit_loop col row ls msg =
      (if length ls' > unat row then ls' else fit_loop col row ls' msg')"
    by (simp add: fit_loop.simps [of col row ls msg] Let_def n_def ls'_def msg'_def)
  consider "msg = []" | "msg \<noteq> []" "length ls' > unat row" | "msg \<noteq> []" "\<not> length ls' > unat row"
    by blast
  then show ?case
  proof cases
    case 1
    then show ?thesis by (simp add: fit_loop.simps)
  next
    case 2
    with step ink show ?thesis by (auto intro: exI [of _ "ink msg'"])
  next
    case 3
    with "1.IH" [OF 3(1) n_def ls'_def 3(2)] step ink show ?thesis
      by (simp add: msg'_def)
  qed
qed

section \<open>Words stay whole\<close>

text \<open>The words of a text: its maximal runs of non-space bytes.\<close>

function words :: "bytes \<Rightarrow> bytes list" where
  "words [] = []"
| "words (c # cs) =
     (if c = space then words cs
      else (c # takeWhile (\<lambda>x. x \<noteq> space) cs) # words (dropWhile (\<lambda>x. x \<noteq> space) cs))"
  by pat_completeness auto
termination
  by (relation "measure length") (auto simp: length_dropWhile_le le_imp_less_Suc)

lemma words_trim_left [simp]: "words (trim_left space xs) = words xs"
  by (induction xs) (auto simp: trim_left_def)

lemma words_break: "words (xs @ space # ys) = words xs @ words ys"
proof (induction xs rule: words.induct)
  case (2 c cs)
  show ?case
  proof (cases "c = space")
    case True
    with 2 show ?thesis by simp
  next
    case False
    show ?thesis
    proof (cases "space \<in> set cs")
      case True
      with 2 False show ?thesis by simp
    next
      case nosp: False
      then have tw: "takeWhile (\<lambda>x. x \<noteq> space) (cs @ space # ys) = cs"
        and dw: "dropWhile (\<lambda>x. x \<noteq> space) (cs @ space # ys) = space # ys"
        and tw': "takeWhile (\<lambda>x. x \<noteq> space) cs = cs"
        and dw': "dropWhile (\<lambda>x. x \<noteq> space) cs = []"
        by (auto simp: takeWhile_tail takeWhile_append dropWhile_append)
      from False have "words ((c # cs) @ space # ys) = (c # cs) # words (space # ys)"
        by (simp add: tw dw)
      moreover from False have "words (c # cs) = [c # cs]"
        by (simp add: tw' dw')
      ultimately show ?thesis by simp
    qed
  qed
qed simp

lemma word_at_front:
  assumes "n < length msg" and "space \<notin> set (take (Suc n) msg)"
  shows "\<exists>w \<in> set (words msg). Suc n \<le> length w"
proof -
  from assms(1) obtain c cs where msg: "msg = c # cs" by (cases msg) auto
  have "takeWhile (\<lambda>x. x \<noteq> space) (take n cs @ drop n cs) =
      take n cs @ takeWhile (\<lambda>x. x \<noteq> space) (drop n cs)"
    using assms(2) by (intro takeWhile_append2) (auto simp: msg)
  then have "length (takeWhile (\<lambda>x. x \<noteq> space) cs) = length (take n cs @ takeWhile (\<lambda>x. x \<noteq> space) (drop n cs))"
    by simp
  then have "n \<le> length (takeWhile (\<lambda>x. x \<noteq> space) cs)"
    using assms(1) by (simp add: msg)
  then show ?thesis
    using assms(2) by (auto simp: msg)
qed

text \<open>One step of the wrapping loop: a line break falls on a space or ends the text.\<close>

lemma nextWrap_words:
  assumes "msg \<noteq> []" and "hd msg \<noteq> space" and "unat col < 255"
    and short: "\<forall>w \<in> set (words msg). length w \<le> unat col"
  defines "n \<equiv> unat (nextWrap msg col)"
  shows "words (take n msg) @ words (drop n msg) = words msg" and "0 < n"
proof -
  from assms(1,2) obtain c cs where msg: "msg = c # cs" "c \<noteq> space"
    by (cases msg) auto
  have col: "0 < unat col"
    using short msg by auto
  have inc: "unat (col + 1) = unat col + 1"
    using assms(3) by (simp add: unat_add_u8_small)
  show "words (take n msg) @ words (drop n msg) = words msg" and "0 < n"
  proof (atomize (full), cases "length msg \<le> unat col")
    case True
    have "length msg < 256"
      using le_less_trans [OF True unat_u8_less] .
    then have "n = length msg"
      using True by (auto simp: n_def nextWrap_def wrapPos_def)
    then show "words (take n msg) @ words (drop n msg) = words msg \<and> 0 < n"
      using msg by simp
  next
    case False
    show "words (take n msg) @ words (drop n msg) = words msg \<and> 0 < n"
    proof (cases "last_index space (take (unat col + 1) msg)")
      case None
      then have "space \<notin> set (take (Suc (unat col)) msg)"
        by (simp add: last_index_None)
      with False word_at_front [of "unat col" msg] short show ?thesis
        by fastforce
    next
      case (Some i)
      from last_index_Some [OF this] have i: "i \<le> unat col" "i < length msg" "msg ! i = space"
        using False by auto
      then have "0 < i" using msg by (cases i) auto
      moreover have "i < 256" using i(1) unat_u8_less [of col] by linarith
      ultimately have n: "n = i"
        using Some False by (simp add: n_def nextWrap_def wrapPos_def inc)
      have "msg = take i msg @ space # drop (Suc i) msg"
        using id_take_nth_drop [OF i(2)] i(3) by simp
      then have "words msg = words (take i msg) @ words (drop (Suc i) msg)"
        by (metis words_break)
      moreover have "drop i msg = space # drop (Suc i) msg"
        using i by (simp add: Cons_nth_drop_Suc [symmetric])
      ultimately show ?thesis
        using n \<open>0 < i\<close> by simp
    qed
  qed
qed

lemma hd_trim_left: "trim_left space xs \<noteq> [] \<Longrightarrow> hd (trim_left space xs) \<noteq> space"
  using hd_dropWhile [of "\<lambda>x. x = space" xs] by (simp only: trim_left_def not_False_eq_True)

lemma fit_loop_words:
  assumes "unat col < 255" and "msg = [] \<or> hd msg \<noteq> space"
    and "\<forall>w \<in> set (words msg). length w \<le> unat col"
    and "length (fit_loop col row ls msg) \<le> unat row"
  shows "concat (map words (fit_loop col row ls msg)) = concat (map words ls) @ words msg"
  using assms
proof (induction col row ls msg rule: fit_loop.induct)
  case (1 col row ls msg)
  define n where "n = unat (nextWrap msg col)"
  define ls' where "ls' = ls @ [take n msg]"
  define msg' where "msg' = trim_left space (drop n msg)"
  show ?case
  proof (cases "msg = []")
    case True
    then show ?thesis by (simp add: fit_loop.simps)
  next
    case False
    have step: "fit_loop col row ls msg =
        (if length ls' > unat row then ls' else fit_loop col row ls' msg')"
      using False by (simp add: fit_loop.simps [of col row ls msg] Let_def n_def ls'_def msg'_def)
    have ord: "words (take n msg) @ words (drop n msg) = words msg"
      unfolding n_def using "1.prems"(1,2,3) False by (intro nextWrap_words(1)) auto
    have nocut: "\<not> length ls' > unat row"
      using step "1.prems"(4) by auto
    have short: "\<forall>w \<in> set (words msg'). length w \<le> unat col"
      using "1.prems"(3) ord [symmetric] by (simp add: msg'_def)
    have "msg' = [] \<or> hd msg' \<noteq> space"
      unfolding msg'_def using hd_trim_left by blast
    from "1.IH" [OF False n_def ls'_def nocut, folded msg'_def, OF "1.prems"(1) this short]
    have "concat (map words (fit_loop col row ls' msg')) = concat (map words ls') @ words msg'"
      using step nocut "1.prems"(4) by simp
    then show ?thesis
      using step nocut ord by (simp add: ls'_def msg'_def)
  qed
qed

section \<open>Properties\<close>

text \<open>C7: word wrap always fits its rectangle (no line wider than \<open>Col\<close>, at most \<open>Row + 1\<close>
  lines, for any text and any rectangle, even an empty one), shows the text's non-space bytes in
  order from the beginning, and shows all of them when it did not run out of lines.\<close>

theorem fit_correct:
  "(\<forall>l \<in> set (fit msg rect). length l \<le> unat (Col rect)) \<and>
   length (fit msg rect) \<le> Suc (unat (Row rect)) \<and>
   (\<exists>rest. ink msg = ink (concat (fit msg rect)) @ rest \<and>
      (length (fit msg rect) \<le> unat (Row rect) \<longrightarrow> rest = []))"
  using fit_loop_widths [of "[]" "Col rect" "Row rect" msg]
    fit_loop_count [of "[]" "Row rect" "Col rect" msg]
    fit_loop_ink [of "[]" msg "Col rect" "Row rect"]
  by (simp add: fit_def)

lemma fit_correct_witness:
  "length (fit [0x61, 0x20, 0x62] \<lparr>Col = 1, Row = 3\<rparr>) \<le> 4 \<and>
   list_all (\<lambda>l. length l \<le> 1) (fit [0x61, 0x20, 0x62] \<lparr>Col = 1, Row = 3\<rparr>)"
  using fit_correct [of "[0x61, 0x20, 0x62]" "\<lparr>Col = 1, Row = 3\<rparr>"] by (simp add: list_all_iff)

text \<open>Word wrap breaks lines between words only.  If the text does not start with a space, no
  word is wider than the rectangle, and the lines did not run out, then the words of the lines, in
  order, are exactly the words of the text.\<close>

theorem fit_keeps_words:
  assumes "unat (Col rect) < 255" and "msg = [] \<or> hd msg \<noteq> space"
    and "\<forall>w \<in> set (words msg). length w \<le> unat (Col rect)"
    and "length (fit msg rect) \<le> unat (Row rect)"
  shows "concat (map words (fit msg rect)) = words msg"
  using fit_loop_words [of "Col rect" msg "Row rect" "[]"] assms by (simp add: fit_def)

lemma fit_keeps_words_witness:
  "concat (map words (fit [0x61, 0x20, 0x62] \<lparr>Col = 2, Row = 3\<rparr>)) = [[0x61], [0x62]]"
proof -
  have ev: "fit [0x61, 0x20, 0x62] \<lparr>Col = 2, Row = 3\<rparr> = [[0x61], [0x62]]"
    by (simp add: fit_def fit_loop.simps nextWrap_def wrapPos_def space_def trim_left_def)
  show ?thesis
    using fit_keeps_words [of "\<lparr>Col = 2, Row = 3\<rparr>" "[0x61, 0x20, 0x62]"]
    by (simp add: ev space_def)
qed

text \<open>The visible section of a scrolling line.  It is never wider than asked for; each cell
  shows the byte of the text at that scroll position, except that, where at least four cells are
  available and no byte arithmetic wraps, the last cell shows the >> mark exactly when text is
  hidden on the right, and the first cell the << mark when text is hidden on the left.\<close>

theorem visible_cells:
  assumes "unat start < length txt" and "3 < width" and "unat start + unat width < 256"
  shows "let out = visible txt start width True in
    length out = min (unat width) (length txt - unat start) \<and>
    (\<forall>i < length out. out ! i =
       (if i = length out - 1 \<and> unat start + unat width < length txt then SymGtGt
        else if i = 0 \<and> start \<noteq> 0 then SymLtLt else txt ! (unat start + i)))"
proof -
  define vis where "vis = take (unat width) (drop (unat start) txt)"
  have w: "width \<noteq> 0" "\<not> width \<le> 3"
    using assms(2) by auto
  have vis: "(if length (drop (unat start) txt) > unat width
      then take (unat width) (drop (unat start) txt) else drop (unat start) txt) = vis"
    by (simp add: vis_def)
  have len: "length vis = min (unat width) (length txt - unat start)"
    by (simp add: vis_def min.commute)
  have cells: "vis ! i = txt ! (unat start + i)" if "i < length vis" for i
    using that assms(1) by (simp add: vis_def)
  have sum: "unat (start + width) = unat start + unat width"
    using assms(3) by (simp add: unat_add_u8_small)
  have "visible txt start width True =
      (let out = (if start \<noteq> 0 then vis[0 := SymLtLt] else vis)
       in if unat start + unat width < length txt then out[length out - 1 := SymGtGt] else out)"
    unfolding visible_def vis sum Let_def using assms(1) by (simp add: w)
  then show ?thesis
    using len cells by (auto simp: Let_def nth_list_update)
qed

lemma visible_cells_witness:
  "let out = visible [1, 2, 3, 4, 5, 6, 7] 1 4 True in
     out ! 0 = SymLtLt \<and> out ! 1 = 3 \<and> out ! 3 = SymGtGt"
  using visible_cells [of 1 "[1, 2, 3, 4, 5, 6, 7]" 4] by (auto simp: Let_def)

end
