(* ===== verification/CfaLcd.thy ===== *)
theory CfaLcd
  imports CfaSerial CfaText
begin

text \<open>
  The LCD driver: \<open>pkg/hw/cfa/lcd.go\<close>, the drawing helpers of \<open>util.go\<close>, \<open>setLegend\<close> and
  \<open>setupKeyReporting\<close> of \<open>buttons.go\<close>, and the backlight (\<open>backlight.go\<close>).  An operation takes
  the \<open>Lcd\<close> and returns its result and the new \<open>Lcd\<close>.  The mutex is not part of the state: every
  operation here runs with it held.  Log output is left out.
\<close>

section \<open>State\<close>

record storableState =
  st_pressMask :: u8
  st_releaseMask :: u8
  st_backlight :: u8
  st_ignoreState :: bool

record Lcd =
  l_dev :: SerialDev
  l_dims :: Coord
  l_model :: Model
  l_legend :: Legend
  l_legendWidth :: u8
  l_prevState :: storableState

section \<open>Commands\<close>

definition sendCmd :: "u8 \<Rightarrow> bytes \<Rightarrow> Lcd \<Rightarrow> (cfa_error + u8 \<times> bytes) \<times> Lcd" where
  "sendCmd cmd d l =
     (case SetCommand cmd zero_pkt of
        Inl e \<Rightarrow> (Inl e, l)
      | Inr p0 \<Rightarrow>
          (case SetData d p0 of
             Inl e \<Rightarrow> (Inl e, l)
           | Inr p \<Rightarrow>
               (case sendPktRetry p (l_dev l) of
                  (Inl e, sd) \<Rightarrow> (Inl e, l\<lparr>l_dev := sd\<rparr>)
                | (Inr resp, sd) \<Rightarrow> (Inr (p_command resp, pkt_Data resp), l\<lparr>l_dev := sd\<rparr>))))"

definition result_err :: "cfa_error + 'a \<Rightarrow> cfa_error option" where
  "result_err r = (case r of Inl e \<Rightarrow> Some e | Inr _ \<Rightarrow> None)"

definition sendCmd_err :: "u8 \<Rightarrow> bytes \<Rightarrow> Lcd \<Rightarrow> cfa_error option \<times> Lcd" where
  "sendCmd_err cmd d l = (case sendCmd cmd d l of (r, l') \<Rightarrow> (result_err r, l'))"

definition Width :: "Lcd \<Rightarrow> u8" where
  "Width l = Col (l_dims l) - l_legendWidth l + 1"

definition lcd_write :: "Coord \<Rightarrow> bytes \<Rightarrow> bool \<Rightarrow> Lcd \<Rightarrow> cfa_error option \<times> Lcd" where
  "lcd_write start txt clear l =
     (if to_byte (length txt) + Col start > Width l then (Some ELen, l)
      else if Col start > Col (l_dims l) \<or> Row start > Row (l_dims l) then (Some ERange, l)
      else let blanks = (if clear then Width l - Col start - to_byte (length txt) else 0)
           in sendCmd_err Cmd_WriteDisp
                (Col start # Row start # txt @ replicate (unat blanks) 0x20) l)"

definition writeByte :: "Coord \<Rightarrow> u8 \<Rightarrow> Lcd \<Rightarrow> cfa_error option \<times> Lcd" where
  "writeByte start b l =
     (if Col start > Col (l_dims l) \<or> Row start > Row (l_dims l) then (Some ERange, l)
      else sendCmd_err Cmd_WriteDisp [Col start, Row start, b] l)"

definition lcd_clear :: "Lcd \<Rightarrow> cfa_error option \<times> Lcd" where
  "lcd_clear l = sendCmd_err Cmd_Clear [] l"

definition setCursorStyle :: "u8 \<Rightarrow> Lcd \<Rightarrow> Lcd" where
  "setCursorStyle s l = (if s > 4 then l else snd (sendCmd Cmd_SetCursorStyle [s] l))"

definition hideCursor :: "Lcd \<Rightarrow> Lcd" where
  "hideCursor l = setCursorStyle 0 l"

definition setCursorPosition :: "Coord \<Rightarrow> Lcd \<Rightarrow> Lcd" where
  "setCursorPosition p l =
     (if Col p > Col (l_dims l) \<or> Row p > Row (l_dims l) then l
      else snd (sendCmd Cmd_SetCursorPos [Col p, Row p] l))"

definition Fits :: "bytes \<Rightarrow> Lcd \<Rightarrow> bool" where
  "Fits txt l \<longleftrightarrow> length txt \<le> unat (Width l)"

definition pollKeys :: "Lcd \<Rightarrow> cfa_error option \<times> Lcd" where
  "pollKeys l =
     (case sendOnly (zero_pkt\<lparr>p_command := Cmd_ReadKeysPolled\<rparr>) (l_dev l) of
        (e, sd) \<Rightarrow> (e, l\<lparr>l_dev := sd\<rparr>))"

text \<open>\<open>backlight.go\<close>, without the sine wave (floating point).\<close>

definition setBacklight :: "u8 \<Rightarrow> Lcd \<Rightarrow> cfa_error option \<times> Lcd" where
  "setBacklight bright l = sendCmd_err Cmd_SetBacklight [bright] l"

definition toggleBacklight :: "u8 \<Rightarrow> Lcd \<Rightarrow> u8 \<times> cfa_error option \<times> Lcd" where
  "toggleBacklight b l = (100 - b, setBacklight (100 - b) l)"

definition defaultBacklight :: "Lcd \<Rightarrow> cfa_error option \<times> Lcd" where
  "defaultBacklight l = setBacklight (st_backlight (l_prevState l)) l"

section \<open>Saving and restoring the display's settings\<close>

definition captureState :: "Lcd \<Rightarrow> cfa_error option \<times> Lcd" where
  "captureState l =
     (case sendCmd Cmd_ReadReprtStat [] l of
        (Inl e, l1) \<Rightarrow> (Some e, l1\<lparr>l_prevState := (l_prevState l1)\<lparr>st_ignoreState := True\<rparr>\<rparr>)
      | (Inr (_, d), l1) \<Rightarrow>
          (if length d \<noteq> 15 then
             (Some ErrInvalid, l1\<lparr>l_prevState := (l_prevState l1)\<lparr>st_ignoreState := True\<rparr>\<rparr>)
           else (None, l1\<lparr>l_prevState := (l_prevState l1)
                  \<lparr>st_pressMask := d ! 5, st_releaseMask := d ! 6, st_backlight := d ! 14\<rparr>\<rparr>)))"

definition restoreState :: "Lcd \<Rightarrow> cfa_error option \<times> Lcd" where
  "restoreState l =
     (if st_ignoreState (l_prevState l) then (None, l)
      else let l1 = snd (sendCmd Cmd_CfgKeyReports
                           [st_pressMask (l_prevState l), st_releaseMask (l_prevState l)] l)
           in sendCmd_err Cmd_SetBacklight [st_backlight (l_prevState l1)] l1)"

section \<open>Key reporting and legends\<close>

definition setupKeyReporting :: "bool \<Rightarrow> bool \<Rightarrow> Lcd \<Rightarrow> Lcd" where
  "setupKeyReporting press release l =
     (let mask = (if l_model l = Cfa635 then KP_ALL_635 else KP_ALL_631)
      in snd (sendCmd Cmd_CfgKeyReports
                [if press then mask else 0, if release then mask else 0] l))"

text \<open>The arrows drawn on the larger display, and whether they take up a column.\<close>

fun legend_arrows :: "Legend \<Rightarrow> u8 \<times> u8 \<times> u8" where
  "legend_arrows LegendUVDX = (SymUp, SymDown, legendWidth_635)"
| "legend_arrows LegendUV_X = (SymUp, SymCaron, legendWidth_635)"
| "legend_arrows Legend_VDX = (SymCaret, SymDown, legendWidth_635)"
| "legend_arrows _ = (SymSpace, SymSpace, 0)"

definition setLegend :: "Legend \<Rightarrow> bool \<Rightarrow> Lcd \<Rightarrow> Lcd" where
  "setLegend legend also635 l =
     (if l_legend l = legend then l
      else case l_model l of
        Cfa631 \<Rightarrow>
          (let l1 = l\<lparr>l_legendWidth := legendWidth_631\<rparr>;
               l2 = snd (sendCmd Cmd_KeyLegendOnOffMask
                           (LegendValues_Bytes (Legend_Values legend)) l1)
           in l2\<lparr>l_legend := legend\<rparr>)
      | Cfa635 \<Rightarrow>
          (if \<not> also635 then l\<lparr>l_legend := LegendNone, l_legendWidth := 0\<rparr>
           else case legend_arrows legend of (upchar, downchar, w) \<Rightarrow>
             (let l1 = l\<lparr>l_legendWidth := w\<rparr>;
                  l2 = snd (writeByte \<lparr>Col = 19, Row = 0\<rparr> upchar l1);
                  l3 = snd (writeByte \<lparr>Col = 19, Row = 3\<rparr> downchar l2)
              in l3\<lparr>l_legend := legend\<rparr>)))"

section \<open>Windows and lines\<close>

text \<open>
  The row counters are bytes, so a window ending in row 255 would be drawn for ever if every
  write succeeded; \<open>None\<close> is such a call.
\<close>

partial_function (option) writeWindow_from ::
    "Coord \<Rightarrow> Coord \<Rightarrow> bytes list \<Rightarrow> u8 \<Rightarrow> Lcd \<Rightarrow> (cfa_error option \<times> Lcd) option" where
  "writeWindow_from start dims ls r l =
     (if r \<le> Row start + Row dims then
        (case lcd_write \<lparr>Col = Col start, Row = r\<rparr>
                (padcate (if ls = [] then [] else hd ls) (Col dims)) False l of
           (e, l1) \<Rightarrow>
             (case e of
                Some err \<Rightarrow> Some (Some err, l1)
              | None \<Rightarrow> writeWindow_from start dims (tl ls) (r + 1) l1))
      else Some (None, l))"

definition writeWindow ::
    "Coord \<Rightarrow> Coord \<Rightarrow> bytes list \<Rightarrow> Lcd \<Rightarrow> (cfa_error option \<times> Lcd) option" where
  "writeWindow start dims ls l = writeWindow_from start dims ls (Row start) l"

partial_function (option) writeLines_from ::
    "Coord \<Rightarrow> bytes list \<Rightarrow> u8 \<Rightarrow> Coord \<Rightarrow> Lcd \<Rightarrow> ((cfa_error + Coord) \<times> Lcd) option" where
  "writeLines_from mx ls line fin l =
     (if line \<le> Row mx then
        (case lcd_write \<lparr>Col = 0, Row = line\<rparr> (if ls = [] then [] else hd ls) True l of
           (e, l1) \<Rightarrow>
             (case e of
                Some err \<Rightarrow> Some (Inl err, l1)
              | None \<Rightarrow>
                  writeLines_from mx (tl ls) (line + 1)
                    (if ls = [] then fin else \<lparr>Col = to_byte (length (hd ls)), Row = line\<rparr>) l1))
      else Some (Inr fin, l))"

definition writeLines :: "bytes list \<Rightarrow> Coord \<Rightarrow> Lcd \<Rightarrow> ((cfa_error + Coord) \<times> Lcd) option" where
  "writeLines ls mx l = writeLines_from mx ls 0 \<lparr>Col = 0, Row = 0\<rparr> l"

definition Msg :: "bytes \<Rightarrow> Lcd \<Rightarrow> ((cfa_error + Coord) \<times> Lcd) option" where
  "Msg message l =
     (if message = [] then Some (Inr \<lparr>Col = 0, Row = 0\<rparr>, l)
      else writeLines (fit message (l_dims l)) (l_dims l) l)"

section \<open>What reaches the wire\<close>

definition is_ping :: "pktNoCrc \<Rightarrow> bool" where
  "is_ping q \<longleftrightarrow> (\<exists>n. q = ping_pkt n)"

definition out_pkt :: "u8 \<Rightarrow> bytes \<Rightarrow> pktNoCrc" where
  "out_pkt cmd d = \<lparr>p_command = cmd, p_data_length = to_byte (length d),
     p_data = d @ replicate (MAX_DATA_LENGTH - length d) 0\<rparr>"

text \<open>From \<open>l\<close> to \<open>l'\<close> only packets satisfying \<open>P\<close> (and keep-alive pings) went out.\<close>

definition emits :: "(pktNoCrc \<Rightarrow> bool) \<Rightarrow> Lcd \<Rightarrow> Lcd \<Rightarrow> bool" where
  "emits P l l' \<longleftrightarrow> (\<exists>ws. sd_out (l_dev l') = sd_out (l_dev l) @ ws \<and> (\<forall>q \<in> set ws. is_ping q \<or> P q))"

text \<open>Between \<open>l\<close> and \<open>l'\<close> the packet \<open>q\<close> went out.\<close>

definition sent :: "pktNoCrc \<Rightarrow> Lcd \<Rightarrow> Lcd \<Rightarrow> bool" where
  "sent q l l' \<longleftrightarrow> (\<exists>ws. sd_out (l_dev l') = sd_out (l_dev l) @ ws \<and> q \<in> set ws)"

lemma emits_refl [simp]: "emits P l l"
  by (simp add: emits_def)

lemma emits_trans: "emits P l l1 \<Longrightarrow> emits P l1 l2 \<Longrightarrow> emits P l l2"
  by (force simp: emits_def)

lemma emits_mono: "emits P l l' \<Longrightarrow> (\<And>q. P q \<Longrightarrow> Q q) \<Longrightarrow> emits Q l l'"
  by (force simp: emits_def)

lemma emits_cong [sent_simps]:
  "l_dev l1 = l_dev l \<Longrightarrow> emits P l1 l' = emits P l l'"
  "l_dev l2 = l_dev l' \<Longrightarrow> emits P l l2 = emits P l l'"
  by (simp_all add: emits_def)

lemma sent_emits_trans: "sent q l l1 \<Longrightarrow> emits P l1 l2 \<Longrightarrow> sent q l l2"
  by (force simp: sent_def emits_def)

lemma emits_sent_trans: "emits P l l1 \<Longrightarrow> sent q l1 l2 \<Longrightarrow> sent q l l2"
  by (force simp: sent_def emits_def)

lemma SetCommand_zero: "SetCommand cmd zero_pkt = Inr p0 \<Longrightarrow> p0 = zero_pkt\<lparr>p_command := cmd\<rparr>"
  by (simp add: SetCommand_def split: if_splits)

lemma sendCmd_packet:
  assumes "SetCommand cmd zero_pkt = Inr p0" and "SetData d p0 = Inr p"
  shows "p = out_pkt cmd d" and "wf_pkt p" and "length d \<le> MAX_DATA_LENGTH"
proof -
  show "length d \<le> MAX_DATA_LENGTH"
    using assms(2) by (simp add: SetData_def split: if_splits)
  with assms(2) show "p = out_pkt cmd d"
    by (simp add: SetData_def SetCommand_zero [OF assms(1)] out_pkt_def zero_pkt_def)
  show "wf_pkt p"
    using SetData_wf [OF SetCommand_wf [OF wf_zero_pkt assms(1)] assms(2)] .
qed

lemma sendCmd_emits:
  "emits (\<lambda>q. q = out_pkt cmd d \<and> length d \<le> MAX_DATA_LENGTH) l (snd (sendCmd cmd d l))"
proof -
  have "emits (\<lambda>q. q = p) l (l\<lparr>l_dev := sd\<rparr>)" if "wf_pkt p" "sendPktRetry p (l_dev l) = (r, sd)" for p r sd
    using sendPktRetry_from_trace [OF that(1), of "MaxTries + 1" "l_dev l" r sd] that(2)
    by (fastforce simp: emits_def sendPktRetry_def retry_trace_def is_ping_def)
  then have "emits (\<lambda>q. q = out_pkt cmd d \<and> length d \<le> MAX_DATA_LENGTH) l (l\<lparr>l_dev := sd\<rparr>)"
    if "SetCommand cmd zero_pkt = Inr p0" "SetData d p0 = Inr p" "sendPktRetry p (l_dev l) = (r, sd)"
    for p0 p r sd
    using that(3) sendCmd_packet [OF that(1,2)] by simp
  then show ?thesis
    by (auto simp: sendCmd_def split: sum.splits prod.splits)
qed

lemma sendCmd_sent:
  assumes "sendCmd cmd d l = (Inr r, l')"
  shows "sent (out_pkt cmd d) l l'"
proof -
  from assms obtain p0 p resp sd where p: "SetCommand cmd zero_pkt = Inr p0" "SetData d p0 = Inr p"
    and r: "sendPktRetry p (l_dev l) = (Inr resp, sd)" and l': "l' = l\<lparr>l_dev := sd\<rparr>"
    by (auto simp: sendCmd_def split: sum.splits prod.splits)
  from sendPktRetry_from_sends [OF sendCmd_packet(2) [OF p], of "l_dev l" MaxTries] r
  have "prefix (sd_out (l_dev l) @ [p]) (sd_out sd)"
    by (simp add: sendPktRetry_def del: sendPktRetry_from.simps)
  then show ?thesis
    by (auto simp: sent_def l' sendCmd_packet(1) [OF p] elim: prefixE)
qed

text \<open>Commands change nothing of the \<open>Lcd\<close> but its device.\<close>

lemma sendCmd_frame: "\<exists>sd. snd (sendCmd cmd d l) = l\<lparr>l_dev := sd\<rparr>"
  by (auto simp: sendCmd_def split: sum.splits prod.splits intro: exI [of _ "l_dev l"])

lemma sendCmd_fields [simp, frame_simps]:
  "l_dims (snd (sendCmd cmd d l)) = l_dims l"
  "l_model (snd (sendCmd cmd d l)) = l_model l"
  "l_legend (snd (sendCmd cmd d l)) = l_legend l"
  "l_legendWidth (snd (sendCmd cmd d l)) = l_legendWidth l"
  "l_prevState (snd (sendCmd cmd d l)) = l_prevState l"
  "Width (snd (sendCmd cmd d l)) = Width l"
  using sendCmd_frame [of cmd d l] by (auto simp: Width_def)

lemma snd_sendCmd_err [simp]: "snd (sendCmd_err cmd d l) = snd (sendCmd cmd d l)"
  by (simp add: sendCmd_err_def split: prod.splits)

lemma sendCmd_err_sent: "sendCmd_err cmd d l = (None, l') \<Longrightarrow> sent (out_pkt cmd d) l l'"
  by (auto simp: sendCmd_err_def result_err_def sendCmd_sent split: prod.splits sum.splits)

text \<open>A display as \<open>connectTo\<close> sets it up, with a legend of at most three columns.\<close>

definition lcd_ok :: "Lcd \<Rightarrow> bool" where
  "lcd_ok l \<longleftrightarrow> Col (l_dims l) = 19 \<and> (Row (l_dims l) = 1 \<or> Row (l_dims l) = 3) \<and> l_legendWidth l \<le> 3"

lemma lcd_ok_sendCmd [simp]: "lcd_ok (snd (sendCmd cmd d l)) = lcd_ok l"
  by (simp add: lcd_ok_def)

lemma lcd_ok_Width:
  assumes "lcd_ok l"
  shows "unat (Width l) = 20 - unat (l_legendWidth l)" and "unat (Width l) \<le> 20" and "17 \<le> unat (Width l)"
proof -
  have "unat (l_legendWidth l) \<le> 3"
    using assms by (simp add: lcd_ok_def u8_le_iff)
  moreover have "unat (20 - l_legendWidth l) = 20 - unat (l_legendWidth l)"
    using calculation by (subst unat_sub) (simp_all add: word_le_nat_alt)
  ultimately show "unat (Width l) = 20 - unat (l_legendWidth l)" and "unat (Width l) \<le> 20"
    and "17 \<le> unat (Width l)"
    using assms by (simp_all add: Width_def lcd_ok_def unat_add_u8_small)
qed

section \<open>Drawing stays where it should\<close>

text \<open>The packet that shows \<open>txt\<close> from column \<open>col\<close> of row \<open>row\<close>.\<close>

definition disp_pkt :: "u8 \<Rightarrow> u8 \<Rightarrow> bytes \<Rightarrow> pktNoCrc" where
  "disp_pkt col row txt = out_pkt Cmd_WriteDisp (col # row # txt)"

definition write_body :: "Coord \<Rightarrow> bytes \<Rightarrow> bool \<Rightarrow> Lcd \<Rightarrow> bytes" where
  "write_body start txt clear l =
     txt @ replicate (if clear then unat (Width l - Col start - to_byte (length txt)) else 0) 0x20"

definition write_passes :: "Coord \<Rightarrow> bytes \<Rightarrow> Lcd \<Rightarrow> bool" where
  "write_passes start txt l \<longleftrightarrow> to_byte (length txt) + Col start \<le> Width l \<and>
     Col start \<le> Col (l_dims l) \<and> Row start \<le> Row (l_dims l)"

lemma lcd_write_rejected:
  "\<not> write_passes start txt l \<Longrightarrow> \<exists>e. lcd_write start txt clear l = (Some e, l)"
  by (auto simp: write_passes_def lcd_write_def)

lemma lcd_write_passed:
  "write_passes start txt l \<Longrightarrow> lcd_write start txt clear l =
     sendCmd_err Cmd_WriteDisp (Col start # Row start # write_body start txt clear l) l"
  by (auto simp: write_passes_def lcd_write_def write_body_def Let_def not_less)

lemma lcd_write_cases:
  obtains (rejected) e where "lcd_write start txt clear l = (Some e, l)"
  | (passed) "lcd_write start txt clear l =
       sendCmd_err Cmd_WriteDisp (Col start # Row start # write_body start txt clear l) l"
     "to_byte (length txt) + Col start \<le> Width l" "Col start \<le> Col (l_dims l)" "Row start \<le> Row (l_dims l)"
  using lcd_write_rejected [of start "txt" l "clear"] lcd_write_passed [of start "txt" l "clear"]
  by (cases "write_passes start txt l") (auto simp: write_passes_def)

text \<open>The byte-wide bounds check cannot be fooled: what survives the packet size limit of 22 has
  no carry left to hide.\<close>

lemma write_body_bounds:
  assumes "lcd_ok l" and "to_byte (length txt) + Col start \<le> Width l" and "Col start \<le> Col (l_dims l)"
    and "length (Col start # Row start # write_body start txt clear l) \<le> MAX_DATA_LENGTH"
  shows "unat (Col start) + length txt \<le> unat (Width l)"
    and "length (write_body start txt clear l) =
      (if clear then unat (Width l) - unat (Col start) else length txt)"
proof -
  have len: "length txt \<le> 20"
    using assms(4) by (simp add: write_body_def MAX_DATA_LENGTH_def)
  have col: "unat (Col start) \<le> 19"
    using assms(1,3) by (simp add: lcd_ok_def u8_le_iff)
  have fits: "unat (Col start) + length txt \<le> unat (Width l)"
    using assms(2) len col by (simp add: u8_le_iff unat_add_u8)
  have "unat (Width l - Col start) = unat (Width l) - unat (Col start)"
    using fits by (intro unat_sub) (simp add: u8_le_iff)
  then have "unat (Width l - Col start - to_byte (length txt)) = unat (Width l) - unat (Col start) - length txt"
    using fits len by (subst unat_sub) (simp_all add: u8_le_iff)
  with fits show "unat (Col start) + length txt \<le> unat (Width l)"
    and "length (write_body start txt clear l) =
      (if clear then unat (Width l) - unat (Col start) else length txt)"
    by (simp_all add: write_body_def)
qed

lemma lcd_write_fields [simp, frame_simps]:
  "l_dims (snd (lcd_write start txt clear l)) = l_dims l"
  "l_model (snd (lcd_write start txt clear l)) = l_model l"
  "l_legend (snd (lcd_write start txt clear l)) = l_legend l"
  "l_legendWidth (snd (lcd_write start txt clear l)) = l_legendWidth l"
  "l_prevState (snd (lcd_write start txt clear l)) = l_prevState l"
  "Width (snd (lcd_write start txt clear l)) = Width l"
  "lcd_ok (snd (lcd_write start txt clear l)) = lcd_ok l"
  by (cases rule: lcd_write_cases [of start "txt" clear l]; simp)+

text \<open>Only the device changed.\<close>

definition only_dev :: "Lcd \<Rightarrow> Lcd \<Rightarrow> bool" where
  "only_dev l l' \<longleftrightarrow> (\<exists>sd. l' = l\<lparr>l_dev := sd\<rparr>)"

lemma only_dev_refl [simp]: "only_dev l l"
  by (auto simp: only_dev_def intro: exI [of _ "l_dev l"])

lemma only_dev_trans: "only_dev l l1 \<Longrightarrow> only_dev l1 l2 \<Longrightarrow> only_dev l l2"
  by (auto simp: only_dev_def)

lemma only_dev_sendCmd [simp]: "only_dev l (snd (sendCmd cmd d l))"
  using sendCmd_frame by (simp add: only_dev_def)

lemma only_dev_lcd_write [simp]: "only_dev l (snd (lcd_write start txt clear l))"
  by (cases rule: lcd_write_cases [of start "txt" "clear" l]) simp_all

lemma only_dev_fields:
  assumes "only_dev l l'"
  shows "l_dims l' = l_dims l" "l_model l' = l_model l" "l_legend l' = l_legend l"
    "l_legendWidth l' = l_legendWidth l" "l_prevState l' = l_prevState l"
    "Width l' = Width l" "lcd_ok l' = lcd_ok l"
  using assms by (auto simp: only_dev_def Width_def lcd_ok_def)

lemma lcd_write_emits:
  assumes "lcd_ok l"
  shows "emits (\<lambda>q. q = disp_pkt (Col start) (Row start) (write_body start txt clear l) \<and>
      unat (Col start) + length (write_body start txt clear l) \<le> unat (Width l) \<and>
      Row start \<le> Row (l_dims l)) l (snd (lcd_write start txt clear l))"
proof (cases rule: lcd_write_cases [of start "txt" clear l])
  case rejected
  then show ?thesis by simp
next
  case passed
  then show ?thesis
    using write_body_bounds [OF assms passed(2,3), of clear]
    by (auto simp: disp_pkt_def intro!: emits_mono [OF sendCmd_emits])
qed

lemma lcd_write_sent:
  assumes "lcd_write start txt clear l = (None, l')"
  shows "sent (disp_pkt (Col start) (Row start) (write_body start txt clear l)) l l'"
  using assms
  by (cases rule: lcd_write_cases [of start "txt" clear l])
    (simp_all add: disp_pkt_def sendCmd_err_sent)

section \<open>Windows\<close>

definition line_at :: "bytes list \<Rightarrow> nat \<Rightarrow> bytes" where
  "line_at ls i = (if i < length ls then ls ! i else [])"

lemma line_at_0: "line_at ls 0 = (if ls = [] then [] else hd ls)"
  by (cases ls) (simp_all add: line_at_def)

lemma line_at_tl: "line_at (tl ls) i = line_at ls (Suc i)"
  by (cases ls) (simp_all add: line_at_def)

text \<open>The packet for row \<open>r + i\<close> of a window.\<close>

definition window_pkt :: "Coord \<Rightarrow> Coord \<Rightarrow> bytes list \<Rightarrow> u8 \<Rightarrow> nat \<Rightarrow> pktNoCrc" where
  "window_pkt start dims ls r i =
     disp_pkt (Col start) (r + to_byte i) (padcate (line_at ls i) (Col dims))"

lemma window_pkt_Suc: "window_pkt start dims (tl ls) (r + 1) i = window_pkt start dims ls r (Suc i)"
  by (simp add: window_pkt_def line_at_tl add.assoc)

definition in_window :: "Coord \<Rightarrow> Coord \<Rightarrow> Lcd \<Rightarrow> u8 \<Rightarrow> nat \<Rightarrow> bool" where
  "in_window start dims l r i \<longleftrightarrow>
     unat r + i \<le> unat (Row start + Row dims) \<and> unat r + i \<le> unat (Row (l_dims l)) \<and>
     unat (Col start) + unat (Col dims) \<le> unat (Width l)"

lemma lcd_write_plain_emits:
  assumes "lcd_ok l"
  shows "emits (\<lambda>q. q = disp_pkt (Col start) (Row start) t \<and>
      unat (Col start) + length t \<le> unat (Width l) \<and> Row start \<le> Row (l_dims l))
    l (snd (lcd_write start t False l))"
  using lcd_write_emits [OF assms, of start t False] by (simp add: write_body_def)

lemma lcd_write_plain_sent:
  "lcd_write start t False l = (None, l') \<Longrightarrow> sent (disp_pkt (Col start) (Row start) t) l l'"
  by (drule lcd_write_sent) (simp add: write_body_def)

lemma lcd_write_row:
  "lcd_write start t b l = (None, l') \<Longrightarrow> Row start \<le> Row (l_dims l)"
  by (cases rule: lcd_write_cases [of start t b l]) auto

definition window_done where
  "window_done start dims ls r l res \<longleftrightarrow> (\<exists>e l'. res = Some (e, l') \<and> lcd_ok l' \<and> only_dev l l' \<and>
     emits (\<lambda>q. \<exists>i. q = window_pkt start dims ls r i \<and> in_window start dims l r i) l l' \<and>
     (e = None \<longrightarrow> (\<forall>i. unat r + i \<le> unat (Row start + Row dims) \<longrightarrow>
        sent (window_pkt start dims ls r i) l l')))"

lemma window_done_step:
  assumes "lcd_ok l" and r: "r \<le> Row start + Row dims" and row: "r \<le> Row (l_dims l)"
    and w: "lcd_write \<lparr>Col = Col start, Row = r\<rparr> (padcate (line_at ls 0) (Col dims)) False l = (None, l1)"
    and rest: "window_done start dims (tl ls) (r + 1) l1 res"
  shows "window_done start dims ls r l res"
proof -
  have inc: "unat (r + 1) = Suc (unat r)"
    using assms(1) row by (auto simp: lcd_ok_def u8_le_iff unat_add_u8_small)
  have same: "l_dims l1 = l_dims l" "Width l1 = Width l"
    using lcd_write_fields [of "\<lparr>Col = Col start, Row = r\<rparr>" "padcate (line_at ls 0) (Col dims)" False l] w
    by simp_all
  have dev: "only_dev l l1"
    using only_dev_lcd_write [of l "\<lparr>Col = Col start, Row = r\<rparr>" "padcate (line_at ls 0) (Col dims)" False] w
    by simp
  from rest obtain e l' where res: "res = Some (e, l')" "lcd_ok l'" and dev': "only_dev l1 l'"
    and em: "emits (\<lambda>q. \<exists>i. q = window_pkt start dims ls r (Suc i) \<and> in_window start dims l1 (r + 1) i) l1 l'"
    and ok: "e = None \<Longrightarrow> unat (r + 1) + i \<le> unat (Row start + Row dims) \<Longrightarrow>
      sent (window_pkt start dims ls r (Suc i)) l1 l'" for i
    by (auto simp: window_done_def window_pkt_Suc)
  have em1: "emits (\<lambda>q. q = window_pkt start dims ls r 0 \<and> in_window start dims l r 0) l l1"
    using lcd_write_plain_emits [OF assms(1), of "\<lparr>Col = Col start, Row = r\<rparr>" "padcate (line_at ls 0) (Col dims)"] w r row
    by (auto simp: window_pkt_def in_window_def u8_le_iff elim: emits_mono)
  have sent1: "sent (window_pkt start dims ls r 0) l l1"
    using lcd_write_plain_sent [OF w] by (simp add: window_pkt_def)
  have "emits (\<lambda>q. \<exists>i. q = window_pkt start dims ls r i \<and> in_window start dims l r i) l l'"
  proof (rule emits_trans)
    show "emits (\<lambda>q. \<exists>i. q = window_pkt start dims ls r i \<and> in_window start dims l r i) l l1"
      using em1 by (rule emits_mono) blast
    show "emits (\<lambda>q. \<exists>i. q = window_pkt start dims ls r i \<and> in_window start dims l r i) l1 l'"
      using em by (rule emits_mono) (auto simp: in_window_def same inc)
  qed
  moreover have "sent (window_pkt start dims ls r i) l l'"
    if "e = None" "unat r + i \<le> unat (Row start + Row dims)" for i
  proof (cases i)
    case 0
    with sent_emits_trans [OF sent1 em] show ?thesis by simp
  next
    case (Suc j)
    with ok [OF that(1), of j] that(2) show ?thesis
      by (auto simp: inc intro: emits_sent_trans [OF em1])
  qed
  ultimately show ?thesis
    using res only_dev_trans [OF dev dev'] by (auto simp: window_done_def)
qed

lemma writeWindow_from_done:
  assumes "lcd_ok l"
  shows "window_done start dims ls r l (writeWindow_from start dims ls r l)"
  using assms
proof (induction "4 - unat r" arbitrary: ls r l rule: less_induct)
  case less
  let ?w = "lcd_write \<lparr>Col = Col start, Row = r\<rparr> (padcate (line_at ls 0) (Col dims)) False l"
  obtain e l1 where w: "?w = (e, l1)" by (cases ?w)
  have ok1: "lcd_ok l1"
    using lcd_write_fields(7) [of "\<lparr>Col = Col start, Row = r\<rparr>" "padcate (line_at ls 0) (Col dims)" False l] w less.prems
    by simp
  have unfold: "writeWindow_from start dims ls r l =
      (if r \<le> Row start + Row dims then
         (case e of Some err \<Rightarrow> Some (Some err, l1)
          | None \<Rightarrow> writeWindow_from start dims (tl ls) (r + 1) l1)
       else Some (None, l))"
    by (subst writeWindow_from.simps) (simp add: w [unfolded line_at_0])
  consider (stop) "\<not> r \<le> Row start + Row dims" | (err) err where "r \<le> Row start + Row dims" "e = Some err"
    | (go) "r \<le> Row start + Row dims" "e = None"
    by (cases e) auto
  then show ?case
  proof cases
    case stop
    then show ?thesis
      using less.prems by (auto simp: unfold window_done_def u8_le_iff)
  next
    case err
    have "emits (\<lambda>q. \<exists>i. q = window_pkt start dims ls r i \<and> in_window start dims l r i) l l1"
      using lcd_write_plain_emits [OF less.prems, of "\<lparr>Col = Col start, Row = r\<rparr>" "padcate (line_at ls 0) (Col dims)"] w err(1)
      by (auto simp: window_pkt_def in_window_def u8_le_iff elim!: emits_mono intro!: exI [of _ "0::nat"])
    moreover have "only_dev l l1"
      using only_dev_lcd_write [of l "\<lparr>Col = Col start, Row = r\<rparr>" "padcate (line_at ls 0) (Col dims)" False] w
      by simp
    ultimately show ?thesis
      using err ok1 by (simp add: unfold window_done_def)
  next
    case go
    have row: "r \<le> Row (l_dims l)"
      using lcd_write_row [of "\<lparr>Col = Col start, Row = r\<rparr>"] w go(2) by force
    then have "unat r \<le> 3"
      using less.prems by (auto simp: lcd_ok_def u8_le_iff)
    then have "4 - unat (r + 1) < 4 - unat r"
      by (simp add: unat_add_u8_small)
    from less.hyps [OF this ok1, of "tl ls"] show ?thesis
      using window_done_step [OF less.prems go(1) row] w go by (simp add: unfold)
  qed
qed

section \<open>Whole screens\<close>

text \<open>The packet that fills row \<open>r + i\<close> with line \<open>i\<close>, blank to the end of the usable width.\<close>

definition row_pkt :: "bytes list \<Rightarrow> u8 \<Rightarrow> u8 \<Rightarrow> nat \<Rightarrow> pktNoCrc" where
  "row_pkt ls w r i = disp_pkt 0 (r + to_byte i) (pad (line_at ls i) w)"

lemma row_pkt_Suc: "row_pkt (tl ls) w (r + 1) i = row_pkt ls w r (Suc i)"
  by (simp add: row_pkt_def line_at_tl add.assoc)

lemma write_body_row:
  assumes "length t \<le> unat (Width l)"
  shows "write_body \<lparr>Col = 0, Row = r\<rparr> t True l = pad t (Width l)"
proof -
  have "length t < 256"
    using le_less_trans [OF assms unat_u8_less] .
  then have "unat (Width l - to_byte (length t)) = unat (Width l) - length t"
    using assms by (subst unat_sub) (simp_all add: u8_le_iff)
  then show ?thesis
    by (simp add: write_body_def pad_def space_def)
qed

lemma result_err_None [simp]: "result_err r = None \<longleftrightarrow> (\<exists>x. r = Inr x)"
  by (cases r) (auto simp: result_err_def)

text \<open>The errors of a command that is well-formed come from the link.\<close>

definition link_error :: "cfa_error \<Rightarrow> bool" where
  "link_error e \<longleftrightarrow> e = ERetry \<or> e = Panic \<or> (\<exists>n. e = EPort n)"

lemma sendPkt_link_error: "wf_pkt p \<Longrightarrow> sendPkt p sd = (Inl e, sd') \<Longrightarrow> link_error e"
  using sendOnly_error [of p sd] getPkt_error [of "p_command p"]
  by (auto simp: sendPkt_def link_error_def split: prod.splits option.splits) (metis fst_conv)+

lemma sendPktRetry_link_error:
  "wf_pkt p \<Longrightarrow> sendPktRetry_from r p sd = (Inl e, sd') \<Longrightarrow> link_error e"
  by (induction r arbitrary: sd)
    (auto simp: link_error_def dest: sendPkt_link_error [unfolded link_error_def]
      split: prod.splits sum.splits option.splits cfa_error.splits)

lemma sendCmd_link_error:
  assumes "cmd AND 0xC0 = 0" and "length d \<le> MAX_DATA_LENGTH" and "sendCmd_err cmd d l = (Some e, l')"
  shows "link_error e"
proof -
  have p: "SetCommand cmd zero_pkt = Inr (zero_pkt\<lparr>p_command := cmd\<rparr>)"
    "SetData d (zero_pkt\<lparr>p_command := cmd\<rparr>) = Inr (out_pkt cmd d)"
    using assms(1,2) by (simp_all add: SetCommand_def SetData_def out_pkt_def zero_pkt_def)
  have "\<exists>sd. sendPktRetry (out_pkt cmd d) (l_dev l) = (Inl e, sd)"
    using assms(3) by (auto simp: sendCmd_err_def sendCmd_def result_err_def p split: prod.splits sum.splits)
  then show ?thesis
    using sendPktRetry_link_error [OF sendCmd_packet(2) [OF p]]
    by (auto simp: sendPktRetry_def simp del: sendPktRetry_from.simps)
qed

lemma sendCmd_sends:
  assumes "cmd AND 0xC0 = 0" and "length d \<le> MAX_DATA_LENGTH"
  shows "sent (out_pkt cmd d) l (snd (sendCmd cmd d l))"
proof -
  have p: "SetCommand cmd zero_pkt = Inr (zero_pkt\<lparr>p_command := cmd\<rparr>)"
    "SetData d (zero_pkt\<lparr>p_command := cmd\<rparr>) = Inr (out_pkt cmd d)"
    using assms by (simp_all add: SetCommand_def SetData_def out_pkt_def zero_pkt_def)
  obtain r sd where r: "sendPktRetry (out_pkt cmd d) (l_dev l) = (r, sd)"
    by (cases "sendPktRetry (out_pkt cmd d) (l_dev l)")
  then have "prefix (sd_out (l_dev l) @ [out_pkt cmd d]) (sd_out sd)"
    using sendPktRetry_from_sends [OF sendCmd_packet(2) [OF p], of "l_dev l" MaxTries]
    by (simp add: sendPktRetry_def del: sendPktRetry_from.simps)
  then show ?thesis
    by (auto simp: sendCmd_def p r sent_def elim!: prefixE split: sum.splits)
qed

lemma lcd_write_row_result:
  assumes "lcd_ok l" and "length t \<le> unat (Width l)" and "r \<le> Row (l_dims l)"
    and "lcd_write \<lparr>Col = 0, Row = r\<rparr> t True l = (e, l1)"
  shows "case e of None \<Rightarrow> sent (disp_pkt 0 r (pad t (Width l))) l l1 | Some err \<Rightarrow> link_error err"
proof (cases e)
  case None
  with lcd_write_sent [of _ t True l l1] assms write_body_row [OF assms(2)] show ?thesis
    by force
next
  case (Some err)
  have len: "length t \<le> 20"
    using assms(2) lcd_ok_Width(2) [OF assms(1)] by simp
  have "write_passes \<lparr>Col = 0, Row = r\<rparr> t l"
    using assms len by (simp add: write_passes_def u8_le_iff)
  from lcd_write_passed [OF this] assms(4) Some
  have "sendCmd_err Cmd_WriteDisp (0 # r # pad t (Width l)) l = (Some err, l1)"
    by (simp add: write_body_row [OF assms(2)])
  moreover have "length (0 # r # pad t (Width l)) \<le> MAX_DATA_LENGTH"
    using assms(2) lcd_ok_Width(2) [OF assms(1)] by (simp add: pad_def MAX_DATA_LENGTH_def)
  ultimately show ?thesis
    using sendCmd_link_error [of Cmd_WriteDisp "0 # r # pad t (Width l)" l err l1] Some
    by (simp add: Cmd_WriteDisp_def)
qed

definition end_of :: "bytes list \<Rightarrow> u8 \<Rightarrow> Coord \<Rightarrow> Coord" where
  "end_of ls r fin =
     (if ls = [] then fin
      else \<lparr>Col = to_byte (length (last ls)), Row = r + to_byte (length ls - 1)\<rparr>)"

lemma end_of_step:
  "end_of (tl ls) (r + 1) (if ls = [] then fin else \<lparr>Col = to_byte (length (hd ls)), Row = r\<rparr>) = end_of ls r fin"
proof (cases ls)
  case (Cons t ts)
  then show ?thesis
    by (cases ts) (simp_all add: end_of_def add.assoc)
qed (simp add: end_of_def)

definition lines_done where
  "lines_done mx ls r fin l res \<longleftrightarrow> (\<exists>x l'. res = Some (x, l') \<and> lcd_ok l' \<and> only_dev l l' \<and>
     emits (\<lambda>q. \<exists>i. q = row_pkt ls (Width l) r i \<and> unat r + i \<le> unat (Row mx)) l l' \<and>
     (case x of Inl err \<Rightarrow> link_error err
      | Inr c \<Rightarrow> c = end_of ls r fin \<and>
          (\<forall>i. unat r + i \<le> unat (Row mx) \<longrightarrow> sent (row_pkt ls (Width l) r i) l l')))"

lemma lcd_write_row_emits:
  assumes "lcd_ok l" and "length t \<le> unat (Width l)"
  shows "emits (\<lambda>q. q = disp_pkt 0 r (pad t (Width l))) l (snd (lcd_write \<lparr>Col = 0, Row = r\<rparr> t True l))"
  using lcd_write_emits [OF assms(1), of "\<lparr>Col = 0, Row = r\<rparr>" t True] write_body_row [OF assms(2), of r]
  by (auto elim: emits_mono)

lemma lines_done_step:
  assumes "lcd_ok l" and r: "r \<le> Row mx" "unat (Row mx) \<le> 3" and "length (line_at ls 0) \<le> unat (Width l)"
    and w: "lcd_write \<lparr>Col = 0, Row = r\<rparr> (line_at ls 0) True l = (None, l1)"
    and sent1: "sent (row_pkt ls (Width l) r 0) l l1"
    and rest: "lines_done mx (tl ls) (r + 1)
      (if ls = [] then fin else \<lparr>Col = to_byte (length (hd ls)), Row = r\<rparr>) l1 res"
  shows "lines_done mx ls r fin l res"
proof -
  have inc: "unat (r + 1) = Suc (unat r)"
    using r by (simp add: u8_le_iff unat_add_u8_small)
  have same: "Width l1 = Width l"
    using lcd_write_fields [of "\<lparr>Col = 0, Row = r\<rparr>" "line_at ls 0" True l] w by simp
  have em1: "emits (\<lambda>q. q = row_pkt ls (Width l) r 0 \<and> unat r \<le> unat (Row mx)) l l1"
    using lcd_write_row_emits [OF assms(1,4), of r] w r
    by (auto simp: row_pkt_def u8_le_iff elim: emits_mono)
  have dev: "only_dev l l1"
    using only_dev_lcd_write [of l "\<lparr>Col = 0, Row = r\<rparr>" "line_at ls 0" True] w by simp
  from rest obtain x l' where res: "res = Some (x, l')" "lcd_ok l'" and dev': "only_dev l1 l'"
    and em: "emits (\<lambda>q. \<exists>i. q = row_pkt ls (Width l) r (Suc i) \<and> unat r + Suc i \<le> unat (Row mx)) l1 l'"
    and x: "case x of Inl err \<Rightarrow> link_error err
      | Inr c \<Rightarrow> c = end_of ls r fin \<and>
          (\<forall>i. unat r + Suc i \<le> unat (Row mx) \<longrightarrow> sent (row_pkt ls (Width l) r (Suc i)) l1 l')"
    unfolding lines_done_def by (auto simp: row_pkt_Suc end_of_step same inc cong: sum.case_cong)
  have "emits (\<lambda>q. \<exists>i. q = row_pkt ls (Width l) r i \<and> unat r + i \<le> unat (Row mx)) l l'"
  proof (rule emits_trans)
    show "emits (\<lambda>q. \<exists>i. q = row_pkt ls (Width l) r i \<and> unat r + i \<le> unat (Row mx)) l l1"
      using em1 by (rule emits_mono) (auto intro: exI [of _ "0::nat"])
    show "emits (\<lambda>q. \<exists>i. q = row_pkt ls (Width l) r i \<and> unat r + i \<le> unat (Row mx)) l1 l'"
      using em by (rule emits_mono) blast
  qed
  moreover have "sent (row_pkt ls (Width l) r i) l l'"
    if "\<forall>i. unat r + Suc i \<le> unat (Row mx) \<longrightarrow> sent (row_pkt ls (Width l) r (Suc i)) l1 l'"
      "unat r + i \<le> unat (Row mx)" for i
    using that sent_emits_trans [OF sent1 em] by (cases i) (auto intro: emits_sent_trans [OF em1])
  ultimately show ?thesis
    using res x only_dev_trans [OF dev dev'] by (auto simp: lines_done_def split: sum.splits)
qed

lemma writeLines_from_done:
  assumes "lcd_ok l" and "Row mx = Row (l_dims l)" and "\<forall>t \<in> set ls. length t \<le> unat (Width l)"
    and "unat r + length ls \<le> Suc (unat (Row mx))"
  shows "lines_done mx ls r fin l (writeLines_from mx ls r fin l)"
  using assms
proof (induction "4 - unat r" arbitrary: ls r fin l rule: less_induct)
  case less
  let ?t = "line_at ls 0"
  let ?w = "lcd_write \<lparr>Col = 0, Row = r\<rparr> ?t True l"
  obtain e l1 where w: "?w = (e, l1)" by (cases ?w)
  have same: "lcd_ok l1" "l_dims l1 = l_dims l" "Width l1 = Width l" "only_dev l l1"
    using lcd_write_fields [of "\<lparr>Col = 0, Row = r\<rparr>" ?t True l] w less.prems(1)
      only_dev_lcd_write [of l "\<lparr>Col = 0, Row = r\<rparr>" ?t True] by simp_all
  have len: "length ?t \<le> unat (Width l)"
    using less.prems(3) by (cases ls) (simp_all add: line_at_def)
  have mx: "unat (Row mx) \<le> 3"
    using less.prems(1,2) by (auto simp: lcd_ok_def)
  have unfold: "writeLines_from mx ls r fin l =
      (if r \<le> Row mx then
         (case e of Some err \<Rightarrow> Some (Inl err, l1)
          | None \<Rightarrow> writeLines_from mx (tl ls) (r + 1)
              (if ls = [] then fin else \<lparr>Col = to_byte (length (hd ls)), Row = r\<rparr>) l1)
       else Some (Inr fin, l))"
    by (subst writeLines_from.simps) (simp add: w [unfolded line_at_0])
  show ?case
  proof (cases "r \<le> Row mx")
    case False
    then have "ls = []"
      using less.prems(4) by (cases ls) (simp_all add: u8_le_iff)
    moreover have "writeLines_from mx ls r fin l = Some (Inr fin, l)"
      using False by (simp add: unfold)
    ultimately show ?thesis
      using False less.prems(1) by (auto simp: lines_done_def end_of_def u8_le_iff)
  next
    case True
    note res = lcd_write_row_result [OF less.prems(1) len _ w] True less.prems(2)
    show ?thesis
    proof (cases e)
      case (Some err)
      with res lcd_write_row_emits [OF less.prems(1) len, of r] w same True show ?thesis
        by (auto simp: unfold lines_done_def row_pkt_def u8_le_iff elim!: emits_mono intro!: exI [of _ "0::nat"])
    next
      case None
      have inc: "unat (r + 1) = Suc (unat r)"
        using True mx by (simp add: u8_le_iff unat_add_u8_small)
      have "4 - unat (r + 1) < 4 - unat r"
        using True mx by (simp add: u8_le_iff inc)
      moreover have "unat (r + 1) + length (tl ls) \<le> Suc (unat (Row mx))"
        using less.prems(4) True by (cases ls) (simp_all add: inc u8_le_iff)
      moreover have "\<forall>t \<in> set (tl ls). length t \<le> unat (Width l1)"
        using less.prems(3) same by (cases ls) auto
      ultimately have "lines_done mx (tl ls) (r + 1)
          (if ls = [] then fin else \<lparr>Col = to_byte (length (hd ls)), Row = r\<rparr>) l1
          (writeLines_from mx (tl ls) (r + 1)
            (if ls = [] then fin else \<lparr>Col = to_byte (length (hd ls)), Row = r\<rparr>) l1)"
        using less.prems(2) same by (intro less.hyps) simp_all
      from lines_done_step [OF less.prems(1) True mx len _ _ this] w None res show ?thesis
        by (simp add: unfold row_pkt_def)
    qed
  qed
qed

lemma Msg_done:
  assumes "lcd_ok l" and "unat (Col (l_dims l)) \<le> unat (Width l)" and "message \<noteq> []"
  shows "lines_done (l_dims l) (fit message (l_dims l)) 0 \<lparr>Col = 0, Row = 0\<rparr> l (Msg message l)"
proof -
  have "\<forall>t \<in> set (fit message (l_dims l)). length t \<le> unat (Width l)"
    using fit_loop_widths [of "[]" "Col (l_dims l)" "Row (l_dims l)" message] assms(2)
    by (fastforce simp: fit_def)
  moreover have "length (fit message (l_dims l)) \<le> Suc (unat (Row (l_dims l)))"
    using fit_loop_count [of "[]" "Row (l_dims l)" "Col (l_dims l)" message] by (simp add: fit_def)
  ultimately show ?thesis
    using writeLines_from_done [OF assms(1), of "l_dims l"] assms(3)
    by (simp add: Msg_def writeLines_def)
qed

lemma Msg_ok:
  assumes "lcd_ok l"
  shows "\<exists>x l'. Msg message l = Some (x, l') \<and> lcd_ok l'"
proof -
  have "\<exists>x l'. writeLines_from mx ls r fin l = Some (x, l') \<and> lcd_ok l'" if "lcd_ok l" "unat (Row mx) \<le> 3" for mx ls r fin l
    using that
  proof (induction "4 - unat r" arbitrary: ls r fin l rule: less_induct)
    case less
    obtain e l1 where w: "lcd_write \<lparr>Col = 0, Row = r\<rparr> (if ls = [] then [] else hd ls) True l = (e, l1)"
      by (cases "lcd_write \<lparr>Col = 0, Row = r\<rparr> (if ls = [] then [] else hd ls) True l")
    have l1: "lcd_ok l1"
      using lcd_write_fields [of "\<lparr>Col = 0, Row = r\<rparr>" "if ls = [] then [] else hd ls" True l] w less.prems(1) by simp
    show ?case
    proof (cases "r \<le> Row mx")
      case True
      have "4 - unat (r + 1) < 4 - unat r"
        using True less.prems(2) by (simp add: u8_le_iff unat_add_u8_small)
      from less.hyps [OF this l1 less.prems(2)] l1 True show ?thesis
        by (subst writeLines_from.simps) (simp add: w split: option.splits)
    next
      case False
      then show ?thesis using less.prems(1) by (subst writeLines_from.simps) simp
    qed
  qed
  from this [OF assms] have "\<exists>x l'. writeLines (fit message (l_dims l)) (l_dims l) l = Some (x, l') \<and> lcd_ok l'"
    using assms by (auto simp: writeLines_def lcd_ok_def)
  then show ?thesis
    using assms by (auto simp: Msg_def)
qed

section \<open>Properties\<close>

text \<open>An idle display for the witnesses: silent link, given model and legend width.\<close>

definition silent :: SerialDev where
  "silent = \<lparr>sd_out = [], sd_wres = [], sd_arr = [], sd_clock = []\<rparr>"

definition test_lcd :: "Model \<Rightarrow> SerialDev \<Rightarrow> Lcd" where
  "test_lcd m sd = \<lparr>l_dev = sd, l_dims = (if m = Cfa631 then \<lparr>Col = 19, Row = 1\<rparr> else \<lparr>Col = 19, Row = 3\<rparr>),
     l_model = m, l_legend = LegendNone, l_legendWidth = 0,
     l_prevState = \<lparr>st_pressMask = 0, st_releaseMask = 0, st_backlight = 0, st_ignoreState = False\<rparr>\<rparr>"

lemma test_lcd_ok [simp]: "lcd_ok (test_lcd m sd)"
  by (simp add: lcd_ok_def test_lcd_def)

text \<open>C10: \<open>write\<close> never draws outside the usable part of its line.  Whatever the text, position
  and link do, the only packet it can send (besides pings) shows the text at that position, and
  then text and padding end within the line and the row exists, although the bounds check is done
  in wrapping byte arithmetic; success means the packet went out; and nothing of the \<open>Lcd\<close> but
  the device changes.\<close>

theorem lcd_write_in_bounds:
  assumes "lcd_ok l" and "lcd_write start txt clear l = (e, l')"
  shows "emits (\<lambda>q. q = disp_pkt (Col start) (Row start) (write_body start txt clear l) \<and>
      unat (Col start) + length (write_body start txt clear l) \<le> unat (Width l) \<and>
      Row start \<le> Row (l_dims l)) l l' \<and>
    (e = None \<longrightarrow> sent (disp_pkt (Col start) (Row start) (write_body start txt clear l)) l l') \<and>
    only_dev l l'"
proof (intro conjI impI)
  show "emits (\<lambda>q. q = disp_pkt (Col start) (Row start) (write_body start txt clear l) \<and>
      unat (Col start) + length (write_body start txt clear l) \<le> unat (Width l) \<and>
      Row start \<le> Row (l_dims l)) l l'"
    using lcd_write_emits [OF assms(1), of start "txt" "clear"] assms(2) by simp
  show "sent (disp_pkt (Col start) (Row start) (write_body start txt clear l)) l l'" if "e = None"
    using assms(2) that by (intro lcd_write_sent) simp
  show "only_dev l l'"
    using only_dev_lcd_write [of l start "txt" "clear"] assms(2) by simp
qed

lemma lcd_write_in_bounds_witness:
  defines "l \<equiv> test_lcd Cfa631 silent"
  shows "emits (\<lambda>q. unat (Width l) \<ge> 3) l (snd (lcd_write \<lparr>Col = 2, Row = 0\<rparr> [0x41] False l))"
proof -
  let ?w = "lcd_write \<lparr>Col = 2, Row = 0\<rparr> [0x41] False l"
  have "lcd_ok l" by (simp add: l_def)
  from lcd_write_in_bounds [OF this, of "\<lparr>Col = 2, Row = 0\<rparr>" "[0x41]" False "fst ?w" "snd ?w"]
  show ?thesis
    by (auto simp: write_body_def elim: emits_mono)
qed

text \<open>C11: \<open>writeWindow\<close> always returns, draws only rows of its window that exist on the display,
  each over exactly the window's columns and within the usable width, and when it reports success
  every row of the window has been drawn with its padded line.\<close>

theorem writeWindow_correct:
  assumes "lcd_ok l"
  shows "\<exists>e l'. writeWindow start dims ls l = Some (e, l') \<and>
    emits (\<lambda>q. \<exists>i. q = window_pkt start dims ls (Row start) i \<and>
      unat (Row start) + i \<le> unat (Row start + Row dims) \<and>
      unat (Row start) + i \<le> unat (Row (l_dims l)) \<and>
      unat (Col start) + unat (Col dims) \<le> unat (Width l)) l l' \<and>
    (e = None \<longrightarrow> (\<forall>i. unat (Row start) + i \<le> unat (Row start + Row dims) \<longrightarrow>
        sent (window_pkt start dims ls (Row start) i) l l'))"
  using writeWindow_from_done [OF assms, of start dims ls "Row start"]
  by (auto simp: writeWindow_def window_done_def in_window_def)

lemma writeWindow_correct_witness:
  "\<exists>e l'. writeWindow \<lparr>Col = 0, Row = 1\<rparr> \<lparr>Col = 4, Row = 1\<rparr> [[0x41]] (test_lcd Cfa635 silent) = Some (e, l')"
  using writeWindow_correct [OF test_lcd_ok [of Cfa635 silent],
      of "\<lparr>Col = 0, Row = 1\<rparr>" "\<lparr>Col = 4, Row = 1\<rparr>" "[[0x41]]"]
  by blast

text \<open>While no legend narrows the display, \<open>Msg\<close> can fail only for reasons of the link.  On
  success every row of the display has been written, the rows showing the wrapped text padded to
  the full width, and the result is where the text ends.\<close>

theorem Msg_correct:
  assumes "lcd_ok l" and "l_legendWidth l = 0" and "message \<noteq> []"
  shows "\<exists>x l'. Msg message l = Some (x, l') \<and>
    (case x of Inl e \<Rightarrow> link_error e
     | Inr c \<Rightarrow> (\<forall>i \<le> unat (Row (l_dims l)). sent (row_pkt (fit message (l_dims l)) 20 0 i) l l') \<and>
         Col c = to_byte (length (last (fit message (l_dims l)))) \<and>
         Row c = to_byte (length (fit message (l_dims l)) - 1))"
proof -
  have w: "Width l = 20" "Col (l_dims l) = 19"
    using assms(1,2) by (simp_all add: lcd_ok_def Width_def)
  have "fit message (l_dims l) \<noteq> []"
    using assms(3) by (simp add: fit_def fit_loop_nonempty)
  moreover obtain x l' where "Msg message l = Some (x, l')" and
    "case x of Inl err \<Rightarrow> link_error err
     | Inr c \<Rightarrow> c = end_of (fit message (l_dims l)) 0 \<lparr>Col = 0, Row = 0\<rparr> \<and>
         (\<forall>i. unat (0 :: u8) + i \<le> unat (Row (l_dims l)) \<longrightarrow>
            sent (row_pkt (fit message (l_dims l)) (Width l) 0 i) l l')"
    using Msg_done [OF assms(1) _ assms(3)] by (auto simp: w lines_done_def)
  ultimately show ?thesis
    by (cases x) (auto simp: w end_of_def)
qed

lemma Msg_correct_witness:
  "\<exists>x l'. Msg [0x41] (test_lcd Cfa631 silent) = Some (x, l') \<and>
     (case x of Inl e \<Rightarrow> link_error e | Inr c \<Rightarrow> Row c = 0 \<and> Col c = 1)"
proof -
  have ev: "fit [0x41] \<lparr>Col = 19, Row = 1\<rparr> = [[0x41]]"
    by (simp add: fit_def fit_loop.simps nextWrap_def wrapPos_def trim_left_def)
  have "l_legendWidth (test_lcd Cfa631 silent) = 0" "l_dims (test_lcd Cfa631 silent) = \<lparr>Col = 19, Row = 1\<rparr>"
    by (simp_all add: test_lcd_def)
  with Msg_correct [OF test_lcd_ok [of Cfa631 silent], of "[0x41]"] show ?thesis
    by (fastforce simp: ev split: sum.splits)
qed

text \<open>On the small display, turning the legend off does not give its columns back: the legend
  width is 3 after any change of legend, \<open>LegendNone\<close> included, so a message whose first wrapped
  line has 18 or 19 characters is then refused with \<open>ELen\<close>, without anything being sent,
  whatever the link does.\<close>

theorem Msg_after_legend_off_631:
  assumes "lcd_ok l" and "l_model l = Cfa631" and "l_legend l \<noteq> LegendNone"
    and "18 \<le> length msg" and "length msg \<le> 19"
  shows "Msg msg (setLegend LegendNone also635 l) = Some (Inl ELen, setLegend LegendNone also635 l)"
proof -
  define l' where "l' = setLegend LegendNone also635 l"
  have w: "Width l' = 17" "l_dims l' = l_dims l" "Col (l_dims l) = 19"
    using assms(1-3) by (auto simp: l'_def setLegend_def Let_def Width_def lcd_ok_def legendWidth_631_def)
  have "wrapPos msg 19 = to_byte (length msg)"
    using assms(5) by (simp add: wrapPos_def)
  then have n: "nextWrap msg 19 = to_byte (length msg)"
    using assms(4,5) by (simp add: nextWrap_def)
  have ne: "msg \<noteq> []" using assms(4) by auto
  have "fit msg (l_dims l) = [msg]"
    using assms(5) n w(3) ne by (simp add: fit_def fit_loop.simps [of _ _ _ msg] fit_loop.simps [of _ _ _ "[]"] trim_left_def Let_def)
  moreover have "lcd_write \<lparr>Col = 0, Row = 0\<rparr> msg True l' = (Some ELen, l')"
    using assms(4,5) by (simp add: lcd_write_def w u8_less_iff)
  ultimately have "Msg msg l' = Some (Inl ELen, l')"
    using ne by (simp add: Msg_def writeLines_def writeLines_from.simps w)
  then show ?thesis by (simp add: l'_def)
qed

lemma Msg_after_legend_off_631_witness:
  defines "l \<equiv> (test_lcd Cfa631 silent)\<lparr>l_legend := LegendUVDX, l_legendWidth := 3\<rparr>"
  shows "Msg (replicate 18 0x41) (setLegend LegendNone True l) = Some (Inl ELen, setLegend LegendNone True l)"
  by (rule Msg_after_legend_off_631) (simp_all add: l_def lcd_ok_def test_lcd_def)

text \<open>\<open>Close\<close> puts back what \<open>connectTo\<close> found.  If the display answered the status request
  with the 15 bytes \<open>d\<close>, then however the \<open>Lcd\<close> was used afterwards, \<open>restoreState\<close> sends the
  captured key-report masks and the captured backlight; and if capturing failed, it sends nothing
  at all.\<close>

theorem captured_state_restored:
  assumes "captureState l = (e, l1)" and "l_prevState l2 = l_prevState l1"
    and "st_ignoreState (l_prevState l) = False" and "restoreState l2 = (e', l3)"
  shows "(e = None \<longrightarrow> (\<exists>c d. fst (sendCmd Cmd_ReadReprtStat [] l) = Inr (c, d) \<and> length d = 15 \<and>
      sent (out_pkt Cmd_CfgKeyReports [d ! 5, d ! 6]) l2 l3 \<and> sent (out_pkt Cmd_SetBacklight [d ! 14]) l2 l3)) \<and>
    (e \<noteq> None \<longrightarrow> l3 = l2)"
proof (cases "\<exists>c d. fst (sendCmd Cmd_ReadReprtStat [] l) = Inr (c, d) \<and> length d = 15")
  case True
  then obtain c d l0 where cd: "sendCmd Cmd_ReadReprtStat [] l = (Inr (c, d), l0)" "length d = 15"
    by (metis prod.collapse)
  then have cap: "e = None" "l_prevState l1 = (l_prevState l)\<lparr>st_pressMask := d ! 5,
      st_releaseMask := d ! 6, st_backlight := d ! 14\<rparr>"
    using assms(1) sendCmd_fields(5) [of Cmd_ReadReprtStat "[]" l] by (auto simp: captureState_def)
  define l2' where "l2' = snd (sendCmd Cmd_CfgKeyReports [d ! 5, d ! 6] l2)"
  have "l3 = snd (sendCmd Cmd_SetBacklight [d ! 14] l2')"
    using assms(2-4) snd_sendCmd_err [of Cmd_SetBacklight "[d ! 14]" l2']
    by (simp add: restoreState_def cap Let_def l2'_def)
  moreover have "sent (out_pkt Cmd_CfgKeyReports [d ! 5, d ! 6]) l2 l2'"
    unfolding l2'_def by (rule sendCmd_sends) (simp_all add: cmd_defs MAX_DATA_LENGTH_def)
  moreover have "sent (out_pkt Cmd_SetBacklight [d ! 14]) l2' (snd (sendCmd Cmd_SetBacklight [d ! 14] l2'))"
    by (rule sendCmd_sends) (simp_all add: cmd_defs MAX_DATA_LENGTH_def)
  moreover have "emits (\<lambda>q. q = out_pkt Cmd_CfgKeyReports [d ! 5, d ! 6] \<and>
      length [d ! 5, d ! 6] \<le> MAX_DATA_LENGTH) l2 l2'"
    unfolding l2'_def by (rule sendCmd_emits)
  ultimately show ?thesis
    using cd cap(1) sent_emits_trans [OF _ sendCmd_emits] emits_sent_trans by auto
next
  case False
  obtain r l0 where "sendCmd Cmd_ReadReprtStat [] l = (r, l0)" by (cases "sendCmd Cmd_ReadReprtStat [] l")
  with False assms(1) have "e \<noteq> None" "st_ignoreState (l_prevState l1)"
    by (auto simp: captureState_def split: sum.splits)
  then show ?thesis
    using assms(2,4) by (auto simp: restoreState_def)
qed

definition status_reply :: Packet where
  "status_reply = mk_packet 0x5e [0, 0, 0, 0, 0, 0x3f, 0x15, 0, 0, 0, 0, 0, 0, 0, 50] 0"

lemma captured_state_restored_witness:
  defines "l \<equiv> test_lcd Cfa635 (silent\<lparr>sd_arr := [Arrive status_reply]\<rparr>)"
  shows "\<exists>l1 e' l3. captureState l = (None, l1) \<and> restoreState l1 = (e', l3) \<and>
    sent (out_pkt Cmd_CfgKeyReports [0x3f, 0x15]) l1 l3 \<and> sent (out_pkt Cmd_SetBacklight [50]) l1 l3"
proof -
  have "fst (sendPktRetry (out_pkt Cmd_ReadReprtStat []) (l_dev l)) = Inr status_reply"
    by (subst sendPktRetry_answered [where as = "[]" and p = status_reply])
      (simp_all add: l_def test_lcd_def silent_def status_reply_def mk_packet_def out_pkt_def wf_pkt_def
        CommandFromResponse_def cmd_defs MAX_DATA_LENGTH_def)
  then have cap: "fst (sendCmd Cmd_ReadReprtStat [] l) =
      Inr (0x5e, [0, 0, 0, 0, 0, 0x3f, 0x15, 0, 0, 0, 0, 0, 0, 0, 50])"
    by (auto simp: sendCmd_def SetCommand_def SetData_def zero_pkt_def out_pkt_def cmd_defs
        status_reply_def mk_packet_def MAX_DATA_LENGTH_def pkt_Data_def split: prod.splits sum.splits)
  then have none: "fst (captureState l) = None"
    by (auto simp: captureState_def split: prod.splits sum.splits)
  have "st_ignoreState (l_prevState l) = False"
    by (simp add: l_def test_lcd_def)
  from captured_state_restored [OF surjective_pairing refl this surjective_pairing] none cap
  show ?thesis
    by (intro exI [of _ "snd (captureState l)"] exI [of _ "fst (restoreState (snd (captureState l)))"]
        exI [of _ "snd (restoreState (snd (captureState l)))"]) (auto simp: prod_eq_iff)
qed

end
