(* ===== verification/CfaBlurb.thy ===== *)
theory CfaBlurb
  imports CfaLcd
begin

text \<open>
  Text that may not fit on one line: \<open>pkg/hw/cfa/blurb.go\<close>.  The Go interface \<open>blurb\<close> is the
  locale \<open>blurb_impl\<close>; the three implementations interpret it, and so does the type \<open>blurb\<close>
  that \<open>NewBlurb\<close> returns.  An implementation holds a pointer to its \<open>Lcd\<close>; here the \<open>Lcd\<close> is
  passed to \<open>draw\<close> and returned.  Whether the blurb's tick channel had a tick is an argument;
  waiting for one leaves no trace in the state.
\<close>

definition offScreen :: u8 where "offScreen = 255"

section \<open>Without scrolling\<close>

record noScroller =
  ns_txt :: "bytes list"
  ns_start :: Coord
  ns_dims :: Coord
  ns_lastPos :: Coord

definition NewNoScroller :: "bytes list \<Rightarrow> Coord \<Rightarrow> Coord \<Rightarrow> noScroller" where
  "NewNoScroller ls start dims =
     \<lparr>ns_txt = ls, ns_start = start, ns_dims = dims, ns_lastPos = \<lparr>Col = 0, Row = offScreen\<rparr>\<rparr>"

definition ns_move :: "Coord \<Rightarrow> noScroller \<Rightarrow> noScroller" where
  "ns_move c ns = ns\<lparr>ns_start := c\<rparr>"

definition ns_draw :: "bool \<Rightarrow> bool \<Rightarrow> noScroller \<Rightarrow> Lcd \<Rightarrow>
    ((bool \<times> cfa_error option) \<times> noScroller \<times> Lcd) option" where
  "ns_draw force tick ns l =
     (if \<not> force \<and> ns_lastPos ns = ns_start ns then Some ((False, None), ns, l)
      else case writeWindow (ns_start ns) (ns_dims ns) (ns_txt ns) l of
             None \<Rightarrow> None
           | Some (Some e, l1) \<Rightarrow>
               Some ((False, Some e), ns\<lparr>ns_lastPos := (ns_lastPos ns)\<lparr>Row := offScreen\<rparr>\<rparr>, l1)
           | Some (None, l1) \<Rightarrow> Some ((True, None), ns\<lparr>ns_lastPos := ns_start ns\<rparr>, l1))"

section \<open>Vertical scrolling\<close>

record vertScroller =
  vs_start :: Coord
  vs_dims :: Coord
  vs_lines :: "bytes list"
  vs_topIdx :: u8

definition NewVertScroller :: "bytes list \<Rightarrow> Coord \<Rightarrow> Coord \<Rightarrow> vertScroller" where
  "NewVertScroller ls start dims = \<lparr>vs_start = start, vs_dims = dims, vs_lines = ls, vs_topIdx = 0\<rparr>"

definition vs_move :: "Coord \<Rightarrow> vertScroller \<Rightarrow> vertScroller" where
  "vs_move c vs = vs\<lparr>vs_topIdx := 0, vs_start := c\<rparr>"

definition vs_advance :: "vertScroller \<Rightarrow> vertScroller" where
  "vs_advance vs =
     (if unat (vs_topIdx vs) \<ge> length (vs_lines vs) then vs\<lparr>vs_topIdx := 0\<rparr>
      else vs\<lparr>vs_topIdx := vs_topIdx vs + 1\<rparr>)"

text \<open>Slicing beyond the end panics.\<close>

definition vs_draw :: "bool \<Rightarrow> bool \<Rightarrow> vertScroller \<Rightarrow> Lcd \<Rightarrow>
    ((bool \<times> cfa_error option) \<times> vertScroller \<times> Lcd) option" where
  "vs_draw force tick vs l =
     (if unat (vs_topIdx vs) > length (vs_lines vs) then Some ((False, Some Panic), vs, l)
      else case writeWindow (vs_start vs) (vs_dims vs) (drop (unat (vs_topIdx vs)) (vs_lines vs)) l of
             None \<Rightarrow> None
           | Some (Some e, l1) \<Rightarrow> Some ((False, Some e), vs, l1)
           | Some (None, l1) \<Rightarrow> Some ((True, None), vs_advance vs, l1))"

section \<open>Horizontal scrolling\<close>

record horizScroller =
  hs_txt :: bytes
  hs_availChars :: u8
  hs_pos :: u64
  hs_scrollState :: u64
  hs_start :: Coord
  hs_dims :: Coord
  hs_lastPos :: Coord
  hs_lastDrawn :: bytes

definition NewHorizScroller :: "Lcd \<Rightarrow> bytes \<Rightarrow> Coord \<Rightarrow> Coord \<Rightarrow> horizScroller" where
  "NewHorizScroller l t start dims =
     \<lparr>hs_txt = t, hs_availChars = Width l, hs_pos = 0, hs_scrollState = 1, hs_start = start,
      hs_dims = dims, hs_lastPos = \<lparr>Col = offScreen, Row = offScreen\<rparr>, hs_lastDrawn = []\<rparr>"

definition hs_move :: "Coord \<Rightarrow> horizScroller \<Rightarrow> horizScroller" where
  "hs_move c hs =
     (let hs1 = hs\<lparr>hs_start := c\<rparr>
      in if Row c = offScreen then hs1\<lparr>hs_scrollState := 0\<rparr> else hs1)"

definition finalPos :: "horizScroller \<Rightarrow> u64" where
  "finalPos hs = word_of_nat (length (hs_txt hs)) - ucast (hs_availChars hs)"

definition updateState :: "horizScroller \<Rightarrow> bool \<times> horizScroller" where
  "updateState hs =
     (let ss = hs_scrollState hs;
          p = (if ss \<le> 2 then 0 else ss - 2);
          chg = (ss \<le> 2 \<longrightarrow> \<not> ss > 0);
          fin = finalPos hs;
          ss' = ss + 1
      in (chg \<and> \<not> p > fin,
          hs\<lparr>hs_pos := (if p > fin then fin else p),
             hs_scrollState := (if ss' > fin + 4 then 0 else ss')\<rparr>))"

definition hs_draw :: "bool \<Rightarrow> bool \<Rightarrow> horizScroller \<Rightarrow> Lcd \<Rightarrow>
    ((bool \<times> cfa_error option) \<times> horizScroller \<times> Lcd) option" where
  "hs_draw force tick hs l =
     (let rowChanged = (hs_lastPos hs \<noteq> hs_start hs);
          hs1 = (if rowChanged then hs\<lparr>hs_lastPos := hs_start hs\<rparr> else hs);
          hs2 = (if tick then snd (updateState hs1) else hs1);
          t = visible (hs_txt hs2) (ucast (hs_pos hs2)) (Col (hs_dims hs2)) True;
          scrollChanged = (t \<noteq> hs_lastDrawn hs2);
          hs3 = (if scrollChanged then hs2\<lparr>hs_lastDrawn := t\<rparr> else hs2);
          changed = (force \<or> rowChanged \<or> scrollChanged)
      in if changed then
           (case lcd_write (hs_start hs3) t False l of (e, l1) \<Rightarrow> Some ((changed, e), hs3, l1))
         else Some ((changed, None), hs3, l))"

section \<open>Any of the three\<close>

datatype blurb = NoScroll noScroller | VertScroll vertScroller | HorizScroll horizScroller

definition NewBlurb :: "Lcd \<Rightarrow> bytes \<Rightarrow> Coord \<Rightarrow> Coord \<Rightarrow> blurb" where
  "NewBlurb l t start dims =
     (let ls = fit t \<lparr>Col = Col dims, Row = 255\<rparr>
      in if length ls \<le> unat (Row dims) + 1 then NoScroll (NewNoScroller ls start dims)
         else if Row dims > 0 then VertScroll (NewVertScroller ls start dims)
         else HorizScroll (NewHorizScroller l t start dims))"

fun blurb_move :: "Coord \<Rightarrow> blurb \<Rightarrow> blurb" where
  "blurb_move c (NoScroll b) = NoScroll (ns_move c b)"
| "blurb_move c (VertScroll b) = VertScroll (vs_move c b)"
| "blurb_move c (HorizScroll b) = HorizScroll (hs_move c b)"

fun blurb_draw :: "bool \<Rightarrow> bool \<Rightarrow> blurb \<Rightarrow> Lcd \<Rightarrow>
    ((bool \<times> cfa_error option) \<times> blurb \<times> Lcd) option" where
  "blurb_draw force tick (NoScroll b) l =
     map_option (\<lambda>(r, b', l'). (r, NoScroll b', l')) (ns_draw force tick b l)"
| "blurb_draw force tick (VertScroll b) l =
     map_option (\<lambda>(r, b', l'). (r, VertScroll b', l')) (vs_draw force tick b l)"
| "blurb_draw force tick (HorizScroll b) l =
     map_option (\<lambda>(r, b', l'). (r, HorizScroll b', l')) (hs_draw force tick b l)"

fun blurb_fits :: "blurb \<Rightarrow> bool" where
  "blurb_fits (NoScroll _) = True"
| "blurb_fits (VertScroll _) = False"
| "blurb_fits (HorizScroll _) = False"

section \<open>The contract of a blurb\<close>

text \<open>A blurb at \<open>start\<close> draws within its region: from its first column, on its rows, at most its
  width, inside the usable part of the display.\<close>

definition in_region :: "Coord \<Rightarrow> Coord \<Rightarrow> Lcd \<Rightarrow> pktNoCrc \<Rightarrow> bool" where
  "in_region start dims l q \<longleftrightarrow> (\<exists>r t. q = disp_pkt (Col start) r t \<and>
     Row start \<le> r \<and> r \<le> Row start + Row dims \<and> r \<le> Row (l_dims l) \<and>
     length t \<le> unat (Col dims) \<and> unat (Col start) + length t \<le> unat (Width l))"

lemma in_region_only_dev: "only_dev l l' \<Longrightarrow> in_region start dims l' = in_region start dims l"
  by (simp add: fun_eq_iff in_region_def only_dev_fields)

lemma window_in_region:
  assumes "lcd_ok l" and "in_window start dims l (Row start) i"
  shows "in_region start dims l (window_pkt start dims ls (Row start) i)"
proof -
  have le: "unat (Row start) + i \<le> 3"
    using assms by (auto simp: lcd_ok_def in_window_def)
  then have "unat (Row start + to_byte i) = unat (Row start) + i"
    by (simp add: unat_add_u8)
  then have "Row start \<le> Row start + to_byte i \<and> Row start + to_byte i \<le> Row start + Row dims \<and>
      Row start + to_byte i \<le> Row (l_dims l)"
    using assms(2) unfolding in_window_def u8_le_iff by simp
  with assms(2) show ?thesis
    by (auto simp: in_region_def window_pkt_def in_window_def
        intro!: exI [of _ "Row start + to_byte i"] exI [of _ "padcate (line_at ls i) (Col dims)"])
qed

lemma writeWindow_in_region:
  assumes "lcd_ok l"
  shows "\<exists>e l'. writeWindow start dims ls l = Some (e, l') \<and> only_dev l l' \<and>
    emits (in_region start dims l) l l' \<and>
    (e = None \<longrightarrow> (\<forall>i. unat (Row start) + i \<le> unat (Row start + Row dims) \<longrightarrow>
       sent (window_pkt start dims ls (Row start) i) l l'))"
proof -
  obtain e l' where "writeWindow start dims ls l = Some (e, l')" "only_dev l l'"
    "emits (\<lambda>q. \<exists>i. q = window_pkt start dims ls (Row start) i \<and> in_window start dims l (Row start) i) l l'"
    "e = None \<longrightarrow> (\<forall>i. unat (Row start) + i \<le> unat (Row start + Row dims) \<longrightarrow>
       sent (window_pkt start dims ls (Row start) i) l l')"
    using writeWindow_from_done [OF assms, of start dims ls "Row start"]
    unfolding writeWindow_def window_done_def by blast
  then show ?thesis
    using window_in_region [OF assms] by (auto elim!: emits_mono)
qed

locale blurb_impl =
  fixes move_to :: "Coord \<Rightarrow> 'b \<Rightarrow> 'b"
    and draw :: "bool \<Rightarrow> bool \<Rightarrow> 'b \<Rightarrow> Lcd \<Rightarrow> ((bool \<times> cfa_error option) \<times> 'b \<times> Lcd) option"
    and place :: "'b \<Rightarrow> Coord"
    and extent :: "'b \<Rightarrow> Coord"
    and valid :: "'b \<Rightarrow> bool"
  assumes move_valid: "valid b \<Longrightarrow> valid (move_to c b) \<and> place (move_to c b) = c \<and>
      extent (move_to c b) = extent b"
    and draw_ok: "valid b \<Longrightarrow> lcd_ok l \<Longrightarrow>
      \<exists>r b' l'. draw force tick b l = Some (r, b', l') \<and> valid b' \<and> place b' = place b \<and>
        extent b' = extent b \<and> only_dev l l' \<and> emits (in_region (place b) (extent b) l) l l'"
begin

text \<open>A series of draws, each with its force flag and tick; errors are ignored as the callers do.\<close>

fun draws :: "(bool \<times> bool) list \<Rightarrow> 'b \<Rightarrow> Lcd \<Rightarrow> ('b \<times> Lcd) option" where
  "draws [] b l = Some (b, l)"
| "draws ((force, tick) # fs) b l =
     (case draw force tick b l of None \<Rightarrow> None | Some (_, b', l') \<Rightarrow> draws fs b' l')"

lemma draws_ok:
  assumes "valid b" and "lcd_ok l"
  shows "\<exists>b' l'. draws fs b l = Some (b', l') \<and> valid b' \<and> place b' = place b \<and> extent b' = extent b \<and>
    only_dev l l' \<and> emits (in_region (place b) (extent b) l) l l'"
  using assms
proof (induction fs arbitrary: b l)
  case Nil
  then show ?case by simp
next
  case (Cons ft fs)
  obtain force tick where ft: "ft = (force, tick)" by (cases ft)
  from draw_ok [OF Cons.prems, of force tick] obtain r b1 l1 where
    one: "draw force tick b l = Some (r, b1, l1)" "valid b1" "place b1 = place b" "extent b1 = extent b"
      "only_dev l l1" "emits (in_region (place b) (extent b) l) l l1"
    by blast
  have "lcd_ok l1"
    using only_dev_fields(7) [OF one(5)] Cons.prems(2) by simp
  from Cons.IH [OF one(2) this] one(3-5) obtain b' l' where
    "draws fs b1 l1 = Some (b', l')" "valid b'" "place b' = place b" "extent b' = extent b"
      "only_dev l1 l'" "emits (in_region (place b) (extent b) l) l1 l'"
    by (auto simp: in_region_only_dev)
  then show ?case
    using one emits_trans only_dev_trans by (auto simp: ft)
qed

end

section \<open>Each implementation keeps the contract\<close>

lemma ns_draw_ok:
  assumes "lcd_ok l"
  shows "\<exists>r b' l'. ns_draw force tick b l = Some (r, b', l') \<and> ns_start b' = ns_start b \<and>
    ns_dims b' = ns_dims b \<and> only_dev l l' \<and> emits (in_region (ns_start b) (ns_dims b) l) l l'"
  using writeWindow_in_region [OF assms, of "ns_start b" "ns_dims b" "ns_txt b"]
  by (auto simp: ns_draw_def split: option.splits)

interpretation ns: blurb_impl ns_move ns_draw ns_start ns_dims "\<lambda>_. True"
  by unfold_locales (simp add: ns_move_def, metis ns_draw_ok)

definition vs_ok :: "vertScroller \<Rightarrow> bool" where
  "vs_ok vs \<longleftrightarrow> length (vs_lines vs) \<le> 256 \<and> unat (vs_topIdx vs) \<le> length (vs_lines vs)"

lemma vs_advance_ok: "vs_ok vs \<Longrightarrow> vs_ok (vs_advance vs)"
  by (auto simp: vs_ok_def vs_advance_def unat_add_u8)

lemma vs_advance_fields [simp]:
  "vs_start (vs_advance vs) = vs_start vs" "vs_dims (vs_advance vs) = vs_dims vs"
  "vs_lines (vs_advance vs) = vs_lines vs"
  by (simp_all add: vs_advance_def)

lemma vs_draw_ok:
  assumes "vs_ok b" and "lcd_ok l"
  shows "\<exists>r b' l'. vs_draw force tick b l = Some (r, b', l') \<and> vs_ok b' \<and> vs_start b' = vs_start b \<and>
    vs_dims b' = vs_dims b \<and> only_dev l l' \<and> emits (in_region (vs_start b) (vs_dims b) l) l l'"
  using writeWindow_in_region [OF assms(2), of "vs_start b" "vs_dims b" "drop (unat (vs_topIdx b)) (vs_lines b)"]
    assms(1) vs_advance_ok [OF assms(1)]
  by (auto simp: vs_draw_def vs_ok_def split: option.splits)

interpretation vs: blurb_impl vs_move vs_draw vs_start vs_dims vs_ok
  by unfold_locales (simp add: vs_move_def vs_ok_def, rule vs_draw_ok)

lemma length_visible: "length (visible t start w e) \<le> unat w"
  by (simp add: visible_def Let_def)

lemma updateState_fields [simp]:
  "hs_txt (snd (updateState hs)) = hs_txt hs" "hs_availChars (snd (updateState hs)) = hs_availChars hs"
  "hs_start (snd (updateState hs)) = hs_start hs" "hs_dims (snd (updateState hs)) = hs_dims hs"
  by (simp_all add: updateState_def Let_def)

lemma write_in_region:
  assumes "lcd_ok l" and "length t \<le> unat (Col dims)" and "Row dims = 0"
  shows "emits (in_region start dims l) l (snd (lcd_write start t False l))"
  using lcd_write_plain_emits [OF assms(1), of start t] assms(2,3)
  by (auto simp: in_region_def elim!: emits_mono intro!: exI [of _ "Row start"] exI [of _ t])

lemma hs_draw_ok:
  assumes "Row (hs_dims b) = 0" and "lcd_ok l"
  shows "\<exists>r b' l'. hs_draw force tick b l = Some (r, b', l') \<and> Row (hs_dims b') = 0 \<and>
    hs_start b' = hs_start b \<and> hs_dims b' = hs_dims b \<and> only_dev l l' \<and>
    emits (in_region (hs_start b) (hs_dims b) l) l l'"
proof -
  define b1 where "b1 = (if hs_lastPos b \<noteq> hs_start b then b\<lparr>hs_lastPos := hs_start b\<rparr> else b)"
  define b2 where "b2 = (if tick then snd (updateState b1) else b1)"
  define t where "t = visible (hs_txt b2) (ucast (hs_pos b2)) (Col (hs_dims b2)) True"
  define b3 where "b3 = (if t \<noteq> hs_lastDrawn b2 then b2\<lparr>hs_lastDrawn := t\<rparr> else b2)"
  have b3: "hs_start b3 = hs_start b" "hs_dims b3 = hs_dims b"
    by (simp_all add: b3_def b2_def b1_def)
  have "length t \<le> unat (Col (hs_dims b))"
    using length_visible by (simp add: t_def b2_def b1_def)
  from write_in_region [OF assms(2) this assms(1), of "hs_start b"]
  have "emits (in_region (hs_start b) (hs_dims b) l) l (snd (lcd_write (hs_start b3) t False l))"
    by (simp add: b3)
  moreover have "\<exists>r b' l'. hs_draw force tick b l = Some (r, b', l') \<and> b' = b3 \<and>
      (l' = l \<or> l' = snd (lcd_write (hs_start b3) t False l))"
    unfolding hs_draw_def Let_def b1_def [symmetric] b2_def [symmetric] t_def [symmetric] b3_def [symmetric]
    by (auto split: prod.splits)
  ultimately show ?thesis
    using assms(1) b3 by auto
qed

interpretation hs: blurb_impl hs_move hs_draw hs_start hs_dims "\<lambda>hs. Row (hs_dims hs) = 0"
  by unfold_locales (simp add: hs_move_def Let_def, rule hs_draw_ok)

fun blurb_place :: "blurb \<Rightarrow> Coord" where
  "blurb_place (NoScroll b) = ns_start b"
| "blurb_place (VertScroll b) = vs_start b"
| "blurb_place (HorizScroll b) = hs_start b"

fun blurb_extent :: "blurb \<Rightarrow> Coord" where
  "blurb_extent (NoScroll b) = ns_dims b"
| "blurb_extent (VertScroll b) = vs_dims b"
| "blurb_extent (HorizScroll b) = hs_dims b"

fun blurb_ok :: "blurb \<Rightarrow> bool" where
  "blurb_ok (NoScroll b) = True"
| "blurb_ok (VertScroll b) = vs_ok b"
| "blurb_ok (HorizScroll b) = (Row (hs_dims b) = 0)"

lemma blurb_draw_ok:
  assumes "blurb_ok b" and "lcd_ok l"
  shows "\<exists>r b' l'. blurb_draw force tick b l = Some (r, b', l') \<and> blurb_ok b' \<and>
    blurb_place b' = blurb_place b \<and> blurb_extent b' = blurb_extent b \<and> only_dev l l' \<and>
    emits (in_region (blurb_place b) (blurb_extent b) l) l l'"
proof (cases b)
  case (NoScroll x)
  with ns.draw_ok [OF TrueI assms(2), of force tick x] show ?thesis by force
next
  case (VertScroll x)
  with vs.draw_ok [OF _ assms(2), of x force tick] assms(1) show ?thesis by force
next
  case (HorizScroll x)
  with hs.draw_ok [OF _ assms(2), of x force tick] assms(1) show ?thesis by force
qed

interpretation any: blurb_impl blurb_move blurb_draw blurb_place blurb_extent blurb_ok
proof
  fix b :: blurb and c :: Coord
  assume "blurb_ok b"
  then show "blurb_ok (blurb_move c b) \<and> blurb_place (blurb_move c b) = c \<and>
      blurb_extent (blurb_move c b) = blurb_extent b"
    using ns.move_valid vs.move_valid hs.move_valid by (cases b) auto
qed (rule blurb_draw_ok)

lemma NewBlurb_ok [simp]:
  "blurb_ok (NewBlurb l t start dims)" "blurb_place (NewBlurb l t start dims) = start"
  "blurb_extent (NewBlurb l t start dims) = dims"
  using fit_loop_count [of "[]" "255" "Col dims" t]
  by (auto simp: NewBlurb_def Let_def NewNoScroller_def NewVertScroller_def NewHorizScroller_def
      vs_ok_def fit_def word_gt_0)

section \<open>Long messages\<close>

text \<open>\<open>message.go\<close>: the loops run until their \<open>done\<close> channel is closed, here after \<open>n\<close> cycles.
  Blurbs made here have no tick channel, which counts as always having a tick.\<close>

fun LongMsg_loop :: "nat \<Rightarrow> cfa_error option \<Rightarrow> blurb \<Rightarrow> Lcd \<Rightarrow> (cfa_error option \<times> Lcd) option" where
  "LongMsg_loop 0 err b l = Some (err, l)"
| "LongMsg_loop (Suc n) err b l =
     (case blurb_draw False True b l of
        None \<Rightarrow> None
      | Some ((_, err'), b', l') \<Rightarrow> LongMsg_loop n err' b' l')"

definition LongMsgUntil :: "nat \<Rightarrow> bytes \<Rightarrow> Lcd \<Rightarrow> (cfa_error option \<times> Lcd) option" where
  "LongMsgUntil n msg l =
     (case blurb_draw True True
             (NewBlurb l msg \<lparr>Col = 0, Row = 0\<rparr> \<lparr>Col = Width l, Row = Row (l_dims l)\<rparr>) l of
        None \<Rightarrow> None
      | Some ((_, err), b', l') \<Rightarrow> LongMsg_loop n err b' l')"

text \<open>\<open>BlinkMsgUntil\<close> in the style \<open>Flash\<close>; the deferred \<open>defaultBacklight\<close> runs last.\<close>

fun Flash_loop :: "nat \<Rightarrow> u8 \<Rightarrow> cfa_error option \<Rightarrow> blurb \<Rightarrow> Lcd \<Rightarrow> (cfa_error option \<times> Lcd) option" where
  "Flash_loop 0 bl err b l =
     (case defaultBacklight l of (e, l') \<Rightarrow> Some (if err = None then e else err, l'))"
| "Flash_loop (Suc n) bl err b l =
     (case blurb_draw False True b l of
        None \<Rightarrow> None
      | Some (_, b', l1) \<Rightarrow>
          (case toggleBacklight bl l1 of (bl', err', l2) \<Rightarrow> Flash_loop n bl' err' b' l2))"

definition BlinkMsgUntil :: "nat \<Rightarrow> bytes \<Rightarrow> Lcd \<Rightarrow> (cfa_error option \<times> Lcd) option" where
  "BlinkMsgUntil n msg l =
     (case blurb_draw True True
             (NewBlurb l msg \<lparr>Col = 0, Row = 0\<rparr> \<lparr>Col = Width l, Row = Row (l_dims l)\<rparr>) l of
        None \<Rightarrow> None
      | Some ((_, err), b', l') \<Rightarrow> Flash_loop n 90 err b' l')"

lemma LongMsg_loop_draws:
  "map_option snd (LongMsg_loop n err b l) = map_option snd (any.draws (replicate n (False, True)) b l)"
  by (induction n arbitrary: err b l) (auto split: option.splits)

lemma LongMsg_loop_ok:
  assumes "blurb_ok b" and "lcd_ok l"
  shows "\<exists>e l'. LongMsg_loop n err b l = Some (e, l') \<and> only_dev l l' \<and>
    emits (in_region (blurb_place b) (blurb_extent b) l) l l'"
  using any.draws_ok [OF assms, of "replicate n (False, True)"] LongMsg_loop_draws [of n err b l]
  by auto

text \<open>The packets of a flashing message.\<close>

definition flash_pkt :: "blurb \<Rightarrow> Lcd \<Rightarrow> pktNoCrc \<Rightarrow> bool" where
  "flash_pkt b l q \<longleftrightarrow> in_region (blurb_place b) (blurb_extent b) l q \<or>
     (\<exists>x \<in> {10, 90, st_backlight (l_prevState l)}. q = out_pkt Cmd_SetBacklight [x])"

lemma backlight_emits: "emits (\<lambda>q. q = out_pkt Cmd_SetBacklight [x]) l (snd (setBacklight x l))"
  unfolding setBacklight_def snd_sendCmd_err by (rule emits_mono [OF sendCmd_emits]) simp

lemma backlight_sent: "sent (out_pkt Cmd_SetBacklight [x]) l (snd (setBacklight x l))"
  unfolding setBacklight_def snd_sendCmd_err
  by (rule sendCmd_sends) (simp_all add: Cmd_SetBacklight_def MAX_DATA_LENGTH_def)

lemma only_dev_backlight [simp]: "only_dev l (snd (setBacklight x l))"
  by (simp add: setBacklight_def)

lemma Flash_loop_ok:
  assumes "blurb_ok b" and "lcd_ok l" and "bl = 10 \<or> bl = 90"
  shows "\<exists>e l'. Flash_loop n bl err b l = Some (e, l') \<and> only_dev l l' \<and>
    emits (flash_pkt b l) l l' \<and>
    (\<exists>l1. l' = snd (setBacklight (st_backlight (l_prevState l)) l1) \<and> only_dev l l1)"
  using assms
proof (induction n arbitrary: bl err b l)
  case 0
  let ?x = "st_backlight (l_prevState l)"
  obtain e l' where sb: "setBacklight ?x l = (e, l')"
    by (cases "setBacklight ?x l")
  have "emits (flash_pkt b l) l (snd (setBacklight ?x l))"
    by (rule emits_mono [OF backlight_emits]) (auto simp: flash_pkt_def)
  with sb only_dev_backlight [of l ?x] show ?case
    by (auto simp: defaultBacklight_def intro!: exI [of _ l])
next
  case (Suc n)
  from blurb_draw_ok [OF Suc.prems(1,2), of False True] obtain r b1 l1 where
    one: "blurb_draw False True b l = Some (r, b1, l1)" "blurb_ok b1"
      "blurb_place b1 = blurb_place b" "blurb_extent b1 = blurb_extent b" "only_dev l l1"
      "emits (in_region (blurb_place b) (blurb_extent b) l) l l1"
    by blast
  define l2 where "l2 = snd (setBacklight (100 - bl) l1)"
  have dev: "only_dev l l2"
    unfolding l2_def using one(5) by (rule only_dev_trans) simp
  have bl: "100 - bl = 10 \<or> 100 - bl = 90"
    using Suc.prems(3) by auto
  have same: "flash_pkt b1 l2 = flash_pkt b l"
    using dev one(3,4) by (simp add: fun_eq_iff flash_pkt_def in_region_only_dev only_dev_fields)
  have "emits (flash_pkt b l) l l2"
  proof (rule emits_trans)
    show "emits (flash_pkt b l) l l1"
      using one(6) by (rule emits_mono) (simp add: flash_pkt_def)
    show "emits (flash_pkt b l) l1 l2"
      unfolding l2_def using bl by - (rule emits_mono [OF backlight_emits], auto simp: flash_pkt_def)
  qed
  moreover from Suc.IH [OF one(2) _ bl, of l2 "fst (setBacklight (100 - bl) l1)"] dev Suc.prems(2)
  obtain e l' where rest: "Flash_loop n (100 - bl) (fst (setBacklight (100 - bl) l1)) b1 l2 = Some (e, l')"
    "only_dev l2 l'" "emits (flash_pkt b l) l2 l'"
    "\<exists>l3. l' = snd (setBacklight (st_backlight (l_prevState l)) l3) \<and> only_dev l2 l3"
    by (auto simp: only_dev_fields same)
  moreover have "Flash_loop (Suc n) bl err b l = Some (e, l')"
    using one(1) rest(1) by (cases "setBacklight (100 - bl) l1") (simp add: toggleBacklight_def l2_def)
  ultimately show ?case
    using emits_trans only_dev_trans [OF dev] by blast
qed

section \<open>Properties\<close>

text \<open>A long message shown until its channel closes draws only on the display's rows, within
  the usable width, whichever kind of scrolling it uses, however long it runs and whatever the link
  does; no draw panics or hangs.\<close>

theorem LongMsgUntil_stays:
  assumes "lcd_ok l"
  shows "\<exists>e l'. LongMsgUntil n msg l = Some (e, l') \<and> only_dev l l' \<and>
    emits (in_region \<lparr>Col = 0, Row = 0\<rparr> \<lparr>Col = Width l, Row = Row (l_dims l)\<rparr> l) l l'"
proof -
  define b where "b = NewBlurb l msg \<lparr>Col = 0, Row = 0\<rparr> \<lparr>Col = Width l, Row = Row (l_dims l)\<rparr>"
  have b: "blurb_ok b" "blurb_place b = \<lparr>Col = 0, Row = 0\<rparr>"
    "blurb_extent b = \<lparr>Col = Width l, Row = Row (l_dims l)\<rparr>"
    by (simp_all add: b_def)
  from blurb_draw_ok [OF b(1) assms, of True True] obtain c err b1 l1 where
    one: "blurb_draw True True b l = Some ((c, err), b1, l1)" "blurb_ok b1"
      "blurb_place b1 = blurb_place b" "blurb_extent b1 = blurb_extent b" "only_dev l l1"
      "emits (in_region (blurb_place b) (blurb_extent b) l) l l1"
    by auto
  have "lcd_ok l1" using assms one(5) by (simp add: only_dev_fields)
  from LongMsg_loop_ok [OF one(2) this, of n err] obtain e l' where
    "LongMsg_loop n err b1 l1 = Some (e, l')" "only_dev l1 l'"
    "emits (in_region (blurb_place b) (blurb_extent b) l) l1 l'"
    using one by (auto simp: in_region_only_dev)
  then show ?thesis
    using one emits_trans [OF one(6)] only_dev_trans [OF one(5)] b
    by (auto simp: LongMsgUntil_def b_def)
qed

lemma LongMsgUntil_stays_witness:
  "\<exists>e l'. LongMsgUntil 7 (replicate 100 0x41) (test_lcd Cfa635 silent) = Some (e, l')"
  using LongMsgUntil_stays [OF test_lcd_ok] by blast

text \<open>A flashing message sends only its text and backlight levels 10, 90 and the captured one,
  and its last command puts the captured backlight level back.\<close>

theorem BlinkMsgUntil_restores_backlight:
  fixes l :: Lcd and msg :: bytes
  assumes "lcd_ok l"
  defines "b \<equiv> NewBlurb l msg \<lparr>Col = 0, Row = 0\<rparr> \<lparr>Col = Width l, Row = Row (l_dims l)\<rparr>"
  shows "\<exists>e l1 l'. BlinkMsgUntil n msg l = Some (e, l') \<and> only_dev l l' \<and> emits (flash_pkt b l) l l' \<and>
    l' = snd (setBacklight (st_backlight (l_prevState l)) l1) \<and>
    sent (out_pkt Cmd_SetBacklight [st_backlight (l_prevState l)]) l1 l'"
proof -
  have b: "blurb_ok b" by (simp add: b_def)
  from blurb_draw_ok [OF b(1) assms(1), of True True] obtain c err b1 l1 where
    one: "blurb_draw True True b l = Some ((c, err), b1, l1)" "blurb_ok b1"
      "blurb_place b1 = blurb_place b" "blurb_extent b1 = blurb_extent b" "only_dev l l1"
      "emits (in_region (blurb_place b) (blurb_extent b) l) l l1"
    by auto
  have "lcd_ok l1" using assms(1) one(5) by (simp add: only_dev_fields)
  moreover have same: "flash_pkt b1 l1 = flash_pkt b l"
    using one(3-5) by (simp add: fun_eq_iff flash_pkt_def in_region_only_dev only_dev_fields)
  ultimately obtain e l' l2 where rest: "Flash_loop n 90 err b1 l1 = Some (e, l')" "only_dev l1 l'"
    "emits (flash_pkt b l) l1 l'" "l' = snd (setBacklight (st_backlight (l_prevState l)) l2)"
    using Flash_loop_ok [OF one(2), of l1 90 n err] one(5) by (auto simp: only_dev_fields)
  have "emits (flash_pkt b l) l l1"
    using one(6) by (rule emits_mono) (simp add: flash_pkt_def)
  then have "emits (flash_pkt b l) l l'"
    using rest(3) by (rule emits_trans)
  moreover have "BlinkMsgUntil n msg l = Some (e, l')"
    using one(1) rest(1) by (simp add: BlinkMsgUntil_def b_def)
  ultimately show ?thesis
    using rest(4) backlight_sent only_dev_trans [OF one(5) rest(2)] by blast
qed

lemma BlinkMsgUntil_restores_backlight_witness:
  "\<exists>e l1 l'. BlinkMsgUntil 3 [0x41] (test_lcd Cfa635 silent) = Some (e, l') \<and>
     sent (out_pkt Cmd_SetBacklight [0]) l1 l'"
  using BlinkMsgUntil_restores_backlight [OF test_lcd_ok [of Cfa635 silent], of 3 "[0x41]"]
  by (auto simp: test_lcd_def)

section \<open>Every line and every column gets its turn\<close>

lemma vs_advance_lines [simp]: "vs_lines ((vs_advance ^^ n) vs) = vs_lines vs"
  by (induction n) simp_all

lemma vs_advance_step:
  assumes "length (vs_lines vs) \<le> 255" and "unat (vs_topIdx vs) \<le> length (vs_lines vs)"
  shows "unat (vs_topIdx (vs_advance vs)) = Suc (unat (vs_topIdx vs)) mod Suc (length (vs_lines vs))"
proof (cases "unat (vs_topIdx vs) = length (vs_lines vs)")
  case False
  then have "unat (vs_topIdx vs + 1) = Suc (unat (vs_topIdx vs))"
    using assms by (simp add: unat_add_u8)
  then show ?thesis
    using False assms(2) by (simp add: vs_advance_def)
qed (simp add: vs_advance_def)

lemma vs_advance_index:
  assumes "length (vs_lines vs) \<le> 255" and "vs_topIdx vs = 0"
  shows "unat (vs_topIdx ((vs_advance ^^ n) vs)) = n mod Suc (length (vs_lines vs))"
proof (induction n)
  case 0
  then show ?case by (simp add: assms(2))
next
  case (Suc n)
  have "n mod Suc (length (vs_lines vs)) < Suc (length (vs_lines vs))"
    by simp
  then have "unat (vs_topIdx ((vs_advance ^^ n) vs)) \<le> length (vs_lines ((vs_advance ^^ n) vs))"
    by (simp only: Suc vs_advance_lines less_Suc_eq_le)
  from vs_advance_step [OF _ this] assms(1) show ?case
    by (simp add: Suc mod_Suc_eq)
qed

lemma vs_draw_success:
  assumes "vs_ok vs" and "lcd_ok l" and "vs_draw force tick vs l = Some ((c, None), vs', l')"
  shows "vs' = vs_advance vs \<and> (\<forall>i. unat (Row (vs_start vs)) + i \<le> unat (Row (vs_start vs) + Row (vs_dims vs)) \<longrightarrow>
    sent (disp_pkt (Col (vs_start vs)) (Row (vs_start vs) + to_byte i)
      (padcate (line_at (vs_lines vs) (unat (vs_topIdx vs) + i)) (Col (vs_dims vs)))) l l')"
proof -
  have "line_at (drop (unat (vs_topIdx vs)) (vs_lines vs)) i = line_at (vs_lines vs) (unat (vs_topIdx vs) + i)" for i
    using assms(1) by (auto simp: line_at_def vs_ok_def)
  then show ?thesis
    using writeWindow_in_region [OF assms(2), of "vs_start vs" "vs_dims vs" "drop (unat (vs_topIdx vs)) (vs_lines vs)"]
      assms by (auto simp: vs_draw_def vs_ok_def window_pkt_def split: option.splits)
qed

text \<open>Vertical scrolling shows every line on every row.  After \<open>n\<close> draws of a new scroller the
  next successful draw shows on its row \<open>i\<close> line \<open>n mod (lines + 1) + i\<close>, blank past the last
  line, and moves on by one; so each line comes to the top once in every \<open>lines + 1\<close> draws.\<close>

theorem vertScroller_cycles:
  fixes start dims :: Coord and ls :: "bytes list" and n :: nat
  assumes "length ls \<le> 255" and "lcd_ok l"
  defines "vs \<equiv> (vs_advance ^^ n) (NewVertScroller ls start dims)"
  assumes "vs_draw force tick vs l = Some ((c, None), vs', l')"
  shows "vs' = (vs_advance ^^ Suc n) (NewVertScroller ls start dims) \<and>
    (\<forall>i. unat (Row start) + i \<le> unat (Row start + Row dims) \<longrightarrow>
      sent (disp_pkt (Col start) (Row start + to_byte i)
        (padcate (line_at ls (n mod Suc (length ls) + i)) (Col dims))) l l')"
proof -
  have fields: "vs_start vs = start \<and> vs_dims vs = dims \<and> vs_lines vs = ls"
    unfolding vs_def by (induction n) (simp_all add: NewVertScroller_def)
  have idx: "unat (vs_topIdx vs) = n mod Suc (length ls)"
    using vs_advance_index [of "NewVertScroller ls start dims" n] assms(1)
    by (simp add: vs_def NewVertScroller_def)
  have "n mod Suc (length ls) < Suc (length ls)"
    by simp
  then have "vs_ok vs"
    using assms(1) fields idx by (simp add: vs_ok_def less_Suc_eq_le)
  from vs_draw_success [OF this assms(2,4)] show ?thesis
    using fields idx by (simp add: vs_def)
qed

lemma updateState_nat:
  assumes "unat (hs_availChars hs) \<le> length (hs_txt hs)" and "length (hs_txt hs) < 2 ^ 63"
    and "unat (hs_scrollState hs) < length (hs_txt hs) - unat (hs_availChars hs) + 5"
  defines "f \<equiv> length (hs_txt hs) - unat (hs_availChars hs)"
  shows "unat (hs_pos (snd (updateState hs))) = min (unat (hs_scrollState hs) - 2) f"
    and "unat (hs_scrollState (snd (updateState hs))) = Suc (unat (hs_scrollState hs)) mod (f + 5)"
proof -
  have f: "unat (finalPos hs) = f"
    using assms(1,2) by (simp add: finalPos_def f_def unat_sub word_le_nat_alt unat_of_nat)
  define s where "s = hs_scrollState hs"
  have s: "unat s < f + 5" "f < 2 ^ 63"
    using assms by (simp_all add: f_def s_def)
  have sub: "unat (if s \<le> 2 then 0 else s - 2) = unat s - 2"
    by (auto simp: word_le_nat_alt unat_sub)
  have suc: "unat (s + 1) = Suc (unat s)" "unat (finalPos hs + 4) = f + 4"
    using s f by (simp_all add: unat_word_ariths)
  have "unat (hs_pos (snd (updateState hs))) = unat (if (if s \<le> 2 then 0 else s - 2) > finalPos hs
      then finalPos hs else (if s \<le> 2 then 0 else s - 2))"
    by (simp add: updateState_def Let_def s_def)
  then show "unat (hs_pos (snd (updateState hs))) = min (unat (hs_scrollState hs) - 2) f"
    using sub f by (auto simp: word_less_nat_alt s_def [symmetric])
  have "unat (hs_scrollState (snd (updateState hs))) = unat (if s + 1 > finalPos hs + 4 then 0 else s + 1)"
    by (simp add: updateState_def Let_def s_def)
  then show "unat (hs_scrollState (snd (updateState hs))) = Suc (unat (hs_scrollState hs)) mod (f + 5)"
    using suc s(1) by (auto simp: word_less_nat_alt s_def [symmetric] mod_if)
qed

definition update_pos :: "horizScroller \<Rightarrow> horizScroller" where
  "update_pos hs = snd (updateState hs)"

lemma update_pos_fields [simp]:
  "hs_txt ((update_pos ^^ n) hs) = hs_txt hs" "hs_availChars ((update_pos ^^ n) hs) = hs_availChars hs"
  by (induction n) (simp_all add: update_pos_def)

lemma update_pos_Suc: "(update_pos ^^ Suc n) hs = snd (updateState ((update_pos ^^ n) hs))"
  by (simp add: update_pos_def)

lemma update_pos_state:
  assumes "unat (hs_availChars hs) \<le> length (hs_txt hs)" and "length (hs_txt hs) < 2 ^ 63"
  defines "f \<equiv> length (hs_txt hs) - unat (hs_availChars hs)"
  assumes "unat (hs_scrollState hs) < f + 5"
  shows "unat (hs_scrollState ((update_pos ^^ n) hs)) = (unat (hs_scrollState hs) + n) mod (f + 5)"
proof (induction n)
  case 0
  then show ?case using assms(4) by simp
next
  case (Suc n)
  then have "unat (hs_scrollState ((update_pos ^^ n) hs)) < f + 5"
    by simp
  then have "unat (hs_scrollState (snd (updateState ((update_pos ^^ n) hs)))) =
      Suc (unat (hs_scrollState ((update_pos ^^ n) hs))) mod (f + 5)"
    using assms(1,2) by (subst updateState_nat(2)) (simp_all add: f_def)
  then show ?case
    by (simp only: update_pos_Suc Suc mod_Suc_eq add_Suc_right)
qed

text \<open>Horizontal scrolling shows every position.  For a text at least as wide as the display,
  with \<open>f\<close> hidden characters, the scroll position after each update is \<open>s - 2\<close>, held between 0
  and \<open>f\<close>, where \<open>s\<close> counts the updates modulo \<open>f + 5\<close>; so it passes through 0, 1, ..., \<open>f\<close> in
  order, resting three updates at each end.\<close>

theorem horizScroller_positions:
  fixes hs :: horizScroller and n :: nat
  assumes "unat (hs_availChars hs) \<le> length (hs_txt hs)" and "length (hs_txt hs) < 2 ^ 63"
  defines "f \<equiv> length (hs_txt hs) - unat (hs_availChars hs)"
  assumes "unat (hs_scrollState hs) < f + 5"
  shows "unat (hs_pos (((\<lambda>h. snd (updateState h)) ^^ Suc n) hs)) =
    min ((unat (hs_scrollState hs) + n) mod (f + 5) - 2) f"
proof -
  have state: "unat (hs_scrollState ((update_pos ^^ n) hs)) = (unat (hs_scrollState hs) + n) mod (f + 5)"
    using update_pos_state [OF assms(1,2)] assms(4) by (simp add: f_def)
  moreover have "(unat (hs_scrollState hs) + n) mod (f + 5) < f + 5"
    by simp
  ultimately have "unat (hs_pos (snd (updateState ((update_pos ^^ n) hs)))) =
      min ((unat (hs_scrollState hs) + n) mod (f + 5) - 2) f"
    using assms(1,2) by (subst updateState_nat(1)) (simp_all add: f_def)
  moreover have "((\<lambda>h. snd (updateState h)) ^^ Suc n) hs = snd (updateState ((update_pos ^^ n) hs))"
    by (simp add: update_pos_def [abs_def])
  ultimately show ?thesis by simp
qed

lemma horizScroller_positions_witness:
  "unat (hs_pos (((\<lambda>h. snd (updateState h)) ^^ Suc 3)
     (NewHorizScroller (test_lcd Cfa631 silent) (replicate 30 0x41) \<lparr>Col = 0, Row = 0\<rparr> \<lparr>Col = 20, Row = 0\<rparr>))) = 2"
  using horizScroller_positions [of "NewHorizScroller (test_lcd Cfa631 silent) (replicate 30 0x41)
      \<lparr>Col = 0, Row = 0\<rparr> \<lparr>Col = 20, Row = 0\<rparr>" 3]
  by (simp add: NewHorizScroller_def Width_def test_lcd_def)

lemma vertScroller_cycles_witness:
  "\<exists>vs' l'. vs_draw False True (NewVertScroller [[0x41], [0x42]] \<lparr>Col = 0, Row = 0\<rparr> \<lparr>Col = 20, Row = 0\<rparr>)
       (test_lcd Cfa631 (silent\<lparr>sd_arr := [Arrive (mk_packet 0x5f [] 0)]\<rparr>)) = Some ((True, None), vs', l') \<and>
     vs_topIdx vs' = 1"
proof -
  let ?vs = "NewVertScroller [[0x41], [0x42]] \<lparr>Col = 0, Row = 0\<rparr> \<lparr>Col = 20, Row = 0\<rparr>"
  let ?l = "test_lcd Cfa631 (silent\<lparr>sd_arr := [Arrive (mk_packet 0x5f [] 0)]\<rparr>)"
  let ?d = "0 # 0 # padcate [0x41] 20"
  have "fst (sendPktRetry (out_pkt Cmd_WriteDisp ?d) (l_dev ?l)) = Inr (mk_packet 0x5f [] 0)"
    by (subst sendPktRetry_answered [where as = "[]" and p = "mk_packet 0x5f [] 0"])
      (simp_all add: test_lcd_def silent_def mk_packet_def out_pkt_def wf_pkt_def
        CommandFromResponse_def cmd_defs MAX_DATA_LENGTH_def)
  then have "\<exists>l'. sendCmd_err Cmd_WriteDisp ?d ?l = (None, l')"
    by (auto simp: sendCmd_err_def sendCmd_def SetCommand_def SetData_def zero_pkt_def out_pkt_def cmd_defs
        MAX_DATA_LENGTH_def split: prod.splits sum.splits)
  then obtain l' where "lcd_write \<lparr>Col = 0, Row = 0\<rparr> (padcate [0x41] 20) False ?l = (None, l')"
    by (auto simp: lcd_write_def Width_def test_lcd_def)
  then have "vs_draw False True ?vs ?l = Some ((True, None), vs_advance ?vs, l')"
    by (simp add: vs_draw_def NewVertScroller_def writeWindow_def writeWindow_from.simps)
  with vertScroller_cycles [of "[[0x41], [0x42]]" ?l False True 0 "\<lparr>Col = 0, Row = 0\<rparr>"
      "\<lparr>Col = 20, Row = 0\<rparr>" True "vs_advance ?vs" l']
  show ?thesis
    by (auto simp: vs_advance_def NewVertScroller_def)
qed

text \<open>\<open>NewBlurb\<close> picks a kind that can show the whole text.  A blurb without scrolling holds no
  more lines than its rectangle has rows, a vertical scroller has more than one row to use, and a
  horizontal scroller is only used for a text wider than its rectangle.  The lines that are kept
  hold all of the text's non-space bytes in order, as long as there are at most 255.\<close>

theorem NewBlurb_shows_text:
  "case NewBlurb l t start dims of
     NoScroll b \<Rightarrow> length (ns_txt b) \<le> Suc (unat (Row dims)) \<and>
       (length (ns_txt b) \<le> 255 \<longrightarrow> ink (concat (ns_txt b)) = ink t)
   | VertScroll b \<Rightarrow> length (vs_lines b) > Suc (unat (Row dims)) \<and> Row dims > 0 \<and>
       (length (vs_lines b) \<le> 255 \<longrightarrow> ink (concat (vs_lines b)) = ink t)
   | HorizScroll b \<Rightarrow> hs_txt b = t \<and> length t > unat (Col dims)"
proof -
  define ls where "ls = fit t \<lparr>Col = Col dims, Row = 255\<rparr>"
  have ink: "length ls \<le> 255 \<longrightarrow> ink (concat ls) = ink t"
    using fit_loop_ink [of "[]" t "Col dims" "255"] by (auto simp: ls_def fit_def)
  have "length ls \<le> 1" if "length t \<le> unat (Col dims)"
  proof -
    have "length t < 256"
      using le_less_trans [OF that unat_u8_less] .
    then have "unat (nextWrap t (Col dims)) = length t"
      using that by (auto simp: nextWrap_def wrapPos_def min_def)
    then show ?thesis
      by (simp add: ls_def fit_def fit_loop.simps [of _ _ "[]"] fit_loop.simps [of _ _ "[t]"] trim_left_def Let_def)
  qed
  then have "1 < length ls \<Longrightarrow> unat (Col dims) < length t"
    by (cases "length t \<le> unat (Col dims)") auto
  then show ?thesis
    using ink
    by (auto simp: NewBlurb_def ls_def [symmetric] Let_def NewNoScroller_def NewVertScroller_def
        NewHorizScroller_def not_le)
qed

lemma NewBlurb_shows_text_witness:
  "\<exists>b. NewBlurb (test_lcd Cfa631 silent) [0x41, 0x42] \<lparr>Col = 0, Row = 0\<rparr> \<lparr>Col = 4, Row = 0\<rparr> = NoScroll b \<and>
     ink (concat (ns_txt b)) = [0x41, 0x42]"
proof -
  have "fit [0x41, 0x42] \<lparr>Col = 4, Row = 255\<rparr> = [[0x41, 0x42]]"
    by (simp add: fit_def fit_loop.simps nextWrap_def wrapPos_def trim_left_def)
  then have "NewBlurb (test_lcd Cfa631 silent) [0x41, 0x42] \<lparr>Col = 0, Row = 0\<rparr> \<lparr>Col = 4, Row = 0\<rparr> =
      NoScroll (NewNoScroller [[0x41, 0x42]] \<lparr>Col = 0, Row = 0\<rparr> \<lparr>Col = 4, Row = 0\<rparr>)"
    by (simp add: NewBlurb_def)
  with NewBlurb_shows_text [where l = "test_lcd Cfa631 silent" and t = "[0x41, 0x42]"
      and start = "\<lparr>Col = 0, Row = 0\<rparr>" and dims = "\<lparr>Col = 4, Row = 0\<rparr>"]
  show ?thesis
    by (auto simp: NewNoScroller_def space_def)
qed

end
