(* ===== verification/CfaMenu.thy ===== *)
theory CfaMenu
  imports CfaBlurb
begin

text \<open>
  Menus: \<open>pkg/hw/cfa/menu.go\<close>.  The view is the part of a menu that key events change; the
  menu adds its items, one blurb each.  What \<open>waitForEvent\<close> returned in each round, and which
  items' tick channels held a tick, are inputs; when the inputs run out the \<open>done\<close> channel is
  closed.  A panic (a negative item index) or an endless draw is \<open>None\<close>.
\<close>

section \<open>The view\<close>

definition CHOICE_NONE :: int where "CHOICE_NONE = -1"
definition CHOICE_CANCEL :: int where "CHOICE_CANCEL = -2"

record view =
  vw_first :: int
  vw_selected :: int
  vw_choice :: int
  vw_max :: int
  vw_overflow :: bool
  vw_height :: int
  vw_redrawLines :: bool
  vw_redrawCursor :: bool

definition view_up :: "view \<Rightarrow> Lcd \<Rightarrow> view \<times> Lcd" where
  "view_up v l =
     (if vw_selected v > 0 then
        (let v1 = v\<lparr>vw_selected := vw_selected v - 1\<rparr>;
             v2 = (if vw_selected v1 < vw_first v1
                   then v1\<lparr>vw_first := vw_first v1 - 1, vw_redrawLines := True\<rparr>
                   else v1\<lparr>vw_redrawCursor := True\<rparr>)
         in (v2, setLegend (if vw_selected v2 = 0 then Legend_VDX else LegendUVDX) True l))
      else (v, l))"

definition view_down :: "view \<Rightarrow> Lcd \<Rightarrow> view \<times> Lcd" where
  "view_down v l =
     (if vw_selected v < vw_max v then
        (let v1 = v\<lparr>vw_selected := vw_selected v + 1\<rparr>;
             v2 = (if vw_first v1 + vw_height v1 < vw_selected v1
                   then v1\<lparr>vw_first := vw_first v1 + 1, vw_redrawLines := True\<rparr>
                   else v1\<lparr>vw_redrawCursor := True\<rparr>)
         in (v2, setLegend (if vw_selected v2 = vw_max v2 then LegendUV_X else LegendUVDX) True l))
      else (v, l))"

definition view_update :: "u8 \<Rightarrow> view \<Rightarrow> Lcd \<Rightarrow> view \<times> Lcd" where
  "view_update k v0 l =
     (let v = v0\<lparr>vw_redrawLines := False, vw_redrawCursor := False\<rparr>
      in if k = KEY_UL_RELEASE \<or> k = KEY_UP_RELEASE then view_up v l
         else if k = KEY_LL_RELEASE \<or> k = KEY_DOWN_RELEASE then view_down v l
         else if k = KEY_UR_RELEASE \<or> k = KEY_ENTER_RELEASE then (v\<lparr>vw_choice := vw_selected v\<rparr>, l)
         else if k = KEY_LR_RELEASE \<or> k = KEY_EXIT_RELEASE then (v\<lparr>vw_choice := CHOICE_CANCEL\<rparr>, l)
         else (v, l))"

definition offscreen :: "view \<Rightarrow> int \<Rightarrow> bool" where
  "offscreen v idx \<longleftrightarrow> idx < vw_first v \<or> idx > vw_first v + vw_height v"

section \<open>The menu\<close>

record menu =
  m_items :: "blurb list"
  m_v :: view
  m_startCol :: u8
  m_keyPolling :: bool

definition createMenu :: "Lcd \<Rightarrow> bytes list \<Rightarrow> bool \<Rightarrow> menu" where
  "createMenu l items keyPolling =
     \<lparr>m_items = map (\<lambda>it. NewBlurb l it \<lparr>Col = 0, Row = 0\<rparr> \<lparr>Col = Width l, Row = 0\<rparr>) items,
      m_v = \<lparr>vw_first = 0, vw_selected = 0, vw_choice = CHOICE_NONE, vw_max = int (length items) - 1,
             vw_overflow = False, vw_height = int (unat (Row (l_dims l))), vw_redrawLines = True,
             vw_redrawCursor = True\<rparr>,
      m_startCol = 0, m_keyPolling = keyPolling\<rparr>"

text \<open>Draw the given display lines; the flag of the result says whether all were drawn.  The
  display has 2 or 4 lines, so the byte counting them does not wrap.\<close>

fun draw_lines :: "(nat \<Rightarrow> bool) \<Rightarrow> nat list \<Rightarrow> bool \<Rightarrow> menu \<Rightarrow> Lcd \<Rightarrow> (bool \<times> bool \<times> menu \<times> Lcd) option" where
  "draw_lines ticks [] ovf m l = Some (True, ovf, m, l)"
| "draw_lines ticks (line # lines) ovf m l =
     (let idx = vw_first (m_v m) + int line
      in if idx \<ge> int (length (m_items m)) then draw_lines ticks lines ovf m l
         else if idx < 0 then None
         else let it = m_items m ! nat idx;
                  ovf' = (ovf \<or> \<not> blurb_fits it)
              in if \<not> vw_redrawLines (m_v m) \<and> blurb_fits it then draw_lines ticks lines ovf' m l
                 else case blurb_draw (vw_redrawLines (m_v m)) (ticks (nat idx))
                             (blurb_move \<lparr>Col = m_startCol m, Row = to_byte line\<rparr> it) l of
                        None \<Rightarrow> None
                      | Some ((_, e), it', l') \<Rightarrow>
                          (let m' = m\<lparr>m_items := (m_items m)[nat idx := it']\<rparr>
                           in if e \<noteq> None then Some (False, ovf', m', l')
                              else draw_lines ticks lines ovf' m' l'))"

definition reset_offscreen :: "menu \<Rightarrow> menu" where
  "reset_offscreen m =
     m\<lparr>m_items := map (\<lambda>i. if offscreen (m_v m) (int i)
         then blurb_move \<lparr>Col = m_startCol m, Row = offScreen\<rparr> (m_items m ! i) else m_items m ! i)
         [0..<length (m_items m)]\<rparr>"

definition menu_draw :: "(nat \<Rightarrow> bool) \<Rightarrow> menu \<Rightarrow> Lcd \<Rightarrow> (menu \<times> Lcd) option" where
  "menu_draw ticks m l =
     (if \<not> vw_redrawLines (m_v m) \<and> \<not> vw_overflow (m_v m) \<and> \<not> vw_redrawCursor (m_v m) then Some (m, l)
      else case draw_lines ticks [0..<Suc (unat (Row (l_dims l)))] False m l of
             None \<Rightarrow> None
           | Some (False, _, m1, l1) \<Rightarrow>
               Some (m1\<lparr>m_v := (m_v m1)\<lparr>vw_redrawLines := True, vw_redrawCursor := True\<rparr>\<rparr>, l1)
           | Some (True, ovf, m1, l1) \<Rightarrow>
               (let m2 = m1\<lparr>m_v := (m_v m1)\<lparr>vw_overflow := ovf\<rparr>\<rparr>;
                    l2 = (if vw_redrawCursor (m_v m2)
                          then snd (sendCmd Cmd_SetCursorPos
                                 [0, word_of_int (vw_selected (m_v m2) - vw_first (m_v m2))] l1)
                          else l1)
                in Some (reset_offscreen m2, l2)))"

fun menu_Run :: "(u8 \<times> (nat \<Rightarrow> bool)) list \<Rightarrow> menu \<Rightarrow> Lcd \<Rightarrow> (int \<times> Lcd) option" where
  "menu_Run inputs m l =
     (if vw_choice (m_v m) \<noteq> CHOICE_NONE then Some (vw_choice (m_v m), l)
      else case inputs of
        [] \<Rightarrow> Some (CHOICE_NONE, l)
      | (evt, ticks) # rest \<Rightarrow>
          (case menu_draw ticks m l of
             None \<Rightarrow> None
           | Some (m1, l1) \<Rightarrow>
               (let l2 = (if m_keyPolling m1 then snd (pollKeys l1) else l1)
                in case view_update evt (m_v m1) l2 of
                     (v', l3) \<Rightarrow> menu_Run rest (m1\<lparr>m_v := v'\<rparr>) l3)))"

definition menuWithTicks ::
    "bytes list \<Rightarrow> bool \<Rightarrow> (u8 \<times> (nat \<Rightarrow> bool)) list \<Rightarrow> Lcd \<Rightarrow> (int \<times> Lcd) option" where
  "menuWithTicks items keyPolling inputs l =
     (let l1 = setCursorStyle 1 l;
          l2 = setupKeyReporting False (\<not> keyPolling) l1;
          l3 = setLegend Legend_VDX True l2
      in case menu_Run inputs (createMenu l3 items keyPolling) l3 of
           None \<Rightarrow> None
         | Some (c, l4) \<Rightarrow> Some (c, snd (lcd_clear (hideCursor (setLegend LegendNone True l4)))))"

declare menu_Run.simps [simp del]

section \<open>Legends keep the display usable\<close>

lemma writeByte_only_dev [simp]: "only_dev l (snd (writeByte c b l))"
  by (simp add: writeByte_def)

lemma legend_width_small: "case legend_arrows g of (u, d, w) \<Rightarrow> w \<le> 3"
  by (cases g) (simp_all add: legendWidth_635_def)

lemma setLegend_ok:
  assumes "lcd_ok l"
  shows "lcd_ok (setLegend g also635 l)" "l_dims (setLegend g also635 l) = l_dims l"
    "l_model (setLegend g also635 l) = l_model l" "l_prevState (setLegend g also635 l) = l_prevState l"
proof -
  have dev: "l_dims (snd (writeByte c b l')) = l_dims l'" "l_model (snd (writeByte c b l')) = l_model l'"
    "l_prevState (snd (writeByte c b l')) = l_prevState l'"
    "l_legendWidth (snd (writeByte c b l')) = l_legendWidth l'" for c b and l' :: Lcd
    using only_dev_fields [OF writeByte_only_dev] by simp_all
  obtain u d w where g: "legend_arrows g = (u, d, w)" by (cases "legend_arrows g")
  with legend_width_small [of g] have "w \<le> 3" by simp
  with assms g show "lcd_ok (setLegend g also635 l)" "l_dims (setLegend g also635 l) = l_dims l"
    "l_model (setLegend g also635 l) = l_model l" "l_prevState (setLegend g also635 l) = l_prevState l"
    by (auto simp: setLegend_def Let_def lcd_ok_def legendWidth_631_def dev split: Model.splits)
qed

lemma setLegend_legend:
  "l_model l = Cfa631 \<or> also635 \<Longrightarrow> l_legend (setLegend g also635 l) = g"
  by (auto simp: setLegend_def Let_def split: Model.splits prod.splits)

lemma setCursorStyle_only_dev [simp]: "only_dev l (setCursorStyle s l)"
  by (simp add: setCursorStyle_def)

lemma setupKeyReporting_only_dev [simp]: "only_dev l (setupKeyReporting p r l)"
  by (simp add: setupKeyReporting_def)

lemma pollKeys_only_dev [simp]: "only_dev l (snd (pollKeys l))"
  by (auto simp: pollKeys_def only_dev_def split: prod.splits)

lemma only_dev_lcd_ok: "only_dev l l' \<Longrightarrow> lcd_ok l \<Longrightarrow> lcd_ok l'"
  by (simp add: only_dev_fields)

section \<open>The view\<close>

definition view_ok :: "view \<Rightarrow> bool" where
  "view_ok v \<longleftrightarrow> 0 \<le> vw_height v \<and> 0 \<le> vw_first v \<and> vw_first v \<le> vw_selected v \<and>
     vw_selected v \<le> vw_first v + vw_height v \<and> (vw_selected v \<le> vw_max v \<or> vw_selected v = 0)"

lemmas view_defs = view_update_def view_up_def view_down_def Let_def

lemma view_update_ok: "view_ok v \<Longrightarrow> view_ok (fst (view_update k v l))"
  by (auto simp: view_defs view_ok_def)

lemma view_update_lcd_ok: "lcd_ok l \<Longrightarrow> lcd_ok (snd (view_update k v l))"
  by (simp add: view_defs setLegend_ok)

lemma view_update_dims: "lcd_ok l \<Longrightarrow> l_dims (snd (view_update k v l)) = l_dims l"
  by (simp add: view_defs setLegend_ok)

text \<open>The reference: what a menu of items 0 to \<open>mx\<close> with item \<open>s\<close> selected answers to the
  keys \<open>ks\<close>.\<close>

datatype menu_key = Up | Down | Enter | Cancel | Other

definition menu_key_of :: "u8 \<Rightarrow> menu_key" where
  "menu_key_of k =
     (if k \<in> {KEY_UL_RELEASE, KEY_UP_RELEASE} then Up
      else if k \<in> {KEY_LL_RELEASE, KEY_DOWN_RELEASE} then Down
      else if k \<in> {KEY_UR_RELEASE, KEY_ENTER_RELEASE} then Enter
      else if k \<in> {KEY_LR_RELEASE, KEY_EXIT_RELEASE} then Cancel else Other)"

fun menu_spec :: "int \<Rightarrow> int \<Rightarrow> menu_key list \<Rightarrow> int" where
  "menu_spec mx s [] = CHOICE_NONE"
| "menu_spec mx s (Up # ks) = menu_spec mx (max 0 (s - 1)) ks"
| "menu_spec mx s (Down # ks) = menu_spec mx (if s < mx then s + 1 else s) ks"
| "menu_spec mx s (Enter # ks) = s"
| "menu_spec mx s (Cancel # ks) = CHOICE_CANCEL"
| "menu_spec mx s (Other # ks) = menu_spec mx s ks"

lemma view_up_spec:
  assumes "view_ok v"
  shows "vw_max (fst (view_up v l)) = vw_max v" "vw_height (fst (view_up v l)) = vw_height v"
    "vw_choice (fst (view_up v l)) = vw_choice v"
    "vw_selected (fst (view_up v l)) = max 0 (vw_selected v - 1)"
  using assms by (auto simp: view_up_def Let_def view_ok_def)

lemma view_down_spec:
  "vw_max (fst (view_down v l)) = vw_max v" "vw_height (fst (view_down v l)) = vw_height v"
  "vw_choice (fst (view_down v l)) = vw_choice v"
  "vw_selected (fst (view_down v l)) = (if vw_selected v < vw_max v then vw_selected v + 1 else vw_selected v)"
  by (auto simp: view_down_def Let_def)

text \<open>Starting from cleared flags, each is set exactly if what it stands for has changed.\<close>

lemma view_redraws:
  assumes "\<not> vw_redrawLines v" "\<not> vw_redrawCursor v"
  shows "vw_redrawLines (fst (view_up v l)) \<longleftrightarrow> vw_first (fst (view_up v l)) \<noteq> vw_first v"
    "vw_redrawLines (fst (view_down v l)) \<longleftrightarrow> vw_first (fst (view_down v l)) \<noteq> vw_first v"
    "vw_redrawCursor (fst (view_up v l)) \<longleftrightarrow>
       vw_selected (fst (view_up v l)) - vw_first (fst (view_up v l)) \<noteq> vw_selected v - vw_first v"
    "vw_redrawCursor (fst (view_down v l)) \<longleftrightarrow>
       vw_selected (fst (view_down v l)) - vw_first (fst (view_down v l)) \<noteq> vw_selected v - vw_first v"
  using assms by (simp_all add: view_up_def view_down_def Let_def)

definition calm :: "view \<Rightarrow> view" where
  "calm v = v\<lparr>vw_redrawLines := False, vw_redrawCursor := False\<rparr>"

lemma calm_fields [simp]:
  "vw_max (calm v) = vw_max v" "vw_height (calm v) = vw_height v" "vw_choice (calm v) = vw_choice v"
  "vw_selected (calm v) = vw_selected v" "vw_first (calm v) = vw_first v" "view_ok (calm v) = view_ok v"
  by (simp_all add: calm_def view_ok_def)

lemma view_update_key:
  "view_update k v l =
     (case menu_key_of k of Up \<Rightarrow> view_up (calm v) l | Down \<Rightarrow> view_down (calm v) l
      | Enter \<Rightarrow> ((calm v)\<lparr>vw_choice := vw_selected v\<rparr>, l)
      | Cancel \<Rightarrow> ((calm v)\<lparr>vw_choice := CHOICE_CANCEL\<rparr>, l) | Other \<Rightarrow> (calm v, l))"
  by (simp add: view_update_def menu_key_of_def calm_def [symmetric] Let_def)

lemma view_update_spec:
  fixes k :: u8 and l :: Lcd
  assumes "view_ok v" and "vw_choice v = CHOICE_NONE"
  defines "v' \<equiv> fst (view_update k v l)"
  shows "vw_max v' = vw_max v" "vw_height v' = vw_height v"
    "menu_spec (vw_max v) (vw_selected v) (menu_key_of k # ks) =
       (if vw_choice v' = CHOICE_NONE then menu_spec (vw_max v) (vw_selected v') ks else vw_choice v')"
  using assms(1,2)
  by (cases "menu_key_of k"; simp add: v'_def view_update_key view_up_spec view_down_spec
      CHOICE_CANCEL_def; simp add: view_ok_def CHOICE_NONE_def)+

section \<open>Drawing\<close>

definition menu_ok :: "u8 \<Rightarrow> menu \<Rightarrow> bool" where
  "menu_ok w m \<longleftrightarrow> (\<forall>it \<in> set (m_items m). blurb_ok it \<and> blurb_extent it = \<lparr>Col = w, Row = 0\<rparr>) \<and>
     view_ok (m_v m)"

definition on_lines :: "u8 \<Rightarrow> menu \<Rightarrow> nat list \<Rightarrow> Lcd \<Rightarrow> pktNoCrc \<Rightarrow> bool" where
  "on_lines w m lines l q \<longleftrightarrow> (\<exists>line \<in> set lines.
     vw_first (m_v m) + int line < int (length (m_items m)) \<and>
     in_region \<lparr>Col = m_startCol m, Row = to_byte line\<rparr> \<lparr>Col = w, Row = 0\<rparr> l q)"

lemma draw_lines_ok:
  assumes "menu_ok w m" and "lcd_ok l"
  shows "\<exists>b ovf' m' l'. draw_lines ticks lines ovf m l = Some (b, ovf', m', l') \<and>
    menu_ok w m' \<and> m_v m' = m_v m \<and> length (m_items m') = length (m_items m) \<and>
    m_keyPolling m' = m_keyPolling m \<and> m_startCol m' = m_startCol m \<and>
    only_dev l l' \<and> emits (on_lines w m lines l) l l'"
  using assms
proof (induction ticks lines ovf m l rule: draw_lines.induct)
  case (1 ticks ovf m l)
  then show ?case by (auto intro: exI [of _ True])
next
  case (2 ticks line lines ovf m l)
  define idx where "idx = vw_first (m_v m) + int line"
  define it where "it = m_items m ! nat idx"
  have pos: "0 \<le> idx"
    using "2.prems"(1) by (simp add: menu_ok_def view_ok_def idx_def)
  have wider: "emits (on_lines w m lines l) l l' \<Longrightarrow> emits (on_lines w m (line # lines) l) l l'" for l'
    by (erule emits_mono) (auto simp: on_lines_def)
  consider (beyond) "idx \<ge> int (length (m_items m))"
    | (still) "idx < int (length (m_items m))" "\<not> vw_redrawLines (m_v m)" "blurb_fits it"
    | (draw) "idx < int (length (m_items m))" "vw_redrawLines (m_v m) \<or> \<not> blurb_fits it"
    by linarith
  then show ?case
  proof cases
    case beyond
    from "2.IH"(1) [OF idx_def beyond "2.prems"] wider beyond show ?thesis
      by (fastforce simp: idx_def [symmetric] Let_def)
  next
    case still
    from "2.IH"(2) [OF idx_def _ _ it_def refl _ "2.prems"] wider still pos show ?thesis
      by (fastforce simp: idx_def [symmetric] it_def [symmetric] Let_def)
  next
    case draw
    let ?b = "blurb_move \<lparr>Col = m_startCol m, Row = to_byte line\<rparr> it"
    have it: "blurb_ok it" "blurb_extent it = \<lparr>Col = w, Row = 0\<rparr>"
      using "2.prems"(1) draw(1) pos by (auto simp: menu_ok_def it_def)
    from any.move_valid [OF it(1), of "\<lparr>Col = m_startCol m, Row = to_byte line\<rparr>"]
    have b: "blurb_ok ?b" "blurb_place ?b = \<lparr>Col = m_startCol m, Row = to_byte line\<rparr>"
      "blurb_extent ?b = \<lparr>Col = w, Row = 0\<rparr>"
      by (simp_all add: it(2))
    from any.draw_ok [OF b(1) "2.prems"(2), of "vw_redrawLines (m_v m)" "ticks (nat idx)"] b(2,3)
    obtain c e it' l1 where
      one: "blurb_draw (vw_redrawLines (m_v m)) (ticks (nat idx)) ?b l = Some ((c, e), it', l1)"
        "blurb_ok it'" "blurb_extent it' = \<lparr>Col = w, Row = 0\<rparr>" "only_dev l l1"
        "emits (in_region \<lparr>Col = m_startCol m, Row = to_byte line\<rparr> \<lparr>Col = w, Row = 0\<rparr> l) l l1"
      by (metis prod.collapse)
    define m1 where "m1 = m\<lparr>m_items := (m_items m)[nat idx := it']\<rparr>"
    have m1: "menu_ok w m1" "m_v m1 = m_v m" "length (m_items m1) = length (m_items m)"
      "m_keyPolling m1 = m_keyPolling m" "m_startCol m1 = m_startCol m"
      using "2.prems"(1) one(2,3) set_update_subset_insert [of "m_items m" "nat idx" it']
      by (auto simp: m1_def menu_ok_def)
    have em: "emits (on_lines w m (line # lines) l) l l1"
      using one(5) by (rule emits_mono) (use draw(1) in \<open>auto simp: on_lines_def idx_def\<close>)
    show ?thesis
    proof (cases "e = None")
      case False
      then have "draw_lines ticks (line # lines) ovf m l = Some (False, ovf \<or> \<not> blurb_fits it, m1, l1)"
        using draw pos one(1) by (auto simp: Let_def idx_def [symmetric] it_def [symmetric] m1_def)
      then show ?thesis
        using m1 em one(4) by auto
    next
      case True
      then have step: "draw_lines ticks (line # lines) ovf m l =
          draw_lines ticks lines (ovf \<or> \<not> blurb_fits it) m1 l1"
        using draw pos one(1) by (auto simp: Let_def idx_def [symmetric] it_def [symmetric] m1_def)
      have "\<exists>b ovf' m' l'. draw_lines ticks lines (ovf \<or> \<not> blurb_fits it) m1 l1 = Some (b, ovf', m', l') \<and>
          menu_ok w m' \<and> m_v m' = m_v m1 \<and> length (m_items m') = length (m_items m1) \<and>
          m_keyPolling m' = m_keyPolling m1 \<and> m_startCol m' = m_startCol m1 \<and>
          only_dev l1 l' \<and> emits (on_lines w m1 lines l1) l1 l'"
        using draw pos one(1) True m1(1) only_dev_lcd_ok [OF one(4) "2.prems"(2)]
        by (intro "2.IH"(3) [OF idx_def _ _ it_def refl]) (auto simp: m1_def)
      then obtain b' ovf' m' l' where rest:
        "draw_lines ticks lines (ovf \<or> \<not> blurb_fits it) m1 l1 = Some (b', ovf', m', l')"
        "menu_ok w m'" "m_v m' = m_v m" "length (m_items m') = length (m_items m)"
        "m_keyPolling m' = m_keyPolling m" "m_startCol m' = m_startCol m" "only_dev l1 l'"
        "emits (on_lines w m1 lines l1) l1 l'"
        using m1 by auto
      have "on_lines w m1 lines l1 = on_lines w m lines l"
        using m1 one(4) by (simp add: fun_eq_iff on_lines_def in_region_only_dev)
      then have "emits (on_lines w m (line # lines) l) l1 l'"
        using rest(8) by (auto simp: on_lines_def elim!: emits_mono)
      then show ?thesis
        using rest step emits_trans [OF em] only_dev_trans [OF one(4)] by auto
    qed
  qed
qed

lemma reset_offscreen_ok: "menu_ok w m \<Longrightarrow> menu_ok w (reset_offscreen m)"
  using any.move_valid by (auto simp: menu_ok_def reset_offscreen_def set_conv_nth)

lemma reset_offscreen_fields [simp]:
  "m_v (reset_offscreen m) = m_v m" "m_keyPolling (reset_offscreen m) = m_keyPolling m"
  "length (m_items (reset_offscreen m)) = length (m_items m)"
  by (simp_all add: reset_offscreen_def)

definition same_view :: "view \<Rightarrow> view \<Rightarrow> bool" where
  "same_view v v' \<longleftrightarrow> vw_first v' = vw_first v \<and> vw_selected v' = vw_selected v \<and>
     vw_choice v' = vw_choice v \<and> vw_max v' = vw_max v \<and> vw_height v' = vw_height v"

lemma same_view_ok: "same_view v v' \<Longrightarrow> view_ok v' = view_ok v"
  by (simp add: same_view_def view_ok_def)

lemma menu_ok_view: "menu_ok w m \<Longrightarrow> view_ok v \<Longrightarrow> menu_ok w (m\<lparr>m_v := v\<rparr>)"
  by (simp add: menu_ok_def)

definition cursor_pkt :: "view \<Rightarrow> pktNoCrc" where
  "cursor_pkt v = out_pkt Cmd_SetCursorPos [0, word_of_int (vw_selected v - vw_first v)]"

text \<open>What one draw may send: its items on the display lines they belong to, and the cursor.\<close>

definition menu_pkt :: "u8 \<Rightarrow> menu \<Rightarrow> Lcd \<Rightarrow> pktNoCrc \<Rightarrow> bool" where
  "menu_pkt w m l q \<longleftrightarrow> q = cursor_pkt (m_v m) \<or> on_lines w m [0..<Suc (unat (Row (l_dims l)))] l q"

lemma menu_draw_ok:
  assumes "menu_ok w m" and "lcd_ok l"
  shows "\<exists>m' l'. menu_draw ticks m l = Some (m', l') \<and> menu_ok w m' \<and> same_view (m_v m) (m_v m') \<and>
    length (m_items m') = length (m_items m) \<and> m_keyPolling m' = m_keyPolling m \<and>
    only_dev l l' \<and> emits (menu_pkt w m l) l l'"
proof (cases "\<not> vw_redrawLines (m_v m) \<and> \<not> vw_overflow (m_v m) \<and> \<not> vw_redrawCursor (m_v m)")
  case True
  then show ?thesis
    using assms(1) by (simp add: menu_draw_def same_view_def)
next
  case False
  from draw_lines_ok [OF assms, of ticks "[0..<Suc (unat (Row (l_dims l)))]" False]
  obtain b ovf m1 l1 where
    one: "draw_lines ticks [0..<Suc (unat (Row (l_dims l)))] False m l = Some (b, ovf, m1, l1)"
      "menu_ok w m1" "m_v m1 = m_v m" "length (m_items m1) = length (m_items m)"
      "m_keyPolling m1 = m_keyPolling m" "only_dev l l1"
      "emits (on_lines w m [0..<Suc (unat (Row (l_dims l)))] l) l l1"
    by blast
  have em: "emits (menu_pkt w m l) l l1"
    using one(7) by (rule emits_mono) (simp add: menu_pkt_def)
  show ?thesis
  proof (cases b)
    case False
    have "menu_ok w (m1\<lparr>m_v := (m_v m1)\<lparr>vw_redrawLines := True, vw_redrawCursor := True\<rparr>\<rparr>)"
      using one(2) by (intro menu_ok_view) (simp_all add: menu_ok_def view_ok_def)
    then show ?thesis
      using one em False \<open>\<not> (_ \<and> _ \<and> _)\<close> by (auto simp: menu_draw_def same_view_def simp del: upt_Suc)
  next
    case True
    define m2 where "m2 = m1\<lparr>m_v := (m_v m1)\<lparr>vw_overflow := ovf\<rparr>\<rparr>"
    define d where "d = [0, word_of_int (vw_selected (m_v m2) - vw_first (m_v m2)) :: u8]"
    define l2 where "l2 = (if vw_redrawCursor (m_v m2) then snd (sendCmd Cmd_SetCursorPos d l1) else l1)"
    have m2: "menu_ok w m2" "same_view (m_v m) (m_v m2)" "length (m_items m2) = length (m_items m)"
      "m_keyPolling m2 = m_keyPolling m"
      using one by (simp_all add: m2_def menu_ok_def view_ok_def same_view_def)
    have "out_pkt Cmd_SetCursorPos d = cursor_pkt (m_v m)"
      using m2(2) by (simp add: cursor_pkt_def d_def same_view_def)
    then have "emits (menu_pkt w m l) l1 l2"
      by (auto simp: l2_def menu_pkt_def intro: emits_mono [OF sendCmd_emits])
    moreover have "only_dev l1 l2"
      by (simp add: l2_def)
    moreover have "menu_draw ticks m l = Some (reset_offscreen m2, l2)"
      using one(1) True False by (auto simp: menu_draw_def Let_def m2_def l2_def d_def simp del: upt_Suc)
    ultimately show ?thesis
      using m2 one(6) reset_offscreen_ok [OF m2(1)] emits_trans [OF em] only_dev_trans [OF one(6)]
      by auto
  qed
qed

lemma menu_Run_ok:
  assumes "menu_ok w m" and "lcd_ok l"
  shows "\<exists>l'. menu_Run inputs m l =
      Some (if vw_choice (m_v m) \<noteq> CHOICE_NONE then vw_choice (m_v m)
            else menu_spec (vw_max (m_v m)) (vw_selected (m_v m)) (map (menu_key_of \<circ> fst) inputs), l') \<and>
    lcd_ok l' \<and> l_dims l' = l_dims l"
  using assms
proof (induction inputs arbitrary: m l)
  case Nil
  then show ?case by (simp add: menu_Run.simps)
next
  case (Cons i rest)
  obtain evt ticks where i: "i = (evt, ticks)" by (cases i)
  show ?case
  proof (cases "vw_choice (m_v m) = CHOICE_NONE")
    case False
    then show ?thesis
      using Cons.prems by (simp add: menu_Run.simps)
  next
    case True
    from menu_draw_ok [OF Cons.prems, of ticks] obtain m1 l1 where
      one: "menu_draw ticks m l = Some (m1, l1)" "menu_ok w m1" "same_view (m_v m) (m_v m1)" "only_dev l l1"
      by blast
    define l2 where "l2 = (if m_keyPolling m1 then snd (pollKeys l1) else l1)"
    obtain v' l3 where upd: "view_update evt (m_v m1) l2 = (v', l3)" by (cases "view_update evt (m_v m1) l2")
    have dev: "only_dev l l2"
      using one(4) only_dev_trans by (auto simp: l2_def)
    have l3: "lcd_ok l3" "l_dims l3 = l_dims l"
      using view_update_lcd_ok [of l2 evt "m_v m1"] view_update_dims [of l2 evt "m_v m1"] upd
        dev Cons.prems(2) by (simp_all add: only_dev_fields)
    have vok: "view_ok (m_v m1)" "vw_choice (m_v m1) = CHOICE_NONE"
      using one(2,3) True by (simp_all add: menu_ok_def same_view_def)
    have "menu_ok w (m1\<lparr>m_v := v'\<rparr>)"
      using one(2) view_update_ok [OF vok(1), of evt l2] upd by (intro menu_ok_view) simp_all
    from Cons.IH [OF this l3(1)] l3(2) view_update_spec(1,2) [OF vok, of evt l2]
      view_update_spec(3) [OF vok, where k = evt and l = l2 and ks = "map (menu_key_of \<circ> fst) rest"]
    show ?thesis
      using one(1,3) True upd by (auto simp: menu_Run.simps [of "_ # _"] i l2_def [symmetric] same_view_def Let_def)
  qed
qed

lemma createMenu_ok:
  "menu_ok (Width l) (createMenu l items kp)"
  by (auto simp: menu_ok_def createMenu_def view_ok_def)

lemma menu_spec_range:
  "0 \<le> s \<Longrightarrow> s \<le> max 0 mx \<Longrightarrow>
     menu_spec mx s ks \<in> {CHOICE_NONE, CHOICE_CANCEL} \<union> {0..max 0 mx}"
  by (induction mx s ks rule: menu_spec.induct) (auto split: if_splits)

lemma menuWithTicks_ok:
  assumes "lcd_ok l"
  shows "\<exists>l'. menuWithTicks items keyPolling inputs l =
    Some (menu_spec (int (length items) - 1) 0 (map (menu_key_of \<circ> fst) inputs), l') \<and> lcd_ok l'"
proof -
  define l3 where "l3 = setLegend Legend_VDX True
    (setupKeyReporting False (\<not> keyPolling) (setCursorStyle 1 l))"
  have "lcd_ok l3"
    unfolding l3_def using assms
    by (intro setLegend_ok only_dev_lcd_ok [OF setupKeyReporting_only_dev] only_dev_lcd_ok [OF setCursorStyle_only_dev])
  from menu_Run_ok [OF createMenu_ok [of l3 items keyPolling] this, of inputs] obtain l4 where
    run: "menu_Run inputs (createMenu l3 items keyPolling) l3 =
      Some (menu_spec (int (length items) - 1) 0 (map (menu_key_of \<circ> fst) inputs), l4)" "lcd_ok l4"
    by (auto simp: createMenu_def)
  have "only_dev (setLegend LegendNone True l4) (hideCursor (setLegend LegendNone True l4))"
    by (simp add: hideCursor_def)
  then have "lcd_ok (snd (lcd_clear (hideCursor (setLegend LegendNone True l4))))"
    using only_dev_lcd_ok setLegend_ok(1) [OF run(2)] by (simp add: lcd_clear_def)
  then show ?thesis
    using run(1) by (simp add: menuWithTicks_def l3_def [symmetric] Let_def)
qed

section \<open>Properties\<close>

text \<open>C20: what a key does to a consistent view, in which the selected item is on screen.  Up and down move the selection by one within the items, enter and
  cancel only set the choice, other keys do nothing.  The selected item (0 in an empty menu) stays on
  screen, which scrolls by one item at most.  The lines are marked for redrawing exactly if other items have
  come on screen, the cursor exactly if the selected item's display line has changed.\<close>

theorem view_update_consistent:
  assumes "view_ok v" and "view_update k v l = (v', l')"
  shows "view_ok v' \<and> vw_max v' = vw_max v \<and> vw_height v' = vw_height v \<and>
    vw_selected v' = (case menu_key_of k of Up \<Rightarrow> max 0 (vw_selected v - 1)
        | Down \<Rightarrow> (if vw_selected v < vw_max v then vw_selected v + 1 else vw_selected v) | _ \<Rightarrow> vw_selected v) \<and>
    vw_choice v' = (case menu_key_of k of Enter \<Rightarrow> vw_selected v | Cancel \<Rightarrow> CHOICE_CANCEL | _ \<Rightarrow> vw_choice v) \<and>
    \<bar>vw_first v' - vw_first v\<bar> \<le> 1 \<and>
    (vw_redrawLines v' \<longleftrightarrow> vw_first v' \<noteq> vw_first v) \<and>
    (vw_redrawCursor v' \<longleftrightarrow> vw_selected v' - vw_first v' \<noteq> vw_selected v - vw_first v) \<and>
    \<not> offscreen v' (vw_selected v')"
proof (intro conjI)
  have v': "v' = fst (view_update k v l)" using assms(2) by simp
  show "view_ok v'" unfolding v' using assms(1) by (rule view_update_ok)
  then show "\<not> offscreen v' (vw_selected v')"
    by (auto simp: view_ok_def offscreen_def)
  show "vw_max v' = vw_max v" "vw_height v' = vw_height v"
    "vw_selected v' = (case menu_key_of k of Up \<Rightarrow> max 0 (vw_selected v - 1)
        | Down \<Rightarrow> (if vw_selected v < vw_max v then vw_selected v + 1 else vw_selected v) | _ \<Rightarrow> vw_selected v)"
    "vw_choice v' = (case menu_key_of k of Enter \<Rightarrow> vw_selected v | Cancel \<Rightarrow> CHOICE_CANCEL | _ \<Rightarrow> vw_choice v)"
    unfolding v' view_update_key using assms(1)
    by (cases "menu_key_of k"; simp add: view_up_spec view_down_spec)+
  show "\<bar>vw_first v' - vw_first v\<bar> \<le> 1"
    unfolding v' view_update_key by (cases "menu_key_of k"; simp add: view_up_def view_down_def Let_def)
  have "\<not> vw_redrawLines (calm v)" "\<not> vw_redrawCursor (calm v)"
    by (simp_all add: calm_def)
  note flags = view_redraws [OF this, of l] this
  show "vw_redrawLines v' \<longleftrightarrow> vw_first v' \<noteq> vw_first v"
    "vw_redrawCursor v' \<longleftrightarrow> vw_selected v' - vw_first v' \<noteq> vw_selected v - vw_first v"
    unfolding v' view_update_key using flags by (cases "menu_key_of k"; simp)+
qed

lemma view_update_consistent_witness:
  defines "v \<equiv> m_v (createMenu (test_lcd Cfa631 silent) [[0x41], [0x42]] False)"
  shows "view_ok (fst (view_update KEY_LL_RELEASE v (test_lcd Cfa631 silent)))"
proof -
  have "view_ok v"
    using createMenu_ok [of "test_lcd Cfa631 silent" "[[0x41], [0x42]]" False] by (simp add: v_def menu_ok_def)
  from view_update_consistent [OF this surjective_pairing] show ?thesis by simp
qed

text \<open>C21: a menu answers exactly as its keys say.  Whatever the items are, however they scroll and
  whatever the link does, the menu comes back with the choice that the keys alone determine: up and
  down move within the items without wrapping, enter chooses the selected item, exit cancels, and
  running out of time is \<open>CHOICE_NONE\<close>.\<close>

theorem menuWithTicks_follows_keys:
  assumes "lcd_ok l"
  shows "\<exists>l'. menuWithTicks items keyPolling inputs l =
    Some (menu_spec (int (length items) - 1) 0 (map (menu_key_of \<circ> fst) inputs), l') \<and> lcd_ok l'"
  using assms by (rule menuWithTicks_ok)

lemma menuWithTicks_follows_keys_witness:
  "\<exists>l'. menuWithTicks [[0x41], [0x42], [0x43]] False
     [(KEY_DOWN_RELEASE, \<lambda>_. True), (KEY_DOWN_RELEASE, \<lambda>_. True), (KEY_ENTER_RELEASE, \<lambda>_. True)]
     (test_lcd Cfa635 silent) = Some (2, l')"
  using menuWithTicks_follows_keys [OF test_lcd_ok [of Cfa635 silent], of "[[0x41], [0x42], [0x43]]" False
      "[(KEY_DOWN_RELEASE, \<lambda>_. True), (KEY_DOWN_RELEASE, \<lambda>_. True), (KEY_ENTER_RELEASE, \<lambda>_. True)]"]
  by (auto simp: menu_key_of_def key_defs)

text \<open>Drawing a menu puts every item on the display line it belongs to.  One draw always
  returns, leaves the selection alone, and sends nothing but items on existing display lines, from
  the menu's first column and within the width the items were made for, and the cursor's line.\<close>

theorem menu_draw_in_place:
  assumes "menu_ok w m" and "lcd_ok l"
  shows "\<exists>m' l'. menu_draw ticks m l = Some (m', l') \<and> menu_ok w m' \<and> only_dev l l' \<and>
    vw_selected (m_v m') = vw_selected (m_v m) \<and> vw_first (m_v m') = vw_first (m_v m) \<and>
    emits (\<lambda>q. q = out_pkt Cmd_SetCursorPos [0, word_of_int (vw_selected (m_v m) - vw_first (m_v m))] \<or>
      (\<exists>line \<le> unat (Row (l_dims l)). vw_first (m_v m) + int line < int (length (m_items m)) \<and>
         in_region \<lparr>Col = m_startCol m, Row = to_byte line\<rparr> \<lparr>Col = w, Row = 0\<rparr> l q)) l l'"
proof -
  have "emits (\<lambda>q. q = out_pkt Cmd_SetCursorPos [0, word_of_int (vw_selected (m_v m) - vw_first (m_v m))] \<or>
      (\<exists>line \<le> unat (Row (l_dims l)). vw_first (m_v m) + int line < int (length (m_items m)) \<and>
         in_region \<lparr>Col = m_startCol m, Row = to_byte line\<rparr> \<lparr>Col = w, Row = 0\<rparr> l q)) l l'"
    if "emits (menu_pkt w m l) l l'" for l'
    using that by (rule emits_mono)
      (auto simp: menu_pkt_def cursor_pkt_def on_lines_def less_Suc_eq_le simp del: upt_Suc)
  then show ?thesis
    using menu_draw_ok [OF assms, of ticks] by (auto simp: same_view_def)
qed

lemma menu_draw_in_place_witness:
  defines "l \<equiv> test_lcd Cfa631 silent"
  shows "\<exists>m' l'. menu_draw (\<lambda>_. True) (createMenu l [[0x41], [0x42]] False) l = Some (m', l') \<and>
    vw_selected (m_v m') = 0"
proof -
  have "lcd_ok l" by (simp add: l_def)
  from menu_draw_in_place [OF createMenu_ok [of l "[[0x41], [0x42]]" False] this, of "\<lambda>_. True"]
  show ?thesis by (auto simp: createMenu_def)
qed

text \<open>The choice of a menu that has items is one of them, or one of the two negative values.  A menu
  without items is the exception: enter chooses item 0, which does not exist.\<close>

lemma menu_choice_in_range:
  "items \<noteq> [] \<Longrightarrow> menu_spec (int (length items) - 1) 0 ks \<in> {CHOICE_NONE, CHOICE_CANCEL} \<union> {0..<int (length items)}"
  using menu_spec_range [of 0 "int (length items) - 1" ks] by (cases items) auto

lemma empty_menu_chooses_item_0:
  assumes "lcd_ok l"
  shows "\<exists>l'. menuWithTicks [] keyPolling [(KEY_ENTER_RELEASE, ticks)] l = Some (0, l')"
  using menuWithTicks_ok [OF assms, of "[]" keyPolling "[(KEY_ENTER_RELEASE, ticks)]"]
  by (auto simp: menu_key_of_def key_defs)

end
