(* ===== verification/CfaQuestion.thy ===== *)
theory CfaQuestion
  imports CfaMenu
begin

text \<open>
  Questions with buttons (\<open>pkg/hw/cfa/question.go\<close>), menus with confirmation, and the progress
  spinner (\<open>spinner.go\<close>).  As for menus, the keys that \<open>waitForEvent\<close> returned are inputs and the
  \<open>done\<close> channel closes when they run out.
\<close>

section \<open>Buttons\<close>

record styleSet =
  sty_selected :: "u8 \<times> u8"
  sty_deselected :: "u8 \<times> u8"

definition wrapNone :: "u8 \<times> u8" where "wrapNone = (0x20, 0x20)"
definition wrapArrows :: "u8 \<times> u8" where "wrapArrows = (0x10, 0x11)"

definition rb_render :: "bytes \<Rightarrow> bool \<Rightarrow> styleSet \<Rightarrow> bytes" where
  "rb_render t selected st =
     (let style = (if selected then sty_selected st else sty_deselected st)
      in [fst style] @ t @ [snd style])"

record radioButtonSet =
  rbs_btns :: "bytes list"
  rbs_styles :: styleSet
  rbs_selection :: int
  rbs_prev :: int

fun render_from :: "nat \<Rightarrow> bytes list \<Rightarrow> radioButtonSet \<Rightarrow> bytes" where
  "render_from i [] rbs = []"
| "render_from i (b # bs) rbs =
     rb_render b (rbs_selection rbs = int i) (rbs_styles rbs) @ render_from (Suc i) bs rbs"

definition rbs_render :: "radioButtonSet \<Rightarrow> bytes" where
  "rbs_render rbs = render_from 0 (rbs_btns rbs) rbs"

fun rbsMinWidth :: "bytes list \<Rightarrow> u8" where
  "rbsMinWidth [] = 0"
| "rbsMinWidth (opt # opts) = (to_byte (length opt) + 2) + rbsMinWidth opts"

section \<open>Questions\<close>

record Question =
  q_txt :: bytes
  q_buttons :: radioButtonSet
  q_choice :: int

definition createButtonSet :: "Lcd \<Rightarrow> bytes list \<Rightarrow> cfa_error + radioButtonSet" where
  "createButtonSet l opts =
     (if Width l < rbsMinWidth opts then Inl ERange
      else Inr \<lparr>rbs_btns = opts, rbs_styles = \<lparr>sty_selected = wrapArrows, sty_deselected = wrapNone\<rparr>,
                rbs_selection = 0, rbs_prev = -1\<rparr>)"

definition NewQuestion :: "Lcd \<Rightarrow> bytes \<Rightarrow> bytes list \<Rightarrow> cfa_error + Question" where
  "NewQuestion l t opts =
     (case createButtonSet l opts of
        Inl e \<Rightarrow> Inl e
      | Inr b \<Rightarrow> Inr \<lparr>q_txt = t, q_buttons = b, q_choice = 0\<rparr>)"

definition q_select :: "int \<Rightarrow> Question \<Rightarrow> Question" where
  "q_select s q = q\<lparr>q_buttons := (q_buttons q)\<lparr>rbs_selection := s\<rparr>\<rparr>"

definition q_handleEvent :: "u8 \<Rightarrow> Question \<Rightarrow> Lcd \<Rightarrow> Question \<times> Lcd" where
  "q_handleEvent k q l =
     (let mx = int (length (rbs_btns (q_buttons q))) - 1;
          sel = rbs_selection (q_buttons q)
      in if k = KEY_LL_RELEASE \<or> k = KEY_RIGHT_RELEASE then
           (if sel \<ge> mx then (q_select 0 q, setLegend Legend_VRX False l)
            else (q_select (sel + 1) q,
                  setLegend (if sel + 1 = mx then LegendLV_X else LegendLVRX) False l))
         else if k = KEY_UL_RELEASE \<or> k = KEY_LEFT_RELEASE then
           (if sel \<le> 0 then (q_select mx q, setLegend LegendLV_X False l)
            else (q_select (sel - 1) q,
                  setLegend (if sel - 1 = 0 then Legend_VRX else LegendLVRX) False l))
         else if k = KEY_UR_RELEASE \<or> k = KEY_ENTER_RELEASE then (q\<lparr>q_choice := sel\<rparr>, l)
         else if k = KEY_LR_RELEASE \<or> k = KEY_EXIT_RELEASE then (q\<lparr>q_choice := CHOICE_CANCEL\<rparr>, l)
         else (q, l))"

text \<open>Redraw the buttons when the selection moved; a write error is only logged.\<close>

definition q_redraw :: "Question \<Rightarrow> Lcd \<Rightarrow> Question \<times> Lcd" where
  "q_redraw q l =
     (if rbs_prev (q_buttons q) \<noteq> rbs_selection (q_buttons q) then
        (let q' = q\<lparr>q_buttons := (q_buttons q)\<lparr>rbs_prev := rbs_selection (q_buttons q)\<rparr>\<rparr>
         in (q', snd (lcd_write \<lparr>Col = 0, Row = Row (l_dims l)\<rparr> (rbs_render (q_buttons q')) True l)))
      else (q, l))"

fun ask_loop :: "u8 list \<Rightarrow> blurb \<Rightarrow> Question \<Rightarrow> Lcd \<Rightarrow> (int \<times> Lcd) option" where
  "ask_loop inputs b q l =
     (if q_choice q \<noteq> CHOICE_NONE then Some (q_choice q, l)
      else case inputs of
        [] \<Rightarrow> Some (CHOICE_NONE, l)
      | evt # rest \<Rightarrow>
          (case blurb_draw False True b l of
             None \<Rightarrow> None
           | Some (_, b1, l1) \<Rightarrow>
               (case q_redraw q l1 of
                  (q1, l2) \<Rightarrow>
                    (case (if evt \<noteq> KEY_NO_KEY then q_handleEvent evt q1 l2 else (q1, l2)) of
                       (q2, l3) \<Rightarrow> ask_loop rest b1 q2 l3))))"

declare ask_loop.simps [simp del]

definition q_ask :: "u8 list \<Rightarrow> Question \<Rightarrow> Lcd \<Rightarrow> (int \<times> Lcd) option" where
  "q_ask inputs q l =
     (let l1 = setupKeyReporting False True (setLegend Legend_VRX True (snd (lcd_clear l)));
          area = l_dims l1;
          b = NewBlurb l1 (q_txt q) \<lparr>Col = 0, Row = 0\<rparr> \<lparr>Col = Width l1, Row = Row area - 1\<rparr>;
          l2 = snd (lcd_write \<lparr>Col = 0, Row = Row area\<rparr> (rbs_render (q_buttons q)) True l1)
      in case ask_loop inputs b (q\<lparr>q_choice := CHOICE_NONE\<rparr>) l2 of
           None \<Rightarrow> None
         | Some (c, l3) \<Rightarrow> Some (c, setLegend LegendNone True l3))"

section \<open>Yes or no, and confirmed menus\<close>

datatype Answer = ANSWER_NA | ANSWER_NO | ANSWER_YES

definition YesNo :: "bytes \<Rightarrow> u8 list \<Rightarrow> Lcd \<Rightarrow> (Answer \<times> Lcd) option" where
  "YesNo t inputs l =
     (case NewQuestion l t [ascii ''No'', ascii ''Yes''] of
        Inl _ \<Rightarrow> Some (ANSWER_NA, l)
      | Inr q \<Rightarrow>
          (case q_ask inputs q l of
             None \<Rightarrow> None
           | Some (c, l') \<Rightarrow>
               Some (if c = 0 then ANSWER_NO else if c = 1 then ANSWER_YES else ANSWER_NA, l')))"

definition ConfirmChoice :: "bytes \<Rightarrow> bytes list \<Rightarrow> int \<Rightarrow> u8 list \<Rightarrow> Lcd \<Rightarrow> (Answer \<times> Lcd) option" where
  "ConfirmChoice desc items choice inputs l =
     (if choice \<ge> int (length items) \<or> choice < -2 then Some (ANSWER_NA, l)
      else let item = (if choice = CHOICE_NONE then ascii ''(timeout - go back)''
                       else if choice = CHOICE_CANCEL then ascii ''to cancel (go back)''
                       else items ! nat choice)
           in YesNo (ascii ''From '' @ desc @ ascii '', you chose '' @ item @ ascii ''. Are you certain?'')
                inputs l)"

definition maxTimeouts :: nat where "maxTimeouts = 2"

text \<open>Each round has its menu's inputs and its question's keys; \<open>None\<close> when the given rounds are
  not enough for the loop to end.\<close>

fun MenuWithConfirm_loop :: "bytes \<Rightarrow> bytes list \<Rightarrow> bool \<Rightarrow>
    ((u8 \<times> (nat \<Rightarrow> bool)) list \<times> u8 list) list \<Rightarrow> nat \<Rightarrow> Lcd \<Rightarrow> ((int \<times> Answer) \<times> Lcd) option" where
  "MenuWithConfirm_loop desc items kp [] n l = None"
| "MenuWithConfirm_loop desc items kp ((menu_in, ask_in) # rounds) n l =
     (case menuWithTicks items kp menu_in l of
        None \<Rightarrow> None
      | Some (choice, l1) \<Rightarrow>
          (case ConfirmChoice desc items choice ask_in l1 of
             None \<Rightarrow> None
           | Some (confirm, l2) \<Rightarrow>
               (let n' = (if choice = CHOICE_NONE \<and> confirm = ANSWER_NA then n + 1 else n)
                in if n' \<ge> maxTimeouts \<or> confirm = ANSWER_YES then Some ((choice, confirm), l2)
                   else MenuWithConfirm_loop desc items kp rounds n' l2)))"

definition MenuWithConfirm where
  "MenuWithConfirm desc items kp rounds l = MenuWithConfirm_loop desc items kp rounds 0 l"

section \<open>The spinner\<close>

record Spinner =
  sp_Msg :: bytes
  sp_seq :: nat
  sp_loc :: Coord
  sp_max :: Coord
  sp_last :: int

definition spinnerSprites :: bytes where
  "spinnerSprites = [0xfe, of_char CHR ''/'', of_char CHR ''-'', of_char CHR ''+'', of_char CHR ''*'', 0x24, 0xfb]"

definition sp_Display :: "Spinner \<Rightarrow> Lcd \<Rightarrow> (cfa_error option \<times> Spinner \<times> Lcd) option" where
  "sp_Display s l =
     (case Msg (sp_Msg s) l of
        None \<Rightarrow> None
      | Some (Inl e, l') \<Rightarrow> Some (Some e, s\<lparr>sp_max := l_dims l, sp_loc := \<lparr>Col = 0, Row = 0\<rparr>\<rparr>, l')
      | Some (Inr c, l') \<Rightarrow>
          (let mx = l_dims l;
               c1 = c\<lparr>Col := Col c + 2\<rparr>;
               c2 = (if Col c1 > Col mx then
                       (if Row c1 < Row mx then \<lparr>Col = 0, Row = Row c1 + 1\<rparr> else c1\<lparr>Col := Col mx\<rparr>)
                     else c1)
           in Some (None, s\<lparr>sp_max := mx, sp_loc := c2\<rparr>, l')))"

text \<open>Times are in nanoseconds; \<open>now\<close> is the clock.\<close>

definition sp_Next :: "int \<Rightarrow> Spinner \<Rightarrow> Lcd \<Rightarrow> Spinner \<times> Lcd" where
  "sp_Next now s l =
     (if sp_last s + 1000000000 > now then (s, l)
      else let i = (if sp_seq s \<ge> length spinnerSprites then 0 else sp_seq s)
           in (s\<lparr>sp_seq := i + 1, sp_last := now\<rparr>,
               snd (lcd_write (sp_loc s) [spinnerSprites ! i] False l)))"

section \<open>The reference\<close>

datatype q_key = QNext | QPrev | QEnter | QCancel | QOther

definition q_key_of :: "u8 \<Rightarrow> q_key" where
  "q_key_of k =
     (if k \<in> {KEY_LL_RELEASE, KEY_RIGHT_RELEASE} then QNext
      else if k \<in> {KEY_UL_RELEASE, KEY_LEFT_RELEASE} then QPrev
      else if k \<in> {KEY_UR_RELEASE, KEY_ENTER_RELEASE} then QEnter
      else if k \<in> {KEY_LR_RELEASE, KEY_EXIT_RELEASE} then QCancel else QOther)"

text \<open>What a question with \<open>n\<close> buttons answers when button \<open>s\<close> is selected.\<close>

fun question_spec :: "int \<Rightarrow> int \<Rightarrow> q_key list \<Rightarrow> int" where
  "question_spec n s [] = CHOICE_NONE"
| "question_spec n s (QNext # ks) = question_spec n ((s + 1) mod n) ks"
| "question_spec n s (QPrev # ks) = question_spec n ((s - 1) mod n) ks"
| "question_spec n s (QEnter # ks) = s"
| "question_spec n s (QCancel # ks) = CHOICE_CANCEL"
| "question_spec n s (QOther # ks) = question_spec n s ks"

definition answer_of :: "int \<Rightarrow> Answer" where
  "answer_of c = (if c = 0 then ANSWER_NO else if c = 1 then ANSWER_YES else ANSWER_NA)"

fun confirm_spec :: "int \<Rightarrow> (menu_key list \<times> q_key list) list \<Rightarrow> nat \<Rightarrow> (int \<times> Answer) option" where
  "confirm_spec n [] k = None"
| "confirm_spec n ((mks, qks) # rounds) k =
     (let c = menu_spec (n - 1) 0 mks;
          a = (if c \<ge> n then ANSWER_NA else answer_of (question_spec 2 0 qks));
          k' = (if c = CHOICE_NONE \<and> a = ANSWER_NA then k + 1 else k)
      in if k' \<ge> 2 \<or> a = ANSWER_YES then Some (c, a) else confirm_spec n rounds k')"

definition round_keys :: "(u8 \<times> (nat \<Rightarrow> bool)) list \<times> u8 list \<Rightarrow> menu_key list \<times> q_key list" where
  "round_keys r = (map (menu_key_of \<circ> fst) (fst r), map q_key_of (snd r))"

section \<open>Questions follow their keys\<close>

definition q_ok :: "Question \<Rightarrow> bool" where
  "q_ok q \<longleftrightarrow> 0 \<le> rbs_selection (q_buttons q) \<and> rbs_selection (q_buttons q) < int (length (rbs_btns (q_buttons q)))"

lemma q_select_fields [simp]:
  "rbs_selection (q_buttons (q_select s q)) = s" "rbs_btns (q_buttons (q_select s q)) = rbs_btns (q_buttons q)"
  "q_choice (q_select s q) = q_choice q"
  by (simp_all add: q_select_def)

lemma mod_step:
  "0 \<le> s \<Longrightarrow> s < n \<Longrightarrow> (s + 1) mod n = (if s \<ge> n - 1 then 0 else s + 1 :: int)"
  "0 \<le> s \<Longrightarrow> s < n \<Longrightarrow> (s - 1) mod n = (if s \<le> 0 then n - 1 else s - 1 :: int)"
proof -
  assume s: "0 \<le> s" "s < n"
  then have "s = n - 1 \<or> s + 1 < n" by linarith
  with s show "(s + 1) mod n = (if s \<ge> n - 1 then 0 else s + 1)"
    by (auto simp: mod_pos_pos_trivial)
next
  assume s: "0 \<le> s" "s < n"
  then have "s = 0 \<or> 0 < s" by linarith
  with s show "(s - 1) mod n = (if s \<le> 0 then n - 1 else s - 1)"
    by (auto simp: mod_pos_pos_trivial zmod_minus1)
qed

lemma q_handleEvent_key:
  "q_handleEvent k q l =
     (let mx = int (length (rbs_btns (q_buttons q))) - 1; sel = rbs_selection (q_buttons q)
      in case q_key_of k of
        QNext \<Rightarrow> (if sel \<ge> mx then (q_select 0 q, setLegend Legend_VRX False l)
            else (q_select (sel + 1) q,
                  setLegend (if sel + 1 = mx then LegendLV_X else LegendLVRX) False l))
      | QPrev \<Rightarrow> (if sel \<le> 0 then (q_select mx q, setLegend LegendLV_X False l)
            else (q_select (sel - 1) q,
                  setLegend (if sel - 1 = 0 then Legend_VRX else LegendLVRX) False l))
      | QEnter \<Rightarrow> (q\<lparr>q_choice := sel\<rparr>, l)
      | QCancel \<Rightarrow> (q\<lparr>q_choice := CHOICE_CANCEL\<rparr>, l) | QOther \<Rightarrow> (q, l))"
  by (simp add: q_handleEvent_def q_key_of_def Let_def)

lemma q_handleEvent_spec:
  assumes "q_ok q" and "q_choice q = CHOICE_NONE" and "q_handleEvent k q l = (q', l')"
  shows "rbs_btns (q_buttons q') = rbs_btns (q_buttons q)" "q_ok q'"
    "question_spec (int (length (rbs_btns (q_buttons q)))) (rbs_selection (q_buttons q)) (q_key_of k # ks) =
       (if q_choice q' = CHOICE_NONE
        then question_spec (int (length (rbs_btns (q_buttons q)))) (rbs_selection (q_buttons q')) ks
        else q_choice q')"
proof -
  define n where "n = int (length (rbs_btns (q_buttons q)))"
  define s where "s = rbs_selection (q_buttons q)"
  have s: "0 \<le> s" "s < n" using assms(1) by (simp_all add: q_ok_def n_def s_def)
  have q': "q' = fst (q_handleEvent k q l)" using assms(3) by simp
  show "rbs_btns (q_buttons q') = rbs_btns (q_buttons q)"
    unfolding q' q_handleEvent_key by (simp add: Let_def split: q_key.splits)
  show "q_ok q'"
    unfolding q' q_handleEvent_key using assms(1)
    by (auto simp: Let_def q_ok_def split: q_key.splits)
  show "question_spec (int (length (rbs_btns (q_buttons q)))) (rbs_selection (q_buttons q)) (q_key_of k # ks) =
       (if q_choice q' = CHOICE_NONE
        then question_spec (int (length (rbs_btns (q_buttons q)))) (rbs_selection (q_buttons q')) ks
        else q_choice q')"
    unfolding q' q_handleEvent_key n_def [symmetric] s_def [symmetric]
    using assms(2) mod_step [OF s] s
    by (cases "q_key_of k") (auto simp: Let_def CHOICE_NONE_def CHOICE_CANCEL_def s_def [symmetric])
qed

lemma q_handleEvent_lcd:
  "lcd_ok l \<Longrightarrow> lcd_ok (snd (q_handleEvent k q l)) \<and> l_dims (snd (q_handleEvent k q l)) = l_dims l"
  by (auto simp: q_handleEvent_key Let_def setLegend_ok split: q_key.splits)

lemma q_redraw_ok:
  "q_redraw q l = (q', l') \<Longrightarrow> only_dev l l' \<and> q_ok q' = q_ok q \<and> q_choice q' = q_choice q \<and>
     rbs_btns (q_buttons q') = rbs_btns (q_buttons q) \<and>
     rbs_selection (q_buttons q') = rbs_selection (q_buttons q)"
  by (auto simp: q_redraw_def q_ok_def Let_def split: if_splits)

lemma ask_loop_ok:
  assumes "blurb_ok b" and "lcd_ok l" and "q_ok q"
  shows "\<exists>l'. ask_loop inputs b q l =
      Some (if q_choice q \<noteq> CHOICE_NONE then q_choice q
            else question_spec (int (length (rbs_btns (q_buttons q)))) (rbs_selection (q_buttons q))
              (map q_key_of inputs), l') \<and> lcd_ok l' \<and> l_dims l' = l_dims l"
  using assms
proof (induction inputs arbitrary: b q l)
  case Nil
  then show ?case by (simp add: ask_loop.simps)
next
  case (Cons evt rest)
  show ?case
  proof (cases "q_choice q = CHOICE_NONE")
    case False
    with Cons.prems show ?thesis by (simp add: ask_loop.simps)
  next
    case True
    from blurb_draw_ok [OF Cons.prems(1,2), of False True] obtain r b1 l1 where
      draw: "blurb_draw False True b l = Some (r, b1, l1)" "blurb_ok b1" "only_dev l l1"
      by blast
    obtain q1 l2 where rd: "q_redraw q l1 = (q1, l2)" by (cases "q_redraw q l1")
    note q1 = q_redraw_ok [OF rd]
    obtain q2 l3 where ev: "q_handleEvent evt q1 l2 = (q2, l3)" by (cases "q_handleEvent evt q1 l2")
    have none: "q_handleEvent KEY_NO_KEY q1 l2 = (q1, l2)"
      by (simp add: q_handleEvent_def key_defs Let_def)
    have l2: "lcd_ok l2" "l_dims l2 = l_dims l"
      using q1 draw(3) Cons.prems(2) by (auto simp: only_dev_fields)
    have l3: "lcd_ok l3" "l_dims l3 = l_dims l"
      using q_handleEvent_lcd [OF l2(1), of evt q1] l2(2) by (simp_all add: ev)
    have ok1: "q_ok q1" "q_choice q1 = CHOICE_NONE"
      using q1 Cons.prems(3) True by simp_all
    note step = q_handleEvent_spec [OF ok1 ev]
    have "(if evt \<noteq> KEY_NO_KEY then q_handleEvent evt q1 l2 else (q1, l2)) = (q2, l3)"
      using ev none by auto
    then have "ask_loop (evt # rest) b q l = ask_loop rest b1 q2 l3"
      using True draw(1) rd by (simp add: ask_loop.simps [of "_ # _"] split: prod.splits)
    then show ?thesis
      using Cons.IH [OF draw(2) l3(1) step(2)] l3(2) q1 step(1) step(3) [of "map q_key_of rest"] True
      by auto
  qed
qed

lemma q_ask_ok:
  assumes "lcd_ok l" and "NewQuestion l t opts = Inr q" and "opts \<noteq> []"
  shows "\<exists>l'. q_ask inputs q l = Some (question_spec (int (length opts)) 0 (map q_key_of inputs), l') \<and> lcd_ok l'"
proof -
  define l1 where "l1 = setupKeyReporting False True (setLegend Legend_VRX True (snd (lcd_clear l)))"
  define b where "b = NewBlurb l1 (q_txt q) \<lparr>Col = 0, Row = 0\<rparr> \<lparr>Col = Width l1, Row = Row (l_dims l1) - 1\<rparr>"
  define l2 where "l2 = snd (lcd_write \<lparr>Col = 0, Row = Row (l_dims l1)\<rparr> (rbs_render (q_buttons q)) True l1)"
  have "lcd_ok (snd (lcd_clear l))"
    using assms(1) by (simp add: lcd_clear_def)
  then have "lcd_ok l1"
    unfolding l1_def by (intro only_dev_lcd_ok [OF setupKeyReporting_only_dev] setLegend_ok)
  then have l2: "lcd_ok l2"
    unfolding l2_def by (simp add: lcd_write_fields)
  have q: "q_ok (q\<lparr>q_choice := CHOICE_NONE\<rparr>)" "rbs_btns (q_buttons q) = opts" "rbs_selection (q_buttons q) = 0"
    using assms(2,3) by (auto simp: NewQuestion_def createButtonSet_def q_ok_def split: if_splits)
  have "blurb_ok b" by (simp add: b_def)
  from ask_loop_ok [OF this l2 q(1), of inputs] obtain l3 where
    "ask_loop inputs b (q\<lparr>q_choice := CHOICE_NONE\<rparr>) l2 =
       Some (question_spec (int (length opts)) 0 (map q_key_of inputs), l3)" "lcd_ok l3"
    by (auto simp: q(2,3))
  then show ?thesis
    by (simp add: q_ask_def l1_def [symmetric] b_def [symmetric] l2_def [symmetric] Let_def setLegend_ok)
qed

lemma YesNo_ok:
  assumes "lcd_ok l"
  shows "\<exists>l'. YesNo t inputs l = Some (answer_of (question_spec 2 0 (map q_key_of inputs)), l') \<and> lcd_ok l'"
proof -
  have "rbsMinWidth [ascii ''No'', ascii ''Yes''] = 9"
    by (simp add: ascii_def)
  then obtain q where q: "NewQuestion l t [ascii ''No'', ascii ''Yes''] = Inr q"
    using lcd_ok_Width(3) [OF assms] by (auto simp: NewQuestion_def createButtonSet_def u8_less_iff)
  from q_ask_ok [OF assms q, of inputs] obtain l' where
    "q_ask inputs q l = Some (question_spec 2 0 (map q_key_of inputs), l')" "lcd_ok l'"
    by auto
  then show ?thesis
    by (simp add: YesNo_def q answer_of_def)
qed

lemma ConfirmChoice_ok:
  assumes "lcd_ok l" and "-2 \<le> c"
  shows "\<exists>l'. ConfirmChoice desc items c inputs l =
      Some (if c \<ge> int (length items) then ANSWER_NA else answer_of (question_spec 2 0 (map q_key_of inputs)), l') \<and>
    lcd_ok l'"
  using YesNo_ok [OF assms(1)] assms by (auto simp: ConfirmChoice_def Let_def)

lemma MenuWithConfirm_loop_ok:
  assumes "lcd_ok l"
  shows "map_option fst (MenuWithConfirm_loop desc items kp rounds k l) =
    confirm_spec (int (length items)) (map round_keys rounds) k"
  using assms
proof (induction rounds arbitrary: k l)
  case Nil
  then show ?case by simp
next
  case (Cons r rounds)
  obtain mi ai where r: "r = (mi, ai)" by (cases r)
  define c where "c = menu_spec (int (length items) - 1) 0 (map (menu_key_of \<circ> fst) mi)"
  obtain l1 where menu: "menuWithTicks items kp mi l = Some (c, l1)" "lcd_ok l1"
    using menuWithTicks_ok [OF Cons.prems, of items kp mi] by (auto simp: c_def)
  have "-2 \<le> c"
    using menu_spec_range [of 0 "int (length items) - 1" "map (menu_key_of \<circ> fst) mi"]
    by (auto simp: c_def CHOICE_NONE_def CHOICE_CANCEL_def)
  from ConfirmChoice_ok [OF menu(2) this, of desc items ai] obtain a l2 where
    conf: "ConfirmChoice desc items c ai l1 = Some (a, l2)" "lcd_ok l2"
      "a = (if c \<ge> int (length items) then ANSWER_NA else answer_of (question_spec 2 0 (map q_key_of ai)))"
    by blast
  define k' where "k' = (if c = CHOICE_NONE \<and> a = ANSWER_NA then k + 1 else k)"
  have spec: "confirm_spec (int (length items)) (map round_keys (r # rounds)) k =
      (if k' \<ge> 2 \<or> a = ANSWER_YES then Some (c, a)
       else confirm_spec (int (length items)) (map round_keys rounds) k')"
    by (simp only: r list.map round_keys_def fst_conv snd_conv confirm_spec.simps Let_def k'_def c_def conf(3))
  have "MenuWithConfirm_loop desc items kp (r # rounds) k l =
      (if k' \<ge> 2 \<or> a = ANSWER_YES then Some ((c, a), l2)
       else MenuWithConfirm_loop desc items kp rounds k' l2)"
    by (simp add: r menu(1) conf(1) Let_def k'_def maxTimeouts_def)
  with Cons.IH [OF conf(2), of k'] show ?case
    by (simp only: spec) simp
qed

lemma MenuWithConfirm_loop_lcd:
  "lcd_ok l \<Longrightarrow> MenuWithConfirm_loop desc items kp rounds k l = Some (r, l') \<Longrightarrow> lcd_ok l'"
proof (induction rounds arbitrary: k l)
  case (Cons r0 rounds)
  obtain mi ai where r0: "r0 = (mi, ai)" by (cases r0)
  define c where "c = menu_spec (int (length items) - 1) 0 (map (menu_key_of \<circ> fst) mi)"
  obtain l1 where menu: "menuWithTicks items kp mi l = Some (c, l1)" "lcd_ok l1"
    using menuWithTicks_ok [OF Cons.prems(1), of items kp mi] by (auto simp: c_def)
  have "-2 \<le> c"
    using menu_spec_range [of 0 "int (length items) - 1" "map (menu_key_of \<circ> fst) mi"]
    by (auto simp: c_def CHOICE_NONE_def CHOICE_CANCEL_def)
  from ConfirmChoice_ok [OF menu(2) this, of desc items ai] obtain a l2 where
    conf: "ConfirmChoice desc items c ai l1 = Some (a, l2)" "lcd_ok l2"
    by blast
  show ?case
    using Cons.prems(2) Cons.IH [OF conf(2)] conf(2) by (auto simp: r0 menu(1) conf(1) Let_def split: if_splits)
qed simp

lemma confirm_spec_result:
  "0 < n \<Longrightarrow> k < 2 \<Longrightarrow> confirm_spec n rounds k = Some (c, a) \<Longrightarrow> -2 \<le> c \<and> c < n \<and> (a = ANSWER_YES \<or> c = CHOICE_NONE)"
proof (induction rounds arbitrary: k)
  case (Cons r rounds)
  obtain mks qks where r: "r = (mks, qks)" by (cases r)
  have range: "-2 \<le> menu_spec (n - 1) 0 mks \<and> menu_spec (n - 1) 0 mks < n"
    using menu_spec_range [of 0 "n - 1" mks] Cons.prems(1) by (auto simp: CHOICE_NONE_def CHOICE_CANCEL_def)
  define d where "d = menu_spec (n - 1) 0 mks"
  define x where "x = (if d \<ge> n then ANSWER_NA else answer_of (question_spec 2 0 qks))"
  define k' where "k' = (if d = CHOICE_NONE \<and> x = ANSWER_NA then k + 1 else k)"
  have spec: "confirm_spec n (r # rounds) k = (if k' \<ge> 2 \<or> x = ANSWER_YES then Some (d, x) else confirm_spec n rounds k')"
    by (simp only: r confirm_spec.simps Let_def k'_def x_def d_def)
  show ?case
  proof (cases "k' \<ge> 2 \<or> x = ANSWER_YES")
    case True
    with Cons.prems(3) spec have "c = d" "a = x" by simp_all
    with True range Cons.prems(2) show ?thesis
      by (auto simp: d_def [symmetric] k'_def split: if_splits)
  next
    case False
    with Cons.prems(3) spec have "confirm_spec n rounds k' = Some (c, a)" by simp
    from Cons.IH [OF Cons.prems(1) _ this] False show ?thesis by simp
  qed
qed simp

section \<open>Properties\<close>

text \<open>C23: a question answers exactly as its keys say.  The buttons are chosen in a cycle: next and
  previous wrap around, enter answers with the selected button, exit cancels and running out of
  time is \<open>CHOICE_NONE\<close>, whatever is drawn and whatever the link does.\<close>

theorem question_follows_keys:
  assumes "lcd_ok l" and "NewQuestion l t opts = Inr q" and "opts \<noteq> []"
  shows "\<exists>l'. q_ask inputs q l = Some (question_spec (int (length opts)) 0 (map q_key_of inputs), l') \<and> lcd_ok l'"
  using assms by (rule q_ask_ok)

lemma question_follows_keys_witness:
  "\<exists>q l'. NewQuestion (test_lcd Cfa631 silent) [0x41] [[0x42], [0x43]] = Inr q \<and>
     q_ask [KEY_UL_RELEASE, KEY_UR_RELEASE] q (test_lcd Cfa631 silent) = Some (1, l')"
proof -
  obtain q where q: "NewQuestion (test_lcd Cfa631 silent) [0x41] [[0x42], [0x43]] = Inr q"
    by (auto simp: NewQuestion_def createButtonSet_def Width_def test_lcd_def)
  from question_follows_keys [OF test_lcd_ok q, of "[KEY_UL_RELEASE, KEY_UR_RELEASE]"] q show ?thesis
    by (auto simp: q_key_of_def key_defs)
qed

text \<open>C24: a confirmed menu refines its reference: over any series of rounds it returns exactly when
  and what \<open>confirm_spec\<close> says, which looks only at the keys: the first round confirmed with yes
  ends it, and so does the second round in which neither menu nor question was answered.\<close>

theorem MenuWithConfirm_refines:
  assumes "lcd_ok l"
  shows "map_option fst (MenuWithConfirm desc items kp rounds l) =
    confirm_spec (int (length items)) (map round_keys rounds) 0"
  unfolding MenuWithConfirm_def using assms by (rule MenuWithConfirm_loop_ok)

lemma MenuWithConfirm_refines_witness:
  "map_option fst (MenuWithConfirm [] [[0x41], [0x42]] False
     [([(KEY_DOWN_RELEASE, \<lambda>_. True), (KEY_ENTER_RELEASE, \<lambda>_. True)], [KEY_ENTER_RELEASE]),
      ([(KEY_ENTER_RELEASE, \<lambda>_. True)], [KEY_RIGHT_RELEASE, KEY_ENTER_RELEASE])] (test_lcd Cfa635 silent)) =
   Some (0, ANSWER_YES)"
  by (subst MenuWithConfirm_refines)
    (simp_all add: round_keys_def menu_key_of_def q_key_of_def key_defs answer_of_def CHOICE_NONE_def)

text \<open>The spinner stays on the screen.  Once displayed, its cell is a cell of the display, and
  each update draws exactly one of its sprites there.\<close>

theorem spinner_on_screen:
  assumes "lcd_ok l" and "unat (Col (l_dims l)) \<le> unat (Width l)" and "sp_Display s l = Some (None, s1, l1)"
  shows "Col (sp_loc s1) \<le> Col (l_dims l) \<and> Row (sp_loc s1) \<le> Row (l_dims l) \<and>
    sp_loc (fst (sp_Next now s1 l1)) = sp_loc s1 \<and>
    emits (\<lambda>q. \<exists>b \<in> set spinnerSprites. q = disp_pkt (Col (sp_loc s1)) (Row (sp_loc s1)) [b])
      l1 (snd (sp_Next now s1 l1))"
proof -
  obtain c where msg: "Msg (sp_Msg s) l = Some (Inr c, l1)" and mx: "sp_max s1 = l_dims l"
    and loc: "sp_loc s1 = (if Col c + 2 > Col (l_dims l)
      then (if Row c < Row (l_dims l) then \<lparr>Col = 0, Row = Row c + 1\<rparr> else c\<lparr>Col := Col (l_dims l)\<rparr>)
      else c\<lparr>Col := Col c + 2\<rparr>)"
    using assms(3) by (auto simp: sp_Display_def Let_def split: option.splits sum.splits)
  have c: "Row c \<le> Row (l_dims l) \<and> only_dev l l1"
  proof (cases "sp_Msg s = []")
    case True
    with msg show ?thesis by (auto simp: Msg_def)
  next
    case False
    have len: "length (fit (sp_Msg s) (l_dims l)) \<le> Suc (unat (Row (l_dims l)))"
      using fit_loop_count [of "[]" "Row (l_dims l)" "Col (l_dims l)" "sp_Msg s"] by (simp add: fit_def)
    have "c = end_of (fit (sp_Msg s) (l_dims l)) 0 \<lparr>Col = 0, Row = 0\<rparr> \<and> only_dev l l1"
      using Msg_done [OF assms(1,2) False] msg by (auto simp: lines_done_def)
    moreover have "unat (Row (l_dims l)) \<le> 3"
      using assms(1) by (auto simp: lcd_ok_def)
    ultimately show ?thesis
      using len by (auto simp: end_of_def u8_le_iff)
  qed
  then have ok1: "lcd_ok l1" using assms(1) only_dev_lcd_ok by blast
  have inc: "Row c + 1 \<le> Row (l_dims l)" if "Row c < Row (l_dims l)"
    using that by (rule inc_le)
  have bounds: "Col (sp_loc s1) \<le> Col (l_dims l)" "Row (sp_loc s1) \<le> Row (l_dims l)"
    using c inc by (auto simp: loc not_less)
  define i where "i = (if sp_seq s1 \<ge> length spinnerSprites then 0 else sp_seq s1)"
  have "spinnerSprites ! i \<in> set spinnerSprites"
    by (rule nth_mem) (simp add: i_def spinnerSprites_def)
  then have "emits (\<lambda>q. \<exists>b \<in> set spinnerSprites. q = disp_pkt (Col (sp_loc s1)) (Row (sp_loc s1)) [b])
      l1 (snd (lcd_write (sp_loc s1) [spinnerSprites ! i] False l1))"
    using lcd_write_plain_emits [OF ok1, of "sp_loc s1" "[spinnerSprites ! i]"] by (auto elim!: emits_mono)
  then show ?thesis
    using bounds by (auto simp: sp_Next_def Let_def i_def [symmetric])
qed

lemma spinner_on_screen_witness:
  "\<exists>s1. sp_Display \<lparr>sp_Msg = [], sp_seq = 0, sp_loc = \<lparr>Col = 0, Row = 0\<rparr>, sp_max = \<lparr>Col = 0, Row = 0\<rparr>, sp_last = 0\<rparr>
     (test_lcd Cfa631 silent) = Some (None, s1, test_lcd Cfa631 silent) \<and> Col (sp_loc s1) \<le> 19"
proof -
  let ?s = "\<lparr>sp_Msg = [], sp_seq = 0, sp_loc = \<lparr>Col = 0, Row = 0\<rparr>, sp_max = \<lparr>Col = 0, Row = 0\<rparr>, sp_last = 0\<rparr>"
  let ?l = "test_lcd Cfa631 silent"
  obtain s1 where d: "sp_Display ?s ?l = Some (None, s1, ?l)"
    by (auto simp: sp_Display_def Msg_def Let_def)
  have "unat (Col (l_dims ?l)) \<le> unat (Width ?l)" "Col (l_dims ?l) = 19"
    by (simp_all add: Width_def test_lcd_def)
  with spinner_on_screen [OF test_lcd_ok _ d] d show ?thesis by auto
qed

end
