(* ===== verification/CfaMock.thy ===== *)
theory CfaMock
  imports CfaPort CfaKeys
begin

text \<open>
  The mock display: the \<open>mockPort\<close> of \<open>pkg/hw/cfa/mock.go\<close>, which answers every command the
  driver writes.  It is the second implementation of the port interface and interprets
  \<open>packet_source\<close>.  A read with no response queued blocks and a slice out of bounds panics; both
  are \<open>None\<close>.  Locking and tracing are left out.
\<close>

section \<open>The port\<close>

record mockPort =
  mp_closed :: bool
  mp_responses :: "bytes list"
  mp_currentPkt :: bytes
  mp_model :: Model

definition cap_responses :: nat where "cap_responses = 5"

definition mock_Close :: "mockPort \<Rightarrow> cfa_error option \<times> mockPort" where
  "mock_Close m = (if mp_closed m then (Some ErrClosed, m) else (None, m\<lparr>mp_closed := True\<rparr>))"

definition mock_Flush :: "mockPort \<Rightarrow> mockPort" where
  "mock_Flush m = m\<lparr>mp_currentPkt := [], mp_responses := []\<rparr>"

definition mock_respond :: "u8 \<Rightarrow> u8 \<Rightarrow> bytes \<Rightarrow> mockPort \<Rightarrow> mockPort" where
  "mock_respond t c d m =
     (let resp = \<lparr>p_command = push_bit 6 t OR c, p_data_length = to_byte (length d),
                  p_data = take MAX_DATA_LENGTH d @ drop (length d) (replicate MAX_DATA_LENGTH 0)\<rparr>
      in case pkt_buf resp of
           Inl _ \<Rightarrow> m
         | Inr buf \<Rightarrow> m\<lparr>mp_responses := mp_responses m @ [buf]\<rparr>)"

definition minimalResponse :: "u8 \<Rightarrow> u8 \<Rightarrow> mockPort \<Rightarrow> mockPort" where
  "minimalResponse t c m = mock_respond t c [] m"

definition CFResponse_bits :: u8 where "CFResponse_bits = 1"

definition version_reply :: "Model \<Rightarrow> bytes" where
  "version_reply md =
     map of_char (if md = Cfa635 then ''CFA635:hXvX,uYvY'' else ''CFA631:hXvX,uYvY'')"

definition mock_translate :: "bytes \<Rightarrow> mockPort \<Rightarrow> mockPort option" where
  "mock_translate b m =
     (if length b < 2 then None
      else let cmd = b ! 0; dataLen = b ! 1
           in if cmd \<in> {Cmd_Clear, Cmd_CfgKeyReports, Cmd_SetBacklight, Cmd_SetCursorPos,
                        Cmd_SetCursorStyle, Cmd_KeyLegendOnOffMask, Cmd_WriteDisp}
              then Some (minimalResponse CFResponse_bits cmd m)
              else if cmd = Cmd_HwFwVers
              then Some (mock_respond CFResponse_bits cmd (version_reply (mp_model m)) m)
              else if cmd = Cmd_ReadReprtStat
              then Some (mock_respond CFResponse_bits cmd (replicate 15 0) m)
              else if cmd = Cmd_Ping
              then (if 2 \<le> unat (dataLen + 2) \<and> unat (dataLen + 2) \<le> length b
                    then Some (mock_respond CFResponse_bits cmd
                           (drop 2 (take (unat (dataLen + 2)) b)) m)
                    else None)
              else if cmd = Cmd_ReadKeysPolled
              then Some (mock_respond CFResponse_bits cmd [0, 0, 0] m)
              else Some m)"

definition mock_Write :: "bytes \<Rightarrow> mockPort \<Rightarrow> ((nat \<times> cfa_error option) \<times> mockPort) option" where
  "mock_Write b m =
     (if mp_closed m then Some ((0, Some ErrClosed), m)
      else if b = [] then Some ((0, None), m)
      else if length (mp_responses m) = cap_responses then Some ((0, Some ErrShortWrite), m)
      else map_option (\<lambda>m'. ((length b, None), m')) (mock_translate b m))"

definition mock_Read :: "mockPort reader" where
  "mock_Read n m =
     (if mp_closed m then Some (([], Some ErrClosed), m)
      else case (if mp_currentPkt m = []
                 then (case mp_responses m of [] \<Rightarrow> None
                       | r # rs \<Rightarrow> Some (m\<lparr>mp_responses := rs, mp_currentPkt := r\<rparr>))
                 else Some m) of
             None \<Rightarrow> None
           | Some m1 \<Rightarrow>
               Some ((take n (mp_currentPkt m1), None),
                     m1\<lparr>mp_currentPkt := drop n (mp_currentPkt m1)\<rparr>))"

section \<open>The mock is a packet source\<close>

definition mock_pending :: "mockPort \<Rightarrow> bytes" where
  "mock_pending m = mp_currentPkt m @ concat (mp_responses m)"

definition mock_ok :: "mockPort \<Rightarrow> bool" where
  "mock_ok m \<longleftrightarrow> \<not> mp_closed m \<and> [] \<notin> set (mp_responses m)"

interpretation mock: packet_source mock_Read mock_Flush mock_pending mock_ok
proof
  fix m :: mockPort and n :: nat
  assume ok: "mock_ok m" and ne: "mock_pending m \<noteq> []" and n: "0 < n"
  define m1 where "m1 = (if mp_currentPkt m = []
    then m\<lparr>mp_responses := tl (mp_responses m), mp_currentPkt := hd (mp_responses m)\<rparr> else m)"
  have hd: "mp_currentPkt m = [] \<Longrightarrow> mp_responses m = hd (mp_responses m) # tl (mp_responses m)"
    using ne by (cases "mp_responses m") (auto simp: mock_pending_def)
  have m1: "mp_currentPkt m1 \<noteq> []" "mock_pending m1 = mock_pending m" "\<not> mp_closed m1"
      "[] \<notin> set (mp_responses m1)"
    using ok ne hd by (cases "mp_responses m"; auto simp: m1_def mock_ok_def mock_pending_def)+
  have rd: "mock_Read n m = Some ((take n (mp_currentPkt m1), None), m1\<lparr>mp_currentPkt := drop n (mp_currentPkt m1)\<rparr>)"
    using ok hd by (cases "mp_responses m") (auto simp: mock_Read_def m1_def mock_ok_def)
  define k where "k = min n (length (mp_currentPkt m1))"
  have pend: "mock_pending m = mp_currentPkt m1 @ concat (mp_responses m1)"
    unfolding m1(2) [symmetric] by (simp add: mock_pending_def)
  have "mock_ok (m1\<lparr>mp_currentPkt := drop n (mp_currentPkt m1)\<rparr>)"
    "mock_pending (m1\<lparr>mp_currentPkt := drop n (mp_currentPkt m1)\<rparr>) = drop k (mock_pending m)"
    using m1 by (simp_all add: mock_ok_def pend k_def min_def) (simp_all add: mock_pending_def)
  moreover have "0 < k" "k \<le> n" "k \<le> length (mock_pending m)" "take n (mp_currentPkt m1) = take k (mock_pending m)"
    using m1(1) n by (auto simp: k_def pend min_def)
  ultimately show "\<exists>k m'. 0 < k \<and> k \<le> n \<and> k \<le> length (mock_pending m) \<and>
      mock_Read n m = Some ((take k (mock_pending m), None), m') \<and> mock_ok m' \<and>
      mock_pending m' = drop k (mock_pending m)"
    unfolding rd by auto
qed

section \<open>Every command is answered\<close>

text \<open>What the mock answers: the data of its response, if it knows the command.\<close>

definition mock_answer :: "Model \<Rightarrow> u8 \<Rightarrow> bytes \<Rightarrow> bytes option" where
  "mock_answer md cmd d =
     (if cmd \<in> {Cmd_Clear, Cmd_CfgKeyReports, Cmd_SetBacklight, Cmd_SetCursorPos,
                Cmd_SetCursorStyle, Cmd_KeyLegendOnOffMask, Cmd_WriteDisp} then Some []
      else if cmd = Cmd_HwFwVers then Some (version_reply md)
      else if cmd = Cmd_ReadReprtStat then Some (replicate 15 0)
      else if cmd = Cmd_Ping then Some d
      else if cmd = Cmd_ReadKeysPolled then Some [0, 0, 0]
      else None)"

lemma mock_answer_length:
  "mock_answer md cmd d = Some a \<Longrightarrow> length d \<le> MAX_DATA_LENGTH \<Longrightarrow> length a \<le> MAX_DATA_LENGTH"
  by (auto simp: mock_answer_def MAX_DATA_LENGTH_def version_reply_def split: if_splits)

lemma mock_answer_response:
  assumes "mock_answer md cmd d = Some a"
  shows "incoming_cmd (push_bit 6 CFResponse_bits OR cmd)"
    and "CommandFromResponse (push_bit 6 CFResponse_bits OR cmd) = cmd"
proof -
  have "cmd \<in> {Cmd_Clear, Cmd_CfgKeyReports, Cmd_SetBacklight, Cmd_SetCursorPos, Cmd_SetCursorStyle,
      Cmd_KeyLegendOnOffMask, Cmd_WriteDisp, Cmd_HwFwVers, Cmd_ReadReprtStat, Cmd_Ping, Cmd_ReadKeysPolled}"
    using assms by (auto simp: mock_answer_def split: if_splits)
  then show "incoming_cmd (push_bit 6 CFResponse_bits OR cmd)"
    and "CommandFromResponse (push_bit 6 CFResponse_bits OR cmd) = cmd"
    by (auto simp: incoming_cmd_def Command_Type_def PktType_of_def CommandFromResponse_def
        CFResponse_bits_def cmd_defs)
qed

definition frame_of :: "u8 \<Rightarrow> bytes \<Rightarrow> bytes" where
  "frame_of cmd d = cmd # to_byte (length d) # d @ be16_bytes (CfCrc (cmd # to_byte (length d) # d))"

lemma mock_respond_frame:
  assumes "length d \<le> MAX_DATA_LENGTH"
  shows "mock_respond t c d m = m\<lparr>mp_responses := mp_responses m @ [frame_of (push_bit 6 t OR c) d]\<rparr>"
proof -
  let ?resp = "\<lparr>p_command = push_bit 6 t OR c, p_data_length = to_byte (length d),
                p_data = take MAX_DATA_LENGTH d @ drop (length d) (replicate MAX_DATA_LENGTH 0)\<rparr>"
  have "wf_pkt ?resp" "pkt_Data ?resp = d"
    using assms by (simp_all add: wf_pkt_def pkt_Data_def MAX_DATA_LENGTH_def)
  then show ?thesis
    by (simp add: mock_respond_def Let_def pkt_buf_bytes frame_of_def)
qed

lemma mock_translate_reply:
  assumes "\<not> length b < 2" and "b ! 0 = cmd" and "2 \<le> unat (b ! 1 + 2)" and "unat (b ! 1 + 2) \<le> length b"
    and "drop 2 (take (unat (b ! 1 + 2)) b) = d"
  shows "mock_translate b m = Some (case mock_answer (mp_model m) cmd d of None \<Rightarrow> m
    | Some a \<Rightarrow> mock_respond CFResponse_bits cmd a m)"
  unfolding mock_translate_def mock_answer_def minimalResponse_def Let_def assms(2)
  by (simp only: assms(1,3,4,5) if_True if_False simp_thms HOL.if_distrib [of "\<lambda>x. Some (case x of None \<Rightarrow> m
    | Some a \<Rightarrow> mock_respond CFResponse_bits cmd a m)"] option.case)

lemma mock_translate_answer:
  assumes "length d \<le> MAX_DATA_LENGTH" and "mock_answer (mp_model m) cmd d = Some a"
  shows "mock_translate (frame_of cmd d) m =
    Some (m\<lparr>mp_responses := mp_responses m @ [frame_of (push_bit 6 CFResponse_bits OR cmd) a]\<rparr>)"
proof -
  have len: "unat (to_byte (length d) + 2) = length d + 2"
    using assms(1) by (simp add: MAX_DATA_LENGTH_def unat_add_u8)
  have "length a \<le> MAX_DATA_LENGTH"
    using mock_answer_length [OF assms(2,1)] .
  then have resp: "mock_respond CFResponse_bits cmd a m =
      m\<lparr>mp_responses := mp_responses m @ [frame_of (push_bit 6 CFResponse_bits OR cmd) a]\<rparr>"
    by (rule mock_respond_frame)
  have "drop 2 (take (unat (to_byte (length d) + 2)) (frame_of cmd d)) = d"
    unfolding len by (simp add: frame_of_def)
  moreover have "frame_of cmd d ! 0 = cmd" "frame_of cmd d ! 1 = to_byte (length d)"
    "\<not> length (frame_of cmd d) < 2" "length d + 2 \<le> length (frame_of cmd d)"
    by (simp_all add: frame_of_def)
  ultimately have "mock_translate (frame_of cmd d) m = Some (case mock_answer (mp_model m) cmd d of None \<Rightarrow> m
      | Some a \<Rightarrow> mock_respond CFResponse_bits cmd a m)"
    by (intro mock_translate_reply) (simp_all add: len)
  then show ?thesis
    by (simp only: assms(2) option.case resp)
qed

section \<open>Properties\<close>

text \<open>The mock answers every command it knows.  Writing a frame with such a command to an idle
  mock succeeds, and reading a packet then returns a valid response to that very command, carrying
  the data the display would send (a ping its own data), and leaves the mock idle again.\<close>

theorem mock_answers_commands:
  assumes "wf_pkt p" and "pkt_buf p = Inr frame"
    and "mock_answer (mp_model m) (p_command p) (pkt_Data p) = Some a"
    and "\<not> mp_closed m" and "mp_responses m = []" and "mp_currentPkt m = []"
  shows "\<exists>m1 q m2. mock_Write frame m = Some ((length frame, None), m1) \<and>
    GetPacket mock_Read mock_Flush m1 = Some (Inr q, m2) \<and> Validate q \<and>
    CommandFromResponse (p_command q) = p_command p \<and> pkt_Data q = a \<and>
    mock_pending m2 = [] \<and> mock_ok m2"
proof -
  have d: "length (pkt_Data p) = unat (p_data_length p)" "length (pkt_Data p) \<le> MAX_DATA_LENGTH"
    using assms(1) length_pkt_Data [OF assms(1)] by (simp_all add: wf_pkt_def)
  then have frame: "frame = frame_of (p_command p) (pkt_Data p)"
    using assms(2) pkt_buf_bytes [OF assms(1)] by (simp add: frame_of_def)
  define c where "c = push_bit 6 CFResponse_bits OR p_command p"
  have a: "length a \<le> MAX_DATA_LENGTH"
    using mock_answer_length [OF assms(3) d(2)] .
  define m1 where "m1 = m\<lparr>mp_responses := [frame_of c a]\<rparr>"
  have w: "mock_Write frame m = Some ((length frame, None), m1)"
    using mock_translate_answer [OF d(2) assms(3)] assms(4,5)
    by (simp add: mock_Write_def frame m1_def c_def cap_responses_def) (simp add: frame_of_def)
  have m1: "mock_ok m1" "mock_pending m1 = c # to_byte (length a) # a @
      be16_bytes (CfCrc (c # to_byte (length a) # a)) @ []"
    using assms(4,6) by (simp_all add: m1_def mock_ok_def mock_pending_def frame_of_def)
  have "incoming_cmd c" "unat (to_byte (length a)) \<le> MAX_DATA_LENGTH" "length a = unat (to_byte (length a))"
    using mock_answer_response [OF assms(3)] a by (simp_all add: c_def MAX_DATA_LENGTH_def)
  from mock.GetPacket_frame [OF m1 this length_be16_bytes] obtain m2 where
    "GetPacket mock_Read mock_Flush m1 =
       (let q = mk_packet c a (CfCrc (c # to_byte (length a) # a))
        in Some (if Validate q then Inr q else Inl ErrInvalid, m2))" "mock_ok m2" "mock_pending m2 = []"
    by (auto simp: mk_packet_def)
  moreover have "Validate (mk_packet c a (CfCrc (c # to_byte (length a) # a)))"
    using Validate_mk [OF a] by simp
  moreover have "pkt_Data (mk_packet c a x) = a" for x
    using a by (simp add: mk_packet_def pkt_Data_def MAX_DATA_LENGTH_def)
  moreover have "CommandFromResponse (p_command (mk_packet c a x)) = p_command p" for x
    using mock_answer_response(2) [OF assms(3)] by (simp add: mk_packet_def c_def)
  ultimately show ?thesis
    using w by (auto simp: Let_def)
qed

lemma mock_answers_commands_witness:
  "\<exists>m1 q m2. mock_Write (frame_of Cmd_Ping [1, 2])
       \<lparr>mp_closed = False, mp_responses = [], mp_currentPkt = [], mp_model = Cfa631\<rparr> = Some ((6, None), m1) \<and>
     GetPacket mock_Read mock_Flush m1 = Some (Inr q, m2) \<and> pkt_Data q = [1, 2]"
proof -
  define p :: pktNoCrc where "p = \<lparr>p_command = Cmd_Ping, p_data_length = 2, p_data = 1 # 2 # replicate 20 0\<rparr>"
  have wf: "wf_pkt p" and d: "pkt_Data p = [1, 2]"
    by (simp_all add: p_def wf_pkt_def MAX_DATA_LENGTH_def pkt_Data_def)
  then have buf: "pkt_buf p = Inr (frame_of Cmd_Ping [1, 2])"
    by (simp add: pkt_buf_bytes) (simp add: p_def frame_of_def)
  from mock_answers_commands [OF wf buf, of "\<lparr>mp_closed = False, mp_responses = [], mp_currentPkt = [], mp_model = Cfa631\<rparr>" "[1, 2]"]
  show ?thesis
    by (auto simp: d) (auto simp: p_def mock_answer_def cmd_defs frame_of_def)
qed

end
