(* ===== verification/UefiPath.thy ===== *)
theory UefiPath
  imports Prelude
begin

text \<open>
  UEFI device paths: \<open>pkg/hw/uefi/efiDevicePathProtocol.go\<close> and the node parsers of
  \<open>efiDppHardware.go\<close>, \<open>efiDppACPI.go\<close>, \<open>efiDppMessage.go\<close>, \<open>efiDppMedia.go\<close>, with the mixed-endian
  GUIDs of \<open>pkg/guid/guid.go\<close> and \<open>DecodeUTF16\<close> of \<open>vars.go\<close>.  Go strings are byte slices.  A slice
  or index out of bounds is the error \<open>UPanic\<close>; the text form of a UUID (package
  \<open>github.com/google/uuid\<close>) is the parameter \<open>uuid_str\<close>.
\<close>

section \<open>GUIDs\<close>

type_synonym guid = bytes

text \<open>Both functions are on arrays of 16 bytes.\<close>

definition ToStdEnc :: "guid \<Rightarrow> guid" where
  "ToStdEnc m = [m ! 3, m ! 2, m ! 1, m ! 0, m ! 5, m ! 4, m ! 7, m ! 6] @ drop 8 m"

definition FromStdEnc :: "guid \<Rightarrow> guid" where
  "FromStdEnc u = [u ! 3, u ! 2, u ! 1, u ! 0, u ! 5, u ! 4, u ! 7, u ! 6] @ drop 8 u"

definition to_upper :: "u8 \<Rightarrow> u8" where
  "to_upper c = (if 0x61 \<le> c \<and> c \<le> 0x7a then c - 0x20 else c)"

definition MSStr :: "(guid \<Rightarrow> bytes) \<Rightarrow> guid \<Rightarrow> bytes" where
  "MSStr uuid_str u = ascii ''{'' @ map to_upper (uuid_str u) @ ascii ''}''"

definition MSStrFromRegBin :: "(guid \<Rightarrow> bytes) \<Rightarrow> bytes \<Rightarrow> bytes option" where
  "MSStrFromRegBin uuid_str b = (if length b \<noteq> 16 then None else Some (MSStr uuid_str (ToStdEnc b)))"

section \<open>Text in UTF-16\<close>

datatype uefi_error = EParse | ENotFound | EUnimpl | EOddLength | UPanic

definition bytesToU16 :: "bytes \<Rightarrow> u16" where
  "bytesToU16 b = ucast (b ! 0) + push_bit 8 (ucast (b ! 1))"

text \<open>\<open>utf16.Decode\<close> of a single code unit: half of a surrogate pair is the replacement character.\<close>

definition decode_unit :: "u16 \<Rightarrow> u16" where
  "decode_unit u = (if 0xd800 \<le> u \<and> u < 0xe000 then 0xfffd else u)"

text \<open>\<open>utf8.EncodeRune\<close> for a rune below \<open>0x10000\<close>.\<close>

definition encode_rune :: "u16 \<Rightarrow> bytes" where
  "encode_rune r =
     (if r < 0x80 then [ucast r]
      else if r < 0x800 then [0xc0 OR ucast (drop_bit 6 r), 0x80 OR (ucast r AND 0x3f)]
      else [0xe0 OR ucast (drop_bit 12 r), 0x80 OR (ucast (drop_bit 6 r) AND 0x3f), 0x80 OR (ucast r AND 0x3f)])"

fun decode_units :: "bytes \<Rightarrow> bytes" where
  "decode_units (a # b # bs) = encode_rune (decode_unit (bytesToU16 [a, b])) @ decode_units bs"
| "decode_units _ = []"

definition DecodeUTF16 :: "bytes \<Rightarrow> uefi_error + bytes" where
  "DecodeUTF16 b = (if length b mod 2 \<noteq> 0 then Inl EOddLength else Inr (decode_units b))"

section \<open>Nodes\<close>

record DppHdr =
  h_type :: u8
  h_sub :: u8
  h_len :: u16

definition DppTypeHw :: u8 where "DppTypeHw = 0x01"
definition DppTypeACPI :: u8 where "DppTypeACPI = 0x02"
definition DppTypeMessaging :: u8 where "DppTypeMessaging = 0x03"
definition DppTypeMedia :: u8 where "DppTypeMedia = 0x04"
definition DppTypeBBS :: u8 where "DppTypeBBS = 0x05"
definition DppTypeEnd :: u8 where "DppTypeEnd = 0x7f"

definition DppHTypePCI :: u8 where "DppHTypePCI = 1"
definition DppAcpiTypeDevPath :: u8 where "DppAcpiTypeDevPath = 1"
definition DppAcpiTypeExpandedDevPath :: u8 where "DppAcpiTypeExpandedDevPath = 2"
definition DppMsgTypeATAPI :: u8 where "DppMsgTypeATAPI = 1"
definition DppMsgTypeMAC :: u8 where "DppMsgTypeMAC = 11"
definition DppMTypeHdd :: u8 where "DppMTypeHdd = 1"
definition DppMTypeFilePath :: u8 where "DppMTypeFilePath = 4"
definition DppMTypePIWGFF :: u8 where "DppMTypePIWGFF = 6"
definition DppMTypePIWGFV :: u8 where "DppMTypePIWGFV = 7"
definition DppETypeEndEntire :: u8 where "DppETypeEndEntire = 0xff"

lemmas dpp_types = DppTypeHw_def DppTypeACPI_def DppTypeMessaging_def DppTypeMedia_def DppTypeBBS_def
  DppTypeEnd_def DppHTypePCI_def DppAcpiTypeDevPath_def DppAcpiTypeExpandedDevPath_def
  DppMsgTypeATAPI_def DppMsgTypeMAC_def DppMTypeHdd_def DppMTypeFilePath_def DppMTypePIWGFF_def
  DppMTypePIWGFV_def DppETypeEndEntire_def

datatype Dpp =
    DppHwPci (dpp_hdr: DppHdr) (pci_Function: u8) (pci_Device: u8)
  | DppAcpiDevPath (dpp_hdr: DppHdr) (acpi_HID: bytes) (acpi_UID: bytes)
  | DppAcpiExDevPath (dpp_hdr: DppHdr) (ex_HID: bytes) (ex_UID: bytes) (ex_CID: bytes)
      (ex_HIDSTR: bytes) (ex_UIDSTR: bytes) (ex_CIDSTR: bytes)
  | DppMsgATAPI (dpp_hdr: DppHdr) (ata_Primary: bool) (ata_Master: bool) (ata_LUN: u16)
  | DppMsgMAC (dpp_hdr: DppHdr) (mac_Mac: bytes) (mac_IfType: u8)
  | DppMediaHDD (dpp_hdr: DppHdr) (hdd_PartNum: u32) (hdd_PartStart: u64) (hdd_PartSize: u64)
      (hdd_PartSig: guid) (hdd_PartFmt: u8) (hdd_SigType: u8)
  | DppMediaFilePath (dpp_hdr: DppHdr) (fp_PathNameDecoded: bytes)
  | DppMediaPIWGFV (dpp_hdr: DppHdr) (fv_Fv: bytes)
  | DppMediaPIWGFF (dpp_hdr: DppHdr) (ff_Ff: bytes)
  | EfiDevPathRaw (dpp_hdr: DppHdr) (raw_Raw: bytes)

section \<open>Parsing one node\<close>

text \<open>A slice \<open>b[i:j]\<close>, which panics unless \<open>i \<le> j \<le> len(b)\<close>.\<close>

definition slice :: "nat \<Rightarrow> nat \<Rightarrow> bytes \<Rightarrow> bytes option" where
  "slice i j b = (if i \<le> j \<and> j \<le> length b then Some (drop i (take j b)) else None)"

definition ParseDppHwPci :: "DppHdr \<Rightarrow> bytes \<Rightarrow> uefi_error + Dpp" where
  "ParseDppHwPci h b = (if length b \<noteq> 2 then Inl EParse else Inr (DppHwPci h (b ! 0) (b ! 1)))"

definition ParseDppAcpiDevPath :: "DppHdr \<Rightarrow> bytes \<Rightarrow> uefi_error + Dpp" where
  "ParseDppAcpiDevPath h b =
     (if h_len h \<noteq> 12 then Inl EParse
      else case (slice 0 4 b, slice 4 8 b) of
             (Some hid, Some uid) \<Rightarrow> Inr (DppAcpiDevPath h hid uid)
           | _ \<Rightarrow> Inl UPanic)"

definition readToNull :: "bytes \<Rightarrow> uefi_error + bytes" where
  "readToNull b = (if 0 \<in> set b then Inr (takeWhile (\<lambda>c. c \<noteq> 0) b) else Inl EParse)"

definition ParseDppAcpiExDevPath :: "DppHdr \<Rightarrow> bytes \<Rightarrow> uefi_error + Dpp" where
  "ParseDppAcpiExDevPath h b =
     (if h_len h < 19 then Inl EParse
      else case (slice 0 4 b, slice 4 8 b, slice 8 12 b) of
             (Some hid, Some uid, Some cid) \<Rightarrow>
               (case readToNull (drop 12 b) of
                  Inl e \<Rightarrow> Inl e
                | Inr hs \<Rightarrow>
                    (let b1 = drop (length hs + 1) (drop 12 b)
                     in case readToNull b1 of
                          Inl e \<Rightarrow> Inl e
                        | Inr us \<Rightarrow>
                            (case readToNull (drop (length us + 1) b1) of
                               Inl e \<Rightarrow> Inl e
                             | Inr cs \<Rightarrow> Inr (DppAcpiExDevPath h hid uid cid hs us cs))))
           | _ \<Rightarrow> Inl UPanic)"

definition ParseDppMsgATAPI :: "DppHdr \<Rightarrow> bytes \<Rightarrow> uefi_error + Dpp" where
  "ParseDppMsgATAPI h b =
     (if h_len h \<noteq> 8 then Inl EParse
      else case slice 2 4 b of
             None \<Rightarrow> Inl UPanic
           | Some lun \<Rightarrow> Inr (DppMsgATAPI h (b ! 0 = 0) (b ! 1 = 0) (le_val lun)))"

definition ParseDppMsgMAC :: "DppHdr \<Rightarrow> bytes \<Rightarrow> uefi_error + Dpp" where
  "ParseDppMsgMAC h b =
     (if h_len h \<noteq> 37 then Inl EParse
      else if length b \<le> 32 then Inl UPanic
      else Inr (DppMsgMAC h (take 32 b) (b ! 32)))"

definition ParseDppMediaHdd :: "DppHdr \<Rightarrow> bytes \<Rightarrow> uefi_error + Dpp" where
  "ParseDppMediaHdd h b =
     (if length b < 38 then Inl EParse
      else Inr (DppMediaHDD h (le_val (take 4 b)) (le_val (take 8 (drop 4 b))) (le_val (take 8 (drop 12 b)))
             (take 16 (drop 20 b)) (b ! 36) (b ! 37)))"

text \<open>\<open>strings.TrimSuffix\<close> of a NUL and \<open>strings.Replace\<close> of backslashes.\<close>

definition trim_nul :: "bytes \<Rightarrow> bytes" where
  "trim_nul p = (if p \<noteq> [] \<and> last p = 0 then butlast p else p)"

definition fix_slashes :: "bytes \<Rightarrow> bytes" where
  "fix_slashes p = map (\<lambda>c. if c = 0x5c then 0x2f else c) p"

definition ParseDppMediaFilePath :: "DppHdr \<Rightarrow> bytes \<Rightarrow> uefi_error + Dpp" where
  "ParseDppMediaFilePath h b =
     (if int (length b) < int (unat (h_len h)) - 4 then Inl EParse
      else case slice 0 (unat (h_len h - 4)) b of
             None \<Rightarrow> Inl UPanic
           | Some p \<Rightarrow>
               (case DecodeUTF16 p of
                  Inl e \<Rightarrow> Inl e
                | Inr path \<Rightarrow> Inr (DppMediaFilePath h (fix_slashes (trim_nul path)))))"

definition ParseDppMediaPIWGFV :: "DppHdr \<Rightarrow> bytes \<Rightarrow> uefi_error + Dpp" where
  "ParseDppMediaPIWGFV h b = (if h_len h \<noteq> 20 then Inl EParse else Inr (DppMediaPIWGFV h b))"

definition ParseDppMediaPIWGFF :: "DppHdr \<Rightarrow> bytes \<Rightarrow> uefi_error + Dpp" where
  "ParseDppMediaPIWGFF h b = (if h_len h \<noteq> 20 then Inl EParse else Inr (DppMediaPIWGFF h b))"

text \<open>The switch over types and subtypes; unhandled ones keep their bytes.\<close>

definition parse_node :: "DppHdr \<Rightarrow> bytes \<Rightarrow> uefi_error + Dpp" where
  "parse_node h d =
     (if h_type h = DppTypeHw then
        (if h_sub h = DppHTypePCI then ParseDppHwPci h d else Inr (EfiDevPathRaw h d))
      else if h_type h = DppTypeACPI then
        (if h_sub h = DppAcpiTypeDevPath then ParseDppAcpiDevPath h d
         else if h_sub h = DppAcpiTypeExpandedDevPath then ParseDppAcpiExDevPath h d
         else Inr (EfiDevPathRaw h d))
      else if h_type h = DppTypeMessaging then
        (if h_sub h = DppMsgTypeATAPI then ParseDppMsgATAPI h d
         else if h_sub h = DppMsgTypeMAC then ParseDppMsgMAC h d
         else Inr (EfiDevPathRaw h d))
      else if h_type h = DppTypeMedia then
        (if h_sub h = DppMTypeHdd then ParseDppMediaHdd h d
         else if h_sub h = DppMTypeFilePath then ParseDppMediaFilePath h d
         else if h_sub h = DppMTypePIWGFF then ParseDppMediaPIWGFF h d
         else if h_sub h = DppMTypePIWGFV then ParseDppMediaPIWGFV h d
         else Inr (EfiDevPathRaw h d))
      else Inr (EfiDevPathRaw h d))"

section \<open>Parsing a list of nodes\<close>

definition hdr_of :: "bytes \<Rightarrow> DppHdr" where
  "hdr_of b = \<lparr>h_type = b ! 0, h_sub = b ! 1, h_len = bytesToU16 [b ! 2, b ! 3]\<rparr>"

text \<open>The loop: the nodes before the end node, and the bytes after it.  Leaving the loop without
  having seen an end node is the error.\<close>

function parse_nodes :: "bytes \<Rightarrow> Dpp list \<Rightarrow> uefi_error + (Dpp list \<times> bytes)" where
  "parse_nodes b acc =
     (if length b < 4 then Inl EParse
      else let h = hdr_of b; n = unat (h_len h)
           in if n < 4 then Inl EParse
              else if length b < n then Inl EParse
              else if h_type h = DppTypeEnd then Inr (acc, drop n b)
              else case parse_node h (drop 4 (take n b)) of
                     Inl e \<Rightarrow> Inl e
                   | Inr p \<Rightarrow> parse_nodes (drop n b) (acc @ [p]))"
  by pat_completeness auto
termination
  by (relation "measure (\<lambda>(b, acc). length b)") auto

declare parse_nodes.simps [simp del]

definition ParseFilePathList :: "bytes \<Rightarrow> uefi_error + Dpp list" where
  "ParseFilePathList b =
     (case parse_nodes b [] of
        Inl e \<Rightarrow> Inl e
      | Inr (ps, rest) \<Rightarrow> if rest \<noteq> [] then Inl EParse else Inr ps)"

section \<open>The text of a device path\<close>

definition hw_name :: "u8 \<Rightarrow> string" where
  "hw_name s =
     (if s = 1 then ''PCI'' else if s = 2 then ''PCCARD'' else if s = 3 then ''MMap''
      else if s = 4 then ''Vendor'' else if s = 5 then ''Control'' else if s = 6 then ''BMC''
      else ''UNKNOWN-0x'' @ show_hex (unat s))"

definition acpi_name :: "u8 \<Rightarrow> string" where
  "acpi_name s =
     (if s = 1 then ''Device Path'' else if s = 2 then ''Expanded Device Path'' else if s = 3 then ''_ADR''
      else if s = 4 then ''NVDIMM'' else ''UNKNOWN-0x'' @ show_hex (unat s))"

text \<open>The messaging subtypes, numbered as the constants are (7, 8 and 21 are unused).\<close>

definition msg_names :: "(u8 \<times> string) list" where
  "msg_names =
     [(1, ''ATAPI''), (2, ''SCSI''), (3, ''Fibre Channel''), (4, ''1394''), (5, ''USB''), (6, ''I20''),
      (9, ''Infiniband''), (10, ''Vendor''), (11, ''MAC''), (12, ''IPv4''), (13, ''IPv6''), (14, ''UART''),
      (15, ''USB Class''), (16, ''USB WWID''), (17, ''Device Logical Unit''), (18, ''SATA''), (19, ''iSCSI''),
      (20, ''VLAN''), (22, ''SAS Ex''), (23, ''NVME''), (24, ''URI''), (25, ''UFS''), (26, ''SD''),
      (27, ''Bluetooth''), (28, ''WiFi''), (29, ''eMMC''), (30, ''BLE''), (31, ''DNS''), (32, ''NVDIMM''),
      (33, ''REST'')]"

definition msg_name :: "u8 \<Rightarrow> string" where
  "msg_name s =
     (case map_of msg_names s of Some n \<Rightarrow> n | None \<Rightarrow> ''UNKNOWN-0x'' @ show_hex (unat s))"

definition media_name :: "u8 \<Rightarrow> string" where
  "media_name s =
     (if s = 1 then ''HDD'' else if s = 2 then ''CD'' else if s = 3 then ''Vendor'' else if s = 4 then ''FilePath''
      else if s = 5 then ''Media'' else if s = 6 then ''PIWG Firmware File'' else if s = 7 then ''PIWG Firmware Volume''
      else if s = 8 then ''Relative Offset'' else if s = 9 then ''RAMDisk''
      else ''UNKNOWN-0x'' @ show_hex (unat s))"

definition end_name :: "u8 \<Rightarrow> string" where
  "end_name s =
     (if s = 0xff then ''End'' else if s = 1 then ''End one, start another''
      else ''UNKNOWN-0x'' @ show_hex (unat s))"

definition proto_name :: "u8 \<Rightarrow> string" where
  "proto_name t =
     (if t = DppTypeHw then ''HW'' else if t = DppTypeACPI then ''ACPI'' else if t = DppTypeMessaging then ''Messaging''
      else if t = DppTypeMedia then ''Media'' else if t = DppTypeBBS then ''BBS'' else if t = DppTypeEnd then ''End''
      else ''UNKNOWN-0x'' @ show_hex (unat t))"

fun ProtoSubTypeStr :: "Dpp \<Rightarrow> string" where
  "ProtoSubTypeStr (DppHwPci h _ _) = hw_name (h_sub h)"
| "ProtoSubTypeStr (DppAcpiDevPath h _ _) = acpi_name (h_sub h)"
| "ProtoSubTypeStr (DppAcpiExDevPath h _ _ _ _ _ _) = acpi_name (h_sub h)"
| "ProtoSubTypeStr (DppMsgATAPI h _ _ _) = msg_name (h_sub h)"
| "ProtoSubTypeStr (DppMsgMAC h _ _) = msg_name (h_sub h)"
| "ProtoSubTypeStr (DppMediaHDD h _ _ _ _ _ _) = media_name (h_sub h)"
| "ProtoSubTypeStr (DppMediaFilePath h _) = media_name (h_sub h)"
| "ProtoSubTypeStr (DppMediaPIWGFV h _) = media_name (h_sub h)"
| "ProtoSubTypeStr (DppMediaPIWGFF h _) = media_name (h_sub h)"
| "ProtoSubTypeStr (EfiDevPathRaw h _) = end_name (h_sub h)"

definition pttype :: "u8 \<Rightarrow> string" where
  "pttype fmt = (if fmt = 1 then ''MBR'' else if fmt = 2 then ''GPT'' else ''UNKNOWN'')"

definition hdd_sig :: "(guid \<Rightarrow> bytes) \<Rightarrow> guid \<Rightarrow> u8 \<Rightarrow> bytes" where
  "hdd_sig uuid_str sig sty =
     (if sty = 1 then ascii (show_hex (unat (le_val (take 4 sig) :: u32)))
      else if sty = 2 then uuid_str (ToStdEnc sig) else ascii ''(NO SIG)'')"

definition show_bool :: "bool \<Rightarrow> string" where
  "show_bool b = (if b then ''true'' else ''false'')"

text \<open>\<open>copy\<close> of a slice into a zeroed array of 16 bytes.\<close>

definition to_guid :: "bytes \<Rightarrow> guid" where
  "to_guid b = take 16 (b @ replicate 16 0)"

text \<open>\<open>%08x\<close> of a 32-byte array is its 64 hexadecimal digits.\<close>

fun Dpp_String :: "(guid \<Rightarrow> bytes) \<Rightarrow> Dpp \<Rightarrow> bytes" where
  "Dpp_String uuid_str (DppHwPci h f d) =
     ascii (''PCI(0x'' @ show_hex (unat f) @ '',0x'' @ show_hex (unat d) @ '')'')"
| "Dpp_String uuid_str (DppAcpiDevPath h hid uid) =
     ascii (''ACPI(0x'' @ hex_bytes hid @ '',0x'' @ hex_bytes uid @ '')'')"
| "Dpp_String uuid_str (DppAcpiExDevPath h hid uid cid hs us cs) =
     ascii (''ACPI_EX(0x'' @ hex_bytes hid @ '',0x'' @ hex_bytes uid @ '',0x'' @ hex_bytes cid @ '','') @
     hs @ ascii '','' @ us @ ascii '','' @ cs @ ascii '')''"
| "Dpp_String uuid_str (DppMsgATAPI h pri mas lun) =
     ascii (''ATAPI(pri='' @ show_bool pri @ '',master='' @ show_bool mas @ '',lun='' @ show_dec (unat lun) @ '')'')"
| "Dpp_String uuid_str (DppMsgMAC h mac ift) =
     (if ift = 1 then ascii (''MAC('' @ hex_bytes (take 6 mac) @ '')'')
      else ascii (''MAC(mac='' @ hex_bytes mac @ '',iftype=0x'' @ show_hex (unat ift) @ '')''))"
| "Dpp_String uuid_str (DppMediaHDD h n st sz sig fmt sty) =
     ascii (''HD('' @ show_dec (unat n) @ '','' @ pttype fmt @ '','') @ hdd_sig uuid_str sig sty @
     ascii ('',0x'' @ show_hex (unat st) @ '',0x'' @ show_hex (unat sz) @ '')'')"
| "Dpp_String uuid_str (DppMediaFilePath h p) = ascii ''File('' @ p @ ascii '')''"
| "Dpp_String uuid_str (DppMediaPIWGFV h fv) = ascii ''Fv('' @ uuid_str (ToStdEnc (to_guid fv)) @ ascii '')''"
| "Dpp_String uuid_str (DppMediaPIWGFF h ff) = ascii ''FvFile('' @ uuid_str (ToStdEnc (to_guid ff)) @ ascii '')''"
| "Dpp_String uuid_str (EfiDevPathRaw h r) =
     ascii (''RAW('' @ proto_name (h_type h) @ '',0x'' @ show_hex (unat (h_sub h)) @ '','' @
       show_dec (unat (h_len h)) @ '',0x'' @ hex_bytes r @ '')'')"

text \<open>\<open>strings.Trim(res, "/")\<close>: slashes go from both ends.\<close>

definition trim_slashes :: "bytes \<Rightarrow> bytes" where
  "trim_slashes s = rev (dropWhile (\<lambda>c. c = 0x2f) (rev (dropWhile (\<lambda>c. c = 0x2f) s)))"

definition List_String :: "(guid \<Rightarrow> bytes) \<Rightarrow> Dpp list \<Rightarrow> bytes" where
  "List_String uuid_str ps = trim_slashes (concat (map (\<lambda>p. Dpp_String uuid_str p @ ascii ''/'') ps))"

section \<open>GUIDs convert back and forth\<close>

lemma guid_16:
  assumes "length m = 16"
  shows "\<exists>a b c d e f g h rest. m = a # b # c # d # e # f # g # h # rest \<and> length rest = 8"
  using assms by (auto simp: numeral_eq_Suc length_Suc_conv)

lemma FromStdEnc_ToStdEnc: "length m = 16 \<Longrightarrow> FromStdEnc (ToStdEnc m) = m"
  by (drule guid_16) (auto simp: FromStdEnc_def ToStdEnc_def)

lemma ToStdEnc_FromStdEnc: "length u = 16 \<Longrightarrow> ToStdEnc (FromStdEnc u) = u"
  by (drule guid_16) (auto simp: FromStdEnc_def ToStdEnc_def)

section \<open>No input makes the parser panic\<close>

lemma readToNull_cases: "readToNull b = Inl EParse \<or> (\<exists>s rest. readToNull b = Inr s \<and> b = s @ 0 # rest)"
proof (cases "0 \<in> set b")
  case True
  then have "dropWhile (\<lambda>c. c \<noteq> 0) b \<noteq> []"
    by (auto simp: dropWhile_eq_Nil_conv)
  then obtain y ys where y: "dropWhile (\<lambda>c. c \<noteq> 0) b = y # ys"
    by (cases "dropWhile (\<lambda>c. c \<noteq> 0) b") auto
  then have "y = 0"
    using hd_dropWhile [of "\<lambda>c. c \<noteq> 0" b] by simp
  then have "b = takeWhile (\<lambda>c. c \<noteq> 0) b @ 0 # ys"
    using takeWhile_dropWhile_id [of "\<lambda>c. c \<noteq> 0" b] y by simp
  with True show ?thesis by (auto simp: readToNull_def)
qed (simp add: readToNull_def)

lemma readToNull_not_panic [simp]: "readToNull b \<noteq> Inl UPanic"
  using readToNull_cases [of b] by auto

lemma DecodeUTF16_not_panic [simp]: "DecodeUTF16 b \<noteq> Inl UPanic"
  by (simp add: DecodeUTF16_def)

lemma if_neqI: "x \<noteq> z \<Longrightarrow> y \<noteq> z \<Longrightarrow> (if c then x else y) \<noteq> z"
  by simp

lemma parse_node_not_panic:
  assumes "unat (h_len h) = 4 + length d"
  shows "parse_node h d \<noteq> Inl UPanic"
proof -
  have sub: "unat (h_len h - 4) = length d"
    using assms by (subst unat_sub) (simp_all add: word_le_nat_alt)
  have len: "h_len h = 12 \<Longrightarrow> length d = 8" "h_len h = 8 \<Longrightarrow> length d = 4" "h_len h = 37 \<Longrightarrow> length d = 33"
    using assms by auto
  have "\<not> h_len h < 19 \<Longrightarrow> 12 \<le> length d"
    using assms by (simp add: word_less_nat_alt)
  then have "ParseDppAcpiExDevPath h d \<noteq> Inl UPanic"
    by (cases "h_len h < 19") (auto simp: ParseDppAcpiExDevPath_def slice_def Let_def split: sum.splits)
  moreover have "ParseDppMediaFilePath h d \<noteq> Inl UPanic"
    using sub by (auto simp: ParseDppMediaFilePath_def slice_def split: sum.splits)
  moreover have "ParseDppHwPci h d \<noteq> Inl UPanic" "ParseDppMediaHdd h d \<noteq> Inl UPanic"
    "ParseDppMediaPIWGFV h d \<noteq> Inl UPanic" "ParseDppMediaPIWGFF h d \<noteq> Inl UPanic"
    by (simp_all add: ParseDppHwPci_def ParseDppMediaHdd_def ParseDppMediaPIWGFV_def ParseDppMediaPIWGFF_def)
  moreover have "ParseDppAcpiDevPath h d \<noteq> Inl UPanic"
    by (cases "h_len h = 12") (simp_all add: ParseDppAcpiDevPath_def slice_def len(1))
  moreover have "ParseDppMsgATAPI h d \<noteq> Inl UPanic"
    by (cases "h_len h = 8") (simp_all add: ParseDppMsgATAPI_def slice_def len(2))
  moreover have "ParseDppMsgMAC h d \<noteq> Inl UPanic"
    by (cases "h_len h = 37") (simp_all add: ParseDppMsgMAC_def len(3))
  ultimately show ?thesis
    unfolding parse_node_def by (intro if_neqI) simp_all
qed

lemma parse_nodes_not_panic: "parse_nodes b acc \<noteq> Inl UPanic"
proof (induction b acc rule: parse_nodes.induct)
  case (1 b acc)
  have "unat (h_len (hdr_of b)) = 4 + length (drop 4 (take (unat (h_len (hdr_of b))) b))"
    if "\<not> unat (h_len (hdr_of b)) < 4" "\<not> length b < unat (h_len (hdr_of b))"
    using that by simp
  then show ?case
    using 1 parse_node_not_panic
    by (auto simp: parse_nodes.simps [of b acc] Let_def split: sum.splits)
qed

section \<open>What is accepted is understood completely\<close>

definition hdr_bytes :: "DppHdr \<Rightarrow> bytes" where
  "hdr_bytes h = [h_type h, h_sub h, ucast (h_len h), ucast (drop_bit 8 (h_len h))]"

lemma bytesToU16_bytes: "[ucast (bytesToU16 [a, b]), ucast (drop_bit 8 (bytesToU16 [a, b]))] = [a, b]"
  and bytesToU16_word: "bytesToU16 [ucast w, ucast (drop_bit 8 w)] = w"
proof -
  have or: "bytesToU16 [x, y] = ucast x OR push_bit 8 (ucast y)" for x y
    unfolding bytesToU16_def by (simp, rule disjunctive_add) (auto simp: bit_simps)
  show "[ucast (bytesToU16 [a, b]), ucast (drop_bit 8 (bytesToU16 [a, b]))] = [a, b]"
    by (auto simp: or bit_eq_iff bit_simps)
  show "bytesToU16 [ucast w, ucast (drop_bit 8 w)] = w"
    by (auto simp: or bit_eq_iff bit_simps)
qed

lemma hdr_bytes_hdr_of: "4 \<le> length b \<Longrightarrow> hdr_bytes (hdr_of b) = take 4 b"
proof -
  assume "4 \<le> length b"
  then obtain x y z w rest where b: "b = x # y # z # w # rest"
    by (auto simp: numeral_eq_Suc Suc_le_length_iff)
  show ?thesis
    using bytesToU16_bytes by (simp add: b hdr_bytes_def hdr_of_def)
qed

lemma hdr_of_hdr_bytes [simp]: "hdr_of (hdr_bytes h @ rest) = h"
  using bytesToU16_word by (simp add: hdr_bytes_def hdr_of_def)

lemma length_hdr_bytes [simp]: "length (hdr_bytes h) = 4"
  by (simp add: hdr_bytes_def)

lemma parse_node_hdr: "parse_node h d = Inr p \<Longrightarrow> dpp_hdr p = h"
  by (auto simp: parse_node_def ParseDppHwPci_def ParseDppAcpiDevPath_def ParseDppAcpiExDevPath_def
      ParseDppMsgATAPI_def ParseDppMsgMAC_def ParseDppMediaHdd_def ParseDppMediaFilePath_def
      ParseDppMediaPIWGFV_def ParseDppMediaPIWGFF_def Let_def split: if_splits option.splits sum.splits)

text \<open>A node and the bytes it was parsed from.\<close>

definition node_from :: "Dpp \<Rightarrow> bytes \<Rightarrow> bool" where
  "node_from p raw \<longleftrightarrow> raw = hdr_bytes (dpp_hdr p) @ drop 4 raw \<and> length raw = unat (h_len (dpp_hdr p)) \<and>
     h_type (dpp_hdr p) \<noteq> DppTypeEnd \<and> parse_node (dpp_hdr p) (drop 4 raw) = Inr p"

definition end_node :: "bytes \<Rightarrow> bool" where
  "end_node raw \<longleftrightarrow> 4 \<le> length raw \<and> h_type (hdr_of raw) = DppTypeEnd \<and> length raw = unat (h_len (hdr_of raw))"

lemma hdr_of_take: "4 \<le> n \<Longrightarrow> hdr_of (take n b) = hdr_of b"
  by (simp add: hdr_of_def)

lemma parse_nodes_sound:
  assumes "parse_nodes b acc = Inr (ps, rest)"
  shows "\<exists>new raws raw_end. ps = acc @ new \<and> list_all2 node_from new raws \<and> end_node raw_end \<and>
    b = concat raws @ raw_end @ rest"
  using assms
proof (induction b acc rule: parse_nodes.induct)
  case (1 b acc)
  define h where "h = hdr_of b"
  define n where "n = unat (h_len h)"
  have ok: "4 \<le> length b" "4 \<le> n" "n \<le> length b"
    using "1.prems" by (auto simp: parse_nodes.simps [of b acc] Let_def h_def n_def split: if_splits)
  show ?case
  proof (cases "h_type h = DppTypeEnd")
    case True
    then have "ps = acc" "rest = drop n b"
      using "1.prems" ok by (auto simp: parse_nodes.simps [of b acc] Let_def h_def n_def)
    moreover have "end_node (take n b)"
      using True ok by (simp add: end_node_def hdr_of_take h_def n_def)
    ultimately show ?thesis
      by (intro exI [of _ "[]"] exI [of _ "take n b"]) auto
  next
    case False
    then obtain p where p: "parse_node h (drop 4 (take n b)) = Inr p"
      and rec: "parse_nodes (drop n b) (acc @ [p]) = Inr (ps, rest)"
      using "1.prems" ok by (auto simp: parse_nodes.simps [of b acc] Let_def h_def n_def split: sum.splits)
    have "\<exists>new raws raw_end. ps = (acc @ [p]) @ new \<and> list_all2 node_from new raws \<and> end_node raw_end \<and>
        drop n b = concat raws @ raw_end @ rest"
      using "1.IH" [OF _ h_def n_def _ _ _ p rec] ok False by simp
    then obtain new raws raw_end where IH: "ps = (acc @ [p]) @ new" "list_all2 node_from new raws"
      "end_node raw_end" "drop n b = concat raws @ raw_end @ rest"
      by blast
    have hdr: "dpp_hdr p = h" using p by (rule parse_node_hdr)
    have "take 4 b @ drop 4 (take n b) = take n b"
      using ok by (metis append_take_drop_id min_absorb1 take_take)
    then have "node_from p (take n b)"
      using ok False p hdr_bytes_hdr_of [OF ok(1)] by (simp add: node_from_def hdr h_def [symmetric] n_def)
    moreover have "b = concat (take n b # raws) @ raw_end @ rest"
      using IH(4) by simp (metis append_take_drop_id)
    ultimately show ?thesis
      using IH by (intro exI [of _ "p # new"] exI [of _ "take n b # raws"] exI [of _ raw_end]) auto
  qed
qed

section \<open>Serialising nodes\<close>

text \<open>The wire form of a node's fields, as the UEFI specification lays it out; the parser has no
  counterpart in the code.\<close>

fun dpp_data :: "Dpp \<Rightarrow> bytes" where
  "dpp_data (DppHwPci h f d) = [f, d]"
| "dpp_data (DppAcpiDevPath h hid uid) = hid @ uid"
| "dpp_data (DppAcpiExDevPath h hid uid cid hs us cs) = hid @ uid @ cid @ hs @ 0 # us @ 0 # cs @ [0]"
| "dpp_data (DppMsgATAPI h pri mas lun) = (if pri then 0 else 1) # (if mas then 0 else 1) # le_bytes 2 lun"
| "dpp_data (DppMsgMAC h mac ift) = mac @ [ift]"
| "dpp_data (DppMediaHDD h n st sz sig fmt sty) = le_bytes 4 n @ le_bytes 8 st @ le_bytes 8 sz @ sig @ [fmt, sty]"
| "dpp_data (DppMediaFilePath h p) = concat (map (\<lambda>c. [if c = 0x2f then 0x5c else c, 0]) (p @ [0]))"
| "dpp_data (DppMediaPIWGFV h fv) = fv"
| "dpp_data (DppMediaPIWGFF h ff) = ff"
| "dpp_data (EfiDevPathRaw h r) = r"

definition no_nul :: "bytes \<Rightarrow> bool" where
  "no_nul s \<longleftrightarrow> 0 \<notin> set s"

fun dpp_fields_ok :: "Dpp \<Rightarrow> bool" where
  "dpp_fields_ok (DppHwPci h f d) \<longleftrightarrow> h_type h = DppTypeHw \<and> h_sub h = DppHTypePCI"
| "dpp_fields_ok (DppAcpiDevPath h hid uid) \<longleftrightarrow> h_type h = DppTypeACPI \<and> h_sub h = DppAcpiTypeDevPath \<and>
     length hid = 4 \<and> length uid = 4"
| "dpp_fields_ok (DppAcpiExDevPath h hid uid cid hs us cs) \<longleftrightarrow> h_type h = DppTypeACPI \<and>
     h_sub h = DppAcpiTypeExpandedDevPath \<and> length hid = 4 \<and> length uid = 4 \<and> length cid = 4 \<and>
     no_nul hs \<and> no_nul us \<and> no_nul cs"
| "dpp_fields_ok (DppMsgATAPI h pri mas lun) \<longleftrightarrow> h_type h = DppTypeMessaging \<and> h_sub h = DppMsgTypeATAPI"
| "dpp_fields_ok (DppMsgMAC h mac ift) \<longleftrightarrow> h_type h = DppTypeMessaging \<and> h_sub h = DppMsgTypeMAC \<and> length mac = 32"
| "dpp_fields_ok (DppMediaHDD h n st sz sig fmt sty) \<longleftrightarrow> h_type h = DppTypeMedia \<and> h_sub h = DppMTypeHdd \<and> length sig = 16"
| "dpp_fields_ok (DppMediaFilePath h p) \<longleftrightarrow> h_type h = DppTypeMedia \<and> h_sub h = DppMTypeFilePath \<and>
     (\<forall>c \<in> set p. 0 < c \<and> c < 0x80 \<and> c \<noteq> 0x5c)"
| "dpp_fields_ok (DppMediaPIWGFV h fv) \<longleftrightarrow> h_type h = DppTypeMedia \<and> h_sub h = DppMTypePIWGFV \<and> length fv = 16"
| "dpp_fields_ok (DppMediaPIWGFF h ff) \<longleftrightarrow> h_type h = DppTypeMedia \<and> h_sub h = DppMTypePIWGFF \<and> length ff = 16"
| "dpp_fields_ok (EfiDevPathRaw h r) \<longleftrightarrow> h_type h \<notin> {DppTypeHw, DppTypeACPI, DppTypeMessaging, DppTypeMedia, DppTypeEnd}"

definition dpp_ok :: "Dpp \<Rightarrow> bool" where
  "dpp_ok p \<longleftrightarrow> dpp_fields_ok p \<and> unat (h_len (dpp_hdr p)) = 4 + length (dpp_data p)"

definition dpp_bytes :: "Dpp \<Rightarrow> bytes" where
  "dpp_bytes p = hdr_bytes (dpp_hdr p) @ dpp_data p"

definition end_bytes :: bytes where
  "end_bytes = [DppTypeEnd, DppETypeEndEntire, 4, 0]"

lemma readToNull_at: "no_nul s \<Longrightarrow> readToNull (s @ 0 # rest) = Inr s"
proof -
  assume "no_nul s"
  then have "takeWhile (\<lambda>c. c \<noteq> 0) (s @ 0 # rest) = s"
    by (induction s) (auto simp: no_nul_def)
  then show ?thesis by (simp add: readToNull_def)
qed

lemma decode_ascii_char:
  assumes "c < 0x80"
  shows "encode_rune (decode_unit (bytesToU16 [c, 0])) = [c]"
proof -
  have w: "bytesToU16 [c, 0] = ucast c"
    by (simp add: bytesToU16_def)
  have n: "unat (ucast c :: u16) = unat c"
    by (simp add: unat_u8_u16)
  have c: "unat c < 0x80"
    using assms by (simp add: word_less_nat_alt)
  then have "decode_unit (ucast c) = ucast c"
    by (simp add: decode_unit_def word_le_nat_alt n)
  moreover have "(ucast c :: u16) < 0x80"
    using c by (simp add: word_less_nat_alt n)
  moreover have "ucast (ucast c :: u16) = c"
    by (auto simp: bit_eq_iff bit_simps)
  ultimately show ?thesis
    by (simp add: w encode_rune_def)
qed

lemma decode_ascii:
  "\<forall>c \<in> set p. c < 0x80 \<Longrightarrow> decode_units (concat (map (\<lambda>c. [c, 0]) p)) = p"
  by (induction p) (simp_all add: decode_ascii_char)

lemma fix_path:
  assumes "\<forall>c \<in> set p. 0 < c \<and> c < 0x80 \<and> c \<noteq> 0x5c"
  shows "DecodeUTF16 (dpp_data (DppMediaFilePath h p)) = Inr (map (\<lambda>c. if c = 0x2f then 0x5c else c) p @ [0])"
    and "fix_slashes (trim_nul (map (\<lambda>c. if c = 0x2f then 0x5c else c) p @ [0])) = p"
proof -
  let ?q = "map (\<lambda>c. if c = 0x2f then 0x5c else c) p @ [0]"
  have eq: "dpp_data (DppMediaFilePath h p) = concat (map (\<lambda>c. [c, 0]) ?q)"
    by (simp add: comp_def)
  have even: "length (concat (map (\<lambda>c. [c, 0 :: u8]) xs)) mod 2 = 0" for xs
    by (induction xs) auto
  have "\<forall>c \<in> set ?q. c < 0x80"
    using assms by auto
  then show "DecodeUTF16 (dpp_data (DppMediaFilePath h p)) = Inr ?q"
    unfolding eq DecodeUTF16_def by (simp only: decode_ascii even) simp
  have "map (\<lambda>c. if (if c = 0x2f then 0x5c else c) = 0x5c then 0x2f else (if c = 0x2f then 0x5c else c)) p = p"
    using assms by (intro map_idI) auto
  then show "fix_slashes (trim_nul ?q) = p"
    by (simp add: fix_slashes_def trim_nul_def comp_def)
qed

lemma parse_AcpiEx:
  assumes "dpp_ok (DppAcpiExDevPath h hid uid cid hs us cs)"
  shows "ParseDppAcpiExDevPath h (dpp_data (DppAcpiExDevPath h hid uid cid hs us cs)) =
    Inr (DppAcpiExDevPath h hid uid cid hs us cs)"
proof -
  let ?d = "dpp_data (DppAcpiExDevPath h hid uid cid hs us cs)"
  have len: "\<not> h_len h < 19" "length hid = 4" "length uid = 4" "length cid = 4"
    using assms by (auto simp: dpp_ok_def word_less_nat_alt)
  have slices: "slice 0 4 ?d = Some hid" "slice 4 8 ?d = Some uid" "slice 8 12 ?d = Some cid"
    using len by (simp_all add: slice_def)
  have d12: "drop 12 ?d = hs @ 0 # us @ 0 # cs @ [0]"
    using len by simp
  have nul: "no_nul hs" "no_nul us" "no_nul cs"
    using assms by (auto simp: dpp_ok_def)
  show ?thesis
    unfolding ParseDppAcpiExDevPath_def slices d12
    using len(1) by (simp add: readToNull_at [OF nul(1)] readToNull_at [OF nul(2)] readToNull_at [OF nul(3)])
qed

lemma parse_HDD:
  assumes "length sig = 16"
  shows "ParseDppMediaHdd h (dpp_data (DppMediaHDD h n st sz sig fmt sty)) = Inr (DppMediaHDD h n st sz sig fmt sty)"
proof -
  have nth: "(xs @ [x, y]) ! 36 = x \<and> (xs @ [x, y]) ! 37 = y" if "length xs = 36" for xs :: bytes and x y
    using that by (simp add: nth_append)
  have "(le_bytes 4 n @ le_bytes 8 st @ le_bytes 8 sz @ sig @ [fmt, sty]) ! 36 = fmt"
    "(le_bytes 4 n @ le_bytes 8 st @ le_bytes 8 sz @ sig @ [fmt, sty]) ! 37 = sty"
    using nth [of "le_bytes 4 n @ le_bytes 8 st @ le_bytes 8 sz @ sig" fmt sty] assms by simp_all
  then show ?thesis
    using assms by (simp add: ParseDppMediaHdd_def le_val_le_bytes del: le_bytes.simps)
qed

text \<open>The dispatch, one lemma per kind of node.\<close>

lemma parse_node_dispatch:
  "h_type h = DppTypeHw \<Longrightarrow> h_sub h = DppHTypePCI \<Longrightarrow> parse_node h d = ParseDppHwPci h d"
  "h_type h = DppTypeACPI \<Longrightarrow> h_sub h = DppAcpiTypeDevPath \<Longrightarrow> parse_node h d = ParseDppAcpiDevPath h d"
  "h_type h = DppTypeACPI \<Longrightarrow> h_sub h = DppAcpiTypeExpandedDevPath \<Longrightarrow> parse_node h d = ParseDppAcpiExDevPath h d"
  "h_type h = DppTypeMessaging \<Longrightarrow> h_sub h = DppMsgTypeATAPI \<Longrightarrow> parse_node h d = ParseDppMsgATAPI h d"
  "h_type h = DppTypeMessaging \<Longrightarrow> h_sub h = DppMsgTypeMAC \<Longrightarrow> parse_node h d = ParseDppMsgMAC h d"
  "h_type h = DppTypeMedia \<Longrightarrow> h_sub h = DppMTypeHdd \<Longrightarrow> parse_node h d = ParseDppMediaHdd h d"
  "h_type h = DppTypeMedia \<Longrightarrow> h_sub h = DppMTypeFilePath \<Longrightarrow> parse_node h d = ParseDppMediaFilePath h d"
  "h_type h = DppTypeMedia \<Longrightarrow> h_sub h = DppMTypePIWGFV \<Longrightarrow> parse_node h d = ParseDppMediaPIWGFV h d"
  "h_type h = DppTypeMedia \<Longrightarrow> h_sub h = DppMTypePIWGFF \<Longrightarrow> parse_node h d = ParseDppMediaPIWGFF h d"
  "h_type h \<notin> {DppTypeHw, DppTypeACPI, DppTypeMessaging, DppTypeMedia, DppTypeEnd} \<Longrightarrow> parse_node h d = Inr (EfiDevPathRaw h d)"
  by (simp_all add: parse_node_def dpp_types)

lemma h_len_eq: "unat (h_len h) = n \<Longrightarrow> h_len h = word_of_nat n"
  by (drule sym) simp

lemma parse_node_dpp:
  assumes "dpp_ok p"
  shows "parse_node (dpp_hdr p) (dpp_data p) = Inr p"
proof (cases p)
  case (DppHwPci h f d)
  with assms show ?thesis
    by (simp add: dpp_ok_def parse_node_dispatch(1) ParseDppHwPci_def)
next
  case (DppAcpiDevPath h hid uid)
  with assms have "h_len h = 12" "slice 0 4 (dpp_data p) = Some hid" "slice 4 8 (dpp_data p) = Some uid"
    using h_len_eq [of h 12] by (simp_all add: dpp_ok_def slice_def)
  with DppAcpiDevPath assms show ?thesis
    by (simp add: dpp_ok_def parse_node_dispatch(2) ParseDppAcpiDevPath_def)
next
  case (DppAcpiExDevPath h hid uid cid hs us cs)
  with parse_AcpiEx assms show ?thesis
    by (simp add: parse_node_dispatch(3) dpp_ok_def del: dpp_data.simps)
next
  case (DppMsgATAPI h pri mas lun)
  with assms have "h_len h = 8" "slice 2 4 (dpp_data p) = Some (le_bytes 2 lun)"
    using h_len_eq [of h 8] by (simp_all add: dpp_ok_def slice_def del: le_bytes.simps)
  with DppMsgATAPI assms show ?thesis
    by (simp add: dpp_ok_def parse_node_dispatch(4) ParseDppMsgATAPI_def le_val_le_bytes del: le_bytes.simps)
next
  case (DppMsgMAC h mac ift)
  with assms have "h_len h = 37" "length mac = 32"
    using h_len_eq [of h 37] by (simp_all add: dpp_ok_def)
  with DppMsgMAC assms show ?thesis
    by (simp add: dpp_ok_def parse_node_dispatch(5) ParseDppMsgMAC_def nth_append)
next
  case (DppMediaHDD h n st sz sig fmt sty)
  with parse_HDD assms show ?thesis
    by (simp add: parse_node_dispatch(6) dpp_ok_def del: dpp_data.simps)
next
  case (DppMediaFilePath h path)
  then have len: "unat (h_len h - 4) = length (dpp_data p)" "unat (h_len h) = 4 + length (dpp_data p)"
    using assms unat_sub [of 4 "h_len h"] by (auto simp: dpp_ok_def word_le_nat_alt simp del: dpp_data.simps)
  then have "ParseDppMediaFilePath h (dpp_data p) = Inr p"
    using assms fix_path(1) [of path h] fix_path(2) [of path] DppMediaFilePath
    by (simp add: ParseDppMediaFilePath_def slice_def dpp_ok_def del: dpp_data.simps)
  then show ?thesis
    using DppMediaFilePath assms by (simp add: parse_node_dispatch(7) dpp_ok_def del: dpp_data.simps)
next
  case (DppMediaPIWGFV h fv)
  with assms have "h_len h = 20"
    using h_len_eq [of h 20] by (simp add: dpp_ok_def)
  with DppMediaPIWGFV assms show ?thesis
    by (simp add: dpp_ok_def parse_node_dispatch(8) ParseDppMediaPIWGFV_def)
next
  case (DppMediaPIWGFF h ff)
  with assms have "h_len h = 20"
    using h_len_eq [of h 20] by (simp add: dpp_ok_def)
  with DppMediaPIWGFF assms show ?thesis
    by (simp add: dpp_ok_def parse_node_dispatch(9) ParseDppMediaPIWGFF_def)
next
  case (EfiDevPathRaw h r)
  with assms show ?thesis
    by (simp add: dpp_ok_def parse_node_dispatch(10))
qed

lemma parse_nodes_step:
  assumes "dpp_ok p"
  shows "parse_nodes (dpp_bytes p @ rest) acc = parse_nodes rest (acc @ [p])"
proof -
  have len: "unat (h_len (dpp_hdr p)) = length (dpp_bytes p)" "4 \<le> length (dpp_bytes p)"
    using assms by (simp_all add: dpp_ok_def dpp_bytes_def)
  have "h_type (dpp_hdr p) \<noteq> DppTypeEnd"
    using assms by (cases p) (auto simp: dpp_ok_def dpp_types)
  moreover have "hdr_of (dpp_bytes p @ rest) = dpp_hdr p"
    by (simp add: dpp_bytes_def)
  ultimately show ?thesis
    using len parse_node_dpp [OF assms]
    by (subst parse_nodes.simps) (simp add: Let_def, simp add: dpp_bytes_def)
qed

lemma parse_nodes_end: "parse_nodes end_bytes acc = Inr (acc, [])"
  unfolding end_bytes_def
  by (subst parse_nodes.simps) (simp add: hdr_of_def bytesToU16_def Let_def dpp_types)

lemma parse_nodes_complete:
  "\<forall>p \<in> set ps. dpp_ok p \<Longrightarrow> parse_nodes (concat (map dpp_bytes ps) @ end_bytes) acc = Inr (acc @ ps, [])"
  by (induction ps arbitrary: acc) (simp_all add: parse_nodes_end parse_nodes_step)

section \<open>Properties\<close>

text \<open>C27: the parser never panics, whatever the firmware variable holds, and what it accepts it has
  accounted for to the last byte: the input is the concatenation of one stretch per returned node
  (the node's header followed by the data it was parsed from, as long as the header says) and one
  end node.\<close>

theorem ParseFilePathList_sound:
  "ParseFilePathList b \<noteq> Inl UPanic \<and>
   (\<forall>ps. ParseFilePathList b = Inr ps \<longrightarrow>
      (\<exists>raws raw_end. list_all2 node_from ps raws \<and> end_node raw_end \<and> b = concat raws @ raw_end))"
proof (intro conjI allI impI)
  show "ParseFilePathList b \<noteq> Inl UPanic"
    using parse_nodes_not_panic [of b "[]"] by (auto simp: ParseFilePathList_def split: sum.splits)
  fix ps assume "ParseFilePathList b = Inr ps"
  then have "parse_nodes b [] = Inr (ps, [])"
    by (auto simp: ParseFilePathList_def split: sum.splits if_splits)
  from parse_nodes_sound [OF this]
  show "\<exists>raws raw_end. list_all2 node_from ps raws \<and> end_node raw_end \<and> b = concat raws @ raw_end"
    by auto
qed

text \<open>C28: device paths of nodes whose fields are in range are read back exactly: parsing the bytes the UEFI
  specification prescribes for the nodes, closed by an end node, returns those nodes with all their fields.
  The nodes are those of the types the code knows, with the length their fields have, in file paths ASCII
  text without zero bytes and without backslashes, which are read as slashes, in ACPI nodes text without
  zero bytes, and nodes of a type the code does not know with any content (\<open>dpp_ok\<close>).\<close>

theorem ParseFilePathList_reads_back:
  assumes "\<forall>p \<in> set ps. dpp_ok p"
  shows "ParseFilePathList (concat (map dpp_bytes ps) @ end_bytes) = Inr ps"
  using parse_nodes_complete [OF assms, of "[]"] by (simp add: ParseFilePathList_def)

lemma ParseFilePathList_reads_back_witness:
  "ParseFilePathList [1, 1, 6, 0, 0, 5, 4, 4, 10, 0, 0x5c, 0, 0x41, 0, 0, 0, 0x7f, 0xff, 4, 0] =
    Inr [DppHwPci \<lparr>h_type = 1, h_sub = 1, h_len = 6\<rparr> 0 5,
         DppMediaFilePath \<lparr>h_type = 4, h_sub = 4, h_len = 10\<rparr> [0x2f, 0x41]]"
  using ParseFilePathList_reads_back [of "[DppHwPci \<lparr>h_type = 1, h_sub = 1, h_len = 6\<rparr> 0 5,
         DppMediaFilePath \<lparr>h_type = 4, h_sub = 4, h_len = 10\<rparr> [0x2f, 0x41]]"]
  by (simp add: dpp_ok_def dpp_types dpp_bytes_def hdr_bytes_def end_bytes_def)

lemma ParseFilePathList_sound_witness:
  "ParseFilePathList [0x7f, 0xff, 4, 0, 9] = Inl EParse \<and>
   (\<exists>raws raw_end. list_all2 node_from [] raws \<and> end_node raw_end \<and> end_bytes = concat raws @ raw_end)"
proof -
  have "ParseFilePathList end_bytes = Inr []"
    by (simp add: ParseFilePathList_def parse_nodes_end)
  with ParseFilePathList_sound [of end_bytes] show ?thesis
    by (simp add: ParseFilePathList_def parse_nodes.simps hdr_of_def bytesToU16_def dpp_types)
qed

text \<open>A character outside the basic plane, stored as a surrogate pair, is decoded to two replacement
  characters, because each code unit is decoded on its own.\<close>

lemma DecodeUTF16_splits_surrogates:
  "DecodeUTF16 [0x34, 0xd8, 0x1e, 0xdd] = Inr (encode_rune 0xfffd @ encode_rune 0xfffd)"
  by (simp add: DecodeUTF16_def bytesToU16_def decode_unit_def)

end
