(* ===== verification/Strs.thy ===== *)
theory Strs
  imports Prelude
begin

text \<open>
  The product's strings: \<open>pkg/common/strs\<close>.  The package holds one optional implementation of the
  interface \<open>Stringer\<close> and answers from it, or with defaults.  The implementation is a record of its
  answers; the package variable \<open>stringImpl\<close> is an argument.
\<close>

record Stringer =
  st_ConfDir :: string
  st_EnvPrefix :: string
  st_RecVolName :: string
  st_PriVolName :: string
  st_HostPrefix :: string
  st_FlagFile :: string
  st_BootKernel :: string
  st_MfgKernel :: string
  st_ImgPrefix :: string
  st_MacOUI :: string
  st_MacOUIBytes :: bytes
  st_EmergPfx :: string
  st_RecoveryLogDir :: string

definition default_strings :: Stringer where
  "default_strings =
     \<lparr>st_ConfDir = ''/etc/provisioning'', st_EnvPrefix = ''PROVISION_'', st_RecVolName = ''RECOVERY'',
      st_PriVolName = ''PRIMARY'', st_HostPrefix = ''gp-'', st_FlagFile = ''boot.normal'',
      st_BootKernel = ''norm_boot'', st_MfgKernel = ''provision.pxe'', st_ImgPrefix = ''WIDGET.LNX.SHINY.'',
      st_MacOUI = ''56:78:90'', st_MacOUIBytes = [0x56, 0x78, 0x90], st_EmergPfx = ''EmergencyFile_'',
      st_RecoveryLogDir = ''log''\<rparr>"

definition strs_of :: "Stringer option \<Rightarrow> Stringer" where
  "strs_of impl = (case impl of Some s \<Rightarrow> s | None \<Rightarrow> default_strings)"

definition IntegEnv :: "Stringer option \<Rightarrow> string" where
  "IntegEnv i = st_EnvPrefix (strs_of i) @ ''INTEG_TEST''"

definition VerboseEnv :: "Stringer option \<Rightarrow> string" where
  "VerboseEnv i = st_EnvPrefix (strs_of i) @ ''VERBOSE''"

definition LogEnv :: "Stringer option \<Rightarrow> string" where
  "LogEnv i = st_EnvPrefix (strs_of i) @ ''XLOG''"

definition ContinueLoggingEnv :: "Stringer option \<Rightarrow> string" where
  "ContinueLoggingEnv i = st_EnvPrefix (strs_of i) @ ''CONT_LOGGING''"

definition CoreEnv :: "Stringer option \<Rightarrow> string" where
  "CoreEnv i = st_EnvPrefix (strs_of i) @ ''TRACE_ROOT''"

definition MfgTestEnv :: "Stringer option \<Rightarrow> string" where
  "MfgTestEnv i = st_EnvPrefix (strs_of i) @ ''MFG_TEST''"

definition EraseEnv :: string where "EraseEnv = ''DATA_ERASE''"
definition NoRebootEnv :: string where "NoRebootEnv = ''NO_REBOOT''"

text \<open>\<open>filepath.Ext\<close>: from the last dot of the last path element, and \<open>strings.TrimSuffix\<close>.\<close>

definition path_ext :: "string \<Rightarrow> string" where
  "path_ext s =
     (let base = rev (takeWhile (\<lambda>c. c \<noteq> CHR ''/'') (rev s))
      in case last_index CHR ''.'' base of None \<Rightarrow> [] | Some i \<Rightarrow> drop i base)"

definition trim_suffix :: "'a list \<Rightarrow> 'a list \<Rightarrow> 'a list" where
  "trim_suffix suf s =
     (if length suf \<le> length s \<and> drop (length s - length suf) s = suf
      then take (length s - length suf) s else s)"

definition MfgLogPfx :: "Stringer option \<Rightarrow> string" where
  "MfgLogPfx i = trim_suffix (path_ext (st_MfgKernel (strs_of i))) (st_MfgKernel (strs_of i))"

definition FRLogPfx :: string where "FRLogPfx = ''recov''"

end
