(* ===== verification/UefiVars.thy ===== *)
theory UefiVars
  imports UefiPath Strs
begin

text \<open>
  UEFI variables and boot entries: \<open>pkg/hw/uefi/vars.go\<close> and \<open>boot.go\<close>.  Reading the variables
  from \<open>/sys\<close> and running \<open>efibootmgr\<close> are outside: the variables are a list and the program is the
  parameter \<open>efibootmgr\<close>.  A panic is \<open>None\<close>.
\<close>

section \<open>Variables\<close>

record EfiVar =
  v_uuid :: string
  v_name :: string
  v_data :: bytes

definition bootUuid :: string where
  "bootUuid = ''8be4df61-93ca-11d2-aa0d-00e098032b8c''"

text \<open>\<open>strconv.ParseUint(s, 16, 16)\<close>; the value that comes with a range error is the largest one.\<close>

definition hex_value :: "char \<Rightarrow> nat option" where
  "hex_value c =
     (let n = of_char c :: nat
      in if 48 \<le> n \<and> n \<le> 57 then Some (n - 48)
         else if 97 \<le> n \<and> n \<le> 102 then Some (n - 87)
         else if 65 \<le> n \<and> n \<le> 70 then Some (n - 55) else None)"

fun hex_digits :: "nat \<Rightarrow> string \<Rightarrow> nat option" where
  "hex_digits acc [] = Some acc"
| "hex_digits acc (c # cs) =
     (case hex_value c of None \<Rightarrow> None | Some d \<Rightarrow> hex_digits (16 * acc + d) cs)"

definition ParseUint16 :: "string \<Rightarrow> u16 \<times> bool" where
  "ParseUint16 s =
     (if s = [] then (0, False)
      else case hex_digits 0 s of
             None \<Rightarrow> (0, False)
           | Some n \<Rightarrow> if n < 65536 then (word_of_nat n, True) else (0xffff, False))"

definition starts_with :: "'a list \<Rightarrow> 'a list \<Rightarrow> bool" where
  "starts_with p s \<longleftrightarrow> take (length p) s = p"

definition BootVarFilter :: "string \<Rightarrow> string \<Rightarrow> bool" where
  "BootVarFilter uuid name \<longleftrightarrow> uuid = bootUuid \<and> starts_with ''Boot'' name"

definition BootEntryFilter :: "string \<Rightarrow> string \<Rightarrow> bool" where
  "BootEntryFilter uuid name \<longleftrightarrow>
     BootVarFilter uuid name \<and> length name = 8 \<and> snd (ParseUint16 (drop 4 name))"

definition NotFilter :: "(string \<Rightarrow> string \<Rightarrow> bool) \<Rightarrow> string \<Rightarrow> string \<Rightarrow> bool" where
  "NotFilter f u n \<longleftrightarrow> \<not> f u n"

definition AndFilter :: "(string \<Rightarrow> string \<Rightarrow> bool) list \<Rightarrow> string \<Rightarrow> string \<Rightarrow> bool" where
  "AndFilter fs u n \<longleftrightarrow> list_all (\<lambda>f. f u n) fs"

definition Filter_vars :: "(string \<Rightarrow> string \<Rightarrow> bool) \<Rightarrow> EfiVar list \<Rightarrow> EfiVar list" where
  "Filter_vars f vars = filter (\<lambda>v. f (v_uuid v) (v_name v)) vars"

definition IsBootEntry :: "EfiVar \<Rightarrow> bool" where
  "IsBootEntry e \<longleftrightarrow> v_uuid e = bootUuid \<and> length (v_name e) = 8 \<and> take 4 (v_name e) = ''Boot'' \<and>
     snd (ParseUint16 (drop 4 (v_name e)))"

text \<open>\<open>BootCurrent\<close>: the outer \<open>None\<close> is a panic on short data, the inner one no such variable.\<close>

fun BootCurrent :: "EfiVar list \<Rightarrow> u16 option option" where
  "BootCurrent [] = Some None"
| "BootCurrent (v # vs) =
     (if v_name v = ''BootCurrent'' then
        (if length (v_data v) < 2 then None
         else Some (Some (push_bit 8 (ucast (v_data v ! 1)) OR ucast (v_data v ! 0))))
      else BootCurrent vs)"

section \<open>Boot entries\<close>

record BootEntryVar =
  b_Number :: u16
  b_Attributes :: u32
  b_FilePathListLength :: u16
  b_Description :: bytes
  b_FilePathList :: "Dpp list"
  b_OptionalData :: bytes

text \<open>The loop that looks for the end of the description, from offset \<open>i\<close> in steps of two.\<close>

partial_function (option) find_nul :: "bytes \<Rightarrow> u16 \<Rightarrow> u16 option" where
  "find_nul d i =
     (if unat i \<ge> length d then None
      else if d ! unat i = 0 then Some i
      else find_nul d (i + 2))"

definition BootVar :: "EfiVar \<Rightarrow> BootEntryVar option" where
  "BootVar v =
     (let d = v_data v
      in if length (v_name v) < 4 \<or> length d < 6 then None
         else let fpl = le_val (take 2 (drop 4 d)) :: u16
              in case find_nul d 6 of
                   None \<Rightarrow> None
                 | Some i \<Rightarrow>
                     (case (slice 6 (unat i) d,
                            slice (unat (i + 2 + fpl)) (length d) d,
                            slice (unat (i + 2)) (unat (i + 2 + fpl)) d) of
                        (Some desc, Some opts, Some fp) \<Rightarrow>
                          Some \<lparr>b_Number = fst (ParseUint16 (drop 4 (v_name v))),
                                b_Attributes = le_val (take 4 d), b_FilePathListLength = fpl,
                                b_Description = (case DecodeUTF16 desc of Inl _ \<Rightarrow> [] | Inr s \<Rightarrow> s),
                                b_FilePathList = (case ParseFilePathList fp of Inl _ \<Rightarrow> [] | Inr l \<Rightarrow> l),
                                b_OptionalData = opts\<rparr>
                      | _ \<Rightarrow> None))"

fun BootEntries :: "EfiVar list \<Rightarrow> BootEntryVar list option" where
  "BootEntries [] = Some []"
| "BootEntries (v # vs) =
     (if IsBootEntry v then
        (case BootVar v of
           None \<Rightarrow> None
         | Some b \<Rightarrow> map_option (\<lambda>bs. b # bs) (BootEntries vs))
      else BootEntries vs)"

section \<open>The entries this program keeps\<close>

definition BootLabelFR :: string where "BootLabelFR = ''Forced Factory Restore''"
definition BootLabelNorm :: string where "BootLabelNorm = ''Normal Boot''"
definition BootLabelErase :: string where "BootLabelErase = ''Data Erase (DANGER!)''"

definition IsOurs :: "BootEntryVar \<Rightarrow> bool" where
  "IsOurs b \<longleftrightarrow> b_Description b \<in> {ascii BootLabelFR, ascii BootLabelNorm, ascii BootLabelErase}"

definition Ours :: "BootEntryVar list \<Rightarrow> BootEntryVar list" where
  "Ours es = filter IsOurs es"

definition CheckMissing :: "BootEntryVar list \<Rightarrow> bool \<times> bool \<times> bool" where
  "CheckMissing es =
     foldl (\<lambda>(n, f, e) b.
        if b_Description b = ascii BootLabelFR then (n, True, e)
        else if b_Description b = ascii BootLabelNorm then (True, f, e)
        else if b_Description b = ascii BootLabelErase then (n, f, True)
        else (n, f, e)) (False, False, False) es"

definition OursPresent :: "BootEntryVar list \<Rightarrow> bool" where
  "OursPresent es =
     (let ours = Ours es
      in if length ours \<noteq> 3 then False
         else case CheckMissing ours of (norm, fr, erase) \<Rightarrow> norm \<and> fr \<and> erase)"

record BootEntry =
  e_Device :: string
  e_PartNum :: nat
  e_Label :: string
  e_AbsPath :: string
  e_Args :: string
  e_autoBoot :: bool

text \<open>A run of \<open>efibootmgr\<close>: its arguments, and the file with the boot arguments in UTF-16, low byte
  first, whose name the program passes after \<open>-@\<close>.  The arguments here are ASCII.\<close>

record command =
  c_args :: "string list"
  c_argfile :: "bytes option"

definition utf16_file :: "string \<Rightarrow> bytes" where
  "utf16_file s = concat (map (\<lambda>c. [of_char c, 0]) s)"

definition efi_command :: "BootEntry \<Rightarrow> command" where
  "efi_command b =
     \<lparr>c_args = [if e_autoBoot b then ''-c'' else ''-C'', ''-d'', e_Device b, ''-p'', show_dec (e_PartNum b),
                ''-L'', e_Label b, ''-l'', e_AbsPath b],
      c_argfile = (if e_Args b = [] then None else Some (utf16_file (e_Args b)))\<rparr>"

text \<open>A failing \<open>efibootmgr\<close> is fatal, \<open>None\<close>.\<close>

definition AddBootEntry :: "(command \<Rightarrow> 's \<Rightarrow> 's option) \<Rightarrow> BootEntry \<Rightarrow> 's \<Rightarrow> 's option" where
  "AddBootEntry efibootmgr b s = efibootmgr (efi_command b) s"

definition fixMissing :: "(command \<Rightarrow> 's \<Rightarrow> 's option) \<Rightarrow> Stringer option \<Rightarrow> BootEntry \<Rightarrow>
    bool \<Rightarrow> bool \<Rightarrow> bool \<Rightarrow> string \<Rightarrow> 's \<Rightarrow> 's option" where
  "fixMissing efibootmgr impl base haveNormal haveFR haveErase extra s0 =
     (case (if haveErase then Some s0
            else AddBootEntry efibootmgr (base\<lparr>e_Args := EraseEnv @ ''=1'', e_Label := BootLabelErase\<rparr>) s0) of
        None \<Rightarrow> None
      | Some s1 \<Rightarrow>
          (case (if haveFR then Some s1
                 else AddBootEntry efibootmgr (base\<lparr>e_Label := BootLabelFR\<rparr>) s1) of
             None \<Rightarrow> None
           | Some s2 \<Rightarrow>
               (if haveNormal then Some s2
                else AddBootEntry efibootmgr
                  (base\<lparr>e_Args := e_Args base @ '' real_root=LABEL='' @ st_PriVolName (strs_of impl) @ '' '' @ extra,
                        e_Label := BootLabelNorm, e_autoBoot := True\<rparr>) s2)))"

definition FixMissing where
  "FixMissing efibootmgr impl es base extra s =
     (case CheckMissing es of (n, f, e) \<Rightarrow> fixMissing efibootmgr impl base n f e extra s)"

section \<open>Which entries are there\<close>

lemma labels_distinct [simp]:
  "ascii BootLabelFR \<noteq> ascii BootLabelNorm" "ascii BootLabelFR \<noteq> ascii BootLabelErase"
  "ascii BootLabelNorm \<noteq> ascii BootLabelErase"
  "ascii BootLabelNorm \<noteq> ascii BootLabelFR" "ascii BootLabelErase \<noteq> ascii BootLabelFR"
  "ascii BootLabelErase \<noteq> ascii BootLabelNorm"
  by (simp_all add: ascii_def BootLabelFR_def BootLabelNorm_def BootLabelErase_def)

definition has_label :: "string \<Rightarrow> BootEntryVar list \<Rightarrow> bool" where
  "has_label l es \<longleftrightarrow> (\<exists>b \<in> set es. b_Description b = ascii l)"

lemma has_label_simps [simp]:
  "has_label l [] = False"
  "has_label l (b # es) = (b_Description b = ascii l \<or> has_label l es)"
  by (auto simp: has_label_def)

lemma CheckMissing_labels:
  "CheckMissing es = (has_label BootLabelNorm es, has_label BootLabelFR es, has_label BootLabelErase es)"
proof -
  let ?step = "\<lambda>(n, f, e) b.
        if b_Description b = ascii BootLabelFR then (n, True, e)
        else if b_Description b = ascii BootLabelNorm then (True, f, e)
        else if b_Description b = ascii BootLabelErase then (n, f, True)
        else (n, f, e)"
  have "foldl ?step (n, f, e) es =
      (n \<or> has_label BootLabelNorm es, f \<or> has_label BootLabelFR es, e \<or> has_label BootLabelErase es)" for n f e
    by (induction es arbitrary: n f e) auto
  then show ?thesis by (simp add: CheckMissing_def)
qed

lemma OursPresent_labels:
  "OursPresent es \<longleftrightarrow> length (Ours es) = 3 \<and> has_label BootLabelNorm es \<and> has_label BootLabelFR es \<and>
     has_label BootLabelErase es"
  by (auto simp: OursPresent_def Let_def CheckMissing_labels has_label_def Ours_def IsOurs_def)

section \<open>Reading a load option\<close>

definition utf16_bytes :: "bytes \<Rightarrow> bytes" where
  "utf16_bytes s = concat (map (\<lambda>c. [c, 0]) s)"

lemma length_utf16_bytes [simp]: "length (utf16_bytes s) = 2 * length s"
  by (induction s) (simp_all add: utf16_bytes_def)

lemma DecodeUTF16_utf16_bytes: "\<forall>c \<in> set s. c < 0x80 \<Longrightarrow> DecodeUTF16 (utf16_bytes s) = Inr s"
  using length_utf16_bytes [of s] by (simp add: DecodeUTF16_def) (simp add: utf16_bytes_def decode_ascii)

lemma find_nul_at:
  assumes "\<forall>c \<in> set s. 0 < c" and "length pre + 2 * length s < 65536"
  shows "find_nul (pre @ utf16_bytes s @ 0 # rest) (word_of_nat (length pre)) =
    Some (word_of_nat (length pre + 2 * length s))"
  using assms
proof (induction s arbitrary: pre)
  case Nil
  then show ?case
    by (subst find_nul.simps) (simp add: utf16_bytes_def unat_of_nat nth_append)
next
  case (Cons c s)
  have i: "unat (word_of_nat (length pre) :: u16) = length pre"
    using Cons.prems(2) by (simp add: unat_of_nat)
  have c: "c \<noteq> 0" using Cons.prems(1) by auto
  have "find_nul (pre @ utf16_bytes (c # s) @ 0 # rest) (word_of_nat (length pre)) =
      find_nul ((pre @ [c, 0]) @ utf16_bytes s @ 0 # rest) (word_of_nat (length (pre @ [c, 0])))"
    using c by (subst find_nul.simps) (simp add: i nth_append utf16_bytes_def add.commute)
  also have "\<dots> = Some (word_of_nat (length (pre @ [c, 0]) + 2 * length s))"
    using Cons.prems by (intro Cons.IH) simp_all
  finally show ?case by (simp add: algebra_simps)
qed

section \<open>Properties\<close>

text \<open>C29: a boot entry is read back exactly.  For the load option with any attributes, an ASCII
  description, a device path of nodes the code knows and any optional data, of less than 64 KiB
  before the optional data, \<open>BootVar\<close> does not panic and returns all of these fields, and the number
  from the variable's name.\<close>

theorem BootVar_reads_back:
  fixes attrs :: u32 and desc opts :: bytes and ps :: "Dpp list"
  defines "fp \<equiv> concat (map dpp_bytes ps) @ end_bytes"
  assumes "\<forall>p \<in> set ps. dpp_ok p" and "\<forall>c \<in> set desc. 0 < c \<and> c < 0x80"
    and "8 + 2 * length desc + length fp < 65536" and "IsBootEntry v"
    and "v_data v = le_bytes 4 attrs @ le_bytes 2 (word_of_nat (length fp) :: u16) @ utf16_bytes desc @ [0, 0] @ fp @ opts"
  shows "BootVar v = Some \<lparr>b_Number = fst (ParseUint16 (drop 4 (v_name v))), b_Attributes = attrs,
    b_FilePathListLength = word_of_nat (length fp), b_Description = desc, b_FilePathList = ps,
    b_OptionalData = opts\<rparr>"
proof -
  define n where "n = 6 + 2 * length desc"
  define pre where "pre = le_bytes 4 attrs @ le_bytes 2 (word_of_nat (length fp) :: u16)"
  have pre: "length pre = 6" by (simp add: pre_def)
  have d: "v_data v = pre @ utf16_bytes desc @ 0 # 0 # fp @ opts"
    by (simp add: assms(6) pre_def)
  have i: "find_nul (v_data v) 6 = Some (word_of_nat n)"
    using find_nul_at [of desc pre "0 # fp @ opts"] assms(3,4) by (simp add: d pre n_def)
  have un: "unat (word_of_nat n :: u16) = n" "unat (word_of_nat n + 2 :: u16) = n + 2"
    "unat (word_of_nat n + 2 + word_of_nat (length fp) :: u16) = n + 2 + length fp"
    using assms(4) by (simp_all add: n_def unat_of_nat unat_word_ariths)
  have parse: "ParseFilePathList fp = Inr ps"
    unfolding fp_def ParseFilePathList_def using parse_nodes_complete [OF assms(2), of "[]"] by simp
  have s: "slice 6 n (v_data v) = Some (utf16_bytes desc)"
    "slice (n + 2 + length fp) (length (v_data v)) (v_data v) = Some opts"
    "slice (n + 2) (n + 2 + length fp) (v_data v) = Some fp"
    by (simp_all add: slice_def d n_def pre)
  have fields: "le_val (take 4 (v_data v)) = attrs"
    "le_val (take 2 (drop 4 (v_data v))) = (word_of_nat (length fp) :: u16)"
    by (simp_all add: assms(6) le_val_le_bytes del: le_bytes.simps)
  have long: "(length (v_name v) < 4 \<or> length (v_data v) < 6) = False"
    using assms(5) by (simp add: IsBootEntry_def d pre)
  have desc: "DecodeUTF16 (utf16_bytes desc) = Inr desc"
    using assms(3) by (intro DecodeUTF16_utf16_bytes) blast
  show ?thesis
    unfolding BootVar_def Let_def long if_False fields i option.case un s prod.case desc parse sum.case ..
qed

lemma le_bytes_small:
  "le_bytes 2 w = [ucast w, ucast (drop_bit 8 w)]"
  "le_bytes 4 w = [ucast w, ucast (drop_bit 8 w), ucast (drop_bit 16 w), ucast (drop_bit 24 w)]"
  by (simp_all add: numeral_eq_Suc drop_bit_drop_bit)

lemma BootVar_reads_back_witness:
  "BootVar \<lparr>v_uuid = bootUuid, v_name = ''Boot0007'',
      v_data = [1, 0, 0, 0, 4, 0, 0x55, 0, 0, 0, 0x7f, 0xff, 4, 0, 9]\<rparr> =
   Some \<lparr>b_Number = 7, b_Attributes = 1, b_FilePathListLength = 4, b_Description = [0x55],
     b_FilePathList = [], b_OptionalData = [9]\<rparr>"
  using BootVar_reads_back [of "[]" "[0x55]" "\<lparr>v_uuid = bootUuid, v_name = ''Boot0007'',
      v_data = [1, 0, 0, 0, 4, 0, 0x55, 0, 0, 0, 0x7f, 0xff, 4, 0, 9]\<rparr>" 1 "[9]"]
  by (simp add: IsBootEntry_def ParseUint16_def hex_value_def end_bytes_def dpp_types utf16_bytes_def
      le_bytes_small)

text \<open>The end of the description is looked for in the low bytes only, so a character such as U+0100
  (low byte 0) ends it: of the description ``U+0100, A'' nothing is left, and the bytes after it
  are taken for the device path.\<close>

lemma BootVar_cuts_description:
  "map_option b_Description (BootVar \<lparr>v_uuid = bootUuid, v_name = ''Boot0007'',
      v_data = [1, 0, 0, 0, 4, 0, 0, 1, 0x41, 0, 0, 0, 0x7f, 0xff, 4, 0]\<rparr>) = Some []"
  by (simp add: BootVar_def find_nul.simps slice_def DecodeUTF16_def Let_def split: sum.split)

text \<open>Each missing entry is added, and what is there is kept.\<close>

lemma FixMissing_adds:
  assumes "\<And>b es es'. efibootmgr (efi_command b) es = Some es' \<Longrightarrow>
      set es \<subseteq> set es' \<and> has_label (e_Label b) es'"
    and "FixMissing efibootmgr impl es base extra es = Some es'"
  shows "CheckMissing es' = (True, True, True) \<and> (CheckMissing es = (True, True, True) \<longrightarrow> es' = es)"
proof -
  have keep: "has_label l es1 \<Longrightarrow> AddBootEntry efibootmgr b es1 = Some es2 \<Longrightarrow> has_label l es2"
    and add: "AddBootEntry efibootmgr b es1 = Some es2 \<Longrightarrow> has_label (e_Label b) es2" for l b es1 es2
    using assms(1) by (fastforce simp: AddBootEntry_def has_label_def)+
  have step: "has_label l es2 \<and> (\<forall>l. has_label l es1 \<longrightarrow> has_label l es2)"
    if "(if has_label l es0 then Some es1 else AddBootEntry efibootmgr b es1) = Some es2"
      "has_label l es0 \<longrightarrow> has_label l es1" "e_Label b = l" for l b es0 es1 es2
    using that keep add by (auto split: if_splits)
  obtain s1 s2 where
    erase: "(if has_label BootLabelErase es then Some es else AddBootEntry efibootmgr
       (base\<lparr>e_Args := EraseEnv @ ''=1'', e_Label := BootLabelErase\<rparr>) es) = Some s1" and
    fr: "(if has_label BootLabelFR es then Some s1 else AddBootEntry efibootmgr (base\<lparr>e_Label := BootLabelFR\<rparr>) s1) = Some s2" and
    norm: "(if has_label BootLabelNorm es then Some s2 else AddBootEntry efibootmgr
       (base\<lparr>e_Args := e_Args base @ '' real_root=LABEL='' @ st_PriVolName (strs_of impl) @ '' '' @ extra,
             e_Label := BootLabelNorm, e_autoBoot := True\<rparr>) s2) = Some es'"
    using assms(2) unfolding FixMissing_def CheckMissing_labels fixMissing_def prod.case
    by (auto split: option.splits)
  have 1: "has_label BootLabelErase s1 \<and> (\<forall>l. has_label l es \<longrightarrow> has_label l s1)"
    by (rule step [OF erase]) simp_all
  have 2: "has_label BootLabelFR s2 \<and> (\<forall>l. has_label l s1 \<longrightarrow> has_label l s2)"
    by (rule step [OF fr]) (simp_all add: 1)
  have 3: "has_label BootLabelNorm es' \<and> (\<forall>l. has_label l s2 \<longrightarrow> has_label l es')"
    by (rule step [OF norm]) (simp_all add: 1 2)
  from 1 2 3 have "has_label BootLabelNorm es' \<and> has_label BootLabelFR es' \<and> has_label BootLabelErase es'"
    by blast
  moreover have "CheckMissing es = (True, True, True) \<Longrightarrow> es' = es"
    using assms(2) by (simp add: FixMissing_def fixMissing_def)
  ultimately show ?thesis by (simp add: CheckMissing_labels)
qed

text \<open>Fixing the boot entries makes them complete.  If \<open>efibootmgr\<close> adds an entry with the label
  it is given and keeps the others, then after a successful \<open>FixMissing\<close> none of the three entries
  is missing; and when none was missing before, nothing is changed.\<close>

theorem FixMissing_completes:
  assumes "\<And>b es es'. efibootmgr (efi_command b) es = Some es' \<Longrightarrow>
      set es \<subseteq> set es' \<and> has_label (e_Label b) es'"
    and "FixMissing efibootmgr impl es base extra es = Some es'"
  shows "CheckMissing es' = (True, True, True) \<and> (CheckMissing es = (True, True, True) \<longrightarrow> es' = es)"
  by (rule FixMissing_adds [OF assms])

definition example_efibootmgr :: "command \<Rightarrow> BootEntryVar list \<Rightarrow> BootEntryVar list option" where
  "example_efibootmgr c es =
     Some (\<lparr>b_Number = 0, b_Attributes = 1, b_FilePathListLength = 0, b_Description = ascii (c_args c ! 6),
            b_FilePathList = [], b_OptionalData = []\<rparr> # es)"

lemma FixMissing_completes_witness:
  "\<exists>es'. FixMissing example_efibootmgr None []
      \<lparr>e_Device = ''/dev/sda'', e_PartNum = 1, e_Label = [], e_AbsPath = [], e_Args = [], e_autoBoot = False\<rparr> [] [] = Some es' \<and>
     length es' = 3 \<and> CheckMissing es' = (True, True, True)"
proof -
  let ?b = "\<lparr>e_Device = ''/dev/sda'', e_PartNum = 1, e_Label = [], e_AbsPath = [], e_Args = [], e_autoBoot = False\<rparr>"
  have ex: "example_efibootmgr (efi_command b) es = Some es' \<Longrightarrow> set es \<subseteq> set es' \<and> has_label (e_Label b) es'" for b es es'
    by (auto simp: example_efibootmgr_def efi_command_def)
  obtain es' where es': "FixMissing example_efibootmgr None [] ?b [] [] = Some es'" "length es' = 3"
    by (simp add: FixMissing_def CheckMissing_labels fixMissing_def AddBootEntry_def example_efibootmgr_def)
  from FixMissing_completes [OF ex es'(1)] es' show ?thesis by blast
qed

end
