(* ===== verification/GoStd.thy ===== *)
theory GoStd
  imports Strs
begin

text \<open>
  What the packages use of Go's \<open>strings\<close>, \<open>path\<close> and \<open>path/filepath\<close> (on Unix both agree), and the
  outcome of a function that may panic.  Strings are lists of characters; a Go string is a byte
  sequence, so a character stands for one byte.
\<close>

section \<open>Outcomes\<close>

datatype 'r outcome = Returns 'r | Panics

text \<open>A step that may not return (\<open>None\<close>), may panic, or returns a value, with the state it leaves, and
  what follows it.\<close>

type_synonym ('r, 's) run = "('r outcome \<times> 's) option"

fun and_then :: "('r, 's) run \<Rightarrow> ('r \<Rightarrow> 's \<Rightarrow> ('t, 's) run) \<Rightarrow> ('t, 's) run" where
  "and_then None f = None"
| "and_then (Some (Panics, s)) f = Some (Panics, s)"
| "and_then (Some (Returns r, s)) f = f r s"

text \<open>The outcome of a function that may end the program with a fatal error, or panic.\<close>

datatype 'a fatal = Fatal | Panicked | Ok 'a

fun fbind :: "'a fatal \<Rightarrow> ('a \<Rightarrow> 'b fatal) \<Rightarrow> 'b fatal" where
  "fbind Fatal f = Fatal"
| "fbind Panicked f = Panicked"
| "fbind (Ok x) f = f x"

lemma fbind_Ok [simp]: "fbind r f = Ok y \<longleftrightarrow> (\<exists>x. r = Ok x \<and> f x = Ok y)"
  by (cases r) auto

text \<open>The answers of \<open>os.Stat\<close>.\<close>

datatype stat_result = StatOk | StatNotExist | StatOther

section \<open>Strings\<close>

definition has_prefix :: "'a list \<Rightarrow> 'a list \<Rightarrow> bool" where
  "has_prefix s p \<longleftrightarrow> length p \<le> length s \<and> take (length p) s = p"

definition has_suffix :: "'a list \<Rightarrow> 'a list \<Rightarrow> bool" where
  "has_suffix s p \<longleftrightarrow> length p \<le> length s \<and> drop (length s - length p) s = p"

definition trim_prefix :: "'a list \<Rightarrow> 'a list \<Rightarrow> 'a list" where
  "trim_prefix p s = (if has_prefix s p then drop (length p) s else s)"

text \<open>\<open>strings.Split\<close> with a one-byte separator, and \<open>strings.Join\<close>.\<close>

fun split_on :: "'a \<Rightarrow> 'a list \<Rightarrow> 'a list list" where
  "split_on c [] = [[]]"
| "split_on c (x # xs) =
     (if x = c then [] # split_on c xs
      else (case split_on c xs of [] \<Rightarrow> [[x]] | p # ps \<Rightarrow> (x # p) # ps))"

fun join_with :: "'a list \<Rightarrow> 'a list list \<Rightarrow> 'a list" where
  "join_with sep [] = []"
| "join_with sep [x] = x"
| "join_with sep (x # y # ys) = x @ sep @ join_with sep (y # ys)"

text \<open>\<open>strings.Replace(s, old, new, 1)\<close> with a non-empty \<open>old\<close>, and \<open>strings.Contains\<close>.\<close>

fun replace_first :: "'a list \<Rightarrow> 'a list \<Rightarrow> 'a list \<Rightarrow> 'a list" where
  "replace_first old new [] = []"
| "replace_first old new (x # xs) =
     (if has_prefix (x # xs) old then new @ drop (length old) (x # xs) else x # replace_first old new xs)"

fun contains :: "'a list \<Rightarrow> 'a list \<Rightarrow> bool" where
  "contains [] p \<longleftrightarrow> p = []"
| "contains (x # xs) p \<longleftrightarrow> has_prefix (x # xs) p \<or> contains xs p"

definition all_digits :: "string \<Rightarrow> bool" where
  "all_digits s \<longleftrightarrow> list_all (\<lambda>c. c \<in> set ''0123456789'') s"

text \<open>The number a string of decimal digits denotes.\<close>

definition digit_val :: "char \<Rightarrow> nat" where
  "digit_val c = of_char c - 48"

definition dec_val :: "string \<Rightarrow> nat" where
  "dec_val s = foldl (\<lambda>n c. 10 * n + digit_val c) 0 s"

section \<open>Searching, trimming, numbers\<close>

fun index_of :: "'a list \<Rightarrow> 'a list \<Rightarrow> nat option" where
  "index_of sub [] = (if sub = [] then Some 0 else None)"
| "index_of sub (x # xs) = (if has_prefix (x # xs) sub then Some 0 else map_option Suc (index_of sub xs))"

definition newline :: char where "newline = CHR 0x0A"

text \<open>\<open>strings.TrimSpace\<close>, for ASCII text.\<close>

definition is_space :: "char \<Rightarrow> bool" where
  "is_space c \<longleftrightarrow> c \<in> {CHR '' '', CHR 0x09, CHR 0x0A, CHR 0x0B, CHR 0x0C, CHR 0x0D}"

definition TrimSpace :: "string \<Rightarrow> string" where
  "TrimSpace s = rev (dropWhile is_space (rev (dropWhile is_space s)))"

text \<open>The verb \<open>%d\<close>.\<close>

definition show_int :: "int \<Rightarrow> string" where
  "show_int i = (if i < 0 then ''-'' else []) @ show_dec (nat \<bar>i\<bar>)"

text \<open>\<open>strconv.ParseUint(s, 10, bits)\<close>\<close>

definition ParseUint10 :: "nat \<Rightarrow> string \<Rightarrow> nat option" where
  "ParseUint10 bits s = (if s \<noteq> [] \<and> all_digits s \<and> dec_val s < 2 ^ bits then Some (dec_val s) else None)"

definition Trim :: "char \<Rightarrow> string \<Rightarrow> string" where
  "Trim c s = rev (dropWhile (\<lambda>x. x = c) (rev (dropWhile (\<lambda>x. x = c) s)))"

text \<open>\<open>strconv.ParseInt(s, 10, 64)\<close>: the value, which is also there with an error, and the error flag.\<close>

definition ParseInt10 :: "string \<Rightarrow> int \<times> bool" where
  "ParseInt10 s =
     (let neg = (s \<noteq> [] \<and> hd s = CHR ''-'');
          r = (if s \<noteq> [] \<and> (hd s = CHR ''-'' \<or> hd s = CHR ''+'') then tl s else s)
      in if r = [] \<or> \<not> all_digits r then (0, True)
         else if \<not> neg \<and> dec_val r \<ge> 2 ^ 63 then (2 ^ 63 - 1, True)
         else if neg \<and> dec_val r > 2 ^ 63 then (- (2 ^ 63), True)
         else (if neg then - int (dec_val r) else int (dec_val r), False))"

text \<open>\<open>strings.ToLower\<close> on ASCII text, and \<open>strconv.ParseUint(s, 16, bits)\<close>.\<close>

definition ascii_lower :: "string \<Rightarrow> string" where
  "ascii_lower = map (\<lambda>c. if 65 \<le> (of_char c :: nat) \<and> (of_char c :: nat) \<le> 90 then char_of (of_char c + 32 :: nat) else c)"

definition hex_val :: "char \<Rightarrow> nat option" where
  "hex_val c =
     (let n = of_char c :: nat
      in if 48 \<le> n \<and> n \<le> 57 then Some (n - 48)
         else if 97 \<le> n \<and> n \<le> 102 then Some (n - 87)
         else if 65 \<le> n \<and> n \<le> 70 then Some (n - 55) else None)"

definition ParseUint16 :: "nat \<Rightarrow> string \<Rightarrow> nat option" where
  "ParseUint16 bits s =
     (let ds = map hex_val s
      in if s = [] \<or> None \<in> set ds then None
         else (let v = foldl (\<lambda>n d. n * 16 + the d) 0 ds in if v < 2 ^ bits then Some v else None))"

text \<open>\<open>bufio.Scanner\<close> by lines: the newline and a carriage return before it go; a line that does not fit its
  buffer is an error.\<close>

definition drop_cr :: "string \<Rightarrow> string" where
  "drop_cr l = (if l \<noteq> [] \<and> last l = CHR 0x0D then butlast l else l)"

definition scan_lines :: "string \<Rightarrow> string list option" where
  "scan_lines buf =
     (let ls = split_on newline buf; ls1 = (if last ls = [] then butlast ls else ls)
      in if list_ex (\<lambda>l. length l \<ge> 65536) ls1 then None else Some (map drop_cr ls1))"

section \<open>Splitting and joining\<close>

lemma split_on_nonempty [simp]: "split_on c s \<noteq> []"
  by (induction s) (auto split: list.splits)

lemma join_split: "join_with [c] (split_on c s) = s"
proof (induction s)
  case (Cons x xs)
  then show ?case
    by (cases "split_on c xs"; cases "tl (split_on c xs)") (auto split: list.splits)
qed simp

lemma split_on_no_sep: "c \<notin> set s \<Longrightarrow> split_on c s = [s]"
  by (induction s) auto

lemma split_on_append: "c \<notin> set a \<Longrightarrow> split_on c (a @ c # s) = a # split_on c s"
  by (induction a) auto

lemma split_join:
  "ps \<noteq> [] \<Longrightarrow> list_all (\<lambda>p. c \<notin> set p) ps \<Longrightarrow> split_on c (join_with [c] ps) = ps"
proof (induction "[c]" ps rule: join_with.induct)
  case (2 x)
  then show ?case by (simp add: split_on_no_sep)
next
  case (3 x y ys)
  then show ?case by (simp add: split_on_append)
qed simp

lemma has_prefix_append [simp]: "has_prefix (p @ s) p"
  by (simp add: has_prefix_def)

lemma has_prefix_iff: "has_prefix s p \<longleftrightarrow> (\<exists>b. s = p @ b)"
proof
  assume "has_prefix s p"
  then have "s = p @ drop (length p) s"
    using append_take_drop_id [of "length p" s] by (simp add: has_prefix_def)
  then show "\<exists>b. s = p @ b" ..
qed (auto simp: has_prefix_def)

lemma contains_iff: "contains s p \<longleftrightarrow> (\<exists>a b. s = a @ p @ b)"
proof (induction s)
  case (Cons x s)
  have "(\<exists>a b. x # s = a @ p @ b) \<longleftrightarrow> (\<exists>b. x # s = p @ b) \<or> (\<exists>a b. s = a @ p @ b)"
    by (metis append_Cons append_Nil append_eq_Cons_conv)
  then show ?case
    by (simp add: Cons.IH has_prefix_iff)
qed simp

lemma trim_prefix_append [simp]: "trim_prefix p (p @ s) = s"
  by (simp add: trim_prefix_def)

lemma trim_suffix_append [simp]: "trim_suffix p (s @ p) = s"
  by (simp add: trim_suffix_def)

lemma has_suffix_append [simp]: "has_suffix (s @ p) p"
  by (simp add: has_suffix_def)

section \<open>Paths\<close>

text \<open>\<open>path.Clean\<close>: the elements are pushed on a stack, \<open>..\<close> pops an element where there is one to pop.\<close>

fun clean_step :: "bool \<Rightarrow> string list \<Rightarrow> string list \<Rightarrow> string list" where
  "clean_step rooted acc [] = rev acc"
| "clean_step rooted acc (e # es) =
     (if e = '''' \<or> e = ''.'' then clean_step rooted acc es
      else if e = ''..'' then
        (if acc \<noteq> [] \<and> hd acc \<noteq> ''..'' then clean_step rooted (tl acc) es
         else if rooted then clean_step rooted acc es
         else clean_step rooted (e # acc) es)
      else clean_step rooted (e # acc) es)"

definition path_Clean :: "string \<Rightarrow> string" where
  "path_Clean s =
     (let rooted = (s \<noteq> [] \<and> hd s = CHR ''/'');
          body = join_with ''/'' (clean_step rooted [] (split_on CHR ''/'' s))
      in if rooted then ''/'' @ body else if body = [] then ''.'' else body)"

definition path_Join :: "string list \<Rightarrow> string" where
  "path_Join es =
     (case dropWhile (\<lambda>e. e = []) es of [] \<Rightarrow> [] | es' \<Rightarrow> path_Clean (join_with ''/'' es'))"

text \<open>\<open>filepath.Dir\<close>: all but the last element, cleaned.\<close>

definition path_Dir :: "string \<Rightarrow> string" where
  "path_Dir s = path_Clean (rev (dropWhile (\<lambda>c. c \<noteq> CHR ''/'') (rev s)))"

text \<open>\<open>path.Base\<close>: the last element, trailing slashes removed.\<close>

definition path_Base :: "string \<Rightarrow> string" where
  "path_Base s =
     (if s = [] then ''.''
      else
        let t = rev (dropWhile (\<lambda>c. c = CHR ''/'') (rev s));
            b = rev (takeWhile (\<lambda>c. c \<noteq> CHR ''/'') (rev t))
        in if b = [] then ''/'' else b)"

lemma path_Base_no_slash: "s \<noteq> [] \<Longrightarrow> CHR ''/'' \<notin> set s \<Longrightarrow> path_Base s = s"
proof -
  assume *: "s \<noteq> []" "CHR ''/'' \<notin> set s"
  have dw: "dropWhile (\<lambda>c. c = CHR ''/'') (rev s) = rev s"
    using * by (cases "rev s") (auto simp: dropWhile_eq_self_iff hd_rev)
  have tw: "takeWhile (\<lambda>c. c \<noteq> CHR ''/'') (rev s) = rev s"
    using * by (auto simp: takeWhile_eq_all_conv)
  show ?thesis
    using *(1) by (simp add: path_Base_def dw tw)
qed

lemma path_Base_append:
  assumes "s \<noteq> []" "CHR ''/'' \<notin> set s"
  shows "path_Base (d @ ''/'' @ s) = s"
proof -
  obtain c cs where rs: "rev s = c # cs"
    using assms(1) by (cases "rev s") auto
  have "c \<noteq> CHR ''/''"
    using assms(2) rs by (metis list.set_intros(1) set_rev)
  then have dw: "dropWhile (\<lambda>c. c = CHR ''/'') (rev (d @ ''/'' @ s)) = rev (d @ ''/'' @ s)"
    by (simp add: rs)
  have tw: "takeWhile (\<lambda>c. c \<noteq> CHR ''/'') (rev s @ CHR ''/'' # rev d) = rev s"
    using assms(2) by (subst takeWhile_append2) auto
  show ?thesis
    unfolding path_Base_def Let_def dw using assms(1) tw by simp
qed


section \<open>Decimal numbers\<close>

lemma digit_show: "n < 10 \<Longrightarrow> digit_val (hex_digit n) = n \<and> hex_digit n \<in> set ''0123456789''"
proof -
  have "list_all (\<lambda>n. digit_val (hex_digit n) = n \<and> hex_digit n \<in> set ''0123456789'') [0..<10]"
    by code_simp
  then show "n < 10 \<Longrightarrow> digit_val (hex_digit n) = n \<and> hex_digit n \<in> set ''0123456789''"
    by (simp only: list_all_iff set_upt) auto
qed

lemma show_dec_read: "all_digits (show_dec n)" "dec_val (show_dec n) = n" "show_dec n \<noteq> []"
proof -
  have "all_digits (show_dec n) \<and> dec_val (show_dec n) = n \<and> show_dec n \<noteq> []"
  proof (induction n rule: show_dec.induct)
    case (1 n)
    show ?case
    proof (cases "n < 10")
      case True
      then show ?thesis
        using digit_show [of n] by (simp add: show_dec.simps [of n] all_digits_def dec_val_def)
    next
      case False
      then show ?thesis
        using digit_show [of "n mod 10"] 1 by (simp add: show_dec.simps [of n] all_digits_def dec_val_def)
    qed
  qed
  then show "all_digits (show_dec n)" "dec_val (show_dec n) = n" "show_dec n \<noteq> []"
    by blast+
qed

lemma ParseUint10_show [simp]: "n < 2 ^ bits \<Longrightarrow> ParseUint10 bits (show_dec n) = Some n"
  by (simp add: ParseUint10_def show_dec_read)

lemma show_dec_chars: "c \<in> set (show_dec n) \<Longrightarrow> c \<in> set ''0123456789''"
  using show_dec_read(1) [of n] by (simp add: all_digits_def list_all_iff)

lemma ParseInt10_show: "n < 2 ^ 63 \<Longrightarrow> ParseInt10 (show_dec n) = (int n, False)"
proof -
  assume n: "n < 2 ^ 63"
  have "hd (show_dec n) \<in> set ''0123456789''"
    using show_dec_chars [OF hd_in_set [OF show_dec_read(3)]] .
  then have "hd (show_dec n) \<noteq> CHR ''-''" "hd (show_dec n) \<noteq> CHR ''+''"
    by auto
  then show ?thesis
    using n by (simp add: ParseInt10_def Let_def show_dec_read)
qed

end
