(* ===== verification/LogStack.thy ===== *)
theory LogStack
  imports GoStd
begin

text \<open>
  The log package (\<open>pkg/log\<close>, \<open>pkg/log/flags\<close>, \<open>pkg/log/lcd\<close>): a stack of loggers, each of which
  treats an entry in its own way and hands it to the next.  The loggers are objects that are linked
  by mutable \<open>next\<close> fields, so the state keeps them in a heap and the links are addresses; walking
  the links is written as the code writes it, as a recursion that ends only when the chain does.  What
  the loggers print is kept as the format and the arguments handed to \<open>fmt\<close>: a line is the pair of
  both, for arguments of any type.
\<close>

section \<open>Flags, times and entries\<close>

type_synonym Flag = int

definition NA :: Flag where "NA = 0"
definition EndUser :: Flag where "EndUser = 1"
definition Fatal :: Flag where "Fatal = 2"
definition NotFile :: Flag where "NotFile = 4"
definition NotWire :: Flag where "NotWire = 8"

lemmas flag_defs = NA_def EndUser_def Fatal_def NotFile_def NotWire_def

text \<open>\<open>time.Time\<close> as far as the layout \<open>20060102_1504\<close> shows it.\<close>

record gotime =
  tm_Year :: nat
  tm_Month :: nat
  tm_Day :: nat
  tm_Hour :: nat
  tm_Minute :: nat

definition pad0 :: "nat \<Rightarrow> nat \<Rightarrow> string" where
  "pad0 k n = replicate (k - length (show_dec n)) CHR ''0'' @ show_dec n"

definition Timestamp :: "gotime \<Rightarrow> string" where
  "Timestamp t = pad0 4 (tm_Year t) @ pad0 2 (tm_Month t) @ pad0 2 (tm_Day t) @ ''_''
     @ pad0 2 (tm_Hour t) @ pad0 2 (tm_Minute t)"

record 'a LogEntry =
  le_Time :: gotime
  le_Msg :: string
  le_Args :: "'a list"
  le_Flags :: Flag

text \<open>What is printed for an entry: a format and its arguments.\<close>

type_synonym 'a line = "string \<times> 'a list"

definition le_div :: "Flag \<Rightarrow> string" where
  "le_div fl =
     (if fl AND EndUser \<noteq> 0 then ''-- ''
      else if fl AND Fatal \<noteq> 0 then ''!! ''
      else if fl = 0 then ''*- ''
      else ''?? '')"

definition le_String :: "'a LogEntry \<Rightarrow> 'a line" where
  "le_String e =
     (let d = le_div (le_Flags e)
      in (d @ Timestamp (le_Time e) @ '' '' @ d @ le_Msg e, le_Args e))"

text \<open>\<open>Flag.String\<close>: known values by name, else the lowest set bit, a bar and the rest.\<close>

definition flag_name :: "Flag \<Rightarrow> string option" where
  "flag_name f =
     (if f = NA then Some '''' else if f = EndUser then Some ''user'' else if f = Fatal then Some ''fatal''
      else if f = NotFile then Some ''not file'' else if f = NotWire then Some ''not wire'' else None)"

definition show_int_hex :: "int \<Rightarrow> string" where
  "show_int_hex i = (if i < 0 then ''0x-'' @ show_hex (nat (- i)) else ''0x'' @ show_hex (nat i))"

definition flag_bits :: "Flag list" where "flag_bits = [EndUser, Fatal, NotFile, NotWire]"

lemma flag_bit_cleared:
  "b \<in> set flag_bits \<Longrightarrow> f AND b > 0 \<Longrightarrow>
   length (filter (\<lambda>c. (f AND NOT b) AND c > 0) flag_bits) < length (filter (\<lambda>c. f AND c > 0) flag_bits)"
proof -
  assume b: "b \<in> set flag_bits" "f AND b > 0"
  have sub: "(f AND NOT b) AND c > 0 \<Longrightarrow> f AND c > 0 \<and> c \<noteq> b" if "c \<in> set flag_bits" for c
  proof -
    assume *: "(f AND NOT b) AND c > 0"
    have "f AND c \<noteq> 0"
      using * by (metis and.commute and.left_commute bit.conj_zero_right less_irrefl)
    moreover have "0 \<le> f AND c"
      using that by (auto simp: flag_bits_def flag_defs)
    ultimately have "f AND c > 0"
      by linarith
    moreover have "c \<noteq> b"
      using * by (auto simp: and.assoc)
    ultimately show "f AND c > 0 \<and> c \<noteq> b" ..
  qed
  show ?thesis
    using b sub [of EndUser] sub [of Fatal] sub [of NotFile] sub [of NotWire]
    by (auto simp: flag_bits_def flag_defs)
qed

function Flag_String :: "Flag \<Rightarrow> string" where
  "Flag_String f =
     (case flag_name f of
        Some s \<Rightarrow> s
      | None \<Rightarrow>
          (case find (\<lambda>b. f AND b > 0) flag_bits of
             Some b \<Rightarrow>
               (case flag_name b of Some s \<Rightarrow> s | None \<Rightarrow> show_int_hex b) @ ''|'' @ Flag_String (f AND NOT b)
           | None \<Rightarrow> show_int_hex f))"
  by pat_completeness auto
termination
  by (relation "measure (\<lambda>f. length (filter (\<lambda>c. f AND c > 0) flag_bits))")
    (auto simp: find_Some_iff intro!: flag_bit_cleared)

declare Flag_String.simps [simp del]

section \<open>The sinks\<close>

text \<open>
  The files of the log directory: a directory entry names an inode, an open file descriptor refers to
  one and may be closed.  \<open>os.Create\<close> truncates an existing file or makes a new one; a write to a closed
  descriptor fails, which \<open>fmt.Fprintln\<close> reports to nobody.  Standard error and the messages handed to
  \<open>cfa.DefaultLcd.Msg\<close> are lists.
\<close>

datatype 'a errline = Line "'a line" | CloseError

record 'a world =
  w_dir :: "string \<Rightarrow> nat option"
  w_inodes :: "'a line list list"
  w_fds :: "(nat \<times> bool) list"
  w_stderr :: "'a errline list"
  w_lcd :: "'a line list"

definition os_Create :: "string \<Rightarrow> 'a world \<Rightarrow> nat \<times> 'a world" where
  "os_Create path w =
     (case w_dir w path of
        Some i \<Rightarrow> (length (w_fds w), w\<lparr>w_inodes := (w_inodes w)[i := []], w_fds := w_fds w @ [(i, True)]\<rparr>)
      | None \<Rightarrow> (length (w_fds w),
          w\<lparr>w_dir := (w_dir w)(path \<mapsto> length (w_inodes w)), w_inodes := w_inodes w @ [[]],
            w_fds := w_fds w @ [(length (w_inodes w), True)]\<rparr>))"

definition os_Remove :: "string \<Rightarrow> 'a world \<Rightarrow> 'a world" where
  "os_Remove path w = w\<lparr>w_dir := (w_dir w)(path := None)\<rparr>"

definition fd_write :: "nat \<Rightarrow> 'a line \<Rightarrow> 'a world \<Rightarrow> 'a world" where
  "fd_write fd l w =
     (case w_fds w ! fd of (i, opened) \<Rightarrow>
        if opened then w\<lparr>w_inodes := (w_inodes w)[i := w_inodes w ! i @ [l]]\<rparr> else w)"

text \<open>\<open>f.Close\<close>: the flag says whether it failed.\<close>

definition fd_close :: "nat \<Rightarrow> 'a world \<Rightarrow> bool \<times> 'a world" where
  "fd_close fd w =
     (case w_fds w ! fd of (i, opened) \<Rightarrow> (\<not> opened, w\<lparr>w_fds := (w_fds w)[fd := (i, False)]\<rparr>))"

section \<open>The loggers\<close>

text \<open>
  Each logger's own part of \<open>AddEntry\<close> and \<open>Finalize\<close>, without the call on the next one, its
  \<open>ForwardTo\<close> (the flag is the panic), \<open>Ident\<close> and \<open>Next\<close>.
\<close>

type_synonym addr = nat

record 'a memLog =
  ml_entries :: "'a LogEntry list"
  ml_next :: "addr option"

definition MemLogIdent :: string where "MemLogIdent = ''memLog''"

definition mem_Ident :: "'a memLog \<Rightarrow> string" where "mem_Ident l = MemLogIdent"

definition mem_AddEntry :: "'a LogEntry \<Rightarrow> 'a memLog \<Rightarrow> 'a world \<Rightarrow> 'a memLog \<times> 'a world" where
  "mem_AddEntry e l w = (l\<lparr>ml_entries := ml_entries l @ [e]\<rparr>, w)"

definition mem_ForwardTo :: "addr option \<Rightarrow> 'a memLog \<Rightarrow> bool \<times> 'a memLog" where
  "mem_ForwardTo sl l = (if ml_next l = None \<or> sl = None then (False, l\<lparr>ml_next := sl\<rparr>) else (True, l))"

definition mem_Finalize :: "'a memLog \<Rightarrow> 'a world \<Rightarrow> 'a memLog \<times> 'a world" where
  "mem_Finalize l w = (l\<lparr>ml_entries := []\<rparr>, w)"

record fileLog =
  fl_f :: "nat option"
  fl_next :: "addr option"

definition FileLogIdent :: string where "FileLogIdent = ''fileLog''"

definition file_Ident :: "fileLog \<Rightarrow> string" where "file_Ident l = FileLogIdent"

definition file_AddEntry :: "'a LogEntry \<Rightarrow> fileLog \<Rightarrow> 'a world \<Rightarrow> fileLog \<times> 'a world" where
  "file_AddEntry e l w =
     (l, if le_Flags e AND NotFile = 0
         then (case fl_f l of Some fd \<Rightarrow> fd_write fd (le_String e) w | None \<Rightarrow> w) else w)"

definition file_ForwardTo :: "addr option \<Rightarrow> fileLog \<Rightarrow> bool \<times> fileLog" where
  "file_ForwardTo sl l = (if fl_next l = None \<or> sl = None then (False, l\<lparr>fl_next := sl\<rparr>) else (True, l))"

definition file_Finalize :: "fileLog \<Rightarrow> 'a world \<Rightarrow> fileLog \<times> 'a world" where
  "file_Finalize l w =
     (case fl_f l of
        Some fd \<Rightarrow> (case fd_close fd w of (failed, w1) \<Rightarrow>
          (l\<lparr>fl_f := None\<rparr>, if failed then w1\<lparr>w_stderr := w_stderr w1 @ [CloseError]\<rparr> else w1))
      | None \<Rightarrow> (l, w))"

record consoleLog =
  cl_flags :: Flag
  cl_next :: "addr option"

definition ConsoleLogIdent :: string where "ConsoleLogIdent = ''consoleLog''"

definition console_Ident :: "consoleLog \<Rightarrow> string" where "console_Ident l = ConsoleLogIdent"

definition console_AddEntry :: "'a LogEntry \<Rightarrow> consoleLog \<Rightarrow> 'a world \<Rightarrow> consoleLog \<times> 'a world" where
  "console_AddEntry e l w =
     (l, if cl_flags l = 0 \<or> le_Flags e AND cl_flags l > 0
         then w\<lparr>w_stderr := w_stderr w @ [Line (le_String e)]\<rparr> else w)"

definition console_ForwardTo :: "addr option \<Rightarrow> consoleLog \<Rightarrow> bool \<times> consoleLog" where
  "console_ForwardTo sl l = (if cl_next l = None \<or> sl = None then (False, l\<lparr>cl_next := sl\<rparr>) else (True, l))"

definition console_Finalize :: "consoleLog \<Rightarrow> 'a world \<Rightarrow> consoleLog \<times> 'a world" where
  "console_Finalize l w = (l, w)"

record LcdLog =
  ll_opts :: Flag
  ll_next :: "addr option"

definition LcdLogIdent :: string where "LcdLogIdent = ''lcdLog''"

definition lcd_Ident :: "LcdLog \<Rightarrow> string" where "lcd_Ident l = LcdLogIdent"

definition lcd_AddEntry :: "'a LogEntry \<Rightarrow> LcdLog \<Rightarrow> 'a world \<Rightarrow> LcdLog \<times> 'a world" where
  "lcd_AddEntry e l w =
     (l, if le_Flags e AND ll_opts l \<noteq> 0 then w\<lparr>w_lcd := w_lcd w @ [(le_Msg e, le_Args e)]\<rparr> else w)"

definition lcd_ForwardTo :: "addr option \<Rightarrow> LcdLog \<Rightarrow> bool \<times> LcdLog" where
  "lcd_ForwardTo sl l = (if ll_next l = None \<or> sl = None then (False, l\<lparr>ll_next := sl\<rparr>) else (True, l))"

definition lcd_Finalize :: "LcdLog \<Rightarrow> 'a world \<Rightarrow> LcdLog \<times> 'a world" where
  "lcd_Finalize l w = (l, w)"

text \<open>A value of the interface \<open>StackableLogger\<close>: one of the four, with dynamic dispatch.\<close>

datatype 'a logger = LMem "'a memLog" | LFile fileLog | LConsole consoleLog | LLcd LcdLog

fun lg_Ident :: "'a logger \<Rightarrow> string" where
  "lg_Ident (LMem l) = mem_Ident l"
| "lg_Ident (LFile l) = file_Ident l"
| "lg_Ident (LConsole l) = console_Ident l"
| "lg_Ident (LLcd l) = lcd_Ident l"

fun lg_Next :: "'a logger \<Rightarrow> addr option" where
  "lg_Next (LMem l) = ml_next l"
| "lg_Next (LFile l) = fl_next l"
| "lg_Next (LConsole l) = cl_next l"
| "lg_Next (LLcd l) = ll_next l"

fun lg_AddEntry :: "'a LogEntry \<Rightarrow> 'a logger \<Rightarrow> 'a world \<Rightarrow> 'a logger \<times> 'a world" where
  "lg_AddEntry e (LMem l) w = map_prod LMem id (mem_AddEntry e l w)"
| "lg_AddEntry e (LFile l) w = map_prod LFile id (file_AddEntry e l w)"
| "lg_AddEntry e (LConsole l) w = map_prod LConsole id (console_AddEntry e l w)"
| "lg_AddEntry e (LLcd l) w = map_prod LLcd id (lcd_AddEntry e l w)"

fun lg_ForwardTo :: "addr option \<Rightarrow> 'a logger \<Rightarrow> bool \<times> 'a logger" where
  "lg_ForwardTo sl (LMem l) = map_prod id LMem (mem_ForwardTo sl l)"
| "lg_ForwardTo sl (LFile l) = map_prod id LFile (file_ForwardTo sl l)"
| "lg_ForwardTo sl (LConsole l) = map_prod id LConsole (console_ForwardTo sl l)"
| "lg_ForwardTo sl (LLcd l) = map_prod id LLcd (lcd_ForwardTo sl l)"

fun lg_Finalize :: "'a logger \<Rightarrow> 'a world \<Rightarrow> 'a logger \<times> 'a world" where
  "lg_Finalize (LMem l) w = map_prod LMem id (mem_Finalize l w)"
| "lg_Finalize (LFile l) w = map_prod LFile id (file_Finalize l w)"
| "lg_Finalize (LConsole l) w = map_prod LConsole id (console_Finalize l w)"
| "lg_Finalize (LLcd l) w = map_prod LLcd id (lcd_Finalize l w)"

subsection \<open>The interface\<close>

text \<open>
  What the stack relies on: a logger's own part of an operation changes neither its identity nor its
  link, \<open>ForwardTo\<close> sets the link of a logger that has none or clears it, and anything else panics.
  The loggers of a heap that are linked from an address form a chain.
\<close>

fun chain :: "('l \<Rightarrow> addr option) \<Rightarrow> 'l list \<Rightarrow> addr option \<Rightarrow> addr list \<Rightarrow> bool" where
  "chain nx h p [] \<longleftrightarrow> p = None"
| "chain nx h p (a # as) \<longleftrightarrow> p = Some a \<and> a < length h \<and> a \<notin> set as \<and> chain nx h (nx (h ! a)) as"

lemma chain_bound: "chain nx h p as \<Longrightarrow> a \<in> set as \<Longrightarrow> a < length h"
  by (induction as arbitrary: p) auto

lemma chain_distinct: "chain nx h p as \<Longrightarrow> distinct as"
  by (induction as arbitrary: p) auto

lemma chain_unique: "chain nx h p as \<Longrightarrow> chain nx h p bs \<Longrightarrow> as = bs"
proof (induction as arbitrary: p bs)
  case (Cons a as)
  then show ?case by (cases bs) auto
qed (auto elim: chain.elims)

lemma chain_update_other: "a \<notin> set as \<Longrightarrow> chain nx (h[a := l]) p as \<longleftrightarrow> chain nx h p as"
  by (induction as arbitrary: p) (auto simp: nth_list_update)

lemma chain_update_same:
  "a < length h \<Longrightarrow> nx l = nx (h ! a) \<Longrightarrow> chain nx (h[a := l]) p as \<longleftrightarrow> chain nx h p as"
  by (induction as arbitrary: p) (auto simp: nth_list_update)

lemma chain_alloc: "chain nx h p as \<Longrightarrow> chain nx (h @ ls) p as"
  by (induction as arbitrary: p) (auto simp: nth_append)

lemma chain_split:
  "chain nx h p (as @ b # bs) \<Longrightarrow> chain nx h (nx (h ! b)) bs \<and> chain nx h (Some b) (b # bs)"
  by (induction as arbitrary: p) auto

text \<open>Cutting a chain off behind one of its loggers.\<close>

lemma chain_cut:
  "chain nx h p (as @ b # bs) \<Longrightarrow> nx l = None \<Longrightarrow> chain nx (h[b := l]) p (as @ [b])"
proof (induction as arbitrary: p)
  case Nil
  then show ?case by (auto simp: nth_list_update)
next
  case (Cons a as)
  then show ?case by (auto simp: nth_list_update)
qed

locale stackable_logger =
  fixes Ident :: "'l \<Rightarrow> string"
    and Next :: "'l \<Rightarrow> addr option"
    and Add :: "'a LogEntry \<Rightarrow> 'l \<Rightarrow> 'a world \<Rightarrow> 'l \<times> 'a world"
    and Forward :: "addr option \<Rightarrow> 'l \<Rightarrow> bool \<times> 'l"
    and Fin :: "'l \<Rightarrow> 'a world \<Rightarrow> 'l \<times> 'a world"
  assumes Next_Add [simp]: "Next (fst (Add e l w)) = Next l"
    and Ident_Add [simp]: "Ident (fst (Add e l w)) = Ident l"
    and Next_Fin [simp]: "Next (fst (Fin l w)) = Next l"
    and Ident_Fin [simp]: "Ident (fst (Fin l w)) = Ident l"
    and Forward_free: "Next l = None \<or> sl = None \<Longrightarrow>
          \<not> fst (Forward sl l) \<and> Next (snd (Forward sl l)) = sl"
    and Forward_taken: "Next l \<noteq> None \<Longrightarrow> sl \<noteq> None \<Longrightarrow> Forward sl l = (True, l)"
    and Ident_Forward [simp]: "Ident (snd (Forward sl l)) = Ident l"
begin

lemma chain_Add:
  "a < length h \<Longrightarrow> chain Next (h[a := fst (Add e (h ! a) w)]) p as \<longleftrightarrow> chain Next h p as"
  by (rule chain_update_same) simp_all

lemma chain_Fin:
  "a < length h \<Longrightarrow> chain Next (h[a := fst (Fin (h ! a) w)]) p as \<longleftrightarrow> chain Next h p as"
  by (rule chain_update_same) simp_all

text \<open>Linking a new logger in front of a chain.\<close>

lemma chain_push:
  assumes "chain Next h p as" "Next l = None"
  shows "chain Next (h @ [snd (Forward p l)]) (Some (length h)) (length h # as)"
  using assms chain_alloc [OF assms(1)] chain_bound [OF assms(1)] Forward_free [of l p] by auto

lemma Forward_None: "Forward None l = (False, l') \<Longrightarrow> Next l' = None"
  using Forward_free [of l None] by auto

lemma Forward_None_ok: "\<not> fst (Forward None l)" "Next (snd (Forward None l)) = None"
  using Forward_free [of l None] by auto

lemma chain_detach:
  assumes "chain Next h p (as @ b # bs)"
  shows "chain Next (h[b := fst (Fin (snd (Forward None (h ! b))) w)]) p (as @ [b])"
  by (rule chain_cut [OF assms]) (simp add: Forward_None_ok)

end

interpretation mem_log: stackable_logger mem_Ident ml_next mem_AddEntry mem_ForwardTo mem_Finalize
  by unfold_locales (auto simp: mem_Ident_def mem_AddEntry_def mem_ForwardTo_def mem_Finalize_def)

interpretation file_log: stackable_logger file_Ident fl_next file_AddEntry file_ForwardTo file_Finalize
  by unfold_locales
    (auto simp: file_Ident_def file_AddEntry_def file_ForwardTo_def file_Finalize_def split: option.splits prod.splits)

interpretation console_log: stackable_logger console_Ident cl_next console_AddEntry console_ForwardTo
    console_Finalize
  by unfold_locales (auto simp: console_Ident_def console_AddEntry_def console_ForwardTo_def console_Finalize_def)

interpretation lcd_log: stackable_logger lcd_Ident ll_next lcd_AddEntry lcd_ForwardTo lcd_Finalize
  by unfold_locales (auto simp: lcd_Ident_def lcd_AddEntry_def lcd_ForwardTo_def lcd_Finalize_def)

interpretation lg: stackable_logger lg_Ident lg_Next lg_AddEntry lg_ForwardTo lg_Finalize
proof (unfold_locales, goal_cases)
  case (1 e l w) then show ?case by (cases l) simp_all
next
  case (2 e l w) then show ?case by (cases l) simp_all
next
  case (3 l w) then show ?case by (cases l) simp_all
next
  case (4 l w) then show ?case by (cases l) simp_all
next
  case (5 l sl)
  then show ?case
    by (cases l) (simp_all add: mem_log.Forward_free file_log.Forward_free console_log.Forward_free
        lcd_log.Forward_free)
next
  case (6 l sl)
  then show ?case
    by (cases l) (simp_all add: mem_log.Forward_taken file_log.Forward_taken console_log.Forward_taken
        lcd_log.Forward_taken)
next
  case (7 sl l) then show ?case by (cases l) simp_all
qed

end
