(* ===== verification/Log.thy ===== *)
theory Log
  imports LogStack
begin

text \<open>
  The operations of \<open>pkg/log\<close> on the stack of loggers (\<open>stackable.go\<close>, \<open>log.go\<close>, \<open>file.go\<close>, \<open>mem.go\<close>,
  \<open>console.go\<close>, \<open>fatal.go\<close>, \<open>attr.go\<close>, \<open>lcd.go\<close>).  A walk along the links is a \<open>partial_function\<close>, with the
  value \<open>None\<close> for a recursion that does not end; that it ends is part of what is proved.  Every
  operation holds the mutex \<open>logStackMtx\<close>, so a program is a sequence of operations.  The hook of the
  testing package (\<open>traceHelper\<close>) is left out.
\<close>

record 'a log_state =
  ls_heap :: "'a logger list"
  ls_stack :: "addr option"
  ls_world :: "'a world"
  ls_attrs :: "string \<Rightarrow> string option"
  ls_prefix :: string

section \<open>Walking the stack\<close>

definition add_step :: "'a LogEntry \<Rightarrow> addr \<Rightarrow> 'a log_state \<Rightarrow> 'a log_state" where
  "add_step e p s =
     (case lg_AddEntry e (ls_heap s ! p) (ls_world s) of
        (l, w) \<Rightarrow> s\<lparr>ls_heap := (ls_heap s)[p := l], ls_world := w\<rparr>)"

partial_function (option) AddEntry :: "'a LogEntry \<Rightarrow> addr \<Rightarrow> 'a log_state \<Rightarrow> 'a log_state option" where
  "AddEntry e p s =
     (case lg_Next (ls_heap (add_step e p s) ! p) of
        None \<Rightarrow> Some (add_step e p s)
      | Some q \<Rightarrow> AddEntry e q (add_step e p s))"

definition fin_step :: "addr \<Rightarrow> 'a log_state \<Rightarrow> 'a log_state" where
  "fin_step p s =
     (case lg_Finalize (ls_heap s ! p) (ls_world s) of
        (l, w) \<Rightarrow> s\<lparr>ls_heap := (ls_heap s)[p := l], ls_world := w\<rparr>)"

partial_function (option) Finalize_from :: "addr \<Rightarrow> 'a log_state \<Rightarrow> 'a log_state option" where
  "Finalize_from p s =
     (case lg_Next (ls_heap (fin_step p s) ! p) of
        None \<Rightarrow> Some (fin_step p s)
      | Some q \<Rightarrow> Finalize_from q (fin_step p s))"

text \<open>\<open>ForwardFrom\<close> returns the identity of a duplicate.\<close>

partial_function (option) ForwardFrom :: "'a logger \<Rightarrow> addr \<Rightarrow> 'a log_state \<Rightarrow> string option option" where
  "ForwardFrom new p s =
     (if lg_Ident new = lg_Ident (ls_heap s ! p) then Some (Some (lg_Ident (ls_heap s ! p)))
      else (case lg_Next (ls_heap s ! p) of
              None \<Rightarrow> Some None
            | Some q \<Rightarrow> ForwardFrom new q s))"

partial_function (option) find_from :: "string \<Rightarrow> addr option \<Rightarrow> 'a log_state \<Rightarrow> addr option option" where
  "find_from i p s =
     (case p of
        None \<Rightarrow> Some None
      | Some a \<Rightarrow>
          if lg_Ident (ls_heap s ! a) = i then Some (Some a) else find_from i (lg_Next (ls_heap s ! a)) s)"

definition FindInStack :: "string \<Rightarrow> 'a log_state \<Rightarrow> addr option option" where
  "FindInStack i s = find_from i (ls_stack s) s"

definition InStack :: "string \<Rightarrow> 'a log_state \<Rightarrow> bool option" where
  "InStack i s = map_option (\<lambda>r. r \<noteq> None) (FindInStack i s)"

definition LoggingToFile :: "'a log_state \<Rightarrow> bool option" where
  "LoggingToFile s = InStack FileLogIdent s"

text \<open>\<open>l.ForwardTo\<close> on the object at an address.\<close>

definition forward :: "addr \<Rightarrow> addr option \<Rightarrow> 'a log_state \<Rightarrow> bool \<times> 'a log_state" where
  "forward p sl s =
     (case lg_ForwardTo sl (ls_heap s ! p) of
        (panicked, l) \<Rightarrow> (panicked, s\<lparr>ls_heap := (ls_heap s)[p := l]\<rparr>))"

text \<open>
  \<open>RemoveLogger\<close>: \<open>l.Finalize\<close> runs after the link of \<open>l\<close> was cleared, so it is \<open>l\<close>'s own part only.  The
  stack itself (\<open>logStack\<close>) is never assigned.
\<close>

partial_function (option) remove_from ::
    "string \<Rightarrow> addr option \<Rightarrow> addr option \<Rightarrow> 'a log_state \<Rightarrow> (unit, 'a log_state) run" where
  "remove_from i prev l s =
     (case l of
        None \<Rightarrow> Some (Returns (), s)
      | Some a \<Rightarrow>
          if lg_Ident (ls_heap s ! a) = i then
            (case Finalize_from a (snd (forward a None s)) of
               None \<Rightarrow> None
             | Some s1 \<Rightarrow>
                 (case prev of
                    None \<Rightarrow> Some (Returns (), s1)
                  | Some b \<Rightarrow>
                      Some (if fst (forward b (lg_Next (ls_heap s ! a)) s1)
                            then (Panics, s1)
                            else (Returns (), snd (forward b (lg_Next (ls_heap s ! a)) s1)))))
          else remove_from i (Some a) (lg_Next (ls_heap s ! a)) s)"

declare AddEntry.simps [code] Finalize_from.simps [code] ForwardFrom.simps [code]
  find_from.simps [code] remove_from.simps [code]

definition RemoveLogger :: "string \<Rightarrow> 'a log_state \<Rightarrow> (unit, 'a log_state) run" where
  "RemoveLogger i s = remove_from i None (ls_stack s) s"

definition FlushMemLog :: "'a log_state \<Rightarrow> (unit, 'a log_state) run" where
  "FlushMemLog s = RemoveLogger MemLogIdent s"

section \<open>Adding loggers\<close>

fun add_all :: "addr \<Rightarrow> 'a LogEntry list \<Rightarrow> 'a log_state \<Rightarrow> 'a log_state option" where
  "add_all p [] s = Some s"
| "add_all p (e # es) s = (case AddEntry e p s of None \<Rightarrow> None | Some s1 \<Rightarrow> add_all p es s1)"

fun is_mem :: "'a logger \<Rightarrow> bool" where
  "is_mem (LMem l) = True"
| "is_mem _ = False"

fun Entries :: "'a logger \<Rightarrow> 'a LogEntry list" where
  "Entries (LMem l) = ml_entries l"
| "Entries _ = []"

definition addPreviousEvents :: "addr \<Rightarrow> 'a log_state \<Rightarrow> 'a log_state option" where
  "addPreviousEvents p s =
     (if is_mem (ls_heap s ! p) then Some s
      else
        (case FindInStack MemLogIdent s of
           None \<Rightarrow> None
         | Some None \<Rightarrow> Some s
         | Some (Some m) \<Rightarrow>
             if is_mem (ls_heap s ! m) then add_all p (Entries (ls_heap s ! m)) s else Some s))"

datatype log_error = EDuplicate string | EAttrExists | EPrefix | ENil | EOS

text \<open>
  \<open>AddLogger\<close>: a successful result is the empty tuple.  With an empty stack \<open>ForwardFrom\<close> calls a method
  of a nil interface.
\<close>

definition AddLogger ::
    "addr \<Rightarrow> bool \<Rightarrow> 'a log_state \<Rightarrow> (log_error + unit, 'a log_state) run" where
  "AddLogger p addPrevious s =
     (case (if addPrevious then addPreviousEvents p s else Some s) of
        None \<Rightarrow> None
      | Some s1 \<Rightarrow>
          (case forward p (ls_stack s1) s1 of
             (panicked, s2) \<Rightarrow>
               if panicked then Some (Panics, s2)
               else
                 (case ls_stack s2 of
                    None \<Rightarrow> Some (Panics, s2)
                  | Some cur \<Rightarrow>
                      (case ForwardFrom (ls_heap s2 ! p) cur s2 of
                         None \<Rightarrow> None
                       | Some (Some dup) \<Rightarrow> Some (Returns (Inl (EDuplicate dup)), s2)
                       | Some None \<Rightarrow> Some (Returns (Inr ()), s2\<lparr>ls_stack := Some p\<rparr>)))))"

definition new_logger :: "'a logger \<Rightarrow> 'a log_state \<Rightarrow> addr \<times> 'a log_state" where
  "new_logger l s = (length (ls_heap s), s\<lparr>ls_heap := ls_heap s @ [l]\<rparr>)"

definition AddMemLog :: "'a log_state \<Rightarrow> (log_error + unit, 'a log_state) run" where
  "AddMemLog s =
     (case new_logger (LMem \<lparr>ml_entries = [], ml_next = None\<rparr>) s of (p, s1) \<Rightarrow> AddLogger p False s1)"

definition AddConsoleLog ::
    "Flag \<Rightarrow> 'a log_state \<Rightarrow> (log_error + unit, 'a log_state) run" where
  "AddConsoleLog fl s =
     (case new_logger (LConsole \<lparr>cl_flags = fl, cl_next = None\<rparr>) s of (p, s1) \<Rightarrow> AddLogger p True s1)"

text \<open>\<open>have_lcd\<close>: whether \<open>cfa.DefaultLcd\<close> is set.\<close>

definition AddLcdLog ::
    "bool \<Rightarrow> Flag \<Rightarrow> 'a log_state \<Rightarrow> (log_error + unit, 'a log_state) run" where
  "AddLcdLog have_lcd opts s =
     (if \<not> have_lcd then Some (Returns (Inl ENil), s)
      else (case new_logger (LLcd \<lparr>ll_opts = opts, ll_next = None\<rparr>) s of (p, s1) \<Rightarrow> AddLogger p False s1))"

text \<open>Attributes.\<close>

definition GetAttr :: "string \<Rightarrow> 'a log_state \<Rightarrow> string option" where
  "GetAttr k s = ls_attrs s k"

definition SetAttr :: "string \<Rightarrow> string \<Rightarrow> 'a log_state \<Rightarrow> (log_error + unit) \<times> 'a log_state" where
  "SetAttr k v s =
     (case ls_attrs s k of
        Some _ \<Rightarrow> (Inl EAttrExists, s)
      | None \<Rightarrow> (Inr (), s\<lparr>ls_attrs := (ls_attrs s)(k \<mapsto> v)\<rparr>))"

definition ClearAttrs :: "'a log_state \<Rightarrow> 'a log_state" where
  "ClearAttrs s = s\<lparr>ls_attrs := \<lambda>_. None\<rparr>"

text \<open>
  \<open>AddNamedFileLog\<close>: \<open>creatable\<close> says whether \<open>os.Create\<close> succeeds.  On any error the new file is closed
  and removed.
\<close>

definition discard_file :: "nat \<Rightarrow> string \<Rightarrow> 'a log_state \<Rightarrow> 'a log_state" where
  "discard_file fd fname s = s\<lparr>ls_world := os_Remove fname (snd (fd_close fd (ls_world s)))\<rparr>"

definition AddNamedFileLog ::
    "bool \<Rightarrow> string \<Rightarrow> 'a log_state \<Rightarrow> (log_error + string, 'a log_state) run" where
  "AddNamedFileLog creatable fname s =
     (if \<not> creatable then Some (Returns (Inl EOS), s)
      else
        (case os_Create fname (ls_world s) of
           (fd, w) \<Rightarrow>
             (case new_logger (LFile \<lparr>fl_f = Some fd, fl_next = None\<rparr>) (s\<lparr>ls_world := w\<rparr>) of
                (p, s1) \<Rightarrow>
                  (case AddLogger p True s1 of
                     None \<Rightarrow> None
                   | Some (Panics, s2) \<Rightarrow> Some (Panics, s2)
                   | Some (Returns (Inl e), s2) \<Rightarrow> Some (Returns (Inl e), discard_file fd fname s2)
                   | Some (Returns (Inr _), s2) \<Rightarrow>
                       (case SetAttr ''Filename'' fname s2 of
                          (Inl e, s3) \<Rightarrow> Some (Returns (Inl e), discard_file fd fname s3)
                        | (Inr _, s3) \<Rightarrow> Some (Returns (Inr fname), s3))))))"

text \<open>\<open>AddFileLog\<close>: \<open>mkdir_ok\<close> says that \<open>os.Mkdir\<close> succeeds or finds the directory there.\<close>

definition AddFileLog ::
    "bool \<Rightarrow> bool \<Rightarrow> gotime \<Rightarrow> string \<Rightarrow> 'a log_state \<Rightarrow> (log_error + string, 'a log_state) run" where
  "AddFileLog mkdir_ok creatable now dir s =
     (if ls_prefix s = [] then Some (Returns (Inl EPrefix), s)
      else if \<not> mkdir_ok then Some (Returns (Inl EOS), s)
      else AddNamedFileLog creatable (path_Join [dir, ls_prefix s @ Timestamp now @ ''.log'']) s)"

definition SetPrefix :: "string \<Rightarrow> 'a log_state \<Rightarrow> 'a log_state" where
  "SetPrefix pfx s = s\<lparr>ls_prefix := pfx\<rparr>"

section \<open>Logging\<close>

definition FlaggedLogf ::
    "gotime \<Rightarrow> Flag \<Rightarrow> string \<Rightarrow> 'a list \<Rightarrow> 'a log_state \<Rightarrow> (unit, 'a log_state) run" where
  "FlaggedLogf now opts f va s =
     (case ls_stack s of
        None \<Rightarrow> Some (Panics, s)
      | Some p \<Rightarrow>
          map_option (\<lambda>s1. (Returns (), s1))
            (AddEntry \<lparr>le_Time = now, le_Msg = f, le_Args = va, le_Flags = opts\<rparr> p s))"

definition Msgf where "Msgf now f va s = FlaggedLogf now EndUser f va s"
definition Logf where "Logf now f va s = FlaggedLogf now NA f va s"
definition log_Msg where "log_Msg now m s = Msgf now m [] s"
definition log_Log where "log_Log now m s = Logf now m [] s"

definition StoredEntries :: "'a log_state \<Rightarrow> 'a LogEntry list option" where
  "StoredEntries s =
     (case FindInStack MemLogIdent s of
        None \<Rightarrow> None
      | Some None \<Rightarrow> Some []
      | Some (Some m) \<Rightarrow> Some (Entries (ls_heap s ! m)))"

definition DumpStderr :: "'a log_state \<Rightarrow> 'a log_state option" where
  "DumpStderr s =
     (case FindInStack MemLogIdent s of
        None \<Rightarrow> None
      | Some None \<Rightarrow> Some s
      | Some (Some m) \<Rightarrow>
          Some (s\<lparr>ls_world := (ls_world s)\<lparr>w_stderr := w_stderr (ls_world s)
                   @ map (\<lambda>e. Line (le_String e)) (Entries (ls_heap s ! m))\<rparr>\<rparr>))"

definition Finalize :: "'a log_state \<Rightarrow> (unit, 'a log_state) run" where
  "Finalize s =
     (case ls_stack s of
        None \<Rightarrow> Some (Panics, s)
      | Some p \<Rightarrow> map_option (\<lambda>s1. (Returns (), s1)) (Finalize_from p s))"

definition NewLogStack :: "addr option \<Rightarrow> 'a log_state \<Rightarrow> 'a log_state option" where
  "NewLogStack new s =
     map_option (\<lambda>s1. ClearAttrs (s1\<lparr>ls_stack := new\<rparr>))
       (case ls_stack s of None \<Rightarrow> Some s | Some p \<Rightarrow> Finalize_from p s)"

definition DefaultLogStack :: "'a log_state \<Rightarrow> 'a log_state option" where
  "DefaultLogStack s =
     (case new_logger (LMem \<lparr>ml_entries = [], ml_next = None\<rparr>) s of (p, s1) \<Rightarrow> NewLogStack (Some p) s1)"

text \<open>
  \<open>Fatalf\<close> up to the call of the terminator; \<open>pre\<close> is what \<open>FailAction.Pre\<close> does to the log, the
  identity when it is nil.
\<close>

definition Fatalf ::
    "gotime \<Rightarrow> string \<Rightarrow> ('a log_state \<Rightarrow> 'a log_state) \<Rightarrow> string \<Rightarrow> 'a list \<Rightarrow> 'a log_state
      \<Rightarrow> (unit, 'a log_state) run" where
  "Fatalf now pfx pre f va s =
     (case ls_stack s of
        None \<Rightarrow> Some (Panics, s)
      | Some p \<Rightarrow>
          and_then
            (if lg_Next (ls_heap s ! p) = None \<and> lg_Ident (ls_heap s ! p) = MemLogIdent
             then and_then (AddConsoleLog 0 s) (\<lambda>_ s1. log_Log now ''Fatalf: logging unconfigured'' s1)
             else Some (Returns (), s))
            (\<lambda>_ s2. and_then (FlaggedLogf now Fatal (pfx @ f) va s2) (\<lambda>_ s3. Finalize (pre s3))))"

section \<open>Walks along a chain\<close>

abbreviation stack_idents :: "'a log_state \<Rightarrow> addr list \<Rightarrow> string list" where
  "stack_idents s ps \<equiv> map (\<lambda>a. lg_Ident (ls_heap s ! a)) ps"

abbreviation linked :: "'a log_state \<Rightarrow> addr option \<Rightarrow> addr list \<Rightarrow> bool" where
  "linked s p ps \<equiv> chain lg_Next (ls_heap s) p ps"

text \<open>A well-formed stack: a finite chain of loggers of different kinds, starting at \<open>logStack\<close>.\<close>

definition stack_ok :: "'a log_state \<Rightarrow> addr list \<Rightarrow> bool" where
  "stack_ok s ps \<longleftrightarrow> ps \<noteq> [] \<and> linked s (ls_stack s) ps \<and> distinct (stack_idents s ps)"

lemma heap_add_step: "ls_heap (add_step e a s) = (ls_heap s)[a := fst (lg_AddEntry e (ls_heap s ! a) (ls_world s))]"
  by (simp add: add_step_def split: prod.split)

lemma heap_fin_step: "ls_heap (fin_step a s) = (ls_heap s)[a := fst (lg_Finalize (ls_heap s ! a) (ls_world s))]"
  by (simp add: fin_step_def split: prod.split)

lemma stack_add_step [simp]: "ls_stack (add_step e a s) = ls_stack s"
  by (simp add: add_step_def split: prod.split)

lemma stack_fin_step [simp]: "ls_stack (fin_step a s) = ls_stack s"
  by (simp add: fin_step_def split: prod.split)

lemma world_add_step: "ls_world (add_step e a s) = snd (lg_AddEntry e (ls_heap s ! a) (ls_world s))"
  by (simp add: add_step_def split: prod.split)

lemma world_fin_step: "ls_world (fin_step a s) = snd (lg_Finalize (ls_heap s ! a) (ls_world s))"
  by (simp add: fin_step_def split: prod.split)

lemma length_add_step [simp]: "length (ls_heap (add_step e a s)) = length (ls_heap s)"
  by (simp add: heap_add_step)

lemma length_fin_step [simp]: "length (ls_heap (fin_step a s)) = length (ls_heap s)"
  by (simp add: heap_fin_step)

lemma linked_add_step [simp]: "a < length (ls_heap s) \<Longrightarrow> linked (add_step e a s) p ps \<longleftrightarrow> linked s p ps"
  by (simp add: heap_add_step lg.chain_Add)

lemma linked_fin_step [simp]: "a < length (ls_heap s) \<Longrightarrow> linked (fin_step a s) p ps \<longleftrightarrow> linked s p ps"
  by (simp add: heap_fin_step lg.chain_Fin)

lemma Next_add_step [simp]: "lg_Next (ls_heap (add_step e a s) ! b) = lg_Next (ls_heap s ! b)"
  by (cases "a < length (ls_heap s)") (auto simp: heap_add_step nth_list_update list_update_beyond not_less)

lemma Next_fin_step [simp]: "lg_Next (ls_heap (fin_step a s) ! b) = lg_Next (ls_heap s ! b)"
  by (cases "a < length (ls_heap s)") (auto simp: heap_fin_step nth_list_update list_update_beyond not_less)

lemma Ident_add_step [simp]: "lg_Ident (ls_heap (add_step e a s) ! b) = lg_Ident (ls_heap s ! b)"
  by (cases "a < length (ls_heap s)") (auto simp: heap_add_step nth_list_update list_update_beyond not_less)

lemma Ident_fin_step [simp]: "lg_Ident (ls_heap (fin_step a s) ! b) = lg_Ident (ls_heap s ! b)"
  by (cases "a < length (ls_heap s)") (auto simp: heap_fin_step nth_list_update list_update_beyond not_less)

lemma AddEntry_chain:
  "linked s (Some p) (p # ps) \<Longrightarrow> AddEntry e p s = Some (fold (add_step e) (p # ps) s)"
proof (induction ps arbitrary: p s)
  case Nil
  then show ?case by (subst AddEntry.simps) simp
next
  case (Cons q ps)
  then have "AddEntry e q (add_step e p s) = Some (fold (add_step e) (q # ps) (add_step e p s))"
    by (intro Cons.IH) auto
  then show ?case
    using Cons.prems by (subst AddEntry.simps) simp
qed

lemma Finalize_from_chain:
  "linked s (Some p) (p # ps) \<Longrightarrow> Finalize_from p s = Some (fold fin_step (p # ps) s)"
proof (induction ps arbitrary: p s)
  case Nil
  then show ?case by (subst Finalize_from.simps) simp
next
  case (Cons q ps)
  then have "Finalize_from q (fin_step p s) = Some (fold fin_step (q # ps) (fin_step p s))"
    by (intro Cons.IH) auto
  then show ?case
    using Cons.prems by (subst Finalize_from.simps) simp
qed

lemma ForwardFrom_chain:
  "linked s (Some p) (p # ps) \<Longrightarrow>
   ForwardFrom l p s = Some (if lg_Ident l \<in> set (stack_idents s (p # ps)) then Some (lg_Ident l) else None)"
proof (induction ps arbitrary: p)
  case Nil
  then show ?case by (subst ForwardFrom.simps) auto
next
  case (Cons q ps)
  then have "ForwardFrom l q s =
      Some (if lg_Ident l \<in> set (stack_idents s (q # ps)) then Some (lg_Ident l) else None)"
    by (intro Cons.IH) auto
  then show ?case
    using Cons.prems by (subst ForwardFrom.simps) auto
qed

lemma find_from_chain:
  "linked s p ps \<Longrightarrow> find_from i p s = Some (find (\<lambda>a. lg_Ident (ls_heap s ! a) = i) ps)"
proof (induction ps arbitrary: p)
  case Nil
  then show ?case by (subst find_from.simps) simp
next
  case (Cons a ps)
  then show ?case by (subst find_from.simps) auto
qed

lemma fold_step_frame:
  assumes "\<And>a s. ls_stack (f a s) = ls_stack s" "\<And>a s. length (ls_heap (f a s)) = length (ls_heap s)"
    "\<And>a b s. lg_Ident (ls_heap (f a s) ! b) = lg_Ident (ls_heap s ! b)"
    "\<And>a s p qs. a < length (ls_heap s) \<Longrightarrow> linked (f a s) p qs \<longleftrightarrow> linked s p qs"
  shows "list_all (\<lambda>a. a < length (ls_heap s)) as \<Longrightarrow>
    ls_stack (fold f as s) = ls_stack s \<and> length (ls_heap (fold f as s)) = length (ls_heap s)
    \<and> (\<forall>b. lg_Ident (ls_heap (fold f as s) ! b) = lg_Ident (ls_heap s ! b))
    \<and> (\<forall>p qs. linked (fold f as s) p qs \<longleftrightarrow> linked s p qs)"
  by (induction as arbitrary: s) (auto simp: assms)

lemma fold_add_frame:
  "list_all (\<lambda>a. a < length (ls_heap s)) as \<Longrightarrow>
    ls_stack (fold (add_step e) as s) = ls_stack s \<and> length (ls_heap (fold (add_step e) as s)) = length (ls_heap s)
    \<and> (\<forall>b. lg_Ident (ls_heap (fold (add_step e) as s) ! b) = lg_Ident (ls_heap s ! b))
    \<and> (\<forall>p qs. linked (fold (add_step e) as s) p qs \<longleftrightarrow> linked s p qs)"
  by (rule fold_step_frame) simp_all

lemma fold_fin_frame:
  "list_all (\<lambda>a. a < length (ls_heap s)) as \<Longrightarrow>
    ls_stack (fold fin_step as s) = ls_stack s \<and> length (ls_heap (fold fin_step as s)) = length (ls_heap s)
    \<and> (\<forall>b. lg_Ident (ls_heap (fold fin_step as s) ! b) = lg_Ident (ls_heap s ! b))
    \<and> (\<forall>p qs. linked (fold fin_step as s) p qs \<longleftrightarrow> linked s p qs)"
  by (rule fold_step_frame) simp_all

lemma stack_ok_bound: "stack_ok s ps \<Longrightarrow> list_all (\<lambda>a. a < length (ls_heap s)) ps"
  using chain_bound by (force simp: stack_ok_def list_all_iff)

lemma stack_ok_cases:
  assumes "stack_ok s ps"
  obtains p qs where "ps = p # qs" "ls_stack s = Some p" "linked s (Some p) (p # qs)"
  using assms by (cases ps) (auto simp: stack_ok_def)

lemma stack_ok_frame:
  assumes "stack_ok s ps" "ls_stack t = ls_stack s"
    "\<And>b. lg_Ident (ls_heap t ! b) = lg_Ident (ls_heap s ! b)"
    "linked t (ls_stack s) ps \<longleftrightarrow> linked s (ls_stack s) ps"
  shows "stack_ok t ps"
  using assms by (simp add: stack_ok_def)

lemma stack_ok_fold_add: "stack_ok s ps \<Longrightarrow> stack_ok (fold (add_step e) ps s) ps"
  by (frule stack_ok_bound, drule fold_add_frame, erule stack_ok_frame) blast+

lemma stack_ok_fold_fin: "stack_ok s ps \<Longrightarrow> stack_ok (fold fin_step ps s) ps"
  by (frule stack_ok_bound, drule fold_fin_frame, erule stack_ok_frame) blast+

lemma FlaggedLogf_chain:
  assumes "stack_ok s ps"
  shows "FlaggedLogf now fl f va s =
    Some (Returns (), fold (add_step \<lparr>le_Time = now, le_Msg = f, le_Args = va, le_Flags = fl\<rparr>) ps s)"
  by (rule stack_ok_cases [OF assms]) (simp add: FlaggedLogf_def AddEntry_chain del: fold.simps)

lemma Finalize_chain: "stack_ok s ps \<Longrightarrow> Finalize s = Some (Returns (), fold fin_step ps s)"
  by (erule stack_ok_cases) (simp add: Finalize_def Finalize_from_chain del: fold.simps)

section \<open>Adding and removing\<close>

lemma is_mem_iff: "is_mem l \<longleftrightarrow> lg_Ident l = MemLogIdent"
  by (cases l) (simp_all add: mem_Ident_def file_Ident_def console_Ident_def lcd_Ident_def MemLogIdent_def
      FileLogIdent_def ConsoleLogIdent_def LcdLogIdent_def)

text \<open>The entries the memory logger of the stack holds.\<close>

definition stored :: "'a log_state \<Rightarrow> addr list \<Rightarrow> 'a LogEntry list" where
  "stored s ps =
     (case find (\<lambda>a. lg_Ident (ls_heap s ! a) = MemLogIdent) ps of
        None \<Rightarrow> []
      | Some m \<Rightarrow> Entries (ls_heap s ! m))"

lemma add_all_single:
  "p < length (ls_heap s) \<Longrightarrow> lg_Next (ls_heap s ! p) = None \<Longrightarrow>
   add_all p es s = Some (fold (\<lambda>e. add_step e p) es s)"
  by (induction es arbitrary: s) (simp_all add: AddEntry_chain [where ps = "[]"])

lemma addPreviousEvents_chain:
  assumes "stack_ok s ps" "p < length (ls_heap s)" "lg_Next (ls_heap s ! p) = None"
  shows "addPreviousEvents p s =
    Some (fold (\<lambda>e. add_step e p) (if is_mem (ls_heap s ! p) then [] else stored s ps) s)"
proof -
  have "FindInStack MemLogIdent s = Some (find (\<lambda>a. lg_Ident (ls_heap s ! a) = MemLogIdent) ps)"
    using assms(1) by (simp add: FindInStack_def stack_ok_def find_from_chain)
  moreover have "is_mem (ls_heap s ! m)"
    if "find (\<lambda>a. lg_Ident (ls_heap s ! a) = MemLogIdent) ps = Some m" for m
    using that by (auto simp: is_mem_iff find_Some_iff)
  ultimately show ?thesis
    by (simp add: addPreviousEvents_def stored_def add_all_single [OF assms(2,3)] split: option.split)
qed

text \<open>The state \<open>AddLogger\<close> leaves, before the top of the stack is set: the earlier entries written, the
  new logger linked.\<close>

definition added :: "addr \<Rightarrow> 'a LogEntry list \<Rightarrow> 'a log_state \<Rightarrow> 'a log_state" where
  "added p es s = snd (forward p (ls_stack s) (fold (\<lambda>e. add_step e p) es s))"

lemma fold_add_at:
  "p < length (ls_heap s) \<Longrightarrow>
   ls_stack (fold (\<lambda>e. add_step e p) es s) = ls_stack s
   \<and> length (ls_heap (fold (\<lambda>e. add_step e p) es s)) = length (ls_heap s)
   \<and> lg_Next (ls_heap (fold (\<lambda>e. add_step e p) es s) ! b) = lg_Next (ls_heap s ! b)
   \<and> lg_Ident (ls_heap (fold (\<lambda>e. add_step e p) es s) ! b) = lg_Ident (ls_heap s ! b)
   \<and> (linked (fold (\<lambda>e. add_step e p) es s) q qs \<longleftrightarrow> linked s q qs)"
  by (induction es arbitrary: s) auto

lemma forward_eq:
  "forward p sl s = (fst (lg_ForwardTo sl (ls_heap s ! p)),
     s\<lparr>ls_heap := (ls_heap s)[p := snd (lg_ForwardTo sl (ls_heap s ! p))]\<rparr>)"
  by (simp add: forward_def split: prod.split)

lemma added_frame:
  assumes "p < length (ls_heap s)" "lg_Next (ls_heap s ! p) = None"
  shows "ls_stack (added p es s) = ls_stack s"
    and "length (ls_heap (added p es s)) = length (ls_heap s)"
    and "lg_Ident (ls_heap (added p es s) ! b) = lg_Ident (ls_heap s ! b)"
    and "lg_Next (ls_heap (added p es s) ! p) = ls_stack s"
    and "p \<notin> set qs \<Longrightarrow> linked (added p es s) q qs \<longleftrightarrow> linked s q qs"
    and "\<not> fst (forward p (ls_stack s) (fold (\<lambda>e. add_step e p) es s))"
proof -
  let ?t = "fold (\<lambda>e. add_step e p) es s"
  note f = fold_add_at [OF assms(1), of es]
  have t: "ls_stack ?t = ls_stack s" "length (ls_heap ?t) = length (ls_heap s)" "p < length (ls_heap ?t)"
    "lg_Next (ls_heap ?t ! p) = None"
    using f assms by auto
  have fw: "\<not> fst (lg_ForwardTo (ls_stack s) (ls_heap ?t ! p))"
    "lg_Next (snd (lg_ForwardTo (ls_stack s) (ls_heap ?t ! p))) = ls_stack s"
    using lg.Forward_free [of "ls_heap ?t ! p" "ls_stack s"] t(4) by auto
  show "ls_stack (added p es s) = ls_stack s" "length (ls_heap (added p es s)) = length (ls_heap s)"
    "\<not> fst (forward p (ls_stack s) ?t)"
    by (simp_all add: added_def forward_eq t fw)
  show "lg_Ident (ls_heap (added p es s) ! b) = lg_Ident (ls_heap s ! b)"
    using f [of b] t by (cases "p = b") (simp_all add: added_def forward_eq)
  show "lg_Next (ls_heap (added p es s) ! p) = ls_stack s"
    using t by (simp add: added_def forward_eq fw)
  show "p \<notin> set qs \<Longrightarrow> linked (added p es s) q qs \<longleftrightarrow> linked s q qs"
    using f by (simp add: added_def forward_eq chain_update_other)
qed

lemma AddLogger_chain:
  fixes s :: "'a log_state" and addPrevious :: bool
  assumes "stack_ok s ps" "p < length (ls_heap s)" "p \<notin> set ps" "lg_Next (ls_heap s ! p) = None"
  defines "es \<equiv> if addPrevious \<and> \<not> is_mem (ls_heap s ! p) then stored s ps else []"
  shows "AddLogger p addPrevious s =
    Some (if lg_Ident (ls_heap s ! p) \<in> set (stack_idents s ps)
          then (Returns (Inl (EDuplicate (lg_Ident (ls_heap s ! p)))), added p es s)
          else (Returns (Inr ()), (added p es s)\<lparr>ls_stack := Some p\<rparr>))"
proof -
  have prev: "(if addPrevious then addPreviousEvents p s else Some s) = Some (fold (\<lambda>e. add_step e p) es s)"
    by (simp add: addPreviousEvents_chain [OF assms(1,2,4)] es_def)
  note fr = added_frame [OF assms(2,4), where es = es]
  obtain q qs where ps: "ps = q # qs" "ls_stack s = Some q" "linked s (Some q) (q # qs)"
    using assms(1) by (rule stack_ok_cases)
  have st: "ls_stack (fold (\<lambda>e. add_step e p) es s) = Some q"
    using fold_add_at [OF assms(2)] ps(2) by metis
  have fwd: "forward p (Some q) (fold (\<lambda>e. add_step e p) es s) = (False, added p es s)"
    using fr(6) ps(2) by (metis added_def prod.collapse)
  have "ForwardFrom (ls_heap (added p es s) ! p) q (added p es s) =
      Some (if lg_Ident (ls_heap s ! p) \<in> set (stack_idents s ps) then Some (lg_Ident (ls_heap s ! p)) else None)"
    using fr(5) [of "q # qs" "Some q"] assms(3) ps by (subst ForwardFrom_chain [where ps = qs]) (auto simp: fr(3))
  then show ?thesis
    by (simp add: AddLogger_def prev st fwd fr(1) ps(2))
qed

lemma AddLogger_ok:
  assumes "stack_ok s ps" "p < length (ls_heap s)" "p \<notin> set ps" "lg_Next (ls_heap s ! p) = None"
  shows "stack_ok (added p es s) ps"
    and "lg_Ident (ls_heap s ! p) \<notin> set (stack_idents s ps) \<Longrightarrow>
      stack_ok ((added p es s)\<lparr>ls_stack := Some p\<rparr>) (p # ps)"
  using assms added_frame [OF assms(2,4), where es = es] by (auto simp: stack_ok_def)

text \<open>The logger at an address, cut off from the rest and finalised.\<close>

definition detached :: "addr \<Rightarrow> 'a log_state \<Rightarrow> 'a log_state" where
  "detached a s = fin_step a (snd (forward a None s))"

lemma heap_detached:
  "ls_heap (detached a s) =
     (ls_heap s)[a := fst (lg_Finalize (snd (lg_ForwardTo None (ls_heap s ! a))) (ls_world s))]"
  by (cases "a < length (ls_heap s)") (simp_all add: detached_def heap_fin_step forward_eq list_update_beyond)

lemma stack_detached [simp]: "ls_stack (detached a s) = ls_stack s"
  by (simp add: detached_def forward_eq)

lemma Ident_detached [simp]: "lg_Ident (ls_heap (detached a s) ! b) = lg_Ident (ls_heap s ! b)"
  by (cases "a < length (ls_heap s)") (auto simp: heap_detached nth_list_update list_update_beyond)

lemma Next_detached: "a < length (ls_heap s) \<Longrightarrow>
   lg_Next (ls_heap (detached a s) ! b) = (if b = a then None else lg_Next (ls_heap s ! b))"
  by (auto simp: heap_detached lg.Forward_None_ok)

lemma linked_detached: "linked s p (as @ a # bs) \<Longrightarrow> linked (detached a s) p (as @ [a])"
  by (simp add: heap_detached lg.chain_detach)

lemma Finalize_detached:
  "a < length (ls_heap s) \<Longrightarrow> Finalize_from a (snd (forward a None s)) = Some (detached a s)"
  by (subst Finalize_from_chain [where ps = "[]"]) (simp_all add: detached_def forward_eq lg.Forward_None_ok)

lemma remove_from_absent:
  "linked s l as \<Longrightarrow> i \<notin> set (stack_idents s as) \<Longrightarrow> remove_from i prev l s = Some (Returns (), s)"
proof (induction as arbitrary: prev l)
  case Nil
  then show ?case by (subst remove_from.simps) simp
next
  case (Cons a as)
  then show ?case by (subst remove_from.simps) auto
qed

lemma remove_from_present:
  "linked s l (as @ a # bs) \<Longrightarrow> lg_Ident (ls_heap s ! a) = i \<Longrightarrow> i \<notin> set (stack_idents s as) \<Longrightarrow>
   remove_from i prev l s =
     Some (case (if as = [] then prev else Some (last as)) of
             None \<Rightarrow> (Returns (), detached a s)
           | Some b \<Rightarrow>
               if fst (forward b (lg_Next (ls_heap s ! a)) (detached a s)) then (Panics, detached a s)
               else (Returns (), snd (forward b (lg_Next (ls_heap s ! a)) (detached a s))))"
proof (induction as arbitrary: prev l)
  case Nil
  then show ?case
    by (subst remove_from.simps) (auto simp: Finalize_detached split: option.split)
next
  case (Cons b as)
  then have "linked s (lg_Next (ls_heap s ! b)) (as @ a # bs)" "i \<notin> set (stack_idents s as)"
    "l = Some b" "lg_Ident (ls_heap s ! b) \<noteq> i"
    by auto
  then show ?case
    using Cons.IH [of "lg_Next (ls_heap s ! b)" "Some b"] Cons.prems(2)
    by (subst remove_from.simps) (cases "as = []", simp_all)
qed

text \<open>The outcome by the place of the logger in the stack.\<close>

lemma RemoveLogger_absent:
  "stack_ok s ps \<Longrightarrow> i \<notin> set (stack_idents s ps) \<Longrightarrow> RemoveLogger i s = Some (Returns (), s)"
  using remove_from_absent [of s "ls_stack s" ps i None] by (simp add: RemoveLogger_def stack_ok_def)

lemma RemoveLogger_top:
  assumes "stack_ok s (a # bs)" "lg_Ident (ls_heap s ! a) = i"
  shows "RemoveLogger i s = Some (Returns (), detached a s) \<and> stack_ok (detached a s) [a]"
proof -
  have "linked s (ls_stack s) ([] @ a # bs)"
    using assms(1) by (simp add: stack_ok_def)
  then show ?thesis
    using remove_from_present [of s "ls_stack s" "[]" a bs i None] linked_detached [of s "ls_stack s" "[]" a bs] assms(2)
    by (simp add: RemoveLogger_def stack_ok_def)
qed

lemma stack_ok_idents:
  assumes "stack_ok s (as @ a # bs)" "lg_Ident (ls_heap s ! a) = i"
  shows "i \<notin> set (stack_idents s as)"
  using assms by (auto simp: stack_ok_def)

lemma linked_last: "linked s p (as @ a # bs) \<Longrightarrow> as \<noteq> [] \<Longrightarrow> lg_Next (ls_heap s ! last as) = Some a"
  by (induction as arbitrary: p) (auto split: if_splits elim: chain.elims)

lemma RemoveLogger_middle:
  assumes "stack_ok s (as @ a # b # bs)" "as \<noteq> []" "lg_Ident (ls_heap s ! a) = i"
  shows "RemoveLogger i s = Some (Panics, detached a s) \<and> stack_ok (detached a s) (as @ [a])"
proof -
  have l: "linked s (ls_stack s) (as @ a # b # bs)"
    using assms(1) by (simp add: stack_ok_def)
  note la = linked_last [OF l assms(2)]
  have a: "a < length (ls_heap s)" "last as \<noteq> a" "lg_Next (ls_heap s ! a) = Some b"
    using chain_bound [OF l] chain_distinct [OF l] assms(2) chain_split [OF l] by auto
  have "fst (forward (last as) (Some b) (detached a s))"
    using a la by (simp add: forward_eq Next_detached lg.Forward_taken)
  then have "RemoveLogger i s = Some (Panics, detached a s)"
    using remove_from_present [OF l assms(3) stack_ok_idents [OF assms(1,3)], of None] a(3) assms(2)
    by (simp add: RemoveLogger_def)
  moreover have "stack_ok (detached a s) (as @ [a])"
    using assms(1) linked_detached [OF l] by (simp add: stack_ok_def)
  ultimately show ?thesis ..
qed

lemma RemoveLogger_bottom:
  assumes "stack_ok s (as @ [a])" "as \<noteq> []" "lg_Ident (ls_heap s ! a) = i"
  shows "RemoveLogger i s = Some (Returns (), snd (forward (last as) None (detached a s)))
    \<and> stack_ok (snd (forward (last as) None (detached a s))) as"
proof -
  have l: "linked s (ls_stack s) (as @ [a])"
    using assms(1) by (simp add: stack_ok_def)
  have a: "a < length (ls_heap s)" "last as \<noteq> a" "lg_Next (ls_heap s ! a) = None"
    using chain_bound [OF l] chain_distinct [OF l] assms(2) chain_split [OF l] by auto
  obtain bs b where as: "as = bs @ [b]"
    using assms(2) by (cases as rule: rev_cases) auto
  let ?t = "snd (forward b None (detached a s))"
  have ne: "\<not> fst (forward b None (detached a s))"
    by (simp add: forward_eq lg.Forward_None_ok)
  have r: "RemoveLogger i s = Some (Returns (), ?t)"
    using remove_from_present [OF l assms(3) stack_ok_idents [OF assms(1,3)], of None] a(3) ne
    by (simp add: RemoveLogger_def as)
  have "linked (detached a s) (ls_stack s) (bs @ b # [a])"
    using linked_detached [OF l] by (simp add: as)
  from chain_cut [OF this, of "snd (lg_ForwardTo None (ls_heap (detached a s) ! b))"]
  have "linked ?t (ls_stack s) as"
    by (simp add: as forward_eq lg.Forward_None_ok)
  moreover have "lg_Ident (ls_heap ?t ! c) = lg_Ident (ls_heap s ! c)" for c
    by (cases "b < length (ls_heap (detached a s))")
      (auto simp: forward_eq nth_list_update list_update_beyond)
  ultimately have "stack_ok ?t as"
    using assms(1,2) by (simp add: stack_ok_def forward_eq)
  then show ?thesis
    using r by (auto simp: as)
qed

section \<open>What a logger shows\<close>

text \<open>File handles refer to files that exist, and file loggers to handles that exist.\<close>

definition fds_ok :: "'a world \<Rightarrow> bool" where
  "fds_ok w \<longleftrightarrow> list_all (\<lambda>d. fst d < length (w_inodes w)) (w_fds w)
     \<and> (\<forall>path i. w_dir w path = Some i \<longrightarrow> i < length (w_inodes w))"

fun file_ok :: "'a world \<Rightarrow> 'a logger \<Rightarrow> bool" where
  "file_ok w (LFile l) = (case fl_f l of None \<Rightarrow> True | Some fd \<Rightarrow> fd < length (w_fds w))"
| "file_ok w _ = True"

definition files_ok :: "'a log_state \<Rightarrow> bool" where
  "files_ok s \<longleftrightarrow> fds_ok (ls_world s) \<and> list_all (file_ok (ls_world s)) (ls_heap s)"

lemma list_all_update: "list_all P xs \<Longrightarrow> P x \<Longrightarrow> list_all P (xs[i := x])"
  using set_update_subset_insert [of xs i x] by (auto simp: list_all_iff)

lemma file_ok_mono: "length (w_fds w) \<le> length (w_fds w') \<Longrightarrow> file_ok w l \<Longrightarrow> file_ok w' l"
  by (cases l) (auto split: option.splits)

lemma files_ok_mono:
  "list_all (file_ok w) ls \<Longrightarrow> length (w_fds w) \<le> length (w_fds w') \<Longrightarrow> list_all (file_ok w') ls"
  by (auto simp: list_all_iff intro: file_ok_mono)

lemma fd_write_frame [simp]:
  "w_fds (fd_write fd l w) = w_fds w" "w_dir (fd_write fd l w) = w_dir w"
  "w_stderr (fd_write fd l w) = w_stderr w" "w_lcd (fd_write fd l w) = w_lcd w"
  "length (w_inodes (fd_write fd l w)) = length (w_inodes w)"
  by (simp_all add: fd_write_def split: prod.split)

lemma lg_AddEntry_frame [simp]:
  "w_fds (snd (lg_AddEntry e l w)) = w_fds w" "w_dir (snd (lg_AddEntry e l w)) = w_dir w"
  "length (w_inodes (snd (lg_AddEntry e l w))) = length (w_inodes w)"
  by (cases l; simp add: mem_AddEntry_def file_AddEntry_def console_AddEntry_def lcd_AddEntry_def
      split: option.split)+

lemma lg_AddEntry_others:
  "lg_Ident l \<noteq> FileLogIdent \<Longrightarrow> w_inodes (snd (lg_AddEntry e l w)) = w_inodes w"
  "lg_Ident l \<noteq> ConsoleLogIdent \<Longrightarrow> w_stderr (snd (lg_AddEntry e l w)) = w_stderr w"
  "lg_Ident l \<noteq> LcdLogIdent \<Longrightarrow> w_lcd (snd (lg_AddEntry e l w)) = w_lcd w"
  by (cases l; simp add: mem_AddEntry_def file_AddEntry_def console_AddEntry_def lcd_AddEntry_def
      mem_Ident_def file_Ident_def console_Ident_def lcd_Ident_def split: option.split)+

text \<open>How an entry changes a logger itself: only the memory logger keeps it.\<close>

fun entered :: "'a LogEntry \<Rightarrow> 'a logger \<Rightarrow> 'a logger" where
  "entered e (LMem l) = LMem (l\<lparr>ml_entries := ml_entries l @ [e]\<rparr>)"
| "entered e l = l"

lemma fst_lg_AddEntry [simp]: "fst (lg_AddEntry e l w) = entered e l"
  by (cases l) (simp_all add: mem_AddEntry_def file_AddEntry_def console_AddEntry_def lcd_AddEntry_def)

lemma file_ok_entered [simp]: "file_ok w (entered e l) = file_ok w l"
  by (cases l) simp_all

lemma files_ok_update:
  assumes "files_ok s" "fds_ok w" "length (w_fds (ls_world s)) \<le> length (w_fds w)" "file_ok w l"
  shows "files_ok (s\<lparr>ls_heap := (ls_heap s)[a := l], ls_world := w\<rparr>)"
  using assms by (auto simp: files_ok_def intro!: list_all_update elim: files_ok_mono)

lemma add_step_eq:
  "add_step e a s = s\<lparr>ls_heap := (ls_heap s)[a := entered e (ls_heap s ! a)],
     ls_world := snd (lg_AddEntry e (ls_heap s ! a) (ls_world s))\<rparr>"
  by (simp add: add_step_def case_prod_beta)

lemma fin_step_eq:
  "fin_step a s = s\<lparr>ls_heap := (ls_heap s)[a := fst (lg_Finalize (ls_heap s ! a) (ls_world s))],
     ls_world := snd (lg_Finalize (ls_heap s ! a) (ls_world s))\<rparr>"
  by (simp add: fin_step_def split: prod.split)

lemma files_ok_at: "files_ok s \<Longrightarrow> a < length (ls_heap s) \<Longrightarrow> file_ok (ls_world s) (ls_heap s ! a)"
  by (simp add: files_ok_def list_all_length)

lemma files_ok_add_step [simp]:
  assumes "a < length (ls_heap s)" "files_ok s"
  shows "files_ok (add_step e a s)"
proof -
  have "fds_ok (snd (lg_AddEntry e (ls_heap s ! a) (ls_world s)))"
    using assms(2) by (simp add: files_ok_def fds_ok_def)
  moreover have "file_ok (snd (lg_AddEntry e (ls_heap s ! a) (ls_world s))) (ls_heap s ! a)"
    by (rule file_ok_mono [OF _ files_ok_at [OF assms(2,1)]]) simp
  ultimately show ?thesis
    unfolding add_step_eq by (intro files_ok_update [OF assms(2)]) simp_all
qed

lemma fds_ok_close:
  assumes "fds_ok w" "fd < length (w_fds w)"
  shows "fds_ok (snd (fd_close fd w))" "length (w_fds (snd (fd_close fd w))) = length (w_fds w)"
  using assms list_all_update [of "\<lambda>d. fst d < length (w_inodes w)" "w_fds w" "(fst (w_fds w ! fd), False)" fd]
  by (auto simp: fd_close_def fds_ok_def list_all_length case_prod_beta)

lemma fds_ok_stderr [simp]: "fds_ok (w\<lparr>w_stderr := x\<rparr>) = fds_ok w"
  by (simp add: fds_ok_def)

lemma lg_Finalize_fds:
  assumes "fds_ok w" "file_ok w l"
  shows "fds_ok (snd (lg_Finalize l w)) \<and> length (w_fds (snd (lg_Finalize l w))) = length (w_fds w)"
  using assms fds_ok_close
  by (cases l) (auto simp: mem_Finalize_def file_Finalize_def console_Finalize_def lcd_Finalize_def
      case_prod_beta split: option.splits)

lemma file_ok_Finalize: "file_ok w l \<Longrightarrow> file_ok w' (fst (lg_Finalize l w))"
  by (cases l) (auto simp: mem_Finalize_def file_Finalize_def console_Finalize_def lcd_Finalize_def
      split: option.splits prod.splits)

lemma files_ok_fin_step [simp]:
  assumes "a < length (ls_heap s)" "files_ok s"
  shows "files_ok (fin_step a s)"
  using lg_Finalize_fds [OF _ files_ok_at [OF assms(2,1)]] assms(2) file_ok_Finalize [OF files_ok_at [OF assms(2,1)]]
  unfolding fin_step_eq by (intro files_ok_update [OF assms(2)]) (auto simp: files_ok_def)

lemma file_ok_ForwardTo [simp]: "file_ok w (snd (lg_ForwardTo sl l)) = file_ok w l"
  by (cases l) (simp_all add: mem_ForwardTo_def file_ForwardTo_def console_ForwardTo_def lcd_ForwardTo_def)

lemma files_ok_forward [simp]:
  "files_ok s \<Longrightarrow> files_ok (snd (forward a sl s))"
  by (cases "a < length (ls_heap s)")
    (auto simp: forward_eq files_ok_def files_ok_at list_update_beyond list_all_length nth_list_update)

lemma files_ok_new [simp]:
  "files_ok s \<Longrightarrow> file_ok (ls_world s) l \<Longrightarrow> files_ok (snd (new_logger l s))"
  by (simp add: new_logger_def files_ok_def)

lemma files_ok_fold:
  assumes "\<And>a s. a < length (ls_heap s) \<Longrightarrow> files_ok s \<Longrightarrow> files_ok (f a s)"
    "\<And>a s. length (ls_heap (f a s)) = length (ls_heap s)"
  shows "list_all (\<lambda>a. a < length (ls_heap s)) as \<Longrightarrow> files_ok s \<Longrightarrow> files_ok (fold f as s)"
  by (induction as arbitrary: s) (auto simp: assms)

lemma files_ok_fold_at: "p < length (ls_heap s) \<Longrightarrow> files_ok s \<Longrightarrow> files_ok (fold (\<lambda>e. add_step e p) es s)"
  by (induction es arbitrary: s) auto

lemma files_ok_added [simp]: "p < length (ls_heap s) \<Longrightarrow> files_ok s \<Longrightarrow> files_ok (added p es s)"
  by (simp add: added_def files_ok_fold_at)

lemma files_ok_detached [simp]: "a < length (ls_heap s) \<Longrightarrow> files_ok s \<Longrightarrow> files_ok (detached a s)"
  by (simp add: detached_def forward_eq files_ok_forward [unfolded forward_eq snd_conv])

lemma files_ok_stack [simp]: "files_ok (s\<lparr>ls_stack := x\<rparr>) = files_ok s" "files_ok (s\<lparr>ls_attrs := y\<rparr>) = files_ok s"
  by (simp_all add: files_ok_def)

lemma files_ok_Create:
  assumes "files_ok s" "os_Create path (ls_world s) = (fd, w)"
  shows "files_ok (s\<lparr>ls_world := w\<rparr>) \<and> fd < length (w_fds w) \<and> fd = length (w_fds (ls_world s))"
proof -
  have "fds_ok w" "length (w_fds w) = Suc (length (w_fds (ls_world s)))" "fd = length (w_fds (ls_world s))"
    using assms
    by (fastforce simp: os_Create_def files_ok_def fds_ok_def list_all_iff less_Suc_eq split: option.splits
        if_splits)+
  moreover have "list_all (file_ok w) (ls_heap s)"
    using assms(1) calculation(2) by (auto simp: files_ok_def elim: files_ok_mono)
  ultimately show ?thesis by (simp add: files_ok_def)
qed

lemma files_ok_discard:
  assumes "files_ok s" "fd < length (w_fds (ls_world s))"
  shows "files_ok (discard_file fd path s)"
proof -
  let ?w = "os_Remove path (snd (fd_close fd (ls_world s)))"
  have "fds_ok ?w" "length (w_fds ?w) = length (w_fds (ls_world s))"
    using fds_ok_close [of "ls_world s" fd] assms by (auto simp: os_Remove_def fds_ok_def files_ok_def)
  moreover have "list_all (file_ok ?w) (ls_heap s)"
    using assms(1) calculation(2) by (auto simp: files_ok_def elim: files_ok_mono)
  ultimately show ?thesis by (simp add: discard_file_def files_ok_def)
qed

end
