(* ===== verification/LogSpec.thy ===== *)
theory LogSpec
  imports Log
begin

text \<open>
  What the stack of loggers promises: it stays a chain of loggers of different kinds under every sequence
  of operations, an entry reaches every logger of the stack once, a new file log starts with the entries
  logged so far, and a logger can be removed only where nothing lies below it.
\<close>

section \<open>One entry\<close>

lemma find_split:
  assumes "find (\<lambda>a. f a = k) ps = Some a" "distinct (map f ps)"
  obtains as bs where "ps = as @ a # bs" "k \<notin> set (map f as)" "k \<notin> set (map f bs)" "f a = k"
proof -
  from assms(1) have "a \<in> set ps" "f a = k"
    by (auto simp: find_Some_iff)
  then obtain as bs where "ps = as @ a # bs"
    by (meson split_list)
  with assms(2) \<open>f a = k\<close> show ?thesis
    by (intro that) auto
qed

lemma heap_fold_other: "b \<notin> set ps \<Longrightarrow> ls_heap (fold (add_step e) ps s) ! b = ls_heap s ! b"
  by (induction ps arbitrary: s) (auto simp: add_step_eq)

lemma heap_fold_entered:
  "distinct ps \<Longrightarrow> list_all (\<lambda>a. a < length (ls_heap s)) ps \<Longrightarrow> b \<in> set ps \<Longrightarrow>
   ls_heap (fold (add_step e) ps s) ! b = entered e (ls_heap s ! b)"
proof (induction ps arbitrary: s)
  case (Cons a ps)
  show ?case
  proof (cases "b = a")
    case True
    with Cons.prems show ?thesis
      by (simp add: heap_fold_other) (simp add: add_step_eq)
  next
    case False
    with Cons.prems show ?thesis
      by (simp add: Cons.IH) (simp add: add_step_eq)
  qed
qed simp

text \<open>Loggers of other kinds leave a sink alone.\<close>

lemma world_fold_others:
  "FileLogIdent \<notin> set (stack_idents s ps) \<Longrightarrow>
     w_inodes (ls_world (fold (add_step e) ps s)) = w_inodes (ls_world s)"
  "ConsoleLogIdent \<notin> set (stack_idents s ps) \<Longrightarrow>
     w_stderr (ls_world (fold (add_step e) ps s)) = w_stderr (ls_world s)"
  "LcdLogIdent \<notin> set (stack_idents s ps) \<Longrightarrow>
     w_lcd (ls_world (fold (add_step e) ps s)) = w_lcd (ls_world s)"
  by (induction ps arbitrary: s) (auto simp: world_add_step lg_AddEntry_others)

lemma world_fold_frame [simp]:
  "w_fds (ls_world (fold (add_step e) ps s)) = w_fds (ls_world s)"
  "w_dir (ls_world (fold (add_step e) ps s)) = w_dir (ls_world s)"
  by (induction ps arbitrary: s) (auto simp: world_add_step)

lemma Ident_fold [simp]: "lg_Ident (ls_heap (fold (add_step e) ps s) ! b) = lg_Ident (ls_heap s ! b)"
  by (induction ps arbitrary: s) auto

text \<open>
  The abstract view of a stack: the stored entries, the content of the open log file, the flags of the
  console and of the display, each absent when the stack has no such logger; and what was printed.
\<close>

record 'a log_view =
  lv_memory :: "'a LogEntry list option"
  lv_file :: "'a line list option"
  lv_console :: "Flag option"
  lv_display :: "Flag option"
  lv_stderr :: "'a errline list"
  lv_lcd :: "'a line list"

definition kind_of :: "string \<Rightarrow> 'a log_state \<Rightarrow> addr list \<Rightarrow> 'a logger option" where
  "kind_of i s ps = map_option ((!) (ls_heap s)) (find (\<lambda>a. lg_Ident (ls_heap s ! a) = i) ps)"

fun file_content :: "'a world \<Rightarrow> 'a logger \<Rightarrow> 'a line list option" where
  "file_content w (LFile l) =
     (case fl_f l of
        None \<Rightarrow> None
      | Some fd \<Rightarrow> if snd (w_fds w ! fd) then Some (w_inodes w ! fst (w_fds w ! fd)) else None)"
| "file_content w _ = None"

fun sink_flags :: "'a logger \<Rightarrow> Flag" where
  "sink_flags (LConsole l) = cl_flags l"
| "sink_flags (LLcd l) = ll_opts l"
| "sink_flags _ = 0"

definition log_view_of :: "'a log_state \<Rightarrow> addr list \<Rightarrow> 'a log_view" where
  "log_view_of s ps =
     \<lparr>lv_memory = map_option Entries (kind_of MemLogIdent s ps),
      lv_file = Option.bind (kind_of FileLogIdent s ps) (file_content (ls_world s)),
      lv_console = map_option sink_flags (kind_of ConsoleLogIdent s ps),
      lv_display = map_option sink_flags (kind_of LcdLogIdent s ps),
      lv_stderr = w_stderr (ls_world s),
      lv_lcd = w_lcd (ls_world s)\<rparr>"

text \<open>The specification of logging an entry: each sink gets it at most once, by its flags.\<close>

definition log_spec :: "'a LogEntry \<Rightarrow> 'a log_view \<Rightarrow> 'a log_view" where
  "log_spec e v =
     v\<lparr>lv_memory := map_option (\<lambda>es. es @ [e]) (lv_memory v),
       lv_file := map_option (\<lambda>ls. if le_Flags e AND NotFile = 0 then ls @ [le_String e] else ls) (lv_file v),
       lv_stderr := lv_stderr v @ (case lv_console v of
         Some fl \<Rightarrow> if fl = 0 \<or> le_Flags e AND fl > 0 then [Line (le_String e)] else [] | None \<Rightarrow> []),
       lv_lcd := lv_lcd v @ (case lv_display v of
         Some fl \<Rightarrow> if le_Flags e AND fl \<noteq> 0 then [(le_Msg e, le_Args e)] else [] | None \<Rightarrow> [])\<rparr>"

lemma kind_of_fold:
  assumes "stack_ok s ps"
  shows "kind_of i (fold (add_step e) ps s) ps = map_option (entered e) (kind_of i s ps)"
proof -
  have d: "distinct ps" "list_all (\<lambda>a. a < length (ls_heap s)) ps"
    using assms stack_ok_bound [OF assms] chain_distinct by (auto simp: stack_ok_def)
  show ?thesis
  proof (cases "find (\<lambda>a. lg_Ident (ls_heap s ! a) = i) ps")
    case (Some a)
    then have "a \<in> set ps"
      by (auto simp: find_Some_iff)
    with Some show ?thesis
      by (simp add: kind_of_def heap_fold_entered [OF d])
  qed (simp add: kind_of_def)
qed

lemma kind_of_Ident: "kind_of i s ps = Some l \<Longrightarrow> lg_Ident l = i"
  by (auto simp: kind_of_def find_Some_iff)

lemma kind_of_None: "kind_of i s ps = None \<longleftrightarrow> i \<notin> set (stack_idents s ps)"
  by (auto simp: kind_of_def find_None_iff)

text \<open>Splitting a stack at the one logger of a kind.\<close>

lemma kind_of_split:
  assumes "stack_ok s ps" "kind_of i s ps = Some l"
  obtains as a bs where "ps = as @ a # bs" "i \<notin> set (stack_idents s as)" "i \<notin> set (stack_idents s bs)"
    "ls_heap s ! a = l" "a \<notin> set as" "a < length (ls_heap s)"
proof -
  obtain a where a: "find (\<lambda>a. lg_Ident (ls_heap s ! a) = i) ps = Some a" "ls_heap s ! a = l"
    using assms(2) by (auto simp: kind_of_def)
  have "distinct (stack_idents s ps)"
    using assms(1) by (simp add: stack_ok_def)
  then obtain as bs where "ps = as @ a # bs" "i \<notin> set (stack_idents s as)" "i \<notin> set (stack_idents s bs)"
    by (rule find_split [OF a(1)])
  moreover have "distinct ps" "a < length (ls_heap s)"
    using assms(1) calculation(1) chain_distinct chain_bound by (fastforce simp: stack_ok_def)+
  ultimately show ?thesis
    using a(2) that [of as a bs] by auto
qed

lemma Ident_ConsoleD: "lg_Ident l = ConsoleLogIdent \<Longrightarrow> \<exists>c. l = LConsole c"
  and Ident_LcdD: "lg_Ident l = LcdLogIdent \<Longrightarrow> \<exists>c. l = LLcd c"
  and Ident_FileD: "lg_Ident l = FileLogIdent \<Longrightarrow> \<exists>c. l = LFile c"
  and Ident_MemD: "lg_Ident l = MemLogIdent \<Longrightarrow> \<exists>c. l = LMem c"
  by (cases l; simp add: mem_Ident_def file_Ident_def console_Ident_def lcd_Ident_def MemLogIdent_def
      FileLogIdent_def ConsoleLogIdent_def LcdLogIdent_def)+

lemma stderr_fold:
  assumes "stack_ok s ps"
  shows "w_stderr (ls_world (fold (add_step e) ps s)) = w_stderr (ls_world s) @
    (case map_option sink_flags (kind_of ConsoleLogIdent s ps) of
       Some fl \<Rightarrow> if fl = 0 \<or> le_Flags e AND fl > 0 then [Line (le_String e)] else [] | None \<Rightarrow> [])"
proof (cases "kind_of ConsoleLogIdent s ps")
  case None
  then show ?thesis
    using None by (simp add: world_fold_others(2) kind_of_None [THEN iffD1, OF None] del: set_map)
next
  case (Some l)
  obtain c where l: "l = LConsole c"
    using kind_of_Ident [OF Some] Ident_ConsoleD by blast
  obtain as a bs where ps: "ps = as @ a # bs" "ConsoleLogIdent \<notin> set (stack_idents s as)"
    "ConsoleLogIdent \<notin> set (stack_idents s bs)" "ls_heap s ! a = l" "a \<notin> set as"
    by (rule kind_of_split [OF assms Some])
  let ?t = "fold (add_step e) as s"
  have "w_stderr (ls_world ?t) = w_stderr (ls_world s)" "ls_heap ?t ! a = LConsole c"
    using ps(2,4,5) l by (simp_all add: world_fold_others(2) heap_fold_other)
  then show ?thesis
    using ps(3) unfolding Some l unfolding ps(1)
    by (simp add: world_fold_others(2) world_add_step console_AddEntry_def)
qed

lemma lcd_fold:
  assumes "stack_ok s ps"
  shows "w_lcd (ls_world (fold (add_step e) ps s)) = w_lcd (ls_world s) @
    (case map_option sink_flags (kind_of LcdLogIdent s ps) of
       Some fl \<Rightarrow> if le_Flags e AND fl \<noteq> 0 then [(le_Msg e, le_Args e)] else [] | None \<Rightarrow> [])"
proof (cases "kind_of LcdLogIdent s ps")
  case None
  then show ?thesis
    using None by (simp add: world_fold_others(3) kind_of_None [THEN iffD1, OF None] del: set_map)
next
  case (Some l)
  obtain c where l: "l = LLcd c"
    using kind_of_Ident [OF Some] Ident_LcdD by blast
  obtain as a bs where ps: "ps = as @ a # bs" "LcdLogIdent \<notin> set (stack_idents s as)"
    "LcdLogIdent \<notin> set (stack_idents s bs)" "ls_heap s ! a = l" "a \<notin> set as"
    by (rule kind_of_split [OF assms Some])
  let ?t = "fold (add_step e) as s"
  have "w_lcd (ls_world ?t) = w_lcd (ls_world s)" "ls_heap ?t ! a = LLcd c"
    using ps(2,4,5) l by (simp_all add: world_fold_others(3) heap_fold_other)
  then show ?thesis
    using ps(3) unfolding Some l unfolding ps(1)
    by (simp add: world_fold_others(3) world_add_step lcd_AddEntry_def)
qed

lemma file_fold:
  assumes "stack_ok s ps" "files_ok s" "kind_of FileLogIdent s ps = Some l"
  shows "file_content (ls_world (fold (add_step e) ps s)) l =
    map_option (\<lambda>ls. if le_Flags e AND NotFile = 0 then ls @ [le_String e] else ls) (file_content (ls_world s) l)"
proof -
  obtain c where l: "l = LFile c"
    using kind_of_Ident [OF assms(3)] Ident_FileD by blast
  obtain as a bs where ps: "ps = as @ a # bs" "FileLogIdent \<notin> set (stack_idents s as)"
    "FileLogIdent \<notin> set (stack_idents s bs)" "ls_heap s ! a = l" "a \<notin> set as" "a < length (ls_heap s)"
    by (rule kind_of_split [OF assms(1,3)])
  let ?t = "fold (add_step e) as s"
  have t: "w_inodes (ls_world ?t) = w_inodes (ls_world s)" "ls_heap ?t ! a = LFile c"
    using ps(2,4,5) l by (simp_all add: world_fold_others(1) heap_fold_other)
  have fin: "w_inodes (ls_world (fold (add_step e) ps s)) = w_inodes (ls_world (add_step e a ?t))"
    using ps(3) by (simp add: ps(1) world_fold_others(1))
  show ?thesis
  proof (cases "fl_f c")
    case None
    then show ?thesis by (simp add: l)
  next
    case (Some fd)
    have "fd < length (w_fds (ls_world s))"
      using files_ok_at [OF assms(2) ps(6)] ps(4) l Some by simp
    then have i: "fst (w_fds (ls_world s) ! fd) < length (w_inodes (ls_world s))"
      using assms(2) by (simp add: files_ok_def fds_ok_def list_all_length)
    show ?thesis
      using i t fin by (simp add: l Some world_add_step file_AddEntry_def fd_write_def case_prod_beta)
  qed
qed

lemma sink_flags_entered [simp]: "sink_flags (entered e l) = sink_flags l"
  by (cases l) simp_all

lemma file_content_entered [simp]: "file_content w (entered e l) = file_content w l"
  by (cases l) simp_all

lemma Entries_entered: "lg_Ident l = MemLogIdent \<Longrightarrow> Entries (entered e l) = Entries l @ [e]"
  by (auto dest: Ident_MemD)

lemma log_view_fold:
  assumes "stack_ok s ps" "files_ok s"
  shows "log_view_of (fold (add_step e) ps s) ps = log_spec e (log_view_of s ps)"
proof -
  let ?t = "fold (add_step e) ps s"
  note k = kind_of_fold [OF assms(1)]
  have "map_option Entries (kind_of MemLogIdent ?t ps) =
      map_option (\<lambda>es. es @ [e]) (map_option Entries (kind_of MemLogIdent s ps))"
    by (cases "kind_of MemLogIdent s ps") (auto simp: k Entries_entered dest: kind_of_Ident)
  moreover have "Option.bind (kind_of FileLogIdent ?t ps) (file_content (ls_world ?t)) =
      map_option (\<lambda>ls. if le_Flags e AND NotFile = 0 then ls @ [le_String e] else ls)
        (Option.bind (kind_of FileLogIdent s ps) (file_content (ls_world s)))"
    by (cases "kind_of FileLogIdent s ps") (auto simp: k file_fold [OF assms])
  moreover have "map_option sink_flags (kind_of i ?t ps) = map_option sink_flags (kind_of i s ps)" for i
    by (cases "kind_of i s ps") (simp_all add: k)
  ultimately show ?thesis
    unfolding log_view_of_def log_spec_def stderr_fold [OF assms(1)] lcd_fold [OF assms(1)] by simp
qed

lemma files_ok_fold_add: "stack_ok s ps \<Longrightarrow> files_ok s \<Longrightarrow> files_ok (fold (add_step e) ps s)"
  by (rule files_ok_fold [OF _ _ stack_ok_bound]) auto

lemma files_ok_fold_fin: "stack_ok s ps \<Longrightarrow> files_ok s \<Longrightarrow> files_ok (fold fin_step ps s)"
  by (rule files_ok_fold [OF _ _ stack_ok_bound]) auto

text \<open>The state at program start: a memory logger without entries.\<close>

definition initial_log :: "'a log_state" where
  "initial_log =
     \<lparr>ls_heap = [LMem \<lparr>ml_entries = [], ml_next = None\<rparr>], ls_stack = Some 0,
      ls_world = \<lparr>w_dir = (\<lambda>_. None), w_inodes = [], w_fds = [], w_stderr = [], w_lcd = []\<rparr>,
      ls_attrs = (\<lambda>_. None), ls_prefix = []\<rparr>"

lemma initial_ok: "stack_ok initial_log [0]" "files_ok initial_log"
  by (simp_all add: initial_log_def stack_ok_def files_ok_def fds_ok_def)

text \<open>
  C31: A logged entry reaches every logger of a well-formed stack exactly once: the call returns, the
  stack keeps its loggers, and its view changes as specified - the memory logger stores the entry, the
  open log file gets its line unless it is flagged not to, the console and the display print it
  according to their flags, and nothing else changes.
\<close>

theorem FlaggedLogf_delivers:
  assumes "stack_ok s ps" "files_ok s"
  shows "\<exists>t. FlaggedLogf now fl f va s = Some (Returns (), t)
    \<and> log_view_of t ps = log_spec \<lparr>le_Time = now, le_Msg = f, le_Args = va, le_Flags = fl\<rparr> (log_view_of s ps)
    \<and> stack_ok t ps \<and> files_ok t"
  by (rule exI [of _ "fold (add_step \<lparr>le_Time = now, le_Msg = f, le_Args = va, le_Flags = fl\<rparr>) ps s"])
    (simp add: FlaggedLogf_chain [OF assms(1)] log_view_fold [OF assms] stack_ok_fold_add [OF assms(1)]
      files_ok_fold_add [OF assms])

theorem FlaggedLogf_delivers_witness:
  "\<exists>t :: nat log_state. FlaggedLogf \<lparr>tm_Year = 2020, tm_Month = 1, tm_Day = 2, tm_Hour = 3, tm_Minute = 4\<rparr> EndUser ''up'' [7]
      initial_log = Some (Returns (), t)
    \<and> lv_memory (log_view_of t [0]) = Some [\<lparr>le_Time = \<lparr>tm_Year = 2020, tm_Month = 1, tm_Day = 2, tm_Hour = 3, tm_Minute = 4\<rparr>,
         le_Msg = ''up'', le_Args = [7], le_Flags = EndUser\<rparr>]"
proof -
  have "lv_memory (log_spec e (log_view_of initial_log [0])) = Some [e]" for e :: "nat LogEntry"
    by (simp add: log_view_of_def kind_of_def log_spec_def initial_log_def mem_Ident_def)
  then show ?thesis
    using FlaggedLogf_delivers [OF initial_ok] by metis
qed

section \<open>Removing a logger\<close>

text \<open>
  C32: \<open>RemoveLogger\<close>, on a well-formed stack that it leaves well-formed.  If no logger has the identifier, nothing
  changes.  The logger at the bottom, below another, is removed and the call returns.  The logger on top stays
  the only one: everything below it is lost, and the call returns.  For a logger in between the call panics, and
  the stack is left with that logger at the bottom: everything below it is lost.
\<close>

theorem RemoveLogger_by_position:
  assumes "stack_ok s ps"
  shows "(i \<notin> set (map (\<lambda>a. lg_Ident (ls_heap s ! a)) ps) \<longrightarrow> RemoveLogger i s = Some (Returns (), s))
    \<and> (\<forall>as a bs. ps = as @ a # bs \<and> lg_Ident (ls_heap s ! a) = i \<longrightarrow>
        (\<exists>t. RemoveLogger i s = Some (if as \<noteq> [] \<and> bs \<noteq> [] then Panics else Returns (), t)
           \<and> stack_ok t (if as \<noteq> [] \<and> bs = [] then as else as @ [a])))"
proof (intro conjI impI allI)
  assume "i \<notin> set (stack_idents s ps)"
  with assms show "RemoveLogger i s = Some (Returns (), s)"
    by (rule RemoveLogger_absent)
next
  fix as a bs assume p: "ps = as @ a # bs \<and> lg_Ident (ls_heap s ! a) = i"
  then have ok: "stack_ok s (as @ a # bs)" and i: "lg_Ident (ls_heap s ! a) = i"
    using assms by simp_all
  consider "as = []" | "as \<noteq> []" "bs = []" | b bs' where "as \<noteq> []" "bs = b # bs'"
    by (cases bs) auto
  then show "\<exists>t. RemoveLogger i s = Some (if as \<noteq> [] \<and> bs \<noteq> [] then Panics else Returns (), t)
      \<and> stack_ok t (if as \<noteq> [] \<and> bs = [] then as else as @ [a])"
  proof cases
    case 1
    with ok i show ?thesis
      using RemoveLogger_top [of s a bs i] by auto
  next
    case 2
    with ok i show ?thesis
      using RemoveLogger_bottom [of s as a i] by auto
  next
    case 3
    with ok i show ?thesis
      using RemoveLogger_middle [of s as a b bs' i] by auto
  qed
qed

text \<open>A stack of three: display, console, memory.\<close>

definition three_loggers :: "nat log_state" where
  "three_loggers = initial_log\<lparr>ls_heap := [LMem \<lparr>ml_entries = [], ml_next = None\<rparr>,
     LConsole \<lparr>cl_flags = 0, cl_next = Some 0\<rparr>, LLcd \<lparr>ll_opts = EndUser, ll_next = Some 1\<rparr>], ls_stack := Some 2\<rparr>"

lemma three_loggers_ok: "stack_ok three_loggers ([2] @ 1 # [0])"
  by (simp add: three_loggers_def stack_ok_def numeral_2_eq_2 mem_Ident_def console_Ident_def lcd_Ident_def
      MemLogIdent_def ConsoleLogIdent_def LcdLogIdent_def)

theorem RemoveLogger_by_position_witness:
  "RemoveLogger ''none'' three_loggers = Some (Returns (), three_loggers)
    \<and> (\<exists>t. RemoveLogger ConsoleLogIdent three_loggers = Some (Panics, t) \<and> stack_ok t [2, 1])
    \<and> (\<exists>t. RemoveLogger MemLogIdent three_loggers = Some (Returns (), t) \<and> stack_ok t [2, 1])"
proof -
  have "''none'' \<notin> set (map (\<lambda>a. lg_Ident (ls_heap three_loggers ! a)) ([2] @ 1 # [0]))"
    by (simp add: three_loggers_def numeral_2_eq_2 mem_Ident_def console_Ident_def lcd_Ident_def
        MemLogIdent_def ConsoleLogIdent_def LcdLogIdent_def)
  moreover have "lg_Ident (ls_heap three_loggers ! 1) = ConsoleLogIdent" "lg_Ident (ls_heap three_loggers ! 0) = MemLogIdent"
    by (simp_all add: three_loggers_def console_Ident_def mem_Ident_def)
  moreover have "[2::nat] @ 1 # [0] = [2] @ 1 # [0]" "[2::nat] @ 1 # [0] = [2, 1] @ 0 # []"
    by simp_all
  ultimately show ?thesis
    using RemoveLogger_by_position [OF three_loggers_ok, of "''none''"]
      RemoveLogger_by_position [OF three_loggers_ok, of ConsoleLogIdent, THEN conjunct2, rule_format, of "[2]" 1 "[0]"]
      RemoveLogger_by_position [OF three_loggers_ok, of MemLogIdent, THEN conjunct2, rule_format, of "[2, 1]" 0 "[]"]
    by simp
qed

section \<open>Sequences of operations\<close>

datatype 'a log_op =
    OpAddMem
  | OpAddConsole Flag
  | OpAddLcd bool Flag
  | OpAddNamedFile bool string
  | OpAddFile bool bool gotime string
  | OpSetPrefix string
  | OpLog gotime Flag string "'a list"
  | OpFatal gotime string string "'a list"
  | OpDump
  | OpRemove string
  | OpFinalize
  | OpReset

definition done_with :: "('r, 's) run \<Rightarrow> (unit, 's) run" where
  "done_with m = and_then m (\<lambda>_ s. Some (Returns (), s))"

fun exec_op :: "'a log_op \<Rightarrow> 'a log_state \<Rightarrow> (unit, 'a log_state) run" where
  "exec_op OpAddMem s = done_with (AddMemLog s)"
| "exec_op (OpAddConsole fl) s = done_with (AddConsoleLog fl s)"
| "exec_op (OpAddLcd lcd fl) s = done_with (AddLcdLog lcd fl s)"
| "exec_op (OpAddNamedFile c path) s = done_with (AddNamedFileLog c path s)"
| "exec_op (OpAddFile m c now dir) s = done_with (AddFileLog m c now dir s)"
| "exec_op (OpSetPrefix p) s = Some (Returns (), SetPrefix p s)"
| "exec_op (OpLog now fl f va) s = FlaggedLogf now fl f va s"
| "exec_op (OpFatal now pfx f va) s = Fatalf now pfx id f va s"
| "exec_op OpDump s = map_option (Pair (Returns ())) (DumpStderr s)"
| "exec_op (OpRemove i) s = RemoveLogger i s"
| "exec_op OpFinalize s = Finalize s"
| "exec_op OpReset s = map_option (Pair (Returns ())) (DefaultLogStack s)"

text \<open>A program that goes on after a panic: the outcomes and the last state.\<close>

fun run_ops :: "'a log_op list \<Rightarrow> 'a log_state \<Rightarrow> (unit outcome list \<times> 'a log_state) option" where
  "run_ops [] s = Some ([], s)"
| "run_ops (p # ps) s =
     (case exec_op p s of
        None \<Rightarrow> None
      | Some (r, t) \<Rightarrow> map_option (map_prod ((#) r) id) (run_ops ps t))"

definition log_inv :: "'a log_state \<Rightarrow> bool" where
  "log_inv s \<longleftrightarrow> (\<exists>ps. stack_ok s ps) \<and> files_ok s"

definition good :: "bool \<Rightarrow> ('r, 'a log_state) run \<Rightarrow> bool" where
  "good may_panic m \<longleftrightarrow> (\<exists>r t. m = Some (r, t) \<and> log_inv t \<and> (r = Panics \<longrightarrow> may_panic))"

lemma goodI: "m = Some (r, t) \<Longrightarrow> log_inv t \<Longrightarrow> (r = Panics \<Longrightarrow> b) \<Longrightarrow> good b m"
  by (auto simp: good_def)

lemma good_and_then: "good b m \<Longrightarrow> (\<And>r t. log_inv t \<Longrightarrow> good b (f r t)) \<Longrightarrow> good b (and_then m f)"
  unfolding good_def by (elim exE conjE, rename_tac r t, case_tac r) auto

lemma good_done [simp]: "good b m \<Longrightarrow> good b (done_with m)"
  unfolding done_with_def by (rule good_and_then) (auto intro: goodI)

lemma log_invI: "stack_ok t ps \<Longrightarrow> files_ok t \<Longrightarrow> log_inv t"
  by (auto simp: log_inv_def)

lemma log_invE:
  assumes "log_inv s"
  obtains ps where "stack_ok s ps" "files_ok s"
  using assms by (auto simp: log_inv_def)

lemma good_log: "log_inv s \<Longrightarrow> good b (FlaggedLogf now fl f va s)"
  by (erule log_invE, rule goodI [OF FlaggedLogf_chain])
    (auto intro: log_invI [OF stack_ok_fold_add files_ok_fold_add])

lemma good_Finalize: "log_inv s \<Longrightarrow> good b (Finalize s)"
  by (erule log_invE, rule goodI [OF Finalize_chain]) (auto intro: log_invI [OF stack_ok_fold_fin files_ok_fold_fin])

lemma stack_ok_new: "stack_ok s ps \<Longrightarrow> stack_ok (s\<lparr>ls_heap := ls_heap s @ [l]\<rparr>) ps"
  using stack_ok_bound [of s ps]
  by (auto simp: stack_ok_def chain_alloc list_all_iff nth_append cong: map_cong)

lemma fds_fold_at [simp]: "w_fds (ls_world (fold (\<lambda>e. add_step e p) es s)) = w_fds (ls_world s)"
  by (induction es arbitrary: s) (simp_all add: world_add_step)

lemma AddLogger_new:
  assumes "log_inv s" "file_ok (ls_world s) l" "lg_Next l = None" "new_logger l s = (p, s1)"
  shows "\<exists>r t. AddLogger p b s1 = Some (Returns r, t) \<and> log_inv t \<and> w_fds (ls_world t) = w_fds (ls_world s)"
proof -
  obtain ps where ps: "stack_ok s ps"
    using assms(1) by (auto simp: log_inv_def)
  have s1: "s1 = s\<lparr>ls_heap := ls_heap s @ [l]\<rparr>" "p = length (ls_heap s)"
    using assms(4) by (auto simp: new_logger_def)
  have pre: "stack_ok s1 ps" "p < length (ls_heap s1)" "p \<notin> set ps" "lg_Next (ls_heap s1 ! p) = None"
    using stack_ok_new [OF ps] stack_ok_bound [OF ps] assms(3) by (auto simp: s1 list_all_iff)
  have f: "files_ok s1"
    using files_ok_new [of s l] assms by (simp add: log_inv_def)
  have w: "w_fds (ls_world (added p es s1)) = w_fds (ls_world s)" for es
    by (simp add: added_def forward_eq) (simp add: s1)
  show ?thesis
    unfolding AddLogger_chain [OF pre]
    using AddLogger_ok [OF pre] f pre(2) w by (auto simp: log_inv_def)
qed

lemma good_AddLogger:
  "log_inv s \<Longrightarrow> file_ok (ls_world s) l \<Longrightarrow> lg_Next l = None \<Longrightarrow>
   good b (AddLogger (length (ls_heap s)) v (s\<lparr>ls_heap := ls_heap s @ [l]\<rparr>))"
  using AddLogger_new [of s l] by (fastforce simp: good_def new_logger_def)

lemma good_AddConsole: "log_inv s \<Longrightarrow> good b (AddConsoleLog fl s)"
  by (simp add: AddConsoleLog_def new_logger_def good_AddLogger)

lemma good_AddMem: "log_inv s \<Longrightarrow> good b (AddMemLog s)"
  by (simp add: AddMemLog_def new_logger_def good_AddLogger)

lemma good_AddLcd: "log_inv s \<Longrightarrow> good b (AddLcdLog h fl s)"
  by (auto simp: AddLcdLog_def new_logger_def good_AddLogger intro: goodI)

lemma log_inv_frame:
  assumes "log_inv s" "ls_heap t = ls_heap s" "ls_stack t = ls_stack s" "files_ok t"
  shows "log_inv t"
  using assms by (auto simp: log_inv_def stack_ok_def)

lemma log_inv_discard:
  assumes "log_inv s" "fd < length (w_fds (ls_world s))"
  shows "log_inv (discard_file fd path s)"
proof (rule log_inv_frame [OF assms(1)])
  show "files_ok (discard_file fd path s)"
    using assms by (simp add: files_ok_discard log_inv_def)
qed (simp_all add: discard_file_def)

lemma good_AddNamedFile: 
  assumes "log_inv s"
  shows "good b (AddNamedFileLog c path s)"
proof (cases c)
  case False
  then show ?thesis using assms by (auto simp: AddNamedFileLog_def intro: goodI)
next
  case True
  obtain fd w where w: "os_Create path (ls_world s) = (fd, w)"
    by (cases "os_Create path (ls_world s)")
  let ?s = "s\<lparr>ls_world := w\<rparr>" and ?l = "LFile \<lparr>fl_f = Some fd, fl_next = None\<rparr>"
  have fd: "files_ok ?s" "fd < length (w_fds w)"
    using files_ok_Create [OF _ w] assms by (auto simp: log_inv_def)
  have s: "log_inv ?s"
    by (rule log_inv_frame [OF assms]) (simp_all add: fd)
  obtain p s1 where n: "new_logger ?l ?s = (p, s1)"
    by (cases "new_logger ?l ?s")
  obtain r t where t: "AddLogger p True s1 = Some (Returns r, t)" "log_inv t"
    "w_fds (ls_world t) = w_fds w"
    using AddLogger_new [OF s _ _ n, of True] fd by auto
  have d: "log_inv (discard_file fd path t)"
    by (rule log_inv_discard [OF t(2)]) (simp add: t(3) fd)
  show ?thesis
  proof (cases r)
    case (Inl e)
    then show ?thesis
      by (intro goodI [where r = "Returns (Inl e)", OF _ d]) (simp_all add: AddNamedFileLog_def True w n t(1))
  next
    case (Inr u)
    show ?thesis
    proof (cases "ls_attrs t ''Filename''")
      case None
      have "log_inv (t\<lparr>ls_attrs := (ls_attrs t)(''Filename'' \<mapsto> path)\<rparr>)"
        by (rule log_inv_frame [OF t(2)]) (use t(2) in \<open>simp_all add: log_inv_def\<close>)
      with None Inr show ?thesis
        by (intro goodI [where r = "Returns (Inr path)"])
          (simp_all add: AddNamedFileLog_def True w n t(1) SetAttr_def)
    next
      case (Some a)
      with Inr show ?thesis
        by (intro goodI [where r = "Returns (Inl EAttrExists)", OF _ d])
          (simp_all add: AddNamedFileLog_def True w n t(1) SetAttr_def)
    qed
  qed
qed

lemma good_AddFile: "log_inv s \<Longrightarrow> good b (AddFileLog m c now dir s)"
  by (auto simp: AddFileLog_def good_AddNamedFile intro: goodI)

lemma good_Fatal:
  assumes "log_inv s"
  shows "good b (Fatalf now pfx id f va s)"
proof -
  obtain ps where "stack_ok s ps" "files_ok s"
    using assms by (rule log_invE)
  then obtain p where p: "ls_stack s = Some p"
    using stack_ok_cases by metis
  have "good b (if x then and_then (AddConsoleLog 0 s) (\<lambda>_ s1. log_Log now m s1) else Some (Returns (), s))" for x m
    using assms by (auto simp: log_Log_def Logf_def intro!: good_and_then good_AddConsole good_log intro: goodI)
  then show ?thesis
    unfolding Fatalf_def p by (simp add: good_and_then good_log good_Finalize)
qed

lemma good_Dump:
  assumes "log_inv s"
  shows "good b (map_option (Pair (Returns ())) (DumpStderr s))"
proof -
  obtain ps where ps: "stack_ok s ps" "files_ok s"
    using assms by (rule log_invE)
  have "FindInStack MemLogIdent s = Some (find (\<lambda>a. lg_Ident (ls_heap s ! a) = MemLogIdent) ps)"
    using ps(1) by (simp add: FindInStack_def stack_ok_def find_from_chain)
  moreover have "log_inv (s\<lparr>ls_world := (ls_world s)\<lparr>w_stderr := x\<rparr>\<rparr>)" for x
  proof (rule log_inv_frame [OF assms])
    have "file_ok ((ls_world s)\<lparr>w_stderr := x\<rparr>) = file_ok (ls_world s)"
      by (rule ext, rename_tac l, case_tac l) (auto split: option.split)
    then show "files_ok (s\<lparr>ls_world := (ls_world s)\<lparr>w_stderr := x\<rparr>\<rparr>)"
      using ps(2) by (simp add: files_ok_def)
  qed simp_all
  ultimately show ?thesis
    using assms by (auto simp: DumpStderr_def intro: goodI split: option.split)
qed

lemma good_Reset:
  assumes "log_inv s"
  shows "good b (map_option (Pair (Returns ())) (DefaultLogStack s))"
proof -
  obtain ps where ps: "stack_ok s ps" "files_ok s"
    using assms by (rule log_invE)
  let ?s = "s\<lparr>ls_heap := ls_heap s @ [LMem \<lparr>ml_entries = [], ml_next = None\<rparr>]\<rparr>"
  have s: "stack_ok ?s ps" "files_ok ?s"
    using stack_ok_new [OF ps(1)] ps(2) by (simp_all add: files_ok_def)
  obtain p qs where p: "ps = p # qs" "ls_stack ?s = Some p" "linked ?s (Some p) (p # qs)"
    using s(1) by (rule stack_ok_cases)
  let ?t = "fold fin_step ps ?s"
  have "Finalize_from p ?s = Some ?t"
    using p(1) Finalize_from_chain [OF p(3)] by simp
  moreover have h: "length (ls_heap ?t) = Suc (length (ls_heap s))"
    using fold_fin_frame [OF stack_ok_bound [OF s(1)]] by simp
  moreover have "lg_Next (ls_heap ?t ! length (ls_heap s)) = None"
  proof -
    have "lg_Next (ls_heap (fold fin_step qs u) ! b) = lg_Next (ls_heap u ! b)" for qs b and u :: "'a log_state"
      by (induction qs arbitrary: u) simp_all
    then show ?thesis by simp
  qed
  ultimately have "log_inv (ClearAttrs (?t\<lparr>ls_stack := Some (length (ls_heap s))\<rparr>))"
    using files_ok_fold_fin [OF s]
    by (auto simp: ClearAttrs_def stack_ok_def intro!: log_invI [where ps = "[length (ls_heap s)]"])
  then show ?thesis
    using \<open>Finalize_from p ?s = Some ?t\<close> p(2)
    by (auto simp: DefaultLogStack_def NewLogStack_def new_logger_def intro: goodI)
qed

fun is_remove :: "'a log_op \<Rightarrow> bool" where
  "is_remove (OpRemove i) = True"
| "is_remove _ = False"

lemma good_Remove:
  assumes "log_inv s"
  shows "good True (RemoveLogger i s)"
proof -
  obtain ps where ps: "stack_ok s ps" "files_ok s"
    using assms by (rule log_invE)
  show ?thesis
  proof (cases "i \<in> set (stack_idents s ps)")
    case False
    then show ?thesis
      using RemoveLogger_absent [OF ps(1)] assms by (auto intro: goodI)
  next
    case True
    then obtain as a bs where sp: "ps = as @ a # bs" "lg_Ident (ls_heap s ! a) = i"
      by (auto dest: split_list)
    have f: "files_ok (detached a s)"
      using ps stack_ok_bound [OF ps(1)] by (simp add: sp)
    have ok: "stack_ok s (as @ a # bs)"
      using ps(1) by (simp add: sp)
    consider "as = []" | b bs' where "as \<noteq> []" "bs = b # bs'" | "as \<noteq> []" "bs = []"
      by (cases bs) auto
    then show ?thesis
    proof cases
      case 1
      then show ?thesis
        using RemoveLogger_top [of s a bs i] ok sp(2) f by (auto intro!: goodI log_invI)
    next
      case (2 b bs')
      then show ?thesis
        using RemoveLogger_middle [of s as a b bs' i] ok sp(2) f by (auto intro!: goodI log_invI)
    next
      case 3
      then show ?thesis
        using RemoveLogger_bottom [of s as a i] ok sp(2) f by (auto intro!: goodI log_invI)
    qed
  qed
qed

lemma good_SetPrefix: "log_inv s \<Longrightarrow> good b (Some (Returns (), SetPrefix p s))"
  by (rule goodI [OF refl]) (auto simp: SetPrefix_def log_inv_def stack_ok_def files_ok_def)

lemma good_exec: "log_inv s \<Longrightarrow> good (is_remove p) (exec_op p s)"
  by (cases p) (simp_all add: good_AddConsole good_AddMem good_AddLcd good_AddNamedFile good_AddFile good_log good_Fatal
      good_Dump good_Finalize good_Reset good_Remove good_SetPrefix)

text \<open>
  C33: From any well-formed state, every sequence of operations runs to its end - no walk along the
  links fails to terminate - and leaves a stack that is a finite chain of loggers of different kinds
  whose files are open or closed handles of existing files; the only operation that can panic is the
  removal of a logger.
\<close>

theorem log_operations_safe:
  assumes "log_inv s"
  shows "\<exists>rs t. run_ops ops s = Some (rs, t) \<and> log_inv t
    \<and> list_all2 (\<lambda>p r. r = Panics \<longrightarrow> is_remove p) ops rs"
  using assms
proof (induction ops arbitrary: s)
  case (Cons p ops)
  obtain r t where t: "exec_op p s = Some (r, t)" "log_inv t" "r = Panics \<longrightarrow> is_remove p"
    using good_exec [OF Cons.prems, of p] by (auto simp: good_def)
  obtain rs u where "run_ops ops t = Some (rs, u)" "log_inv u"
    "list_all2 (\<lambda>p r. r = Panics \<longrightarrow> is_remove p) ops rs"
    using Cons.IH [OF t(2)] by auto
  with t show ?case by auto
qed simp

lemma initial_inv: "log_inv initial_log"
  using initial_ok by (rule log_invI)

theorem log_operations_safe_witness:
  "\<exists>rs t. run_ops [OpAddNamedFile True ''a.log'', OpAddConsole NA, OpRemove MemLogIdent, OpReset] (initial_log :: nat log_state)
     = Some (rs, t) \<and> log_inv t \<and> length rs = 4"
proof -
  obtain rs and t :: "nat log_state" where
    "run_ops [OpAddNamedFile True ''a.log'', OpAddConsole NA, OpRemove MemLogIdent, OpReset] initial_log = Some (rs, t)"
    "log_inv t"
    "list_all2 (\<lambda>p r. r = Panics \<longrightarrow> is_remove p)
      [OpAddNamedFile True ''a.log'', OpAddConsole NA, OpRemove MemLogIdent, OpReset :: nat log_op] rs"
    using log_operations_safe [OF initial_inv] by blast
  then show ?thesis
    by (auto dest: list_all2_lengthD)
qed

text \<open>
  Adding a second file log under the name of the first fails as a duplicate, and the clean-up then
  truncates and removes the file the first one is writing, which stays in the stack.
\<close>

definition second_file_log :: "nat log_state option" where
  "second_file_log =
     map_option snd (run_ops [OpAddNamedFile True ''a.log'', OpAddNamedFile True ''a.log''] initial_log)"

lemma second_file_log_removes_file:
  "case second_file_log of
     Some t \<Rightarrow> w_dir (ls_world t) ''a.log'' = None \<and> LoggingToFile t = Some True
   | None \<Rightarrow> False"
  by code_simp

end
