(* ===== verification/UpdSort.thy ===== *)
theory UpdSort
  imports Complex_Main GoStd "HOL-Library.Multiset"
begin

text \<open>
  The order of update files (\<open>pkg/recovery/archive/sort.go\<close>).  The date and the build number of a name
  are read as one decimal number into a \<open>float64\<close>; a float is the pair of a mantissa \<open>m\<close> and a shift
  \<open>s\<close> for the value m / 2^s, rounded to nearest, ties to even, as \<open>strconv.ParseFloat\<close> does.
\<close>

section \<open>Floats\<close>

type_synonym f64 = "nat \<times> nat"

definition f64_less :: "f64 \<Rightarrow> f64 \<Rightarrow> bool" where
  "f64_less x y \<longleftrightarrow> fst x * 2 ^ snd y < fst y * 2 ^ snd x"

definition round_half_even :: "nat \<Rightarrow> nat \<Rightarrow> nat" where
  "round_half_even num den =
     (let q = num div den; r = num mod den
      in if 2 * r < den then q else if den < 2 * r then q + 1 else if even q then q else q + 1)"

text \<open>The largest shift with a mantissa below 2^53, at most 1074.\<close>

function f64_scale :: "nat \<Rightarrow> nat \<Rightarrow> nat \<Rightarrow> nat" where
  "f64_scale num den s =
     (if s < 1074 \<and> num * 2 ^ Suc s < 2 ^ 53 * den then f64_scale num den (Suc s) else s)"
  by pat_completeness auto
termination by (relation "measure (\<lambda>(num, den, s). 1074 - s)") auto

declare f64_scale.simps [simp del]

text \<open>The float for num / 10^k, for numbers below 2^53.\<close>

definition f64_decimal :: "nat \<Rightarrow> nat \<Rightarrow> f64" where
  "f64_decimal num k =
     (if num = 0 then (0, 0)
      else let s = f64_scale num (10 ^ k) 0 in (round_half_even (num * 2 ^ s) (10 ^ k), s))"

definition f64_zero :: f64 where "f64_zero = (0, 0)"

section \<open>Names\<close>

record update =
  up_name :: string
  up_date :: f64

text \<open>\<open>decode\<close>: prod.os rev.platform.yyyy-mm-dd.build.ext\<close>

definition decode :: "string \<Rightarrow> update" where
  "decode name =
     (let u = \<lparr>up_name = name, up_date = f64_zero\<rparr>;
          parts = split_on CHR ''.'' name
      in if length parts \<noteq> 6 \<or> length (parts ! 3) \<noteq> 10 then u
         else
           (let dateIn = split_on CHR ''-'' (parts ! 3)
            in if length dateIn \<noteq> 3 then u
               else if \<not> list_all all_digits dateIn then u
               else if parts ! 4 = [] \<or> \<not> all_digits (parts ! 4) then u
               else u\<lparr>up_date := f64_decimal
                        (dec_val (dateIn ! 0 @ dateIn ! 1 @ dateIn ! 2 @ parts ! 4)) (length (parts ! 4))\<rparr>))"

definition update_less :: "update \<Rightarrow> update \<Rightarrow> bool" where
  "update_less a b = f64_less (up_date a) (up_date b)"

text \<open>
  \<open>sort.Sort\<close> is the argument \<open>srt\<close>, which gets the method \<open>Less\<close> and the slice; \<open>sort.Reverse\<close> swaps the
  arguments of \<open>Less\<close>.
\<close>

definition sortUpdates ::
    "((update \<Rightarrow> update \<Rightarrow> bool) \<Rightarrow> update list \<Rightarrow> update list) \<Rightarrow> string list \<Rightarrow> bool \<Rightarrow> string list" where
  "sortUpdates srt names oldestFirst =
     map up_name (srt (if oldestFirst then update_less else (\<lambda>a b. update_less b a)) (map decode names))"

text \<open>
  What the documentation of \<open>sort.Sort\<close> promises, for a \<open>Less\<close> that is a strict weak order: the elements
  are permuted and no element is less than an earlier one.  It does not promise that equal elements keep
  their order.
\<close>

definition strict_weak :: "('a \<Rightarrow> 'a \<Rightarrow> bool) \<Rightarrow> bool" where
  "strict_weak lt \<longleftrightarrow>
     (\<forall>x y. lt x y \<longrightarrow> \<not> lt y x) \<and> (\<forall>x y z. lt x y \<longrightarrow> lt x z \<or> lt z y)"

lemma sort_key_unique:
  fixes key :: "'a \<Rightarrow> nat"
  assumes "mset ys = mset xs" "sorted (map key ys)" "distinct (map key xs)"
  shows "ys = sort_key key xs"
proof -
  have "set ys = set xs"
    using assms(1) by (metis set_mset_mset)
  have "sort (map key xs) = map key ys"
    by (rule properties_for_sort) (simp_all add: assms)
  moreover have "sort (map key xs) = map key (sort_key key xs)"
    by (rule properties_for_sort) simp_all
  ultimately have "map key ys = map key (sort_key key xs)"
    by simp
  then show ?thesis
    by (rule map_inj_on) (use assms(3) in \<open>simp add: \<open>set ys = set xs\<close> distinct_map\<close>)
qed

locale go_sort =
  fixes srt :: "('a \<Rightarrow> 'a \<Rightarrow> bool) \<Rightarrow> 'a list \<Rightarrow> 'a list"
  assumes srt_mset: "strict_weak lt \<Longrightarrow> mset (srt lt xs) = mset xs"
    and srt_sorted: "strict_weak lt \<Longrightarrow> sorted_wrt (\<lambda>x y. \<not> lt y x) (srt lt xs)"
begin

lemma srt_set: "strict_weak lt \<Longrightarrow> set (srt lt xs) = set xs"
  using srt_mset by (metis set_mset_mset)

end

text \<open>The insertion sort the package runs on short slices.\<close>

fun sift_left :: "('a \<Rightarrow> 'a \<Rightarrow> bool) \<Rightarrow> 'a \<Rightarrow> 'a list \<Rightarrow> 'a list" where
  "sift_left lt x [] = [x]"
| "sift_left lt x (y # ys) = (if lt x y then y # sift_left lt x ys else x # y # ys)"

definition insertionSort :: "('a \<Rightarrow> 'a \<Rightarrow> bool) \<Rightarrow> 'a list \<Rightarrow> 'a list" where
  "insertionSort lt xs = rev (foldl (\<lambda>acc x. sift_left lt x acc) [] xs)"

lemma mset_sift_left: "mset (sift_left lt x ys) = add_mset x (mset ys)"
  by (induction ys) auto

lemma sorted_sift_left:
  assumes "strict_weak lt" "sorted_wrt (\<lambda>x y. \<not> lt x y) ys"
  shows "sorted_wrt (\<lambda>x y. \<not> lt x y) (sift_left lt x ys)"
  using assms(2)
proof (induction ys)
  case (Cons y ys)
  show ?case
  proof (cases "lt x y")
    case True
    then have "\<not> lt y x"
      using assms(1) by (auto simp: strict_weak_def)
    moreover have "set (sift_left lt x ys) = insert x (set ys)"
      using mset_sift_left [of lt x ys] by (metis set_mset_add_mset_insert set_mset_mset)
    ultimately show ?thesis
      using Cons True by auto
  next
    case False
    moreover have "\<not> lt x z" if "z \<in> set ys" for z
      using False Cons.prems that assms(1) unfolding strict_weak_def
      by (metis list.set_intros(1) sorted_wrt.simps(2))
    ultimately show ?thesis
      using Cons.prems by auto
  qed
qed simp

interpretation insertion: go_sort insertionSort
proof
  fix lt :: "'a \<Rightarrow> 'a \<Rightarrow> bool" and xs :: "'a list"
  assume w: "strict_weak lt"
  have "mset (foldl (\<lambda>acc x. sift_left lt x acc) acc xs) = mset acc + mset xs" for acc
    by (induction xs arbitrary: acc) (auto simp: mset_sift_left)
  then show "mset (insertionSort lt xs) = mset xs"
    by (simp add: insertionSort_def)
  have "sorted_wrt (\<lambda>x y. \<not> lt x y) acc \<Longrightarrow>
      sorted_wrt (\<lambda>x y. \<not> lt x y) (foldl (\<lambda>acc x. sift_left lt x acc) acc xs)" for acc
    by (induction xs arbitrary: acc) (auto simp: sorted_sift_left [OF w])
  then show "sorted_wrt (\<lambda>x y. \<not> lt y x) (insertionSort lt xs)"
    by (simp add: insertionSort_def sorted_wrt_rev)
qed

section \<open>Rounding\<close>

definition f64_val :: "f64 \<Rightarrow> real" where
  "f64_val x = real (fst x) / 2 ^ snd x"

lemma f64_less_val: "f64_less x y \<longleftrightarrow> f64_val x < f64_val y"
proof -
  have "fst x * 2 ^ snd y < fst y * 2 ^ snd x \<longleftrightarrow>
      real (fst x) * 2 ^ snd y < real (fst y) * 2 ^ snd x"
    by (simp flip: of_nat_less_iff [where 'a = real])
  then show ?thesis
    by (simp add: f64_less_def f64_val_def divide_simps mult.commute)
qed

lemma strict_weak_update_less: "strict_weak update_less" "strict_weak (\<lambda>a b. update_less b a)"
  by (auto simp: strict_weak_def update_less_def f64_less_val)

lemma round_half_even_close:
  assumes "0 < den"
  shows "\<bar>real (round_half_even num den) - real num / real den\<bar> \<le> 1 / 2"
proof -
  define q r where "q = num div den" and "r = num mod den"
  have "num = q * den + r"
    by (simp add: q_def r_def)
  then have v: "real num / real den = real q + real r / real den"
    using assms by (simp add: field_simps)
  have r: "real r < real den"
    using assms by (simp add: r_def)
  consider "2 * r < den" | "2 * r = den" | "den < 2 * r"
    by linarith
  then show ?thesis
  proof cases
    case 1
    then have "real r / real den \<le> 1 / 2"
      using assms by (simp add: field_simps)
    with 1 show ?thesis
      by (simp add: v round_half_even_def Let_def flip: q_def r_def)
  next
    case 2
    then have "real r / real den = 1 / 2"
      using assms by (simp add: field_simps flip: 2)
    with 2 show ?thesis
      by (simp add: v round_half_even_def Let_def flip: q_def r_def)
  next
    case 3
    then have "1 / 2 \<le> real r / real den" "real r / real den < 1"
      using assms r by (simp_all add: field_simps)
    with 3 show ?thesis
      by (simp add: v round_half_even_def Let_def flip: q_def r_def)
  qed
qed

lemma f64_scale_ge:
  "num * 2 ^ 26 < 2 ^ 53 * den \<Longrightarrow> s \<le> 26 \<Longrightarrow> 26 \<le> f64_scale num den s"
proof (induction num den s rule: f64_scale.induct)
  case (1 num den s)
  show ?case
  proof (cases "s = 26")
    case True
    have "s \<le> f64_scale num den s" for num den s
      by (induction num den s rule: f64_scale.induct) (subst f64_scale.simps, auto)
    with True show ?thesis by metis
  next
    case False
    with "1.prems"(2) have s: "Suc s \<le> 26" by simp
    have "num * 2 ^ Suc s \<le> num * 2 ^ 26"
      by (rule mult_left_mono [OF power_increasing]) (use s in simp_all)
    then have c: "s < 1074 \<and> num * 2 ^ Suc s < 2 ^ 53 * den"
      using "1.prems"(1) s by linarith
    then have "26 \<le> f64_scale num den (Suc s)"
      using "1.IH" "1.prems"(1) s by blast
    then show ?thesis
      using c by (subst f64_scale.simps) simp
  qed
qed

text \<open>A number with eight digits before the point is read with an error of at most 2^-27.\<close>

lemma f64_decimal_close:
  assumes "num < 10 ^ (8 + k)"
  shows "\<bar>f64_val (f64_decimal num k) - real num / 10 ^ k\<bar> \<le> 1 / 2 ^ 27"
proof (cases "num = 0")
  case True
  then show ?thesis by (simp add: f64_decimal_def f64_val_def)
next
  case False
  define s where "s = f64_scale num (10 ^ k) 0"
  define m where "m = round_half_even (num * 2 ^ s) (10 ^ k)"
  have "num * 2 ^ 26 < 10 ^ (8 + k) * 2 ^ 26"
    using assms by simp
  also have "\<dots> \<le> 2 ^ 53 * 10 ^ k"
    by (simp add: power_add)
  finally have s: "26 \<le> s"
    unfolding s_def by (rule f64_scale_ge) simp
  have "\<bar>real m - real (num * 2 ^ s) / real (10 ^ k)\<bar> \<le> 1 / 2"
    unfolding m_def by (rule round_half_even_close) simp
  then have "\<bar>(real m - real (num * 2 ^ s) / real (10 ^ k)) / 2 ^ s\<bar> \<le> 1 / 2 / 2 ^ s"
    unfolding abs_divide by (intro divide_mono) simp_all
  then have "\<bar>real m / 2 ^ s - real num / 10 ^ k\<bar> \<le> 1 / 2 ^ Suc s"
    by (simp add: diff_divide_distrib)
  also have "\<dots> \<le> 1 / 2 ^ 27"
    using s by (intro divide_left_mono power_increasing) simp_all
  finally show ?thesis
    using False by (simp add: f64_decimal_def f64_val_def Let_def s_def m_def)
qed

text \<open>So numbers with at most seven digits behind the point keep their order.\<close>

lemma f64_decimal_mono:
  assumes "a < 10 ^ (8 + k)" "b < 10 ^ (8 + k)" "k \<le> 7"
  shows "f64_less (f64_decimal a k) (f64_decimal b k) \<longleftrightarrow> a < b"
proof -
  have gap: "f64_val (f64_decimal a k) < f64_val (f64_decimal b k)"
    if "a < b" "a < 10 ^ (8 + k)" "b < 10 ^ (8 + k)" for a b
  proof -
    have "(10 :: real) ^ k \<le> 10 ^ 7"
      using assms(3) by (intro power_increasing) simp_all
    then have "2 / 2 ^ 27 < 1 / (10 :: real) ^ k"
      by (simp add: field_simps)
    also have "\<dots> \<le> (real b - real a) / 10 ^ k"
      using that(1) by (intro divide_right_mono) simp_all
    finally have "2 / 2 ^ 27 < real b / 10 ^ k - real a / 10 ^ k"
      by (simp add: diff_divide_distrib)
    moreover note abs_leD1 = f64_decimal_close [OF that(2), THEN abs_le_D1] f64_decimal_close [OF that(2), THEN abs_le_D2]
      f64_decimal_close [OF that(3), THEN abs_le_D1] f64_decimal_close [OF that(3), THEN abs_le_D2]
    ultimately show ?thesis
      by linarith
  qed
  show ?thesis
    using gap [of a b] gap [of b a] assms by (cases a b rule: linorder_cases) (auto simp: f64_less_val)
qed

section \<open>The order of updates\<close>

text \<open>A name with a date and a build number of a given width, and both read as one number.\<close>

definition well_named :: "nat \<Rightarrow> string \<Rightarrow> bool" where
  "well_named w name =
     (let parts = split_on CHR ''.'' name; d = split_on CHR ''-'' (parts ! 3)
      in length parts = 6 \<and> length (parts ! 3) = 10 \<and> length d = 3 \<and> list_all all_digits d
         \<and> parts ! 4 \<noteq> [] \<and> all_digits (parts ! 4) \<and> length (parts ! 4) = w)"

definition date_and_build :: "string \<Rightarrow> nat" where
  "date_and_build name =
     (let parts = split_on CHR ''.'' name; d = split_on CHR ''-'' (parts ! 3)
      in dec_val (d ! 0 @ d ! 1 @ d ! 2 @ parts ! 4))"

lemma foldl_dec_bound:
  "list_all (\<lambda>c. digit_val c \<le> 9) s \<Longrightarrow> n < m \<Longrightarrow> foldl (\<lambda>n c. 10 * n + digit_val c) n s < m * 10 ^ length s"
proof (induction s arbitrary: n m)
  case (Cons c s)
  then have "10 * n + digit_val c < 10 * m"
    by simp
  with Cons.IH [of "10 * n + digit_val c" "10 * m"] Cons.prems show ?case
    by simp
qed simp

lemma dec_val_bound: "all_digits s \<Longrightarrow> dec_val s < 10 ^ length s"
proof -
  assume s: "all_digits s"
  have "list_all (\<lambda>c. digit_val c \<le> 9) ''0123456789''"
    by (simp add: digit_val_def)
  with s have "list_all (\<lambda>c. digit_val c \<le> 9) s"
    unfolding all_digits_def list_all_iff by blast
  from foldl_dec_bound [OF this, of 0 1] show ?thesis
    by (simp add: dec_val_def)
qed

lemma length_split_on: "length s + 1 = sum_list (map length (split_on c s)) + length (split_on c s)"
proof (induction s)
  case (Cons x s)
  then show ?case
    by (cases "split_on c s") simp_all
qed simp

lemma all_digits_append [simp]: "all_digits (a @ b) \<longleftrightarrow> all_digits a \<and> all_digits b"
  by (simp add: all_digits_def)

lemma up_name_decode [simp]: "up_name (decode n) = n"
  by (simp add: decode_def Let_def)

lemma decode_well_named:
  assumes "well_named w n"
  shows "up_date (decode n) = f64_decimal (date_and_build n) w" "date_and_build n < 10 ^ (8 + w)"
proof -
  let ?p = "split_on CHR ''.'' n"
  obtain a b c where d: "split_on CHR ''-'' (?p ! 3) = [a, b, c]"
    using assms by (auto simp: well_named_def Let_def numeral_3_eq_3 length_Suc_conv)
  have p: "length ?p = 6" "length (?p ! 3) = 10" "all_digits a" "all_digits b" "all_digits c"
    "?p ! 4 \<noteq> []" "all_digits (?p ! 4)" "length (?p ! 4) = w"
    using assms by (auto simp: well_named_def Let_def d)
  show "up_date (decode n) = f64_decimal (date_and_build n) w"
    by (simp add: decode_def date_and_build_def Let_def d p)
  have "length a + length b + length c = 8"
    using length_split_on [of "?p ! 3" "CHR ''-''"] p(2) by (simp add: d)
  then show "date_and_build n < 10 ^ (8 + w)"
    using dec_val_bound [of "a @ b @ c @ ?p ! 4"] p by (simp add: date_and_build_def Let_def d flip: add.assoc)
qed

lemma update_less_decode:
  assumes "well_named w m" "well_named w n" "w \<le> 7"
  shows "update_less (decode m) (decode n) \<longleftrightarrow> date_and_build m < date_and_build n"
  using assms by (simp add: update_less_def decode_well_named f64_decimal_mono)

text \<open>What a sort leaves of the names: a permutation, in the order of \<open>Less\<close>.\<close>

lemma srt_names:
  assumes "go_sort srt" "strict_weak lt"
  shows "mset (map up_name (srt lt (map decode names))) = mset names"
    and "sorted_wrt (\<lambda>m n. \<not> lt (decode n) (decode m)) (map up_name (srt lt (map decode names)))"
proof -
  let ?us = "srt lt (map decode names)"
  have m: "mset ?us = mset (map decode names)"
    by (rule go_sort.srt_mset [OF assms])
  then have "image_mset up_name (mset ?us) = image_mset up_name (mset (map decode names))"
    by simp
  then show "mset (map up_name ?us) = mset names"
    by (simp add: image_mset.compositionality comp_def)
  have "set ?us = set (map decode names)"
    using m by (metis set_mset_mset)
  then have "decode (up_name u) = u" if "u \<in> set ?us" for u
    using that by auto
  then have "sorted_wrt (\<lambda>x y. \<not> lt (decode (up_name y)) (decode (up_name x))) ?us"
    by (intro sorted_wrt_mono_rel [OF _ go_sort.srt_sorted [OF assms]]) auto
  then show "sorted_wrt (\<lambda>m n. \<not> lt (decode n) (decode m)) (map up_name ?us)"
    by (simp add: sorted_wrt_map)
qed

lemma mset_rev_sorted:
  fixes key :: "'a \<Rightarrow> nat"
  assumes "sorted_wrt (\<lambda>x y. key y \<le> key x) ys" "mset ys = mset xs" "distinct (map key xs)"
  shows "ys = rev (sort_key key xs)"
proof -
  have "sorted (map key (rev ys))"
    using assms(1) by (simp add: sorted_wrt_rev sorted_wrt_map flip: rev_map)
  then have "rev ys = sort_key key xs"
    using assms(2,3) by (intro sort_key_unique) simp_all
  then show ?thesis by (metis rev_rev_ident)
qed

text \<open>
  C36: For names whose build numbers have the same width of at most seven digits, and differ in date or
  build, sorting by the rounded floating-point values is the same as sorting by date and build number
  exactly: the result is the list sorted by that key, oldest first or, by default, newest first,
  whichever algorithm \<open>sort.Sort\<close> uses.
\<close>

theorem sortUpdates_by_date_and_build:
  assumes "go_sort srt" "list_all (well_named w) names" "w \<le> 7" "distinct (map date_and_build names)"
  shows "sortUpdates srt names oldestFirst =
    (if oldestFirst then sort_key date_and_build names else rev (sort_key date_and_build names))"
proof -
  have wn: "well_named w m" if "m \<in> set (map up_name (srt lt (map decode names)))" "strict_weak lt" for m lt
    using that srt_names(1) [OF assms(1) that(2), of names] assms(2)
    by (metis list_all_iff set_mset_mset)
  note lt = update_less_decode [OF _ _ assms(3)]
  show ?thesis
  proof (cases oldestFirst)
    case True
    let ?ns = "map up_name (srt update_less (map decode names))"
    have "sorted_wrt (\<lambda>m n. date_and_build m \<le> date_and_build n) ?ns"
      by (rule sorted_wrt_mono_rel [OF _ srt_names(2) [OF assms(1) strict_weak_update_less(1)]])
        (simp add: lt wn strict_weak_update_less not_less)
    then have "?ns = sort_key date_and_build names"
      by (intro sort_key_unique srt_names(1) [OF assms(1) strict_weak_update_less(1)] assms(4))
        (simp add: sorted_wrt_map)
    with True show ?thesis by (simp add: sortUpdates_def)
  next
    case False
    let ?ns = "map up_name (srt (\<lambda>a b. update_less b a) (map decode names))"
    have "sorted_wrt (\<lambda>m n. date_and_build n \<le> date_and_build m) ?ns"
      by (rule sorted_wrt_mono_rel [OF _ srt_names(2) [OF assms(1) strict_weak_update_less(2)]])
        (simp add: lt wn strict_weak_update_less not_less)
    then have "?ns = rev (sort_key date_and_build names)"
      by (rule mset_rev_sorted) (intro srt_names(1) [OF assms(1) strict_weak_update_less(2)] assms(4))+
    with False show ?thesis by (simp add: sortUpdates_def)
  qed
qed

definition two_updates :: "string list" where
  "two_updates = [''W.L.S.2015-02-03.12.upd'', ''W.L.S.2015-02-03.34.upd'']"

theorem sortUpdates_by_date_and_build_witness:
  "sortUpdates insertionSort two_updates False = rev two_updates"
proof -
  have w: "list_all (well_named 2) two_updates"
    by (simp add: two_updates_def well_named_def all_digits_def)
  have k: "map date_and_build two_updates = [2015020312, 2015020334]"
    by (simp add: two_updates_def date_and_build_def dec_val_def digit_val_def)
  have "sort_key date_and_build two_updates = two_updates"
    by (rule sort_key_id_if_sorted) (simp add: k)
  then show ?thesis
    using sortUpdates_by_date_and_build [OF insertion.go_sort_axioms w, of False] by (simp add: k)
qed

text \<open>
  Build numbers of different widths are compared as decimal fractions, so build 9 of a day counts as
  newer than build 10.
\<close>

lemma build_9_after_build_10:
  "update_less (decode ''W.L.S.2015-02-03.10.upd'') (decode ''W.L.S.2015-02-03.9.upd'')"
proof -
  have ten: "well_named 2 ''W.L.S.2015-02-03.10.upd''" and nine: "well_named 1 ''W.L.S.2015-02-03.9.upd''"
    by (simp_all add: well_named_def all_digits_def)
  have "date_and_build ''W.L.S.2015-02-03.10.upd'' = 2015020310"
    "date_and_build ''W.L.S.2015-02-03.9.upd'' = 201502039"
    by (simp_all add: date_and_build_def dec_val_def digit_val_def)
  then show ?thesis
    using f64_decimal_close [of 2015020310 2, THEN abs_le_D1] f64_decimal_close [of 201502039 1, THEN abs_le_D2]
    by (simp add: update_less_def decode_well_named [OF ten] decode_well_named [OF nine] f64_less_val)
qed

end
