(* ===== verification/FileUtil.thy ===== *)
theory FileUtil
  imports GoStd
begin

text \<open>
  Looking at the first bytes of a file (\<open>pkg/fileutil\<close>): the signature of xz archives and the byte order
  mark of text files.  A file is its content, \<open>None\<close> when it cannot be opened.
\<close>

definition xzId :: bytes where "xzId = [0xfd, 0x37, 0x7a, 0x58, 0x5a, 0x00]"

definition ReadHeader :: "bytes option \<Rightarrow> nat \<Rightarrow> bytes option" where
  "ReadHeader file n =
     (case file of
        None \<Rightarrow> None
      | Some content \<Rightarrow> if length (take n content) < n then None else Some (take n content))"

definition IsXZ :: "bytes option \<Rightarrow> bool" where
  "IsXZ file = (case ReadHeader file (length xzId) of None \<Rightarrow> False | Some head \<Rightarrow> head = xzId)"

definition IsXZSha256 :: "bytes option \<Rightarrow> bool" where
  "IsXZSha256 file =
     (case ReadHeader file (length xzId + 2) of
        None \<Rightarrow> False
      | Some head \<Rightarrow>
          if take (length xzId) head \<noteq> xzId then False
          else head ! length xzId = 0 \<and> head ! (length xzId + 1) = 0x0a)"

lemma length_xzId [simp]: "length xzId = 6"
  by (simp add: xzId_def)

lemma IsXZSha256_iff:
  "IsXZSha256 (Some content) \<longleftrightarrow> (\<exists>rest. content = xzId @ [0, 0x0a] @ rest)"
proof
  assume *: "IsXZSha256 (Some content)"
  then have len: "8 \<le> length content"
    by (simp add: IsXZSha256_def ReadHeader_def split: if_splits)
  then have head: "take 6 content = xzId" "content ! 6 = 0" "content ! 7 = 0x0a"
    using * by (simp_all add: IsXZSha256_def ReadHeader_def min_def split: if_splits)
  have "content = take 6 content @ content ! 6 # content ! 7 # drop 8 content"
    using len Cons_nth_drop_Suc [of 6 content] Cons_nth_drop_Suc [of 7 content] append_take_drop_id [of 6 content]
    by simp
  then show "\<exists>rest. content = xzId @ [0, 0x0a] @ rest"
    using head by (metis append_Cons append_Nil)
next
  assume "\<exists>rest. content = xzId @ [0, 0x0a] @ rest"
  then show "IsXZSha256 (Some content)"
    by (auto simp: IsXZSha256_def ReadHeader_def xzId_def nth_Cons')
qed

section \<open>Byte order marks\<close>

datatype UtfVariant = UtfNone | Utf32be | Utf32le | Utf16be | Utf16le | Utf8

datatype bom_error = BomPosition | BomShort

text \<open>
  \<open>DetectBOM\<close> on a stream given by its content and position: the variant or an error, and the new
  position.  Fewer than four bytes are an error, and \<open>io.ReadFull\<close> has consumed them.
\<close>

definition DetectBOM :: "bytes \<Rightarrow> nat \<Rightarrow> (bom_error + UtfVariant) \<times> nat" where
  "DetectBOM content pos =
     (if pos \<noteq> 0 then (Inl BomPosition, pos)
      else if length content < 4 then (Inl BomShort, length content)
      else
        (let bom = take 4 content
         in if bom = [0x00, 0x00, 0xfe, 0xff] then (Inr Utf32be, 4)
            else if bom = [0xff, 0xfe, 0x00, 0x00] then (Inr Utf32le, 4)
            else if take 2 bom = [0xfe, 0xff] then (Inr Utf16be, 2)
            else if take 2 bom = [0xff, 0xfe] then (Inr Utf16le, 2)
            else if take 3 bom = [0xef, 0xbb, 0xbf] then (Inr Utf8, 3)
            else (Inr UtfNone, 0)))"

definition bom_bytes :: "UtfVariant \<Rightarrow> bytes" where
  "bom_bytes v = (case v of UtfNone \<Rightarrow> [] | Utf32be \<Rightarrow> [0x00, 0x00, 0xfe, 0xff] | Utf32le \<Rightarrow> [0xff, 0xfe, 0x00, 0x00]
     | Utf16be \<Rightarrow> [0xfe, 0xff] | Utf16le \<Rightarrow> [0xff, 0xfe] | Utf8 \<Rightarrow> [0xef, 0xbb, 0xbf])"

text \<open>The position is left behind the mark that was found.\<close>

lemma DetectBOM_skips_mark:
  "DetectBOM content 0 = (Inr v, p) \<Longrightarrow> take p content = bom_bytes v \<and> p = length (bom_bytes v)"
  by (auto simp: DetectBOM_def bom_bytes_def Let_def min_def split: if_splits)

end
