(* ===== verification/DiskTag.thy ===== *)
theory DiskTag
  imports GoStd
begin

text \<open>
  The disk tag (\<open>pkg/disktag\<close>): the name of the image on the disk, kept in a package variable while an
  image is chosen and written as the name of an empty file at the root of the imaged file system.
  Searching a directory (\<open>filepath.Glob\<close>) is an argument.
\<close>

record disktag_state =
  dt_tag :: string
  dt_platform :: string

definition dt_suffix :: string where "dt_suffix = ''.disktag''"

definition dt_SetPlatform :: "string \<Rightarrow> disktag_state \<Rightarrow> disktag_state" where
  "dt_SetPlatform plat d = d\<lparr>dt_platform := plat\<rparr>"

definition dt_Set :: "string \<Rightarrow> disktag_state \<Rightarrow> disktag_state" where
  "dt_Set t d = d\<lparr>dt_tag := t @ dt_suffix\<rparr>"

definition dt_Get :: "disktag_state \<Rightarrow> string" where
  "dt_Get d = trim_suffix dt_suffix (dt_tag d)"

definition ImgToDTag :: "string \<Rightarrow> disktag_state \<Rightarrow> string" where
  "ImgToDTag img d = replace_first ''HW'' (dt_platform d) img"

text \<open>\<open>Write\<close>: the path of the file that is written.\<close>

definition dt_Write :: "string \<Rightarrow> disktag_state \<Rightarrow> string outcome" where
  "dt_Write root d = (if dt_tag d = [] then Panics else Returns (path_Join [root, dt_tag d]))"

text \<open>\<open>glob\<close>: the paths that match a pattern, \<open>None\<close> for an error.\<close>

definition dt_Read :: "(string \<Rightarrow> string list option) \<Rightarrow> string \<Rightarrow> string" where
  "dt_Read glob root =
     (case glob (path_Join [root, ''*.disktag'']) of
        Some [tag] \<Rightarrow> path_Base tag
      | _ \<Rightarrow> '''')"

definition dt_Platform :: "(string \<Rightarrow> string list option) \<Rightarrow> bool \<Rightarrow> string \<Rightarrow> string" where
  "dt_Platform glob windows root =
     (let tag = dt_Read glob root;
          tag' = (if tag = [] \<and> root = [] then dt_Read glob (if windows then ''C:'' else ''/'') else tag);
          components = split_on CHR ''.'' tag'
      in if length components > 2 then components ! 2 else [])"

lemma dt_Get_Set: "dt_Get (dt_Set t d) = t"
  by (simp add: dt_Get_def dt_Set_def)

end
