(* ===== verification/History.thy ===== *)
theory History
  imports DiskTag
begin

text \<open>
  The recovery history (\<open>pkg/recovery/history\<close>): counts of imaging and booting attempts and failures per
  image, kept in a JSON file and in the package variable \<open>results\<close>, a list of pointers.  The pointers
  are addresses of a store that only grows, nil is \<open>None\<close>; the counters are 64-bit.  A file is its
  parsed content or the reason why it has none.  Log output is left out; times arrive formatted
  (RFC 3339).
\<close>

section \<open>State\<close>

record ImageResult =
  ir_Image :: string
  ir_ImagingAttempts :: u64
  ir_ImagingFailures :: u64
  ir_BootAttempts :: u64
  ir_BootFailures :: u64
  ir_Notes :: "string list"

definition new_ImageResult :: "string \<Rightarrow> ImageResult" where
  "new_ImageResult img =
     \<lparr>ir_Image = img, ir_ImagingAttempts = 0, ir_ImagingFailures = 0, ir_BootAttempts = 0, ir_BootFailures = 0,
      ir_Notes = []\<rparr>"

datatype hist_file = NoFile | NoStat | NoRead | BadJson | Parsed "ImageResult option list"

record hist_state =
  hs_mem :: "ImageResult list"
  hs_results :: "nat option list"
  hs_path :: string
  hs_fs :: "string \<Rightarrow> hist_file"
  hs_writable :: bool

definition histName :: string where "histName = ''recovery_history.json''"
definition MaxFailuresPerImg :: u64 where "MaxFailuresPerImg = 5"

section \<open>Operations\<close>

definition SetRoot :: "Stringer option \<Rightarrow> string \<Rightarrow> hist_state \<Rightarrow> hist_state" where
  "SetRoot impl path s =
     s\<lparr>hs_path := path_Join [path_Join [path, st_RecoveryLogDir (strs_of impl)], histName]\<rparr>"

definition Rollover :: "Stringer option \<Rightarrow> string \<Rightarrow> hist_state \<Rightarrow> hist_state" where
  "Rollover impl path s =
     (let s1 = (if hs_path s = [] then SetRoot impl path s else s);
          old = hs_path s1 @ ''.prev'';
          fs1 = (hs_fs s1)(old := NoFile)
      in s1\<lparr>hs_fs := (if fs1 (hs_path s1) = NoFile then fs1
                       else fs1(old := fs1 (hs_path s1), hs_path s1 := NoFile))\<rparr>)"

text \<open>\<open>RenameUnique\<close> of \<open>pkg/fileutil\<close>: \<open>tmp\<close> is the random suffix of the temporary file, \<open>None\<close> when none can
  be made; then the old file is deleted.\<close>

definition RenameUnique :: "string option \<Rightarrow> string \<Rightarrow> string \<Rightarrow> (string \<Rightarrow> hist_file) \<Rightarrow> bool \<times> (string \<Rightarrow> hist_file)" where
  "RenameUnique tmp old newPfx fs =
     (case tmp of
        None \<Rightarrow> (False, fs(old := NoFile))
      | Some r \<Rightarrow>
          (let newname = path_Join [path_Dir old, newPfx @ r]
           in (True, fs(newname := fs old, old := NoFile))))"

text \<open>The pointers a parsed list is unmarshalled to: a fresh object for each entry that is not null.\<close>

fun unmarshal :: "nat \<Rightarrow> ImageResult option list \<Rightarrow> nat option list \<times> ImageResult list" where
  "unmarshal n [] = ([], [])"
| "unmarshal n (None # rs) = (case unmarshal n rs of (ps, m) \<Rightarrow> (None # ps, m))"
| "unmarshal n (Some r # rs) = (case unmarshal (Suc n) rs of (ps, m) \<Rightarrow> (Some n # ps, r # m))"

definition Load :: "string option \<Rightarrow> hist_state \<Rightarrow> bool outcome \<times> hist_state" where
  "Load tmp s =
     (if hs_path s = [] then (Panics, s)
      else
        (case hs_fs s (hs_path s) of
           NoFile \<Rightarrow> (Returns True, s)
         | NoStat \<Rightarrow> (Returns False, s)
         | NoRead \<Rightarrow> (Returns False, s)
         | BadJson \<Rightarrow> (Returns False, s\<lparr>hs_fs := snd (RenameUnique tmp (hs_path s) (histName @ ''_bad'') (hs_fs s))\<rparr>)
         | Parsed rs \<Rightarrow>
             (case unmarshal (length (hs_mem s)) rs of
                (ps, m) \<Rightarrow> (Returns False, s\<lparr>hs_mem := hs_mem s @ m, hs_results := ps\<rparr>))))"

fun check_from :: "ImageResult list \<Rightarrow> string \<Rightarrow> nat option list \<Rightarrow> bool outcome" where
  "check_from m name [] = Returns True"
| "check_from m name (None # ps) = Panics"
| "check_from m name (Some a # ps) =
     (if ir_Image (m ! a) = name
      then Returns (ir_ImagingFailures (m ! a) + ir_BootFailures (m ! a) \<le> MaxFailuresPerImg)
      else check_from m name ps)"

definition Check :: "string \<Rightarrow> hist_state \<Rightarrow> bool outcome" where
  "Check name s = check_from (hs_mem s) name (hs_results s)"

text \<open>\<open>write\<close>: the objects the pointers refer to are marshalled.\<close>

definition marshal :: "hist_state \<Rightarrow> ImageResult option list" where
  "marshal s = map (map_option ((!) (hs_mem s))) (hs_results s)"

definition hist_write :: "hist_state \<Rightarrow> hist_state" where
  "hist_write s = (if hs_writable s then s\<lparr>hs_fs := (hs_fs s)(hs_path s := Parsed (marshal s))\<rparr> else s)"

fun delete_first :: "'a \<Rightarrow> 'a list \<Rightarrow> 'a list" where
  "delete_first x [] = []"
| "delete_first x (y # ys) = (if y = x then ys else y # delete_first x ys)"

definition moveOrAddFront :: "nat \<Rightarrow> nat option list \<Rightarrow> nat option list" where
  "moveOrAddFront item rl = Some item # delete_first (Some item) rl"

text \<open>The first record of an image, for \<open>RecordBootState\<close>; the last one, for \<open>RebootHook\<close>.\<close>

fun first_record :: "ImageResult list \<Rightarrow> string \<Rightarrow> nat option list \<Rightarrow> nat option outcome" where
  "first_record m name [] = Returns None"
| "first_record m name (None # ps) = Panics"
| "first_record m name (Some a # ps) =
     (if ir_Image (m ! a) = name then Returns (Some a) else first_record m name ps)"

fun last_record :: "ImageResult list \<Rightarrow> string \<Rightarrow> nat option \<Rightarrow> nat option list \<Rightarrow> nat option outcome" where
  "last_record m name found [] = Returns found"
| "last_record m name found (None # ps) = Panics"
| "last_record m name found (Some a # ps) =
     last_record m name (if ir_Image (m ! a) = name then Some a else found) ps"

definition boot_note :: "string \<Rightarrow> bool \<Rightarrow> u64 \<Rightarrow> string \<Rightarrow> string" where
  "boot_note bTime success severity notes =
     ''Boot @ '' @ bTime @ '', success: '' @ (if success then ''true'' else ''false'')
     @ (if success then [] else '', severity: '' @ show_dec (unat severity) @ '', notes: '' @ notes)"

text \<open>What a boot changes in the record of its image.\<close>

definition book_boot :: "bool \<Rightarrow> u64 \<Rightarrow> string \<Rightarrow> string \<Rightarrow> ImageResult \<Rightarrow> ImageResult" where
  "book_boot success severity bTime notes r =
     (let sev = (if severity < 1 then 1 else severity);
          r1 = r\<lparr>ir_BootAttempts := ir_BootAttempts r + 1\<rparr>;
          r2 = (if success then r1 else r1\<lparr>ir_BootFailures := ir_BootFailures r1 + sev\<rparr>)
      in r2\<lparr>ir_Notes := ir_Notes r2 @ [boot_note bTime success (if success then severity else sev) notes]\<rparr>)"

text \<open>The record is updated in place and moved to the front, then the list is written.\<close>

definition update_front :: "nat \<Rightarrow> (ImageResult \<Rightarrow> ImageResult) \<Rightarrow> hist_state \<Rightarrow> hist_state" where
  "update_front a f s =
     hist_write (s\<lparr>hs_mem := (hs_mem s)[a := f (hs_mem s ! a)],
                   hs_results := moveOrAddFront a (hs_results s)\<rparr>)"

definition RecordBootState ::
    "Stringer option \<Rightarrow> string option \<Rightarrow> string \<Rightarrow> bool \<Rightarrow> u64 \<Rightarrow> string \<Rightarrow> string \<Rightarrow> hist_state
      \<Rightarrow> unit outcome \<times> hist_state" where
  "RecordBootState impl tmp imgName success severity bTime notes s =
     (case Load tmp s of
        (Panics, s1) \<Rightarrow> (Panics, s1)
      | (Returns _, s1) \<Rightarrow>
          (case first_record (hs_mem s1) imgName (hs_results s1) of
             Panics \<Rightarrow> (Panics, s1)
           | Returns (Some a) \<Rightarrow> (Returns (), update_front a (book_boot success severity bTime notes) s1)
           | Returns None \<Rightarrow>
               if has_prefix imgName (st_ImgPrefix (strs_of impl)) \<or> hs_results s1 = [] then
                 (Returns (),
                  update_front (length (hs_mem s1)) (book_boot success severity bTime notes)
                    (s1\<lparr>hs_mem := hs_mem s1 @ [new_ImageResult imgName]\<rparr>))
               else
                 (case hd (hs_results s1) of
                    None \<Rightarrow> (Panics, s1)
                  | Some a \<Rightarrow> (Returns (), update_front a (book_boot success severity bTime notes) s1))))"

definition book_imaging :: "bool \<Rightarrow> string \<Rightarrow> ImageResult \<Rightarrow> ImageResult" where
  "book_imaging success now r =
     (let r1 = r\<lparr>ir_ImagingAttempts := ir_ImagingAttempts r + 1\<rparr>;
          r2 = (if success then r1 else r1\<lparr>ir_ImagingFailures := ir_ImagingFailures r1 + 1\<rparr>)
      in r2\<lparr>ir_Notes := ir_Notes r2
           @ [''Imaging @ '' @ now @ '', success: '' @ (if success then ''true'' else ''false'')]\<rparr>)"

definition RebootHook :: "disktag_state \<Rightarrow> bool \<Rightarrow> string \<Rightarrow> hist_state \<Rightarrow> unit outcome \<times> hist_state" where
  "RebootHook d success now s =
     (let chosen = (if dt_Get d = [] then ''ERROR UNKNOWN IMAGE'' else dt_Get d)
      in case last_record (hs_mem s) chosen None (hs_results s) of
           Panics \<Rightarrow> (Panics, s)
         | Returns (Some a) \<Rightarrow> (Returns (), update_front a (book_imaging success now) s)
         | Returns None \<Rightarrow>
             (Returns (),
              update_front (length (hs_mem s)) (book_imaging success now)
                (s\<lparr>hs_mem := hs_mem s @ [new_ImageResult chosen]\<rparr>)))"

section \<open>The list of records as a value\<close>

text \<open>A history without null entries, whose pointers are valid and pairwise different.\<close>

definition hist_ok :: "hist_state \<Rightarrow> nat list \<Rightarrow> bool" where
  "hist_ok s as \<longleftrightarrow> hs_results s = map Some as \<and> distinct as \<and> list_all (\<lambda>a. a < length (hs_mem s)) as"

definition entries :: "hist_state \<Rightarrow> ImageResult list" where
  "entries s = map (\<lambda>p. hs_mem s ! the p) (hs_results s)"

text \<open>
  The specification: the first record of the image is updated and moved to the front; without one, a
  new record is made if the name is credible or there is none to take, else the first one is taken.
\<close>

definition spec_book :: "string \<Rightarrow> bool \<Rightarrow> (ImageResult \<Rightarrow> ImageResult) \<Rightarrow> ImageResult list \<Rightarrow> ImageResult list" where
  "spec_book name credible f rs =
     (case List.extract (\<lambda>r. ir_Image r = name) rs of
        Some (before, r, behind) \<Rightarrow> f r # before @ behind
      | None \<Rightarrow> if credible \<or> rs = [] then f (new_ImageResult name) # rs else f (hd rs) # tl rs)"

lemma unmarshal_Some:
  "unmarshal n (map Some rs) = (map Some [n..<n + length rs], rs)"
  by (induction rs arbitrary: n) (simp_all add: upt_rec)

lemma Load_Parsed:
  assumes "hs_path s \<noteq> []" "hs_fs s (hs_path s) = Parsed (map Some rs)"
  shows "\<exists>t. Load tmp s = (Returns False, t) \<and> hist_ok t [length (hs_mem s)..<length (hs_mem s) + length rs]
    \<and> entries t = rs \<and> hs_path t = hs_path s \<and> hs_fs t = hs_fs s \<and> hs_writable t = hs_writable s"
  using assms
  by (auto simp: Load_def unmarshal_Some hist_ok_def entries_def list_all_iff nth_append
      intro!: nth_equalityI)

lemma first_record_find:
  "first_record m name (map Some as) = Returns (find (\<lambda>a. ir_Image (m ! a) = name) as)"
  by (induction as) simp_all

lemma check_from_find:
  "check_from m name (map Some as) =
     Returns (case find (\<lambda>r. ir_Image r = name) (map ((!) m) as) of
       None \<Rightarrow> True | Some r \<Rightarrow> ir_ImagingFailures r + ir_BootFailures r \<le> MaxFailuresPerImg)"
  by (induction as) simp_all

lemma Check_entries:
  "hist_ok s as \<Longrightarrow> Check name s =
     Returns (case find (\<lambda>r. ir_Image r = name) (entries s) of
       None \<Rightarrow> True | Some r \<Rightarrow> ir_ImagingFailures r + ir_BootFailures r \<le> MaxFailuresPerImg)"
  by (simp add: Check_def hist_ok_def check_from_find entries_def comp_def)

lemma delete_first_notin: "x \<notin> set xs \<Longrightarrow> delete_first x xs = xs"
  by (induction xs) auto

lemma delete_first_append: "x \<notin> set xs \<Longrightarrow> delete_first x (xs @ x # ys) = xs @ ys"
  by (induction xs) auto

text \<open>Moving a known record, or a new one, to the front.\<close>

lemma update_front_known:
  assumes "hist_ok s (as @ a # bs)" "hs_writable s"
  shows "hist_ok (update_front a f s) (a # as @ bs)
    \<and> entries (update_front a f s) = f (hs_mem s ! a) # map ((!) (hs_mem s)) (as @ bs)
    \<and> hs_fs (update_front a f s) (hs_path s) = Parsed (map Some (entries (update_front a f s)))
    \<and> hs_path (update_front a f s) = hs_path s \<and> hs_writable (update_front a f s)"
proof -
  have r: "moveOrAddFront a (hs_results s) = map Some (a # as @ bs)"
    using assms(1) delete_first_append [of "Some a" "map Some as" "map Some bs"]
    by (auto simp: moveOrAddFront_def hist_ok_def)
  have "a < length (hs_mem s)" "a \<notin> set as" "a \<notin> set bs"
    using assms(1) by (auto simp: hist_ok_def)
  then have m: "x \<in> set as \<Longrightarrow> (hs_mem s)[a := v] ! x = hs_mem s ! x"
    "x \<in> set bs \<Longrightarrow> (hs_mem s)[a := v] ! x = hs_mem s ! x" "(hs_mem s)[a := v] ! a = v" for x v
    by (metis nth_list_update_neq nth_list_update_eq)+
  have "update_front a f s =
      hist_write (s\<lparr>hs_mem := (hs_mem s)[a := f (hs_mem s ! a)], hs_results := map Some (a # as @ bs)\<rparr>)"
    by (simp only: update_front_def r)
  then show ?thesis
    using assms by (auto simp: hist_write_def hist_ok_def entries_def marshal_def m comp_def)
qed

lemma update_front_new:
  assumes "hist_ok s as" "hs_writable s"
  shows "\<exists>t. t = update_front (length (hs_mem s)) f (s\<lparr>hs_mem := hs_mem s @ [r]\<rparr>)
    \<and> hist_ok t (length (hs_mem s) # as) \<and> entries t = f r # entries s
    \<and> hs_fs t (hs_path s) = Parsed (map Some (entries t)) \<and> hs_path t = hs_path s \<and> hs_writable t"
proof -
  have lt: "\<And>a. a \<in> set as \<Longrightarrow> a < length (hs_mem s)"
    using assms(1) by (auto simp: hist_ok_def list_all_iff)
  have r: "moveOrAddFront (length (hs_mem s)) (hs_results s) = map Some (length (hs_mem s) # as)"
    using assms(1) lt delete_first_notin [of "Some (length (hs_mem s))" "map Some as"]
    by (auto simp: moveOrAddFront_def hist_ok_def)
  have m: "x \<in> set as \<Longrightarrow> (hs_mem s @ [v]) ! x = hs_mem s ! x" for v x
    using lt by (auto simp: nth_append)
  have "update_front (length (hs_mem s)) f (s\<lparr>hs_mem := hs_mem s @ [r]\<rparr>) =
      hist_write (s\<lparr>hs_mem := hs_mem s @ [f r], hs_results := map Some (length (hs_mem s) # as)\<rparr>)"
    using r by (simp add: update_front_def del: list.map)
  then show ?thesis
    using assms lt
    by (auto simp: hist_write_def hist_ok_def entries_def marshal_def m comp_def list_all_iff less_Suc_eq)
qed

lemma extract_map:
  "List.extract P (map g as) = map_option (\<lambda>(xs, y, ys). (map g xs, g y, map g ys)) (List.extract (P \<circ> g) as)"
  by (induction as) (auto simp: extract_Nil_code extract_Cons_code split: option.splits)

lemma find_extract: "find P as = map_option (\<lambda>(xs, y, ys). y) (List.extract P as)"
  by (induction as) (auto simp: extract_Nil_code extract_Cons_code split: option.splits)

lemma RecordBootState_spec:
  assumes "hs_path s \<noteq> []" "hs_writable s" "hs_fs s (hs_path s) = Parsed (map Some rs)"
  shows "\<exists>t as. RecordBootState impl tmp name success sev tm notes s = (Returns (), t)
    \<and> hist_ok t as
    \<and> entries t = spec_book name (has_prefix name (st_ImgPrefix (strs_of impl))) (book_boot success sev tm notes) rs
    \<and> hs_fs t (hs_path s) = Parsed (map Some (entries t)) \<and> hs_path t = hs_path s \<and> hs_writable t"
proof -
  let ?f = "book_boot success sev tm notes"
  obtain u ps where u: "Load tmp s = (Returns False, u)" "hist_ok u ps" "entries u = rs" "hs_path u = hs_path s"
    "hs_writable u"
    using Load_Parsed [OF assms(1,3), of tmp] assms(2) by auto
  have rs: "rs = map ((!) (hs_mem u)) ps" and res: "hs_results u = map Some ps"
    using u(2,3) by (auto simp: entries_def hist_ok_def)
  let ?P = "\<lambda>a. ir_Image (hs_mem u ! a) = name"
  note fr = first_record_find [of "hs_mem u" name ps]
  have run: "RecordBootState impl tmp name success sev tm notes s =
      (case find ?P ps of
         Some a \<Rightarrow> (Returns (), update_front a ?f u)
       | None \<Rightarrow>
           if has_prefix name (st_ImgPrefix (strs_of impl)) \<or> ps = [] then
             (Returns (), update_front (length (hs_mem u)) ?f (u\<lparr>hs_mem := hs_mem u @ [new_ImageResult name]\<rparr>))
           else (Returns (), update_front (hd ps) ?f u))"
    by (simp add: RecordBootState_def u(1) res fr hd_map split: option.split)
  show ?thesis
  proof (cases "List.extract ?P ps")
    case (Some e)
    then obtain as a bs where e: "e = (as, a, bs)" "ps = as @ a # bs"
      by (cases e) (auto dest: extract_SomeE)
    have sp: "spec_book name c ?f rs = ?f (hs_mem u ! a) # map ((!) (hs_mem u)) (as @ bs)" for c
      by (simp add: spec_book_def rs extract_map comp_def Some e(1))
    show ?thesis
      using update_front_known [of u as a bs ?f] u(2,4,5) Some e
      by (auto simp: run find_extract sp)
  next
    case None
    have sp: "spec_book name c ?f rs = (if c \<or> rs = [] then ?f (new_ImageResult name) # rs else ?f (hd rs) # tl rs)" for c
      using None by (simp add: spec_book_def rs extract_map comp_def)
    have rs_Nil: "rs = [] \<longleftrightarrow> ps = []"
      by (simp add: rs)
    show ?thesis
    proof (cases "has_prefix name (st_ImgPrefix (strs_of impl)) \<or> ps = []")
      case True
      then show ?thesis
        using update_front_new [OF u(2,5), of ?f "new_ImageResult name"] None u(3,4) rs_Nil
        by (auto simp: run find_extract sp)
    next
      case False
      then obtain a bs where ps: "ps = [] @ a # bs"
        by (cases ps) auto
      have "spec_book name False ?f rs = ?f (hs_mem u ! a) # map ((!) (hs_mem u)) bs"
        using False rs_Nil by (simp add: sp) (simp add: rs ps)
      then show ?thesis
        using update_front_known [of u "[]" a bs ?f] u(2,4,5) None False
        by (auto simp: run find_extract ps)
    qed
  qed
qed

section \<open>What the history promises\<close>

text \<open>What a boot has to leave in a record, and which record it has to be, stated over the record's fields
and the list alone.\<close>

definition boot_booked :: "bool \<Rightarrow> u64 \<Rightarrow> string \<Rightarrow> string \<Rightarrow> ImageResult \<Rightarrow> ImageResult \<Rightarrow> bool" where
  "boot_booked success sev tm notes r r' \<longleftrightarrow>
     ir_Image r' = ir_Image r
     \<and> ir_ImagingAttempts r' = ir_ImagingAttempts r \<and> ir_ImagingFailures r' = ir_ImagingFailures r
     \<and> ir_BootAttempts r' = ir_BootAttempts r + 1
     \<and> ir_BootFailures r' = (if success then ir_BootFailures r else ir_BootFailures r + max 1 sev)
     \<and> ir_Notes r' = ir_Notes r @
         [if success then ''Boot @ '' @ tm @ '', success: true''
          else ''Boot @ '' @ tm @ '', success: false, severity: '' @ show_dec (unat (max 1 sev)) @ '', notes: '' @ notes]"

definition boot_record :: "string \<Rightarrow> bool \<Rightarrow> ImageResult list \<Rightarrow> ImageResult \<Rightarrow> ImageResult list \<Rightarrow> bool" where
  "boot_record name credible rs r rest \<longleftrightarrow>
     (if name \<in> ir_Image ` set rs
      then \<exists>as bs. rs = as @ r # bs \<and> rest = as @ bs \<and> ir_Image r = name \<and> name \<notin> ir_Image ` set as
      else if credible \<or> rs = []
      then rest = rs \<and> ir_Image r = name \<and> ir_ImagingAttempts r = 0 \<and> ir_ImagingFailures r = 0
        \<and> ir_BootAttempts r = 0 \<and> ir_BootFailures r = 0 \<and> ir_Notes r = []
      else rs = r # rest)"

lemma book_boot_booked: "boot_booked success sev tm notes r (book_boot success sev tm notes r)"
proof -
  have "(if sev < 1 then 1 else sev) = max 1 sev"
    by (cases "sev < 1") (simp_all only: max_def not_le [symmetric] if_True if_False simp_thms)
  then show ?thesis
    by (cases success) (simp_all only: boot_booked_def book_boot_def boot_note_def Let_def if_True if_False,
      simp_all)
qed

lemma spec_book_record:
  "\<exists>r rest. spec_book name c f rs = f r # rest \<and> boot_record name c rs r rest"
proof (cases "List.extract (\<lambda>r. ir_Image r = name) rs")
  case None
  then have "name \<notin> ir_Image ` set rs"
    by (auto simp: extract_None_iff)
  then show ?thesis
    using None by (cases rs) (auto simp: spec_book_def boot_record_def new_ImageResult_def)
next
  case (Some e)
  then obtain as r bs where e: "e = (as, r, bs)" "rs = as @ r # bs" "ir_Image r = name" "\<forall>x\<in>set as. ir_Image x \<noteq> name"
    by (cases e) (auto simp: extract_Some_iff)
  have "name \<in> ir_Image ` set rs"
    using e(2,3) by auto
  moreover have "\<exists>as' bs'. rs = as' @ r # bs' \<and> as @ bs = as' @ bs' \<and> ir_Image r = name
      \<and> name \<notin> ir_Image ` set as'"
    using e(2-4) by (intro exI [of _ as] exI [of _ bs]) auto
  ultimately have "boot_record name c rs r (as @ bs)"
    by (simp add: boot_record_def)
  then show ?thesis
    using Some e(1) by (auto simp: spec_book_def)
qed

text \<open>
  C34: \<open>RecordBootState\<close> does what the history promises, for a history file that holds the records \<open>rs\<close> and
  can be written: exactly one record is changed and put in front, the others stay as they are and in
  order - the first record of the image if there is one; else a new empty record if the name has the
  image prefix or there are no records; else the first record of the list.  In that record the boot
  attempts grow by one, the boot failures by the severity, at least one, exactly if the boot failed,
  one note is added, and nothing else changes.  The file holds the records in memory afterwards.
\<close>

theorem RecordBootState_refines:
  assumes "hs_path s \<noteq> []" "hs_writable s" "hs_fs s (hs_path s) = Parsed (map Some rs)"
  shows "\<exists>t r r' rest. RecordBootState impl tmp name success sev tm notes s = (Returns (), t)
    \<and> entries t = r' # rest
    \<and> boot_record name (has_prefix name (st_ImgPrefix (strs_of impl))) rs r rest
    \<and> boot_booked success sev tm notes r r'
    \<and> hs_fs t (hs_path t) = Parsed (map Some (entries t))"
proof -
  obtain t where t: "RecordBootState impl tmp name success sev tm notes s = (Returns (), t)"
    "entries t = spec_book name (has_prefix name (st_ImgPrefix (strs_of impl))) (book_boot success sev tm notes) rs"
    "hs_fs t (hs_path t) = Parsed (map Some (entries t))"
    using RecordBootState_spec [OF assms, of impl tmp name success sev tm "notes"] by auto
  obtain r rest where "entries t = book_boot success sev tm notes r # rest"
    "boot_record name (has_prefix name (st_ImgPrefix (strs_of impl))) rs r rest"
    using spec_book_record t(2) by metis
  then show ?thesis
    using t(1,3) book_boot_booked by blast
qed

definition empty_history :: hist_state where
  "empty_history =
     \<lparr>hs_mem = [], hs_results = [], hs_path = ''/log/h'', hs_fs = (\<lambda>_. Parsed []), hs_writable = True\<rparr>"

theorem RecordBootState_refines_witness:
  "\<exists>t. RecordBootState None None ''x'' False 3 ''now'' ''n'' empty_history = (Returns (), t)
    \<and> map ir_Image (entries t) = [''x''] \<and> map ir_BootAttempts (entries t) = [1]
    \<and> map ir_BootFailures (entries t) = [3]"
  using RecordBootState_refines [of empty_history "[]" None None "''x''" False 3 "''now''" "''n''"]
  by (auto simp: empty_history_def boot_record_def boot_booked_def max_def)

text \<open>A sequence of boots, and what it holds against an image.\<close>

record boot =
  b_Image :: string
  b_success :: bool
  b_severity :: u64
  b_time :: string
  b_notes :: string

fun run_boots :: "Stringer option \<Rightarrow> string option \<Rightarrow> boot list \<Rightarrow> hist_state \<Rightarrow> unit outcome \<times> hist_state" where
  "run_boots impl tmp [] s = (Returns (), s)"
| "run_boots impl tmp (b # bs) s =
     (case RecordBootState impl tmp (b_Image b) (b_success b) (b_severity b) (b_time b) (b_notes b) s of
        (Panics, t) \<Rightarrow> (Panics, t)
      | (Returns _, t) \<Rightarrow> run_boots impl tmp bs t)"

definition penalty :: "string \<Rightarrow> boot \<Rightarrow> nat" where
  "penalty img b = (if b_Image b = img \<and> \<not> b_success b then max 1 (unat (b_severity b)) else 0)"

definition recorded :: "string \<Rightarrow> ImageResult list \<Rightarrow> u64" where
  "recorded img rs =
     (case find (\<lambda>r. ir_Image r = img) rs of None \<Rightarrow> 0 | Some r \<Rightarrow> ir_ImagingFailures r + ir_BootFailures r)"

lemma book_boot_simps [simp]:
  "ir_Image (book_boot ok sev tm notes r) = ir_Image r"
  "ir_ImagingFailures (book_boot ok sev tm notes r) = ir_ImagingFailures r"
  "ir_BootFailures (book_boot ok sev tm notes r) =
     ir_BootFailures r + (if ok then 0 else if sev < 1 then 1 else sev)"
  by (simp_all add: book_boot_def Let_def)

lemma penalty_word:
  "(of_nat (penalty img b) :: u64) =
     (if b_Image b = img \<and> \<not> b_success b then if b_severity b < 1 then 1 else b_severity b else 0)"
proof -
  have "b_severity b < 1 \<longleftrightarrow> unat (b_severity b) < 1"
    by (simp add: word_less_nat_alt)
  then show ?thesis by (auto simp: penalty_def max_def)
qed

lemma recorded_spec_book:
  "recorded img (spec_book (b_Image b) True (book_boot (b_success b) (b_severity b) tm notes) rs) =
     recorded img rs + of_nat (penalty img b)"
proof (cases "List.extract (\<lambda>r. ir_Image r = b_Image b) rs")
  case None
  then have "find (\<lambda>r. ir_Image r = b_Image b) rs = None"
    by (simp add: find_extract)
  then show ?thesis
    using None by (auto simp: spec_book_def recorded_def penalty_word new_ImageResult_def)
next
  case (Some e)
  then obtain as r bs where e: "e = (as, r, bs)" "rs = as @ r # bs" "ir_Image r = b_Image b"
    "\<forall>x\<in>set as. ir_Image x \<noteq> b_Image b"
    by (cases e) (auto dest: extract_SomeE)
  have app: "find P (xs @ ys) = (case find P xs of None \<Rightarrow> find P ys | Some x \<Rightarrow> Some x)"
    for P :: "ImageResult \<Rightarrow> bool" and xs ys
    by (induction xs) auto
  have "find (\<lambda>x. ir_Image x = b_Image b) as = None"
    using e(4) by (simp add: find_None_iff)
  then have f: "find (\<lambda>x. ir_Image x = b_Image b) rs = Some r"
    by (simp add: e(2,3) app)
  have sp: "spec_book (b_Image b) True g rs = g r # as @ bs" for g
    using Some by (simp add: spec_book_def e(1))
  show ?thesis
  proof (cases "b_Image b = img")
    case True
    then show ?thesis
      using f e(3) unfolding recorded_def sp by (simp add: penalty_word)
  next
    case False
    then have "find (\<lambda>x. ir_Image x = img) rs = find (\<lambda>x. ir_Image x = img) (as @ bs)"
      by (simp add: e(2,3) app split: option.split)
    then show ?thesis
      using False e(3) unfolding recorded_def sp by (simp add: penalty_word)
  qed
qed

lemma run_boots_recorded:
  assumes "hs_path s \<noteq> []" "hs_writable s" "hs_fs s (hs_path s) = Parsed (map Some rs)" "bs \<noteq> []"
    "list_all (\<lambda>b. has_prefix (b_Image b) (st_ImgPrefix (strs_of impl))) bs"
  shows "\<exists>t as. run_boots impl tmp bs s = (Returns (), t) \<and> hist_ok t as
    \<and> recorded img (entries t) = recorded img rs + of_nat (sum_list (map (penalty img) bs))"
  using assms
proof (induction bs arbitrary: s rs)
  case (Cons b bs)
  obtain t as where t: "RecordBootState impl tmp (b_Image b) (b_success b) (b_severity b) (b_time b) (b_notes b) s = (Returns (), t)"
    "hist_ok t as" "entries t = spec_book (b_Image b) True (book_boot (b_success b) (b_severity b) (b_time b) (b_notes b)) rs"
    "hs_fs t (hs_path t) = Parsed (map Some (entries t))" "hs_path t \<noteq> []" "hs_writable t"
    using RecordBootState_spec [OF Cons.prems(1-3), of impl tmp "b_Image b" "b_success b" "b_severity b" "b_time b" "b_notes b"]
      Cons.prems(1,5) by auto
  have r: "recorded img (entries t) = recorded img rs + of_nat (penalty img b)"
    by (simp add: t(3) recorded_spec_book)
  show ?case
  proof (cases "bs = []")
    case True
    then show ?thesis using t r by auto
  next
    case False
    with Cons.prems(5) obtain u as' where "run_boots impl tmp bs t = (Returns (), u)" "hist_ok u as'"
      "recorded img (entries u) = recorded img (entries t) + of_nat (sum_list (map (penalty img) bs))"
      using Cons.IH [OF t(5,6,4) False] by auto
    with t(1) r show ?thesis by (auto simp: algebra_simps)
  qed
qed simp

lemma Check_recorded: "hist_ok s as \<Longrightarrow> Check img s = Returns (recorded img (entries s) \<le> MaxFailuresPerImg)"
  by (auto simp: Check_entries recorded_def MaxFailuresPerImg_def split: option.split)

text \<open>
  An image is given up exactly when its failures exceed five.  After any sequence of boots of
  images with credible names, in any interleaving, on top of any history on file, \<open>Check\<close> answers for an
  image whether the failures on file plus the severities of its failed boots - at least one each - are
  at most five, as long as that sum does not overflow the counter.
\<close>

theorem Check_counts_failures:
  assumes "hs_path s \<noteq> []" "hs_writable s" "hs_fs s (hs_path s) = Parsed (map Some rs)" "bs \<noteq> []"
    "list_all (\<lambda>b. has_prefix (b_Image b) (st_ImgPrefix (strs_of impl))) bs"
    "unat (recorded img rs) + sum_list (map (penalty img) bs) < 2 ^ 64"
  shows "\<exists>t. run_boots impl tmp bs s = (Returns (), t)
    \<and> Check img t = Returns (unat (recorded img rs) + sum_list (map (penalty img) bs) \<le> 5)"
proof -
  let ?n = "sum_list (map (penalty img) bs)"
  obtain t as where t: "run_boots impl tmp bs s = (Returns (), t)" "hist_ok t as"
    "recorded img (entries t) = recorded img rs + of_nat ?n"
    using run_boots_recorded [OF assms(1-5)] by blast
  have "unat (of_nat ?n :: u64) = ?n"
    using assms(6) by (simp add: unat_of_nat)
  then have "unat (recorded img (entries t)) = unat (recorded img rs) + ?n"
    using assms(6) by (simp add: t(3) unat_word_ariths)
  then have "recorded img (entries t) \<le> MaxFailuresPerImg \<longleftrightarrow> unat (recorded img rs) + ?n \<le> 5"
    by (simp add: word_le_nat_alt MaxFailuresPerImg_def)
  then show ?thesis
    using t(1) Check_recorded [OF t(2)] by simp
qed

definition six_boots :: "boot list" where
  "six_boots = replicate 6
     \<lparr>b_Image = ''WIDGET.LNX.SHINY.a'', b_success = False, b_severity = 0, b_time = ''t'', b_notes = ''n''\<rparr>"

theorem Check_counts_failures_witness:
  "\<exists>t. run_boots None None six_boots empty_history = (Returns (), t) \<and> Check ''WIDGET.LNX.SHINY.a'' t = Returns False"
proof -
  have b: "list_all (\<lambda>b. has_prefix (b_Image b) (st_ImgPrefix (strs_of None))) six_boots"
    by (simp add: six_boots_def has_prefix_def strs_of_def default_strings_def list_all_iff)
  have p: "sum_list (map (penalty ''WIDGET.LNX.SHINY.a'') six_boots) = 6"
    by (simp add: six_boots_def penalty_def numeral_eq_Suc)
  have r: "recorded img [] = 0" for img
    by (simp add: recorded_def)
  show ?thesis
    using Check_counts_failures [of empty_history "[]" six_boots None "''WIDGET.LNX.SHINY.a''" None] b
    by (simp add: p r empty_history_def) (simp add: six_boots_def)
qed

end
