(* ===== verification/Archive.thy ===== *)
theory Archive
  imports UpdSort FileUtil History CfaQuestion
begin

text \<open>
  The choice of an update file (\<open>pkg/recovery/archive/ar.go\<close>, \<open>menu.go\<close>): the files of a directory are
  filtered and sorted, or the user picks one from a menu, and the first file that the boot history does
  not rule out and that decompresses is taken.  The file system and the tools the code runs are fields
  of \<open>upd_env\<close>: the content of files, a directory listing, whether the buffer can be created, and how
  \<open>xz\<close> ends when it decompresses a file into the buffer or, on a device with low memory, to
  \<open>/dev/null\<close>.  Log output and the metadata that is only logged are left out.
\<close>

section \<open>Validation\<close>

text \<open>The end of \<open>xz\<close>: an error comes with the text on standard error, whether a signal ended the process,
  and the free space then.\<close>

datatype xz_end = XzOk | XzError string bool nat

record upd_env =
  ue_file :: "string \<Rightarrow> bytes option"
  ue_dir :: "string \<Rightarrow> (string \<times> bool) list option"
  ue_preferred :: string
  ue_buf_ok :: bool
  ue_stat_ok :: bool
  ue_xz :: "string \<Rightarrow> bool \<Rightarrow> xz_end"

datatype upd_error = EBuf | EChecksum | EDecompress | EStat

definition out_of_space :: "string \<Rightarrow> bool \<Rightarrow> nat \<Rightarrow> bool" where
  "out_of_space stderr signaled free \<longleftrightarrow>
     contains stderr ''No space left on device'' \<or> signaled \<or> free < 10 * 1024 * 1024"

text \<open>
  \<open>validateExtractUpd\<close> with the package variable \<open>lowMemoryDevice\<close>, which is returned: when \<open>xz\<close> seems to
  have run out of space, it is set and the function calls itself once more.  The name loses its last
  four characters for a message, which panics when it has fewer.
\<close>

function validateExtractUpd :: "upd_env \<Rightarrow> string \<Rightarrow> bool \<Rightarrow> upd_error option outcome \<times> bool" where
  "validateExtractUpd env upd low =
     (if \<not> low \<and> \<not> ue_buf_ok env then (Returns (Some EBuf), low)
      else if length (path_Base upd) < 4 then (Panics, low)
      else if \<not> IsXZSha256 (ue_file env upd) then (Returns (Some EChecksum), low)
      else
        (case ue_xz env upd low of
           XzOk \<Rightarrow> (Returns (if \<not> low \<and> \<not> ue_stat_ok env then Some EStat else None), low)
         | XzError stderr signaled free \<Rightarrow>
             if \<not> low \<and> out_of_space stderr signaled free then validateExtractUpd env upd True
             else (Returns (Some EDecompress), low)))"
  by pat_completeness auto
termination by (relation "measure (\<lambda>(env, upd, low). if low then 0 else 1)") auto

declare validateExtractUpd.simps [simp del]

section \<open>Candidates\<close>

definition upd_suffix :: string where "upd_suffix = ''.upd''"

text \<open>\<open>listUpdates\<close>: of the directory's files those with the right suffix, prefix and signature.\<close>

definition wanted_file :: "Stringer option \<Rightarrow> upd_env \<Rightarrow> string \<Rightarrow> string \<times> bool \<Rightarrow> bool" where
  "wanted_file impl env dir item \<longleftrightarrow>
     \<not> snd item \<and> has_suffix (fst item) upd_suffix \<and> has_prefix (fst item) (st_ImgPrefix (strs_of impl))
     \<and> IsXZSha256 (ue_file env (path_Join [dir, fst item]))"

definition listUpdates where
  "listUpdates srt impl env dir oldestFirst =
     (case ue_dir env dir of
        None \<Rightarrow> []
      | Some items \<Rightarrow>
          sortUpdates srt (map (\<lambda>item. path_Join [dir, fst item]) (filter (wanted_file impl env dir) items))
            oldestFirst)"

definition trimmedName :: "Stringer option \<Rightarrow> string \<Rightarrow> string" where
  "trimmedName impl upd =
     trim_prefix ''_'' (trim_prefix (st_EmergPfx (strs_of impl)) (trim_suffix upd_suffix (path_Base upd)))"

text \<open>The labels of the image menu: \<open>strings.SplitAfter\<close> keeps the dots at the ends of the pieces.\<close>

fun split_after :: "'a \<Rightarrow> 'a list \<Rightarrow> 'a list list" where
  "split_after c [] = [[]]"
| "split_after c (x # xs) =
     (if x = c then [c] # split_after c xs
      else (case split_after c xs of [] \<Rightarrow> [[x]] | p # ps \<Rightarrow> (x # p) # ps))"

definition menu_label :: "Stringer option \<Rightarrow> string \<Rightarrow> string" where
  "menu_label impl c =
     trim_suffix upd_suffix
       (foldl (\<lambda>s p. trim_prefix p s) (path_Base c) (split_after CHR ''.'' (st_ImgPrefix (strs_of impl))))"

text \<open>
  \<open>Menu\<close> on the LCD: the items are the labels, the result the chosen file, \<open>None\<close> for a nil slice.  The
  outer \<open>None\<close> says that the rounds of keys end before the menu does.
\<close>

definition Menu ::
    "Stringer option \<Rightarrow> string list \<Rightarrow> ((u8 \<times> (nat \<Rightarrow> bool)) list \<times> u8 list) list \<Rightarrow> Lcd
      \<Rightarrow> (string list option outcome \<times> Lcd) option" where
  "Menu impl choices rounds l =
     map_option (\<lambda>((choice, _), l').
         (if choice \<ge> 0
          then (if nat choice < length choices then Returns (Some [choices ! nat choice]) else Panics)
          else Returns None, l'))
       (MenuWithConfirm (ascii ''image menu'') (map (\<lambda>c. ascii (menu_label impl c)) choices) False rounds l)"

text \<open>\<open>VgaMenu\<close>: numbers are read until one is in range; \<open>None\<close> in the input is a line that is no number,
  and the result is \<open>None\<close> when the input ends first.\<close>

fun vga_item :: "nat \<Rightarrow> int \<Rightarrow> int option list \<Rightarrow> int option" where
  "vga_item n item ins =
     (if item < 1 \<or> int n < item
      then (case ins of
              [] \<Rightarrow> None
            | Some i # ins' \<Rightarrow> vga_item n i ins'
            | None # ins' \<Rightarrow> vga_item n item ins')
      else Some item)"

definition VgaMenu :: "string list \<Rightarrow> int option list \<Rightarrow> string list option" where
  "VgaMenu choices ins = map_option (\<lambda>i. [choices ! nat (i - 1)]) (vga_item (length choices) 0 ins)"

section \<open>The choice\<close>

record upd_state =
  us_low :: bool
  us_tag :: disktag_state
  us_full :: string
  us_hist :: hist_state

definition upd_dtag :: "Stringer option \<Rightarrow> string \<Rightarrow> upd_state \<Rightarrow> string" where
  "upd_dtag impl upd s = ImgToDTag (trimmedName impl upd) (us_tag s)"

text \<open>The loop of \<open>findValidUpd\<close> over the remaining choices; the last one is tried whatever the history
  says.\<close>

fun findValidUpd :: "Stringer option \<Rightarrow> upd_env \<Rightarrow> string list \<Rightarrow> upd_state \<Rightarrow> bool outcome \<times> upd_state" where
  "findValidUpd impl env [] s = (Returns False, s)"
| "findValidUpd impl env (upd # rest) s =
     (case Check (upd_dtag impl upd s) (us_hist s) of
        Panics \<Rightarrow> (Panics, s)
      | Returns ok \<Rightarrow>
          if \<not> ok \<and> rest \<noteq> [] then findValidUpd impl env rest s
          else
            (case validateExtractUpd env upd (us_low s) of
               (Panics, low) \<Rightarrow> (Panics, s\<lparr>us_low := low\<rparr>)
             | (Returns None, low) \<Rightarrow>
                 (Returns True,
                  s\<lparr>us_low := low, us_tag := dt_Set (upd_dtag impl upd s) (us_tag s), us_full := upd\<rparr>)
             | (Returns (Some _), low) \<Rightarrow> findValidUpd impl env rest (s\<lparr>us_low := low\<rparr>)))"

definition to_lower :: "string \<Rightarrow> string" where
  "to_lower = map (\<lambda>c. if 65 \<le> (of_char c :: nat) \<and> (of_char c :: nat) \<le> 90 then char_of (of_char c + 32 :: nat) else c)"

definition trim_chars :: "char list \<Rightarrow> string \<Rightarrow> string" where
  "trim_chars cs s = rev (dropWhile (\<lambda>c. c \<in> set cs) (rev (dropWhile (\<lambda>c. c \<in> set cs) s)))"

text \<open>
  \<open>FindValidUpd\<close>: \<open>ask\<close> is the menu.  The result is the pair \<open>valid\<close>, \<open>userCancel\<close>.
\<close>

definition FindValidUpd where
  "FindValidUpd srt impl tmp ask env emergencyImage imgopt dir lowMem s =
     (let s1 = s\<lparr>us_low := lowMem\<rparr>
      in case Load tmp (us_hist s1) of
           (Panics, h) \<Rightarrow> (Panics, s1\<lparr>us_hist := h\<rparr>)
         | (Returns _, h) \<Rightarrow>
             (let s2 = s1\<lparr>us_hist := h\<rparr>;
                  run = (\<lambda>choices. case findValidUpd impl env choices s2 of
                           (Panics, t) \<Rightarrow> (Panics, t)
                         | (Returns v, t) \<Rightarrow> (Returns (v, False), t))
              in if emergencyImage \<noteq> [] then run [emergencyImage]
                 else
                   (let opt = (if imgopt = [] then trim_chars ''-_'' (to_lower (ue_preferred env)) else imgopt);
                        choices = listUpdates srt impl env dir (opt = ''oldest'')
                    in if opt = ''menu''
                       then (case ask choices of
                               Panics \<Rightarrow> (Panics, s2)
                             | Returns None \<Rightarrow> (Returns (False, True), s2)
                             | Returns (Some chosen) \<Rightarrow> run chosen)
                       else run choices)))"

section \<open>Properties\<close>

text \<open>
  What validation has to establish, stated over the file and the tools: the signature of an xz stream with
  SHA-256 checks, and a decompression that ends well - to \<open>/dev/null\<close> on a device with low memory, else
  into the buffer, or to \<open>/dev/null\<close> after the buffer ran out of space, which puts the device into
  low-memory mode for good.
\<close>

definition signed_upd :: "upd_env \<Rightarrow> string \<Rightarrow> bool" where
  "signed_upd env upd \<longleftrightarrow> (\<exists>rest. ue_file env upd = Some ([0xfd, 0x37, 0x7a, 0x58, 0x5a, 0, 0, 0x0a] @ rest))"

definition ran_out :: "upd_env \<Rightarrow> string \<Rightarrow> bool" where
  "ran_out env upd \<longleftrightarrow> ue_buf_ok env \<and> signed_upd env upd
     \<and> (\<exists>stderr signaled free. ue_xz env upd False = XzError stderr signaled free
          \<and> (contains stderr ''No space left on device'' \<or> signaled \<or> free < 10485760))"

definition passes :: "upd_env \<Rightarrow> string \<Rightarrow> bool \<Rightarrow> bool" where
  "passes env upd low \<longleftrightarrow> signed_upd env upd
     \<and> (if low then ue_xz env upd True = XzOk
        else ue_buf_ok env
          \<and> (ue_xz env upd False = XzOk \<and> ue_stat_ok env \<or> ran_out env upd \<and> ue_xz env upd True = XzOk))"

text \<open>The history permits a choice unless it holds more than five failures against its image.\<close>

definition permitted :: "Stringer option \<Rightarrow> upd_state \<Rightarrow> string \<Rightarrow> bool" where
  "permitted impl s upd \<longleftrightarrow>
     (case find (\<lambda>r. ir_Image r = upd_dtag impl upd s) (entries (us_hist s)) of
        None \<Rightarrow> True | Some r \<Rightarrow> ir_ImagingFailures r + ir_BootFailures r \<le> 5)"

text \<open>The memory mode that the choices in front leave, and the choices that are to be taken.\<close>

definition low_after :: "Stringer option \<Rightarrow> upd_env \<Rightarrow> upd_state \<Rightarrow> string list \<Rightarrow> bool" where
  "low_after impl env s prev \<longleftrightarrow> us_low s \<or> list_ex (\<lambda>u. permitted impl s u \<and> ran_out env u) prev"

definition acceptable :: "Stringer option \<Rightarrow> upd_env \<Rightarrow> upd_state \<Rightarrow> string list \<Rightarrow> nat \<Rightarrow> bool" where
  "acceptable impl env s choices i \<longleftrightarrow>
     (permitted impl s (choices ! i) \<or> Suc i = length choices)
     \<and> passes env (choices ! i) (low_after impl env s (take i choices))"

lemma IsXZSha256_signed: "IsXZSha256 (ue_file env upd) \<longleftrightarrow> signed_upd env upd"
  by (cases "ue_file env upd")
    (simp_all add: signed_upd_def IsXZSha256_iff xzId_def, simp add: IsXZSha256_def ReadHeader_def)

lemma validate_low:
  "4 \<le> length (path_Base upd) \<Longrightarrow>
   \<exists>r. validateExtractUpd env upd True = (Returns r, True) \<and> (r = None \<longleftrightarrow> passes env upd True)"
  by (subst validateExtractUpd.simps)
    (auto simp: passes_def IsXZSha256_signed split: xz_end.split)

lemma validate_passes:
  "4 \<le> length (path_Base upd) \<Longrightarrow>
   \<exists>r. validateExtractUpd env upd low = (Returns r, low \<or> ran_out env upd) \<and> (r = None \<longleftrightarrow> passes env upd low)"
proof (cases low)
  case False
  assume n: "4 \<le> length (path_Base upd)"
  show ?thesis
  proof (cases "ue_buf_ok env \<and> signed_upd env upd")
    case True
    then show ?thesis
      using validate_low [OF n, of env] n False
      by (subst validateExtractUpd.simps)
        (auto simp: passes_def ran_out_def IsXZSha256_signed out_of_space_def split: xz_end.split)
  next
    case no: False
    then show ?thesis
      using n False
      by (subst validateExtractUpd.simps) (auto simp: passes_def ran_out_def IsXZSha256_signed)
  qed
qed (use validate_low in auto)

lemma permitted_Check: "hist_ok (us_hist s) as \<Longrightarrow> Check (upd_dtag impl upd s) (us_hist s) = Returns (permitted impl s upd)"
  by (auto simp: Check_entries permitted_def MaxFailuresPerImg_def split: option.split)

lemma permitted_frame [simp]:
  "permitted impl (s\<lparr>us_low := low\<rparr>) upd = permitted impl s upd"
  "upd_dtag impl upd (s\<lparr>us_low := low\<rparr>) = upd_dtag impl upd s"
  by (simp_all add: permitted_def upd_dtag_def)

lemma acceptable_Suc:
  "low = (us_low s \<or> permitted impl s upd \<and> ran_out env upd) \<Longrightarrow>
   acceptable impl env s (upd # rest) (Suc i) = acceptable impl env (s\<lparr>us_low := low\<rparr>) rest i"
  by (simp add: acceptable_def low_after_def list_ex_iff)

lemma acceptable_0:
  "acceptable impl env s (upd # rest) 0 \<longleftrightarrow> (permitted impl s upd \<or> rest = []) \<and> passes env upd (us_low s)"
  by (auto simp: acceptable_def low_after_def)

text \<open>What a run of \<open>findValidUpd\<close> says of its choices.\<close>

definition chose :: "Stringer option \<Rightarrow> upd_env \<Rightarrow> string list \<Rightarrow> upd_state \<Rightarrow> upd_state \<Rightarrow> bool" where
  "chose impl env choices s t \<longleftrightarrow>
     (\<exists>i<length choices. acceptable impl env s choices i \<and> (\<forall>j<i. \<not> acceptable impl env s choices j)
        \<and> us_full t = choices ! i \<and> dt_Get (us_tag t) = upd_dtag impl (choices ! i) s
        \<and> us_low t = (low_after impl env s (take i choices) \<or> ran_out env (choices ! i)))"

definition chose_none :: "Stringer option \<Rightarrow> upd_env \<Rightarrow> string list \<Rightarrow> upd_state \<Rightarrow> upd_state \<Rightarrow> bool" where
  "chose_none impl env choices s t \<longleftrightarrow>
     us_full t = us_full s \<and> us_tag t = us_tag s \<and> (\<forall>i<length choices. \<not> acceptable impl env s choices i)"

lemma chose_here:
  "acceptable impl env s (upd # rest) 0 \<Longrightarrow>
   chose impl env (upd # rest) s
     (s\<lparr>us_low := us_low s \<or> ran_out env upd, us_tag := dt_Set (upd_dtag impl upd s) (us_tag s), us_full := upd\<rparr>)"
  unfolding chose_def by (rule exI [of _ 0]) (simp add: dt_Get_Set low_after_def)

lemma chose_later:
  assumes "chose impl env rest (s\<lparr>us_low := low\<rparr>) t" "\<not> acceptable impl env s (upd # rest) 0"
    "low = (us_low s \<or> permitted impl s upd \<and> ran_out env upd)"
  shows "chose impl env (upd # rest) s t"
proof -
  note sh = acceptable_Suc [OF assms(3), where rest = rest]
  obtain i where i: "i < length rest" "acceptable impl env (s\<lparr>us_low := low\<rparr>) rest i"
    "\<forall>j<i. \<not> acceptable impl env (s\<lparr>us_low := low\<rparr>) rest j"
    "us_full t = rest ! i" "dt_Get (us_tag t) = upd_dtag impl (rest ! i) s"
    "us_low t = (low_after impl env (s\<lparr>us_low := low\<rparr>) (take i rest) \<or> ran_out env (rest ! i))"
    using assms(1) by (auto simp: chose_def)
  have "\<forall>j<Suc i. \<not> acceptable impl env s (upd # rest) j"
    using i(3) assms(2) sh by (simp add: All_less_Suc2)
  moreover have "low_after impl env s (take (Suc i) (upd # rest)) = low_after impl env (s\<lparr>us_low := low\<rparr>) (take i rest)"
    using assms(3) by (simp add: low_after_def)
  ultimately show ?thesis
    unfolding chose_def using i sh by (intro exI [of _ "Suc i"]) simp
qed

lemma chose_none_later:
  assumes "chose_none impl env rest (s\<lparr>us_low := low\<rparr>) t" "\<not> acceptable impl env s (upd # rest) 0"
    "rest \<noteq> [] \<longrightarrow> low = (us_low s \<or> permitted impl s upd \<and> ran_out env upd)"
  shows "chose_none impl env (upd # rest) s t"
proof (cases "rest = []")
  case False
  then show ?thesis
    using assms acceptable_Suc [where rest = rest and i = i for i]
    by (auto simp: chose_none_def less_Suc_eq_0_disj)
qed (use assms in \<open>auto simp: chose_none_def\<close>)

text \<open>
  C37: The choice of an update.  If the boot history has no null entries and the names have at least
  four characters, \<open>findValidUpd\<close> returns.  A choice is acceptable if the history permits it or it is the
  last one, and it passes validation in the memory mode that the choices in front of it leave: its
  signature is right, and it decompresses, in normal mode also by way of the second attempt after
  running out of space.  \<open>findValidUpd\<close> takes the first acceptable choice and says which it is, with
  its disk tag and the memory mode reached; it fails exactly if there is none, and then the disk tag
  and the chosen file are as before.
\<close>

theorem findValidUpd_chooses:
  assumes "hist_ok (us_hist s) as" "list_all (\<lambda>upd. 4 \<le> length (path_Base upd)) choices"
  shows "case findValidUpd impl env choices s of
      (Returns True, t) \<Rightarrow> chose impl env choices s t
    | (Returns False, t) \<Rightarrow> chose_none impl env choices s t
    | (Panics, t) \<Rightarrow> False"
  using assms
proof (induction choices arbitrary: s)
  case Nil
  then show ?case by (simp add: chose_none_def)
next
  case (Cons upd rest)
  note ok = permitted_Check [OF Cons.prems(1), of impl upd]
  have step: "case findValidUpd impl env rest (s\<lparr>us_low := low\<rparr>) of
      (Returns True, t) \<Rightarrow> chose impl env (upd # rest) s t
    | (Returns False, t) \<Rightarrow> chose_none impl env (upd # rest) s t
    | (Panics, t) \<Rightarrow> False"
    if "\<not> acceptable impl env s (upd # rest) 0"
      "rest \<noteq> [] \<longrightarrow> low = (us_low s \<or> permitted impl s upd \<and> ran_out env upd)" for low
  proof (cases "rest = []")
    case True
    then show ?thesis
      using chose_none_later [where rest = rest and t = "s\<lparr>us_low := low\<rparr>"] that by (simp add: chose_none_def)
  next
    case False
    then show ?thesis
      using Cons.IH [of "s\<lparr>us_low := low\<rparr>"] Cons.prems that
      by (auto intro: chose_later chose_none_later split: prod.splits outcome.splits bool.splits)
  qed
  show ?case
  proof (cases "\<not> permitted impl s upd \<and> rest \<noteq> []")
    case True
    then show ?thesis
      using step [of "us_low s"] ok by (simp add: acceptable_0)
  next
    case False
    obtain r where r: "validateExtractUpd env upd (us_low s) = (Returns r, us_low s \<or> ran_out env upd)"
      "r = None \<longleftrightarrow> passes env upd (us_low s)"
      using validate_passes [of upd env "us_low s"] Cons.prems(2) by auto
    show ?thesis
    proof (cases r)
      case None
      then show ?thesis
        using False ok r by (auto simp: acceptable_0 intro!: chose_here)
    next
      case (Some e)
      then show ?thesis
        using step [of "us_low s \<or> ran_out env upd"] False ok r by (auto simp: acceptable_0)
    qed
  qed
qed

text \<open>An update that runs out of space in the buffer and is found by the second attempt.\<close>

definition one_update :: upd_env where
  "one_update =
     \<lparr>ue_file = (\<lambda>_. Some (xzId @ [0, 0x0a])), ue_dir = (\<lambda>_. None), ue_preferred = [], ue_buf_ok = True,
      ue_stat_ok = True, ue_xz = (\<lambda>_ low. if low then XzOk else XzError [] True 0)\<rparr>"

definition fresh_upd :: upd_state where
  "fresh_upd =
     \<lparr>us_low = False, us_tag = \<lparr>dt_tag = [], dt_platform = ''X''\<rparr>, us_full = [],
      us_hist = \<lparr>hs_mem = [], hs_results = [], hs_path = ''h'', hs_fs = (\<lambda>_. NoFile), hs_writable = True\<rparr>\<rparr>"

theorem findValidUpd_chooses_witness:
  "fst (findValidUpd None one_update [''a.upd''] fresh_upd) = Returns True"
proof -
  have "hist_ok (us_hist fresh_upd) []"
    by (simp add: hist_ok_def fresh_upd_def)
  moreover have "list_all (\<lambda>upd. 4 \<le> length (path_Base upd)) [''a.upd'']"
    by (simp add: path_Base_def)
  moreover have "acceptable None one_update fresh_upd [''a.upd''] 0"
    by (simp add: acceptable_0 passes_def ran_out_def signed_upd_def one_update_def fresh_upd_def xzId_def ex_bool_eq)
  ultimately show ?thesis
    using findValidUpd_chooses [of fresh_upd "[]" "[''a.upd'']" None one_update]
    by (cases "findValidUpd None one_update [''a.upd''] fresh_upd")
      (auto simp: chose_none_def less_Suc_eq simp del: findValidUpd.simps split: outcome.splits bool.splits)
qed

text \<open>A confirmed menu without a selection beyond its items.\<close>

lemma confirm_spec_range:
  "k < 2 \<Longrightarrow> confirm_spec n rounds k = Some (c, a) \<Longrightarrow> 0 \<le> c \<Longrightarrow> c < n"
proof (induction n rounds k rule: confirm_spec.induct)
  case (2 n mks qks rounds k)
  define c' where "c' = menu_spec (n - 1) 0 mks"
  define a' where "a' = (if c' \<ge> n then ANSWER_NA else answer_of (question_spec 2 0 qks))"
  define k' where "k' = (if c' = CHOICE_NONE \<and> a' = ANSWER_NA then k + 1 else k)"
  have eq: "confirm_spec n ((mks, qks) # rounds) k =
      (if k' \<ge> 2 \<or> a' = ANSWER_YES then Some (c', a') else confirm_spec n rounds k')"
    by (simp add: Let_def c'_def a'_def k'_def)
  show ?case
  proof (cases "k' \<ge> 2 \<or> a' = ANSWER_YES")
    case True
    then have "c = c'" using "2.prems"(2) eq by simp
    with True "2.prems"(1,3) show ?thesis
      by (auto simp: k'_def a'_def CHOICE_NONE_def split: if_splits)
  next
    case False
    then have "confirm_spec n rounds k' = Some (c, a)"
      using "2.prems"(2) eq by simp
    with False "2.prems"(3) show ?thesis
      using "2.IH" [OF refl refl refl] by (simp add: c'_def a'_def k'_def)
  qed
qed simp

text \<open>
  The image menu on the LCD offers a label per file and returns the very file whose label was
  confirmed, or nothing when it was cancelled or timed out; it never indexes beyond the files, not
  even when there are none.
\<close>

theorem Menu_returns_confirmed:
  assumes "lcd_ok l"
  shows "map_option fst (Menu impl choices rounds l) =
    map_option (\<lambda>(c, _). Returns (if 0 \<le> c then Some [choices ! nat c] else None))
      (confirm_spec (int (length choices)) (map round_keys rounds) 0)"
proof -
  let ?m = "MenuWithConfirm (ascii ''image menu'') (map (\<lambda>c. ascii (menu_label impl c)) choices) False rounds l"
  have m: "map_option fst ?m = confirm_spec (int (length choices)) (map round_keys rounds) 0"
    unfolding MenuWithConfirm_def using MenuWithConfirm_loop_ok [OF assms] by simp
  show ?thesis
  proof (cases ?m)
    case None
    then show ?thesis
      using m by (simp add: Menu_def)
  next
    case (Some r)
    then obtain c a l' where r: "?m = Some ((c, a), l')"
      by (cases r) auto
    then have s: "confirm_spec (int (length choices)) (map round_keys rounds) 0 = Some (c, a)"
      using m by simp
    have "0 \<le> c \<Longrightarrow> c < int (length choices)"
      by (rule confirm_spec_range [OF _ s]) simp
    then show ?thesis
      by (auto simp: Menu_def r s)
  qed
qed

theorem Menu_returns_confirmed_witness:
  "map_option fst (Menu None [''p/a.upd'', ''p/b.upd'']
     [([(KEY_DOWN_RELEASE, \<lambda>_. True), (KEY_ENTER_RELEASE, \<lambda>_. True)], [KEY_RIGHT_RELEASE, KEY_ENTER_RELEASE])]
     (test_lcd Cfa635 silent)) = Some (Returns (Some [''p/b.upd'']))"
  by (subst Menu_returns_confirmed)
    (simp_all add: round_keys_def menu_key_of_def q_key_of_def key_defs answer_of_def)

end
