(* ===== verification/RaidDevice.thy ===== *)
theory RaidDevice
  imports GoStd
begin

text \<open>
  Access to whole disks for saving and restoring RAID metadata (\<open>pkg/erase/raid/device.go\<close>, \<open>ddf.go\<close>,
  \<open>imsm.go\<close>).  The disk is its content together with what the kernel answers: its size and sector size
  when the ioctl succeeds, and how many bytes a read or a write at an offset transfers - a disk opened
  with \<open>O_DIRECT\<close> fails where offset and length do not suit it, and the code then tries larger alignments.
  Offsets and sizes are Go's \<open>int64\<close>; where metadata of the disk enters the arithmetic, the wrap-around is
  written out.  Requests are never of negative length here: the callers pass constants or the size of a
  part of the disk.
\<close>

section \<open>The disk\<close>

definition s64 :: "int \<Rightarrow> int" where
  "s64 i = sint (word_of_int i :: 64 word)"

record disk =
  dk_opens :: bool
  dk_bytes :: bytes
  dk_size :: "nat option"
  dk_sector :: "nat option"
  dk_read :: "nat \<Rightarrow> nat \<Rightarrow> nat option"
  dk_write :: "nat \<Rightarrow> nat \<Rightarrow> nat"

datatype raid_error = ERead | EEOF | ESeek | EAlignment | EBounds | EShortWrite | EReadSize | ELbaVal | EBLKSSZ
  | ESectorIoctl | ENoData | EUnknownRaidFormat | EOpen | ETypeMismatch

text \<open>\<open>File.Read\<close> into a buffer of \<open>n\<close> bytes: the bytes read, or an error; no bytes are the end of the file.\<close>

definition file_Read :: "disk \<Rightarrow> nat \<Rightarrow> nat \<Rightarrow> raid_error + bytes" where
  "file_Read dk pos n =
     (if n = 0 then Inr []
      else
        (case dk_read dk pos n of
           None \<Rightarrow> Inl ERead
         | Some k \<Rightarrow>
             (let bs = take (min k n) (drop pos (dk_bytes dk)) in if bs = [] then Inl EEOF else Inr bs)))"

text \<open>\<open>File.Seek\<close> to an absolute or end-relative offset.\<close>

definition file_Seek :: "disk \<Rightarrow> int \<Rightarrow> raid_error + nat" where
  "file_Seek dk off =
     (let p = (if off < 0 then int (length (dk_bytes dk)) + off else off)
      in if p < 0 then Inl ESeek else Inr (nat p))"

text \<open>\<open>File.WriteAt\<close>: the number of bytes written, an error when they are fewer than asked for.\<close>

definition patch :: "nat \<Rightarrow> bytes \<Rightarrow> bytes \<Rightarrow> bytes" where
  "patch pos new old = take pos old @ new @ drop (pos + length new) old"

definition file_WriteAt :: "disk \<Rightarrow> nat \<Rightarrow> bytes \<Rightarrow> nat \<times> disk" where
  "file_WriteAt dk pos bs =
     (let k = min (dk_write dk pos (length bs)) (min (length bs) (length (dk_bytes dk) - pos))
      in (k, dk\<lparr>dk_bytes := patch pos (take k bs) (dk_bytes dk)\<rparr>))"

section \<open>Devices\<close>

datatype raidType = RT_unset | RT_unknown | RT_msm | RT_ddf

fun raidType_String :: "raidType \<Rightarrow> string" where
  "raidType_String RT_unset = ''(unset)''"
| "raidType_String RT_unknown = ''(unknown)''"
| "raidType_String RT_msm = ''Intel Matrix Storage''"
| "raidType_String RT_ddf = ''SNIA DDF''"

record Device =
  d_inArray :: bool
  d_alignment :: int
  d_arrayType :: raidType
  d_dev :: string
  d_fd :: bool
  d_sectorSize :: nat
  d_devSize :: nat
  d_arrayMetadata :: bytes

definition NewDevice :: "string \<Rightarrow> Device" where
  "NewDevice dev =
     \<lparr>d_inArray = False, d_alignment = 0, d_arrayType = RT_unset, d_dev = dev, d_fd = False, d_sectorSize = 0, d_devSize = 0,
      d_arrayMetadata = []\<rparr>"

text \<open>\<open>Open\<close> keeps an open descriptor; the result says whether it failed.  Reading and writing come after it.\<close>

definition Open :: "disk \<Rightarrow> Device \<Rightarrow> raid_error option \<times> Device" where
  "Open dk d = (if d_fd d then (None, d) else if dk_opens dk then (None, d\<lparr>d_fd := True\<rparr>) else (Some EOpen, d))"

definition Close :: "Device \<Rightarrow> Device" where
  "Close d = d\<lparr>d_fd := False\<rparr>"

text \<open>\<open>readSize\<close> and \<open>ReadSize\<close>; the flag says whether the ioctl failed.\<close>

definition readSize :: "disk \<Rightarrow> Device \<Rightarrow> bool \<times> Device" where
  "readSize dk d =
     (case dk_size dk of
        None \<Rightarrow> (True, d\<lparr>d_devSize := 0\<rparr>)
      | Some n \<Rightarrow> (False, d\<lparr>d_devSize := n\<rparr>))"

definition ReadSize :: "disk \<Rightarrow> Device \<Rightarrow> bool \<times> Device" where
  "ReadSize dk d = (if d_devSize d = 0 then readSize dk d else (False, d))"

text \<open>\<open>align\<close>, with Go's truncating remainder.\<close>

definition go_rem :: "int \<Rightarrow> int \<Rightarrow> int" where
  "go_rem a b = sgn a * (\<bar>a\<bar> mod \<bar>b\<bar>)"

definition align :: "int \<Rightarrow> int \<Rightarrow> int \<times> int" where
  "align at how =
     (if go_rem at how = 0 then (at, 0)
      else if at > 0 \<and> at < how then (0, at)
      else
        (let off = (if at < 0 then how + go_rem at how else go_rem at how) in (at - off, off)))"

text \<open>\<open>InRange\<close>; a zero alignment is a division by zero.\<close>

definition InRange :: "disk \<Rightarrow> int \<Rightarrow> int \<Rightarrow> Device \<Rightarrow> bool outcome \<times> Device" where
  "InRange dk at len d =
     (case ReadSize dk d of
        (True, d1) \<Rightarrow> (Returns False, d1)
      | (False, d1) \<Rightarrow>
          (let at1 = (if at < 0 then int (d_devSize d1) + at else at)
           in if d_alignment d1 = 0 then (Panics, d1)
              else (case align (at1 + len) (d_alignment d1) of
                      (ap, off) \<Rightarrow> (Returns (ap + off \<le> int (d_devSize d1)), d1))))"

text \<open>
  One attempt of \<open>rawAlignedRead\<close> with a given alignment: the bytes read, the absolute offset of the
  first one, and the part of them that was asked for.  The end of the file behind that part is no
  error.
\<close>

record aligned =
  al_buf :: bytes
  al_begin :: nat
  al_off1 :: int
  al_off2 :: int

definition aligned_attempt :: "disk \<Rightarrow> int \<Rightarrow> int \<Rightarrow> int \<Rightarrow> raid_error + aligned" where
  "aligned_attempt dk at reqSize alignment =
     (case align at alignment of
        (begin0, offset1) \<Rightarrow>
          (case file_Seek dk begin0 of
             Inl e \<Rightarrow> Inl e
           | Inr beg \<Rightarrow>
               (case align (int beg + offset1 + reqSize) alignment of
                  (end0, o1) \<Rightarrow>
                    (let readEnd = end0 - int beg + (if o1 > 0 then alignment else 0)
                     in case file_Read dk beg (nat readEnd) of
                          Inl e \<Rightarrow>
                            if e = EEOF \<and> - offset1 \<ge> reqSize
                            then Inr \<lparr>al_buf = [], al_begin = beg, al_off1 = offset1,
                                      al_off2 = min (offset1 + reqSize) 0\<rparr>
                            else Inl e
                        | Inr bs \<Rightarrow>
                            Inr \<lparr>al_buf = bs, al_begin = beg, al_off1 = offset1,
                                 al_off2 = min (offset1 + reqSize) (int (length bs))\<rparr>))))"

definition maxAlign :: int where "maxAlign = 16 * 1024"

text \<open>The loop over alignments; it leaves the alignment that worked, or 0.\<close>

function aligned_loop :: "disk \<Rightarrow> int \<Rightarrow> int \<Rightarrow> int \<Rightarrow> raid_error \<Rightarrow> (raid_error + aligned) \<times> int" where
  "aligned_loop dk at reqSize alignment err =
     (if alignment \<le> 0 \<or> maxAlign < alignment then (Inl err, 0)
      else
        (case aligned_attempt dk at reqSize alignment of
           Inr a \<Rightarrow> (Inr a, alignment)
         | Inl e \<Rightarrow> aligned_loop dk at reqSize (alignment * 2) e))"
  by pat_completeness auto
termination
  by (relation "measure (\<lambda>(dk, at, reqSize, alignment, err). nat (maxAlign + 1 - alignment))") auto

declare aligned_loop.simps [simp del]

text \<open>
  \<open>rawAlignedRead\<close>: a slice of a negative or absurd length cannot be made.  The size check only looks at
  the start of the range.
\<close>

definition maxAlloc :: int where "maxAlloc = 2 ^ 48"

definition rawAlignedRead :: "disk \<Rightarrow> int \<Rightarrow> int \<Rightarrow> Device \<Rightarrow> (raid_error + aligned) outcome \<times> Device" where
  "rawAlignedRead dk at reqSize d =
     (let d1 = snd (ReadSize dk d)
      in if \<bar>at\<bar> > int (d_devSize d1) then (Returns (Inl EBounds), d1)
         else
           (let d2 = (if d_alignment d1 = 0 then d1\<lparr>d_alignment := 512\<rparr> else d1);
                n = s64 (maxAlign * 2 + reqSize)
            in if n < 0 \<or> maxAlloc < n then (Panics, d2)
               else (case aligned_loop dk at reqSize (d_alignment d2) EAlignment of
                       (r, al) \<Rightarrow> (Returns r, d2\<lparr>d_alignment := al\<rparr>))))"

definition AlignedRead :: "disk \<Rightarrow> int \<Rightarrow> int \<Rightarrow> Device \<Rightarrow> (raid_error + bytes) outcome \<times> Device" where
  "AlignedRead dk at len d =
     (case rawAlignedRead dk at len d of
        (Panics, d1) \<Rightarrow> (Panics, d1)
      | (Returns (Inl e), d1) \<Rightarrow> (Returns (Inl e), d1)
      | (Returns (Inr a), d1) \<Rightarrow>
          if al_off2 a < al_off1 a then (Panics, d1)
          else (Returns (Inr (take (nat (al_off2 a - al_off1 a)) (drop (nat (al_off1 a)) (al_buf a)))), d1))"

text \<open>\<open>AlignedWrite\<close>: the bytes around the data are read and written back.\<close>

definition AlignedWrite ::
    "int \<Rightarrow> bytes \<Rightarrow> Device \<Rightarrow> disk \<Rightarrow> raid_error option outcome \<times> Device \<times> disk" where
  "AlignedWrite at data d dk =
     (case rawAlignedRead dk at (int (length data)) d of
        (Panics, d1) \<Rightarrow> (Panics, d1, dk)
      | (Returns (Inl e), d1) \<Rightarrow> (Returns (Some e), d1, dk)
      | (Returns (Inr a), d1) \<Rightarrow>
          if al_off2 a - al_off1 a < int (length data) then (Returns (Some EShortWrite), d1, dk)
          else
            (let buf = patch (nat (al_off1 a)) data (al_buf a)
             in case file_WriteAt dk (al_begin a) buf of
                  (n, dk1) \<Rightarrow> (Returns (if n < length buf then Some EShortWrite else None), d1, dk1)))"

section \<open>Reading and writing exactly\<close>

text \<open>\<open>align\<close> rounds down to a multiple, also below zero.\<close>

lemma align_floor: "0 < how \<Longrightarrow> align at how = (at - at mod how, at mod how)"
proof -
  assume how: "0 < how"
  show ?thesis
  proof (cases "at < 0")
    case True
    have "at mod how = (if (- at) mod how = 0 then 0 else how - (- at) mod how)"
      using zmod_zminus1_eq_if [of "- at" how] by simp
    moreover have "0 \<le> (- at) mod how"
      using how by simp
    ultimately show ?thesis
      using True how by (auto simp: align_def go_rem_def Let_def)
  next
    case False
    then show ?thesis
      using how by (auto simp: align_def go_rem_def Let_def sgn_if)
  qed
qed

text \<open>A disk whose size is known and whose successful reads are not cut short.\<close>

definition disk_ok :: "disk \<Rightarrow> bool" where
  "disk_ok dk \<longleftrightarrow> dk_size dk = Some (length (dk_bytes dk))
     \<and> (\<forall>pos n k. dk_read dk pos n = Some k \<longrightarrow> min n (length (dk_bytes dk) - pos) \<le> k)"

definition dev_ok :: "disk \<Rightarrow> Device \<Rightarrow> bool" where
  "dev_ok dk d \<longleftrightarrow> (d_devSize d = 0 \<or> d_devSize d = length (dk_bytes dk)) \<and> 0 \<le> d_alignment d"

definition abs_pos :: "disk \<Rightarrow> int \<Rightarrow> int" where
  "abs_pos dk at = (if at < 0 then int (length (dk_bytes dk)) + at else at)"

text \<open>What was read contains the range that was asked for, as far as the disk has it.\<close>

definition good_read :: "disk \<Rightarrow> int \<Rightarrow> int \<Rightarrow> aligned \<Rightarrow> bool" where
  "good_read dk at req a \<longleftrightarrow>
     (\<exists>m. al_off1 a + req \<le> int m \<and> al_buf a = take m (drop (al_begin a) (dk_bytes dk)))
     \<and> int (al_begin a) + al_off1 a = abs_pos dk at \<and> 0 \<le> al_off1 a
     \<and> al_off2 a = min (al_off1 a + req) (int (length (al_buf a)))"

lemma file_Read_full:
  assumes "disk_ok dk" "file_Read dk pos n = Inr bs"
  shows "bs = take n (drop pos (dk_bytes dk))"
proof (cases "n = 0")
  case True
  then show ?thesis
    using assms(2) by (simp add: file_Read_def)
next
  case False
  then obtain k where k: "dk_read dk pos n = Some k" "bs = take (min k n) (drop pos (dk_bytes dk))"
    using assms(2) by (auto simp: file_Read_def Let_def split: option.splits if_splits)
  then have "min n (length (dk_bytes dk) - pos) \<le> k"
    using assms(1) by (simp add: disk_ok_def)
  then show ?thesis
    using k(2) by (cases "n \<le> k") (auto simp: min_def take_all split: if_splits)
qed

lemma aligned_attempt_good:
  assumes "disk_ok dk" "0 < alignment" "0 \<le> req" "aligned_attempt dk at req alignment = Inr a"
  shows "good_read dk at req a"
proof -
  define o1 where "o1 = at mod alignment"
  have "0 \<le> o1" "o1 < alignment" "0 \<le> at \<Longrightarrow> o1 \<le> at"
    using assms(2) by (simp_all add: o1_def zmod_le_nonneg_dividend)
  then have o1: "0 \<le> o1" "o1 < alignment" "at < 0 \<longleftrightarrow> at - o1 < 0"
    by linarith+
  obtain beg where beg: "file_Seek dk (at - o1) = Inr beg"
    using assms(4) by (auto simp: aligned_attempt_def align_floor [OF assms(2)] o1_def split: sum.splits)
  have pos: "int beg + o1 = abs_pos dk at"
    using beg o1(3) by (auto simp: file_Seek_def abs_pos_def Let_def split: if_splits)
  define e where "e = int beg + o1 + req"
  define readEnd where "readEnd = e - e mod alignment - int beg + (if e mod alignment > 0 then alignment else 0)"
  have end_ge: "o1 + req \<le> readEnd"
    using pos_mod_bound [OF assms(2), of e] pos_mod_sign [OF assms(2), of e] unfolding readEnd_def
    by (auto simp: e_def)
  have run: "(case file_Read dk beg (nat readEnd) of
      Inl err \<Rightarrow> if err = EEOF \<and> - o1 \<ge> req
        then Inr \<lparr>al_buf = [], al_begin = beg, al_off1 = o1, al_off2 = min (o1 + req) 0\<rparr> else Inl err
    | Inr bs \<Rightarrow> Inr \<lparr>al_buf = bs, al_begin = beg, al_off1 = o1, al_off2 = min (o1 + req) (int (length bs))\<rparr>) = Inr a"
    using assms(4) unfolding aligned_attempt_def align_floor [OF assms(2)] readEnd_def e_def
    by (simp only: prod.case o1_def [symmetric] beg sum.case Let_def)
  show ?thesis
  proof (cases "file_Read dk beg (nat readEnd)")
    case (Inl err)
    then have "- o1 \<ge> req" "a = \<lparr>al_buf = [], al_begin = beg, al_off1 = o1, al_off2 = min (o1 + req) 0\<rparr>"
      using run by (auto split: if_splits)
    then show ?thesis
      using o1(1) assms(3) pos by (auto simp: good_read_def intro!: exI [of _ 0])
  next
    case (Inr bs)
    then have "bs = take (nat readEnd) (drop beg (dk_bytes dk))"
      by (rule file_Read_full [OF assms(1)])
    then show ?thesis
      using run Inr end_ge o1(1) assms(3) pos by (auto simp: good_read_def intro!: exI [of _ "nat readEnd"])
  qed
qed

lemma aligned_loop_good:
  "disk_ok dk \<Longrightarrow> 0 \<le> req \<Longrightarrow> aligned_loop dk at req alignment e = (Inr a, al) \<Longrightarrow>
   good_read dk at req a \<and> 0 < al"
proof (induction dk at req alignment e rule: aligned_loop.induct)
  case (1 dk at req alignment e)
  show ?case
  proof (cases "alignment \<le> 0 \<or> maxAlign < alignment")
    case True
    then show ?thesis using "1.prems"(3) by (subst (asm) aligned_loop.simps) simp
  next
    case False
    then show ?thesis
      using "1.prems" "1.IH" by (cases "aligned_attempt dk at req alignment")
        (auto simp: aligned_loop.simps [of dk at req alignment e] intro: aligned_attempt_good [where alignment = alignment])
  qed
qed

lemma s64_small: "- (2 ^ 63) \<le> i \<Longrightarrow> i < 2 ^ 63 \<Longrightarrow> s64 i = i"
  by (simp add: s64_def signed_take_bit_int_eq_self sint_sbintrunc')

lemma ReadSize_ok:
  assumes "disk_ok dk" "dev_ok dk d"
  shows "d_devSize (snd (ReadSize dk d)) = length (dk_bytes dk)"
    and "dev_ok dk (snd (ReadSize dk d))" "\<not> fst (ReadSize dk d)"
    and "d_arrayMetadata (snd (ReadSize dk d)) = d_arrayMetadata d"
    and "d_arrayType (snd (ReadSize dk d)) = d_arrayType d"
    and "d_sectorSize (snd (ReadSize dk d)) = d_sectorSize d"
    and "d_alignment (snd (ReadSize dk d)) = d_alignment d"
  using assms by (auto simp: ReadSize_def readSize_def disk_ok_def dev_ok_def)

text \<open>The fields an operation on the disk leaves alone.\<close>

definition same_meta :: "Device \<Rightarrow> Device \<Rightarrow> bool" where
  "same_meta d d' \<longleftrightarrow> d_arrayMetadata d' = d_arrayMetadata d \<and> d_arrayType d' = d_arrayType d
     \<and> d_sectorSize d' = d_sectorSize d"

lemma rawAlignedRead_good:
  assumes "disk_ok dk" "dev_ok dk d" "0 \<le> req" "req \<le> 2 ^ 47"
  obtains r d1 where "rawAlignedRead dk at req d = (Returns r, d1)" "dev_ok dk d1" "same_meta d d1"
    "d_devSize d1 = length (dk_bytes dk)"
    "\<And>a. r = Inr a \<Longrightarrow> good_read dk at req a \<and> \<bar>at\<bar> \<le> int (length (dk_bytes dk)) \<and> 0 < d_alignment d1"
proof -
  define d1 where "d1 = snd (ReadSize dk d)"
  note rs = ReadSize_ok [OF assms(1,2), folded d1_def]
  show ?thesis
  proof (cases "\<bar>at\<bar> > int (d_devSize d1)")
    case True
    then show ?thesis
      using rs by (intro that [of "Inl EBounds" d1]) (auto simp: rawAlignedRead_def d1_def Let_def same_meta_def)
  next
    case False
    define d2 where "d2 = (if d_alignment d1 = 0 then d1\<lparr>d_alignment := 512\<rparr> else d1)"
    have n: "s64 (maxAlign * 2 + req) = maxAlign * 2 + req"
      using assms(3,4) by (intro s64_small) (simp_all add: maxAlign_def)
    have sz: "\<not> (maxAlign * 2 + req < 0 \<or> maxAlloc < maxAlign * 2 + req)"
      using assms(3,4) by (simp add: maxAlign_def maxAlloc_def)
    obtain r al where l: "aligned_loop dk at req (d_alignment d2) EAlignment = (r, al)"
      by (cases "aligned_loop dk at req (d_alignment d2) EAlignment")
    have al: "0 \<le> al"
    proof -
      have "0 \<le> snd (aligned_loop dk at req x e)" for x e
      proof (induction dk at req x e rule: aligned_loop.induct)
        case (1 dk at req x e)
        then show ?case
          by (subst aligned_loop.simps) (auto split: sum.split)
      qed
      then show ?thesis using l by (metis snd_conv)
    qed
    have run: "rawAlignedRead dk at req d = (Returns r, d2\<lparr>d_alignment := al\<rparr>)"
      using False l sz unfolding rawAlignedRead_def Let_def d1_def [symmetric] d2_def [symmetric] n by simp
    show ?thesis
      using run rs al False aligned_loop_good [OF assms(1,3)] l
      by (intro that [of r "d2\<lparr>d_alignment := al\<rparr>"]) (auto simp: d2_def dev_ok_def same_meta_def)
  qed
qed

lemma take_min_length: "take (min r (length ys)) ys = take r ys"
  by (cases "r \<le> length ys") (simp_all add: min_def)

lemma good_read_data:
  assumes "good_read dk at req a" "0 \<le> req" "\<bar>at\<bar> \<le> int (length (dk_bytes dk))"
  shows "al_off1 a \<le> al_off2 a"
    and "take (nat (al_off2 a - al_off1 a)) (drop (nat (al_off1 a)) (al_buf a)) =
      take (nat req) (drop (nat (abs_pos dk at)) (dk_bytes dk))"
    and "nat (abs_pos dk at) = al_begin a + nat (al_off1 a)"
proof -
  obtain m where m: "al_off1 a + req \<le> int m" "al_buf a = take m (drop (al_begin a) (dk_bytes dk))"
    and g: "int (al_begin a) + al_off1 a = abs_pos dk at" "0 \<le> al_off1 a"
      "al_off2 a = min (al_off1 a + req) (int (length (al_buf a)))"
    using assms(1) by (auto simp: good_read_def)
  define o1 where "o1 = nat (al_off1 a)"
  have o1: "al_off1 a = int o1"
    using g(2) by (simp add: o1_def)
  have pos: "abs_pos dk at \<le> int (length (dk_bytes dk))"
    using assms(3) by (auto simp: abs_pos_def)
  show p: "nat (abs_pos dk at) = al_begin a + nat (al_off1 a)"
    using g(1,2) by linarith
  have len: "o1 \<le> length (al_buf a)"
    using m g(1) pos assms(2) by (simp add: o1)
  then show "al_off1 a \<le> al_off2 a"
    using g(3) assms(2) by (simp add: o1)
  let ?D = "drop (nat (abs_pos dk at)) (dk_bytes dk)"
  have cut: "nat (al_off2 a - al_off1 a) = min (nat req) (length (drop o1 (al_buf a)))"
    using g(3) len assms(2) by (auto simp: o1 min_def)
  have buf: "drop o1 (al_buf a) = take (m - o1) ?D"
    by (simp add: m(2) drop_take p o1 add.commute)
  have req: "min (nat req) (m - o1) = nat req"
    using m(1) o1 by linarith
  have "take (min (nat req) (length (drop o1 (al_buf a)))) (drop o1 (al_buf a)) = take (nat req) (drop o1 (al_buf a))"
    by (rule take_min_length)
  also have "\<dots> = take (nat req) ?D"
    unfolding buf take_take req ..
  finally show "take (nat (al_off2 a - al_off1 a)) (drop (nat (al_off1 a)) (al_buf a)) = take (nat req) ?D"
    unfolding cut by (simp only: o1 nat_int)
qed

lemma AlignedRead_data:
  assumes "disk_ok dk" "dev_ok dk d" "0 \<le> req" "req \<le> 2 ^ 47"
  obtains r d1 where "AlignedRead dk at req d = (Returns r, d1)" "dev_ok dk d1" "same_meta d d1"
    "d_devSize d1 = length (dk_bytes dk)"
    "\<And>bs. r = Inr bs \<Longrightarrow> bs = take (nat req) (drop (nat (abs_pos dk at)) (dk_bytes dk))
      \<and> \<bar>at\<bar> \<le> int (length (dk_bytes dk)) \<and> 0 < d_alignment d1"
proof -
  obtain r d1 where r: "rawAlignedRead dk at req d = (Returns r, d1)" "dev_ok dk d1" "same_meta d d1"
    "d_devSize d1 = length (dk_bytes dk)"
    "\<And>a. r = Inr a \<Longrightarrow> good_read dk at req a \<and> \<bar>at\<bar> \<le> int (length (dk_bytes dk)) \<and> 0 < d_alignment d1"
    using rawAlignedRead_good [OF assms] by blast
  show ?thesis
  proof (cases r)
    case (Inl e)
    then show ?thesis
      using r by (intro that [of "Inl e" d1]) (auto simp: AlignedRead_def)
  next
    case (Inr a)
    then have g: "good_read dk at req a" "\<bar>at\<bar> \<le> int (length (dk_bytes dk))" "0 < d_alignment d1"
      using r(5) by auto
    note gd = good_read_data [OF g(1) assms(3) g(2)]
    show ?thesis
      using r Inr g gd by (intro that [of "Inr (take (nat req) (drop (nat (abs_pos dk at)) (dk_bytes dk)))" d1])
        (auto simp: AlignedRead_def)
  qed
qed

text \<open>Writing in place.\<close>

lemma length_patch [simp]: "pos + length new \<le> length old \<Longrightarrow> length (patch pos new old) = length old"
  by (simp add: patch_def)

lemma nth_patch:
  "pos + length new \<le> length old \<Longrightarrow> i < length old \<Longrightarrow>
   patch pos new old ! i = (if pos \<le> i \<and> i < pos + length new then new ! (i - pos) else old ! i)"
  by (auto simp: patch_def nth_append min_def)

lemma patch_patch:
  assumes "o1 + length data \<le> length (take m (drop beg old))"
  shows "patch beg (patch o1 data (take m (drop beg old))) old = patch (beg + o1) data old"
proof (cases "length old < beg")
  case True
  then show ?thesis
    using assms by (simp add: patch_def)
next
  case False
  let ?b = "take m (drop beg old)"
  have lb: "length (patch o1 data ?b) = length ?b"
    using assms by (rule length_patch)
  from False have "beg \<le> length old"
    by simp
  then have l: "beg + length ?b \<le> length old"
    by simp
  have dat: "beg + o1 + length data \<le> length old"
    using assms l by linarith
  show ?thesis
  proof (rule nth_equalityI)
    show "length (patch beg (patch o1 data ?b) old) = length (patch (beg + o1) data old)"
      by (simp only: length_patch [of beg "patch o1 data ?b" old, unfolded lb, OF l] length_patch [OF dat])
    fix i
    assume "i < length (patch beg (patch o1 data ?b) old)"
    then have i: "i < length old"
      by (simp only: length_patch [of beg "patch o1 data ?b" old, unfolded lb, OF l])
    show "patch beg (patch o1 data ?b) old ! i = patch (beg + o1) data old ! i"
    proof (cases "beg \<le> i \<and> i < beg + length ?b")
      case True
      then have "patch beg (patch o1 data ?b) old ! i = patch o1 data ?b ! (i - beg)"
        using nth_patch [of beg "patch o1 data ?b" old i] l i lb by simp
      also have "\<dots> = (if o1 \<le> i - beg \<and> i - beg < o1 + length data then data ! (i - beg - o1) else ?b ! (i - beg))"
        by (rule nth_patch [OF assms]) (use True in linarith)
      also have "?b ! (i - beg) = old ! i"
      proof -
        have "i - beg < m" "beg + (i - beg) = i"
          using True by auto
        then show ?thesis
          using \<open>beg \<le> length old\<close> by (simp add: nth_drop)
      qed
      finally show ?thesis
        using True by (simp add: nth_patch [OF dat i]) (auto simp: le_diff_conv2 less_diff_conv2 diff_diff_left)
    next
      case False
      then have "patch beg (patch o1 data ?b) old ! i = old ! i"
        using nth_patch [of beg "patch o1 data ?b" old i] l i lb by auto
      moreover have "\<not> (beg + o1 \<le> i \<and> i < beg + o1 + length data)"
        using False assms by linarith
      ultimately show ?thesis
        by (auto simp: nth_patch [OF dat i])
    qed
  qed
qed

lemma file_WriteAt_full:
  assumes "file_WriteAt dk pos bs = (n, dk')" "\<not> n < length bs"
  shows "dk' = dk\<lparr>dk_bytes := patch pos bs (dk_bytes dk)\<rparr>"
proof -
  have "n \<le> length bs"
    using assms(1) by (auto simp: file_WriteAt_def Let_def)
  then have "n = length bs"
    using assms(2) by simp
  then show ?thesis
    using assms(1) unfolding file_WriteAt_def Let_def by auto
qed

lemma AlignedWrite_data:
  assumes "disk_ok dk" "dev_ok dk d" "length data \<le> 2 ^ 47"
    "AlignedWrite at data d dk = (r, d1, dk1)"
  shows "r \<noteq> Panics" "same_meta d d1" "dev_ok dk d1"
    and "r = Returns None \<Longrightarrow> dk1 = dk\<lparr>dk_bytes := patch (nat (abs_pos dk at)) data (dk_bytes dk)\<rparr>
      \<and> 0 \<le> abs_pos dk at \<and> nat (abs_pos dk at) + length data \<le> length (dk_bytes dk)"
proof -
  have q: "0 \<le> int (length data)" "int (length data) \<le> 2 ^ 47"
    using assms(3) by simp_all
  obtain rr d' where raw: "rawAlignedRead dk at (int (length data)) d = (Returns rr, d')" "dev_ok dk d'" "same_meta d d'"
    "\<And>a. rr = Inr a \<Longrightarrow> good_read dk at (int (length data)) a \<and> \<bar>at\<bar> \<le> int (length (dk_bytes dk))"
    using rawAlignedRead_good [OF assms(1,2) q] by metis
  show "r \<noteq> Panics" "same_meta d d1" "dev_ok dk d1"
    using assms(4) raw by (auto simp: AlignedWrite_def Let_def split: sum.splits if_splits prod.splits)
  assume r: "r = Returns None"
  then obtain a where a: "rr = Inr a" "int (length data) \<le> al_off2 a - al_off1 a"
    using assms(4) raw(1) by (auto simp: AlignedWrite_def split: sum.splits if_splits)
  have g: "good_read dk at (int (length data)) a" "\<bar>at\<bar> \<le> int (length (dk_bytes dk))"
    using raw(4) a(1) by auto
  note gd = good_read_data(3) [OF g(1) q(1) g(2)]
  obtain m where m: "al_buf a = take m (drop (al_begin a) (dk_bytes dk))"
    and o1: "0 \<le> al_off1 a" "al_off2 a \<le> int (length (al_buf a))"
    using g(1) by (auto simp: good_read_def)
  have fits: "nat (al_off1 a) + length data \<le> length (al_buf a)"
    using a(2) o1 by linarith
  let ?buf = "patch (nat (al_off1 a)) data (al_buf a)"
  obtain n dk2 where w: "file_WriteAt dk (al_begin a) ?buf = (n, dk2)"
    by (cases "file_WriteAt dk (al_begin a) ?buf")
  have n: "\<not> n < length ?buf" "dk1 = dk2"
    using assms(4) raw(1) a w r by (auto simp: AlignedWrite_def Let_def split: if_splits)
  then have "dk1 = dk\<lparr>dk_bytes := patch (al_begin a) ?buf (dk_bytes dk)\<rparr>"
    using file_WriteAt_full [OF w] by simp
  also have "patch (al_begin a) ?buf (dk_bytes dk) = patch (al_begin a + nat (al_off1 a)) data (dk_bytes dk)"
    unfolding m by (rule patch_patch) (use fits in \<open>simp add: m\<close>)
  finally have "dk1 = dk\<lparr>dk_bytes := patch (nat (abs_pos dk at)) data (dk_bytes dk)\<rparr>"
    by (simp add: gd)
  moreover have "0 \<le> abs_pos dk at"
    using g(2) by (auto simp: abs_pos_def)
  moreover have "nat (abs_pos dk at) \<le> length (dk_bytes dk)"
    using g(2) by (auto simp: abs_pos_def)
  moreover have "nat (abs_pos dk at) + length data \<le> length (dk_bytes dk)"
  proof -
    have "length (al_buf a) \<le> length (dk_bytes dk) - al_begin a"
      by (simp add: m)
    then show ?thesis
      using fits gd \<open>nat (abs_pos dk at) \<le> length (dk_bytes dk)\<close> by linarith
  qed
  ultimately show "dk1 = dk\<lparr>dk_bytes := patch (nat (abs_pos dk at)) data (dk_bytes dk)\<rparr>
      \<and> 0 \<le> abs_pos dk at \<and> nat (abs_pos dk at) + length data \<le> length (dk_bytes dk)"
    by simp
qed



lemma patch_Nil [simp]: "patch pos [] old = old"
  by (simp add: patch_def)

lemma file_WriteAt_keeps:
  assumes "file_WriteAt dk pos bs = (n, dk')"
  shows "length (dk_bytes dk') = length (dk_bytes dk)" "disk_ok dk \<Longrightarrow> disk_ok dk'"
proof -
  have dk': "dk' = dk\<lparr>dk_bytes := patch pos (take n bs) (dk_bytes dk)\<rparr>" "n \<le> length (dk_bytes dk) - pos"
    using assms by (auto simp: file_WriteAt_def Let_def)
  show len: "length (dk_bytes dk') = length (dk_bytes dk)"
  proof (cases "n = 0")
    case False
    then show ?thesis
      using dk' by (simp add: length_patch)
  qed (simp add: dk')
  show "disk_ok dk \<Longrightarrow> disk_ok dk'"
    using len unfolding disk_ok_def dk'(1) by simp
qed

lemma AlignedWrite_keeps:
  assumes "disk_ok dk" "dev_ok dk d" "length data \<le> 2 ^ 47" "AlignedWrite at data d dk = (r, d1, dk1)"
  shows "length (dk_bytes dk1) = length (dk_bytes dk)" "disk_ok dk1" "d_devSize d1 = length (dk_bytes dk)"
    and "r = Returns None \<Longrightarrow> 0 < d_alignment d1"
proof -
  have q: "0 \<le> int (length data)" "int (length data) \<le> 2 ^ 47"
    using assms(3) by simp_all
  obtain rr d' where raw: "rawAlignedRead dk at (int (length data)) d = (Returns rr, d')"
    "d_devSize d' = length (dk_bytes dk)" "\<And>a. rr = Inr a \<Longrightarrow> 0 < d_alignment d'"
    using rawAlignedRead_good [OF assms(1,2) q] by metis
  have d1: "d1 = d'"
    using assms(4) raw(1) by (auto simp: AlignedWrite_def Let_def split: sum.splits if_splits prod.splits)
  then show "d_devSize d1 = length (dk_bytes dk)"
    by (simp add: raw)
  show "r = Returns None \<Longrightarrow> 0 < d_alignment d1"
    using assms(4) raw(1,3) d1 by (auto simp: AlignedWrite_def split: sum.splits)
  consider "dk1 = dk" | pos bs n where "file_WriteAt dk pos bs = (n, dk1)"
    using assms(4) raw(1) by (auto simp: AlignedWrite_def Let_def split: sum.splits if_splits prod.splits)
  then show "length (dk_bytes dk1) = length (dk_bytes dk)" "disk_ok dk1"
    using assms(1) file_WriteAt_keeps by (cases, auto)+
qed

end
