(* ===== verification/RaidMeta.thy ===== *)
theory RaidMeta
  imports RaidDevice UpdSort
begin

text \<open>
  RAID metadata (\<open>pkg/erase/raid/ddf.go\<close>, \<open>imsm.go\<close>, \<open>array.go\<close> and the rest of \<open>device.go\<close>): which format a
  disk carries, saving the metadata at its end before the disk is erased, writing it back afterwards,
  and grouping the disks into arrays.
\<close>

section \<open>Signatures and offsets\<close>

definition ddfAnchorSize :: nat where "ddfAnchorSize = 512"
definition imsmRecordSize :: nat where "imsmRecordSize = 1024"

definition ddfHeaderSig :: bytes where
  "ddfHeaderSig = [0xde, 0x11, 0xde, 0x11]"

definition imsmSig :: bytes where
  "imsmSig = map (\<lambda>c. word_of_nat (of_char c)) ''Intel Raid ISM Cfg Sig. ''"

definition hasSig :: "bytes \<Rightarrow> bytes \<Rightarrow> bool" where
  "hasSig buf sig = (if length buf < length sig then False else take (length sig) buf = sig)"

definition be_nat :: "bytes \<Rightarrow> nat" where
  "be_nat bs = foldl (\<lambda>v b. v * 256 + unat b) 0 bs"

text \<open>\<open>findOffsets\<close> of an anchor, which both callers know to have 512 bytes.\<close>

definition findOffsets :: "bytes \<Rightarrow> nat \<times> nat" where
  "findOffsets anchor = (be_nat (take 8 (drop 96 anchor)), be_nat (take 8 (drop 104 anchor)))"

fun endiannessSwap_loop :: "bytes \<Rightarrow> nat \<Rightarrow> bytes \<Rightarrow> bytes" where
  "endiannessSwap_loop buf 0 rb = rb"
| "endiannessSwap_loop buf (Suc n) rb =
     endiannessSwap_loop buf n (let i = length buf - Suc n in rb[i := buf ! (length buf - i - 1)])"

definition endiannessSwap :: "bytes \<Rightarrow> bytes" where
  "endiannessSwap buf = endiannessSwap_loop buf (length buf) (replicate (length buf) 0)"

text \<open>
  \<open>lba2byte\<close>: the sector size is asked for once, and only then checked to be a multiple of 512.  The
  product is that of \<open>int64\<close> values.
\<close>

definition lba2byte :: "disk \<Rightarrow> nat \<Rightarrow> Device \<Rightarrow> (raid_error + int) \<times> Device" where
  "lba2byte dk offs d =
     (if d_sectorSize d = 0
      then (case dk_sector dk of
              None \<Rightarrow> (Inl ESectorIoctl, d)
            | Some s \<Rightarrow>
                (if s mod 512 \<noteq> 0 then Inl EBLKSSZ else Inr (s64 (int s * int offs)), d\<lparr>d_sectorSize := s\<rparr>))
      else (Inr (s64 (int (d_sectorSize d) * int offs)), d))"

section \<open>Detection\<close>

definition detectIMSM :: "bytes \<Rightarrow> bool outcome" where
  "detectIMSM buf =
     (if length buf < imsmRecordSize then Panics
      else Returns (take (length imsmSig) (drop (length buf - imsmRecordSize) buf) = imsmSig))"

text \<open>A DDF header of the anchor: its position must lie before the anchor and hold the signature.\<close>

definition header_at :: "disk \<Rightarrow> nat \<Rightarrow> int \<Rightarrow> Device \<Rightarrow> bool outcome \<times> Device" where
  "header_at dk lba anchorStart d =
     (case lba2byte dk lba d of
        (Inl e, d1) \<Rightarrow> (Returns False, d1)
      | (Inr pos, d1) \<Rightarrow>
          if pos \<ge> anchorStart then (Returns False, d1)
          else (case AlignedRead dk pos (int ddfAnchorSize) d1 of
                  (Panics, d2) \<Rightarrow> (Panics, d2)
                | (Returns (Inl e), d2) \<Rightarrow> (Returns False, d2)
                | (Returns (Inr buf), d2) \<Rightarrow>
                    (Returns (length buf = ddfAnchorSize \<and> hasSig buf ddfHeaderSig), d2)))"

definition detectDDF :: "disk \<Rightarrow> bytes \<Rightarrow> Device \<Rightarrow> bool outcome \<times> Device" where
  "detectDDF dk buf d =
     (if length buf < ddfAnchorSize then (Panics, d)
      else
        (case readSize dk d of
           (True, d1) \<Rightarrow> (Returns False, d1)
         | (False, d1) \<Rightarrow>
             (let anchorStart = s64 (int (d_devSize d1) - int ddfAnchorSize);
                  anchor = drop (length buf - ddfAnchorSize) buf
              in if \<not> hasSig anchor ddfHeaderSig then (Returns False, d1)
                 else
                   (case findOffsets anchor of
                      (priLba, secLba) \<Rightarrow>
                        (case header_at dk priLba anchorStart d1 of
                           (Returns True, d2) \<Rightarrow>
                             if secLba = 2 ^ 64 - 1 then (Returns True, d2)
                             else header_at dk secLba anchorStart d2
                         | (r, d2) \<Rightarrow> (r, d2))))))"

definition DetectRaidType :: "disk \<Rightarrow> nat \<Rightarrow> Device \<Rightarrow> raid_error option outcome \<times> Device" where
  "DetectRaidType dk thr d =
     (case Open dk d of
        (Some e, d0) \<Rightarrow> (Returns (Some e), d0)
      | (None, d0) \<Rightarrow>
          (case AlignedRead dk (- 8192) 8192 d0 of
             (Panics, d1) \<Rightarrow> (Panics, d1)
           | (Returns (Inl e), d1) \<Rightarrow> (Returns (Some e), d1)
           | (Returns (Inr buf), d1) \<Rightarrow>
               if length buf \<noteq> 8192 then (Returns (Some EReadSize), d1)
               else
                 (case detectIMSM buf of
                    Panics \<Rightarrow> (Panics, d1)
                  | Returns True \<Rightarrow> (Returns None, d1\<lparr>d_arrayType := RT_msm\<rparr>)
                  | Returns False \<Rightarrow>
                      (case detectDDF dk buf d1 of
                         (Panics, d2) \<Rightarrow> (Panics, d2)
                       | (Returns True, d2) \<Rightarrow> (Returns None, d2\<lparr>d_arrayType := RT_ddf\<rparr>)
                       | (Returns False, d2) \<Rightarrow>
                           (let d3 = snd (ReadSize dk d2)
                            in (Returns None, if thr < d_devSize d3 then d3\<lparr>d_arrayType := RT_unknown\<rparr> else d3))))))"

section \<open>Saving and restoring\<close>

definition saveIMSM :: "disk \<Rightarrow> Device \<Rightarrow> raid_error option outcome \<times> Device" where
  "saveIMSM dk d =
     (case AlignedRead dk (- int imsmRecordSize) (int imsmRecordSize) d of
        (Panics, d1) \<Rightarrow> (Panics, d1)
      | (Returns (Inl e), d1) \<Rightarrow> (Returns (Some e), d1\<lparr>d_arrayMetadata := []\<rparr>)
      | (Returns (Inr bs), d1) \<Rightarrow>
          (Returns (if length bs \<noteq> imsmRecordSize then Some EShortWrite else None), d1\<lparr>d_arrayMetadata := bs\<rparr>))"

definition saveDDF_from :: "disk \<Rightarrow> int \<Rightarrow> Device \<Rightarrow> raid_error option outcome \<times> Device" where
  "saveDDF_from dk recordStart d =
     (if d_devSize d = 0 then (Panics, d)
      else
        (let bufSiz = s64 (int (d_devSize d) - recordStart)
         in case AlignedRead dk recordStart bufSiz d of
              (Panics, d1) \<Rightarrow> (Panics, d1)
            | (Returns (Inl e), d1) \<Rightarrow>
                (Returns (Some (if 0 < bufSiz then EReadSize else e)), d1\<lparr>d_arrayMetadata := []\<rparr>)
            | (Returns (Inr bs), d1) \<Rightarrow>
                (Returns (if int (length bs) < bufSiz then Some EReadSize else None), d1\<lparr>d_arrayMetadata := bs\<rparr>)))"

definition saveDDF :: "disk \<Rightarrow> Device \<Rightarrow> raid_error option outcome \<times> Device" where
  "saveDDF dk d =
     (case AlignedRead dk (- int ddfAnchorSize) (int ddfAnchorSize) d of
        (Panics, d1) \<Rightarrow> (Panics, d1)
      | (Returns (Inl e), d1) \<Rightarrow> (Returns (Some e), d1)
      | (Returns (Inr anchor), d1) \<Rightarrow>
          if length anchor \<noteq> ddfAnchorSize then (Returns (Some EShortWrite), d1)
          else
            (case findOffsets anchor of
               (priLba, secLba) \<Rightarrow>
                 (case lba2byte dk (if priLba < secLba then priLba else secLba) d1 of
                    (Inl e, d2) \<Rightarrow> (Returns (Some e), d2)
                  | (Inr recordStart, d2) \<Rightarrow> saveDDF_from dk recordStart d2)))"

definition Backup :: "disk \<Rightarrow> Device \<Rightarrow> raid_error option outcome \<times> Device" where
  "Backup dk d =
     (case Open dk d of
        (Some e, d1) \<Rightarrow> (Returns (Some e), d1)
      | (None, d1) \<Rightarrow>
          (case d_arrayType d1 of
             RT_msm \<Rightarrow> saveIMSM dk d1
           | RT_ddf \<Rightarrow> saveDDF dk d1
           | RT_unknown \<Rightarrow> (Returns None, d1)
           | RT_unset \<Rightarrow> (Returns (Some EUnknownRaidFormat), d1)))"

text \<open>\<open>restoreIMSM\<close> and \<open>restoreDDF\<close> are the same.\<close>

definition restoreIMSM :: "Device \<Rightarrow> disk \<Rightarrow> raid_error option outcome \<times> Device \<times> disk" where
  "restoreIMSM d dk = AlignedWrite (- int (length (d_arrayMetadata d))) (d_arrayMetadata d) d dk"

definition restoreDDF :: "Device \<Rightarrow> disk \<Rightarrow> raid_error option outcome \<times> Device \<times> disk" where
  "restoreDDF d dk = AlignedWrite (- int (length (d_arrayMetadata d))) (d_arrayMetadata d) d dk"

definition Restore :: "Device \<Rightarrow> disk \<Rightarrow> raid_error option outcome \<times> Device \<times> disk" where
  "Restore d dk =
     (case Open dk d of
        (Some e, d1) \<Rightarrow> (Returns (Some e), d1, dk)
      | (None, d1) \<Rightarrow>
          if d_arrayMetadata d1 = [] then (Returns (Some ENoData), d1, dk)
          else
            (case d_arrayType d1 of
               RT_msm \<Rightarrow> restoreIMSM d1 dk
             | RT_ddf \<Rightarrow> restoreDDF d1 dk
             | RT_unknown \<Rightarrow> (Returns None, d1, dk)
             | RT_unset \<Rightarrow> (Returns (Some EUnknownRaidFormat), d1, dk)))"

section \<open>Correctness of saving and restoring\<close>

lemma AlignedRead_out_of_bounds:
  assumes "disk_ok dk" "dev_ok dk d" "\<bar>pos\<bar> > int (length (dk_bytes dk))"
  shows "fst (AlignedRead dk pos req d) = Returns (Inl EBounds)"
  using ReadSize_ok [OF assms(1,2)] assms(3) by (simp add: AlignedRead_def rawAlignedRead_def Let_def)

lemma Open_same:
  assumes "Open dk d = (e, d1)"
  shows "same_meta d d1" "dev_ok dk d1 = dev_ok dk d" "d_devSize d1 = d_devSize d"
  using assms by (auto simp: Open_def same_meta_def dev_ok_def split: if_splits)

lemma lba2byte_same:
  assumes "lba2byte dk offs d = (r, d1)"
  shows "d_arrayType d1 = d_arrayType d" "dev_ok dk d1 = dev_ok dk d" "d_devSize d1 = d_devSize d"
    and "r = Inr i \<Longrightarrow> i = s64 (int (if d_sectorSize d = 0 then the (dk_sector dk) else d_sectorSize d) * int offs)"
  using assms by (auto simp: lba2byte_def dev_ok_def split: if_splits option.splits)

text \<open>What the metadata of a disk is: the last 1024 bytes, or everything from the first DDF header on.\<close>

definition record_start :: "disk \<Rightarrow> Device \<Rightarrow> int" where
  "record_start dk d =
     (if d_arrayType d = RT_msm then int (length (dk_bytes dk)) - int imsmRecordSize
      else
        (case findOffsets (drop (length (dk_bytes dk) - ddfAnchorSize) (dk_bytes dk)) of
           (priLba, secLba) \<Rightarrow>
             s64 (int (if d_sectorSize d = 0 then the (dk_sector dk) else d_sectorSize d) * int (min priLba secLba))))"

definition saved_tail :: "disk \<Rightarrow> int \<Rightarrow> Device \<Rightarrow> bool" where
  "saved_tail dk start d \<longleftrightarrow> 0 \<le> start \<and> nat start \<le> length (dk_bytes dk) \<and> d_arrayMetadata d = drop (nat start) (dk_bytes dk)"

lemma saveIMSM_saves:
  assumes "disk_ok dk" "dev_ok dk d" "saveIMSM dk d = (Returns None, d1)"
  shows "dev_ok dk d1 \<and> d_arrayType d1 = d_arrayType d
    \<and> saved_tail dk (int (length (dk_bytes dk)) - int imsmRecordSize) d1"
proof -
  have q: "0 \<le> int imsmRecordSize" "int imsmRecordSize \<le> 2 ^ 47"
    by (simp_all add: imsmRecordSize_def)
  obtain r d2 where r: "AlignedRead dk (- int imsmRecordSize) (int imsmRecordSize) d = (Returns r, d2)" "dev_ok dk d2"
    "same_meta d d2"
    "\<And>bs. r = Inr bs \<Longrightarrow>
       bs = take (nat (int imsmRecordSize)) (drop (nat (abs_pos dk (- int imsmRecordSize))) (dk_bytes dk))
       \<and> \<bar>- int imsmRecordSize\<bar> \<le> int (length (dk_bytes dk)) \<and> 0 < d_alignment d2"
    using AlignedRead_data [OF assms(1,2) q] by metis
  then obtain bs where bs: "r = Inr bs" "d1 = d2\<lparr>d_arrayMetadata := bs\<rparr>"
    using assms(3) by (auto simp: saveIMSM_def split: sum.splits if_splits)
  then have "bs = take imsmRecordSize (drop (length (dk_bytes dk) - imsmRecordSize) (dk_bytes dk))"
    "imsmRecordSize \<le> length (dk_bytes dk)"
    using r(4) [OF bs(1)] by (auto simp: abs_pos_def imsmRecordSize_def nat_diff_distrib)
  then show ?thesis
    using r(2,3) bs(2) by (auto simp: saved_tail_def dev_ok_def same_meta_def nat_diff_distrib)
qed

lemma saveDDF_from_saves:
  assumes "disk_ok dk" "dev_ok dk d" "length (dk_bytes dk) \<le> 2 ^ 46" "saveDDF_from dk start d = (Returns None, d1)"
  shows "dev_ok dk d1 \<and> d_arrayType d1 = d_arrayType d \<and> saved_tail dk start d1"
proof -
  let ?L = "int (length (dk_bytes dk))"
  have L: "int (d_devSize d) = ?L" "0 < ?L"
    using assms(2,4) by (auto simp: saveDDF_from_def dev_ok_def split: if_splits)
  have rd: "(case AlignedRead dk start (s64 (?L - start)) d of
      (Panics, d1) \<Rightarrow> (Panics, d1)
    | (Returns (Inl e), d1) \<Rightarrow> (Returns (Some (if 0 < s64 (?L - start) then EReadSize else e)), d1\<lparr>d_arrayMetadata := []\<rparr>)
    | (Returns (Inr bs), d1) \<Rightarrow>
        (Returns (if int (length bs) < s64 (?L - start) then Some EReadSize else None), d1\<lparr>d_arrayMetadata := bs\<rparr>))
    = (Returns None, d1)"
    using assms(4) L by (auto simp: saveDDF_from_def Let_def split: if_splits)
  have bd: "\<bar>start\<bar> \<le> ?L"
  proof (rule ccontr)
    assume "\<not> \<bar>start\<bar> \<le> ?L"
    then have "fst (AlignedRead dk start (s64 (?L - start)) d) = Returns (Inl EBounds)"
      by (intro AlignedRead_out_of_bounds [OF assms(1,2)]) simp
    then show False
      using rd by (auto split: prod.splits)
  qed
  have req: "s64 (?L - start) = ?L - start" "0 \<le> ?L - start" "?L - start \<le> 2 ^ 47"
    using bd assms(3) by (auto intro!: s64_small)
  obtain r d2 where r: "AlignedRead dk start (?L - start) d = (Returns r, d2)" "dev_ok dk d2" "same_meta d d2"
    "\<And>bs. r = Inr bs \<Longrightarrow> bs = take (nat (?L - start)) (drop (nat (abs_pos dk start)) (dk_bytes dk))"
    using AlignedRead_data [OF assms(1,2) req(2,3)] by metis
  then obtain bs where bs: "r = Inr bs" "d1 = d2\<lparr>d_arrayMetadata := bs\<rparr>" "\<not> int (length bs) < ?L - start"
    using rd unfolding req(1) by (auto split: sum.splits if_splits)
  have "0 \<le> start"
  proof (rule ccontr)
    assume "\<not> 0 \<le> start"
    then have "int (length bs) \<le> - start"
      using r(4) [OF bs(1)] bd by (auto simp: abs_pos_def)
    then show False
      using bs(3) L(2) by linarith
  qed
  then have "bs = drop (nat start) (dk_bytes dk)"
    using r(4) [OF bs(1)] by (simp add: abs_pos_def nat_diff_distrib)
  then show ?thesis
    using r(2,3) bs(2) bd \<open>0 \<le> start\<close> by (auto simp: saved_tail_def dev_ok_def same_meta_def)
qed

lemma saveDDF_saves:
  assumes "disk_ok dk" "dev_ok dk d" "length (dk_bytes dk) \<le> 2 ^ 46" "saveDDF dk d = (Returns None, d1)"
    "d_arrayType d = RT_ddf"
  shows "dev_ok dk d1 \<and> d_arrayType d1 = d_arrayType d \<and> saved_tail dk (record_start dk d) d1"
proof -
  have q: "0 \<le> int ddfAnchorSize" "int ddfAnchorSize \<le> 2 ^ 47"
    by (simp_all add: ddfAnchorSize_def)
  obtain r d2 where r: "AlignedRead dk (- int ddfAnchorSize) (int ddfAnchorSize) d = (Returns r, d2)" "dev_ok dk d2"
    "same_meta d d2"
    "\<And>bs. r = Inr bs \<Longrightarrow>
       bs = take (nat (int ddfAnchorSize)) (drop (nat (abs_pos dk (- int ddfAnchorSize))) (dk_bytes dk))
       \<and> \<bar>- int ddfAnchorSize\<bar> \<le> int (length (dk_bytes dk)) \<and> 0 < d_alignment d2"
    using AlignedRead_data [OF assms(1,2) q] by metis
  then obtain bs where bs: "r = Inr bs" "length bs = ddfAnchorSize"
    using assms(4) by (auto simp: saveDDF_def split: sum.splits if_splits)
  then have anchor: "bs = drop (length (dk_bytes dk) - ddfAnchorSize) (dk_bytes dk)"
    using r(4) [OF bs(1)] by (auto simp: abs_pos_def ddfAnchorSize_def nat_diff_distrib)
  obtain pri sec where off: "findOffsets bs = (pri, sec)"
    by (cases "findOffsets bs")
  obtain start d3 where lb: "lba2byte dk (min pri sec) d2 = (Inr start, d3)"
    and sv: "saveDDF_from dk start d3 = (Returns None, d1)"
    using assms(4) r(1) bs off
    by (auto simp: saveDDF_def min_def le_less split: sum.splits if_splits prod.splits)
  note lb' = lba2byte_same [OF lb]
  have "dev_ok dk d3"
    using lb'(2) r(2) by simp
  note sv' = saveDDF_from_saves [OF assms(1) this assms(3) sv]
  have "start = record_start dk d"
    using lb'(4) [OF refl] off r(3) assms(5) by (simp add: record_start_def same_meta_def flip: anchor)
  then show ?thesis
    using sv' lb'(1) r(3) by (simp add: same_meta_def)
qed

lemma Backup_saves:
  assumes "disk_ok dk" "dev_ok dk d" "length (dk_bytes dk) \<le> 2 ^ 46" "Backup dk d = (Returns None, d1)"
    "d_arrayType d \<in> {RT_msm, RT_ddf}"
  shows "dev_ok dk d1 \<and> d_arrayType d1 = d_arrayType d \<and> saved_tail dk (record_start dk d) d1"
proof -
  obtain e d0 where o: "Open dk d = (e, d0)"
    by (cases "Open dk d")
  note o' = Open_same [OF o]
  have t: "d_arrayType d0 = d_arrayType d" "dev_ok dk d0" "record_start dk d0 = record_start dk d" "e = None"
    using o' assms(2,4) o by (auto simp: same_meta_def record_start_def Backup_def split: option.splits)
  consider "d_arrayType d = RT_msm" "saveIMSM dk d0 = (Returns None, d1)"
    | "d_arrayType d = RT_ddf" "saveDDF dk d0 = (Returns None, d1)"
    using assms(4,5) t o by (auto simp: Backup_def)
  then show ?thesis
  proof cases
    case 1
    then show ?thesis
      using saveIMSM_saves [OF assms(1) t(2) 1(2)] t(1) by (simp add: record_start_def)
  next
    case 2
    then show ?thesis
      using saveDDF_saves [OF assms(1) t(2) assms(3) 2(2)] t by simp
  qed
qed

lemma Restore_writes:
  assumes "disk_ok dk" "dev_ok dk d" "length (d_arrayMetadata d) \<le> 2 ^ 47" "Restore d dk = (Returns None, d1, dk1)"
    "d_arrayType d \<in> {RT_msm, RT_ddf}"
  shows "dk_bytes dk1 = take (length (dk_bytes dk) - length (d_arrayMetadata d)) (dk_bytes dk) @ d_arrayMetadata d"
proof -
  obtain e d0 where o: "Open dk d = (e, d0)"
    by (cases "Open dk d")
  let ?md = "d_arrayMetadata d" and ?L = "length (dk_bytes dk)"
  note o' = Open_same [OF o]
  have t: "d_arrayType d0 = d_arrayType d" "dev_ok dk d0" "d_arrayMetadata d0 = ?md" "e = None" "?md \<noteq> []"
    using o' assms(2,4) o by (auto simp: same_meta_def Restore_def split: option.splits if_splits)
  have w: "AlignedWrite (- int (length ?md)) ?md d0 dk = (Returns None, d1, dk1)"
    using assms(4,5) t o by (auto simp: Restore_def restoreIMSM_def restoreDDF_def)
  have res: "dk1 = dk\<lparr>dk_bytes := patch (nat (abs_pos dk (- int (length ?md)))) ?md (dk_bytes dk)\<rparr>"
    "nat (abs_pos dk (- int (length ?md))) + length ?md \<le> ?L"
    using AlignedWrite_data(4) [OF assms(1) t(2) assms(3) w refl] by auto
  have "nat (abs_pos dk (- int (length ?md))) = ?L - length ?md"
    using t(5) by (auto simp: abs_pos_def)
  then show ?thesis
    using res by (simp add: patch_def)
qed

lemma dev_ok_same_length: "length (dk_bytes dk') = length (dk_bytes dk) \<Longrightarrow> dev_ok dk' d = dev_ok dk d"
  by (simp add: dev_ok_def)

text \<open>
  C40: whatever erasing did to a disk in between, after backing up and restoring its metadata without
  an error, everything from the start of the metadata record on is what it was before, and everything
  before it is what erasing left - for an Intel disk the last 1024 bytes, for a DDF disk the part from
  the first header on.
\<close>

theorem Backup_Restore_roundtrip:
  assumes "disk_ok dk" "disk_ok dk'" "length (dk_bytes dk') = length (dk_bytes dk)" "length (dk_bytes dk) \<le> 2 ^ 46"
    "dev_ok dk d" "d_arrayType d \<in> {RT_msm, RT_ddf}"
    "Backup dk d = (Returns None, d1)" "Restore d1 dk' = (Returns None, d2, dk2)"
  shows "dk_bytes dk2 =
    take (nat (record_start dk d)) (dk_bytes dk') @ drop (nat (record_start dk d)) (dk_bytes dk)"
proof -
  note b = Backup_saves [OF assms(1,5,4,7,6)]
  have tail: "nat (record_start dk d) \<le> length (dk_bytes dk)"
    "d_arrayMetadata d1 = drop (nat (record_start dk d)) (dk_bytes dk)"
    using b by (auto simp: saved_tail_def)
  have "dev_ok dk' d1" "d_arrayType d1 \<in> {RT_msm, RT_ddf}" "length (d_arrayMetadata d1) \<le> 2 ^ 47"
    using b assms(4,6) tail by (simp_all add: dev_ok_same_length [OF assms(3)])
  from Restore_writes [OF assms(2) this(1,3) assms(8) this(2)] show ?thesis
    using tail assms(3) by simp
qed

definition plain_disk :: "bytes \<Rightarrow> disk" where
  "plain_disk bs = \<lparr>dk_opens = True, dk_bytes = bs, dk_size = Some (length bs), dk_sector = Some 512,
     dk_read = (\<lambda>pos n. Some n), dk_write = (\<lambda>pos n. n)\<rparr>"

lemma disk_ok_plain [simp]: "disk_ok (plain_disk bs)"
  by (simp add: disk_ok_def plain_disk_def)

lemmas raid_run = Open_def ReadSize_def readSize_def AlignedRead_def AlignedWrite_def rawAlignedRead_def
  aligned_attempt_def aligned_loop.simps align_def go_rem_def file_Read_def file_Seek_def file_WriteAt_def
  plain_disk_def maxAlign_def maxAlloc_def s64_small

definition msm_disk :: disk where
  "msm_disk = plain_disk (replicate 1024 1 @ replicate 1024 7)"

definition msm_dev :: Device where
  "msm_dev = (NewDevice ''/dev/sda'')\<lparr>d_arrayType := RT_msm\<rparr>"

definition erased_disk :: disk where
  "erased_disk = plain_disk (replicate 2048 0)"

lemma msm_Backup: "Backup msm_disk msm_dev = (Returns None,
    msm_dev\<lparr>d_fd := True, d_devSize := 2048, d_alignment := 512, d_arrayMetadata := replicate 1024 7\<rparr>)"
  by (simp add: Backup_def saveIMSM_def msm_disk_def msm_dev_def NewDevice_def imsmRecordSize_def raid_run)

lemma msm_Restore: "Restore
    (msm_dev\<lparr>d_fd := True, d_devSize := 2048, d_alignment := 512, d_arrayMetadata := replicate 1024 7\<rparr>) erased_disk
  = (Returns None,
     msm_dev\<lparr>d_fd := True, d_devSize := 2048, d_alignment := 512, d_arrayMetadata := replicate 1024 7\<rparr>,
     plain_disk (replicate 1024 0 @ replicate 1024 7))"
  by (simp add: Restore_def restoreIMSM_def erased_disk_def msm_dev_def NewDevice_def patch_def raid_run)

theorem Backup_Restore_roundtrip_witness:
  "dk_bytes (plain_disk (replicate 1024 0 @ replicate 1024 7)) =
    take (nat (record_start msm_disk msm_dev)) (dk_bytes erased_disk) @
    drop (nat (record_start msm_disk msm_dev)) (dk_bytes msm_disk)"
  by (rule Backup_Restore_roundtrip [OF _ _ _ _ _ _ msm_Backup msm_Restore])
    (simp_all add: msm_disk_def erased_disk_def msm_dev_def NewDevice_def dev_ok_def, simp_all add: plain_disk_def)

end
