(* ===== verification/RaidArray.thy ===== *)
theory RaidArray
  imports RaidMeta
begin

text \<open>
  Arrays of disks (\<open>pkg/erase/raid/array.go\<close>, \<open>sizeMatch\<close> of \<open>device.go\<close>): disks of the same metadata
  type and about the same size are taken as one array, whose disks are saved and restored together.
  The pointers to devices and arrays are positions in the list of devices; \<open>d.array != nil\<close> is a flag of
  the device.
\<close>

section \<open>Comparing sizes\<close>

text \<open>
  The comparison is one of \<open>float64\<close> values: sizes are rounded to 53 significant bits, and so is the
  product with \<open>1.0 + sizeTol\<close>, which is \<open>tol / 2 ^ 52\<close> for a 53-bit \<open>tol\<close>.
\<close>

fun bitlen :: "nat \<Rightarrow> nat" where
  "bitlen n = (if n = 0 then 0 else Suc (bitlen (n div 2)))"

declare bitlen.simps [simp del]

definition round53 :: "nat \<Rightarrow> nat" where
  "round53 n = (let e = 2 ^ (bitlen n - 53) in round_half_even n e * e)"

definition within_tol :: "nat \<Rightarrow> nat \<Rightarrow> nat \<Rightarrow> bool" where
  "within_tol tol x y \<longleftrightarrow> round53 x * 2 ^ 52 \<le> round53 (round53 y * tol)"

definition sizeTol :: nat where "sizeTol = 4728779608739021"

definition sizeMatch :: "nat \<Rightarrow> disk \<Rightarrow> disk \<Rightarrow> Device \<Rightarrow> Device \<Rightarrow> bool \<times> Device \<times> Device" where
  "sizeMatch tol dka dkb a b =
     (case (if d_devSize a = 0 then readSize dka a else (False, a)) of
        (ea, a1) \<Rightarrow>
          (case (if d_devSize b = 0 \<and> \<not> ea then readSize dkb b else (ea, b)) of
             (eb, b1) \<Rightarrow>
               if eb then (False, a1, b1)
               else if d_devSize b1 < d_devSize a1
               then (within_tol tol (d_devSize a1) (d_devSize b1), a1, b1)
               else (within_tol tol (d_devSize b1) (d_devSize a1), a1, b1)))"

section \<open>Arrays\<close>

type_synonym devices = "(disk \<times> Device) list"

record array =
  ar_type :: raidType
  ar_devices :: "nat list"

abbreviation dev_at :: "devices \<Rightarrow> nat \<Rightarrow> Device" where
  "dev_at ds i \<equiv> snd (ds ! i)"

definition set_dev :: "nat \<Rightarrow> Device \<Rightarrow> devices \<Rightarrow> devices" where
  "set_dev i d ds = ds[i := (fst (ds ! i), d)]"

definition NewArray :: "nat \<Rightarrow> devices \<Rightarrow> array \<times> devices" where
  "NewArray i ds =
     (\<lparr>ar_type = d_arrayType (dev_at ds i), ar_devices = [i]\<rparr>, set_dev i ((dev_at ds i)\<lparr>d_inArray := True\<rparr>) ds)"

definition Add :: "nat \<Rightarrow> array \<Rightarrow> devices \<Rightarrow> raid_error option \<times> array \<times> devices" where
  "Add i a ds =
     (if d_arrayType (dev_at ds i) \<noteq> ar_type a then (Some ETypeMismatch, a, ds)
      else (None, a\<lparr>ar_devices := ar_devices a @ [i]\<rparr>, set_dev i ((dev_at ds i)\<lparr>d_inArray := True\<rparr>) ds))"

fun Add_matching :: "nat \<Rightarrow> nat \<Rightarrow> nat list \<Rightarrow> array \<Rightarrow> devices \<Rightarrow> array \<times> devices" where
  "Add_matching tol i [] a ds = (a, ds)"
| "Add_matching tol i (j # js) a ds =
     (if d_inArray (dev_at ds j) then Add_matching tol i js a ds
      else if d_arrayType (dev_at ds j) = ar_type a
      then
        (case sizeMatch tol (fst (ds ! i)) (fst (ds ! j)) (dev_at ds i) (dev_at ds j) of
           (m, d, e) \<Rightarrow>
             (let ds1 = set_dev j e (set_dev i d ds)
              in if m then (case Add j a ds1 of (err, a1, ds2) \<Rightarrow> Add_matching tol i js a1 ds2)
                 else Add_matching tol i js a ds1))
      else Add_matching tol i js a ds)"

fun FindArrays_loop :: "nat \<Rightarrow> nat list \<Rightarrow> array list \<Rightarrow> devices \<Rightarrow> array list \<times> devices" where
  "FindArrays_loop tol [] arrs ds = (arrs, ds)"
| "FindArrays_loop tol (i # is) arrs ds =
     (if d_inArray (dev_at ds i) \<or> d_arrayType (dev_at ds i) = RT_unset then FindArrays_loop tol is arrs ds
      else
        (case NewArray i ds of
           (a, ds1) \<Rightarrow>
             (case Add_matching tol i [i..<length ds] a ds1 of
                (a1, ds2) \<Rightarrow> FindArrays_loop tol is (arrs @ [a1]) ds2)))"

definition FindArrays :: "nat \<Rightarrow> devices \<Rightarrow> array list \<times> devices" where
  "FindArrays tol ds = FindArrays_loop tol [0..<length ds] [] ds"

text \<open>\<open>Array.Backup\<close> stops at the first error, \<open>Array.Restore\<close> goes on and reports the last one.\<close>

fun array_Backup :: "nat list \<Rightarrow> devices \<Rightarrow> raid_error option outcome \<times> devices" where
  "array_Backup [] ds = (Returns None, ds)"
| "array_Backup (i # is) ds =
     (case Backup (fst (ds ! i)) (dev_at ds i) of
        (Panics, d) \<Rightarrow> (Panics, set_dev i d ds)
      | (Returns (Some e), d) \<Rightarrow> (Returns (Some e), set_dev i d ds)
      | (Returns None, d) \<Rightarrow> array_Backup is (set_dev i d ds))"

fun array_Restore :: "nat list \<Rightarrow> raid_error option \<Rightarrow> devices \<Rightarrow> raid_error option outcome \<times> devices" where
  "array_Restore [] err ds = (Returns err, ds)"
| "array_Restore (i # is) err ds =
     (case Restore (dev_at ds i) (fst (ds ! i)) of
        (Panics, d, dk) \<Rightarrow> (Panics, ds[i := (dk, d)])
      | (Returns e, d, dk) \<Rightarrow> array_Restore is (if e = None then err else e) (ds[i := (dk, d)]))"

definition Array_Backup :: "array \<Rightarrow> devices \<Rightarrow> raid_error option outcome \<times> devices" where
  "Array_Backup a ds = array_Backup (ar_devices a) ds"

definition Array_Restore :: "array \<Rightarrow> devices \<Rightarrow> raid_error option outcome \<times> devices" where
  "Array_Restore a ds = array_Restore (ar_devices a) None ds"

definition Array_Type :: "array \<Rightarrow> string" where
  "Array_Type a = raidType_String (ar_type a)"

definition Array_Len :: "array \<Rightarrow> nat" where
  "Array_Len a = length (ar_devices a)"

section \<open>Finding the disks\<close>

text \<open>
  \<open>FindDevices\<close> goes through the entries of /sys/block, each with its disk; that one of them is the
  recovery medium is the answer of \<open>CheckRecoveryDev\<close>.  The error it returns when no device was found is
  that of the last disk tried.
\<close>

definition oneG :: nat where "oneG = 1024 * 1024 * 1024"

definition skipped_prefixes :: "string list" where
  "skipped_prefixes = [''loop'', ''ram'', ''zram'', ''nbd'']"

fun FindDevices_loop ::
    "nat \<Rightarrow> (string \<Rightarrow> bool) \<Rightarrow> (string \<times> disk) list \<Rightarrow> devices \<Rightarrow> raid_error option
     \<Rightarrow> (devices \<times> raid_error option) outcome" where
  "FindDevices_loop thr is_recovery [] devs err = Returns (devs, if devs \<noteq> [] then None else err)"
| "FindDevices_loop thr is_recovery ((name, dk) # es) devs err =
     (if list_ex (\<lambda>pfx. has_prefix name pfx) skipped_prefixes
      then FindDevices_loop thr is_recovery es devs err
      else
        (let entnm = ''/dev/'' @ name
         in if is_recovery entnm then FindDevices_loop thr is_recovery es devs err
            else
              (case DetectRaidType dk thr (NewDevice entnm) of
                 (Panics, d) \<Rightarrow> Panics
               | (Returns None, d) \<Rightarrow> FindDevices_loop thr is_recovery es (devs @ [(dk, d)]) None
               | (Returns (Some e), d) \<Rightarrow> FindDevices_loop thr is_recovery es devs (Some e))))"

definition FindDevices ::
    "bool \<Rightarrow> (string \<Rightarrow> bool) \<Rightarrow> (string \<times> disk) list option \<Rightarrow> (devices \<times> raid_error option) outcome" where
  "FindDevices virt_prototype is_recovery dir =
     (case dir of
        None \<Rightarrow> Returns ([], Some ERead)
      | Some es \<Rightarrow> FindDevices_loop (if virt_prototype then 0 else 200 * oneG) is_recovery es [] None)"

text \<open>The devices found are in no array, so they can be grouped.\<close>

lemma d_inArray_raw: "d_inArray (snd (rawAlignedRead dk pos n d)) = d_inArray d"
  by (auto simp: rawAlignedRead_def ReadSize_def readSize_def Let_def split: option.split prod.split)

lemma d_inArray_AlignedRead [simp]: "AlignedRead dk pos n d = (r, d1) \<Longrightarrow> d_inArray d1 = d_inArray d"
  using d_inArray_raw [of dk pos n d]
  by (auto simp: AlignedRead_def split: prod.splits outcome.splits sum.splits if_splits)

lemma d_inArray_header_at [simp]: "header_at dk lba a d = (r, d1) \<Longrightarrow> d_inArray d1 = d_inArray d"
  by (auto simp: header_at_def lba2byte_def split: prod.splits outcome.splits sum.splits if_splits option.splits)

lemma d_inArray_detectDDF [simp]: "detectDDF dk buf d = (r, d1) \<Longrightarrow> d_inArray d1 = d_inArray d"
  by (auto simp: detectDDF_def readSize_def Let_def split: prod.splits outcome.splits bool.splits if_splits option.splits)

lemma d_inArray_DetectRaidType [simp]: "DetectRaidType dk thr d = (r, d1) \<Longrightarrow> d_inArray d1 = d_inArray d"
  by (auto simp: DetectRaidType_def Open_def ReadSize_def readSize_def Let_def
      split: prod.splits outcome.splits bool.splits if_splits option.splits sum.splits)

definition unarrayed :: "devices \<Rightarrow> bool" where
  "unarrayed ds \<longleftrightarrow> list_all (\<lambda>d. \<not> d_inArray d) (map snd ds)"

lemma unarrayed_simps [simp]:
  "unarrayed []" "unarrayed (xs @ ys) = (unarrayed xs \<and> unarrayed ys)"
  "unarrayed ((dk, d) # xs) = (\<not> d_inArray d \<and> unarrayed xs)"
  by (simp_all add: unarrayed_def)

lemma unarrayed_nth: "unarrayed ds \<Longrightarrow> i < length ds \<Longrightarrow> \<not> d_inArray (snd (ds ! i))"
  by (simp add: unarrayed_def list_all_length)

lemma FindDevices_loop_free:
  "FindDevices_loop thr rec es devs err = Returns (devs1, err1) \<Longrightarrow> unarrayed devs \<Longrightarrow> unarrayed devs1"
proof (induction es arbitrary: devs err)
  case (Cons e es)
  obtain name dk where e: "e = (name, dk)"
    by (cases e)
  define entnm where "entnm = ''/dev/'' @ name"
  obtain r d where d: "DetectRaidType dk thr (NewDevice entnm) = (r, d)"
    by (cases "DetectRaidType dk thr (NewDevice entnm)")
  have "\<not> d_inArray d"
    using d_inArray_DetectRaidType [OF d] by (simp add: NewDevice_def)
  moreover have "FindDevices_loop thr rec ((name, dk) # es) devs err =
      (if list_ex (\<lambda>pfx. has_prefix name pfx) skipped_prefixes \<or> rec entnm then FindDevices_loop thr rec es devs err
       else case r of Panics \<Rightarrow> Panics
         | Returns None \<Rightarrow> FindDevices_loop thr rec es (devs @ [(dk, d)]) None
         | Returns (Some e) \<Rightarrow> FindDevices_loop thr rec es devs (Some e))"
    using d unfolding FindDevices_loop.simps entnm_def Let_def by (auto split: outcome.split option.split)
  ultimately show ?case
    using Cons.prems Cons.IH unfolding e
    by (auto split: if_splits outcome.splits option.splits)
qed (auto split: if_splits)

lemma FindDevices_free: "FindDevices virt rec dir = Returns (devs, err) \<Longrightarrow> unarrayed devs"
  by (auto simp: FindDevices_def split: option.splits intro: FindDevices_loop_free)

section \<open>Every disk is in one array of its type\<close>

definition members :: "array list \<Rightarrow> nat list" where
  "members arrs = concat (map ar_devices arrs)"

text \<open>\<open>arrs\<close> and the device flags agree, on devices whose types are those of the given ones.\<close>

definition arrays_ok :: "devices \<Rightarrow> array list \<Rightarrow> devices \<Rightarrow> bool" where
  "arrays_ok ds0 arrs ds \<longleftrightarrow> length ds = length ds0 \<and> distinct (members arrs)
     \<and> (\<forall>i<length ds0. d_arrayType (dev_at ds i) = d_arrayType (dev_at ds0 i))
     \<and> (\<forall>i<length ds0. d_inArray (dev_at ds i) \<longleftrightarrow> i \<in> set (members arrs))
     \<and> (\<forall>a\<in>set arrs. ar_type a \<noteq> RT_unset
          \<and> (\<forall>i\<in>set (ar_devices a). i < length ds0 \<and> d_arrayType (dev_at ds0 i) = ar_type a))"

lemma length_set_dev [simp]: "length (set_dev i d ds) = length ds"
  by (simp add: set_dev_def)

lemma dev_at_set_dev: "i < length ds \<Longrightarrow> dev_at (set_dev j d ds) i = (if i = j then d else dev_at ds i)"
  by (auto simp: set_dev_def nth_list_update)

lemma sizeMatch_same:
  assumes "sizeMatch tol dka dkb a b = (m, a1, b1)"
  shows "d_arrayType a1 = d_arrayType a" "d_inArray a1 = d_inArray a"
    "d_arrayType b1 = d_arrayType b" "d_inArray b1 = d_inArray b"
  using assms by (auto simp: sizeMatch_def readSize_def split: if_splits option.splits)

lemma arrays_ok_sizes:
  assumes "arrays_ok ds0 arrs ds" "i < length ds0" "j < length ds0"
    "d_arrayType d = d_arrayType (dev_at ds i)" "d_inArray d = d_inArray (dev_at ds i)"
    "d_arrayType e = d_arrayType (dev_at ds j)" "d_inArray e = d_inArray (dev_at ds j)"
  shows "arrays_ok ds0 arrs (set_dev j e (set_dev i d ds))"
  using assms unfolding arrays_ok_def by (auto simp: dev_at_set_dev)

lemma arrays_ok_Add:
  assumes "arrays_ok ds0 (arrs @ [a]) ds" "j < length ds0" "\<not> d_inArray (dev_at ds j)"
    "d_arrayType (dev_at ds j) = ar_type a"
  shows "arrays_ok ds0 (arrs @ [a\<lparr>ar_devices := ar_devices a @ [j]\<rparr>])
    (set_dev j ((dev_at ds j)\<lparr>d_inArray := True\<rparr>) ds)"
  using assms unfolding arrays_ok_def by (auto simp: dev_at_set_dev members_def)

lemma arrays_ok_NewArray:
  assumes "arrays_ok ds0 arrs ds" "i < length ds0" "\<not> d_inArray (dev_at ds i)"
    "d_arrayType (dev_at ds i) \<noteq> RT_unset"
  shows "arrays_ok ds0 (arrs @ [fst (NewArray i ds)]) (snd (NewArray i ds))"
  using assms unfolding arrays_ok_def by (auto simp: dev_at_set_dev members_def NewArray_def)

lemma Add_matching_ok:
  "arrays_ok ds0 (arrs @ [a]) ds \<Longrightarrow> i < length ds0 \<Longrightarrow> set js \<subseteq> {..<length ds0} \<Longrightarrow>
   Add_matching tol i js a ds = (a1, ds1) \<Longrightarrow>
   arrays_ok ds0 (arrs @ [a1]) ds1 \<and> set (ar_devices a) \<subseteq> set (ar_devices a1)"
proof (induction js arbitrary: a ds)
  case (Cons j js)
  have len: "length ds = length ds0"
    using Cons.prems(1) by (simp add: arrays_ok_def)
  obtain m d e where sm: "sizeMatch tol (fst (ds ! i)) (fst (ds ! j)) (dev_at ds i) (dev_at ds j) = (m, d, e)"
    by (cases "sizeMatch tol (fst (ds ! i)) (fst (ds ! j)) (dev_at ds i) (dev_at ds j)")
  note sm' = sizeMatch_same [OF sm]
  define ds2 where "ds2 = set_dev j e (set_dev i d ds)"
  consider "d_inArray (dev_at ds j) \<or> d_arrayType (dev_at ds j) \<noteq> ar_type a"
    | "\<not> d_inArray (dev_at ds j)" "d_arrayType (dev_at ds j) = ar_type a" "\<not> m"
    | "\<not> d_inArray (dev_at ds j)" "d_arrayType (dev_at ds j) = ar_type a" "m"
    by blast
  then show ?case
  proof cases
    case 1
    then show ?thesis
      using Cons.IH [OF Cons.prems(1,2)] Cons.prems(3,4) by (auto split: if_splits)
  next
    case 2
    have "arrays_ok ds0 (arrs @ [a]) ds2"
      unfolding ds2_def using Cons.prems(1,2,3) sm' by (intro arrays_ok_sizes) auto
    then show ?thesis
      using Cons.IH [OF _ Cons.prems(2)] Cons.prems(3,4) 2 sm by (simp add: ds2_def [symmetric])
  next
    case 3
    have ok: "arrays_ok ds0 (arrs @ [a]) ds2"
      unfolding ds2_def using Cons.prems(1,2,3) sm' by (intro arrays_ok_sizes) auto
    have j: "j < length ds0" "dev_at ds2 j = e"
      using Cons.prems(3) len by (simp_all add: ds2_def dev_at_set_dev)
    have ok2: "arrays_ok ds0 (arrs @ [a\<lparr>ar_devices := ar_devices a @ [j]\<rparr>]) (set_dev j (e\<lparr>d_inArray := True\<rparr>) ds2)"
      using arrays_ok_Add [OF ok j(1)] 3 sm' j(2) by simp
    have run: "Add_matching tol i js (a\<lparr>ar_devices := ar_devices a @ [j]\<rparr>) (set_dev j (e\<lparr>d_inArray := True\<rparr>) ds2) = (a1, ds1)"
      using Cons.prems(4) 3 sm sm' j by (simp add: Add_def ds2_def [symmetric])
    show ?thesis
      using Cons.IH [OF ok2 Cons.prems(2) _ run] Cons.prems(3) by auto
  qed
qed simp

lemma FindArrays_loop_ok:
  "arrays_ok ds0 arrs ds \<Longrightarrow> set is \<subseteq> {..<length ds0} \<Longrightarrow> FindArrays_loop tol is arrs ds = (arrs1, ds1) \<Longrightarrow>
   arrays_ok ds0 arrs1 ds1 \<and> set (members arrs) \<subseteq> set (members arrs1)
     \<and> (\<forall>i\<in>set is. d_arrayType (dev_at ds0 i) \<noteq> RT_unset \<longrightarrow> i \<in> set (members arrs1))"
proof (induction "is" arbitrary: arrs ds)
  case (Cons i "is")
  have i: "i < length ds0" and "is": "set is \<subseteq> {..<length ds0}"
    using Cons.prems(2) by auto
  have dev: "d_arrayType (dev_at ds i) = d_arrayType (dev_at ds0 i)" "length ds = length ds0"
    "d_inArray (dev_at ds i) \<longleftrightarrow> i \<in> set (members arrs)"
    using Cons.prems(1) i by (auto simp: arrays_ok_def)
  show ?case
  proof (cases "d_inArray (dev_at ds i) \<or> d_arrayType (dev_at ds i) = RT_unset")
    case True
    then show ?thesis
      using Cons.IH [OF Cons.prems(1) "is"] Cons.prems(3) dev by auto
  next
    case False
    obtain a1 ds2 where m: "Add_matching tol i [i..<length ds] (fst (NewArray i ds)) (snd (NewArray i ds)) = (a1, ds2)"
      by (cases "Add_matching tol i [i..<length ds] (fst (NewArray i ds)) (snd (NewArray i ds))")
    have new: "arrays_ok ds0 (arrs @ [fst (NewArray i ds)]) (snd (NewArray i ds))"
      using False by (intro arrays_ok_NewArray [OF Cons.prems(1) i]) simp_all
    have "set [i..<length ds] \<subseteq> {..<length ds0}"
      using dev(2) by auto
    note ok = Add_matching_ok [OF new i this m]
    then have "i \<in> set (members (arrs @ [a1]))"
      by (auto simp: members_def NewArray_def)
    moreover have "FindArrays_loop tol is (arrs @ [a1]) ds2 = (arrs1, ds1)"
      using Cons.prems(3) False m by (simp split: prod.splits)
    ultimately show ?thesis
      using Cons.IH [OF conjunct1 [OF ok] "is"] by (auto simp: members_def)
  qed
qed simp

text \<open>
  C39: grouping disks that are in no array yet puts each disk with a known or unknown metadata format
  into exactly one array, puts no other disk into any, and every disk of an array has the array's type.
\<close>

theorem FindArrays_typed_partition:
  assumes "unarrayed ds" "FindArrays tol ds = (arrs, ds1)"
  shows "distinct (members arrs)
    \<and> set (members arrs) = {i. i < length ds \<and> d_arrayType (dev_at ds i) \<noteq> RT_unset}
    \<and> (\<forall>a\<in>set arrs. \<forall>i\<in>set (ar_devices a). d_arrayType (dev_at ds i) = ar_type a)"
proof -
  have "\<not> d_inArray (dev_at ds i)" if "i < length ds" for i
    using unarrayed_nth [OF assms(1) that] .
  then have init: "arrays_ok ds [] ds"
    by (simp add: arrays_ok_def members_def)
  have ok: "arrays_ok ds arrs ds1"
    "\<forall>i\<in>set [0..<length ds]. d_arrayType (dev_at ds i) \<noteq> RT_unset \<longrightarrow> i \<in> set (members arrs)"
    using FindArrays_loop_ok [OF init _ assms(2) [unfolded FindArrays_def]] by (simp_all add: lessThan_atLeast0)
  have "i < length ds \<and> d_arrayType (dev_at ds i) \<noteq> RT_unset" if "i \<in> set (members arrs)" for i
    using ok(1) that by (auto simp: arrays_ok_def members_def)
  then show ?thesis
    using ok by (auto simp: arrays_ok_def)
qed

text \<open>Two Intel disks of about one size, a larger one, and a DDF disk: three arrays.\<close>

definition some_device :: "raidType \<Rightarrow> nat \<Rightarrow> disk \<times> Device" where
  "some_device t n = (plain_disk [], (NewDevice ''/dev/sdx'')\<lparr>d_arrayType := t, d_devSize := n\<rparr>)"

definition four_devices :: devices where
  "four_devices = [some_device RT_msm 1000, some_device RT_ddf 1000, some_device RT_msm 1049, some_device RT_msm 1051]"

definition grouped_devices :: devices where
  "grouped_devices = map (\<lambda>(dk, d). (dk, d\<lparr>d_inArray := True\<rparr>)) four_devices"

lemma within_tol_values: "within_tol sizeTol 1049 1000" "\<not> within_tol sizeTol 1051 1000"
  by (simp_all add: within_tol_def round53_def sizeTol_def bitlen.simps round_half_even_def)

lemma FindArrays_four: "FindArrays sizeTol four_devices =
   ([\<lparr>ar_type = RT_msm, ar_devices = [0, 2]\<rparr>, \<lparr>ar_type = RT_ddf, ar_devices = [1]\<rparr>,
     \<lparr>ar_type = RT_msm, ar_devices = [3]\<rparr>], grouped_devices)"
  by (simp add: FindArrays_def four_devices_def some_device_def NewDevice_def NewArray_def Add_def set_dev_def
      sizeMatch_def within_tol_values upt_conv_Cons grouped_devices_def)

theorem FindArrays_typed_partition_witness:
  "distinct (members (fst (FindArrays sizeTol four_devices)))
    \<and> set (members (fst (FindArrays sizeTol four_devices)))
      = {i. i < 4 \<and> d_arrayType (dev_at four_devices i) \<noteq> RT_unset}"
proof -
  have *: "unarrayed four_devices" "length four_devices = 4"
    by (simp_all add: four_devices_def some_device_def NewDevice_def)
  show ?thesis
    using FindArrays_typed_partition [OF *(1) FindArrays_four] unfolding FindArrays_four fst_conv *(2) by (elim conjE) (intro conjI)
qed

end
