(* ===== verification/Erase.thy ===== *)
theory Erase
  imports RaidArray Strs
begin

text \<open>
  Data erase (\<open>pkg/erase\<close>): canaries are written all over a disk, the disk is erased by its own command or
  else overwritten, and afterwards none of the canaries may be found.  Also the parts around it: the
  reading of \<open>hdparm\<close> output and the boot file that records a failure.  Running \<open>hdparm\<close> is a parameter,
  which answers with an error or not, the output, and the disk it leaves.
\<close>

section \<open>Outcomes\<close>

text \<open>\<open>unrecoverableFailure\<close> ends the process; the flag is its \<open>write\<close> argument.\<close>

datatype 'a erasing = Completed 'a | UnrecoverableFailure bool | Panicking

section \<open>Canaries\<close>

definition InRange_run :: "disk \<Rightarrow> int \<Rightarrow> int \<Rightarrow> Device \<Rightarrow> bool erasing \<times> Device" where
  "InRange_run dk pos len d =
     (case InRange dk pos len d of
        (Panics, d1) \<Rightarrow> (Panicking, d1)
      | (Returns b, d1) \<Rightarrow> (Completed b, d1))"

text \<open>One canary: written again when the first attempt fails.\<close>

definition write_canary :: "bytes \<Rightarrow> int \<Rightarrow> Device \<Rightarrow> disk \<Rightarrow> unit erasing \<times> Device \<times> disk" where
  "write_canary pattern offs d dk =
     (case AlignedWrite offs pattern d dk of
        (Panics, d1, dk1) \<Rightarrow> (Panicking, d1, dk1)
      | (Returns None, d1, dk1) \<Rightarrow> (Completed (), d1, dk1)
      | (Returns (Some e), d1, dk1) \<Rightarrow>
          (case AlignedWrite offs pattern d1 dk1 of
             (Panics, d2, dk2) \<Rightarrow> (Panicking, d2, dk2)
           | (Returns None, d2, dk2) \<Rightarrow> (Completed (), d2, dk2)
           | (Returns (Some e), d2, dk2) \<Rightarrow> (UnrecoverableFailure True, d2, dk2)))"

partial_function (option) prepare_loop ::
    "bytes \<Rightarrow> int \<Rightarrow> nat \<Rightarrow> Device \<Rightarrow> disk \<Rightarrow> (nat erasing \<times> Device \<times> disk) option" where
  "prepare_loop pattern offs n d dk =
     (case write_canary pattern offs d dk of
        (Panicking, d1, dk1) \<Rightarrow> Some (Panicking, d1, dk1)
      | (UnrecoverableFailure w, d1, dk1) \<Rightarrow> Some (UnrecoverableFailure w, d1, dk1)
      | (Completed u, d1, dk1) \<Rightarrow>
          (case InRange_run dk1 (offs + int oneG) (int (length pattern)) d1 of
             (Panicking, d2) \<Rightarrow> Some (Panicking, d2, dk1)
           | (UnrecoverableFailure w, d2) \<Rightarrow> Some (UnrecoverableFailure w, d2, dk1)
           | (Completed b, d2) \<Rightarrow>
               if b then prepare_loop pattern (offs + int oneG) (Suc n) d2 dk1
               else Some (Completed (Suc n), d2, dk1)))"

partial_function (option) count_loop ::
    "bytes \<Rightarrow> int \<Rightarrow> nat \<Rightarrow> Device \<Rightarrow> disk \<Rightarrow> (nat erasing \<times> Device) option" where
  "count_loop pattern offs n d dk =
     (case AlignedRead dk offs (int (length pattern)) d of
        (Panics, d1) \<Rightarrow> Some (Panicking, d1)
      | (Returns (Inl e), d1) \<Rightarrow> Some (UnrecoverableFailure True, d1)
      | (Returns (Inr buf), d1) \<Rightarrow>
          (let n1 = (if buf = pattern then Suc n else n)
           in case InRange_run dk (offs + int oneG) (int (length pattern)) d1 of
                (Panicking, d2) \<Rightarrow> Some (Panicking, d2)
              | (UnrecoverableFailure w, d2) \<Rightarrow> Some (UnrecoverableFailure w, d2)
              | (Completed b, d2) \<Rightarrow>
                  if b then count_loop pattern (offs + int oneG) n1 d2 dk else Some (Completed n1, d2)))"

declare prepare_loop.simps [code] count_loop.simps [code]

definition countPrepPattern :: "bytes \<Rightarrow> Device \<Rightarrow> disk \<Rightarrow> (nat erasing \<times> Device) option" where
  "countPrepPattern pattern d dk = count_loop pattern 0 0 d dk"

definition prepare :: "bytes \<Rightarrow> Device \<Rightarrow> disk \<Rightarrow> (unit erasing \<times> Device \<times> disk) option" where
  "prepare pattern d dk =
     (case prepare_loop pattern 0 0 d dk of
        None \<Rightarrow> None
      | Some (Panicking, d1, dk1) \<Rightarrow> Some (Panicking, d1, dk1)
      | Some (UnrecoverableFailure w, d1, dk1) \<Rightarrow> Some (UnrecoverableFailure w, d1, dk1)
      | Some (Completed n, d1, dk1) \<Rightarrow>
          (case countPrepPattern pattern d1 dk1 of
             None \<Rightarrow> None
           | Some (Panicking, d2) \<Rightarrow> Some (Panicking, d2, dk1)
           | Some (UnrecoverableFailure w, d2) \<Rightarrow> Some (UnrecoverableFailure w, d2, dk1)
           | Some (Completed m, d2) \<Rightarrow>
               Some (if m \<noteq> n then UnrecoverableFailure True else Completed (), d2, dk1)))"

text \<open>\<open>verify\<close>: an error of \<open>Open\<close> is only logged, and using the missing descriptor then panics.\<close>

definition verify :: "bytes \<Rightarrow> Device \<Rightarrow> disk \<Rightarrow> (unit erasing \<times> Device) option" where
  "verify pattern d dk =
     (case Open dk d of
        (Some e, d1) \<Rightarrow> Some (Panicking, d1)
      | (None, d1) \<Rightarrow>
          (case countPrepPattern pattern d1 dk of
             None \<Rightarrow> None
           | Some (Panicking, d2) \<Rightarrow> Some (Panicking, d2)
           | Some (UnrecoverableFailure w, d2) \<Rightarrow> Some (UnrecoverableFailure w, d2)
           | Some (Completed m, d2) \<Rightarrow>
               Some (if m \<noteq> 0 then UnrecoverableFailure True else Completed (), d2)))"

section \<open>Overwriting\<close>

definition fillPattern :: "bytes \<Rightarrow> nat \<Rightarrow> bytes" where
  "fillPattern buf p =
     (if p = 0 then map (\<lambda>_. 0x55) buf
      else if p = 1 then map (\<lambda>_. 0xAA) buf
      else map (\<lambda>_. 0) buf)"

definition nrOverwritePatterns :: nat where "nrOverwritePatterns = 3"

text \<open>The buffer is written again and again, until a write falls short - which is an error of \<open>io.Copy\<close>.\<close>

partial_function (option) overwrite_pass :: "bytes \<Rightarrow> nat \<Rightarrow> disk \<Rightarrow> disk option" where
  "overwrite_pass buf pos dk =
     (case file_WriteAt dk pos buf of
        (k, dk1) \<Rightarrow> if k < length buf then Some dk1 else overwrite_pass buf (pos + k) dk1)"

declare overwrite_pass.simps [code]

fun overwrite_passes :: "nat list \<Rightarrow> bytes \<Rightarrow> disk \<Rightarrow> disk option" where
  "overwrite_passes [] buf dk = Some dk"
| "overwrite_passes (p # ps) buf dk =
     (let buf1 = fillPattern buf p
      in case overwrite_pass buf1 0 dk of None \<Rightarrow> None | Some dk1 \<Rightarrow> overwrite_passes ps buf1 dk1)"

definition overwrite_size :: nat where "overwrite_size = 4096 * 1024"

definition overwrite :: "Device \<Rightarrow> disk \<Rightarrow> (Device \<times> disk) option" where
  "overwrite d dk =
     (case Open dk d of
        (Some e, d1) \<Rightarrow> Some (d1, dk)
      | (None, d1) \<Rightarrow>
          (case overwrite_passes [0..<nrOverwritePatterns + 1] (replicate overwrite_size 0) dk of
             None \<Rightarrow> None
           | Some dk1 \<Rightarrow> Some (d1, dk1)))"

section \<open>Reading the output of hdparm\<close>

text \<open>\<open>getLine\<close>: from the newline before the first occurrence to the next one behind its start.\<close>

definition getLine :: "string \<Rightarrow> string \<Rightarrow> string" where
  "getLine buf sq =
     (case index_of sq buf of
        None \<Rightarrow> []
      | Some idx \<Rightarrow>
          (let stop = (case index_of [newline] (drop idx buf) of None \<Rightarrow> length buf | Some n \<Rightarrow> idx + n);
               begin0 = (case last_index newline (take idx buf) of None \<Rightarrow> 0 | Some n \<Rightarrow> n)
           in take (stop - begin0) (drop begin0 buf)))"

text \<open>
  \<open>time.ParseDuration\<close> on a string without a decimal point, in nanoseconds; \<open>None\<close> is an error.
\<close>

definition unit_ns :: "string \<Rightarrow> nat option" where
  "unit_ns u =
     (if u = ''ns'' then Some 1
      else if u = ''us'' \<or> u = [CHR 0xC2, CHR 0xB5, CHR ''s''] \<or> u = [CHR 0xCE, CHR 0xBC, CHR ''s''] then Some 1000
      else if u = ''ms'' then Some 1000000
      else if u = ''s'' then Some 1000000000
      else if u = ''m'' then Some (60 * 1000000000)
      else if u = ''h'' then Some (3600 * 1000000000)
      else None)"

definition is_digit :: "char \<Rightarrow> bool" where
  "is_digit c \<longleftrightarrow> (of_char c :: nat) \<ge> 48 \<and> (of_char c :: nat) \<le> 57"

function parse_units :: "string \<Rightarrow> nat \<Rightarrow> nat option" where
  "parse_units s d =
     (if s = [] then Some d
      else
        (let ds = takeWhile is_digit s; r = dropWhile is_digit s;
             u = takeWhile (\<lambda>c. \<not> is_digit c) r; r1 = dropWhile (\<lambda>c. \<not> is_digit c) r
         in if ds = [] \<or> u = [] then None
            else (case unit_ns u of
                    None \<Rightarrow> None
                  | Some n \<Rightarrow>
                      if d + dec_val ds * n < 2 ^ 63 then parse_units r1 (d + dec_val ds * n) else None)))"
  by pat_completeness auto
termination
proof (relation "measure (\<lambda>(s, d). length s)", goal_cases)
  case (2 s d ds r u r1 n)
  have "length (dropWhile (\<lambda>c. \<not> is_digit c) (dropWhile is_digit s)) \<le> length (dropWhile is_digit s)"
    by (rule length_dropWhile_le)
  moreover have "length (dropWhile is_digit s) < length s"
    using 2 by (metis append_self_conv2 length_append length_greater_0_conv less_add_same_cancel2 takeWhile_dropWhile_id)
  ultimately show ?case
    using 2 by simp
qed simp

declare parse_units.simps [simp del]

definition ParseDuration :: "string \<Rightarrow> int option" where
  "ParseDuration s =
     (let neg = (s \<noteq> [] \<and> hd s = CHR ''-'');
          r = (if s \<noteq> [] \<and> (hd s = CHR ''-'' \<or> hd s = CHR ''+'') then tl s else s)
      in if r = ''0'' then Some 0
         else if r = [] then None
         else map_option (\<lambda>n. if neg then - int n else int n) (parse_units r 0))"

definition minutes :: "int \<Rightarrow> int" where "minutes n = n * 60 * 1000000000"

text \<open>\<open>getSEtime\<close>: the third part of the line is looked at even if there is none.\<close>

definition getSEtime :: "string \<Rightarrow> bool \<Rightarrow> int outcome" where
  "getSEtime info enhanced =
     (let t = minutes 200;
          line = getLine info ''SECURITY ERASE UNIT'';
          times = split_on CHR ''.'' line
      in if length times > 3 then Returns t
         else if length times < 3 then Panics
         else if length (times ! 2) > 1 then Returns t
         else
           (let enh0 = contains (times ! 0) ''ENHANCED'';
                enh1 = contains (times ! 1) ''ENHANCED'';
                choice = (if enhanced then (if enh0 then times ! 0 else if enh1 then times ! 1 else '''')
                          else (if \<not> enh0 then times ! 0 else if \<not> enh1 then times ! 1 else ''''));
                choice1 = TrimSpace choice;
                choice2 = (case index_of ''min'' choice1 of
                             Some m \<Rightarrow> if 0 < m then take (m + 1) choice1 else choice1
                           | None \<Rightarrow> choice1)
            in Returns (case ParseDuration choice2 of Some d \<Rightarrow> d | None \<Rightarrow> t)))"

definition truncate_at :: "string \<Rightarrow> char \<Rightarrow> nat \<Rightarrow> string" where
  "truncate_at s r mx = take (min mx (case index_of [r] s of Some i \<Rightarrow> i + 1 | None \<Rightarrow> length s)) s"

definition tmax :: "int \<Rightarrow> int \<Rightarrow> int" where
  "tmax a b = (if a < b then b else a)"

section \<open>Erasing a disk\<close>

text \<open>A command run with its arguments at some time: whether it failed, its output, the disk it leaves.\<close>

type_synonym runner = "nat \<Rightarrow> string list \<Rightarrow> disk \<Rightarrow> bool \<times> string \<times> disk"

fun tryExec :: "runner \<Rightarrow> string list \<Rightarrow> nat \<Rightarrow> nat \<Rightarrow> disk \<Rightarrow> bool \<times> string \<times> nat \<times> disk" where
  "tryExec run args 0 t dk = (False, '''', t, dk)"
| "tryExec run args (Suc n) t dk =
     (case run t args dk of
        (err, out, dk1) \<Rightarrow> if \<not> err \<or> n = 0 then (err, out, Suc t, dk1) else tryExec run args n (Suc t) dk1)"

definition hdpPass :: string where "hdpPass = ''fsadfsfd''"

text \<open>\<open>tryhdp\<close>; the flag of a completed run says that it returned an error.\<close>

definition tryhdp :: "runner \<Rightarrow> string \<Rightarrow> nat \<Rightarrow> disk \<Rightarrow> bool erasing \<times> nat \<times> disk" where
  "tryhdp run dev t dk =
     (case tryExec run [''hdparm'', ''-I'', dev] 10 t dk of
        (err, info, t1, dk1) \<Rightarrow>
          if err then (Completed True, t1, dk1)
          else if \<not> contains (getLine info ''frozen'') ''not'' then (Completed True, t1, dk1)
          else
            (let eraseOpt = getLine info ''enhanced erase'';
                 enhancedErase = (length eraseOpt > 20 \<and> \<not> contains eraseOpt ''not'')
             in case getSEtime info enhancedErase of
                  Panics \<Rightarrow> (Panicking, t1, dk1)
                | Returns est \<Rightarrow>
                    (case tryExec run [''hdparm'', ''--security-set-pass'', hdpPass, dev] 10 t1 dk1 of
                       (err2, out2, t2, dk2) \<Rightarrow>
                         if err2 then (Completed True, t2, dk2)
                         else
                           (case tryExec run [''hdparm'',
                                if enhancedErase then ''--security-erase-enhanced'' else ''--security-erase'',
                                hdpPass, dev] 10 t2 dk2 of
                              (err3, out3, t3, dk3) \<Rightarrow> (Completed err3, t3, dk3)))))"

definition erase_data :: "runner \<Rightarrow> nat \<Rightarrow> Device \<Rightarrow> disk \<Rightarrow> (unit erasing \<times> Device \<times> nat \<times> disk) option" where
  "erase_data run t d dk =
     (case tryhdp run (d_dev d) t dk of
        (Panicking, t1, dk1) \<Rightarrow> Some (Panicking, d, t1, dk1)
      | (UnrecoverableFailure w, t1, dk1) \<Rightarrow> Some (UnrecoverableFailure w, d, t1, dk1)
      | (Completed err, t1, dk1) \<Rightarrow>
          if err
          then (case overwrite d dk1 of None \<Rightarrow> None | Some (d1, dk2) \<Rightarrow> Some (Completed (), d1, t1, dk2))
          else Some (Completed (), d, t1, dk1))"

definition eraseDisk ::
    "bytes \<Rightarrow> runner \<Rightarrow> nat \<Rightarrow> Device \<Rightarrow> disk \<Rightarrow> (unit erasing \<times> Device \<times> nat \<times> disk) option" where
  "eraseDisk pattern run t d dk =
     (case prepare pattern d dk of
        None \<Rightarrow> None
      | Some (Panicking, d1, dk1) \<Rightarrow> Some (Panicking, d1, t, dk1)
      | Some (UnrecoverableFailure w, d1, dk1) \<Rightarrow> Some (UnrecoverableFailure w, d1, t, dk1)
      | Some (Completed u, d1, dk1) \<Rightarrow>
          (case erase_data run t (Close d1) dk1 of
             None \<Rightarrow> None
           | Some (Panicking, d2, t2, dk2) \<Rightarrow> Some (Panicking, d2, t2, dk2)
           | Some (UnrecoverableFailure w, d2, t2, dk2) \<Rightarrow> Some (UnrecoverableFailure w, d2, t2, dk2)
           | Some (Completed u, d2, t2, dk2) \<Rightarrow>
               (case verify pattern d2 dk2 of
                  None \<Rightarrow> None
                | Some (r, d3) \<Rightarrow> Some (r, d3, t2, dk2))))"

section \<open>What a completed erase has shown\<close>

definition canary_count :: "nat \<Rightarrow> disk \<Rightarrow> nat" where
  "canary_count len dk =
     (if len \<le> length (dk_bytes dk) then (length (dk_bytes dk) - len) div oneG + 1 else 1)"

definition canary_at :: "bytes \<Rightarrow> disk \<Rightarrow> nat \<Rightarrow> bool" where
  "canary_at pattern dk i \<longleftrightarrow> take (length pattern) (drop (i * oneG) (dk_bytes dk)) = pattern"

lemma canary_count_next:
  "int j * int oneG + int oneG + int len \<le> int (length (dk_bytes dk)) \<longleftrightarrow> Suc j < canary_count len dk"
proof -
  have "int j * int oneG + int oneG + int len \<le> int (length (dk_bytes dk)) \<longleftrightarrow>
      Suc j * oneG + len \<le> length (dk_bytes dk)"
    by (simp add: add_ac flip: of_nat_le_iff [where 'a = int])
  also have "\<dots> \<longleftrightarrow> len \<le> length (dk_bytes dk) \<and> Suc j * oneG \<le> length (dk_bytes dk) - len"
    by linarith
  also have "\<dots> \<longleftrightarrow> Suc j < canary_count len dk"
    by (auto simp: canary_count_def oneG_def less_eq_div_iff_mult_less_eq)
  finally show ?thesis .
qed

lemma InRange_ok:
  assumes "dev_ok dk d" "d_devSize d = length (dk_bytes dk)" "disk_ok dk" "0 < d_alignment d" "0 \<le> pos"
    "InRange_run dk pos len d = (r, d1)"
  shows "d1 = d" "r = Completed (pos + len \<le> int (length (dk_bytes dk)))"
proof -
  have "ReadSize dk d = (False, d)"
    using ReadSize_ok(3) [OF assms(3,1)] assms(2,3) by (auto simp: ReadSize_def readSize_def disk_ok_def)
  then show "d1 = d" "r = Completed (pos + len \<le> int (length (dk_bytes dk)))"
    using assms by (auto simp: InRange_run_def InRange_def align_floor Let_def)
qed

lemma count_loop_step:
  assumes "disk_ok dk" "dev_ok dk d" "length pattern \<le> 2 ^ 47" "count_loop pattern (int (j * oneG)) n d dk = Some (Completed m, d1)"
  obtains d2 where "dev_ok dk d2"
    "if Suc j < canary_count (length pattern) dk
     then count_loop pattern (int (Suc j * oneG)) (n + (if canary_at pattern dk j then 1 else 0)) d2 dk = Some (Completed m, d1)
     else m = n + (if canary_at pattern dk j then 1 else 0) \<and> d1 = d2"
proof -
  have q: "0 \<le> int (length pattern)" "int (length pattern) \<le> 2 ^ 47"
    using assms(3) by simp_all
  obtain r d2 where r: "AlignedRead dk (int (j * oneG)) (int (length pattern)) d = (Returns r, d2)" "dev_ok dk d2"
    "d_devSize d2 = length (dk_bytes dk)"
    "\<And>bs. r = Inr bs \<Longrightarrow>
       bs = take (nat (int (length pattern))) (drop (nat (abs_pos dk (int (j * oneG)))) (dk_bytes dk)) \<and> 0 < d_alignment d2"
    using AlignedRead_data [OF assms(1,2) q] by metis
  obtain bs where bs: "r = Inr bs"
    using assms(4) r(1) by (subst (asm) count_loop.simps) (auto split: sum.splits)
  then have "bs = pattern \<longleftrightarrow> canary_at pattern dk j" and al: "0 < d_alignment d2"
    using r(4) [OF bs] by (simp_all add: canary_at_def abs_pos_def nat_int flip: of_nat_mult)
  obtain b d3 where ir: "InRange_run dk (int (j * oneG) + int oneG) (int (length pattern)) d2 = (b, d3)"
    by (cases "InRange_run dk (int (j * oneG) + int oneG) (int (length pattern)) d2")
  have "0 \<le> int (j * oneG) + int oneG"
    by simp
  note ir' = InRange_ok [OF r(2,3) assms(1) al this ir]
  have b: "b = Completed (Suc j < canary_count (length pattern) dk)"
    using ir'(2) canary_count_next [of j "length pattern" dk] by simp
  have "int (j * oneG) + int oneG = int (Suc j * oneG)"
    by simp
  then show ?thesis
    using assms(4) r(1) bs ir ir'(1) b \<open>bs = pattern \<longleftrightarrow> canary_at pattern dk j\<close>
    by (intro that [OF r(2)]) (subst (asm) count_loop.simps, auto simp: Let_def add_ac)
qed

lemma count_loop_counts:
  "disk_ok dk \<Longrightarrow> length pattern \<le> 2 ^ 47 \<Longrightarrow> dev_ok dk d \<Longrightarrow>
   count_loop pattern (int (j * oneG)) n d dk = Some (Completed m, d1) \<Longrightarrow> j < canary_count (length pattern) dk \<Longrightarrow>
   dev_ok dk d1 \<and> m = n + length (filter (canary_at pattern dk) [j..<canary_count (length pattern) dk])"
proof (induction "canary_count (length pattern) dk - j" arbitrary: j n d)
  case (Suc x)
  obtain d2 where d2: "dev_ok dk d2"
    "if Suc j < canary_count (length pattern) dk
     then count_loop pattern (int (Suc j * oneG)) (n + (if canary_at pattern dk j then 1 else 0)) d2 dk = Some (Completed m, d1)
     else m = n + (if canary_at pattern dk j then 1 else 0) \<and> d1 = d2"
    using count_loop_step [OF Suc.prems(1,3,2,4)] by blast
  show ?case
  proof (cases "Suc j < canary_count (length pattern) dk")
    case True
    have "x = canary_count (length pattern) dk - Suc j"
      using Suc.hyps(2) by simp
    note ih = Suc.hyps(1) [OF this Suc.prems(1,2) d2(1) d2(2) [unfolded if_P [OF True]] True]
    have "[j..<canary_count (length pattern) dk] = j # [Suc j..<canary_count (length pattern) dk]"
      using Suc.prems(5) by (rule upt_conv_Cons)
    then show ?thesis
      using ih by simp
  next
    case False
    then have "canary_count (length pattern) dk = Suc j"
      using Suc.prems(5) by simp
    then show ?thesis
      using d2 False by simp
  qed
qed simp

lemma canary_count_pos [simp]: "0 < canary_count len dk"
  by (simp add: canary_count_def)

lemma countPrepPattern_counts:
  assumes "disk_ok dk" "length pattern \<le> 2 ^ 47" "dev_ok dk d" "countPrepPattern pattern d dk = Some (Completed m, d1)"
  shows "dev_ok dk d1" "m = length (filter (canary_at pattern dk) [0..<canary_count (length pattern) dk])"
proof -
  have "count_loop pattern (int (0 * oneG)) 0 d dk = Some (Completed m, d1)"
    using assms(4) by (simp add: countPrepPattern_def)
  from count_loop_counts [OF assms(1-3) this canary_count_pos]
  show "dev_ok dk d1" "m = length (filter (canary_at pattern dk) [0..<canary_count (length pattern) dk])"
    by simp_all
qed

lemma canary_count_same_length:
  "length (dk_bytes dk') = length (dk_bytes dk) \<Longrightarrow> canary_count len dk' = canary_count len dk"
  by (simp add: canary_count_def)

lemma write_canary_keeps:
  assumes "disk_ok dk" "dev_ok dk d" "length pattern \<le> 2 ^ 47" "write_canary pattern offs d dk = (r, d1, dk1)"
  shows "length (dk_bytes dk1) = length (dk_bytes dk)" "disk_ok dk1" "dev_ok dk1 d1"
    and "r = Completed () \<Longrightarrow> d_devSize d1 = length (dk_bytes dk1) \<and> 0 < d_alignment d1"
proof -
  obtain r2 d2 dk2 where w: "AlignedWrite offs pattern d dk = (r2, d2, dk2)"
    by (cases "AlignedWrite offs pattern d dk")
  note k = AlignedWrite_keeps [OF assms(1-3) w] and dd = AlignedWrite_data [OF assms(1-3) w]
  have ok2: "dev_ok dk2 d2"
    using dd(3) by (simp only: dev_ok_same_length [OF k(1)])
  obtain r3 d3 dk3 where w3: "AlignedWrite offs pattern d2 dk2 = (r3, d3, dk3)"
    by (cases "AlignedWrite offs pattern d2 dk2")
  note k3 = AlignedWrite_keeps [OF k(2) ok2 assms(3) w3] and dd3 = AlignedWrite_data [OF k(2) ok2 assms(3) w3]
  have ok3: "dev_ok dk3 d3"
    using dd3(3) by (simp only: dev_ok_same_length [OF k3(1)])
  have "r2 = Returns None \<and> d1 = d2 \<and> dk1 = dk2 \<or> d1 = d3 \<and> dk1 = dk3 \<and> (r = Completed () \<longrightarrow> r3 = Returns None)"
  proof (cases r2)
    case (Returns e)
    show ?thesis
    proof (cases e)
      case None
      then show ?thesis
        using assms(4) by (simp add: write_canary_def w Returns)
    next
      case (Some err)
      obtain x where x: "r3 = Returns x"
        using dd3(1) by (cases r3) auto
      have "write_canary pattern offs d dk =
          (case x of None \<Rightarrow> (Completed (), d3, dk3) | Some e \<Rightarrow> (UnrecoverableFailure True, d3, dk3))"
        by (simp add: write_canary_def w Returns Some w3 x split: option.split)
      then show ?thesis
        using assms(4) x by (cases x) auto
    qed
  qed (simp add: dd(1))
  then show "length (dk_bytes dk1) = length (dk_bytes dk)" "disk_ok dk1" "dev_ok dk1 d1"
    "r = Completed () \<Longrightarrow> d_devSize d1 = length (dk_bytes dk1) \<and> 0 < d_alignment d1"
    using k k3 ok2 ok3 by auto
qed

lemma prepare_loop_done:
  "disk_ok dk \<Longrightarrow> dev_ok dk d \<Longrightarrow> length pattern \<le> 2 ^ 47 \<Longrightarrow>
   prepare_loop pattern (int (j * oneG)) n d dk = Some (Completed m, d1, dk1) \<Longrightarrow> j < canary_count (length pattern) dk \<Longrightarrow>
   disk_ok dk1 \<and> dev_ok dk1 d1 \<and> length (dk_bytes dk1) = length (dk_bytes dk)
     \<and> m = n + (canary_count (length pattern) dk - j)"
proof (induction "canary_count (length pattern) dk - j" arbitrary: j n d dk)
  case (Suc x)
  let ?N = "canary_count (length pattern) dk"
  obtain r d2 dk2 where w: "write_canary pattern (int (j * oneG)) d dk = (r, d2, dk2)"
    by (cases "write_canary pattern (int (j * oneG)) d dk")
  note k = write_canary_keeps [OF Suc.prems(1-3) w]
  have N: "canary_count (length pattern) dk2 = ?N"
    using k(1) by (rule canary_count_same_length)
  have r: "r = Completed ()"
    using Suc.prems(4) by (subst (asm) prepare_loop.simps) (cases r, simp_all add: w del: of_nat_mult)
  obtain b d3 where ir: "InRange_run dk2 (int (j * oneG) + int oneG) (int (length pattern)) d2 = (b, d3)"
    by (cases "InRange_run dk2 (int (j * oneG) + int oneG) (int (length pattern)) d2")
  have pos: "0 \<le> int (j * oneG) + int oneG"
    by simp
  note ir' = InRange_ok [OF k(3) conjunct1 [OF k(4) [OF r]] k(2) conjunct2 [OF k(4) [OF r]] pos ir]
  have b: "b = Completed (Suc j < ?N)"
    using ir'(2) canary_count_next [of j "length pattern" dk2] N by simp
  have next_pos: "int (j * oneG) + int oneG = int (Suc j * oneG)"
    by simp
  have "(if Suc j < ?N then prepare_loop pattern (int (j * oneG) + int oneG) (Suc n) d2 dk2
      else Some (Completed (Suc n), d2, dk2)) = Some (Completed m, d1, dk1)"
    using Suc.prems(4) by (subst (asm) prepare_loop.simps)
      (simp only: w r ir ir'(1) b prod.case erasing.case split: if_splits)
  note run = this [unfolded next_pos]
  show ?case
  proof (cases "Suc j < ?N")
    case True
    have "x = canary_count (length pattern) dk2 - Suc j"
      using Suc.hyps(2) N by simp
    note ih = Suc.hyps(1) [OF this k(2,3) Suc.prems(3) run [unfolded if_P [OF True]]]
    then show ?thesis
      using True k(1) N by simp
  next
    case False
    then show ?thesis
      using run k Suc.prems(5) by auto
  qed
qed simp

lemma all_filtered: "length (filter P xs) = length xs \<Longrightarrow> x \<in> set xs \<Longrightarrow> P x"
  by (metis length_filter_less less_irrefl)

lemma prepare_done:
  assumes "disk_ok dk" "dev_ok dk d" "length pattern \<le> 2 ^ 47" "prepare pattern d dk = Some (Completed u, d1, dk1)"
  shows "disk_ok dk1" "dev_ok dk1 d1" "length (dk_bytes dk1) = length (dk_bytes dk)"
    and "i < canary_count (length pattern) dk \<Longrightarrow> canary_at pattern dk1 i"
proof -
  obtain n d2 where p: "prepare_loop pattern (int (0 * oneG)) 0 d dk = Some (Completed n, d2, dk1)"
    and c: "countPrepPattern pattern d2 dk1 = Some (Completed n, d1)"
    using assms(4) by (auto simp: prepare_def split: option.splits erasing.splits if_splits)
  note pd = prepare_loop_done [OF assms(1-3) p canary_count_pos]
  then show "disk_ok dk1" "length (dk_bytes dk1) = length (dk_bytes dk)"
    by simp_all
  note cc = countPrepPattern_counts [OF conjunct1 [OF pd] assms(3) _ c]
  show "dev_ok dk1 d1"
    using cc(1) pd by simp
  have "canary_count (length pattern) dk1 = canary_count (length pattern) dk"
    using pd by (intro canary_count_same_length) simp
  then have "length (filter (canary_at pattern dk1) [0..<canary_count (length pattern) dk]) =
      length [0..<canary_count (length pattern) dk]"
    using cc(2) pd by simp
  then show "i < canary_count (length pattern) dk \<Longrightarrow> canary_at pattern dk1 i"
    by (rule all_filtered) simp
qed

lemma verify_done:
  assumes "disk_ok dk" "dev_ok dk d" "length pattern \<le> 2 ^ 47" "verify pattern d dk = Some (Completed u, d1)"
    "i < canary_count (length pattern) dk"
  shows "\<not> canary_at pattern dk i"
proof -
  obtain d2 where o: "Open dk d = (None, d2)" and c: "countPrepPattern pattern d2 dk = Some (Completed 0, d1)"
    using assms(4) by (auto simp: verify_def split: option.splits erasing.splits if_splits prod.splits)
  have "dev_ok dk d2"
    using Open_same(2) [OF o] assms(2) by simp
  from countPrepPattern_counts(2) [OF assms(1,3) this c]
  have "filter (canary_at pattern dk) [0..<canary_count (length pattern) dk] = []"
    by simp
  then show ?thesis
    using assms(5) by (auto simp: filter_empty_conv)
qed

text \<open>Erasing neither resizes the disk nor makes it misbehave.\<close>

definition same_disk :: "disk \<Rightarrow> disk \<Rightarrow> bool" where
  "same_disk dk dk1 \<longleftrightarrow> disk_ok dk1 \<and> length (dk_bytes dk1) = length (dk_bytes dk)"

lemma same_disk_refl [simp]: "disk_ok dk \<Longrightarrow> same_disk dk dk"
  by (simp add: same_disk_def)

lemma same_disk_trans: "same_disk dk dk1 \<Longrightarrow> same_disk dk1 dk2 \<Longrightarrow> same_disk dk dk2"
  by (simp add: same_disk_def)

lemma same_disk_WriteAt: "disk_ok dk \<Longrightarrow> file_WriteAt dk pos bs = (n, dk1) \<Longrightarrow> same_disk dk dk1"
  using file_WriteAt_keeps by (simp add: same_disk_def)

lemma overwrite_pass_keeps: "overwrite_pass buf pos dk = Some dk1 \<Longrightarrow> disk_ok dk \<longrightarrow> same_disk dk dk1"
proof (induction rule: overwrite_pass.raw_induct [rotated, consumes 1, case_names pass])
  case (pass rec buf pos dk dk1)
  obtain k dk2 where w: "file_WriteAt dk pos buf = (k, dk2)"
    by (cases "file_WriteAt dk pos buf")
  show ?case
  proof
    assume ok: "disk_ok dk"
    note s = same_disk_WriteAt [OF ok w]
    show "same_disk dk dk1"
    proof (cases "k < length buf")
      case True
      then show ?thesis
        using pass(2) s by (simp add: w)
    next
      case False
      then have "rec buf (pos + k) dk2 = Some dk1"
        using pass(2) by (simp add: w)
      from pass(1) [OF this] show ?thesis
        using s by (auto simp: same_disk_def)
    qed
  qed
qed

lemma overwrite_passes_keeps: "overwrite_passes ps buf dk = Some dk1 \<Longrightarrow> disk_ok dk \<Longrightarrow> same_disk dk dk1"
proof (induction ps arbitrary: buf dk)
  case (Cons p ps)
  then obtain dk2 where p: "overwrite_pass (fillPattern buf p) 0 dk = Some dk2"
    "overwrite_passes ps (fillPattern buf p) dk2 = Some dk1"
    by (auto simp: Let_def split: option.splits)
  then have "same_disk dk dk2"
    using overwrite_pass_keeps Cons.prems(2) by blast
  then show ?case
    using Cons.IH [OF p(2)] by (auto simp: same_disk_def)
qed simp

lemma overwrite_keeps:
  "overwrite d dk = Some (d1, dk1) \<Longrightarrow> disk_ok dk \<Longrightarrow> same_disk dk dk1 \<and> d_devSize d1 = d_devSize d \<and> d_alignment d1 = d_alignment d"
  by (auto simp: overwrite_def Open_def split: option.splits if_splits dest: overwrite_passes_keeps)

definition keeps_disk :: "runner \<Rightarrow> bool" where
  "keeps_disk run \<longleftrightarrow> (\<forall>t args dk. disk_ok dk \<longrightarrow> same_disk dk (snd (snd (run t args dk))))"

lemma tryExec_keeps:
  "keeps_disk run \<Longrightarrow> disk_ok dk \<Longrightarrow> tryExec run args n t dk = (err, out, t1, dk1) \<Longrightarrow> same_disk dk dk1"
proof (induction n arbitrary: t dk)
  case (Suc n)
  obtain e o1 dk2 where r: "run t args dk = (e, o1, dk2)"
    by (cases "run t args dk")
  then have s: "same_disk dk dk2"
    using Suc.prems(1,2) unfolding keeps_disk_def by (metis snd_conv)
  show ?case
  proof (cases "\<not> e \<or> n = 0")
    case True
    then show ?thesis using Suc.prems(3) r s by auto
  next
    case False
    then have "tryExec run args n (Suc t) dk2 = (err, out, t1, dk1)"
      using Suc.prems(3) r by simp
    then show ?thesis
      using Suc.IH [OF Suc.prems(1)] s same_disk_trans by (auto simp: same_disk_def)
  qed
qed simp

lemma tryhdp_keeps:
  assumes "keeps_disk run" "disk_ok dk" "tryhdp run dev t dk = (r, t1, dk1)"
  shows "same_disk dk dk1"
proof -
  have step: "same_disk dk dk'" if "same_disk dk dk0" "tryExec run args 10 t0 dk0 = (e, out, t', dk')" for args t0 dk0 e out t' dk'
    using tryExec_keeps [OF assms(1) _ that(2)] that(1) by (auto simp: same_disk_def)
  note s0 = same_disk_refl [OF assms(2)]
  obtain e1 i1 t1' dk1' where x1: "tryExec run [''hdparm'', ''-I'', dev] 10 t dk = (e1, i1, t1', dk1')"
    by (metis prod_cases4)
  note s1 = step [OF s0 x1]
  define args2 where "args2 = [''hdparm'', ''--security-set-pass'', hdpPass, dev]"
  obtain e2 i2 t2 dk2 where x2: "tryExec run args2 10 t1' dk1' = (e2, i2, t2, dk2)"
    by (metis prod_cases4)
  note s2 = step [OF s1 x2]
  define args3 where "args3 = [''hdparm'',
    if length (getLine i1 ''enhanced erase'') > 20 \<and> \<not> contains (getLine i1 ''enhanced erase'') ''not''
    then ''--security-erase-enhanced'' else ''--security-erase'', hdpPass, dev]"
  obtain e3 i3 t3 dk3 where x3: "tryExec run args3 10 t2 dk2 = (e3, i3, t3, dk3)"
    by (metis prod_cases4)
  note s3 = step [OF s2 x3]
  have "dk1 \<in> {dk1', dk2, dk3}"
    using assms(3) unfolding tryhdp_def Let_def x1 prod.case x2 [unfolded args2_def] x3 [unfolded args3_def]
    by (auto split: if_splits outcome.splits)
  then show ?thesis
    using s1 s2 s3 by auto
qed

lemma erase_data_keeps:
  assumes "keeps_disk run" "disk_ok dk" "erase_data run t d dk = Some (r, d1, t1, dk1)" "dev_ok dk d"
  shows "same_disk dk dk1" "dev_ok dk1 d1"
proof -
  obtain x t2 dk2 where h: "tryhdp run (d_dev d) t dk = (x, t2, dk2)"
    by (metis prod_cases3)
  note s = tryhdp_keeps [OF assms(1,2) h]
  have "(dk1 = dk2 \<and> d1 = d) \<or> overwrite d dk2 = Some (d1, dk1)"
    using assms(3) by (auto simp: erase_data_def h split: erasing.splits option.splits if_splits)
  then have "same_disk dk dk1 \<and> d_devSize d1 = d_devSize d \<and> d_alignment d1 = d_alignment d"
    using s overwrite_keeps [of d dk2 d1 dk1] by (auto simp: same_disk_def)
  then show "same_disk dk dk1" "dev_ok dk1 d1"
    using assms(4) by (auto simp: same_disk_def dev_ok_def)
qed

text \<open>
  C25: when erasing a disk completes, then at every place where a canary belongs - the start of each
  gigabyte, as far as a canary fits - the disk held the canary before the erase command ran, and does
  not hold it afterwards, however the command behaved.
\<close>

theorem eraseDisk_canaries_gone:
  assumes "disk_ok dk" "dev_ok dk d" "length pattern \<le> 2 ^ 47" "keeps_disk run"
    "eraseDisk pattern run t d dk = Some (Completed u, d', t', dk')" "i < canary_count (length pattern) dk"
  shows "(\<exists>dp dkp. prepare pattern d dk = Some (Completed (), dp, dkp) \<and> canary_at pattern dkp i)
    \<and> \<not> canary_at pattern dk' i"
proof -
  obtain d1 dk1 d2 where p: "prepare pattern d dk = Some (Completed (), d1, dk1)"
    and e: "erase_data run t (Close d1) dk1 = Some (Completed (), d2, t', dk')"
    and v: "verify pattern d2 dk' = Some (Completed u, d')"
    using assms(5) by (auto simp: eraseDisk_def split: option.splits erasing.splits)
  note pd = prepare_done [OF assms(1-3) p]
  have "dev_ok dk1 (Close d1)"
    using pd(2) by (simp add: Close_def dev_ok_def)
  note ed = erase_data_keeps [OF assms(4) pd(1) e this]
  have "disk_ok dk'" "length (dk_bytes dk') = length (dk_bytes dk1)" "length (dk_bytes dk') = length (dk_bytes dk)"
    using ed(1) pd(3) by (simp_all add: same_disk_def)
  moreover have "dev_ok dk' d2"
    using ed(2) by (simp only: dev_ok_same_length [OF calculation(2)])
  moreover have "i < canary_count (length pattern) dk'"
    using assms(6) by (simp only: canary_count_same_length [OF calculation(3)])
  ultimately have "\<not> canary_at pattern dk' i"
    by (intro verify_done [OF _ _ assms(3) v])
  then show ?thesis
    using p pd(4) [OF assms(6)] by blast
qed

text \<open>A disk of 1 KiB on which the erase command works.\<close>

definition hdparm_info :: string where
  "hdparm_info = newline # ''not frozen'' @ newline #
     ''2min for SECURITY ERASE UNIT. 2min for ENHANCED SECURITY ERASE UNIT.'' @ [newline]"

definition zeroing :: runner where
  "zeroing t args dk =
     (False, if args ! 1 = ''-I'' then hdparm_info else '''',
      if args ! 1 = ''--security-erase'' then dk\<lparr>dk_bytes := replicate (length (dk_bytes dk)) 0\<rparr> else dk)"

lemma keeps_disk_zeroing: "keeps_disk zeroing"
  by (auto simp: keeps_disk_def zeroing_def same_disk_def disk_ok_def)

lemma hdparm_info_read:
  "contains (getLine hdparm_info ''frozen'') ''not''" "getLine hdparm_info ''enhanced erase'' = []"
  "getSEtime hdparm_info False = Returns (minutes 2)"
proof -
  show "contains (getLine hdparm_info ''frozen'') ''not''" "getLine hdparm_info ''enhanced erase'' = []"
    by code_simp+
  have parts: "split_on CHR ''.'' (getLine hdparm_info ''SECURITY ERASE UNIT'') =
      [newline # ''2min for SECURITY ERASE UNIT'', '' 2min for ENHANCED SECURITY ERASE UNIT'', '''']"
    by code_simp
  have choice: "contains (newline # ''2min for SECURITY ERASE UNIT'') ''ENHANCED'' = False"
    "TrimSpace (newline # ''2min for SECURITY ERASE UNIT'') = ''2min for SECURITY ERASE UNIT''"
    "index_of ''min'' ''2min for SECURITY ERASE UNIT'' = Some 1"
    by code_simp+
  have "dec_val ''2'' = 2"
    by code_simp
  then have "ParseDuration ''2m'' = Some (minutes 2)"
    by (simp add: ParseDuration_def parse_units.simps is_digit_def unit_ns_def minutes_def)
  then show "getSEtime hdparm_info False = Returns (minutes 2)"
    unfolding getSEtime_def parts Let_def by (simp add: choice del: contains.simps index_of.simps)
qed

lemma tryExec_first: "run t args dk = (False, out, dk1) \<Longrightarrow> 0 < n \<Longrightarrow> tryExec run args n t dk = (False, out, Suc t, dk1)"
  by (cases n) simp_all

lemma small_tryhdp: "tryhdp zeroing dev t dk =
    (Completed False, Suc (Suc (Suc t)), dk\<lparr>dk_bytes := replicate (length (dk_bytes dk)) 0\<rparr>)"
proof -
  have x: "tryExec zeroing [''hdparm'', ''-I'', dev] 10 t dk = (False, hdparm_info, Suc t, dk)"
    "tryExec zeroing [''hdparm'', ''--security-set-pass'', hdpPass, dev] 10 (Suc t) dk = (False, '''', Suc (Suc t), dk)"
    "tryExec zeroing [''hdparm'', ''--security-erase'', hdpPass, dev] 10 (Suc (Suc t)) dk =
      (False, '''', Suc (Suc (Suc t)), dk\<lparr>dk_bytes := replicate (length (dk_bytes dk)) 0\<rparr>)"
    by (rule tryExec_first; simp add: zeroing_def)+
  show ?thesis
    unfolding tryhdp_def Let_def x(1) prod.case hdparm_info_read
    by (simp add: x hdparm_info_read)
qed

definition small_disk :: "bytes \<Rightarrow> disk" where
  "small_disk hd2 = plain_disk (hd2 @ replicate 1022 1)"

definition small_dev :: Device where
  "small_dev = (NewDevice ''/dev/sda'')\<lparr>d_fd := True, d_alignment := 512, d_devSize := 1024\<rparr>"

lemma small_write: "AlignedWrite 0 [7, 7] small_dev (small_disk [1, 1]) = (Returns None, small_dev, small_disk [7, 7])"
  by (simp add: small_dev_def small_disk_def NewDevice_def patch_def raid_run flip: replicate_add)

lemma small_read:
  "AlignedRead (small_disk [7, 7]) 0 2 small_dev = (Returns (Inr [7, 7]), small_dev)"
  "AlignedRead (plain_disk (replicate 1024 0)) 0 2 small_dev = (Returns (Inr [0, 0]), small_dev)"
  by (simp_all add: small_dev_def small_disk_def NewDevice_def raid_run numeral_2_eq_2)

lemma small_range: "InRange_run dk 1073741824 2 small_dev = (Completed False, small_dev)"
  by (simp add: InRange_run_def InRange_def ReadSize_def small_dev_def NewDevice_def align_floor)

lemma small_count:
  "countPrepPattern [7, 7] small_dev (small_disk [7, 7]) = Some (Completed 1, small_dev)"
  "countPrepPattern [7, 7] small_dev (plain_disk (replicate 1024 0)) = Some (Completed 0, small_dev)"
  by (simp_all add: countPrepPattern_def count_loop.simps small_read small_range oneG_def)

lemma small_prepare:
  "prepare [7, 7] small_dev (small_disk [1, 1]) = Some (Completed (), small_dev, small_disk [7, 7])"
  by (simp add: prepare_def prepare_loop.simps write_canary_def small_write small_range oneG_def small_count)

lemma small_eraseDisk: "eraseDisk [7, 7] zeroing 0 small_dev (small_disk [1, 1]) =
    Some (Completed (), small_dev, 3, plain_disk (replicate 1024 0))"
proof -
  have "(small_disk [7, 7])\<lparr>dk_bytes := replicate (length (dk_bytes (small_disk [7, 7]))) 0\<rparr> = plain_disk (replicate 1024 0)"
    by (simp add: small_disk_def plain_disk_def)
  then have e: "erase_data zeroing 0 (Close small_dev) (small_disk [7, 7]) =
      Some (Completed (), Close small_dev, 3, plain_disk (replicate 1024 0))"
    by (simp add: erase_data_def small_tryhdp eval_nat_numeral)
  have o: "Open (plain_disk bs) (Close small_dev) = (None, small_dev)" for bs
    by (simp add: Open_def Close_def small_dev_def plain_disk_def NewDevice_def)
  have v: "verify [7, 7] (Close small_dev) (plain_disk (replicate 1024 0)) = Some (Completed (), small_dev)"
    by (simp add: verify_def o small_count)
  show ?thesis
    by (simp add: eraseDisk_def small_prepare e v)
qed

theorem eraseDisk_canaries_gone_witness:
  "(\<exists>dp dkp. prepare [7, 7] small_dev (small_disk [1, 1]) = Some (Completed (), dp, dkp) \<and> canary_at [7, 7] dkp 0)
    \<and> \<not> canary_at [7, 7] (plain_disk (replicate 1024 0)) 0"
proof (rule eraseDisk_canaries_gone [OF _ _ _ keeps_disk_zeroing small_eraseDisk])
  show "disk_ok (small_disk [1, 1])" "dev_ok (small_disk [1, 1]) small_dev"
    by (simp_all add: small_disk_def dev_ok_def small_dev_def NewDevice_def, simp add: plain_disk_def)
  show "length [7, 7 :: u8] \<le> 2 ^ 47" "0 < canary_count (length [7, 7 :: u8]) (small_disk [1, 1])"
    by simp_all
qed

section \<open>Overwriting a whole disk\<close>

text \<open>On a disk that takes whole writes, the last pass leaves zeros only.\<close>

lemma overwrite_pass_fills:
  assumes "0 < m" "pos \<le> length (dk_bytes dk)" "\<And>p n. dk_write dk p n = n"
  shows "overwrite_pass (replicate m c) pos dk =
    Some (dk\<lparr>dk_bytes := take pos (dk_bytes dk) @ replicate (length (dk_bytes dk) - pos) c\<rparr>)"
  using assms(2,3)
proof (induction "length (dk_bytes dk) - pos" arbitrary: pos dk rule: less_induct)
  case less
  let ?L = "length (dk_bytes dk)"
  define k where "k = min m (?L - pos)"
  define dk1 where "dk1 = dk\<lparr>dk_bytes := take pos (dk_bytes dk) @ replicate k c @ drop (pos + k) (dk_bytes dk)\<rparr>"
  have w: "file_WriteAt dk pos (replicate m c) = (k, dk1)"
    using less.prems by (auto simp: file_WriteAt_def Let_def k_def dk1_def patch_def min_def)
  show ?case
  proof (cases "k < m")
    case True
    then have "k = ?L - pos"
      by (simp add: k_def)
    then show ?thesis
      using w True less.prems(1) by (subst overwrite_pass.simps) (simp add: dk1_def)
  next
    case False
    then have k: "k = m" "m \<le> ?L - pos"
      by (simp_all add: k_def)
    have L1: "length (dk_bytes dk1) = ?L"
      using k less.prems(1) by (simp add: dk1_def)
    have t1: "take (pos + m) (dk_bytes dk1) = take pos (dk_bytes dk) @ replicate m c"
      using k less.prems(1) by (simp add: dk1_def min_def)
    have "overwrite_pass (replicate m c) (pos + m) dk1 =
        Some (dk1\<lparr>dk_bytes := take (pos + m) (dk_bytes dk1) @ replicate (length (dk_bytes dk1) - (pos + m)) c\<rparr>)"
      using L1 k assms(1) less.prems by (intro less.hyps) (auto simp: dk1_def)
    moreover have "replicate m c @ replicate (?L - (pos + m)) c = replicate (?L - pos) c"
      using k by (simp flip: replicate_add)
    moreover have "dk1\<lparr>dk_bytes := bs\<rparr> = dk\<lparr>dk_bytes := bs\<rparr>" for bs
      by (simp add: dk1_def)
    ultimately have "overwrite_pass (replicate m c) (pos + m) dk1 =
        Some (dk\<lparr>dk_bytes := take pos (dk_bytes dk) @ replicate (?L - pos) c\<rparr>)"
      by (simp only: t1 L1 append_assoc)
    then show ?thesis
      using w by (subst overwrite_pass.simps) (simp add: k(1))
  qed
qed

lemma overwrite_zeros:
  assumes "\<And>p n. dk_write dk p n = n" "dk_opens dk"
  shows "\<exists>d1. overwrite d dk = Some (d1, dk\<lparr>dk_bytes := replicate (length (dk_bytes dk)) 0\<rparr>)"
proof -
  have pass: "overwrite_pass (replicate overwrite_size c) 0 dk' =
      Some (dk'\<lparr>dk_bytes := replicate (length (dk_bytes dk')) c\<rparr>)" if "\<And>p n. dk_write dk' p n = n" for dk' c
    using overwrite_pass_fills [of overwrite_size 0 dk' c] that by (simp add: overwrite_size_def)
  have "overwrite_passes [0..<nrOverwritePatterns + 1] (replicate overwrite_size 0) dk =
      Some (dk\<lparr>dk_bytes := replicate (length (dk_bytes dk)) 0\<rparr>)"
    using assms(1) by (simp add: nrOverwritePatterns_def upt_rec fillPattern_def pass)
  moreover have "fst (Open dk d) = None"
    using assms(2) by (simp add: Open_def)
  ultimately show ?thesis
    by (auto simp: overwrite_def split: prod.splits)
qed

section \<open>The boot file\<close>

definition unrecoverableErrVal :: string where "unrecoverableErrVal = ''UNRECOVERABLE_ERROR''"

definition mark_line :: "string \<Rightarrow> string" where
  "mark_line l =
     (if has_prefix (TrimSpace l) ''kernel'' then l @ '' '' @ EraseEnv @ ''='' @ unrecoverableErrVal else l)"

text \<open>One turn of \<open>writeErrToBootFile\<close>; a turn that fails leaves the file, and in either case the next follows.\<close>

definition mark_boot_file :: "string \<Rightarrow> string" where
  "mark_boot_file buf =
     (case scan_lines buf of
        None \<Rightarrow> buf
      | Some ls \<Rightarrow> concat (map (\<lambda>l. mark_line l @ [newline]) ls))"

definition writeErrToBootFile :: "nat \<Rightarrow> string \<Rightarrow> string" where
  "writeErrToBootFile turns = (mark_boot_file ^^ turns)"

text \<open>Every turn appends the argument once more.\<close>

lemma writeErrToBootFile_repeats:
  "writeErrToBootFile 2 (''kernel /vmlinuz'' @ [newline]) =
     ''kernel /vmlinuz DATA_ERASE=UNRECOVERABLE_ERROR DATA_ERASE=UNRECOVERABLE_ERROR'' @ [newline]"
proof -
  have "mark_boot_file (''kernel /vmlinuz'' @ [newline]) = ''kernel /vmlinuz DATA_ERASE=UNRECOVERABLE_ERROR'' @ [newline]"
    "mark_boot_file (''kernel /vmlinuz DATA_ERASE=UNRECOVERABLE_ERROR'' @ [newline]) =
      ''kernel /vmlinuz DATA_ERASE=UNRECOVERABLE_ERROR DATA_ERASE=UNRECOVERABLE_ERROR'' @ [newline]"
    by (simp_all add: mark_boot_file_def scan_lines_def mark_line_def drop_cr_def newline_def TrimSpace_def is_space_def
        has_prefix_def EraseEnv_def unrecoverableErrVal_def)
  then show ?thesis
    by (simp add: writeErrToBootFile_def numeral_2_eq_2)
qed

text \<open>Output without the expected line is not fallen back from, it panics.\<close>

lemma getSEtime_missing_line: "getSEtime ''no such line'' False = Panics"
  by (simp add: getSEtime_def getLine_def has_prefix_def)

section \<open>The whole run\<close>

text \<open>
  \<open>Erase\<close>.  The disks are erased by one goroutine each; they share no disk and a failure of any ends the
  process, so they appear here one after the other.  Errors of saving and restoring are only logged.
\<close>

fun erase_disks ::
    "bytes \<Rightarrow> runner \<Rightarrow> nat list \<Rightarrow> nat \<Rightarrow> devices \<Rightarrow> (unit erasing \<times> devices) option" where
  "erase_disks pattern run [] t ds = Some (Completed (), ds)"
| "erase_disks pattern run (i # is) t ds =
     (case eraseDisk pattern run t (dev_at ds i) (fst (ds ! i)) of
        None \<Rightarrow> None
      | Some (Completed u, d, t1, dk) \<Rightarrow> erase_disks pattern run is t1 (ds[i := (dk, d)])
      | Some (r, d, t1, dk) \<Rightarrow> Some (r, ds[i := (dk, d)]))"

definition Erase_main ::
    "string \<Rightarrow> bytes \<Rightarrow> runner \<Rightarrow> bool \<Rightarrow> (string \<Rightarrow> bool) \<Rightarrow> nat \<Rightarrow> nat \<Rightarrow> (string \<times> disk) list option
     \<Rightarrow> (unit erasing \<times> devices) option" where
  "Erase_main env pattern run virt_prototype is_recovery tol data_disks dir =
     (if env = unrecoverableErrVal then Some (UnrecoverableFailure False, [])
      else
        (case FindDevices virt_prototype is_recovery dir of
           Panics \<Rightarrow> Some (Panicking, [])
         | Returns (devs, err) \<Rightarrow>
             (case FindArrays tol devs of
                (arrs, ds) \<Rightarrow>
                  if length arrs \<noteq> 1 then Some (UnrecoverableFailure True, ds)
                  else if Array_Len (hd arrs) \<noteq> data_disks then Some (UnrecoverableFailure True, ds)
                  else
                    (case Array_Backup (hd arrs) ds of
                       (Panics, ds1) \<Rightarrow> Some (Panicking, ds1)
                     | (Returns e, ds1) \<Rightarrow>
                         (case erase_disks pattern run (ar_devices (hd arrs)) 0 ds1 of
                            None \<Rightarrow> None
                          | Some (Completed u, ds2) \<Rightarrow>
                              (case Array_Restore (hd arrs) ds2 of
                                 (Panics, ds3) \<Rightarrow> Some (Panicking, ds3)
                               | (Returns e, ds3) \<Rightarrow> Some (Completed (), ds3))
                          | Some (r, ds2) \<Rightarrow> Some (r, ds2))))))"

text \<open>A run that completes has found one array with the expected number of disks.\<close>

lemma Erase_main_completed:
  assumes "Erase_main env pattern run virt rec tol n dir = Some (Completed u, ds)"
  shows "env \<noteq> unrecoverableErrVal \<and> (\<exists>devs err a ds0 ds1 ds2 e.
    FindDevices virt rec dir = Returns (devs, err) \<and> FindArrays tol devs = ([a], ds0) \<and> length (ar_devices a) = n
      \<and> Array_Backup a ds0 = (Returns e, ds1) \<and> erase_disks pattern run (ar_devices a) 0 ds1 = Some (Completed (), ds2))"
proof -
  obtain devs err arrs ds0 where f: "FindDevices virt rec dir = Returns (devs, err)" "FindArrays tol devs = (arrs, ds0)"
    and env: "env \<noteq> unrecoverableErrVal"
    using assms by (auto simp: Erase_main_def split: if_splits outcome.splits prod.splits)
  have "length arrs = 1" "Array_Len (hd arrs) = n"
    using assms f env by (auto simp: Erase_main_def split: if_splits)
  then obtain a where a: "arrs = [a]" "length (ar_devices a) = n"
    by (cases arrs) (auto simp: Array_Len_def)
  have run: "(case Array_Backup a ds0 of
       (Panics, ds1) \<Rightarrow> Some (Panicking, ds1)
     | (Returns e, ds1) \<Rightarrow>
         (case erase_disks pattern run (ar_devices a) 0 ds1 of
            None \<Rightarrow> None
          | Some (Completed u, ds2) \<Rightarrow>
              (case Array_Restore a ds2 of
                 (Panics, ds3) \<Rightarrow> Some (Panicking, ds3)
               | (Returns e, ds3) \<Rightarrow> Some (Completed (), ds3))
          | Some (r, ds2) \<Rightarrow> Some (r, ds2))) = Some (Completed u, ds)"
    using assms env a(2) unfolding Erase_main_def f prod.case outcome.case a(1) list.sel(1) by (simp add: Array_Len_def)
  then obtain e ds1 where b: "Array_Backup a ds0 = (Returns e, ds1)"
    by (auto split: prod.splits outcome.splits)
  then obtain ds2 where "erase_disks pattern run (ar_devices a) 0 ds1 = Some (Completed (), ds2)"
    using run by (auto split: option.splits prod.splits erasing.splits)
  then show ?thesis
    using f a b env by auto
qed

end
