(* ===== verification/CpuTopo.thy ===== *)
theory CpuTopo
  imports RaidArray "HOL-Library.AList"
begin

text \<open>
  Processors (\<open>pkg/hw/cpu\<close>): the kernel's lists of processors, their siblings, and the choice of the
  least used processors for the queues of a network card.  Files under /sys are a function from
  paths to contents; the order in which Go visits a map is a list handed in for each visit.
\<close>

section \<open>Which processors there are\<close>

definition cpu_isDigit :: "char \<Rightarrow> bool" where
  "cpu_isDigit d \<longleftrightarrow> (of_char d :: nat) \<ge> 48 \<and> (of_char d :: nat) \<le> 57"

text \<open>\<open>setCPUInfo\<close> on the names in the directory: the mask and the count.\<close>

definition cpu_index :: "string \<Rightarrow> nat option" where
  "cpu_index name =
     (if has_prefix name ''cpu'' \<and> length name > 3 \<and> cpu_isDigit (name ! 3)
      then (case ParseUint10 64 (drop 3 name) of
              Some n \<Rightarrow> if n > 63 then None else Some n
            | None \<Rightarrow> None)
      else None)"

fun setCPUInfo :: "string list \<Rightarrow> 64 word \<Rightarrow> 16 word \<Rightarrow> 64 word \<times> 16 word" where
  "setCPUInfo [] m n = (m, n)"
| "setCPUInfo (name # names) m n =
     (case cpu_index name of
        None \<Rightarrow> setCPUInfo names m n
      | Some i \<Rightarrow> setCPUInfo names (or m (push_bit i 1)) (n + 1))"

section \<open>Lists of processors\<close>

definition parse_range :: "string \<Rightarrow> (nat list) option outcome" where
  "parse_range p =
     (case split_on CHR ''-'' p of
        [a, b] \<Rightarrow>
          Returns
            (case (ParseUint10 16 a, ParseUint10 16 b) of
               (Some lo, Some hi) \<Rightarrow> if hi \<le> lo then None else Some [lo..<hi + 1]
             | _ \<Rightarrow> None)
      | _ \<Rightarrow> Panics)"

text \<open>The result is \<open>None\<close> for an error.  Only a single number is checked to be new.\<close>

fun parse_parts :: "string list \<Rightarrow> nat list \<Rightarrow> (nat list) option outcome" where
  "parse_parts [] s = Returns (Some s)"
| "parse_parts (p # ps) s =
     (if CHR ''-'' \<in> set p
      then
        (case parse_range p of
           Panics \<Rightarrow> Panics
         | Returns None \<Rightarrow> Returns None
         | Returns (Some r) \<Rightarrow> parse_parts ps (s @ r))
      else
        (case ParseUint10 16 p of
           None \<Rightarrow> Returns None
         | Some v \<Rightarrow> if v \<in> set s then Returns None else parse_parts ps (s @ [v])))"

definition parseCpuList :: "string \<Rightarrow> (nat list) option outcome" where
  "parseCpuList lst = parse_parts (split_on CHR '','' (Trim (CHR 0x0A) lst)) []"

text \<open>\<open>getCpuList\<close> panics on any error.\<close>

definition getCpuList :: "(string \<Rightarrow> string option) \<Rightarrow> string \<Rightarrow> nat list outcome" where
  "getCpuList files f =
     (case files f of
        None \<Rightarrow> Panics
      | Some c \<Rightarrow>
          (case parseCpuList c of
             Returns (Some s) \<Rightarrow> Returns s
           | _ \<Rightarrow> Panics))"

section \<open>Topology\<close>

record cpu_state =
  cs_allCpus :: "nat list"
  cs_coreSib :: "(nat \<times> nat list) list"
  cs_threadSib :: "(nat \<times> nat list) list"
  cs_useCount :: "(nat \<times> nat) list"
  cs_numCpus :: nat

definition sysCpu :: string where "sysCpu = ''/sys/devices/system/cpu''"

fun populate_sibs :: "(string \<Rightarrow> string option) \<Rightarrow> nat list \<Rightarrow> cpu_state \<Rightarrow> unit outcome \<times> cpu_state" where
  "populate_sibs files [] s = (Returns (), s)"
| "populate_sibs files (c # cs) s =
     (let dir = ''cpu'' @ show_dec c
      in case getCpuList files (path_Join [sysCpu, dir, ''topology/core_siblings_list'']) of
           Panics \<Rightarrow> (Panics, s)
         | Returns core \<Rightarrow>
             (let s1 = s\<lparr>cs_coreSib := AList.update c core (cs_coreSib s)\<rparr>
              in case getCpuList files (path_Join [sysCpu, dir, ''topology/thread_siblings_list'']) of
                   Panics \<Rightarrow> (Panics, s1)
                 | Returns th \<Rightarrow> populate_sibs files cs (s1\<lparr>cs_threadSib := AList.update c th (cs_threadSib s1)\<rparr>)))"

definition populateMaps :: "(string \<Rightarrow> string option) \<Rightarrow> cpu_state \<Rightarrow> unit outcome \<times> cpu_state" where
  "populateMaps files s =
     (case getCpuList files (path_Join [sysCpu, ''online'']) of
        Panics \<Rightarrow> (Panics, s)
      | Returns cs \<Rightarrow> populate_sibs files cs (s\<lparr>cs_allCpus := cs\<rparr>))"

text \<open>A missing key of a map reads as the zero value.\<close>

definition sibs :: "(nat \<times> nat list) list \<Rightarrow> nat \<Rightarrow> nat list" where
  "sibs t c = (case map_of t c of Some xs \<Rightarrow> xs | None \<Rightarrow> [])"

definition uses :: "(nat \<times> nat) list \<Rightarrow> nat \<Rightarrow> nat" where
  "uses u c = (case map_of u c of Some n \<Rightarrow> n | None \<Rightarrow> 0)"

definition ContainsTSib :: "cpu_state \<Rightarrow> nat list \<Rightarrow> nat \<Rightarrow> bool" where
  "ContainsTSib s set0 c = list_ex (\<lambda>v. v \<in> set (sibs (cs_threadSib s) c) \<and> c \<noteq> v) set0"

definition ContainsCSib :: "cpu_state \<Rightarrow> nat list \<Rightarrow> nat \<Rightarrow> bool" where
  "ContainsCSib s set0 c = list_ex (\<lambda>v. v \<in> set (sibs (cs_coreSib s) c) \<and> c \<noteq> v) set0"

text \<open>
  \<open>weight\<close> as a multiple of 2 ^ -59: \<open>float64\<close> additions of the uses, half the uses of thread siblings
  (both exact), and the rounded product of those of core siblings with the double next to 0.01.
\<close>

definition siblingWeight :: "cpu_state \<Rightarrow> (nat \<times> nat list) list \<Rightarrow> nat \<Rightarrow> nat" where
  "siblingWeight s t c = sum_list (map (uses (cs_useCount s)) (filter (\<lambda>x. x \<noteq> c) (sibs t c)))"

definition weight :: "cpu_state \<Rightarrow> nat \<Rightarrow> nat" where
  "weight s c =
     round53 (uses (cs_useCount s) c * 2 ^ 59 + siblingWeight s (cs_threadSib s) c * 2 ^ 58
       + round53 (siblingWeight s (cs_coreSib s) c * 5764607523034235))"

text \<open>\<open>lowestWeight\<close>: the loop over the map; without a candidate the result is processor 0.\<close>

fun lowest_loop :: "cpu_state \<Rightarrow> nat list \<Rightarrow> nat list \<Rightarrow> bool \<Rightarrow> nat \<Rightarrow> nat \<Rightarrow> nat" where
  "lowest_loop s exclude [] is_first lowest wl = lowest"
| "lowest_loop s exclude (c # cs) is_first lowest wl =
     (if c \<in> set exclude then lowest_loop s exclude cs is_first lowest wl
      else if is_first \<or> weight s c < wl then lowest_loop s exclude cs False c (weight s c)
      else lowest_loop s exclude cs is_first lowest wl)"

definition lowestWeight :: "nat list \<Rightarrow> nat list \<Rightarrow> cpu_state \<Rightarrow> nat \<times> cpu_state" where
  "lowestWeight order exclude s =
     (let s1 = (if length (cs_useCount s) < cs_numCpus s
                then s\<lparr>cs_useCount := fold (\<lambda>c. AList.update c 0) (cs_allCpus s) (cs_useCount s)\<rparr> else s)
      in (lowest_loop s1 exclude order True 0 (weight s1 0), s1))"

fun weighted_loop :: "nat list list \<Rightarrow> nat list \<Rightarrow> cpu_state \<Rightarrow> nat list \<times> cpu_state" where
  "weighted_loop [] set0 s = (set0, s)"
| "weighted_loop (order # orders) set0 s =
     (case lowestWeight order set0 s of
        (c, s1) \<Rightarrow>
          weighted_loop orders (set0 @ [c])
            (s1\<lparr>cs_useCount := AList.update c (uses (cs_useCount s1) c + 1) (cs_useCount s1)\<rparr>))"

text \<open>\<open>orders\<close> has an order for each processor that is chosen.\<close>

definition set_size :: "nat \<Rightarrow> cpu_state \<Rightarrow> nat" where
  "set_size setSize s = min (setSize mod 2 ^ 16) (cs_numCpus s)"

definition CreateSetWeighted :: "(nat \<Rightarrow> nat list) \<Rightarrow> nat \<Rightarrow> cpu_state \<Rightarrow> nat list \<times> cpu_state" where
  "CreateSetWeighted orders setSize s = weighted_loop (map orders [0..<set_size setSize s]) [] s"

section \<open>The chosen processors\<close>

text \<open>Either nothing has been counted yet, or every processor has a count.\<close>

definition cpu_ok :: "cpu_state \<Rightarrow> bool" where
  "cpu_ok s \<longleftrightarrow> distinct (cs_allCpus s) \<and> cs_numCpus s = length (cs_allCpus s)
     \<and> distinct (map fst (cs_useCount s))
     \<and> (cs_useCount s = [] \<or> set (map fst (cs_useCount s)) = set (cs_allCpus s))"

lemma uses_update: "uses (AList.update c n u) = (uses u)(c := n)"
  by (auto simp: uses_def update_conv fun_eq_iff)

lemma lowest_loop_min:
  "lowest_loop s exclude cs False l (weight s l) = r \<Longrightarrow>
   (r = l \<or> r \<in> set cs - set exclude) \<and> weight s r \<le> weight s l
     \<and> (\<forall>c \<in> set cs - set exclude. weight s r \<le> weight s c)"
proof (induction cs arbitrary: l)
  case (Cons c cs)
  show ?case
  proof (cases "c \<in> set exclude")
    case True
    then show ?thesis using Cons.IH [of l] Cons.prems by auto
  next
    case False
    define m where "m = (if weight s c < weight s l then c else l)"
    have "lowest_loop s exclude cs False m (weight s m) = r"
      using Cons.prems False by (simp add: m_def split: if_splits)
    note ih = Cons.IH [OF this]
    have "weight s m \<le> weight s l" "weight s m \<le> weight s c"
      by (simp_all add: m_def)
    moreover have "m = l \<or> m = c"
      by (simp add: m_def)
    ultimately show ?thesis
      using ih False by force
  qed
qed simp

lemma lowest_loop_first:
  "set cs - set exclude \<noteq> {} \<Longrightarrow> lowest_loop s exclude cs True l w = r \<Longrightarrow>
   r \<in> set cs - set exclude \<and> (\<forall>c \<in> set cs - set exclude. weight s r \<le> weight s c)"
proof (induction cs)
  case (Cons c cs)
  show ?case
  proof (cases "c \<in> set exclude")
    case True
    then show ?thesis using Cons by auto
  next
    case False
    then have "lowest_loop s exclude cs False c (weight s c) = r"
      using Cons.prems(2) by simp
    from lowest_loop_min [OF this] show ?thesis
      using False by auto
  qed
qed simp

lemma zero_counts:
  "set (map fst (fold (\<lambda>c. AList.update c 0) cs u)) = set (map fst u) \<union> set cs"
  "distinct (map fst u) \<Longrightarrow> distinct (map fst (fold (\<lambda>c. AList.update c 0) cs u))"
  "uses (fold (\<lambda>c. AList.update c 0) cs u) c = (if c \<in> set cs then 0 else uses u c)"
  by (induction cs arbitrary: u) (auto simp: dom_update distinct_update uses_update)

text \<open>One choice: a processor not yet taken, none of which has a lower weight.\<close>

lemma lowestWeight_chooses:
  assumes "cpu_ok s" "set order = set (cs_allCpus s)" "set (cs_allCpus s) - set exclude \<noteq> {}"
    "lowestWeight order exclude s = (c, s1)"
  shows "c \<in> set (cs_allCpus s) - set exclude" "\<forall>d \<in> set (cs_allCpus s) - set exclude. weight s1 c \<le> weight s1 d"
    "uses (cs_useCount s1) = uses (cs_useCount s)" "cs_allCpus s1 = cs_allCpus s" "cs_numCpus s1 = cs_numCpus s"
    "set (map fst (cs_useCount s1)) = set (cs_allCpus s)" "distinct (map fst (cs_useCount s1))"
proof -
  have full: "length (cs_useCount s) = cs_numCpus s" if "set (map fst (cs_useCount s)) = set (cs_allCpus s)"
    using assms(1) that unfolding cpu_ok_def
    by (metis distinct_card length_map)
  show "c \<in> set (cs_allCpus s) - set exclude" "\<forall>d \<in> set (cs_allCpus s) - set exclude. weight s1 c \<le> weight s1 d"
    using lowest_loop_first [of order exclude s1 0 "weight s1 0" c] assms(2-4)
    by (auto simp: lowestWeight_def Let_def)
  have pos: "0 < cs_numCpus s"
    using assms(1,3) by (auto simp: cpu_ok_def)
  have s1: "s1 = (if length (cs_useCount s) < cs_numCpus s
      then s\<lparr>cs_useCount := fold (\<lambda>c. AList.update c 0) (cs_allCpus s) (cs_useCount s)\<rparr> else s)"
    using assms(4) unfolding lowestWeight_def Let_def by (simp only: prod.inject)
  consider (new) "cs_useCount s = []" "s1 = s\<lparr>cs_useCount := fold (\<lambda>c. AList.update c 0) (cs_allCpus s) []\<rparr>"
    | (old) "set (map fst (cs_useCount s)) = set (cs_allCpus s)" "s1 = s"
    using assms(1) s1 full pos by (fastforce simp: cpu_ok_def)
  then have "uses (cs_useCount s1) = uses (cs_useCount s) \<and> cs_allCpus s1 = cs_allCpus s \<and> cs_numCpus s1 = cs_numCpus s
    \<and> set (map fst (cs_useCount s1)) = set (cs_allCpus s) \<and> distinct (map fst (cs_useCount s1))"
  proof cases
    case new
    note z = zero_counts [where cs = "cs_allCpus s" and u = "[]"]
    have "uses (cs_useCount s1) = uses (cs_useCount s)"
      by (rule ext) (simp add: new z(3), simp add: uses_def)
    then show ?thesis
      using z(1,2) by (simp add: new)
  next
    case old
    then show ?thesis
      using assms(1) by (simp add: cpu_ok_def)
  qed
  then show "uses (cs_useCount s1) = uses (cs_useCount s)" "cs_allCpus s1 = cs_allCpus s" "cs_numCpus s1 = cs_numCpus s"
    "set (map fst (cs_useCount s1)) = set (cs_allCpus s)" "distinct (map fst (cs_useCount s1))"
    by blast+
qed

text \<open>
  A set for as many queues as asked for, or one for each processor: all different, each counted once
  more.
\<close>

lemma weighted_loop_spec:
  "cpu_ok s \<Longrightarrow> distinct taken \<Longrightarrow> set taken \<subseteq> set (cs_allCpus s) \<Longrightarrow>
   list_all (\<lambda>order. set order = set (cs_allCpus s)) orders \<Longrightarrow> length taken + length orders \<le> cs_numCpus s \<Longrightarrow>
   weighted_loop orders taken s = (res, s1) \<Longrightarrow>
   \<exists>new. res = taken @ new \<and> distinct res \<and> set res \<subseteq> set (cs_allCpus s) \<and> length new = length orders \<and> cpu_ok s1
     \<and> (\<forall>c. uses (cs_useCount s1) c = uses (cs_useCount s) c + (if c \<in> set new then 1 else 0))"
proof (induction orders arbitrary: taken s)
  case (Cons order orders)
  obtain c s2 where c: "lowestWeight order taken s = (c, s2)"
    by (cases "lowestWeight order taken s")
  have "card (set taken) < card (set (cs_allCpus s))"
    using Cons.prems(1,2,5) by (simp add: distinct_card cpu_ok_def)
  then have "set (cs_allCpus s) - set taken \<noteq> {}"
    by (metis Diff_eq_empty_iff card_mono finite_set not_less)
  note l = lowestWeight_chooses [OF Cons.prems(1) _ this c]
  define s3 where "s3 = s2\<lparr>cs_useCount := AList.update c (uses (cs_useCount s2) c + 1) (cs_useCount s2)\<rparr>"
  have ord: "set order = set (cs_allCpus s)"
    using Cons.prems(4) by simp
  note l = l [OF ord]
  have s3: "cpu_ok s3" "cs_allCpus s3 = cs_allCpus s" "cs_numCpus s3 = cs_numCpus s"
    "uses (cs_useCount s3) = (uses (cs_useCount s))(c := uses (cs_useCount s) c + 1)"
    using l Cons.prems(1) by (auto simp: s3_def cpu_ok_def uses_update dom_update distinct_update)
  have run: "weighted_loop orders (taken @ [c]) s3 = (res, s1)"
    using Cons.prems(6) c by (simp add: s3_def)
  have "\<exists>new. res = (taken @ [c]) @ new \<and> distinct res \<and> set res \<subseteq> set (cs_allCpus s3) \<and> length new = length orders
      \<and> cpu_ok s1 \<and> (\<forall>d. uses (cs_useCount s1) d = uses (cs_useCount s3) d + (if d \<in> set new then 1 else 0))"
    using Cons.prems l(1) s3(2,3) by (intro Cons.IH [OF s3(1) _ _ _ _ run]) auto
  then obtain new where new: "res = (taken @ [c]) @ new" "distinct res" "set res \<subseteq> set (cs_allCpus s)"
    "length new = length orders" "cpu_ok s1"
    "\<And>d. uses (cs_useCount s1) d = uses (cs_useCount s3) d + (if d \<in> set new then 1 else 0)"
    using s3(2) by auto
  have "c \<notin> set new"
    using new(1,2) by auto
  then have "uses (cs_useCount s1) d = uses (cs_useCount s) d + (if d \<in> set (c # new) then 1 else 0)" for d
    using new(6) [of d] s3(4) by auto
  then show ?case
    using new(1-5) by (intro exI [of _ "c # new"]) auto
qed simp

lemma CreateSetWeighted_spec:
  assumes "cpu_ok s" "\<forall>k. set (orders k) = set (cs_allCpus s)" "CreateSetWeighted orders setSize s = (res, s1)"
  shows "distinct res \<and> set res \<subseteq> set (cs_allCpus s) \<and> length res = set_size setSize s \<and> cpu_ok s1
    \<and> (\<forall>c. uses (cs_useCount s1) c = uses (cs_useCount s) c + (if c \<in> set res then 1 else 0))"
  using weighted_loop_spec [OF assms(1) _ _ _ _ assms(3) [unfolded CreateSetWeighted_def]] assms(2)
  by (auto simp: list_all_iff set_size_def)

end
