(* ===== verification/NicList.thy ===== *)
theory NicList
  imports CpuTopo Strs
begin

text \<open>
  Network cards (\<open>pkg/hw/nic/nic.go\<close>, \<open>sort_mac.go\<close>, \<open>queue.go\<close>, \<open>irq.go\<close>, \<open>conf.go\<close>): the list of cards, the
  order by hardware address, what \<open>ethtool\<close> says of their queues, and their interrupts.  A slice of a
  hardware address beyond its length panics: the addresses have no spare capacity.
\<close>

section \<open>Cards\<close>

record Nic =
  nic_device :: string
  nic_mac :: bytes
  nic_irqs :: "nat list"

text \<open>\<open>List\<close> on the entries of /sys/class/net: name, the target if it is a link that can be read, and the address
  if the interface can be asked for it.\<close>

record net_entry =
  ne_name :: string
  ne_link :: "string option"
  ne_mac :: "bytes option"

definition nic_List :: "net_entry list \<Rightarrow> Nic list" where
  "nic_List es =
     map (\<lambda>e. \<lparr>nic_device = ne_name e, nic_mac = (case ne_mac e of Some m \<Rightarrow> m | None \<Rightarrow> []), nic_irqs = []\<rparr>)
       (filter (\<lambda>e. case ne_link e of Some path \<Rightarrow> \<not> contains path ''virtual'' | None \<Rightarrow> False) es)"

section \<open>Filters\<close>

fun AllowedPrefix :: "bytes list \<Rightarrow> Nic \<Rightarrow> bool outcome" where
  "AllowedPrefix [] n = Returns False"
| "AllowedPrefix (pfx # ps) n =
     (if length (nic_mac n) < length pfx then Panics
      else if pfx = take (length pfx) (nic_mac n) then Returns True
      else AllowedPrefix ps n)"

definition MatchOUI :: "bytes \<Rightarrow> Nic \<Rightarrow> bool outcome" where
  "MatchOUI pfx n =
     (if length (nic_mac n) < length pfx then Panics else Returns (pfx = take (length pfx) (nic_mac n)))"

fun FilterMACs :: "bytes list \<Rightarrow> Nic list \<Rightarrow> Nic list outcome" where
  "FilterMACs allowed [] = Returns []"
| "FilterMACs allowed (n # nl) =
     (case (if allowed = [] then Returns True else AllowedPrefix allowed n) of
        Panics \<Rightarrow> Panics
      | Returns ok \<Rightarrow>
          (case FilterMACs allowed nl of
             Panics \<Rightarrow> Panics
           | Returns rest \<Rightarrow> Returns (if ok then n # rest else rest)))"

definition nic_Filter :: "(nat \<Rightarrow> Nic \<Rightarrow> bool) \<Rightarrow> Nic list \<Rightarrow> Nic list" where
  "nic_Filter fn nl = map snd (filter (\<lambda>(i, n). fn i n) (zip [0..<length nl] nl))"

definition IndexFilter :: "int list \<Rightarrow> nat \<Rightarrow> Nic \<Rightarrow> bool" where
  "IndexFilter indexes idx n = list_ex (\<lambda>i. int idx = i) indexes"

definition NotFilter :: "(nat \<Rightarrow> Nic \<Rightarrow> bool) \<Rightarrow> nat \<Rightarrow> Nic \<Rightarrow> bool" where
  "NotFilter fn idx n = (\<not> fn idx n)"

section \<open>Order by address\<close>

text \<open>Six bytes of the address, padded with zeros, as a number - and back.\<close>

definition to_umac :: "bytes \<Rightarrow> 64 word" where
  "to_umac a = word_of_nat (be_nat (take 6 a @ replicate (6 - length a) 0))"

definition umac_Mac :: "64 word \<Rightarrow> bytes" where
  "umac_Mac m = map (\<lambda>i. word_of_nat (unat m div 256 ^ (5 - i))) [0..<6]"

definition SortableMacs :: "bytes list \<Rightarrow> 64 word list" where
  "SortableMacs l = map to_umac l"

definition MACList_Sort :: "((64 word \<Rightarrow> 64 word \<Rightarrow> bool) \<Rightarrow> 64 word list \<Rightarrow> 64 word list) \<Rightarrow> 64 word list \<Rightarrow> 64 word list" where
  "MACList_Sort srt m = srt (\<lambda>x y. x < y) m"

fun Sequential :: "64 word list \<Rightarrow> bool" where
  "Sequential (x # y # m) = (if x + 1 \<noteq> y then False else Sequential (y # m))"
| "Sequential m = True"

text \<open>For each address in order, the first card that has it.\<close>

definition nic_Sort :: "((64 word \<Rightarrow> 64 word \<Rightarrow> bool) \<Rightarrow> 64 word list \<Rightarrow> 64 word list) \<Rightarrow> Nic list \<Rightarrow> Nic list" where
  "nic_Sort srt nl =
     concat (map (\<lambda>m. case find (\<lambda>n. nic_mac n = umac_Mac m) nl of Some n \<Rightarrow> [n] | None \<Rightarrow> [])
       (MACList_Sort srt (SortableMacs (map nic_mac nl))))"

definition SortedList ::
    "((64 word \<Rightarrow> 64 word \<Rightarrow> bool) \<Rightarrow> 64 word list \<Rightarrow> 64 word list) \<Rightarrow> bytes list \<Rightarrow> net_entry list \<Rightarrow> Nic list outcome" where
  "SortedList srt allowed es =
     (case FilterMACs allowed (nic_List es) of
        Panics \<Rightarrow> Panics
      | Returns nl \<Rightarrow> Returns (nic_Sort srt nl))"

section \<open>Sorting is sorting\<close>

lemma be_nat_append: "be_nat (xs @ [x]) = be_nat xs * 256 + unat x"
  by (simp add: be_nat_def)

lemma be_nat_bound: "be_nat bs < 256 ^ length bs"
proof (induction bs rule: rev_induct)
  case (snoc x xs)
  have "be_nat xs * 256 + unat x < (be_nat xs + 1) * 256"
    by simp
  also have "\<dots> \<le> 256 ^ length xs * 256"
    using snoc by (intro mult_le_mono1) simp
  finally show ?case
    by (simp add: be_nat_append)
qed (simp add: be_nat_def)

lemma unat_to_umac: "length a = 6 \<Longrightarrow> unat (to_umac a) = be_nat a"
proof -
  assume a: "length a = 6"
  then have "be_nat a < 2 ^ 64"
    using be_nat_bound [of a] by simp
  then show ?thesis
    using a by (simp add: to_umac_def unat_of_nat)
qed

lemma umac_Mac_to_umac:
  assumes "length a = 6"
  shows "umac_Mac (to_umac a) = a"
proof -
  obtain a0 a1 a2 a3 a4 a5 where a: "a = [a0, a1, a2, a3, a4, a5]"
    using assms by (auto simp: length_Suc_conv eval_nat_numeral)
  have z: "(256 :: u8) = 0"
    by simp
  have v: "be_nat a = ((((unat a0 * 256 + unat a1) * 256 + unat a2) * 256 + unat a3) * 256 + unat a4) * 256 + unat a5"
    by (simp add: a be_nat_def)
  have step: "(n * 256 + unat x) div 256 = n" "word_of_nat (n * 256 + unat x) = x" for n and x :: u8
    by (simp_all add: z)
  have d: "m div 256 ^ 5 = m div 256 div 256 div 256 div 256 div 256" "m div 256 ^ 4 = m div 256 div 256 div 256 div 256"
    "m div 256 ^ 3 = m div 256 div 256 div 256" "m div 256 ^ 2 = m div 256 div 256" for m :: nat
    by (simp_all flip: div_mult2_eq)
  have "umac_Mac (to_umac a) = map (\<lambda>k. word_of_nat (be_nat a div 256 ^ k)) [5, 4, 3, 2, 1, 0]"
    by (simp add: umac_Mac_def unat_to_umac [OF assms] upt_rec)
  also have "\<dots> = a"
    unfolding v list.map d power_one_right power_0 div_by_1 step by (simp add: a)
  finally show ?thesis .
qed

lemma sort_by_less: "go_sort srt \<Longrightarrow> srt (\<lambda>x y. x < y) xs = sort (xs :: 64 word list)"
proof -
  assume s: "go_sort srt"
  have w: "strict_weak (\<lambda>x y :: 64 word. x < y)"
    by (auto simp: strict_weak_def)
  have "mset (srt (\<lambda>x y. x < y) xs) = mset xs" "sorted (srt (\<lambda>x y. x < y) xs)"
    using go_sort.srt_mset [OF s w, of xs] go_sort.srt_sorted [OF s w, of xs] by (simp_all add: not_less)
  then show ?thesis
    by (metis properties_for_sort)
qed

lemma find_distinct: "distinct (map f xs) \<Longrightarrow> x \<in> set xs \<Longrightarrow> find (\<lambda>y. f y = f x) xs = Some x"
  by (induction xs) auto

lemma sort_key_order:
  fixes f :: "'a \<Rightarrow> 'b::linorder" and g :: "'a \<Rightarrow> 'c::linorder"
  assumes "\<And>x y. x \<in> set xs \<Longrightarrow> y \<in> set xs \<Longrightarrow> (f x \<le> f y) = (g x \<le> g y)"
  shows "sort_key f xs = sort_key g xs"
proof -
  have ins: "insort_key f a as = insort_key g a as" if "a \<in> set xs" "set as \<subseteq> set xs" for a as
    using that(2) by (induction as) (auto simp: assms that(1))
  have "foldr (insort_key f) as [] = foldr (insort_key g) as [] \<and> set (foldr (insort_key g) as []) \<subseteq> set xs"
    if "set as \<subseteq> set xs" for as
    using that by (induction as) (auto simp: ins set_insort_key)
  then show ?thesis
    by (simp add: sort_key_def)
qed

lemma map_sort_key: "map f (sort_key (\<lambda>x. g (f x)) xs) = sort_key g (map f xs)" for g :: "'b \<Rightarrow> 'c::linorder"
proof -
  have "map f (insort_key (\<lambda>x. g (f x)) a as) = insort_key g (f a) (map f as)" for a as
    by (induction as) auto
  then show ?thesis
    by (induction xs) simp_all
qed

definition mac_key :: "Nic \<Rightarrow> nat" where
  "mac_key n = be_nat (nic_mac n)"

text \<open>
  C18: cards with six-byte addresses, no two of which agree, are sorted by address exactly (cards that share
  an address are not, see below): the result
  is the list of the same cards in the order of their addresses as numbers, whichever algorithm
  \<open>sort.Sort\<close> uses.
\<close>

theorem nic_Sort_by_address:
  assumes "go_sort srt" "list_all (\<lambda>n. length (nic_mac n) = 6) nl" "distinct (map nic_mac nl)"
  shows "nic_Sort srt nl = sort_key mac_key nl"
proof -
  let ?k = "\<lambda>n. to_umac (nic_mac n)"
  have key: "(?k m \<le> ?k n) = (mac_key m \<le> mac_key n)" if "m \<in> set nl" "n \<in> set nl" for m n
    using that assms(2) by (simp add: word_le_nat_alt unat_to_umac mac_key_def list_all_iff)
  have "map ?k (sort_key ?k nl) = sort (map ?k nl)"
    using map_sort_key [of ?k "\<lambda>x. x" nl] by simp
  then have "MACList_Sort srt (SortableMacs (map nic_mac nl)) = map ?k (sort_key ?k nl)"
    by (simp add: MACList_Sort_def SortableMacs_def sort_by_less [OF assms(1)] comp_def)
  then have "nic_Sort srt nl =
      concat (map (\<lambda>x. case find (\<lambda>n. nic_mac n = nic_mac x) nl of Some n \<Rightarrow> [n] | None \<Rightarrow> []) (sort_key ?k nl))"
    unfolding nic_Sort_def using assms(2)
    by (auto simp: list_all_iff umac_Mac_to_umac intro!: arg_cong [of _ _ concat])
  also have "\<dots> = concat (map (\<lambda>x. [x]) (sort_key ?k nl))"
    using find_distinct [OF assms(3)] by (intro arg_cong [of _ _ concat] map_cong) simp_all
  also have "\<dots> = sort_key ?k nl"
    by (simp add: concat_map_singleton)
  also have "\<dots> = sort_key mac_key nl"
    using key by (rule sort_key_order)
  finally show ?thesis .
qed

text \<open>Two cards with one address: the first is listed twice, the second is lost.\<close>

definition twin :: "string \<Rightarrow> Nic" where
  "twin dev = \<lparr>nic_device = dev, nic_mac = [0, 0, 0, 0, 0, 1], nic_irqs = []\<rparr>"

lemma nic_Sort_twins: "nic_Sort insertionSort [twin ''eth0'', twin ''eth1''] = [twin ''eth0'', twin ''eth0'']"
proof -
  have "umac_Mac (to_umac [0, 0, 0, 0, 0, 1]) = [0, 0, 0, 0, 0, 1]"
    by (rule umac_Mac_to_umac) simp
  then show ?thesis
    by (simp add: nic_Sort_def MACList_Sort_def SortableMacs_def insertionSort_def twin_def)
qed

definition oui_card :: "string \<Rightarrow> u8 \<Rightarrow> Nic" where
  "oui_card dev x = \<lparr>nic_device = dev, nic_mac = [0x56, 0x78, 0x90, 0, 0, x], nic_irqs = []\<rparr>"

theorem nic_Sort_by_address_witness:
  "nic_Sort insertionSort [oui_card ''eth0'' 3, oui_card ''eth1'' 1, oui_card ''eth2'' 2] =
     [oui_card ''eth1'' 1, oui_card ''eth2'' 2, oui_card ''eth0'' 3]"
proof -
  have "go_sort insertionSort"
    by (rule insertion.go_sort_axioms)
  from nic_Sort_by_address [OF this, of "[oui_card ''eth0'' 3, oui_card ''eth1'' 1, oui_card ''eth2'' 2]"]
  show ?thesis
    by (simp add: oui_card_def mac_key_def be_nat_def)
qed

section \<open>Queues\<close>

record currMax =
  cm_current :: int
  cm_max :: int

datatype chanCfgSection = Sec_unknown | Sec_max | Sec_current

text \<open>\<open>currMax.read\<close>: a number that does not parse is only logged, and its value stored all the same.\<close>

definition currMax_read :: "chanCfgSection \<Rightarrow> string \<Rightarrow> currMax \<Rightarrow> currMax" where
  "currMax_read sec v cm =
     (let val = fst (ParseInt10 v)
      in case sec of
           Sec_max \<Rightarrow> cm\<lparr>cm_max := val\<rparr>
         | Sec_current \<Rightarrow> cm\<lparr>cm_current := val\<rparr>
         | Sec_unknown \<Rightarrow> cm)"

record nicQueueCfg =
  qc_rx :: currMax
  qc_tx :: currMax
  qc_other :: currMax
  qc_combined :: currMax

definition zero_cm :: currMax where "zero_cm = \<lparr>cm_current = 0, cm_max = 0\<rparr>"

definition queue_line :: "string \<Rightarrow> chanCfgSection \<times> nicQueueCfg \<Rightarrow> chanCfgSection \<times> nicQueueCfg" where
  "queue_line raw st =
     (case (split_on CHR '':'' (TrimSpace raw), st) of
        ([a, b], sec, info) \<Rightarrow>
          (let k = TrimSpace a; v = TrimSpace b
           in if k = ''Pre-set maximums'' then (Sec_max, info)
              else if k = ''Current hardware settings'' then (Sec_current, info)
              else if k = ''RX'' then (sec, info\<lparr>qc_rx := currMax_read sec v (qc_rx info)\<rparr>)
              else if k = ''TX'' then (sec, info\<lparr>qc_tx := currMax_read sec v (qc_tx info)\<rparr>)
              else if k = ''Other'' then (sec, info\<lparr>qc_other := currMax_read sec v (qc_other info)\<rparr>)
              else if k = ''Combined'' then (sec, info\<lparr>qc_combined := currMax_read sec v (qc_combined info)\<rparr>)
              else (sec, info))
      | _ \<Rightarrow> st)"

definition parseQueueInfo :: "string \<Rightarrow> nicQueueCfg" where
  "parseQueueInfo out =
     (let info = \<lparr>qc_rx = zero_cm, qc_tx = zero_cm, qc_other = zero_cm, qc_combined = zero_cm\<rparr>
      in if contains out ''Cannot get device channel parameters'' then info
         else snd (fold queue_line (split_on newline out) (Sec_unknown, info)))"

text \<open>\<open>applyMax\<close> and \<open>MaximizeQueues\<close>: the commands that are run after \<open>ethtool -l\<close> answered \<open>out\<close>.\<close>

definition show_int :: "int \<Rightarrow> string" where
  "show_int i = (if i < 0 then ''-'' @ show_dec (nat (- i)) else show_dec (nat i))"

definition applyMax :: "string \<Rightarrow> currMax \<Rightarrow> string \<Rightarrow> string list list" where
  "applyMax device cm i =
     (if cm_current cm \<noteq> cm_max cm then [[''ethtool'', ''--set-channels'', device, i, show_int (cm_max cm)]] else [])"

definition MaximizeQueues :: "string option \<Rightarrow> Nic \<Rightarrow> string list list" where
  "MaximizeQueues out n =
     (case out of
        None \<Rightarrow> []
      | Some o1 \<Rightarrow>
          (let cfg = parseQueueInfo o1
           in applyMax (nic_device n) (qc_rx cfg) ''rx'' @ applyMax (nic_device n) (qc_tx cfg) ''tx''
              @ applyMax (nic_device n) (qc_other cfg) ''other'' @ applyMax (nic_device n) (qc_combined cfg) ''combined''))"

section \<open>Interrupts\<close>

text \<open>\<open>IrqName\<close> on the entries of the directory: the first that is a directory.\<close>

definition IrqName :: "(string \<times> bool) list option \<Rightarrow> string" where
  "IrqName d = (case d of None \<Rightarrow> '''' | Some es \<Rightarrow> (case find snd es of Some e \<Rightarrow> fst e | None \<Rightarrow> ''''))"

definition IsQueueIrq :: "(nat \<Rightarrow> (string \<times> bool) list option) \<Rightarrow> nat \<Rightarrow> bool" where
  "IsQueueIrq dirs i =
     (let n = ascii_lower (IrqName (dirs i)) in contains n ''rx'' \<or> contains n ''tx'')"

fun remove_first_other :: "(nat \<Rightarrow> bool) \<Rightarrow> nat list \<Rightarrow> nat list" where
  "remove_first_other P [] = []"
| "remove_first_other P (i # is) = (if \<not> P i then is else i # remove_first_other P is)"

fun parse_irqs :: "string list \<Rightarrow> (nat list) option" where
  "parse_irqs [] = Some []"
| "parse_irqs (f # fs) =
     (case ParseUint10 64 f of
        None \<Rightarrow> None
      | Some i \<Rightarrow> map_option (\<lambda>is. i # is) (parse_irqs fs))"

text \<open>\<open>FindIRQs\<close> on the names in \<open>msi_irqs\<close>: the count, whether it failed, and the card.\<close>

definition FindIRQs :: "(nat \<Rightarrow> (string \<times> bool) list option) \<Rightarrow> string list option \<Rightarrow> Nic \<Rightarrow> nat \<times> bool \<times> Nic" where
  "FindIRQs dirs msi n =
     (case msi of
        None \<Rightarrow> (0, True, n\<lparr>nic_irqs := []\<rparr>)
      | Some fs \<Rightarrow>
          (case parse_irqs fs of
             None \<Rightarrow> (0, True, n\<lparr>nic_irqs := []\<rparr>)
           | Some is \<Rightarrow>
               (let is1 = (if length is > 1 then remove_first_other (IsQueueIrq dirs) is else is)
                in (length is1, False, n\<lparr>nic_irqs := is1\<rparr>))))"

text \<open>\<open>AssignIRQs\<close>: the pairs of interrupt and processor that are written.\<close>

definition AssignIRQs :: "nat list \<Rightarrow> Nic \<Rightarrow> (nat \<times> nat) list outcome" where
  "AssignIRQs cpus n =
     (if length (nic_irqs n) < length cpus then Panics else Returns (zip (nic_irqs n) cpus))"

text \<open>The part of \<open>RssConfig\<close> behind the calls of \<open>ethtool\<close>.\<close>

definition rss_assign ::
    "(nat \<Rightarrow> (string \<times> bool) list option) \<Rightarrow> string list option \<Rightarrow> (nat \<Rightarrow> nat list) \<Rightarrow> Nic \<Rightarrow> cpu_state
     \<Rightarrow> (nat \<times> nat) list outcome \<times> Nic \<times> cpu_state" where
  "rss_assign dirs msi orders n s =
     (case FindIRQs dirs msi n of
        (num, err, n1) \<Rightarrow>
          (case CreateSetWeighted orders num s of
             (cpus, s1) \<Rightarrow> (AssignIRQs cpus n1, n1, s1)))"

text \<open>It never asks for more processors than there are interrupts.\<close>

lemma rss_assign_ok:
  assumes "cpu_ok s" "\<forall>k. set (orders k) = set (cs_allCpus s)"
  shows "fst (rss_assign dirs msi orders n s) \<noteq> Panics"
proof -
  obtain num err n1 where f: "FindIRQs dirs msi n = (num, err, n1)"
    by (cases "FindIRQs dirs msi n")
  obtain cpus s1 where c: "CreateSetWeighted orders num s = (cpus, s1)"
    by (cases "CreateSetWeighted orders num s")
  have "num \<le> length (nic_irqs n1)"
    using f by (auto simp: FindIRQs_def Let_def split: option.splits)
  moreover have "length cpus \<le> num"
    using CreateSetWeighted_spec [OF assms c] by (simp add: set_size_def min.coboundedI1)
  ultimately show ?thesis
    using f c by (simp add: rss_assign_def AssignIRQs_def)
qed

section \<open>Bans for irqbalance\<close>

definition WriteIRQBalanceBans :: "string \<Rightarrow> nat list \<Rightarrow> string" where
  "WriteIRQBalanceBans arg0 irqs =
     ''# DO NOT EDIT - generated by '' @ arg0 @ [newline] @ ''[Service]'' @ [newline] @ ''Environment='' @ [CHR 0x22]
       @ ''IRQBALANCE_ARGS='' @ concat (map (\<lambda>i. ''-i '' @ show_dec i @ '' '') irqs) @ [CHR 0x22, newline]"

end
