(* ===== verification/NicXps.thy ===== *)
theory NicXps
  imports NicList
begin

text \<open>
  Transmit packet steering (\<open>pkg/hw/nic/xps.go\<close>): each transmit queue of a card gets a mask of
  processors, taken from the mask of those that exist.  The counts are 16-bit words, the masks 64-bit words; the
  order in which Go visits the map of masks is handed in for each round.
\<close>

unbundle bit_operations_syntax

section \<open>Masks\<close>

definition cpu_bit :: "64 word \<Rightarrow> nat \<Rightarrow> bool" where
  "cpu_bit cpuMask i \<longleftrightarrow> (drop_bit i cpuMask) AND 1 = 1"

text \<open>The inner loop for one queue: the index it stops at and the mask.\<close>

function take_cpus :: "64 word \<Rightarrow> u16 \<Rightarrow> nat \<Rightarrow> u16 \<Rightarrow> 64 word \<Rightarrow> nat \<times> 64 word" where
  "take_cpus cpuMask cPerQ i qCount qMask =
     (if \<not> qCount < cPerQ then (i, qMask)
      else
        (let qMask1 = (if cpu_bit cpuMask i then qMask OR push_bit i 1 else qMask);
             qCount1 = (if cpu_bit cpuMask i then qCount + 1 else qCount)
         in if i + 1 \<ge> 64 then (i + 1, qMask1) else take_cpus cpuMask cPerQ (i + 1) qCount1 qMask1))"
  by pat_completeness auto
termination by (relation "measure (\<lambda>(cpuMask, cPerQ, i, qCount, qMask). 64 - i)") auto

declare take_cpus.simps [simp del]

fun queue_masks :: "64 word \<Rightarrow> u16 \<Rightarrow> string list \<Rightarrow> nat \<Rightarrow> (string \<rightharpoonup> 64 word) \<Rightarrow> nat \<times> (string \<rightharpoonup> 64 word)" where
  "queue_masks cpuMask cPerQ [] i qMasks = (i, qMasks)"
| "queue_masks cpuMask cPerQ (q # qs) i qMasks =
     (case take_cpus cpuMask cPerQ i 0 0 of
        (i1, m) \<Rightarrow> queue_masks cpuMask cPerQ qs i1 (qMasks(q \<mapsto> m)))"

text \<open>One round over the map for the remainder.\<close>

fun remainder_round :: "64 word \<Rightarrow> string list \<Rightarrow> nat \<Rightarrow> u16 \<Rightarrow> (string \<rightharpoonup> 64 word) \<Rightarrow> nat \<times> u16 \<times> (string \<rightharpoonup> 64 word)" where
  "remainder_round cpuMask [] i rem qMasks = (i, rem, qMasks)"
| "remainder_round cpuMask (q # qs) i rem qMasks =
     (let m = the (qMasks q);
          m1 = (if cpu_bit cpuMask i then m OR push_bit i 1 else m);
          rem1 = (if cpu_bit cpuMask i then rem - 1 else rem);
          qMasks1 = qMasks(q \<mapsto> m1)
      in if i + 1 \<ge> 64 then (i + 1, rem1, qMasks1) else remainder_round cpuMask qs (i + 1) rem1 qMasks1)"

partial_function (option) remainder_loop ::
    "64 word \<Rightarrow> (nat \<Rightarrow> string list) \<Rightarrow> nat \<Rightarrow> nat \<Rightarrow> u16 \<Rightarrow> (string \<rightharpoonup> 64 word) \<Rightarrow> (string \<rightharpoonup> 64 word) option" where
  "remainder_loop cpuMask orders k i rem qMasks =
     (if \<not> (0 < rem \<and> i < 64) then Some qMasks
      else
        (case remainder_round cpuMask (orders k) i rem qMasks of
           (i1, rem1, qMasks1) \<Rightarrow> remainder_loop cpuMask orders (k + 1) i1 rem1 qMasks1))"

declare remainder_loop.simps [code]

text \<open>Without queues the first division panics.\<close>

definition XpsConfig ::
    "(nat \<Rightarrow> string list) \<Rightarrow> string list \<Rightarrow> 64 word \<Rightarrow> u16 \<Rightarrow> (string \<rightharpoonup> 64 word) outcome option" where
  "XpsConfig orders qnames cpuMask nrCpus =
     (let nrq = word_of_nat (length qnames) :: u16
      in if nrq = 0 then Some Panics
         else
           (let few = (nrCpus div nrq = 0);
                cPerQ = (if few then 1 else nrCpus div nrq);
                cRemaining = (if few then nrCpus - nrq else nrCpus mod nrq)
            in case queue_masks cpuMask cPerQ qnames 0 Map.empty of
                 (i, qMasks) \<Rightarrow> map_option Returns (remainder_loop cpuMask orders 0 i cRemaining qMasks)))"

section \<open>The masks partition the processors\<close>

lemma cpu_bit_bit: "cpu_bit cpuMask i = bit cpuMask i"
  by (simp add: cpu_bit_def one_and_eq and.commute [of _ 1] bit_iff_odd_drop_bit odd_iff_mod_2_eq_one)

text \<open>The processors from \<open>i\<close> on.\<close>

definition cpus_from :: "64 word \<Rightarrow> nat \<Rightarrow> nat set" where
  "cpus_from m i = {j. i \<le> j \<and> bit m j}"

lemma finite_cpus_from [simp]: "finite (cpus_from m i)"
  by (rule finite_subset [of _ "{..<64}"]) (auto simp: cpus_from_def dest: bit_imp_le_length)

lemma cpus_from_64 [simp]: "64 \<le> i \<Longrightarrow> cpus_from m i = {}"
  by (auto simp: cpus_from_def dest: bit_imp_le_length)

lemma cpus_from_step: "cpus_from m i = (if bit m i then insert i (cpus_from m (i + 1)) else cpus_from m (i + 1))"
proof -
  have "i \<le> j \<longleftrightarrow> j = i \<or> i + 1 \<le> j" for j
    by linarith
  then show ?thesis
    by (auto simp: cpus_from_def)
qed

lemma card_cpus_from_step: "card (cpus_from m i) = (if bit m i then 1 else 0) + card (cpus_from m (i + 1))"
proof -
  have "i \<notin> cpus_from m (i + 1)"
    by (simp add: cpus_from_def)
  then show ?thesis
    by (subst cpus_from_step) simp
qed

lemma cpus_diff: "j \<in> cpus_from m i - cpus_from m k \<longleftrightarrow> i \<le> j \<and> j < k \<and> bit m j"
  by (auto simp: cpus_from_def)

text \<open>A queue takes the next processors in order, as many as it wants or all that are left.\<close>

lemma take_cpus_spec:
  assumes "take_cpus cpuMask cPerQ i qCount qMask = (i1, m)" "qCount \<le> cPerQ"
  shows "i \<le> i1 \<and> (\<forall>j. bit m j \<longleftrightarrow> bit qMask j \<or> j \<in> cpus_from cpuMask i - cpus_from cpuMask i1)
    \<and> (64 \<le> i1 \<or> card (cpus_from cpuMask i) = unat (cPerQ - qCount) + card (cpus_from cpuMask i1))"
  using assms
proof (induction cpuMask cPerQ i qCount qMask arbitrary: i1 m rule: take_cpus.induct)
  case (1 cpuMask cPerQ i qCount qMask)
  define b where "b = cpu_bit cpuMask i"
  define qMask1 where "qMask1 = (if b then qMask OR push_bit i 1 else qMask)"
  define qCount1 where "qCount1 = (if b then qCount + 1 else qCount)"
  have m1: "bit qMask1 j \<longleftrightarrow> bit qMask j \<or> j = i \<and> b" for j
    by (auto simp: qMask1_def b_def cpu_bit_bit bit_or_iff bit_exp_iff dest: bit_imp_le_length)
  show ?case
  proof (cases "qCount < cPerQ")
    case False
    then have "qCount = cPerQ" "i1 = i" "m = qMask"
      using "1.prems" by (auto simp: take_cpus.simps [of cpuMask cPerQ i])
    then show ?thesis by simp
  next
    case True
    have step: "take_cpus cpuMask cPerQ i qCount qMask =
        (if i + 1 \<ge> 64 then (i + 1, qMask1) else take_cpus cpuMask cPerQ (i + 1) qCount1 qMask1)"
      using True by (subst take_cpus.simps) (simp add: Let_def qMask1_def qCount1_def b_def)
    show ?thesis
    proof (cases "i + 1 \<ge> 64")
      case True
      then have "i1 = i + 1" "m = qMask1"
        using "1.prems"(1) step by auto
      then show ?thesis
        using True m1 by (auto simp: cpus_from_step [of cpuMask i] b_def cpu_bit_bit)
    next
      case False
      have run: "take_cpus cpuMask cPerQ (i + 1) qCount1 qMask1 = (i1, m)"
        using "1.prems"(1) step False by simp
      have le: "qCount1 \<le> cPerQ"
        using True by (auto simp: qCount1_def intro: inc_le order.strict_implies_order)
      have ih: "i + 1 \<le> i1 \<and> (\<forall>j. bit m j \<longleftrightarrow> bit qMask1 j \<or> j \<in> cpus_from cpuMask (i + 1) - cpus_from cpuMask i1)
          \<and> (64 \<le> i1 \<or> card (cpus_from cpuMask (i + 1)) = unat (cPerQ - qCount1) + card (cpus_from cpuMask i1))"
        using "1.IH" [OF _ refl refl False, folded b_def, folded qMask1_def qCount1_def, OF _ run le] True by blast
      have "unat (cPerQ - qCount) = (if b then 1 else 0) + unat (cPerQ - qCount1)"
      proof (cases b)
        case t: True
        have d: "cPerQ - qCount = 1 + (cPerQ - qCount1)"
          using t by (simp add: qCount1_def)
        moreover have "cPerQ - qCount \<noteq> 0"
          using True by auto
        ultimately have "1 + (cPerQ - qCount1) \<noteq> 0"
          by (simp only: d not_False_eq_True)
        from unatSuc [OF this] show ?thesis
          using t unfolding d by simp
      qed (simp add: qCount1_def)
      note card_step = this
      have bits: "bit m j \<longleftrightarrow> bit qMask j \<or> j \<in> cpus_from cpuMask i - cpus_from cpuMask i1" for j
      proof -
        have "i < i1"
          using ih by linarith
        moreover have "bit m j \<longleftrightarrow> bit qMask1 j \<or> j \<in> cpus_from cpuMask (i + 1) - cpus_from cpuMask i1"
          using ih by blast
        ultimately show ?thesis
          unfolding m1 cpus_diff b_def cpu_bit_bit by (cases "j = i") auto
      qed
      have "64 \<le> i1 \<or> card (cpus_from cpuMask i) = unat (cPerQ - qCount) + card (cpus_from cpuMask i1)"
        using ih card_step card_cpus_from_step [of cpuMask i]
        by (simp only: b_def cpu_bit_bit) linarith
      then show ?thesis
        using bits ih by (intro conjI allI) (linarith, blast, blast)
    qed
  qed
qed

text \<open>The masks of the queues \<open>K\<close> give each processor below \<open>i\<close> to exactly one of them, and hold nothing else.\<close>

definition covers :: "64 word \<Rightarrow> string set \<Rightarrow> nat \<Rightarrow> (string \<rightharpoonup> 64 word) \<Rightarrow> bool" where
  "covers cpuMask K i ms \<longleftrightarrow> dom ms = K
     \<and> (\<forall>q\<in>K. \<forall>j. bit (the (ms q)) j \<longrightarrow> bit cpuMask j \<and> j < i)
     \<and> (\<forall>j<i. bit cpuMask j \<longrightarrow> (\<exists>!q. q \<in> K \<and> bit (the (ms q)) j))"

lemma covers_new:
  assumes "covers cpuMask K i ms" "q \<notin> K" "i \<le> i1"
    "\<And>j. bit m j \<longleftrightarrow> i \<le> j \<and> j < i1 \<and> bit cpuMask j"
  shows "covers cpuMask (insert q K) i1 (ms(q \<mapsto> m))"
  unfolding covers_def
proof (intro conjI ballI allI impI)
  show "dom (ms(q \<mapsto> m)) = insert q K"
    using assms(1) by (simp add: covers_def)
  fix r j
  assume "r \<in> insert q K" "bit (the ((ms(q \<mapsto> m)) r)) j"
  then have "bit cpuMask j \<and> j < i1"
    using assms(1,3,4) unfolding covers_def by (cases "r = q") (auto dest: less_le_trans)
  then show "bit cpuMask j" "j < i1"
    by simp_all
next
  fix j
  assume j: "j < i1" "bit cpuMask j"
  show "\<exists>!r. r \<in> insert q K \<and> bit (the ((ms(q \<mapsto> m)) r)) j"
  proof (cases "j < i")
    case True
    then obtain r where r: "r \<in> K" "bit (the (ms r)) j" "\<And>r'. r' \<in> K \<Longrightarrow> bit (the (ms r')) j \<Longrightarrow> r' = r"
      using assms(1) j(2) unfolding covers_def by metis
    have "\<not> bit m j"
      using True assms(4) by simp
    note old = this
    have "r \<noteq> q"
      using r(1) assms(2) by auto
    show ?thesis
    proof (rule ex1I [of _ r])
      show "r \<in> insert q K \<and> bit (the ((ms(q \<mapsto> m)) r)) j"
        using r(1,2) \<open>r \<noteq> q\<close> by simp
      show "r' = r" if "r' \<in> insert q K \<and> bit (the ((ms(q \<mapsto> m)) r')) j" for r'
        using that r(3) [of r'] old by (cases "r' = q") simp_all
    qed
  next
    case False
    then have "bit m j" "\<And>r. r \<in> K \<Longrightarrow> \<not> bit (the (ms r)) j"
      using assms(1,4) j by (auto simp: covers_def)
    note new = this
    show ?thesis
    proof (rule ex1I [of _ q])
      show "q \<in> insert q K \<and> bit (the ((ms(q \<mapsto> m)) q)) j"
        using new(1) by simp
      show "r = q" if "r \<in> insert q K \<and> bit (the ((ms(q \<mapsto> m)) r)) j" for r
        using that new(2) [of r] by (cases "r = q") simp_all
    qed
  qed
qed

lemma queue_masks_spec:
  "covers cpuMask K i ms \<Longrightarrow> distinct qs \<Longrightarrow> set qs \<inter> K = {} \<Longrightarrow>
   queue_masks cpuMask cPerQ qs i ms = (i1, ms1) \<Longrightarrow>
   i \<le> i1 \<and> covers cpuMask (K \<union> set qs) i1 ms1
     \<and> (64 \<le> i1 \<or> card (cpus_from cpuMask i) = length qs * unat cPerQ + card (cpus_from cpuMask i1))"
proof (induction qs arbitrary: K i ms)
  case (Cons q qs)
  obtain i2 m where t: "take_cpus cpuMask cPerQ i 0 0 = (i2, m)"
    by (cases "take_cpus cpuMask cPerQ i 0 0")
  have zero: "0 \<le> cPerQ"
    by simp
  note sp = take_cpus_spec [OF t zero]
  have "bit m j \<longleftrightarrow> bit (0 :: 64 word) j \<or> j \<in> cpus_from cpuMask i - cpus_from cpuMask i2" for j
    using sp by blast
  then have s: "i \<le> i2" "\<And>j. bit m j \<longleftrightarrow> i \<le> j \<and> j < i2 \<and> bit cpuMask j"
    "64 \<le> i2 \<or> card (cpus_from cpuMask i) = unat cPerQ + card (cpus_from cpuMask i2)"
    using sp unfolding cpus_diff by simp_all
  have c: "covers cpuMask (insert q K) i2 (ms(q \<mapsto> m))"
    using Cons.prems(3) by (intro covers_new [OF Cons.prems(1) _ s(1,2)]) simp
  have run: "queue_masks cpuMask cPerQ qs i2 (ms(q \<mapsto> m)) = (i1, ms1)"
    using Cons.prems(4) t by simp
  have "set qs \<inter> insert q K = {}" "distinct qs"
    using Cons.prems(2,3) by auto
  note ih = Cons.IH [OF c this(2,1) run]
  have "insert q K \<union> set qs = K \<union> set (q # qs)"
    by simp
  then have "covers cpuMask (K \<union> set (q # qs)) i1 ms1" "i \<le> i1"
    using ih s(1) by (metis, linarith)
  moreover have "64 \<le> i1 \<or> card (cpus_from cpuMask i) = length (q # qs) * unat cPerQ + card (cpus_from cpuMask i1)"
    using ih s(3) by (simp only: list.size mult_Suc add_Suc_right add_0_right) linarith
  ultimately show ?case
    by blast
qed simp

lemma covers_step:
  assumes "covers cpuMask K i ms" "q \<in> K"
  shows "covers cpuMask K (i + 1) (ms(q \<mapsto> (if bit cpuMask i then the (ms q) OR push_bit i 1 else the (ms q))))"
proof -
  define ms1 where "ms1 = ms(q \<mapsto> (if bit cpuMask i then the (ms q) OR push_bit i 1 else the (ms q)))"
  have b: "bit (the (ms1 r)) j \<longleftrightarrow> bit (the (ms r)) j \<or> r = q \<and> j = i \<and> bit cpuMask i" for r j
    by (auto simp: ms1_def bit_or_iff bit_exp_iff dest: bit_imp_le_length)
  have old: "\<not> bit (the (ms r)) i" if "r \<in> K" for r
    using assms(1) that by (auto simp: covers_def)
  have "dom ms1 = K"
    using assms by (auto simp: ms1_def covers_def)
  moreover have "bit cpuMask j \<and> j < i + 1" if "r \<in> K" "bit (the (ms1 r)) j" for r j
  proof (cases "bit (the (ms r)) j")
    case True
    then show ?thesis
      using assms(1) that(1) unfolding covers_def by (meson less_SucI Suc_eq_plus1 trans_less_add1)
  next
    case False
    then show ?thesis
      using that(2) b [of r j] by simp
  qed
  moreover have "\<exists>!r. r \<in> K \<and> bit (the (ms1 r)) j" if "j < i + 1" "bit cpuMask j" for j
  proof (cases "j = i")
    case True
    show ?thesis
    proof (rule ex1I [of _ q])
      show "q \<in> K \<and> bit (the (ms1 q)) j"
        using True assms(2) that(2) b by simp
      show "r = q" if "r \<in> K \<and> bit (the (ms1 r)) j" for r
        using that old [of r] b [of r j] True by blast
    qed
  next
    case False
    then have "\<exists>!r. r \<in> K \<and> bit (the (ms r)) j"
      using assms(1) that by (simp add: covers_def)
    then show ?thesis
      using False b by simp
  qed
  ultimately show ?thesis
    unfolding ms1_def [symmetric] covers_def by blast
qed

lemma remainder_round_spec:
  "covers cpuMask K i ms \<Longrightarrow> set qs \<subseteq> K \<Longrightarrow> unat rem = card (cpus_from cpuMask i) \<Longrightarrow>
   remainder_round cpuMask qs i rem ms = (i1, rem1, ms1) \<Longrightarrow>
   i \<le> i1 \<and> (qs \<noteq> [] \<longrightarrow> i < i1) \<and> covers cpuMask K i1 ms1 \<and> unat rem1 = card (cpus_from cpuMask i1)"
proof (induction qs arbitrary: i rem ms)
  case (Cons q qs)
  define ms2 where "ms2 = ms(q \<mapsto> (if bit cpuMask i then the (ms q) OR push_bit i 1 else the (ms q)))"
  define rem2 where "rem2 = (if bit cpuMask i then rem - 1 else rem)"
  have c: "covers cpuMask K (i + 1) ms2"
    unfolding ms2_def using Cons.prems(2) by (intro covers_step [OF Cons.prems(1)]) simp
  have r: "unat rem2 = card (cpus_from cpuMask (i + 1))"
  proof (cases "bit cpuMask i")
    case True
    then have "unat rem = Suc (card (cpus_from cpuMask (i + 1)))"
      using Cons.prems(3) card_cpus_from_step [of cpuMask i] by simp
    moreover from this have "rem \<noteq> 0"
      by auto
    ultimately show ?thesis
      using True by (simp add: rem2_def unat_minus_one)
  next
    case False
    then show ?thesis
      using Cons.prems(3) card_cpus_from_step [of cpuMask i] by (simp add: rem2_def)
  qed
  have step: "(if i + 1 \<ge> 64 then (i + 1, rem2, ms2) else remainder_round cpuMask qs (i + 1) rem2 ms2) = (i1, rem1, ms1)"
    using Cons.prems(4) unfolding remainder_round.simps Let_def cpu_bit_bit ms2_def rem2_def .
  show ?case
  proof (cases "i + 1 \<ge> 64")
    case True
    then show ?thesis
      using step c r by auto
  next
    case False
    then have "remainder_round cpuMask qs (i + 1) rem2 ms2 = (i1, rem1, ms1)" "set qs \<subseteq> K"
      using step Cons.prems(2) by simp_all
    from Cons.IH [OF c this(2) r this(1)] show ?thesis
      by simp
  qed
qed simp

text \<open>All processors are given to exactly one queue each, and no queue gets anything else.\<close>

definition partitions :: "64 word \<Rightarrow> string set \<Rightarrow> (string \<rightharpoonup> 64 word) \<Rightarrow> bool" where
  "partitions cpuMask K ms \<longleftrightarrow> dom ms = K
     \<and> (\<forall>q\<in>K. \<forall>j. bit (the (ms q)) j \<longrightarrow> bit cpuMask j)
     \<and> (\<forall>j. bit cpuMask j \<longrightarrow> (\<exists>!q. q \<in> K \<and> bit (the (ms q)) j))"

lemma covers_all:
  assumes "covers cpuMask K i ms" "cpus_from cpuMask i = {}"
  shows "partitions cpuMask K ms"
proof -
  have "j < i" if "bit cpuMask j" for j
    using assms(2) that by (simp add: cpus_from_def) (meson not_less)
  then show ?thesis
    using assms(1) by (simp add: covers_def partitions_def)
qed

lemma remainder_loop_spec:
  "covers cpuMask K i ms \<Longrightarrow> \<forall>k. orders k \<noteq> [] \<and> set (orders k) \<subseteq> K \<Longrightarrow>
   64 \<le> i \<or> unat rem = card (cpus_from cpuMask i) \<Longrightarrow>
   \<exists>ms1. remainder_loop cpuMask orders k i rem ms = Some ms1 \<and> partitions cpuMask K ms1"
proof (induction "64 - i" arbitrary: k i rem ms rule: less_induct)
  case less
  show ?case
  proof (cases "0 < rem \<and> i < 64")
    case False
    then have "cpus_from cpuMask i = {}"
      using less.prems(3) by (cases "64 \<le> i") (auto simp: word_gt_0)
    then show ?thesis
      using False covers_all [OF less.prems(1)] by (subst remainder_loop.simps) simp
  next
    case True
    obtain i1 rem1 ms1 where r: "remainder_round cpuMask (orders k) i rem ms = (i1, rem1, ms1)"
      by (metis prod_cases3)
    have "unat rem = card (cpus_from cpuMask i)" "set (orders k) \<subseteq> K" "orders k \<noteq> []"
      using less.prems True by auto
    note s = remainder_round_spec [OF less.prems(1) this(2,1) r]
    have "64 - i1 < 64 - i"
      using s \<open>orders k \<noteq> []\<close> True by linarith
    moreover have "covers cpuMask K i1 ms1" "64 \<le> i1 \<or> unat rem1 = card (cpus_from cpuMask i1)"
      using s by simp_all
    ultimately have "\<exists>ms2. remainder_loop cpuMask orders (k + 1) i1 rem1 ms1 = Some ms2 \<and> partitions cpuMask K ms2"
      using less.hyps less.prems(2) by blast
    then show ?thesis
      using True r by (subst remainder_loop.simps) simp
  qed
qed

definition nr_cpus :: "64 word \<Rightarrow> nat" where
  "nr_cpus m = card {j. bit m j}"

lemma nr_cpus_bound: "nr_cpus m \<le> 64"
proof -
  have "{j. bit m j} \<subseteq> {..<64}"
    by (auto dest: bit_imp_le_length)
  then show ?thesis
    using card_mono [of "{..<64 :: nat}"] by (simp add: nr_cpus_def)
qed

text \<open>
  C19: the queue masks of a card partition the processors.  Given the number of processors in the
  mask and at least one queue, \<open>XpsConfig\<close> returns, whatever order Go visits its map in; every processor is
  in the mask of exactly one queue, and no mask has a processor that does not exist - with fewer
  processors than queues, too, where the count of the remaining ones wraps around.
\<close>

theorem XpsConfig_partitions:
  assumes "distinct qnames" "qnames \<noteq> []" "length qnames < 2 ^ 16"
    "\<forall>k. orders k \<noteq> [] \<and> set (orders k) \<subseteq> set qnames"
  shows "\<exists>ms. XpsConfig orders qnames cpuMask (word_of_nat (nr_cpus cpuMask)) = Some (Returns ms)
    \<and> partitions cpuMask (set qnames) ms"
proof -
  let ?n = "length qnames" and ?N = "nr_cpus cpuMask"
  define nrq where "nrq = (word_of_nat ?n :: u16)"
  define nrCpus where "nrCpus = (word_of_nat ?N :: u16)"
  have u: "unat nrq = ?n" "unat nrCpus = ?N"
    using assms(3) nr_cpus_bound [of cpuMask] by (simp_all add: nrq_def nrCpus_def unat_of_nat)
  then have "nrq \<noteq> 0"
    using assms(2) by auto
  define few where "few = (nrCpus div nrq = 0)"
  define cPerQ where "cPerQ = (if few then 1 else nrCpus div nrq)"
  define cRemaining where "cRemaining = (if few then nrCpus - nrq else nrCpus mod nrq)"
  obtain i ms where q: "queue_masks cpuMask cPerQ qnames 0 Map.empty = (i, ms)"
    by (cases "queue_masks cpuMask cPerQ qnames 0 Map.empty")
  have "covers cpuMask {} 0 Map.empty"
    by (simp add: covers_def)
  note s = queue_masks_spec [OF this assms(1) _ q]
  have N: "card (cpus_from cpuMask 0) = ?N"
    by (simp add: cpus_from_def nr_cpus_def)
  have c: "covers cpuMask (set qnames) i ms"
    "64 \<le> i \<or> ?N = ?n * unat cPerQ + card (cpus_from cpuMask i)"
    using s N by auto
  have rem: "64 \<le> i \<or> unat cRemaining = card (cpus_from cpuMask i)"
  proof (cases few)
    case True
    then have "unat (nrCpus div nrq) = 0"
      by (simp add: few_def)
    then have "?N < ?n"
      using assms(2) u by (simp add: unat_div div_eq_0_iff)
    moreover have "unat cPerQ = 1"
      using True by (simp add: cPerQ_def)
    ultimately show ?thesis
      using c(2) by auto
  next
    case False
    then have "unat cPerQ = ?N div ?n" "unat cRemaining = ?N mod ?n"
      using u by (simp_all add: cPerQ_def cRemaining_def unat_div unat_mod)
    then show ?thesis
      using c(2) mult_div_mod_eq [of ?n ?N] by (simp only:) linarith
  qed
  obtain ms1 where "remainder_loop cpuMask orders 0 i cRemaining ms = Some ms1" "partitions cpuMask (set qnames) ms1"
    using remainder_loop_spec [OF c(1) assms(4) rem] by blast
  then show ?thesis
    using \<open>nrq \<noteq> 0\<close> q
    unfolding XpsConfig_def Let_def nrq_def [symmetric] nrCpus_def [symmetric] few_def [symmetric]
      cPerQ_def [symmetric] cRemaining_def [symmetric] by simp
qed

text \<open>Three queues and the processors 0, 1, 2, 4 and 6.\<close>

definition tx_queues :: "string list" where
  "tx_queues = [''tx-0'', ''tx-1'', ''tx-2'']"

theorem XpsConfig_partitions_witness:
  "\<exists>ms. XpsConfig (\<lambda>_. tx_queues) tx_queues 0x57 (word_of_nat (nr_cpus 0x57)) = Some (Returns ms)
    \<and> partitions 0x57 (set tx_queues) ms"
  by (rule XpsConfig_partitions) (simp_all add: tx_queues_def)

lemma XpsConfig_example:
  "map_option (\<lambda>r. case r of Returns ms \<Rightarrow> map ms tx_queues | Panics \<Rightarrow> []) (XpsConfig (\<lambda>_. tx_queues) tx_queues 0x57 5) =
     Some [Some 0x41, Some 0x12, Some 0x04]"
  by code_simp


section \<open>Other settings of a card\<close>

text \<open>\<open>Queues\<close>: the paths of the queues in the directory's entries.\<close>

definition nic_Queues :: "Nic \<Rightarrow> string list option \<Rightarrow> string \<Rightarrow> string list" where
  "nic_Queues n contents prefix =
     (let qpath = path_Join [''/sys/class/net'', nic_device n, ''queues'']
      in case contents of
           None \<Rightarrow> []
         | Some qs \<Rightarrow> map (\<lambda>q. path_Join [qpath, q]) (filter (\<lambda>q. has_prefix q prefix) qs))"

text \<open>\<open>RfsConfig\<close>: what is written to which file; the division panics if there is no queue.\<close>

definition rfsEntries :: nat where "rfsEntries = 131072"

definition RfsConfig :: "Nic \<Rightarrow> string list option \<Rightarrow> (string \<times> string) list outcome" where
  "RfsConfig n contents =
     (let queues = nic_Queues n contents ''rx-''
      in if queues = [] then Panics
         else Returns ((''/proc/sys/net/core/rps_sock_flow_entries'', show_dec rfsEntries @ [newline])
                # map (\<lambda>q. (path_Join [q, ''rps_flow_cnt''], show_dec (rfsEntries div length queues) @ [newline])) queues))"

text \<open>\<open>SetAlias\<close>: what is written, if anything, given the alias there is.\<close>

definition SetAlias :: "Nic \<Rightarrow> string \<Rightarrow> string \<Rightarrow> bool \<Rightarrow> (string \<times> string) option" where
  "SetAlias n current alias overwrite =
     (if \<not> overwrite \<and> current \<noteq> [] then None
      else Some (''/sys/class/net/'' @ nic_device n @ ''/ifalias'', alias))"

text \<open>\<open>Disable\<close>: the count goes up if the interface is gone; the error of looking for it is an input.\<close>

definition nic_Disable :: "stat_result \<Rightarrow> nat \<Rightarrow> bool \<times> nat" where
  "nic_Disable st disabledNicCount = (if st = StatNotExist then (True, disabledNicCount + 1) else (False, disabledNicCount))"

text \<open>\<open>DisableByIndex\<close> on the sorted list: an index beyond the end is refused, a negative one panics.\<close>

definition DisableByIndex :: "int \<Rightarrow> (Nic \<Rightarrow> stat_result) \<Rightarrow> Nic list \<Rightarrow> nat \<Rightarrow> bool outcome \<times> nat" where
  "DisableByIndex i st nics disabledNicCount =
     (if i \<ge> int (length nics) then (Returns False, disabledNicCount)
      else if i < 0 then (Panics, disabledNicCount)
      else (case nic_Disable (st (nics ! nat i)) disabledNicCount of (ok, c) \<Rightarrow> (Returns ok, c)))"

definition NICsAlreadyConfigured :: "string option \<Rightarrow> string \<Rightarrow> bool" where
  "NICsAlreadyConfigured content generated = (case content of None \<Rightarrow> False | Some c \<Rightarrow> contains c generated)"

lemma RfsConfig_no_queues: "RfsConfig n (Some []) = Panics"
  by (simp add: RfsConfig_def nic_Queues_def)

end
