(* ===== verification/Dmi.thy ===== *)
theory Dmi
  imports GoStd
begin

text \<open>
  Reading DMI data (\<open>pkg/hw/dmi\<close>): strings and fields of the tables that \<open>dmidecode\<close> prints, with a
  cache for the strings.  Running \<open>dmidecode\<close> is a parameter: whether it failed, and its output.
\<close>

record dmiCache =
  dc_strings :: "string \<rightharpoonup> string"
  dc_types :: "(int \<rightharpoonup> string) option"
  dc_onlyCache :: bool

definition TestingMock :: "(string \<rightharpoonup> string) \<Rightarrow> (int \<rightharpoonup> string) option \<Rightarrow> dmiCache" where
  "TestingMock s t = \<lparr>dc_strings = s, dc_types = t, dc_onlyCache = True\<rparr>"

definition dmi_Clear :: dmiCache where
  "dmi_Clear = \<lparr>dc_strings = Map.empty, dc_types = Some Map.empty, dc_onlyCache = False\<rparr>"

definition last_newline :: "string \<Rightarrow> nat option" where
  "last_newline s = map_option (\<lambda>i. length s - 1 - i) (index_of [newline] (rev s))"

text \<open>The last line of the output, or the one before if it is an error message.\<close>

definition last_line :: "string \<Rightarrow> nat \<Rightarrow> string" where
  "last_line out e = (case last_newline (take e out) of None \<Rightarrow> take e out | Some n \<Rightarrow> drop (n + 1) (take e out))"

definition dmi_trim :: "string \<Rightarrow> string outcome" where
  "dmi_trim out =
     (if length out \<le> 3 then Returns out
      else
        (case last_newline out of
           None \<Rightarrow> Panics
         | Some e \<Rightarrow>
             if has_prefix (last_line out e) ''Invalid entry''
             then (case last_newline (take e out) of
                     None \<Rightarrow> Panics
                   | Some e1 \<Rightarrow> Returns (last_line out e1))
             else Returns (last_line out e)))"

definition dmi_str :: "(string \<Rightarrow> bool \<times> string) \<Rightarrow> string \<Rightarrow> dmiCache \<Rightarrow> string outcome \<times> dmiCache" where
  "dmi_str run key d =
     (case dc_strings d key of
        Some s \<Rightarrow> (Returns s, d)
      | None \<Rightarrow>
          if dc_onlyCache d then (Returns '''', d)
          else
            (case run key of
               (True, out) \<Rightarrow> (Returns '''', d)
             | (False, out) \<Rightarrow>
                 (case dmi_trim out of
                    Panics \<Rightarrow> (Panics, d)
                  | Returns o1 \<Rightarrow>
                      (let s = TrimSpace o1 in (Returns s, d\<lparr>dc_strings := (dc_strings d)(key \<mapsto> s)\<rparr>)))))"

text \<open>\<open>entries\<close> looks at the cache, but does not fill it.\<close>

definition dmi_entries :: "(int \<Rightarrow> bool \<times> string) \<Rightarrow> int \<Rightarrow> dmiCache \<Rightarrow> string" where
  "dmi_entries run ty d =
     (if dc_onlyCache d \<and> dc_types d = None then ''''
      else
        (case (case dc_types d of None \<Rightarrow> None | Some t \<Rightarrow> t ty) of
           Some out \<Rightarrow> out
         | None \<Rightarrow> if dc_onlyCache d then '''' else (case run ty of (err, out) \<Rightarrow> if err then '''' else out)))"

fun fieldN_loop :: "int \<Rightarrow> string \<Rightarrow> int \<Rightarrow> string list \<Rightarrow> string" where
  "fieldN_loop entry fieldName currentEntry [] = ''''"
| "fieldN_loop entry fieldName currentEntry (line # ls) =
     (if has_prefix line ''Handle 0x'' then fieldN_loop entry fieldName (currentEntry + 1) ls
      else
        (let wsTrim = TrimSpace line; pfxTrim = trim_prefix fieldName wsTrim
         in if pfxTrim \<noteq> wsTrim \<and> currentEntry = entry then TrimSpace pfxTrim
            else fieldN_loop entry fieldName currentEntry ls))"

definition dmi_fieldN :: "(int \<Rightarrow> bool \<times> string) \<Rightarrow> int \<Rightarrow> int \<Rightarrow> string \<Rightarrow> dmiCache \<Rightarrow> string" where
  "dmi_fieldN run ty entry fieldName d = fieldN_loop entry fieldName (- 1) (split_on newline (dmi_entries run ty d))"

definition dmi_field :: "(int \<Rightarrow> bool \<times> string) \<Rightarrow> int \<Rightarrow> string \<Rightarrow> dmiCache \<Rightarrow> string" where
  "dmi_field run ty fieldName d = dmi_fieldN run ty 0 fieldName d"

section \<open>The field of an entry\<close>

text \<open>
  A field is looked for in the entry with the given number only: entries before it are skipped, whatever
  fields they have.
\<close>

definition other_line :: "string \<Rightarrow> bool" where
  "other_line l \<longleftrightarrow> \<not> has_prefix l ''Handle 0x''"

fun field_in :: "string \<Rightarrow> string list \<Rightarrow> string" where
  "field_in fieldName [] = []"
| "field_in fieldName (l # ls) =
     (if trim_prefix fieldName (TrimSpace l) \<noteq> TrimSpace l then TrimSpace (trim_prefix fieldName (TrimSpace l))
      else field_in fieldName ls)"

lemma fieldN_skip:
  "list_all other_line body \<Longrightarrow> currentEntry \<noteq> entry \<Longrightarrow>
   fieldN_loop entry fieldName currentEntry (body @ ls) = fieldN_loop entry fieldName currentEntry ls"
  by (induction body) (auto simp: other_line_def Let_def)

definition dmi_block :: "string \<times> string list \<Rightarrow> bool" where
  "dmi_block b \<longleftrightarrow> has_prefix (fst b) ''Handle 0x'' \<and> list_all other_line (snd b)"

definition block_lines :: "(string \<times> string list) list \<Rightarrow> string list" where
  "block_lines bs = concat (map (\<lambda>b. fst b # snd b) bs)"

lemma fieldN_past:
  "list_all dmi_block bs \<Longrightarrow> entry \<le> currentEntry \<Longrightarrow>
   fieldN_loop entry fieldName currentEntry (block_lines bs) = []"
  by (induction bs arbitrary: currentEntry) (auto simp: block_lines_def dmi_block_def fieldN_skip)

lemma fieldN_here:
  "list_all other_line body \<Longrightarrow> fieldN_loop entry fieldName entry ls = [] \<Longrightarrow>
   fieldN_loop entry fieldName entry (body @ ls) = field_in fieldName body"
  by (induction body) (auto simp: other_line_def Let_def)

text \<open>The field is that of the block with the number asked for, whatever the other blocks hold.\<close>

lemma fieldN_block:
  "list_all dmi_block bs \<Longrightarrow> currentEntry < entry \<Longrightarrow>
   fieldN_loop entry fieldName currentEntry (block_lines bs) =
     (if nat (entry - currentEntry - 1) < length bs
      then field_in fieldName (snd (bs ! nat (entry - currentEntry - 1))) else [])"
proof (induction bs arbitrary: currentEntry)
  case (Cons b bs)
  have b: "dmi_block b" "list_all dmi_block bs" "list_all other_line (snd b)" "has_prefix (fst b) ''Handle 0x''"
    using Cons.prems(1) by (simp_all, simp_all add: dmi_block_def)
  have step: "fieldN_loop entry fieldName currentEntry (block_lines (b # bs)) =
      fieldN_loop entry fieldName (currentEntry + 1) (snd b @ block_lines bs)"
    using b(4) by (simp add: block_lines_def)
  show ?case
  proof (cases "entry = currentEntry + 1")
    case True
    then show ?thesis
      using step fieldN_here [OF b(3) fieldN_past [OF b(2) order_refl]] by simp
  next
    case False
    then have "currentEntry + 1 < entry" "currentEntry + 1 \<noteq> entry"
      using Cons.prems(2) by simp_all
    moreover have "nat (entry - currentEntry - 1) = Suc (nat (entry - (currentEntry + 1) - 1))"
      using calculation(1) by linarith
    ultimately show ?thesis
      using step fieldN_skip [OF b(3)] Cons.IH [OF b(2)] by simp
  qed
qed (simp add: block_lines_def)

text \<open>A line of output without a newline makes \<open>String\<close> panic.\<close>

lemma dmi_trim_no_newline: "dmi_trim ''Invalid'' = Panics"
  by (simp add: dmi_trim_def last_newline_def newline_def has_prefix_def)


section \<open>What DMI answers\<close>

text \<open>\<open>answers runs d val\<close>: no question panics, and these are the answers - before and after any other question.\<close>

definition answers :: "(string \<Rightarrow> bool \<times> string) \<Rightarrow> dmiCache \<Rightarrow> (string \<Rightarrow> string) \<Rightarrow> bool" where
  "answers runs d val \<longleftrightarrow> (\<forall>k. fst (dmi_str runs k d) = Returns (val k))"

definition same_tables :: "dmiCache \<Rightarrow> dmiCache \<Rightarrow> bool" where
  "same_tables d d1 \<longleftrightarrow> dc_types d1 = dc_types d \<and> dc_onlyCache d1 = dc_onlyCache d"

lemma dmi_str_after:
  "snd (dmi_str runs k d) = d \<or>
   (\<exists>s. fst (dmi_str runs k d) = Returns s \<and> snd (dmi_str runs k d) = d\<lparr>dc_strings := (dc_strings d)(k \<mapsto> s)\<rparr>)"
  by (cases "runs k"; cases "dmi_trim (snd (runs k))") (auto simp: dmi_str_def Let_def split: option.split bool.split)

lemma dmi_str_other:
  "fst (dmi_str runs k (d\<lparr>dc_strings := (dc_strings d)(k1 \<mapsto> s)\<rparr>)) = (if k = k1 then Returns s else fst (dmi_str runs k d))"
  by (cases "runs k"; cases "dmi_trim (snd (runs k))") (auto simp: dmi_str_def Let_def split: option.split bool.split)

lemma dmi_str_stable: "fst (dmi_str runs k (snd (dmi_str runs k1 d))) = fst (dmi_str runs k d)"
  using dmi_str_after [of runs k1 d] by (auto simp: dmi_str_other)

lemma answers_after: "answers runs d val \<Longrightarrow> answers runs (snd (dmi_str runs k d)) val"
  by (simp add: answers_def dmi_str_stable)

lemma same_tables_after: "same_tables d (snd (dmi_str runs k d))"
  using dmi_str_after [of runs k d] by (auto simp: same_tables_def)

lemma dmi_field_same: "same_tables d d1 \<Longrightarrow> dmi_field runt ty f d1 = dmi_field runt ty f d"
  by (simp add: same_tables_def dmi_field_def dmi_fieldN_def dmi_entries_def)

lemma same_tables_refl [simp]: "same_tables d d"
  by (simp add: same_tables_def)

lemma same_tables_trans: "same_tables d d1 \<Longrightarrow> same_tables d1 d2 \<Longrightarrow> same_tables d d2"
  by (simp add: same_tables_def)

end
