(* ===== verification/Block.thy ===== *)
theory Block
  imports GoStd "HOL-Library.Word"
begin

text \<open>
  Block devices (\<open>pkg/hw/block/block.go\<close>): the list of devices that /sys shows, filters on it, and the
  comparison of sizes.  Files are a function from paths to the outcome of reading them.
\<close>

datatype fread = NoFile | ReadError | Content string

type_synonym u64 = "64 word"

section \<open>Block devices\<close>

record BlockDev =
  bk_Name :: string
  bk_Size :: u64
  bk_Model :: string
  bk_Vendor :: string

text \<open>\<open>Devices\<close>: a device is listed when its size, model and vendor can be read.\<close>

definition ReadSys :: "(string \<Rightarrow> fread) \<Rightarrow> string \<Rightarrow> string \<Rightarrow> string option" where
  "ReadSys files attr dev =
     (case files (path_Join [''/sys/block'', dev, ''device'', attr]) of
        Content c \<Rightarrow> Some (TrimSpace c)
      | _ \<Rightarrow> None)"

definition ReadModel :: "(string \<Rightarrow> fread) \<Rightarrow> string \<Rightarrow> string option" where
  "ReadModel files dev = ReadSys files ''model'' dev"

definition ReadVendor :: "(string \<Rightarrow> fread) \<Rightarrow> string \<Rightarrow> string option" where
  "ReadVendor files dev = ReadSys files ''vendor'' dev"

text \<open>\<open>devices\<close>: the entries of a directory with their links, without virtual devices.\<close>

definition sys_devices :: "(string \<times> string option) list \<Rightarrow> (string \<Rightarrow> bool) option \<Rightarrow> string list" where
  "sys_devices entries keep =
     map (\<lambda>e. ''/dev/'' @ fst e)
       (filter (\<lambda>e. case snd e of
                      None \<Rightarrow> False
                    | Some link \<Rightarrow> \<not> contains link ''devices/virtual/block''
                        \<and> (case keep of None \<Rightarrow> True | Some f \<Rightarrow> f link)) entries)"

definition DFiltOnlyUsb :: "string \<Rightarrow> bool" where
  "DFiltOnlyUsb relpath \<longleftrightarrow> contains relpath ''usb''"

definition DFiltOnlyParts :: "(string \<Rightarrow> bool) \<Rightarrow> string \<Rightarrow> string \<Rightarrow> bool" where
  "DFiltOnlyParts stat_ok dir relpath \<longleftrightarrow> stat_ok (path_Join [dir, relpath, ''partition''])"

definition DFiltOnlyUsbParts :: "(string \<Rightarrow> bool) \<Rightarrow> string \<Rightarrow> string \<Rightarrow> bool" where
  "DFiltOnlyUsbParts stat_ok dir relpath \<longleftrightarrow> DFiltOnlyUsb relpath \<and> DFiltOnlyParts stat_ok dir relpath"

definition AllBlockDevs :: "(string \<times> string option) list \<Rightarrow> string list" where
  "AllBlockDevs entries = sys_devices entries None"

definition FilterBlockDevs :: "(string \<times> string option) list \<Rightarrow> (string \<Rightarrow> bool) \<Rightarrow> string list" where
  "FilterBlockDevs entries keep = sys_devices entries (Some keep)"

fun Devices_from :: "(string \<Rightarrow> u64 option) \<Rightarrow> (string \<Rightarrow> fread) \<Rightarrow> string list \<Rightarrow> BlockDev list" where
  "Devices_from sizes files [] = []"
| "Devices_from sizes files (n # ns) =
     (case sizes n of
        None \<Rightarrow> Devices_from sizes files ns
      | Some s \<Rightarrow>
          (case ReadModel files (path_Base n) of
             None \<Rightarrow> Devices_from sizes files ns
           | Some m \<Rightarrow>
               (case ReadVendor files (path_Base n) of
                  None \<Rightarrow> Devices_from sizes files ns
                | Some v \<Rightarrow> \<lparr>bk_Name = n, bk_Size = s, bk_Model = m, bk_Vendor = v\<rparr> # Devices_from sizes files ns)))"

definition block_Devices ::
  "(string \<Rightarrow> u64 option) \<Rightarrow> (string \<Rightarrow> fread) \<Rightarrow> (string \<times> string option) list \<Rightarrow> BlockDev list" where
  "block_Devices sizes files entries = Devices_from sizes files (sys_devices entries None)"

definition PartNum :: "(string \<Rightarrow> fread) \<Rightarrow> string \<Rightarrow> string" where
  "PartNum files dev =
     (case files (path_Join [''/sys/class/block'', dev, ''partition'']) of Content c \<Rightarrow> TrimSpace c | _ \<Rightarrow> [])"

definition PartParent :: "(string \<Rightarrow> string) \<Rightarrow> string \<Rightarrow> string" where
  "PartParent readlink dev =
     (let s = readlink (path_Join [''/sys/class/block'', dev]); p = path_Dir s
      in if s = [] then [] else if length p < 2 then [] else path_Base p)"

text \<open>\<open>SizeToleranceMatch\<close>, at 64 bits: difference, product and sign change wrap.\<close>

definition abs_word :: "u64 \<Rightarrow> u64" where
  "abs_word v = (if v <s 0 then - v else v)"

definition SizeToleranceMatch :: "u64 \<Rightarrow> u64 \<Rightarrow> u64 \<Rightarrow> bool" where
  "SizeToleranceMatch have1 want tol \<longleftrightarrow> abs_word (want - have1) \<le> (want * tol) div 100"

lemma abs_word_diff:
  fixes a b :: u64
  assumes "uint a < 2 ^ 63" "uint b < 2 ^ 63"
  shows "uint (abs_word (a - b)) = \<bar>uint a - uint b\<bar>"
proof -
  have z: "0 \<le> uint a" "0 \<le> uint b"
    by simp_all
  have d: "a - b = word_of_int (uint a - uint b)"
    by simp
  have "- (2 ^ 63) \<le> uint a - uint b" "uint a - uint b < 2 ^ 63"
    using assms z by linarith+
  then have "signed_take_bit 63 (uint a - uint b) = uint a - uint b"
    by (rule signed_take_bit_int_eq_self)
  then have s: "sint (a - b) = uint a - uint b"
    unfolding d sint_sbintrunc' by simp
  show ?thesis
  proof (cases "uint a < uint b")
    case True
    have "uint b - uint a < 2 ^ 63"
      using assms z by linarith
    then have "0 \<le> uint b - uint a" "uint b - uint a < 2 ^ LENGTH(64)"
      using True by simp_all
    then have "uint (b - a) = uint b - uint a"
      by (intro word_of_int_inverse) simp_all
    then show ?thesis
      using True s unfolding abs_word_def word_sless_alt by simp
  next
    case False
    have "uint a - uint b < 2 ^ 63"
      using assms z by linarith
    then have "0 \<le> uint a - uint b" "uint a - uint b < 2 ^ LENGTH(64)"
      using False by simp_all
    then have "uint (a - b) = uint a - uint b"
      by (intro word_of_int_inverse) simp_all
    then show ?thesis
      using False s unfolding abs_word_def word_sless_alt by simp
  qed
qed

text \<open>Without wrap-around a size matches if it differs by at most the tolerated percentage.\<close>

lemma SizeToleranceMatch_exact:
  assumes "uint have1 < 2 ^ 63" "uint want < 2 ^ 63" "uint want * uint tol < 2 ^ 64"
  shows "SizeToleranceMatch have1 want tol \<longleftrightarrow> 100 * \<bar>uint want - uint have1\<bar> \<le> uint want * uint tol"
proof -
  have "uint (want * tol) = uint want * uint tol"
    by (rule word_of_int_inverse) (use assms(3) in simp_all)
  then have "uint (want * tol div 100) = uint want * uint tol div 100"
    by (simp add: uint_div)
  moreover have "x \<le> p div 100 \<longleftrightarrow> 100 * x \<le> p" for x p :: int
    using div_mult_mod_eq [of p 100] pos_mod_bound [of 100 p] pos_mod_sign [of 100 p] by linarith
  ultimately show ?thesis
    unfolding SizeToleranceMatch_def word_le_def abs_word_diff [OF assms(2,1)] by (simp only:)
qed



section \<open>File systems\<close>

datatype FsType = FsUnknown | FsExt4 | FsNtfs | FsFat | FsExfat

definition FsFromStr :: "string \<Rightarrow> FsType" where
  "FsFromStr s =
     (let l = ascii_lower s
      in if l \<in> {''ext2'', ''ext3'', ''ext4''} then FsExt4
         else if l \<in> {''ntfs'', ''ntfs-3g''} then FsNtfs
         else if l \<in> {''fat'', ''vfat''} then FsFat
         else if l = ''exfat'' then FsExfat else FsUnknown)"

fun FsType_String :: "FsType \<Rightarrow> string" where
  "FsType_String FsUnknown = ''unknown''"
| "FsType_String FsExt4 = ''ext4''"
| "FsType_String FsNtfs = ''ntfs''"
| "FsType_String FsFat = ''vfat''"
| "FsType_String FsExfat = ''exfat''"

definition Recognized :: "FsType \<Rightarrow> bool" where
  "Recognized f \<longleftrightarrow> f = FsExt4 \<or> f = FsNtfs \<or> f = FsFat \<or> f = FsExfat"

record BlkInfo =
  bi_FsType :: FsType
  bi_UUID :: string
  bi_Partition :: bool
  bi_PartUUID :: string
  bi_Label :: string
  bi_Usage :: string
  bi_Device :: string

definition no_info :: BlkInfo where
  "no_info = \<lparr>bi_FsType = FsUnknown, bi_UUID = [], bi_Partition = False, bi_PartUUID = [], bi_Label = [], bi_Usage = [], bi_Device = []\<rparr>"

definition blkid_pair :: "string \<Rightarrow> BlkInfo \<Rightarrow> BlkInfo" where
  "blkid_pair e b =
     (case split_on CHR ''='' e of
        [k, v] \<Rightarrow>
          (let l = ascii_lower k
           in if l = ''uuid'' then b\<lparr>bi_UUID := v\<rparr>
              else if l = ''type'' then b\<lparr>bi_FsType := FsFromStr v\<rparr>
              else if l = ''label'' then b\<lparr>bi_Label := v\<rparr>
              else if l = ''partuuid'' then b\<lparr>bi_Partition := True, bi_PartUUID := v\<rparr>
              else if l = ''usage'' then b\<lparr>bi_Usage := v\<rparr> else b)
      | _ \<Rightarrow> b)"

text \<open>\<open>parseBlkidOut\<close>: the value, which is also there with an error, and the error flag.  Splitting into words as a
  shell does is a parameter.\<close>

definition parseBlkidOut :: "(string \<Rightarrow> string list option) \<Rightarrow> string \<Rightarrow> BlkInfo \<times> bool" where
  "parseBlkidOut shlex out =
     (case split_on CHR '':'' out of
        [dev, rest] \<Rightarrow>
          (case shlex rest of
             None \<Rightarrow> (no_info, True)
           | Some es \<Rightarrow>
               (let b = fold blkid_pair es no_info
                in (if Recognized (bi_FsType b)
                    then b\<lparr>bi_Partition := True, bi_Usage := (if bi_Usage b = [] then ''filesystem'' else bi_Usage b)\<rparr> else b,
                    False)))
      | _ \<Rightarrow> (no_info, True))"

definition GetInfo :: "(string \<Rightarrow> string list option) \<Rightarrow> (string \<Rightarrow> string option) \<Rightarrow> string \<Rightarrow> BlkInfo \<times> bool" where
  "GetInfo shlex blkid device =
     (case blkid device of
        None \<Rightarrow> (no_info, True)
      | Some out \<Rightarrow> (case parseBlkidOut shlex out of (b, err) \<Rightarrow> (b\<lparr>bi_Device := device\<rparr>, err)))"

definition DetermineFSType :: "(string \<Rightarrow> string list option) \<Rightarrow> (string \<Rightarrow> string option) \<Rightarrow> string \<Rightarrow> FsType" where
  "DetermineFSType shlex blkid device = bi_FsType (fst (GetInfo shlex blkid device))"

definition BFiltNotRecovery :: "Stringer option \<Rightarrow> BlkInfo \<Rightarrow> bool" where
  "BFiltNotRecovery impl b \<longleftrightarrow> bi_Label b \<noteq> st_RecVolName (strs_of impl)"

definition GetFilesystems ::
    "(string \<Rightarrow> string list option) \<Rightarrow> (string \<Rightarrow> string option) \<Rightarrow> (BlkInfo \<Rightarrow> bool) option \<Rightarrow> string list \<Rightarrow> BlkInfo list" where
  "GetFilesystems shlex blkid blkfilter devs =
     map (\<lambda>d. fst (GetInfo shlex blkid d))
       (filter (\<lambda>d. case GetInfo shlex blkid d of (b, err) \<Rightarrow>
                      \<not> err \<and> (case blkfilter of None \<Rightarrow> True | Some f \<Rightarrow> f b)) devs)"

lemma FsType_reads_back: "FsFromStr (FsType_String f) = f"
  by (cases f) (simp_all add: FsFromStr_def ascii_lower_def)

text \<open>A label with a colon makes the whole output unreadable.\<close>

lemma label_with_colon: "parseBlkidOut shlex (''/dev/sda1: LABEL=\"a:b\" TYPE=\"ext4\"'') = (no_info, True)"
  by (simp add: parseBlkidOut_def)

end
