(* ===== verification/QaDevices.thy ===== *)
theory QaDevices
  imports Dmi Block
begin

text \<open>
  The devices on the buses of a unit (\<open>pkg/mfg/qa/devices.go\<close>): reading them from /sys, and comparing them with
  the devices its specification requires.  Files are a function from paths to the outcome of reading
  them.
\<close>

section \<open>Devices\<close>

record BusDevice =
  bd_HumanDescription :: string
  bd_Vendor :: u64
  bd_Device :: u64
  bd_Class :: u64
  bd_Quantity :: u64
  bd_dev :: string

definition PCIClassCodes :: "(u64 \<times> string) list" where
  "PCIClassCodes =
     [(0x0100, ''SCSI controller''), (0x0104, ''RAID controller''), (0x0106, ''SATA controller''),
      (0x0107, ''SAS controller''), (0x0200, ''Ethernet Controller''), (0x0300, ''VGA Controller''),
      (0x0403, ''Audio Device''), (0x0600, ''Host Bridge''), (0x0601, ''ISA Bridge''), (0x0604, ''PCI Bridge''),
      (0x0780, ''Communication controller''), (0x0800, ''PIC''), (0x0880, ''System peripheral''),
      (0x0c03, ''USB Controller''), (0x0c05, ''SMBus''), (0x1101, ''Performance counters''),
      (0x1180, ''Signal processing controller''), (0xff00, ''Unassigned class'')]"

definition ClassCode :: "BusDevice \<Rightarrow> BusDevice" where
  "ClassCode b =
     (case map_of PCIClassCodes (bd_Class b) of
        Some desc \<Rightarrow> b\<lparr>bd_HumanDescription := desc\<rparr>
      | None \<Rightarrow> b\<lparr>bd_HumanDescription := ''unknown device class''\<rparr>)"

text \<open>\<open>ReadUdevStrings\<close>: class, subclass, vendor and model of the lines that can be scanned.\<close>

record udev_strings =
  ud_class :: string
  ud_subclass :: string
  ud_vendor :: string
  ud_model :: string

definition split_eq :: "string \<Rightarrow> (string \<times> string) option" where
  "split_eq s =
     (case index_of ''='' s of
        None \<Rightarrow> None
      | Some i \<Rightarrow> Some (take i s, drop (i + 1) s))"

definition udev_line :: "string \<Rightarrow> udev_strings \<Rightarrow> udev_strings" where
  "udev_line l u =
     (case split_eq (TrimSpace l) of
        None \<Rightarrow> u
      | Some (k, v) \<Rightarrow>
          if k = ''E:ID_PCI_CLASS_FROM_DATABASE'' \<or> k = ''E:ID_USB_CLASS_FROM_DATABASE'' then u\<lparr>ud_class := v\<rparr>
          else if k = ''E:ID_PCI_SUBCLASS_FROM_DATABASE'' then u\<lparr>ud_subclass := v\<rparr>
          else if k = ''E:ID_VENDOR_FROM_DATABASE'' then u\<lparr>ud_vendor := v\<rparr>
          else if k = ''E:ID_MODEL_FROM_DATABASE'' then u\<lparr>ud_model := v\<rparr>
          else u)"

text \<open>The lines a scanner yields before one that is too long.\<close>

definition scanned :: "string \<Rightarrow> string list" where
  "scanned buf =
     (let ls = split_on newline buf; ls1 = (if last ls = [] then butlast ls else ls)
      in map drop_cr (takeWhile (\<lambda>l. length l < 65536) ls1))"

definition ReadUdevStrings :: "(string \<Rightarrow> fread) \<Rightarrow> BusDevice \<Rightarrow> udev_strings" where
  "ReadUdevStrings files b =
     (let dtype = (if contains (bd_dev b) ''usb'' then ''usb'' else ''pci'');
          none = \<lparr>ud_class = [], ud_subclass = [], ud_vendor = [], ud_model = []\<rparr>
      in case files (''/run/udev/data/+'' @ dtype @ '':'' @ path_Base (bd_dev b)) of
           Content c \<Rightarrow> fold udev_line (scanned c) none
         | _ \<Rightarrow> none)"

definition content_of :: "fread \<Rightarrow> string" where
  "content_of f = (case f of Content c \<Rightarrow> c | _ \<Rightarrow> [])"

definition SetDescription :: "(string \<Rightarrow> fread) \<Rightarrow> BusDevice \<Rightarrow> BusDevice" where
  "SetDescription files b =
     (let u = ReadUdevStrings files b
      in if ud_model u \<noteq> [] then b\<lparr>bd_HumanDescription := ud_model u\<rparr>
         else if ud_subclass u \<noteq> [] then b\<lparr>bd_HumanDescription := ud_subclass u\<rparr>
         else if ud_class u \<noteq> [] then b\<lparr>bd_HumanDescription := ud_class u\<rparr>
         else if has_prefix (bd_dev b) ''/sys/bus/usb/''
         then
           (let m = content_of (files (path_Join [bd_dev b, ''manufacturer'']));
                p = content_of (files (path_Join [bd_dev b, ''product'']));
                d0 = (if m \<noteq> [] then TrimSpace m @ '' '' else bd_HumanDescription b);
                d1 = (if p \<noteq> [] then d0 @ TrimSpace p else d0)
            in b\<lparr>bd_HumanDescription := (if d1 = [] then ''unknown usb device'' else d1)\<rparr>)
         else ClassCode b)"

section \<open>Reading\<close>

text \<open>After the prefix of a literal, single underscores may stand before digits (\<open>ParseUint(s, 0, 64)\<close>).\<close>

definition underscores_ok :: "string \<Rightarrow> bool" where
  "underscores_ok s \<longleftrightarrow> \<not> contains s ''__'' \<and> (s = [] \<or> last s \<noteq> CHR ''_'')"

definition ParseUint0x_64 :: "string \<Rightarrow> u64 option" where
  "ParseUint0x_64 s = (if underscores_ok s then map_option word_of_nat (ParseUint16 64 (filter (\<lambda>c. c \<noteq> CHR ''_'') s)) else None)"

text \<open>\<open>fatoi\<close>: always hexadecimal, with or without the prefix.\<close>

datatype 'a readres = Absent | Failed | Value 'a

definition fatoi :: "fread \<Rightarrow> u64 readres" where
  "fatoi f =
     (case f of
        NoFile \<Rightarrow> Absent
      | ReadError \<Rightarrow> Failed
      | Content c \<Rightarrow>
          (let s = TrimSpace c
           in case (if has_prefix s ''0x'' then ParseUint0x_64 (drop 2 s) else map_option word_of_nat (ParseUint16 64 s)) of
                None \<Rightarrow> Failed
              | Some v \<Rightarrow> Value v))"

text \<open>\<open>readDev\<close>; \<open>Absent\<close> stands for \<open>errSkipThisDevice\<close>.\<close>

definition fail_absent :: "'a readres \<Rightarrow> 'a readres" where
  "fail_absent r = (if r = Absent then Failed else r)"

definition readDev :: "(string \<Rightarrow> fread) \<Rightarrow> string \<Rightarrow> (u64 \<times> u64 \<times> u64) readres" where
  "readDev files path =
     (let usb = has_prefix path ''/sys/bus/usb/'';
          vendor = fatoi (files (path @ (if usb then ''/idVendor'' else ''/vendor'')))
      in case (if usb then vendor else fail_absent vendor) of
           Absent \<Rightarrow> Absent
         | Failed \<Rightarrow> Failed
         | Value v \<Rightarrow>
             (case fail_absent (fatoi (files (path @ (if usb then ''/idProduct'' else ''/device'')))) of
                Value d \<Rightarrow>
                  (case fail_absent (fatoi (files (path @ (if usb then ''/bDeviceClass'' else ''/class'')))) of
                     Value c \<Rightarrow> Value (v, d, if usb then c else drop_bit 8 c)
                   | _ \<Rightarrow> Failed)
              | _ \<Rightarrow> Failed))"

definition bd_triple :: "BusDevice \<Rightarrow> u64 \<times> u64 \<times> u64" where
  "bd_triple d = (bd_Vendor d, bd_Device d, bd_Class d)"

text \<open>One more device of a kind in the list: the flag says whether there was one.\<close>

fun add_one :: "u64 \<times> u64 \<times> u64 \<Rightarrow> BusDevice list \<Rightarrow> bool \<times> BusDevice list" where
  "add_one k [] = (False, [])"
| "add_one k (d # ds) =
     (if bd_triple d = k then (True, d\<lparr>bd_Quantity := bd_Quantity d + 1\<rparr> # ds)
      else (case add_one k ds of (b, ds1) \<Rightarrow> (b, d # ds1)))"

definition bd_step :: "(string \<Rightarrow> fread) \<Rightarrow> string \<Rightarrow> BusDevice list \<Rightarrow> BusDevice list" where
  "bd_step files dev l =
     (case readDev files dev of
        Absent \<Rightarrow> l
      | Failed \<Rightarrow> l
      | Value (v, d, c) \<Rightarrow>
          (case add_one (v, d, c) l of
             (True, l1) \<Rightarrow> l1
           | (False, l1) \<Rightarrow>
               l1 @ [SetDescription files
                       \<lparr>bd_HumanDescription = [], bd_Vendor = v, bd_Device = d, bd_Class = c, bd_Quantity = 1, bd_dev = dev\<rparr>]))"

definition listDevs :: "string \<Rightarrow> string list option \<Rightarrow> string list option" where
  "listDevs t entries = map_option (map (\<lambda>e. path_Join [t, e])) entries"

text \<open>\<open>bdpopulate\<close>: a directory that cannot be read leaves the list.\<close>

definition bdpopulate :: "(string \<Rightarrow> fread) \<Rightarrow> string \<Rightarrow> string list option \<Rightarrow> BusDevice list \<Rightarrow> BusDevice list" where
  "bdpopulate files src entries l =
     (case listDevs src entries of None \<Rightarrow> l | Some devs \<Rightarrow> fold (bd_step files) devs l)"

definition pcidevs :: string where "pcidevs = ''/sys/bus/pci/devices''"
definition usbdevs :: string where "usbdevs = ''/sys/bus/usb/devices''"

section \<open>Comparing\<close>

fun bdcompare_one :: "BusDevice \<Rightarrow> BusDevice list \<Rightarrow> nat" where
  "bdcompare_one r [] = (if bd_Quantity r \<noteq> 0 then 1 else 0)"
| "bdcompare_one r (d # ds) =
     (if bd_triple d = bd_triple r then (if bd_Quantity d \<noteq> bd_Quantity r then 1 else 0) else bdcompare_one r ds)"

definition bdcompare :: "BusDevice list \<Rightarrow> BusDevice list \<Rightarrow> nat" where
  "bdcompare required detected = sum_list (map (\<lambda>r. bdcompare_one r detected) required)"

definition PciDevices_Compare :: "BusDevice list \<Rightarrow> BusDevice list \<Rightarrow> nat" where
  "PciDevices_Compare required detected = bdcompare required detected"

definition UsbDevices_Compare :: "BusDevice list \<Rightarrow> BusDevice list \<Rightarrow> nat" where
  "UsbDevices_Compare required detected = bdcompare required detected"

section \<open>Counting devices\<close>

text \<open>The kinds of the devices that could be read, one for each device.\<close>

definition kinds :: "(string \<Rightarrow> fread) \<Rightarrow> string list \<Rightarrow> (u64 \<times> u64 \<times> u64) list" where
  "kinds files devs = concat (map (\<lambda>dev. case readDev files dev of Value k \<Rightarrow> [k] | _ \<Rightarrow> []) devs)"

definition counts :: "(u64 \<times> u64 \<times> u64) list \<Rightarrow> BusDevice list \<Rightarrow> bool" where
  "counts ks l \<longleftrightarrow> distinct (map bd_triple l) \<and> set (map bd_triple l) = set ks
     \<and> list_all (\<lambda>d. bd_Quantity d = word_of_nat (count_list ks (bd_triple d))) l"

lemma add_one_spec:
  "add_one k ds = (b, ds1) \<Longrightarrow> b = (k \<in> set (map bd_triple ds)) \<and> map bd_triple ds1 = map bd_triple ds
     \<and> (distinct (map bd_triple ds) \<longrightarrow>
        map bd_Quantity ds1 = map (\<lambda>d. bd_Quantity d + (if bd_triple d = k then 1 else 0)) ds)"
proof (induction ds arbitrary: b ds1)
  case (Cons d ds)
  show ?case
  proof (cases "bd_triple d = k")
    case True
    have "map (\<lambda>d. bd_Quantity d + (if bd_triple d = k then 1 else 0)) ds = map bd_Quantity ds"
      if "distinct (map bd_triple (d # ds))"
    proof -
      have "k \<notin> bd_triple ` set ds"
        using that True by simp
      then show ?thesis
        by auto
    qed
    moreover have "b" "ds1 = d\<lparr>bd_Quantity := bd_Quantity d + 1\<rparr> # ds"
      using Cons.prems True by simp_all
    moreover have "bd_triple (d\<lparr>bd_Quantity := n\<rparr>) = bd_triple d" for n
      by (simp add: bd_triple_def)
    ultimately show ?thesis
      using True by simp
  next
    case False
    then obtain b2 ds2 where "add_one k ds = (b2, ds2)" "b = b2" "ds1 = d # ds2"
      using Cons.prems by (cases "add_one k ds") auto
    then show ?thesis
      using Cons.IH [of b2 ds2] False by auto
  qed
qed simp

lemma bd_triple_SetDescription [simp]: "bd_triple (SetDescription files b) = bd_triple b"
  and bd_Quantity_SetDescription [simp]: "bd_Quantity (SetDescription files b) = bd_Quantity b"
  by (simp_all add: SetDescription_def ClassCode_def bd_triple_def Let_def split: option.split)

lemma counts_snoc:
  assumes "counts ks l" "readDev files dev = Value k"
  shows "counts (ks @ [k]) (bd_step files dev l)"
proof -
  obtain v d c where k: "k = (v, d, c)"
    by (cases k)
  obtain b l1 where a: "add_one k l = (b, l1)"
    by (cases "add_one k l")
  note s = add_one_spec [OF a]
  have cnt: "count_list (ks @ [k]) x = count_list ks x + (if x = k then 1 else 0)" for x
    by (induction ks) auto
  have dist: "distinct (map bd_triple l)" "set (map bd_triple l) = set ks"
    "\<And>e. e \<in> set l \<Longrightarrow> bd_Quantity e = word_of_nat (count_list ks (bd_triple e))"
    using assms(1) by (auto simp: counts_def list_all_iff)
  have q: "bd_Quantity (l1 ! i) = word_of_nat (count_list (ks @ [k]) (bd_triple (l1 ! i)))" if "i < length l1" for i
  proof -
    have len: "length l1 = length l"
      using s by (metis length_map)
    then have "bd_triple (l1 ! i) = bd_triple (l ! i)"
      "bd_Quantity (l1 ! i) = bd_Quantity (l ! i) + (if bd_triple (l ! i) = k then 1 else 0)"
      using s dist(1) that by (metis (no_types, lifting) nth_map)+
    then show ?thesis
      using dist(3) [of "l ! i"] that len by (simp add: cnt)
  qed
  then have all1: "list_all (\<lambda>d. bd_Quantity d = word_of_nat (count_list (ks @ [k]) (bd_triple d))) l1"
    by (simp add: list_all_length)
  show ?thesis
  proof (cases b)
    case True
    then have "bd_step files dev l = l1"
      using assms(2) a by (simp add: bd_step_def k)
    moreover have "set (map bd_triple l1) = set (ks @ [k])"
      using s True dist(2) by auto
    ultimately show ?thesis
      using all1 s dist(1) by (simp add: counts_def)
  next
    case False
    define n where "n = SetDescription files
      \<lparr>bd_HumanDescription = [], bd_Vendor = v, bd_Device = d, bd_Class = c, bd_Quantity = 1, bd_dev = dev\<rparr>"
    have n: "bd_triple n = k" "bd_Quantity n = 1"
      unfolding n_def by (simp_all add: k) (simp add: bd_triple_def)
    have "k \<notin> set ks"
      using s False dist(2) by simp
    moreover have "bd_step files dev l = l1 @ [n]"
      using assms(2) a False by (simp add: bd_step_def k n_def)
    moreover have "set (map bd_triple l1) = set ks" "distinct (map bd_triple l1)"
      using s dist by simp_all
    moreover have "count_list ks k = 0"
      using \<open>k \<notin> set ks\<close> by (simp add: count_list_0_iff)
    ultimately show ?thesis
      using all1 n by (auto simp: counts_def cnt)
  qed
qed

lemma counts_populate: "counts ks l \<Longrightarrow> counts (ks @ kinds files devs) (fold (bd_step files) devs l)"
proof (induction devs arbitrary: ks l)
  case (Cons dev devs)
  show ?case
  proof (cases "readDev files dev")
    case (Value k)
    then show ?thesis
      using Cons.IH [OF counts_snoc [OF Cons.prems Value]] by (simp add: kinds_def)
  qed (use Cons.IH [OF Cons.prems] in \<open>simp_all add: kinds_def bd_step_def\<close>)
qed (simp add: kinds_def)

lemma bdcompare_one_counts:
  assumes "counts ks l"
  shows "bdcompare_one r l = (if bd_Quantity r \<noteq> word_of_nat (count_list ks (bd_triple r)) then 1 else 0)"
proof (cases "bd_triple r \<in> set ks")
  case True
  have "bdcompare_one r ds = (if bd_Quantity r \<noteq> word_of_nat (count_list ks (bd_triple r)) then 1 else 0)"
    if "bd_triple r \<in> set (map bd_triple ds)" "list_all (\<lambda>d. bd_Quantity d = word_of_nat (count_list ks (bd_triple d))) ds" for ds
    using that by (induction ds) auto
  then show ?thesis
    using assms True by (simp add: counts_def)
next
  case False
  have "bdcompare_one r ds = (if bd_Quantity r \<noteq> 0 then 1 else 0)" if "bd_triple r \<notin> set (map bd_triple ds)" for ds
    using that by (induction ds) auto
  moreover have "count_list ks (bd_triple r) = 0"
    using False by (simp add: count_list_0_iff)
  ultimately show ?thesis
    using assms False by (simp add: counts_def)
qed

text \<open>
  C16: checking the devices on a bus reports exactly the required entries whose quantity is not the number
  of devices of that vendor, device and class that could be read - also for an entry that requires
  none.
\<close>

theorem bus_devices_checked:
  "bdcompare required (bdpopulate files src (Some entries) []) =
    length (filter (\<lambda>r. bd_Quantity r \<noteq>
      word_of_nat (count_list (kinds files (map (\<lambda>e. path_Join [src, e]) entries)) (bd_triple r))) required)"
proof -
  let ?ks = "kinds files (map (\<lambda>e. path_Join [src, e]) entries)"
  have "counts [] []"
    by (simp add: counts_def)
  from counts_populate [OF this, of files "map (\<lambda>e. path_Join [src, e]) entries"]
  have c: "counts ?ks (bdpopulate files src (Some entries) [])"
    by (simp add: bdpopulate_def listDevs_def)
  show ?thesis
    unfolding bdcompare_def by (induction required) (simp_all add: bdcompare_one_counts [OF c])
qed

end
