(* ===== verification/QaDisks.thy ===== *)
theory QaDisks
  imports QaDevices "HOL-Library.Multiset"
begin

text \<open>
  The disks of a unit (\<open>pkg/mfg/qa/disks.go\<close>): which configuration of main disks is there, and how the
  recovery disk and the main disks compare with the specification.  The list of block devices is
  an input; quantities are small counts and stay \<open>int\<close>.
\<close>

section \<open>Disks\<close>

record Disk =
  dk_Size :: u64
  dk_SizeTolerancePct :: u64
  dk_Vendor :: string
  dk_Model :: string
  dk_Quantity :: int
  dk_dev :: string

definition disks_Qty :: "Disk list \<Rightarrow> int" where
  "disks_Qty ds = sum_list (map dk_Quantity ds)"

fun disk_populate_loop :: "BlockDev list \<Rightarrow> Disk \<Rightarrow> Disk" where
  "disk_populate_loop [] dsk = dsk"
| "disk_populate_loop (dev # devs) dsk =
     (if bk_Vendor dev = dk_Vendor dsk \<and> bk_Model dev = dk_Model dsk
      then
        (let d1 = dsk\<lparr>dk_Quantity := dk_Quantity dsk + 1\<rparr>
         in if dk_Quantity d1 > 1
            then
              (let d2 = d1\<lparr>dk_dev := dk_dev d1 @ '', '' @ bk_Name dev\<rparr>
               in disk_populate_loop devs (if bk_Size dev \<noteq> dk_Size d2 then d2\<lparr>dk_Size := 0\<rparr> else d2))
            else disk_populate_loop devs (d1\<lparr>dk_dev := bk_Name dev, dk_Size := bk_Size dev\<rparr>))
      else disk_populate_loop devs dsk)"

definition disk_populate :: "BlockDev list \<Rightarrow> Disk \<Rightarrow> Disk" where
  "disk_populate devs dsk = disk_populate_loop devs (dsk\<lparr>dk_Quantity := 0\<rparr>)"

definition Disk_Compare :: "Disk \<Rightarrow> Disk \<Rightarrow> nat" where
  "Disk_Compare required detected =
     (if dk_Size required = 0 then 1
      else if dk_Quantity detected \<noteq> dk_Quantity required then 1
      else if dk_Size detected = 0 \<and> dk_Quantity detected > 1 then 1
      else if \<not> SizeToleranceMatch (dk_Size detected) (dk_Size required) (dk_SizeTolerancePct required) then 1
      else 0)"

definition RecoveryDisk_Compare :: "Disk \<Rightarrow> Disk \<Rightarrow> nat" where
  "RecoveryDisk_Compare required detected =
     Disk_Compare (if dk_Quantity required = 0 then required\<lparr>dk_Quantity := 1\<rparr> else required) detected"

section \<open>Configurations\<close>

text \<open>
  \<open>cfgMatch\<close>: \<open>remaining\<close> holds pointers to the disks of the configuration, so subtracting from a
  quantity changes the configuration; pointers are positions in it.
\<close>

definition compareMV :: "Disk \<Rightarrow> Disk \<Rightarrow> bool" where
  "compareMV a b \<longleftrightarrow> dk_Model a = dk_Model b \<and> dk_Vendor a = dk_Vendor b"

fun cfg_take :: "Disk list \<Rightarrow> Disk \<Rightarrow> nat list \<Rightarrow> (Disk list \<times> nat list) option" where
  "cfg_take cfg d [] = None"
| "cfg_take cfg d (r # rs) =
     (if compareMV (cfg ! r) d \<and> dk_Quantity (cfg ! r) > dk_Quantity d
      then Some (cfg[r := (cfg ! r)\<lparr>dk_Quantity := dk_Quantity (cfg ! r) - dk_Quantity d\<rparr>], r # rs)
      else if compareMV (cfg ! r) d \<and> dk_Quantity (cfg ! r) = dk_Quantity d then Some (cfg, rs)
      else map_option (\<lambda>p. (fst p, r # snd p)) (cfg_take cfg d rs))"

fun cfg_loop :: "Disk list \<Rightarrow> Disk list \<Rightarrow> nat list \<Rightarrow> nat \<Rightarrow> Disk list \<times> nat list \<times> nat" where
  "cfg_loop [] cfg remaining notInCfg = (cfg, remaining, notInCfg)"
| "cfg_loop (d # ds) cfg remaining notInCfg =
     (case cfg_take cfg d remaining of
        None \<Rightarrow> cfg_loop ds cfg remaining (notInCfg + 1)
      | Some (cfg1, remaining1) \<Rightarrow> cfg_loop ds cfg1 remaining1 notInCfg)"

definition cfgMatch :: "Disk list \<Rightarrow> Disk list \<Rightarrow> bool \<times> Disk list" where
  "cfgMatch cfg foundDisks =
     (if disks_Qty cfg + 1 \<noteq> disks_Qty foundDisks then (False, cfg)
      else
        (case cfg_loop foundDisks cfg [0..<length cfg] 0 of
           (cfg1, remaining, notInCfg) \<Rightarrow> (notInCfg = 1 \<and> remaining = [], cfg1)))"

definition found_size :: "Disk list \<Rightarrow> Disk \<Rightarrow> Disk" where
  "found_size found c =
     fold (\<lambda>d md. if compareMV md d then md\<lparr>dk_Size := dk_Size d, dk_Quantity := dk_Quantity d\<rparr> else md)
       found (c\<lparr>dk_Size := 0\<rparr>)"

text \<open>\<open>populateDisks\<close>: the disks, the index of the configuration, and the configurations as they are left.\<close>

fun populateDisks_from :: "nat \<Rightarrow> Disk list list \<Rightarrow> Disk list \<Rightarrow> (Disk list \<times> int \<times> Disk list list) fatal" where
  "populateDisks_from i [] found = Ok ([], - 1, [])"
| "populateDisks_from i (cfg # cfgs) found =
     (case cfgMatch cfg found of
        (True, cfg1) \<Rightarrow>
          (let mds = map (found_size found) cfg1
           in if list_ex (\<lambda>md. dk_Size md = 0) mds then Fatal else Ok (mds, int i, cfg1 # cfgs))
      | (False, cfg1) \<Rightarrow>
          (case populateDisks_from (i + 1) cfgs found of
             Fatal \<Rightarrow> Fatal
           | Panicked \<Rightarrow> Panicked
           | Ok (mds, k, rest) \<Rightarrow> Ok (mds, k, cfg1 # rest)))"

definition populateDisks :: "Disk list list \<Rightarrow> Disk list \<Rightarrow> (Disk list \<times> int \<times> Disk list list) fatal" where
  "populateDisks cfgs found = populateDisks_from 0 cfgs found"

fun MainDisks_Compare_loop :: "Disk list \<Rightarrow> Disk list \<Rightarrow> nat" where
  "MainDisks_Compare_loop [] detected = 0"
| "MainDisks_Compare_loop (r # rs) [] = 1"
| "MainDisks_Compare_loop (r # rs) (d # ds) =
     Disk_Compare r d + (if dk_Quantity d \<noteq> dk_Quantity r then 1 else 0) + MainDisks_Compare_loop rs ds"

definition MainDisks_Compare :: "Disk list \<Rightarrow> Disk list \<Rightarrow> nat" where
  "MainDisks_Compare required detected =
     MainDisks_Compare_loop required detected + (if length detected > length required then 1 else 0)"

definition MainDiskConfigs_Compare :: "Disk list list \<Rightarrow> Disk list \<Rightarrow> int \<Rightarrow> nat" where
  "MainDiskConfigs_Compare required detected idx =
     (if idx = - 1 then 1 else MainDisks_Compare (required ! nat idx) detected)"

definition same_disk :: "BlockDev \<Rightarrow> Disk \<Rightarrow> bool" where
  "same_disk dev d \<longleftrightarrow> dk_Model d = bk_Model dev \<and> dk_Vendor d = bk_Vendor dev \<and> dk_Size d = bk_Size dev"

fun found_add :: "BlockDev \<Rightarrow> Disk list \<Rightarrow> Disk list" where
  "found_add dev [] =
     [\<lparr>dk_Size = bk_Size dev, dk_SizeTolerancePct = 0, dk_Vendor = bk_Vendor dev, dk_Model = bk_Model dev,
       dk_Quantity = 1, dk_dev = []\<rparr>]"
| "found_add dev (d # ds) =
     (if same_disk dev d then d\<lparr>dk_Quantity := dk_Quantity d + 1\<rparr> # ds else d # found_add dev ds)"

definition FoundDisks :: "BlockDev list \<Rightarrow> Disk list" where
  "FoundDisks devs = fold found_add devs []"

text \<open>\<open>initDisks\<close>: copies of the configurations without sizes; it is a fatal error if they differ in length,
  and a panic if there is none.\<close>

definition initDisks :: "Disk list list \<Rightarrow> Disk list list fatal" where
  "initDisks cfgs =
     (if cfgs = [] then Panicked
      else if list_ex (\<lambda>c. length c \<noteq> length (hd cfgs)) cfgs then Fatal
      else Ok (map (map (\<lambda>m. m\<lparr>dk_Size := 0\<rparr>)) cfgs))"

section \<open>The recovery disk\<close>

text \<open>The size of all of several disks, or 0.\<close>

definition common_size :: "u64 list \<Rightarrow> u64 \<Rightarrow> u64" where
  "common_size ss s0 = (if ss = [] then s0 else if list_all (\<lambda>x. x = hd ss) ss then hd ss else 0)"

definition matching :: "Disk \<Rightarrow> BlockDev list \<Rightarrow> BlockDev list" where
  "matching d devs = filter (\<lambda>b. bk_Vendor b = dk_Vendor d \<and> bk_Model b = dk_Model d) devs"

lemma common_size_snoc:
  "common_size (ss @ [x]) s0 = (if ss = [] then x else if x \<noteq> common_size ss s0 then 0 else common_size ss s0)"
  by (cases ss) (auto simp: common_size_def)

lemma disk_populate_loop_spec:
  fixes devs :: "BlockDev list"
  assumes "dk_Quantity dsk = int (length ms)" "dk_Size dsk = common_size (map bk_Size ms) s0"
  defines "r \<equiv> disk_populate_loop devs dsk"
  shows "dk_Quantity r = int (length (ms @ matching dsk devs))
    \<and> dk_Size r = common_size (map bk_Size (ms @ matching dsk devs)) s0"
  using assms(1,2) unfolding r_def
proof (induction devs arbitrary: dsk ms)
  case (Cons dev devs)
  define e where "e = (if dk_Quantity dsk = 0 then dsk\<lparr>dk_Quantity := dk_Quantity dsk + 1, dk_dev := bk_Name dev, dk_Size := bk_Size dev\<rparr>
    else if bk_Size dev \<noteq> dk_Size dsk then dsk\<lparr>dk_Quantity := dk_Quantity dsk + 1, dk_dev := dk_dev dsk @ '', '' @ bk_Name dev, dk_Size := 0\<rparr>
    else dsk\<lparr>dk_Quantity := dk_Quantity dsk + 1, dk_dev := dk_dev dsk @ '', '' @ bk_Name dev\<rparr>)"
  have e: "dk_Quantity e = int (length (ms @ [dev]))" "dk_Size e = common_size (map bk_Size (ms @ [dev])) s0"
    "matching e devs = matching dsk devs"
    using Cons.prems by (simp_all add: e_def common_size_snoc matching_def)
  show ?case
  proof (cases "bk_Vendor dev = dk_Vendor dsk \<and> bk_Model dev = dk_Model dsk")
    case True
    then have "disk_populate_loop (dev # devs) dsk = disk_populate_loop devs e"
      using Cons.prems(1) by (simp add: Let_def e_def)
    then show ?thesis
      using Cons.IH [OF e(1,2)] e(3) True by (simp add: matching_def)
  next
    case False
    then have "matching dsk (dev # devs) = matching dsk devs"
      by (auto simp: matching_def)
    moreover have "disk_populate_loop (dev # devs) dsk = disk_populate_loop devs dsk"
      using False by (simp only: disk_populate_loop.simps if_False)
    ultimately show ?thesis
      using Cons.IH [OF Cons.prems] by simp
  qed
qed (simp add: matching_def)

lemma disk_populate_spec:
  "dk_Quantity (disk_populate devs d) = int (length (matching d devs))"
  "dk_Size (disk_populate devs d) = common_size (map bk_Size (matching d devs)) (dk_Size d)"
  using disk_populate_loop_spec [of "d\<lparr>dk_Quantity := 0\<rparr>" "[]" "dk_Size d" devs]
  by (simp_all add: disk_populate_def common_size_def matching_def)

text \<open>
  The check of the recovery disk finds no error exactly if a size is required, the wanted number of
  devices (one, unless stated) has the required vendor and model, and they all have one size that is
  within the tolerance - not 0, if there are several.
\<close>

theorem recovery_disk_checked:
  "RecoveryDisk_Compare req (disk_populate devs (req\<lparr>dk_Size := 0\<rparr>)) = 0 \<longleftrightarrow>
    (dk_Size req \<noteq> 0
     \<and> int (length (matching req devs)) = (if dk_Quantity req = 0 then 1 else dk_Quantity req)
     \<and> (let s = common_size (map bk_Size (matching req devs)) 0
        in SizeToleranceMatch s (dk_Size req) (dk_SizeTolerancePct req) \<and> (s \<noteq> 0 \<or> length (matching req devs) = 1)))"
proof -
  have m: "matching (req\<lparr>dk_Size := 0\<rparr>) devs = matching req devs"
    by (simp add: matching_def)
  show ?thesis
    unfolding RecoveryDisk_Compare_def Disk_Compare_def disk_populate_spec m Let_def by (auto simp: not_less)
qed


section \<open>Matching a configuration\<close>

definition mv :: "Disk \<Rightarrow> string \<times> string" where
  "mv d = (dk_Model d, dk_Vendor d)"

definition mvq :: "Disk \<Rightarrow> (string \<times> string) \<times> int" where
  "mvq d = (mv d, dk_Quantity d)"

lemma compareMV_mv: "compareMV a b \<longleftrightarrow> mv a = mv b"
  by (auto simp: compareMV_def mv_def)

lemma mv_update [simp]: "mv (d\<lparr>dk_Quantity := q\<rparr>) = mv d" "mv (d\<lparr>dk_Size := s\<rparr>) = mv d"
  by (simp_all add: mv_def)

definition takes :: "Disk list \<Rightarrow> Disk \<Rightarrow> nat \<Rightarrow> bool" where
  "takes cfg d i \<longleftrightarrow> mv (cfg ! i) = mv d \<and> dk_Quantity d \<le> dk_Quantity (cfg ! i)"

lemma cfg_take_None: "cfg_take cfg d rs = None \<longleftrightarrow> \<not> (\<exists>i\<in>set rs. takes cfg d i)"
  by (induction rs) (auto simp: takes_def compareMV_mv)

lemma cfg_take_Some:
  "cfg_take cfg d rs = Some (cfg1, rs1) \<Longrightarrow> \<exists>i\<in>set rs. mv (cfg ! i) = mv d \<and>
     (dk_Quantity d < dk_Quantity (cfg ! i) \<and> rs1 = rs
        \<and> cfg1 = cfg[i := (cfg ! i)\<lparr>dk_Quantity := dk_Quantity (cfg ! i) - dk_Quantity d\<rparr>]
      \<or> dk_Quantity d = dk_Quantity (cfg ! i) \<and> rs1 = remove1 i rs \<and> cfg1 = cfg)"
proof (induction rs arbitrary: rs1)
  case (Cons r rs)
  show ?case
  proof (cases "takes cfg d r")
    case True
    then show ?thesis
      using Cons.prems by (intro bexI [of _ r]) (auto simp: takes_def compareMV_mv split: if_splits)
  next
    case False
    then obtain rs2 where r: "cfg_take cfg d rs = Some (cfg1, rs2)" "rs1 = r # rs2"
      using Cons.prems by (auto simp: takes_def compareMV_mv split: if_splits)
    from Cons.IH [OF this(1)] obtain i where i: "i \<in> set rs" "mv (cfg ! i) = mv d"
      "dk_Quantity d < dk_Quantity (cfg ! i) \<and> rs2 = rs
        \<and> cfg1 = cfg[i := (cfg ! i)\<lparr>dk_Quantity := dk_Quantity (cfg ! i) - dk_Quantity d\<rparr>]
      \<or> dk_Quantity d = dk_Quantity (cfg ! i) \<and> rs2 = remove1 i rs \<and> cfg1 = cfg"
      by blast
    then have "takes cfg d i"
      by (auto simp: takes_def)
    then have "i \<noteq> r"
      using False by auto
    then show ?thesis
      using i r(2) by (intro bexI [of _ i]) auto
  qed
qed simp


text \<open>Each found disk meets at most one disk of the configuration, so the loop decides each on its own.\<close>

definition exactly_found :: "Disk list \<Rightarrow> Disk list \<Rightarrow> nat \<Rightarrow> bool" where
  "exactly_found ds cfg i \<longleftrightarrow> (\<exists>d\<in>set ds. mvq d = mvq (cfg ! i))"

lemma cfg_loop_result:
  assumes "cfg_loop ds cfg R n = (cfg1, R1, n1)" "distinct (map mv ds)"
    "inj_on (\<lambda>i. mv (cfg ! i)) (set R)" "distinct R" "set R \<subseteq> {..<length cfg}"
  shows "(R1 = [] \<longleftrightarrow> (\<forall>i\<in>set R. exactly_found ds cfg i))
    \<and> n1 = n + length (filter (\<lambda>d. \<not> (\<exists>i\<in>set R. takes cfg d i)) ds)"
  using assms
proof (induction ds arbitrary: cfg R n)
  case Nil
  then show ?case
    by (auto simp: exactly_found_def)
next
  case (Cons d ds)
  have fresh: "mv e \<noteq> mv d" if "e \<in> set ds" for e
    using Cons.prems(2) imageI [OF that, of mv] by auto
  show ?case
  proof (cases "cfg_take cfg d R")
    case None
    then have no: "\<not> (\<exists>i\<in>set R. takes cfg d i)"
      by (simp add: cfg_take_None)
    have "cfg_loop ds cfg R (n + 1) = (cfg1, R1, n1)" "distinct (map mv ds)"
      using Cons.prems(1,2) None by simp_all
    note IH = Cons.IH [OF this Cons.prems(3-5)]
    have "exactly_found (d # ds) cfg i \<longleftrightarrow> exactly_found ds cfg i" if "i \<in> set R" for i
      using no that by (auto simp: exactly_found_def takes_def mvq_def)
    then show ?thesis
      using IH no by simp
  next
    case (Some p)
    obtain cfg2 R2 where p: "p = (cfg2, R2)"
      by (cases p)
    obtain i where i: "i \<in> set R" "mv (cfg ! i) = mv d"
      "dk_Quantity d < dk_Quantity (cfg ! i) \<and> R2 = R
        \<and> cfg2 = cfg[i := (cfg ! i)\<lparr>dk_Quantity := dk_Quantity (cfg ! i) - dk_Quantity d\<rparr>]
      \<or> dk_Quantity d = dk_Quantity (cfg ! i) \<and> R2 = remove1 i R \<and> cfg2 = cfg"
      using cfg_take_Some [OF Some [unfolded p]] by blast
    have mvs: "mv (cfg2 ! j) = mv (cfg ! j)" for j
      using i Cons.prems(5) by (cases "i = j") auto
    have set2: "set R2 = (if dk_Quantity d < dk_Quantity (cfg ! i) then set R else set R - {i})"
      using i(3) Cons.prems(4) by auto
    have others: "takes cfg2 e j \<longleftrightarrow> takes cfg e j" "mvq (cfg2 ! j) = mvq (cfg ! j)" if "j \<in> set R" "j \<noteq> i" for j e
      using i(3) that by (auto simp: takes_def mvq_def)
    have mine: "\<not> takes cfg2 e i" "\<not> takes cfg e i" "mvq e \<noteq> mvq (cfg2 ! i)" "mvq e \<noteq> mvq (cfg ! i)" if "e \<in> set ds" for e
      using fresh [OF that] i(2) mvs [of i] by (auto simp: takes_def mvq_def)
    have tk: "takes cfg d i"
      using i(2,3) by (auto simp: takes_def)
    have notd: "mvq d \<noteq> mvq (cfg ! j)" if "j \<in> set R" "j \<noteq> i" for j
      using Cons.prems(3) i(1,2) that by (auto simp: mvq_def inj_on_def)
    have "cfg_loop ds cfg2 R2 n = (cfg1, R1, n1)" "distinct (map mv ds)" "inj_on (\<lambda>i. mv (cfg2 ! i)) (set R2)"
      "distinct R2" "set R2 \<subseteq> {..<length cfg2}"
      using Cons.prems Some p i(3) by (auto simp: mvs inj_on_def set2)
    note IH = Cons.IH [OF this]
    have cnt: "filter (\<lambda>e. \<not> (\<exists>j\<in>set R2. takes cfg2 e j)) ds = filter (\<lambda>e. \<not> (\<exists>j\<in>set R. takes cfg e j)) ds"
    proof (rule filter_cong [OF refl])
      fix e assume "e \<in> set ds"
      then show "(\<not> (\<exists>j\<in>set R2. takes cfg2 e j)) = (\<not> (\<exists>j\<in>set R. takes cfg e j))"
        using mine(1,2) [of e] others(1) [of _ e] i(1) unfolding set2 by (auto split: if_splits)
    qed
    have all: "(\<forall>j\<in>set R2. exactly_found ds cfg2 j) \<longleftrightarrow> (\<forall>j\<in>set R. exactly_found (d # ds) cfg j)"
    proof (cases "dk_Quantity d < dk_Quantity (cfg ! i)")
      case True
      have "\<not> exactly_found ds cfg2 i" "\<not> exactly_found (d # ds) cfg i"
        using mine(3,4) True by (auto simp: exactly_found_def mvq_def)
      then show ?thesis
        using i(1) True unfolding set2 by auto
    next
      case False
      then have "mvq d = mvq (cfg ! i)"
        using i(2,3) by (auto simp: mvq_def)
      then have "exactly_found (d # ds) cfg i"
        by (simp add: exactly_found_def)
      moreover have "exactly_found (d # ds) cfg j \<longleftrightarrow> exactly_found ds cfg2 j" if "j \<in> set R" "j \<noteq> i" for j
        using notd [OF that] others(2) [OF that] by (auto simp: exactly_found_def)
      ultimately show ?thesis
        using False unfolding set2 by auto
    qed
    have "\<exists>j\<in>set R. takes cfg d j"
      using tk i(1) by blast
    then show ?thesis
      using IH cnt all by simp
  qed
qed


text \<open>
  C17: if no vendor and model occurs twice in a configuration, nor twice among the entries of the disks found - that
  is, if disks of one vendor and model have one size - the configuration matches exactly if the disks found
  are its disks, in their quantities, and a single other one, the recovery disk.
\<close>

theorem cfgMatch_recovery_apart:
  assumes "distinct (map mv cfg)" "distinct (map mv found)"
  shows "fst (cfgMatch cfg found) \<longleftrightarrow>
    (\<exists>x. snd x = 1 \<and> mset (map mvq found) = add_mset x (mset (map mvq cfg)))"
proof -
  obtain cfg1 R1 n1 where r: "cfg_loop found cfg [0..<length cfg] 0 = (cfg1, R1, n1)"
    by (cases "cfg_loop found cfg [0..<length cfg] 0") auto
  have inj: "inj_on (\<lambda>i. mv (cfg ! i)) (set [0..<length cfg])"
    by (rule inj_onI) (use assms(1) in \<open>simp add: distinct_conv_nth, blast\<close>)
  define extra where "extra = filter (\<lambda>d. \<not> (\<exists>i\<in>set [0..<length cfg]. takes cfg d i)) found"
  have qty: "disks_Qty ds = (\<Sum>x\<in>#mset (map mvq ds). snd x)" for ds
    by (simp add: disks_Qty_def sum_mset_sum_list mvq_def comp_def flip: mset_map)
  have "R1 = [] \<longleftrightarrow> (\<forall>i\<in>set [0..<length cfg]. exactly_found found cfg i)" "n1 = length extra"
    using cfg_loop_result [OF r assms(2) inj] by (simp_all add: extra_def subset_eq)
  moreover have "(\<forall>i\<in>set [0..<length cfg]. exactly_found found cfg i) \<longleftrightarrow> mvq ` set cfg \<subseteq> mvq ` set found"
  proof -
    have "mvq ` set cfg = (\<lambda>i. mvq (cfg ! i)) ` set [0..<length cfg]"
      using nth_image [OF order_refl, of cfg] by (simp add: image_image [symmetric])
    then show ?thesis
      by (simp only: image_subset_iff ball_simps exactly_found_def image_iff eq_commute [of "mvq (cfg ! _)"])
  qed
  ultimately have match: "fst (cfgMatch cfg found) \<longleftrightarrow>
      disks_Qty cfg + 1 = disks_Qty found \<and> length extra = 1 \<and> mvq ` set cfg \<subseteq> mvq ` set found"
    using r by (auto simp: cfgMatch_def)
  have dist: "distinct (map mvq cfg)" "distinct (map mvq found)"
    using assms by (auto simp: distinct_map inj_on_def mvq_def)
  have extra: "extra = filter (\<lambda>d. mvq d \<notin> mvq ` set cfg) found" if "mvq ` set cfg \<subseteq> mvq ` set found"
    unfolding extra_def
  proof (rule filter_cong [OF refl], rule arg_cong [where f = Not])
    fix d assume d: "d \<in> set found"
    have "mvq d = mvq (cfg ! i)" if "i < length cfg" "takes cfg d i" for i
    proof -
      have "mvq (cfg ! i) \<in> mvq ` set found"
        by (rule subsetD [OF \<open>mvq ` set cfg \<subseteq> mvq ` set found\<close> imageI [OF nth_mem [OF that(1)]]])
      then obtain e where e: "e \<in> set found" "mvq (cfg ! i) = mvq e"
        by (rule imageE)
      then have "mv e = mv d"
        using that(2) by (simp add: takes_def mvq_def)
      then show ?thesis
        using assms(2) d e by (auto simp: distinct_map inj_on_def)
    qed
    then show "(\<exists>i\<in>set [0..<length cfg]. takes cfg d i) = (mvq d \<in> mvq ` set cfg)"
    proof (intro iffI)
      assume "\<exists>i\<in>set [0..<length cfg]. takes cfg d i"
      then obtain i where "i < length cfg" "takes cfg d i"
        by auto
      then show "mvq d \<in> mvq ` set cfg"
        using \<open>\<And>i. i < length cfg \<Longrightarrow> takes cfg d i \<Longrightarrow> mvq d = mvq (cfg ! i)\<close> by simp
    next
      assume "mvq d \<in> mvq ` set cfg"
      then obtain i where "i < length cfg" "mvq d = mvq (cfg ! i)"
        by (metis image_iff in_set_conv_nth)
      then show "\<exists>i\<in>set [0..<length cfg]. takes cfg d i"
        by (intro bexI [of _ i]) (simp_all add: takes_def mvq_def)
    qed
  qed
  let ?K = "set (map mvq cfg)"
  have parts: "mset (map mvq found) = mset (filter (\<lambda>x. x \<in> ?K) (map mvq found)) + mset (filter (\<lambda>x. x \<notin> ?K) (map mvq found))"
    unfolding mset_filter by (rule multiset_partition)
  have sub: "mset (filter (\<lambda>x. x \<in> ?K) (map mvq found)) = mset (map mvq cfg)" if "?K \<subseteq> mvq ` set found"
    using that dist by (intro set_eq_iff_mset_eq_distinct [THEN iffD1]) auto
  have ext: "mset (map mvq extra) = mset (filter (\<lambda>x. x \<notin> ?K) (map mvq found))" if "?K \<subseteq> mvq ` set found"
    using extra that by (simp add: filter_map comp_def del: mset_filter)
  show ?thesis
  proof
    assume "fst (cfgMatch cfg found)"
    then have m: "disks_Qty cfg + 1 = disks_Qty found" "length extra = 1" "?K \<subseteq> mvq ` set found"
      by (simp_all add: match)
    then obtain e where "extra = [e]"
      by (auto simp: length_Suc_conv)
    then have "mset (map mvq found) = add_mset (mvq e) (mset (map mvq cfg))"
      using parts [unfolded sub [OF m(3)] ext [OF m(3), symmetric]] by simp
    moreover from this have "snd (mvq e) = 1"
      using m(1) unfolding qty by simp
    ultimately show "\<exists>x. snd x = 1 \<and> mset (map mvq found) = add_mset x (mset (map mvq cfg))"
      by blast
  next
    assume "\<exists>x. snd x = 1 \<and> mset (map mvq found) = add_mset x (mset (map mvq cfg))"
    then obtain x where x: "snd x = 1" "mset (map mvq found) = add_mset x (mset (map mvq cfg))"
      by blast
    have k: "?K \<subseteq> mvq ` set found"
      using arg_cong [OF x(2), of set_mset] by auto
    have "mset (map mvq extra) = {#x#}"
      using parts [unfolded sub [OF k] ext [OF k, symmetric]] x(2) by simp
    then have "length extra = 1"
      by (metis length_map size_mset size_single)
    then show "fst (cfgMatch cfg found)"
      using k x unfolding match qty by simp
  qed
qed


lemma cfgMatch_recovery_apart_witness:
  "fst (cfgMatch [\<lparr>dk_Size = 0, dk_SizeTolerancePct = 5, dk_Vendor = ''ATA'', dk_Model = ''A'', dk_Quantity = 2, dk_dev = []\<rparr>]
     [\<lparr>dk_Size = 9, dk_SizeTolerancePct = 0, dk_Vendor = ''ATA'', dk_Model = ''A'', dk_Quantity = 2, dk_dev = []\<rparr>,
      \<lparr>dk_Size = 1, dk_SizeTolerancePct = 0, dk_Vendor = ''USB'', dk_Model = ''R'', dk_Quantity = 1, dk_dev = []\<rparr>])"
  by (subst cfgMatch_recovery_apart) (auto simp: mv_def mvq_def add_mset_commute)

section \<open>The check of the main disks\<close>

lemma cfg_loop_keeps:
  "cfg_loop ds cfg R n = (cfg1, R1, n1) \<Longrightarrow> map (dk_Quantity_update (\<lambda>_. q)) cfg1 = map (dk_Quantity_update (\<lambda>_. q)) cfg"
proof (induction ds arbitrary: cfg R n)
  case (Cons d ds)
  show ?case
  proof (cases "cfg_take cfg d R")
    case (Some p)
    obtain cfg2 R2 where p: "p = (cfg2, R2)"
      by (cases p)
    obtain i where "cfg2 = cfg[i := (cfg ! i)\<lparr>dk_Quantity := dk_Quantity (cfg ! i) - dk_Quantity d\<rparr>] \<or> cfg2 = cfg"
      using cfg_take_Some [OF Some [unfolded p]] by blast
    then have "map (dk_Quantity_update (\<lambda>_. q)) cfg2 = map (dk_Quantity_update (\<lambda>_. q)) cfg"
      by (cases "i < length cfg") (auto simp: list_update_beyond map_update intro!: list_eq_iff_nth_eq [THEN iffD2] simp: nth_list_update)
    then show ?thesis
      using Cons Some p by simp
  qed (use Cons in simp)
qed simp

lemma found_size_spec:
  "dk_Size (found_size found c) \<noteq> 0 \<Longrightarrow>
   \<exists>d\<in>set found. compareMV c d \<and> dk_Size (found_size found c) = dk_Size d \<and> dk_Quantity (found_size found c) = dk_Quantity d"
proof (induction found rule: rev_induct)
  case (snoc d ds)
  have "mv (found_size ds c) = mv c" for ds
    unfolding found_size_def by (induction ds rule: rev_induct) simp_all
  then have "compareMV (found_size ds c) d \<longleftrightarrow> compareMV c d"
    by (simp add: compareMV_mv)
  moreover have "found_size (ds @ [d]) c = (if compareMV (found_size ds c) d
      then (found_size ds c)\<lparr>dk_Size := dk_Size d, dk_Quantity := dk_Quantity d\<rparr> else found_size ds c)"
    by (simp add: found_size_def)
  ultimately show ?case
    using snoc by (auto split: if_splits)
qed (simp add: found_size_def)

lemma populateDisks_from_spec:
  "populateDisks_from i cfgs found = Ok (mds, idx, rest) \<Longrightarrow> idx \<noteq> - 1 \<Longrightarrow>
   \<exists>k<length cfgs. idx = int (i + k) \<and> disks_Qty found = disks_Qty (cfgs ! k) + 1
     \<and> (\<exists>cfg1. map (dk_Quantity_update (\<lambda>_. 0)) cfg1 = map (dk_Quantity_update (\<lambda>_. 0)) (cfgs ! k)
          \<and> mds = map (found_size found) cfg1 \<and> list_all (\<lambda>md. dk_Size md \<noteq> 0) mds)"
proof (induction i cfgs found arbitrary: rest rule: populateDisks_from.induct)
  case (2 i cfg cfgs found)
  obtain ok cfg1 where m: "cfgMatch cfg found = (ok, cfg1)"
    by (cases "cfgMatch cfg found")
  show ?case
  proof (cases ok)
    case True
    obtain R1 n1 where "disks_Qty cfg + 1 = disks_Qty found" "cfg_loop found cfg [0..<length cfg] 0 = (cfg1, R1, n1)"
      using m True by (auto simp: cfgMatch_def split: if_splits prod.splits)
    then show ?thesis
      using "2.prems" m True cfg_loop_keeps
      by (intro exI [of _ 0]) (auto simp: Let_def list_ex_iff list_all_iff split: if_splits intro!: exI [of _ cfg1])
  next
    case False
    then obtain rest1 where "populateDisks_from (i + 1) cfgs found = Ok (mds, idx, rest1)"
      using "2.prems" m by (auto split: fatal.splits)
    from "2.IH" [OF m [symmetric] _ this "2.prems"(2)] False
    obtain k where "k < length cfgs" "idx = int (i + 1 + k)" "disks_Qty found = disks_Qty (cfgs ! k) + 1"
      "\<exists>cfg1. map (dk_Quantity_update (\<lambda>_. 0)) cfg1 = map (dk_Quantity_update (\<lambda>_. 0)) (cfgs ! k)
         \<and> mds = map (found_size found) cfg1 \<and> list_all (\<lambda>md. dk_Size md \<noteq> 0) mds"
      by blast
    then show ?thesis
      by (intro exI [of _ "Suc k"]) simp
  qed
qed simp

lemma MainDisks_Compare_each:
  "MainDisks_Compare_loop rs ds = 0 \<Longrightarrow> j < length rs \<Longrightarrow> j < length ds \<and> Disk_Compare (rs ! j) (ds ! j) = 0"
proof (induction rs ds arbitrary: j rule: MainDisks_Compare_loop.induct)
  case (3 r rs d ds)
  then show ?case
    by (cases j) simp_all
qed simp_all

text \<open>The configuration's disk that a found disk must be.\<close>

definition fits :: "Disk \<Rightarrow> Disk \<Rightarrow> bool" where
  "fits r d \<longleftrightarrow> compareMV r d \<and> dk_Quantity d = dk_Quantity r
     \<and> SizeToleranceMatch (dk_Size d) (dk_Size r) (dk_SizeTolerancePct r)"

text \<open>
  If the main disks are detected and compared without an error, then the devices found are one more
  than one of the required configurations has, and each of its disks was found with its vendor and
  model, in its quantity and with a size within its tolerance.
\<close>

theorem main_disks_check_sound:
  assumes "initDisks required = Ok cfgs" "populateDisks cfgs found = Ok (mds, idx, cfgs1)"
    "MainDiskConfigs_Compare required mds idx = 0"
  shows "\<exists>k<length required. idx = int k \<and> disks_Qty found = disks_Qty (required ! k) + 1
    \<and> list_all (\<lambda>r. list_ex (fits r) found) (required ! k)"
proof -
  have idx: "idx \<noteq> - 1"
    using assms(3) by (auto simp: MainDiskConfigs_Compare_def)
  have cfgs: "cfgs = map (map (\<lambda>m. m\<lparr>dk_Size := 0\<rparr>)) required"
    using assms(1) by (simp add: initDisks_def split: if_splits)
  obtain k cfg1 where k: "k < length cfgs" "idx = int k" "disks_Qty found = disks_Qty (cfgs ! k) + 1"
    "map (dk_Quantity_update (\<lambda>_. 0)) cfg1 = map (dk_Quantity_update (\<lambda>_. 0)) (cfgs ! k)"
    "mds = map (found_size found) cfg1" "list_all (\<lambda>md. dk_Size md \<noteq> 0) mds"
    using populateDisks_from_spec [OF assms(2) [unfolded populateDisks_def] idx] by auto
  have cmp: "MainDisks_Compare_loop (required ! k) mds = 0"
    using assms(3) k(2) by (simp add: MainDiskConfigs_Compare_def MainDisks_Compare_def)
  have "list_ex (fits (required ! k ! j)) found" if j: "j < length (required ! k)" for j
  proof -
    let ?r = "required ! k ! j" and ?c = "cfg1 ! j"
    have d: "j < length cfg1" "Disk_Compare ?r (found_size found ?c) = 0" "dk_Size (found_size found ?c) \<noteq> 0"
      using MainDisks_Compare_each [OF cmp j] k(5,6) by (auto simp: list_all_length)
    have "dk_Quantity_update (\<lambda>_. 0) ?c = dk_Quantity_update (\<lambda>_. 0) (cfgs ! k ! j)"
      using arg_cong [OF k(4), of "\<lambda>l. l ! j"] d(1) j k(1) by (simp add: cfgs)
    then have "mv ?c = mv (cfgs ! k ! j)"
      by (metis mv_update(1))
    then have "mv ?c = mv ?r"
      using j k(1) by (simp add: cfgs)
    moreover obtain e where "e \<in> set found" "compareMV ?c e" "dk_Size (found_size found ?c) = dk_Size e"
      "dk_Quantity (found_size found ?c) = dk_Quantity e"
      using found_size_spec [OF d(3)] by blast
    ultimately show ?thesis
      using d(2) by (auto simp: list_ex_iff fits_def compareMV_mv Disk_Compare_def split: if_splits)
  qed
  moreover have "disks_Qty (cfgs ! k) = disks_Qty (required ! k)"
    using k(1) by (simp add: cfgs disks_Qty_def comp_def)
  ultimately show ?thesis
    using k by (auto simp: cfgs list_all_length)
qed

definition sample_disk :: "u64 \<Rightarrow> string \<Rightarrow> int \<Rightarrow> Disk" where
  "sample_disk s m q =
     \<lparr>dk_Size = s, dk_SizeTolerancePct = 5, dk_Vendor = ''ATA'', dk_Model = m, dk_Quantity = q, dk_dev = []\<rparr>"

lemma main_disks_check_sound_witness:
  "\<exists>k<2. (1::int) = int k \<and> disks_Qty [sample_disk 1 ''R'' 1, sample_disk 98 ''B'' 2] =
      disks_Qty ([[sample_disk 50 ''A'' 2], [sample_disk 100 ''B'' 2]] ! k) + 1
    \<and> list_all (\<lambda>r. list_ex (fits r) [sample_disk 1 ''R'' 1, sample_disk 98 ''B'' 2])
        ([[sample_disk 50 ''A'' 2], [sample_disk 100 ''B'' 2]] ! k)"
  using main_disks_check_sound [of "[[sample_disk 50 ''A'' 2], [sample_disk 100 ''B'' 2]]"
      "[[sample_disk 0 ''A'' 2], [sample_disk 0 ''B'' 2]]" "[sample_disk 1 ''R'' 1, sample_disk 98 ''B'' 2]"
      "[sample_disk 98 ''B'' 2]" 1 "[[sample_disk 0 ''A'' 2], [sample_disk 0 ''B'' 2]]"]
  by (simp add: initDisks_def populateDisks_def cfgMatch_def disks_Qty_def sample_disk_def compareMV_def found_size_def
      MainDiskConfigs_Compare_def MainDisks_Compare_def Disk_Compare_def SizeToleranceMatch_def abs_word_def upt_rec word_sless_alt)

end
