(* ===== verification/QaSpecs.thy ===== *)
theory QaSpecs
  imports QaDisks NicList
begin

text \<open>
  Checking a unit against the specification of its model (\<open>pkg/mfg/qa/qa.go\<close>, \<open>dmi.go\<close>, \<open>cpu.go\<close>, \<open>nic.go\<close>): what
  is read of processors, memory, network cards and DMI, the comparison with what is required, and
  \<open>Validate\<close>, which ends the program unless all agree.  What the kernel and \<open>dmidecode\<close> report is a record.
\<close>

section \<open>Processors\<close>

record CPUInfo =
  ci_Model :: string
  ci_Cores :: int
  ci_Sockets :: int
  ci_Errors :: bool

definition no_cpu :: CPUInfo where
  "no_cpu = \<lparr>ci_Model = [], ci_Cores = 0, ci_Sockets = 0, ci_Errors = False\<rparr>"

definition split_colon :: "string \<Rightarrow> (string \<times> string) option" where
  "split_colon s = map_option (\<lambda>i. (take i s, drop (i + 1) s)) (index_of '':'' s)"

definition cpuinfo_line :: "string \<Rightarrow> int \<times> CPUInfo \<Rightarrow> int \<times> CPUInfo" where
  "cpuinfo_line l st =
     (case st of (index, c) \<Rightarrow>
        (case split_colon l of
           None \<Rightarrow> (index, c)
         | Some (k, v) \<Rightarrow>
             if TrimSpace k = ''processor''
             then (case ParseInt10 (TrimSpace v) of
                     (i, err) \<Rightarrow> (i, c\<lparr>ci_Cores := ci_Cores c + 1, ci_Errors := ci_Errors c \<or> err\<rparr>))
             else if TrimSpace k = ''model name''
             then
               (if ci_Model c = [] \<and> index = 0 then (index, c\<lparr>ci_Model := TrimSpace v\<rparr>)
                else (index, if ci_Model c \<noteq> TrimSpace v then c\<lparr>ci_Errors := True\<rparr> else c))
             else (index, c)))"

text \<open>The socket of a processor, and whether reading it failed.\<close>

definition socket_of :: "fread \<Rightarrow> int \<times> bool" where
  "socket_of f = (case f of NoFile \<Rightarrow> (0, False) | ReadError \<Rightarrow> (0, True) | Content c \<Rightarrow> ParseInt10 (TrimSpace c))"

definition sysCpuDir :: string where "sysCpuDir = ''/sys/devices/system/cpu''"

definition count_sockets :: "(string \<Rightarrow> fread) \<Rightarrow> (string \<times> bool) list \<Rightarrow> int \<times> bool" where
  "count_sockets files entries =
     (let cpus = filter (\<lambda>e. has_prefix (fst e) ''cpu'' \<and> snd e) entries;
          ss = map (\<lambda>e. socket_of (files (path_Join [sysCpuDir, fst e, ''topology/physical_package_id'']))) cpus
      in (int (length (remdups (map fst ss))), list_ex snd ss))"

definition CPUInfo_Read :: "string option \<Rightarrow> (string \<Rightarrow> fread) \<Rightarrow> (string \<times> bool) list option \<Rightarrow> CPUInfo \<Rightarrow> CPUInfo" where
  "CPUInfo_Read cpuinfo files entries c =
     (let c1 = (case cpuinfo of
                  None \<Rightarrow> c\<lparr>ci_Errors := True\<rparr>
                | Some buf \<Rightarrow>
                    (let c0 = snd (fold cpuinfo_line (scanned buf) (0, c))
                     in if scan_lines buf = None then c0\<lparr>ci_Errors := True\<rparr> else c0));
          s = count_sockets files (case entries of Some es \<Rightarrow> es | None \<Rightarrow> [])
      in c1\<lparr>ci_Sockets := fst s, ci_Errors := ci_Errors c1 \<or> entries = None \<or> snd s\<rparr>)"

section \<open>Memory\<close>

text \<open>\<open>getRam\<close>: the lines of /proc/meminfo; a last line without a newline is a fatal error.\<close>

fun getRam_lines :: "string list \<Rightarrow> u64 fatal" where
  "getRam_lines [] = Fatal"
| "getRam_lines [l] = Fatal"
| "getRam_lines (l # ls) =
     (if has_prefix l ''MemTotal:''
      then
        (case ParseUint10 64 (hd (split_on CHR '' '' (TrimSpace (split_on CHR '':'' l ! 1)))) of
           None \<Rightarrow> Fatal
         | Some kb \<Rightarrow> Ok (word_of_nat (kb div 1024)))
      else getRam_lines ls)"

definition getRam :: "string option \<Rightarrow> u64 fatal" where
  "getRam meminfo = (case meminfo of None \<Rightarrow> Fatal | Some d \<Rightarrow> getRam_lines (split_on newline d))"

text \<open>
  The comparison is one of \<open>float64\<close> values: both numbers are rounded to 53 bits, so are the products with
  the constants 1.01 and 0.99, which are these numerators over \<open>2 ^ 52\<close>.
\<close>

definition RamMegs_Compare :: "u64 \<Rightarrow> u64 \<Rightarrow> nat" where
  "RamMegs_Compare req det =
     (if round53 (unat det) * 2 ^ 52 < round53 (round53 (unat req) * 4548635623644201)
        \<and> round53 (round53 (unat req) * 4458563631096791) < round53 (unat det) * 2 ^ 52
      then 0 else 1)"

section \<open>Network cards\<close>

record iface =
  if_Name :: string
  if_Loopback :: bool
  if_Mac :: bytes

definition mac_String :: "bytes \<Rightarrow> string" where
  "mac_String m = join_with '':'' (map hex2 m)"

text \<open>Cards with the prefix, whether their addresses are consecutive, and all cards.\<close>

definition GetNicInfo ::
    "((64 word \<Rightarrow> 64 word \<Rightarrow> bool) \<Rightarrow> 64 word list \<Rightarrow> 64 word list) \<Rightarrow> string \<Rightarrow> iface list \<Rightarrow> int \<times> bool \<times> int" where
  "GetNicInfo srt pfx interfaces =
     (let nics = filter (\<lambda>i. has_prefix (if_Name i) ''e'' \<and> \<not> if_Loopback i) interfaces;
          prefixedMacs = filter (\<lambda>m. has_prefix (mac_String m) pfx) (map if_Mac nics)
      in (int (length prefixedMacs), Sequential (MACList_Sort srt (SortableMacs prefixedMacs)), int (length nics)))"

section \<open>DMI data and firmware\<close>

type_synonym DmiMap = "(string \<times> string) list"

text \<open>What a key of the map asks for; \<open>None\<close> if it is a bad entry.\<close>

datatype dmi_query = AskString string | AskField int int string

definition dmi_key :: "string \<Rightarrow> dmi_query option" where
  "dmi_key k =
     (case index_of '' '' k of
        None \<Rightarrow> Some (AskString k)
      | Some i \<Rightarrow>
          (let s0 = take i k; s1 = drop (i + 1) k;
               name = (if contains s1 '':'' then s1 else s1 @ '':'')
           in if contains s0 ''[''
              then
                (case split_on CHR ''['' s0 of
                   [t0, t1] \<Rightarrow>
                     (case ParseInt10 (Trim CHR '']'' t1) of
                        (e, True) \<Rightarrow> None
                      | (e, False) \<Rightarrow>
                          (case ParseInt10 t0 of (ty, True) \<Rightarrow> None | (ty, False) \<Rightarrow> Some (AskField ty e name)))
                 | _ \<Rightarrow> None)
              else (case ParseInt10 s0 of (ty, True) \<Rightarrow> None | (ty, False) \<Rightarrow> Some (AskField ty 0 name))))"

fun DmiMap_Populate ::
    "(string \<Rightarrow> bool \<times> string) \<Rightarrow> (int \<Rightarrow> bool \<times> string) \<Rightarrow> DmiMap \<Rightarrow> dmiCache \<Rightarrow> DmiMap outcome \<times> dmiCache" where
  "DmiMap_Populate runs runt [] d = (Returns [], d)"
| "DmiMap_Populate runs runt ((k, v) # m) d =
     (case (case dmi_key k of
              None \<Rightarrow> (Returns v, d)
            | Some (AskString key) \<Rightarrow> dmi_str runs key d
            | Some (AskField ty e name) \<Rightarrow> (Returns (dmi_fieldN runt ty e name d), d)) of
        (Panics, d1) \<Rightarrow> (Panics, d1)
      | (Returns v1, d1) \<Rightarrow>
          (case DmiMap_Populate runs runt m d1 of
             (Panics, d2) \<Rightarrow> (Panics, d2)
           | (Returns m1, d2) \<Rightarrow> (Returns ((k, v1) # m1), d2)))"

definition is_comment :: "string \<Rightarrow> bool" where
  "is_comment k \<longleftrightarrow> length k > 1 \<and> hd k = CHR ''_''"

definition dmi_get :: "DmiMap \<Rightarrow> string \<Rightarrow> string" where
  "dmi_get m k = (case map_of m k of Some v \<Rightarrow> v | None \<Rightarrow> [])"

definition DmiMap_Compare :: "DmiMap \<Rightarrow> DmiMap \<Rightarrow> nat" where
  "DmiMap_Compare required detected =
     length (filter (\<lambda>(k, v). \<not> is_comment k \<and> dmi_get detected k \<noteq> v) required)"

record FirmwareVer =
  fv_BIOS :: string
  fv_IPMI :: string
  fv_FRU :: string
  fv_SDR :: string
  fv_ME :: string

definition no_firmware :: FirmwareVer where
  "no_firmware = \<lparr>fv_BIOS = [], fv_IPMI = [], fv_FRU = [], fv_SDR = [], fv_ME = []\<rparr>"

text \<open>The IPMI versions are left alone: \<open>ipmi.Available\<close> answers no on every unit.\<close>

definition ipmi_Available :: bool where
  "ipmi_Available = False"

definition FirmwareVer_Populate ::
    "(string \<Rightarrow> bool \<times> string) \<Rightarrow> (string \<times> string \<times> string \<times> string) \<Rightarrow> FirmwareVer \<Rightarrow> dmiCache \<Rightarrow> FirmwareVer outcome \<times> dmiCache" where
  "FirmwareVer_Populate runs versions f d =
     (case dmi_str runs ''bios-version'' d of
        (Panics, d1) \<Rightarrow> (Panics, d1)
      | (Returns b, d1) \<Rightarrow>
          (Returns
            (if ipmi_Available
             then (case versions of (i, fr, s, me) \<Rightarrow> f\<lparr>fv_BIOS := b, fv_IPMI := i, fv_FRU := fr, fv_SDR := s, fv_ME := me\<rparr>)
             else f\<lparr>fv_BIOS := b\<rparr>), d1))"

definition version_error :: "string \<Rightarrow> string \<Rightarrow> nat" where
  "version_error required detected = (if required \<noteq> [] \<and> required \<noteq> detected then 1 else 0)"

definition FirmwareVer_Compare :: "FirmwareVer \<Rightarrow> FirmwareVer \<Rightarrow> nat" where
  "FirmwareVer_Compare required detected =
     version_error (fv_BIOS required) (fv_BIOS detected) + version_error (fv_IPMI required) (fv_IPMI detected)
     + version_error (fv_FRU required) (fv_FRU detected) + version_error (fv_SDR required) (fv_SDR detected)
     + version_error (fv_ME required) (fv_ME detected)"

section \<open>Specifications\<close>

record Specs =
  sp_DevCodeName :: string
  sp_CPUInfo :: CPUInfo
  sp_RamMegs :: u64
  sp_Recovery :: Disk
  sp_MainDiskConfigs :: "Disk list list"
  sp_chosenDiskCfg :: int
  sp_mainDisks :: "Disk list"
  sp_NumOUINics :: int
  sp_OUINicsSequential :: bool
  sp_TotalNics :: int
  sp_FirmwareVer :: FirmwareVer
  sp_PCI :: "BusDevice list"
  sp_USB :: "BusDevice list"
  sp_SerNumRegex :: string
  sp_DmiMatches :: DmiMap

definition no_disk :: Disk where
  "no_disk = \<lparr>dk_Size = 0, dk_SizeTolerancePct = 0, dk_Vendor = [], dk_Model = [], dk_Quantity = 0, dk_dev = []\<rparr>"

definition no_specs :: Specs where
  "no_specs =
     \<lparr>sp_DevCodeName = [], sp_CPUInfo = no_cpu, sp_RamMegs = 0, sp_Recovery = no_disk, sp_MainDiskConfigs = [],
      sp_chosenDiskCfg = 0, sp_mainDisks = [], sp_NumOUINics = 0, sp_OUINicsSequential = False, sp_TotalNics = 0,
      sp_FirmwareVer = no_firmware, sp_PCI = [], sp_USB = [], sp_SerNumRegex = [], sp_DmiMatches = []\<rparr>"

text \<open>What the unit reports.\<close>

record qa_unit =
  qu_SerNum :: string
  qu_CodeName :: string
  qu_cpuinfo :: "string option"
  qu_cpudir :: "(string \<times> bool) list option"
  qu_files :: "string \<Rightarrow> fread"
  qu_meminfo :: "string option"
  qu_ifaces :: "iface list"
  qu_blocks :: "BlockDev list"
  qu_pci :: "string list option"
  qu_usb :: "string list option"
  qu_dmi_s :: "string \<Rightarrow> bool \<times> string"
  qu_dmi_t :: "int \<Rightarrow> bool \<times> string"
  qu_ipmi :: "string \<times> string \<times> string \<times> string"

definition SanityCheck :: "Specs \<Rightarrow> bool" where
  "SanityCheck r \<longleftrightarrow> sp_MainDiskConfigs r \<noteq> [] \<and> \<not> list_ex (\<lambda>c. c = []) (sp_MainDiskConfigs r)
     \<and> \<not> dk_Size (sp_Recovery r) < 1073741824"

text \<open>\<open>checkSN\<close>: an expression that does not compile is fatal, a mismatch unless the unit was identified by the fallback.\<close>

definition checkSN :: "(string \<Rightarrow> string \<Rightarrow> bool option) \<Rightarrow> bool \<Rightarrow> string \<Rightarrow> string \<Rightarrow> bool" where
  "checkSN re_match viaFallback sn re =
     (case re_match re sn of None \<Rightarrow> False | Some m \<Rightarrow> m \<or> viaFallback)"

definition InitDetected :: "Specs \<Rightarrow> Specs fatal" where
  "InitDetected r =
     (case initDisks (sp_MainDiskConfigs r) of
        Fatal \<Rightarrow> Fatal
      | Panicked \<Rightarrow> Panicked
      | Ok cfgs \<Rightarrow>
          Ok (no_specs\<lparr>sp_Recovery := (sp_Recovery r)\<lparr>dk_Size := 0\<rparr>, sp_MainDiskConfigs := cfgs,
                sp_DmiMatches := map (\<lambda>k. (k, [])) (filter (\<lambda>k. \<not> is_comment k) (map fst (sp_DmiMatches r)))\<rparr>))"

definition Specs_Populate ::
    "((64 word \<Rightarrow> 64 word \<Rightarrow> bool) \<Rightarrow> 64 word list \<Rightarrow> 64 word list) \<Rightarrow> string \<Rightarrow> qa_unit \<Rightarrow> Specs \<Rightarrow> dmiCache \<Rightarrow> (Specs \<times> dmiCache) fatal" where
  "Specs_Populate srt pfx u s d =
     (case getRam (qu_meminfo u) of
        Fatal \<Rightarrow> Fatal
      | Panicked \<Rightarrow> Panicked
      | Ok ram \<Rightarrow>
          (case populateDisks (sp_MainDiskConfigs s) (FoundDisks (qu_blocks u)) of
             Fatal \<Rightarrow> Fatal
           | Panicked \<Rightarrow> Panicked
           | Ok (mds, idx, cfgs) \<Rightarrow>
               (case DmiMap_Populate (qu_dmi_s u) (qu_dmi_t u) (sp_DmiMatches s) d of
                  (Panics, d1) \<Rightarrow> Panicked
                | (Returns dmi, d1) \<Rightarrow>
                    (case FirmwareVer_Populate (qu_dmi_s u) (qu_ipmi u) (sp_FirmwareVer s) d1 of
                       (Panics, d2) \<Rightarrow> Panicked
                     | (Returns fw, d2) \<Rightarrow>
                         (case GetNicInfo srt pfx (qu_ifaces u) of (oui, sequ, tot) \<Rightarrow>
                           Ok (s\<lparr>sp_DevCodeName := qu_CodeName u,
                                 sp_CPUInfo := CPUInfo_Read (qu_cpuinfo u) (qu_files u) (qu_cpudir u) (sp_CPUInfo s),
                                 sp_RamMegs := ram, sp_NumOUINics := oui, sp_OUINicsSequential := sequ, sp_TotalNics := tot,
                                 sp_Recovery := disk_populate (qu_blocks u) (sp_Recovery s),
                                 sp_mainDisks := mds, sp_chosenDiskCfg := idx, sp_MainDiskConfigs := cfgs,
                                 sp_PCI := bdpopulate (qu_files u) pcidevs (qu_pci u) (sp_PCI s),
                                 sp_USB := bdpopulate (qu_files u) usbdevs (qu_usb u) (sp_USB s),
                                 sp_DmiMatches := dmi, sp_FirmwareVer := fw\<rparr>, d2))))))"

definition logNE :: "'a \<Rightarrow> 'a \<Rightarrow> nat" where
  "logNE required detected = (if required \<noteq> detected then 1 else 0)"

definition Specs_Compare :: "Specs \<Rightarrow> Specs \<Rightarrow> nat" where
  "Specs_Compare required detected =
     logNE (sp_CPUInfo required) (sp_CPUInfo detected)
     + logNE (sp_NumOUINics required) (sp_NumOUINics detected)
     + logNE (sp_OUINicsSequential required) (sp_OUINicsSequential detected)
     + logNE (sp_TotalNics required) (sp_TotalNics detected)
     + RamMegs_Compare (sp_RamMegs required) (sp_RamMegs detected)
     + FirmwareVer_Compare (sp_FirmwareVer required) (sp_FirmwareVer detected)
     + RecoveryDisk_Compare (sp_Recovery required) (sp_Recovery detected)
     + MainDiskConfigs_Compare (sp_MainDiskConfigs required) (sp_mainDisks detected) (sp_chosenDiskCfg detected)
     + UsbDevices_Compare (sp_USB required) (sp_USB detected)
     + PciDevices_Compare (sp_PCI required) (sp_PCI detected)
     + DmiMap_Compare (sp_DmiMatches required) (sp_DmiMatches detected)"

text \<open>\<open>Validate\<close>: what was detected, if the unit passes.\<close>

definition Validate ::
    "((64 word \<Rightarrow> 64 word \<Rightarrow> bool) \<Rightarrow> 64 word list \<Rightarrow> 64 word list) \<Rightarrow> (string \<Rightarrow> string \<Rightarrow> bool option) \<Rightarrow> bool \<Rightarrow> string
      \<Rightarrow> qa_unit \<Rightarrow> Specs \<Rightarrow> dmiCache \<Rightarrow> (Specs \<times> dmiCache) fatal" where
  "Validate srt re_match viaFallback pfx u required d =
     (if \<not> SanityCheck required then Fatal
      else if \<not> checkSN re_match viaFallback (qu_SerNum u) (sp_SerNumRegex required) then Fatal
      else
        (case InitDetected required of
           Fatal \<Rightarrow> Fatal
         | Panicked \<Rightarrow> Panicked
         | Ok s \<Rightarrow>
             (case Specs_Populate srt pfx u s d of
                Fatal \<Rightarrow> Fatal
              | Panicked \<Rightarrow> Panicked
              | Ok (detected, d1) \<Rightarrow>
                  if Specs_Compare required detected \<noteq> 0 then Fatal else Ok (detected, d1))))"

section \<open>A unit that passes\<close>

text \<open>No unit passes that must have some version of the IPMI firmware: the version is never read.\<close>

lemma ipmi_version_never_matches:
  "FirmwareVer_Populate runs versions no_firmware d = (Returns fw, d1) \<Longrightarrow> fv_IPMI required \<noteq> []
   \<Longrightarrow> FirmwareVer_Compare required fw \<noteq> 0"
  by (auto simp: FirmwareVer_Populate_def ipmi_Available_def FirmwareVer_Compare_def version_error_def no_firmware_def
      split: prod.splits outcome.splits)

lemma DmiMap_Populate_keys: "DmiMap_Populate runs runt m d = (Returns m1, d1) \<Longrightarrow> map fst m1 = map fst m"
  by (induction runs runt m d arbitrary: m1 d1 rule: DmiMap_Populate.induct)
    (auto split: outcome.splits prod.splits option.splits dmi_query.splits)

text \<open>The number of devices of a kind on a bus.\<close>

definition on_bus :: "qa_unit \<Rightarrow> string \<Rightarrow> string list option \<Rightarrow> BusDevice \<Rightarrow> nat" where
  "on_bus u src entries r =
     count_list (kinds (qu_files u) (map (\<lambda>e. path_Join [src, e]) (case entries of Some es \<Rightarrow> es | None \<Rightarrow> []))) (bd_triple r)"

definition bus_ok :: "qa_unit \<Rightarrow> string \<Rightarrow> string list option \<Rightarrow> BusDevice list \<Rightarrow> bool" where
  "bus_ok u src entries required \<longleftrightarrow> list_all (\<lambda>r. bd_Quantity r = word_of_nat (on_bus u src entries r)) required"

definition recovery_ok :: "qa_unit \<Rightarrow> Disk \<Rightarrow> bool" where
  "recovery_ok u req \<longleftrightarrow>
     (let ms = matching req (qu_blocks u); s = common_size (map bk_Size ms) 0
      in int (length ms) = (if dk_Quantity req = 0 then 1 else dk_Quantity req)
         \<and> SizeToleranceMatch s (dk_Size req) (dk_SizeTolerancePct req) \<and> (s \<noteq> 0 \<or> length ms = 1))"

definition main_disks_ok :: "qa_unit \<Rightarrow> Disk list \<Rightarrow> bool" where
  "main_disks_ok u cfg \<longleftrightarrow> disks_Qty cfg + 1 = int (length (qu_blocks u))
     \<and> list_all (\<lambda>r. list_ex (fits r) (FoundDisks (qu_blocks u))) cfg"

lemma disks_Qty_FoundDisks: "disks_Qty (FoundDisks devs) = int (length devs)"
proof -
  have one: "disks_Qty (found_add dev l) = disks_Qty l + 1" for dev l
    by (induction l) (simp_all add: disks_Qty_def)
  have "disks_Qty (fold found_add devs l) = disks_Qty l + int (length devs)" for l
    by (induction devs arbitrary: l) (simp_all add: one)
  then show ?thesis
    by (simp add: FoundDisks_def disks_Qty_def)
qed

lemma bdcompare_ok:
  assumes "bdcompare required (bdpopulate (qu_files u) src entries []) = 0"
  shows "bus_ok u src entries required"
proof -
  let ?ks = "kinds (qu_files u) (map (\<lambda>e. path_Join [src, e]) (case entries of Some es \<Rightarrow> es | None \<Rightarrow> []))"
  have "counts [] []"
    by (simp add: counts_def)
  then have c: "counts ?ks (bdpopulate (qu_files u) src entries [])"
    using counts_populate [of "[]" "[]" "qu_files u"]
    by (cases entries) (simp_all add: bdpopulate_def listDevs_def kinds_def [of _ "[]"] del: map_map)
  have "bd_Quantity r = word_of_nat (count_list ?ks (bd_triple r))" if "r \<in> set required" for r
  proof -
    have "bdcompare_one r (bdpopulate (qu_files u) src entries []) = 0"
      using assms that by (auto simp: bdcompare_def)
    then show ?thesis
      unfolding bdcompare_one_counts [OF c] by (simp split: if_splits)
  qed
  then show ?thesis
    by (simp add: bus_ok_def on_bus_def list_all_iff)
qed

lemma RecoveryDisk_Compare_ok:
  "RecoveryDisk_Compare req (disk_populate (qu_blocks u) (req\<lparr>dk_Size := 0\<rparr>)) = 0 \<Longrightarrow> recovery_ok u req"
  unfolding recovery_disk_checked recovery_ok_def by (simp add: Let_def)

text \<open>The cards are as many as required, altogether and with the prefix of the maker, and the addresses of the latter
  are, or are not, consecutive numbers.\<close>

definition nics_ok :: "string \<Rightarrow> qa_unit \<Rightarrow> Specs \<Rightarrow> bool" where
  "nics_ok pfx u r \<longleftrightarrow>
     (let nics = filter (\<lambda>i. has_prefix (if_Name i) ''e'' \<and> \<not> if_Loopback i) (qu_ifaces u);
          macs = filter (\<lambda>m. has_prefix (mac_String m) pfx) (map if_Mac nics)
      in int (length nics) = sp_TotalNics r \<and> int (length macs) = sp_NumOUINics r
         \<and> sp_OUINicsSequential r = (\<exists>a. sort (map to_umac macs) = map (\<lambda>i. a + word_of_nat i) [0..<length macs]))"

lemma Sequential_iff: "Sequential xs \<longleftrightarrow> (\<exists>a. xs = map (\<lambda>i. a + word_of_nat i) [0..<length xs])"
proof (induction xs rule: Sequential.induct)
  case (1 x y m)
  have step: "map (\<lambda>i. a + word_of_nat i) [0..<Suc n] = a # map (\<lambda>i. (a + 1) + word_of_nat i) [0..<n]" for a :: "64 word" and n
    by (simp add: upt_conv_Cons map_Suc_upt [symmetric] ac_simps del: upt_Suc)
  have "(\<exists>a. x # y # m = map (\<lambda>i. a + word_of_nat i) [0..<length (x # y # m)]) \<longleftrightarrow>
      y # m = map (\<lambda>i. (x + 1) + word_of_nat i) [0..<length (y # m)]"
    unfolding length_Cons step by auto
  also have "\<dots> \<longleftrightarrow> x + 1 = y \<and> (\<exists>a. y # m = map (\<lambda>i. a + word_of_nat i) [0..<length (y # m)])"
    unfolding length_Cons step by auto
  finally show ?case
    using 1 by auto
qed auto

lemma GetNicInfo_ok:
  assumes "go_sort srt" "GetNicInfo srt pfx (qu_ifaces u) = (sp_NumOUINics r, sp_OUINicsSequential r, sp_TotalNics r)"
  shows "nics_ok pfx u r"
  using assms(2)
  by (simp add: GetNicInfo_def nics_ok_def Let_def MACList_Sort_def SortableMacs_def sort_by_less [OF assms(1)] Sequential_iff)

text \<open>
  C9: what it takes to pass the check: the serial number matches the pattern, or the unit was identified by the
  fallback for prototypes (the pattern itself is in order in both cases); the recovery disk is there as required,
  one of the configurations of main disks is there and no other disk, every device required on the buses
  is there in its quantity, and the network cards are as many as required, those with the prefix of the maker
  too, with consecutive addresses exactly if that is required.
\<close>

theorem Validate_sound:
  assumes "Validate srt re_match viaFallback pfx u required d = Ok r" "go_sort srt"
  shows "(\<exists>m. re_match (sp_SerNumRegex required) (qu_SerNum u) = Some m \<and> (m \<or> viaFallback))
    \<and> recovery_ok u (sp_Recovery required)
    \<and> list_ex (main_disks_ok u) (sp_MainDiskConfigs required)
    \<and> bus_ok u pcidevs (qu_pci u) (sp_PCI required) \<and> bus_ok u usbdevs (qu_usb u) (sp_USB required)
    \<and> nics_ok pfx u required"
proof -
  obtain s det d1 where v: "checkSN re_match viaFallback (qu_SerNum u) (sp_SerNumRegex required)"
    "InitDetected required = Ok s" "Specs_Populate srt pfx u s d = Ok (det, d1)" "Specs_Compare required det = 0"
    using assms by (auto simp: Validate_def split: if_splits fatal.splits prod.splits)
  obtain cfgs where cfgs: "initDisks (sp_MainDiskConfigs required) = Ok cfgs"
    "sp_Recovery s = (sp_Recovery required)\<lparr>dk_Size := 0\<rparr>" "sp_MainDiskConfigs s = cfgs" "sp_PCI s = []" "sp_USB s = []"
    using v(2) by (auto simp: InitDetected_def no_specs_def split: fatal.splits)
  obtain mds idx cfgs1 oui sequ tot where p: "populateDisks cfgs (FoundDisks (qu_blocks u)) = Ok (mds, idx, cfgs1)"
    "GetNicInfo srt pfx (qu_ifaces u) = (oui, sequ, tot)"
    "sp_NumOUINics det = oui" "sp_OUINicsSequential det = sequ" "sp_TotalNics det = tot"
    "sp_Recovery det = disk_populate (qu_blocks u) ((sp_Recovery required)\<lparr>dk_Size := 0\<rparr>)"
    "sp_mainDisks det = mds" "sp_chosenDiskCfg det = idx"
    "sp_PCI det = bdpopulate (qu_files u) pcidevs (qu_pci u) []" "sp_USB det = bdpopulate (qu_files u) usbdevs (qu_usb u) []"
    using v(3) cfgs(2-5) by (auto simp: Specs_Populate_def split: fatal.splits prod.splits outcome.splits)
  note zero = v(4) [unfolded Specs_Compare_def p(3-10) logNE_def PciDevices_Compare_def UsbDevices_Compare_def]
  obtain k where "k < length (sp_MainDiskConfigs required)"
    "disks_Qty (FoundDisks (qu_blocks u)) = disks_Qty (sp_MainDiskConfigs required ! k) + 1"
    "list_all (\<lambda>r. list_ex (fits r) (FoundDisks (qu_blocks u))) (sp_MainDiskConfigs required ! k)"
    using main_disks_check_sound [OF cfgs(1) p(1)] zero by auto
  then have "list_ex (main_disks_ok u) (sp_MainDiskConfigs required)"
    by (auto simp: list_ex_length main_disks_ok_def disks_Qty_FoundDisks)
  moreover have "nics_ok pfx u required"
    using GetNicInfo_ok [OF assms(2)] p(2) zero by (auto split: if_splits)
  moreover have "\<exists>m. re_match (sp_SerNumRegex required) (qu_SerNum u) = Some m \<and> (m \<or> viaFallback)"
    using v(1) by (auto simp: checkSN_def split: option.splits)
  ultimately show ?thesis
    using zero RecoveryDisk_Compare_ok bdcompare_ok by (auto split: if_splits)
qed

definition sample_unit :: qa_unit where
  "sample_unit =
     \<lparr>qu_SerNum = ''SN1'', qu_CodeName = ''QEMU'', qu_cpuinfo = Some '''', qu_cpudir = Some [], qu_files = (\<lambda>_. NoFile),
      qu_meminfo = Some (''MemTotal:  16384 kB'' @ [newline]), qu_ifaces = [],
      qu_blocks = [\<lparr>bk_Name = ''/dev/sda'', bk_Size = 98, bk_Model = ''B'', bk_Vendor = ''ATA''\<rparr>,
        \<lparr>bk_Name = ''/dev/sdb'', bk_Size = 2147483648, bk_Model = ''R'', bk_Vendor = ''USB''\<rparr>],
      qu_pci = Some [], qu_usb = None, qu_dmi_s = (\<lambda>_. (False, '''')), qu_dmi_t = (\<lambda>_. (False, '''')),
      qu_ipmi = ([], [], [], [])\<rparr>"

definition sample_specs :: Specs where
  "sample_specs = no_specs\<lparr>sp_RamMegs := 16, sp_Recovery := no_disk\<lparr>dk_Size := 2147483648, dk_Model := ''R'', dk_Vendor := ''USB''\<rparr>,
     sp_MainDiskConfigs := [[sample_disk 50 ''A'' 1], [sample_disk 100 ''B'' 1]], sp_OUINicsSequential := True\<rparr>"

lemma sample_ram: "getRam (qu_meminfo sample_unit) = Ok 16" "RamMegs_Compare 16 16 = 0"
   apply (simp add: sample_unit_def getRam_def newline_def has_prefix_def TrimSpace_def is_space_def ParseUint10_def all_digits_def
      dec_val_def digit_val_def)
  by (simp add: RamMegs_Compare_def round53_def bitlen.simps round_half_even_def)

lemma sample_disks:
  "FoundDisks (qu_blocks sample_unit) = [\<lparr>dk_Size = 98, dk_SizeTolerancePct = 0, dk_Vendor = ''ATA'', dk_Model = ''B'', dk_Quantity = 1, dk_dev = []\<rparr>,
     \<lparr>dk_Size = 2147483648, dk_SizeTolerancePct = 0, dk_Vendor = ''USB'', dk_Model = ''R'', dk_Quantity = 1, dk_dev = []\<rparr>]"
  by (simp add: sample_unit_def FoundDisks_def same_disk_def)

lemma sample_populate:
  "initDisks (sp_MainDiskConfigs sample_specs) = Ok [[sample_disk 0 ''A'' 1], [sample_disk 0 ''B'' 1]]"
  "populateDisks [[sample_disk 0 ''A'' 1], [sample_disk 0 ''B'' 1]] (FoundDisks (qu_blocks sample_unit)) =
     Ok ([sample_disk 98 ''B'' 1], 1, [[sample_disk 0 ''A'' 1], [sample_disk 0 ''B'' 1]])"
   by (simp_all add: sample_disks initDisks_def sample_specs_def populateDisks_def cfgMatch_def disks_Qty_def sample_disk_def
     compareMV_def found_size_def upt_rec)

lemma sample_passes:
  "\<exists>r. Validate insertionSort (\<lambda>_ _. Some True) False [] sample_unit sample_specs (TestingMock Map.empty None) = Ok r"
proof -
  have c: "SanityCheck sample_specs"
    by (simp add: SanityCheck_def sample_specs_def no_disk_def)
  have d: "sp_DmiMatches sample_specs = []" "sp_CPUInfo sample_specs = no_cpu" "sp_PCI sample_specs = []" "sp_USB sample_specs = []"
     "sp_FirmwareVer sample_specs = no_firmware" "sp_NumOUINics sample_specs = 0" "sp_TotalNics sample_specs = 0" "sp_OUINicsSequential sample_specs"
     "sp_RamMegs sample_specs = 16"
    by (simp_all add: sample_specs_def no_specs_def)
  have r: "RecoveryDisk_Compare (sp_Recovery sample_specs) (disk_populate (qu_blocks sample_unit) ((sp_Recovery sample_specs)\<lparr>dk_Size := 0\<rparr>)) = 0"
    by (simp add: sample_specs_def sample_unit_def no_disk_def RecoveryDisk_Compare_def Disk_Compare_def disk_populate_def Let_def
       SizeToleranceMatch_def abs_word_def)
  have cpu: "CPUInfo_Read (qu_cpuinfo sample_unit) (qu_files sample_unit) (qu_cpudir sample_unit) no_cpu = no_cpu"
    by (simp add: sample_unit_def CPUInfo_Read_def scanned_def scan_lines_def count_sockets_def no_cpu_def)
  have nic: "GetNicInfo insertionSort [] (qu_ifaces sample_unit) = (0, True, 0)"
    by (simp add: sample_unit_def GetNicInfo_def MACList_Sort_def SortableMacs_def sort_by_less [OF insertion.go_sort_axioms])
  have fw: "FirmwareVer_Populate runs versions no_firmware (TestingMock Map.empty None) = (Returns no_firmware, TestingMock Map.empty None)" for runs versions
    by (simp add: FirmwareVer_Populate_def dmi_str_def TestingMock_def no_firmware_def ipmi_Available_def)
  have main: "MainDiskConfigs_Compare (sp_MainDiskConfigs sample_specs) [sample_disk 98 ''B'' 1] 1 = 0"
    by (simp add: sample_specs_def sample_disk_def MainDiskConfigs_Compare_def MainDisks_Compare_def Disk_Compare_def
        SizeToleranceMatch_def abs_word_def word_sless_alt)
  let ?s = "no_specs\<lparr>sp_Recovery := (sp_Recovery sample_specs)\<lparr>dk_Size := 0\<rparr>,
    sp_MainDiskConfigs := [[sample_disk 0 ''A'' 1], [sample_disk 0 ''B'' 1]]\<rparr>"
  have init: "InitDetected sample_specs = Ok ?s"
    by (simp add: InitDetected_def sample_populate d) (simp add: no_specs_def)
  obtain det where det: "Specs_Populate insertionSort [] sample_unit ?s (TestingMock Map.empty None) = Ok (det, TestingMock Map.empty None)"
    "sp_CPUInfo det = no_cpu" "sp_RamMegs det = 16" "sp_NumOUINics det = 0" "sp_OUINicsSequential det" "sp_TotalNics det = 0"
    "sp_Recovery det = disk_populate (qu_blocks sample_unit) ((sp_Recovery sample_specs)\<lparr>dk_Size := 0\<rparr>)"
    "sp_mainDisks det = [sample_disk 98 ''B'' 1]" "sp_chosenDiskCfg det = 1" "sp_FirmwareVer det = no_firmware"
    by (simp add: Specs_Populate_def sample_ram sample_populate nic fw no_specs_def cpu)
  have "Specs_Compare sample_specs det = 0"
    unfolding Specs_Compare_def det d by (simp add: det(5) d(8) logNE_def sample_ram r main FirmwareVer_Compare_def version_error_def
        no_firmware_def PciDevices_Compare_def UsbDevices_Compare_def bdcompare_def DmiMap_Compare_def)
  then show ?thesis
    by (simp add: Validate_def c checkSN_def init det)
qed

theorem Validate_sound_witness:
  "recovery_ok sample_unit (sp_Recovery sample_specs) \<and> list_ex (main_disks_ok sample_unit) (sp_MainDiskConfigs sample_specs)
   \<and> nics_ok [] sample_unit sample_specs"
proof -
  obtain r where r: "Validate insertionSort (\<lambda>_ _. Some True) False [] sample_unit sample_specs (TestingMock Map.empty None) = Ok r"
    using sample_passes by blast
  from Validate_sound [OF r insertion.go_sort_axioms] show ?thesis by simp
qed

end
