(* ===== verification/NetRoute.thy ===== *)
theory NetRoute
  imports NicXps
begin

text \<open>
  Routes (\<open>pkg/net/route_linux.go\<close>, \<open>ip.go\<close>): reading and printing them as the command \<open>ip\<close> does, and
  giving way to the default route of the WAN port.  The text form of IP addresses is the interface
  \<open>ip_text\<close>: a record of functions with laws, met here by dotted IPv4 addresses.
\<close>

section \<open>Addresses as text\<close>

record 'ip ip_funs =
  ip_parse :: "string \<Rightarrow> 'ip option"
  ip_show :: "'ip \<Rightarrow> string"
  ip_cidr :: "string \<Rightarrow> ('ip \<times> nat \<times> nat) option"

text \<open>A network: address, bits of the mask, bits of an address.\<close>

type_synonym 'ip IPNet = "'ip \<times> nat \<times> nat"

text \<open>\<open>IPNetFromCIDR\<close>: without a mask the address is a host.\<close>

definition IPNetFromCIDR :: "'ip ip_funs \<Rightarrow> string \<Rightarrow> 'ip IPNet option" where
  "IPNetFromCIDR ips cidr =
     ip_cidr ips (if contains cidr ''/'' then cidr else if contains cidr '':'' then cidr @ ''/128'' else cidr @ ''/32'')"

section \<open>Routes\<close>

text \<open>The kernel's numbers of protocols and scopes.\<close>

definition RTPROT_KERNEL :: int where "RTPROT_KERNEL = 2"
definition RTPROT_BOOT :: int where "RTPROT_BOOT = 3"
definition RTPROT_STATIC :: int where "RTPROT_STATIC = 4"
definition RTPROT_UNSPEC :: int where "RTPROT_UNSPEC = 0"

definition SCOPE_UNIVERSE :: "8 word" where "SCOPE_UNIVERSE = 0"
definition SCOPE_SITE :: "8 word" where "SCOPE_SITE = 200"
definition SCOPE_LINK :: "8 word" where "SCOPE_LINK = 253"
definition SCOPE_HOST :: "8 word" where "SCOPE_HOST = 254"
definition SCOPE_NOWHERE :: "8 word" where "SCOPE_NOWHERE = 255"

record 'ip Route =
  rt_Iface :: string
  rt_Gw :: "'ip option"
  rt_Proto :: int
  rt_Metric :: "64 word"
  rt_Src :: "'ip option"
  rt_Dest :: "'ip IPNet option"
  rt_Scope :: "8 word"

definition no_route :: "'ip Route" where
  "no_route = \<lparr>rt_Iface = [], rt_Gw = None, rt_Proto = 0, rt_Metric = 0, rt_Src = None, rt_Dest = None, rt_Scope = 0\<rparr>"

definition Route_Equal :: "'ip Route \<Rightarrow> 'ip Route \<Rightarrow> bool" where
  "Route_Equal l r \<longleftrightarrow> rt_Iface l = rt_Iface r \<and> rt_Proto l = rt_Proto r \<and> rt_Scope l = rt_Scope r \<and> rt_Metric l = rt_Metric r
     \<and> rt_Gw l = rt_Gw r \<and> rt_Src l = rt_Src r \<and> rt_Dest l = rt_Dest r"

definition str2proto :: "string \<Rightarrow> int" where
  "str2proto str =
     (if str = ''kernel'' then RTPROT_KERNEL
      else if str = ''boot'' \<or> str = ''dhcp'' then RTPROT_BOOT
      else if str = ''static'' then RTPROT_STATIC
      else (case ParseInt10 str of (i, err) \<Rightarrow> if err then RTPROT_UNSPEC else i))"

definition proto2str :: "int \<Rightarrow> string" where
  "proto2str p =
     (if p = RTPROT_KERNEL then ''kernel'' else if p = RTPROT_BOOT then ''dhcp'' else if p = RTPROT_STATIC then ''static''
      else show_int p)"

definition str2scope :: "string \<Rightarrow> 8 word" where
  "str2scope str =
     (if str = ''universe'' \<or> str = ''global'' then SCOPE_UNIVERSE
      else if str = ''site'' then SCOPE_SITE else if str = ''link'' then SCOPE_LINK
      else if str = ''host'' then SCOPE_HOST else if str = ''nowhere'' then SCOPE_NOWHERE
      else (case ParseInt10 str of (i, err) \<Rightarrow> if err then 0 else word_of_int i))"

definition scope2str :: "8 word \<Rightarrow> string" where
  "scope2str s =
     (if s = SCOPE_UNIVERSE then ''global'' else if s = SCOPE_SITE then ''site'' else if s = SCOPE_LINK then ''link''
      else if s = SCOPE_HOST then ''host'' else if s = SCOPE_NOWHERE then ''nowhere'' else show_dec (unat s))"

section \<open>Parsing\<close>

definition readRoutePair :: "'ip ip_funs \<Rightarrow> string \<Rightarrow> string \<Rightarrow> 'ip Route \<Rightarrow> 'ip Route option" where
  "readRoutePair ips k v r =
     (if k = ''via'' then Some (r\<lparr>rt_Gw := ip_parse ips v\<rparr>)
      else if k = ''dev'' then Some (r\<lparr>rt_Iface := v\<rparr>)
      else if k = ''src'' then Some (r\<lparr>rt_Src := ip_parse ips v\<rparr>)
      else if k = ''proto'' then Some (r\<lparr>rt_Proto := str2proto v\<rparr>)
      else if k = ''metric'' then Some (r\<lparr>rt_Metric := (case ParseUint10 64 v of Some n \<Rightarrow> word_of_nat n | None \<Rightarrow> 0)\<rparr>)
      else if k = ''scope'' then Some (r\<lparr>rt_Scope := str2scope v\<rparr>)
      else if k = ''uid'' then Some r
      else None)"

text \<open>Pairs of key and value; a word that is no key is skipped.\<close>

fun read_pairs :: "'ip ip_funs \<Rightarrow> string list \<Rightarrow> 'ip Route \<Rightarrow> 'ip Route" where
  "read_pairs ips [] r = r"
| "read_pairs ips [e] r = r"
| "read_pairs ips (k # v # es) r =
     (case readRoutePair ips k v r of
        Some r1 \<Rightarrow> read_pairs ips es r1
      | None \<Rightarrow> read_pairs ips (v # es) r)"

definition defaultVia :: string where "defaultVia = ''default via''"

definition parseRoute :: "'ip ip_funs \<Rightarrow> string \<Rightarrow> bool \<Rightarrow> 'ip Route option" where
  "parseRoute ips line onlyDefault =
     (if line = [] \<or> line = ''cache'' then None
      else if onlyDefault \<and> \<not> has_prefix line defaultVia then None
      else
        (let elements = split_on CHR '' '' line
         in if length elements < 7 then None
            else Some (read_pairs ips (tl elements)
                   (no_route\<lparr>rt_Dest := (if hd elements = ''default'' then None else IPNetFromCIDR ips (hd elements))\<rparr>))))"

definition parseRoutes :: "'ip ip_funs \<Rightarrow> string \<Rightarrow> bool \<Rightarrow> 'ip Route list" where
  "parseRoutes ips output onlyDefault =
     concat (map (\<lambda>line. case parseRoute ips (TrimSpace line) onlyDefault of None \<Rightarrow> [] | Some r \<Rightarrow> [r])
       (split_on newline output))"

text \<open>\<open>GetRoutes\<close>, \<open>GetDefaultRoutes\<close>, \<open>GetRouteThroughIface\<close> on the output of \<open>ip\<close>, or none if it failed.\<close>

definition GetRoutes :: "'ip ip_funs \<Rightarrow> string option \<Rightarrow> bool \<Rightarrow> 'ip Route list" where
  "GetRoutes ips out onlyDefault = (case out of None \<Rightarrow> [] | Some o1 \<Rightarrow> parseRoutes ips o1 onlyDefault)"

definition GetDefaultRoutes :: "'ip ip_funs \<Rightarrow> string option \<Rightarrow> 'ip Route list" where
  "GetDefaultRoutes ips out = GetRoutes ips out True"

definition GetRouteThroughIface :: "'ip ip_funs \<Rightarrow> string option \<Rightarrow> 'ip Route" where
  "GetRouteThroughIface ips res =
     (case res of
        None \<Rightarrow> no_route
      | Some o1 \<Rightarrow> (case parseRoutes ips o1 False of [] \<Rightarrow> no_route | r # rs \<Rightarrow> r))"

section \<open>Printing\<close>

definition dest_text :: "'ip ip_funs \<Rightarrow> 'ip IPNet option \<Rightarrow> string" where
  "dest_text ips d =
     (case d of
        None \<Rightarrow> ''default''
      | Some (a, ones, totalBits) \<Rightarrow> if ones = totalBits then ip_show ips a else ip_show ips a @ ''/'' @ show_dec ones)"

definition Route_String :: "'ip ip_funs \<Rightarrow> 'ip Route \<Rightarrow> string" where
  "Route_String ips r =
     dest_text ips (rt_Dest r)
     @ (case rt_Gw r of None \<Rightarrow> [] | Some g \<Rightarrow> '' via '' @ ip_show ips g)
     @ (if rt_Iface r \<noteq> [] then '' dev '' @ rt_Iface r else [])
     @ (if rt_Proto r > 0 then '' proto '' @ proto2str (rt_Proto r) else [])
     @ (if rt_Scope r > 0 then '' scope '' @ scope2str (rt_Scope r) else [])
     @ (case rt_Src r of None \<Rightarrow> [] | Some s \<Rightarrow> '' src '' @ ip_show ips s)
     @ (if rt_Metric r \<noteq> 0 then '' metric '' @ show_dec (unat (rt_Metric r)) else [])"

section \<open>Reading back what is printed\<close>

definition spaceless :: "string \<Rightarrow> bool" where
  "spaceless s \<longleftrightarrow> list_all (\<lambda>c. \<not> is_space c) s"

definition ip_bits :: "'ip ip_funs \<Rightarrow> 'ip \<Rightarrow> nat" where
  "ip_bits ips a = (if contains (ip_show ips a) '':'' then 128 else 32)"

locale ip_text =
  fixes ips :: "'ip ip_funs"
  assumes parse_show: "ip_parse ips (ip_show ips a) = Some a"
    and show_word: "ip_show ips a \<noteq> [] \<and> spaceless (ip_show ips a) \<and> \<not> contains (ip_show ips a) ''/'' \<and> ip_show ips a \<noteq> ''default''"
    and cidr_show: "n \<le> ip_bits ips a \<Longrightarrow> ip_cidr ips (ip_show ips a @ ''/'' @ show_dec n) = Some (a, n, ip_bits ips a)"

text \<open>The words of a printed route, after the destination.\<close>

definition pair_if :: "bool \<Rightarrow> string \<Rightarrow> string \<Rightarrow> string list" where
  "pair_if b k v = (if b then [k, v] else [])"

definition route_words :: "'ip ip_funs \<Rightarrow> 'ip Route \<Rightarrow> string list" where
  "route_words ips r =
     pair_if (rt_Gw r \<noteq> None) ''via'' (ip_show ips (the (rt_Gw r)))
     @ pair_if (rt_Iface r \<noteq> []) ''dev'' (rt_Iface r)
     @ pair_if (rt_Proto r > 0) ''proto'' (proto2str (rt_Proto r))
     @ pair_if (rt_Scope r > 0) ''scope'' (scope2str (rt_Scope r))
     @ pair_if (rt_Src r \<noteq> None) ''src'' (ip_show ips (the (rt_Src r)))
     @ pair_if (rt_Metric r \<noteq> 0) ''metric'' (show_dec (unat (rt_Metric r)))"

text \<open>Routes that can be read back: of at least three pairs of words after the destination, with fields as the
  kernel has them.\<close>

definition route_wf :: "'ip ip_funs \<Rightarrow> 'ip Route \<Rightarrow> bool" where
  "route_wf ips r \<longleftrightarrow> spaceless (rt_Iface r) \<and> 0 \<le> rt_Proto r \<and> rt_Proto r < 2 ^ 63
     \<and> (case rt_Dest r of None \<Rightarrow> True | Some (a, n, b) \<Rightarrow> b = ip_bits ips a \<and> n \<le> b)
     \<and> length (route_words ips r) \<ge> 6"

lemma join_with_concat: "join_with sep (x # ys) = x @ concat (map (\<lambda>y. sep @ y) ys)"
  by (induction ys arbitrary: x) simp_all

lemma Route_String_words: "Route_String ips r = join_with '' '' (dest_text ips (rt_Dest r) # route_words ips r)"
  unfolding join_with_concat
  by (simp add: Route_String_def route_words_def pair_if_def split: option.split)

lemma TrimSpace_id: "s \<noteq> [] \<Longrightarrow> \<not> is_space (hd s) \<Longrightarrow> \<not> is_space (last s) \<Longrightarrow> TrimSpace s = s"
  by (simp add: TrimSpace_def dropWhile_eq_self_iff [THEN iffD2] hd_rev)

lemma spaceless_show_dec [simp]: "spaceless (show_dec n)"
proof -
  have "\<not> is_space c" if "c \<in> set (show_dec n)" for c
    using show_dec_chars [OF that] by (auto simp: is_space_def)
  then show ?thesis
    by (simp add: spaceless_def list_all_iff)
qed

lemma spaceless_Cons [simp]: "spaceless (c # s) \<longleftrightarrow> \<not> is_space c \<and> spaceless s" "spaceless []"
  by (simp_all add: spaceless_def)

lemma spaceless_append [simp]: "spaceless (a @ b) \<longleftrightarrow> spaceless a \<and> spaceless b"
  by (simp add: spaceless_def)

lemma show_dec_neq: "list_ex (\<lambda>c. c \<notin> set ''0123456789'') w \<Longrightarrow> show_dec n \<noteq> w"
  using show_dec_chars by (auto simp: list_ex_iff)

lemma str2proto_back: "0 \<le> p \<Longrightarrow> p < 2 ^ 63 \<Longrightarrow> str2proto (proto2str p) = p"
proof -
  assume p: "0 \<le> p" "p < 2 ^ 63"
  then have "nat p < 2 ^ 63"
    by (simp add: nat_less_iff)
  then have "ParseInt10 (show_dec (nat p)) = (p, False)"
    using ParseInt10_show [of "nat p"] p by simp
  then show ?thesis
    using p by (simp add: str2proto_def proto2str_def show_int_def show_dec_neq
        RTPROT_KERNEL_def RTPROT_BOOT_def RTPROT_STATIC_def)
qed

lemma str2scope_back: "str2scope (scope2str sc) = sc"
proof -
  have "unat sc < 2 ^ 8"
    by (rule less_le_trans [OF unsigned_less]) simp
  also have "(2 ^ 8 :: nat) \<le> 2 ^ 63"
    by simp
  finally have "unat sc < 2 ^ 63" .
  then have "ParseInt10 (show_dec (unat sc)) = (int (unat sc), False)"
    by (rule ParseInt10_show)
  then show ?thesis
    by (simp add: str2scope_def scope2str_def show_dec_neq
        SCOPE_UNIVERSE_def SCOPE_SITE_def SCOPE_LINK_def SCOPE_HOST_def SCOPE_NOWHERE_def)
qed

lemma spaceless_proto [simp]: "0 \<le> p \<Longrightarrow> spaceless (proto2str p)"
  by (simp add: proto2str_def show_int_def) (simp add: spaceless_def is_space_def)

lemma spaceless_scope [simp]: "spaceless (scope2str sc)"
  by (simp add: scope2str_def) (simp add: spaceless_def is_space_def)

lemma pair_step: "readRoutePair ips k v r = Some r1 \<Longrightarrow> read_pairs ips (k # v # es) r = read_pairs ips es r1"
  by simp

lemma pair_if_step:
  assumes "b \<Longrightarrow> readRoutePair ips k v r = Some r1" "\<not> b \<Longrightarrow> r1 = r"
  shows "read_pairs ips (pair_if b k v @ es) r = read_pairs ips es r1"
  using assms by (cases b) (simp_all add: pair_if_def)

lemma split_words:
  assumes "list_all spaceless ws" "ws \<noteq> []"
  shows "split_on CHR '' '' (join_with '' '' ws) = ws"
proof (rule split_join [OF assms(2)])
  show "list_all (\<lambda>p. CHR '' '' \<notin> set p) ws"
    using assms(1) by (auto simp: list_all_iff spaceless_def is_space_def)
qed

lemma join_words_trimmed:
  assumes "list_all (\<lambda>w. spaceless w \<and> w \<noteq> []) ws" "ws \<noteq> []"
  shows "TrimSpace (join_with '' '' ws) = join_with '' '' ws" "newline \<notin> set (join_with '' '' ws)" "join_with '' '' ws \<noteq> []"
proof -
  obtain x ys where ws: "ws = x # ys"
    using assms(2) by (cases ws) auto
  have x: "x \<noteq> []" "spaceless x" "list_all (\<lambda>w. spaceless w \<and> w \<noteq> []) ys"
    using assms(1) by (simp_all add: ws)
  have j: "join_with '' '' ws = x @ concat (map (\<lambda>y. '' '' @ y) ys)"
    by (simp only: ws join_with_concat)
  have nsp: "\<not> is_space c" if "spaceless w" "c \<in> set w" for c w
    using that by (simp add: spaceless_def list_all_iff)
  have "\<not> is_space (hd (join_with '' '' ws))"
    using nsp [OF x(2)] x(1) by (simp add: j)
  moreover have "\<not> is_space (last (join_with '' '' ws))"
  proof (cases ys rule: rev_cases)
    case Nil
    then show ?thesis
      using nsp [OF x(2)] x(1) by (simp add: j)
  next
    case (snoc zs z)
    then have "z \<noteq> []" "spaceless z"
      using x(3) by simp_all
    then show ?thesis
      using nsp by (simp add: j snoc)
  qed
  moreover show "join_with '' '' ws \<noteq> []"
    using x(1) by (simp add: j)
  ultimately show "TrimSpace (join_with '' '' ws) = join_with '' '' ws"
    by (intro TrimSpace_id)
  show "newline \<notin> set (join_with '' '' ws)"
    using x nsp by (auto simp: j list_all_iff newline_def is_space_def)
qed

lemma contains_append: "contains (a @ CHR ''/'' # x) ''/''"
  by (induction a) (simp_all add: has_prefix_def)

section \<open>Any text of addresses\<close>

context ip_text
begin

lemma route_words_ok: "route_wf ips r \<Longrightarrow> list_all (\<lambda>w. spaceless w \<and> w \<noteq> []) (dest_text ips (rt_Dest r) # route_words ips r)"
proof -
  assume wf: "route_wf ips r"
  have proto: "proto2str p \<noteq> []" for p
    by (simp add: proto2str_def show_int_def show_dec_read)
  have scope: "scope2str sc \<noteq> []" for sc
    by (simp add: scope2str_def show_dec_read)
  show ?thesis
    using wf show_word proto scope by (auto simp: is_space_def route_words_def pair_if_def dest_text_def route_wf_def show_dec_read split: option.split)
qed

lemma read_route_words:
  assumes "route_wf ips r"
  shows "read_pairs ips (route_words ips r) (no_route\<lparr>rt_Dest := rt_Dest r\<rparr>) = r"
proof -
  define r1 where "r1 = no_route\<lparr>rt_Dest := rt_Dest r, rt_Gw := rt_Gw r\<rparr>"
  define r2 where "r2 = r1\<lparr>rt_Iface := rt_Iface r\<rparr>"
  define r3 where "r3 = r2\<lparr>rt_Proto := rt_Proto r\<rparr>"
  define r4 where "r4 = r3\<lparr>rt_Scope := rt_Scope r\<rparr>"
  define r5 where "r5 = r4\<lparr>rt_Src := rt_Src r\<rparr>"
  define r6 where "r6 = r5\<lparr>rt_Metric := rt_Metric r\<rparr>"
  have p: "0 \<le> rt_Proto r" "rt_Proto r < 2 ^ 63"
    using assms by (simp_all add: route_wf_def)
  have m: "unat (rt_Metric r) < 2 ^ 64"
    by (rule less_le_trans [OF unsigned_less]) simp
  have "read_pairs ips (pair_if (rt_Gw r \<noteq> None) ''via'' (ip_show ips (the (rt_Gw r))) @ es) (no_route\<lparr>rt_Dest := rt_Dest r\<rparr>) = read_pairs ips es r1" for es
    by (rule pair_if_step) (auto simp: readRoutePair_def parse_show r1_def no_route_def)
  moreover have "read_pairs ips (pair_if (rt_Iface r \<noteq> []) ''dev'' (rt_Iface r) @ es) r1 = read_pairs ips es r2" for es
    by (rule pair_if_step) (auto simp: readRoutePair_def r1_def r2_def no_route_def)
  moreover have "read_pairs ips (pair_if (rt_Proto r > 0) ''proto'' (proto2str (rt_Proto r)) @ es) r2 = read_pairs ips es r3" for es
    by (rule pair_if_step) (use p in \<open>auto simp: readRoutePair_def str2proto_back r1_def r2_def r3_def no_route_def\<close>)
  moreover have "read_pairs ips (pair_if (rt_Scope r > 0) ''scope'' (scope2str (rt_Scope r)) @ es) r3 = read_pairs ips es r4" for es
    by (rule pair_if_step) (auto simp: readRoutePair_def str2scope_back r1_def r2_def r3_def r4_def no_route_def word_gt_0)
  moreover have "read_pairs ips (pair_if (rt_Src r \<noteq> None) ''src'' (ip_show ips (the (rt_Src r))) @ es) r4 = read_pairs ips es r5" for es
    by (rule pair_if_step) (auto simp: readRoutePair_def parse_show r1_def r2_def r3_def r4_def r5_def no_route_def)
  moreover have "read_pairs ips (pair_if (rt_Metric r \<noteq> 0) ''metric'' (show_dec (unat (rt_Metric r))) @ []) r5 = read_pairs ips [] r6"
    by (rule pair_if_step) (use m in \<open>auto simp: readRoutePair_def r1_def r2_def r3_def r4_def r5_def r6_def no_route_def\<close>)
  ultimately have "read_pairs ips (route_words ips r) (no_route\<lparr>rt_Dest := rt_Dest r\<rparr>) = r6"
    unfolding route_words_def by simp
  also have "r6 = r"
    by (simp add: r1_def r2_def r3_def r4_def r5_def r6_def no_route_def)
  finally show ?thesis .
qed

lemma parseRoute_back:
  assumes "route_wf ips r"
  shows "parseRoute ips (Route_String ips r) False = Some r"
proof -
  let ?ws = "dest_text ips (rt_Dest r) # route_words ips r"
  note ok = route_words_ok [OF assms]
  have split: "split_on CHR '' '' (Route_String ips r) = ?ws"
    unfolding Route_String_words by (rule split_words) (use ok in \<open>auto simp: list_all_iff\<close>)
  have len: "length ?ws \<ge> 7"
    using assms by (simp add: route_wf_def)
  have "Route_String ips r \<noteq> ''cache''"
  proof
    assume "Route_String ips r = ''cache''"
    then have "length (split_on CHR '' '' ''cache'') \<ge> 7"
      using split len by simp
    then show False
      by simp
  qed
  moreover have "Route_String ips r \<noteq> []"
    unfolding Route_String_words by (rule join_words_trimmed(3)) (use ok in simp_all)
  ultimately have parse: "parseRoute ips (Route_String ips r) False = Some (read_pairs ips (route_words ips r)
      (no_route\<lparr>rt_Dest := (if dest_text ips (rt_Dest r) = ''default'' then None else IPNetFromCIDR ips (dest_text ips (rt_Dest r)))\<rparr>))"
    using len by (simp only: parseRoute_def split Let_def list.sel) simp
  have dest: "(if dest_text ips (rt_Dest r) = ''default'' then None else IPNetFromCIDR ips (dest_text ips (rt_Dest r))) = rt_Dest r"
  proof (cases "rt_Dest r")
    case (Some d)
    obtain a n b where d: "d = (a, n, b)"
      by (cases d)
    have b: "b = ip_bits ips a" "n \<le> b"
      using assms Some d by (simp_all add: route_wf_def)
    have slash: "contains (ip_show ips a @ ''/'' @ x) ''/''" for x
      using contains_append by simp 
    show ?thesis
    proof (cases "n = b")
      case True
      then show ?thesis
        using show_word [of a] cidr_show [of n a] b
        by (auto simp: Some d dest_text_def IPNetFromCIDR_def ip_bits_def show_dec.simps hex_digit_def)
    next
      case False
      have "ip_show ips a @ ''/'' @ show_dec n \<noteq> ''default''"
        using slash [of "show_dec n"] by (auto simp: has_prefix_def)
      then show ?thesis
        using False cidr_show [of n a] b slash by (simp add: Some d dest_text_def IPNetFromCIDR_def)
    qed
  qed (simp add: dest_text_def)
  show ?thesis
    unfolding parse dest read_route_words [OF assms] ..
qed

lemma parseRoutes_back:
  assumes "list_all (route_wf ips) rs"
  shows "parseRoutes ips (join_with [newline] (map (Route_String ips) rs)) False = rs"
proof (cases "rs = []")
  case False
  have l: "TrimSpace (Route_String ips r) = Route_String ips r" "newline \<notin> set (Route_String ips r)" if "r \<in> set rs" for r
    using assms that join_words_trimmed [OF route_words_ok [of r]] unfolding Route_String_words by (simp_all add: list_all_iff)
  have "split_on newline (join_with [newline] (map (Route_String ips) rs)) = map (Route_String ips) rs"
    by (rule split_join) (use False l in \<open>auto simp: list_all_iff\<close>)
  then have "parseRoutes ips (join_with [newline] (map (Route_String ips) rs)) False
      = concat (map (\<lambda>r. case parseRoute ips (TrimSpace (Route_String ips r)) False of None \<Rightarrow> [] | Some r \<Rightarrow> [r]) rs)"
    by (simp add: parseRoutes_def comp_def)
  also have "\<dots> = concat (map (\<lambda>r. [r]) rs)"
    using assms l parseRoute_back by (intro arg_cong [of _ _ concat] map_cong) (simp_all add: list_all_iff)
  finally show ?thesis
    by simp
qed (simp add: parseRoutes_def parseRoute_def TrimSpace_def)

end

section \<open>IPv4\<close>

type_synonym v4 = "u8 \<times> u8 \<times> u8 \<times> u8"

definition v4_octet :: "string \<Rightarrow> u8 option" where
  "v4_octet s = map_option word_of_nat (ParseUint10 8 s)"

definition v4_parse :: "string \<Rightarrow> v4 option" where
  "v4_parse s =
     (case split_on CHR ''.'' s of
        [a, b, c, d] \<Rightarrow>
          (case (v4_octet a, v4_octet b, v4_octet c, v4_octet d) of
             (Some w, Some x, Some y, Some z) \<Rightarrow> Some (w, x, y, z)
           | _ \<Rightarrow> None)
      | _ \<Rightarrow> None)"

fun v4_show :: "v4 \<Rightarrow> string" where
  "v4_show (w, x, y, z) = join_with ''.'' (map (\<lambda>b. show_dec (unat b)) [w, x, y, z])"

definition v4_cidr :: "string \<Rightarrow> v4 IPNet option" where
  "v4_cidr s =
     (case split_on CHR ''/'' s of
        [a, n] \<Rightarrow>
          (case (v4_parse a, ParseUint10 8 n) of
             (Some ip, Some k) \<Rightarrow> if k \<le> 32 then Some (ip, k, 32) else None
           | _ \<Rightarrow> None)
      | _ \<Rightarrow> None)"

definition ipv4 :: "v4 ip_funs" where
  "ipv4 = \<lparr>ip_parse = v4_parse, ip_show = v4_show, ip_cidr = v4_cidr\<rparr>"

lemma v4_octet_back: "v4_octet (show_dec (unat b)) = Some b"
proof -
  have "unat b < 2 ^ 8"
    by (rule less_le_trans [OF unsigned_less]) simp
  then show ?thesis
    by (simp add: v4_octet_def)
qed

lemma v4_parse_show: "v4_parse (v4_show a) = Some a"
proof -
  obtain w x y z where a: "a = (w, x, y, z)"
    by (cases a)
  have "list_all (\<lambda>p. CHR ''.'' \<notin> set p) (map (\<lambda>b. show_dec (unat b)) [w, x, y, z])"
    using show_dec_chars [of "CHR ''.''"] by auto
  then have "split_on CHR ''.'' (v4_show a) = map (\<lambda>b. show_dec (unat b)) [w, x, y, z]"
    unfolding a v4_show.simps by (intro split_join) simp_all
  then show ?thesis
    by (simp add: v4_parse_def v4_octet_back a)
qed

lemma v4_show_chars: "c \<in> set (v4_show a) \<Longrightarrow> c \<in> set ''.0123456789''"
  by (cases a) (auto dest: show_dec_chars)

lemma v4_show_word: "v4_show a \<noteq> []" "spaceless (v4_show a)" "CHR ''/'' \<notin> set (v4_show a)" "CHR '':'' \<notin> set (v4_show a)"
  "v4_show a \<noteq> ''default''"
proof -
  show "v4_show a \<noteq> []"
    by (cases a) (simp add: show_dec_read)
  show "spaceless (v4_show a)"
    using v4_show_chars [of _ a] by (auto simp: spaceless_def list_all_iff is_space_def)
  show "CHR ''/'' \<notin> set (v4_show a)" "CHR '':'' \<notin> set (v4_show a)"
    using v4_show_chars [of _ a] by auto
  show "v4_show a \<noteq> ''default''"
  proof
    assume "v4_show a = ''default''"
    then have "CHR ''d'' \<in> set (v4_show a)"
      by simp
    then show False
      using v4_show_chars [of "CHR ''d''" a] by simp
  qed
qed

lemma contains_char: "contains s [c] \<longleftrightarrow> c \<in> set s"
  by (induction s) (auto simp: has_prefix_def)

lemma v4_cidr_show: "n \<le> 32 \<Longrightarrow> v4_cidr (v4_show a @ ''/'' @ show_dec n) = Some (a, n, 32)"
proof -
  assume n: "n \<le> 32"
  have "CHR ''/'' \<notin> set (show_dec n)"
    using show_dec_chars [of "CHR ''/''" n] by auto
  then have "split_on CHR ''/'' (v4_show a @ ''/'' @ show_dec n) = [v4_show a, show_dec n]"
    using split_on_append [of "CHR ''/''" "v4_show a"] v4_show_word(3) by (simp add: split_on_no_sep)
  then show ?thesis
    using n by (simp add: v4_cidr_def v4_parse_show)
qed

interpretation v4: ip_text ipv4
proof unfold_locales
  fix a n
  have bits: "ip_bits ipv4 a = 32"
    using v4_show_word(4) by (simp add: ip_bits_def ipv4_def contains_char)
  show "ip_parse ipv4 (ip_show ipv4 a) = Some a"
    by (simp add: ipv4_def v4_parse_show)
  show "ip_show ipv4 a \<noteq> [] \<and> spaceless (ip_show ipv4 a) \<and> \<not> contains (ip_show ipv4 a) ''/'' \<and> ip_show ipv4 a \<noteq> ''default''"
    using v4_show_word [of a] by (simp add: ipv4_def contains_char)
  show "ip_cidr ipv4 (ip_show ipv4 a @ ''/'' @ show_dec n) = Some (a, n, ip_bits ipv4 a)" if "n \<le> ip_bits ipv4 a"
    using that bits v4_cidr_show by (simp add: ipv4_def)
qed

text \<open>
  C22: what IPv4 routes print as, one per line, is read back as the same list, if each route prints at least three
  pairs of a key and a value (\<open>via\<close>, \<open>dev\<close>, \<open>proto\<close>, \<open>scope\<close>, \<open>src\<close>, \<open>metric\<close>), the name of its interface has no
  blanks, the number of its protocol is not negative (and below 2 ^ 63), and the length of its network's mask is at most that of the address.  Shorter routes are not read back.
\<close>

theorem parseRoutes_reads_back:
  "list_all (route_wf ipv4) rs \<Longrightarrow> parseRoutes ipv4 (join_with [newline] (map (Route_String ipv4) rs)) False = rs"
  by (rule v4.parseRoutes_back)

definition sample_route :: "v4 Route" where
  "sample_route = \<lparr>rt_Iface = ''eth0'', rt_Gw = Some (10, 254, 64, 161), rt_Proto = RTPROT_BOOT, rt_Metric = 1024,
     rt_Src = None, rt_Dest = None, rt_Scope = 0\<rparr>"

theorem parseRoutes_reads_back_witness:
  "parseRoutes ipv4 (join_with [newline] (map (Route_String ipv4) [sample_route, sample_route\<lparr>rt_Dest := Some ((8, 8, 0, 0), 16, 32)\<rparr>])) False
     = [sample_route, sample_route\<lparr>rt_Dest := Some ((8, 8, 0, 0), 16, 32)\<rparr>]"
proof (rule parseRoutes_reads_back)
  have "ip_bits ipv4 a = 32" for a
    using v4_show_word(4) by (simp add: ip_bits_def ipv4_def contains_char)
  then show "list_all (route_wf ipv4) [sample_route, sample_route\<lparr>rt_Dest := Some ((8, 8, 0, 0), 16, 32)\<rparr>]"
    by (simp add: route_wf_def sample_route_def route_words_def pair_if_def RTPROT_BOOT_def is_space_def)
qed

lemma sample_route_prints: "Route_String ipv4 sample_route = ''default via 10.254.64.161 dev eth0 proto dhcp metric 1024''"
  by (simp add: Route_String_def dest_text_def ipv4_def sample_route_def show_dec.simps hex_digit_def proto2str_def
      RTPROT_BOOT_def RTPROT_KERNEL_def)

end
