(* ===== verification/Appliance.thy ===== *)
theory Appliance
  imports Dmi Block Strs "HOL-Library.Multiset"
begin

text \<open>
  The models of appliances (\<open>pkg/appliance\<close>): their description, the text form of its enumerations, and
  how the model of a unit is identified from DMI data, or by a stored code name.  Regular expressions
  are a parameter; reading the JSON is the standard library's, and the description is its result.
\<close>

section \<open>Descriptions\<close>

datatype ValidateRDEnum = NoValidation | ValidateUSB | ValidateSATA | Validate9P
datatype LocateRDEnum = LocateByLabel | Locate9PVirt
datatype LcdType = Cfa635 | Cfa631 | NoLCD
datatype Virtualization = BareMetal | HyperV | KVM | Qemu | VirtualBox | VMWare

record recoveryMediaS =
  rm_LocateRDMethod :: LocateRDEnum
  rm_ValidateRDMethod :: ValidateRDEnum
  rm_FsType :: string
  rm_FsOptsAdditional :: string
  rm_FsOptsOverride :: bool
  rm_SSD :: bool

record NICInfo =
  ni_SharedDiagPorts :: "int list"
  ni_WANIndex :: int
  ni_DefaultNamesNoDiag :: "string list"
  ni_MACPrefix :: "string list"

record VariantI =
  vi_Familyname :: string
  vi_DmiMbMfg :: string
  vi_DmiProdName :: string
  vi_DmiProdModelRegex :: string
  vi_DmiPMOverrideTyp :: int
  vi_DmiPMOverrideFld :: string
  vi_CPU :: string
  vi_SerNumField :: string
  vi_NICInfo :: NICInfo
  vi_IPMI :: bool
  vi_IPMIChannel :: int
  vi_NumDataDisks :: int
  vi_Disksize :: u64
  vi_DiskIsSSD :: bool
  vi_SwRaidlevel :: int
  vi_FakeraidType :: string
  vi_BiosConfigTool :: string
  vi_IpmiConfigTool :: string
  vi_Virttype :: Virtualization
  vi_RecoveryMedia :: recoveryMediaS
  vi_Lcd :: LcdType
  vi_DevCodeName :: string
  vi_Partoffset :: string
  vi_Lowmemory :: bool
  vi_Prototype :: bool
  vi_DiskSTol :: u64
  vi_DiskTTol :: u64

record Variant =
  v_i :: VariantI
  v_mfg :: string
  v_prod :: string
  v_sku :: string
  v_serial :: string

section \<open>Text of the enumerations\<close>

definition ValidateRD_Unmarshal :: "string \<Rightarrow> ValidateRDEnum" where
  "ValidateRD_Unmarshal s =
     (let l = ascii_lower s
      in if l = ''usb'' then ValidateUSB else if l = ''sata'' then ValidateSATA else if l = ''none'' then NoValidation
         else if l = ''9p'' then Validate9P else ValidateUSB)"

fun ValidateRD_Marshal :: "ValidateRDEnum \<Rightarrow> string" where
  "ValidateRD_Marshal ValidateUSB = ''usb''"
| "ValidateRD_Marshal ValidateSATA = ''sata''"
| "ValidateRD_Marshal NoValidation = ''none''"
| "ValidateRD_Marshal Validate9P = ''9p''"

definition LocateRD_Unmarshal :: "string \<Rightarrow> LocateRDEnum" where
  "LocateRD_Unmarshal s =
     (let l = ascii_lower s
      in if l = ''bylabel'' then LocateByLabel else if l = ''9p'' then Locate9PVirt else LocateByLabel)"

fun LocateRD_Marshal :: "LocateRDEnum \<Rightarrow> string" where
  "LocateRD_Marshal LocateByLabel = ''byLabel''"
| "LocateRD_Marshal Locate9PVirt = ''9p''"

definition LcdType_Unmarshal :: "string \<Rightarrow> LcdType" where
  "LcdType_Unmarshal s =
     (if s = ''631'' then Cfa631 else if s = ''635'' then Cfa635 else if s = ''none'' then NoLCD else NoLCD)"

fun LcdType_Marshal :: "LcdType \<Rightarrow> string" where
  "LcdType_Marshal Cfa631 = ''631''"
| "LcdType_Marshal Cfa635 = ''635''"
| "LcdType_Marshal NoLCD = ''none''"

lemma enums_read_back:
  "ValidateRD_Unmarshal (ValidateRD_Marshal v) = v"
  "LocateRD_Unmarshal (LocateRD_Marshal l) = l"
  "LcdType_Unmarshal (LcdType_Marshal t) = t"
proof -
  show "ValidateRD_Unmarshal (ValidateRD_Marshal v) = v"
    by (cases v) (simp_all add: ValidateRD_Unmarshal_def ascii_lower_def)
  show "LocateRD_Unmarshal (LocateRD_Marshal l) = l"
    by (cases l) (simp_all add: LocateRD_Unmarshal_def ascii_lower_def)
  show "LcdType_Unmarshal (LcdType_Marshal t) = t"
    by (cases t) (simp_all add: LcdType_Unmarshal_def)
qed

section \<open>Answers about a model\<close>

definition HasRaid :: "Variant \<Rightarrow> bool" where "HasRaid v \<longleftrightarrow> vi_SwRaidlevel (v_i v) \<noteq> - 1"
definition RaidLevel :: "Variant \<Rightarrow> int" where "RaidLevel v = vi_SwRaidlevel (v_i v)"
definition FakeRaidType :: "Variant \<Rightarrow> string" where "FakeRaidType v = vi_FakeraidType (v_i v)"
definition DataDisks :: "Variant \<Rightarrow> int" where "DataDisks v = vi_NumDataDisks (v_i v)"
definition DiskSize :: "Variant \<Rightarrow> u64" where "DiskSize v = vi_Disksize (v_i v)"
definition BiosConfigTool :: "Variant \<Rightarrow> string" where "BiosConfigTool v = vi_BiosConfigTool (v_i v)"
definition SerNum :: "Variant \<Rightarrow> string" where "SerNum v = v_serial v"
definition Virtual :: "Variant \<Rightarrow> bool" where "Virtual v \<longleftrightarrow> vi_Virttype (v_i v) \<noteq> BareMetal"
definition VirtType :: "Variant \<Rightarrow> Virtualization" where "VirtType v = vi_Virttype (v_i v)"
definition vLcd :: "Variant \<Rightarrow> LcdType" where "vLcd v = vi_Lcd (v_i v)"
definition DeviceCodeName :: "Variant \<Rightarrow> string" where "DeviceCodeName v = vi_DevCodeName (v_i v)"
definition vSSD :: "Variant \<Rightarrow> bool" where "vSSD v = vi_DiskIsSSD (v_i v)"
definition PartOffset :: "Variant \<Rightarrow> string" where "PartOffset v = vi_Partoffset (v_i v)"
definition FamilyName :: "Variant \<Rightarrow> string" where "FamilyName v = vi_Familyname (v_i v)"
definition LowMemory :: "Variant \<Rightarrow> bool" where "LowMemory v = vi_Lowmemory (v_i v)"
definition HasIPMI :: "Variant \<Rightarrow> bool" where "HasIPMI v = vi_IPMI (v_i v)"
definition vMfg :: "Variant \<Rightarrow> string" where "vMfg v = v_mfg v"
definition vProd :: "Variant \<Rightarrow> string" where "vProd v = v_prod v"
definition vSKU :: "Variant \<Rightarrow> string" where "vSKU v = v_sku v"
definition IsPrototype :: "Variant \<Rightarrow> bool" where "IsPrototype v = vi_Prototype (v_i v)"
definition DefaultPortNames :: "Variant \<Rightarrow> string list" where
  "DefaultPortNames v = ni_DefaultNamesNoDiag (vi_NICInfo (v_i v))"
definition WANIndex :: "Variant \<Rightarrow> int" where "WANIndex v = ni_WANIndex (vi_NICInfo (v_i v))"

definition IpmiConfigTool :: "Variant \<Rightarrow> string" where
  "IpmiConfigTool v =
     (let t = vi_IpmiConfigTool (v_i v) in if vi_IPMI (v_i v) \<and> t = [] then ''internal_ipmi'' else t)"

definition DiagPorts :: "Variant option \<Rightarrow> int list" where
  "DiagPorts v = (case v of None \<Rightarrow> [] | Some w \<Rightarrow> ni_SharedDiagPorts (vi_NICInfo (v_i w)))"

definition DiskSetTol :: "Variant \<Rightarrow> u64" where
  "DiskSetTol v = (if vi_DiskSTol (v_i v) = 0 then 1 else vi_DiskSTol (v_i v))"

definition DiskTgtTol :: "Variant \<Rightarrow> u64" where
  "DiskTgtTol v = (if vi_DiskTTol (v_i v) = 0 then 5 else vi_DiskTTol (v_i v))"

definition PrettyName :: "Variant \<Rightarrow> string" where
  "PrettyName v = v_mfg v @ '' '' @ v_prod v @ '' '' @ v_sku v"

text \<open>\<open>MACPrefixes\<close>: a prefix with an octet that does not parse is left out.\<close>

fun parse_octets :: "string list \<Rightarrow> bytes option" where
  "parse_octets [] = Some []"
| "parse_octets (w # ws) =
     (case ParseUint16 8 w of
        None \<Rightarrow> None
      | Some n \<Rightarrow> (case parse_octets ws of None \<Rightarrow> None | Some bs \<Rightarrow> Some (word_of_nat n # bs)))"

definition MACPrefixes :: "Variant \<Rightarrow> bytes list" where
  "MACPrefixes v =
     (let ps = ni_MACPrefix (vi_NICInfo (v_i v))
      in if ps = [''*''] then []
         else concat (map (\<lambda>p. case parse_octets (split_on CHR '':'' (Trim CHR '':'' p)) of None \<Rightarrow> [] | Some b \<Rightarrow> [b]) ps))"

section \<open>The recovery medium\<close>

definition StandardMountOpts :: string where
  "StandardMountOpts = ''auto,noexec,relatime,nofail,uid=$u,gid=$g''"

definition FsOpts :: "recoveryMediaS \<Rightarrow> string" where
  "FsOpts m =
     rm_FsOptsAdditional m @ (if rm_FsOptsOverride m then [] else '','' @ StandardMountOpts)
     @ (if rm_SSD m then '',discard'' else [])"

definition stripDev :: "string \<Rightarrow> string" where
  "stripDev d = rev (dropWhile (\<lambda>c. c \<in> set ''0123456789'') (rev (trim_prefix ''/dev/'' d)))"

definition block_link :: "(string \<Rightarrow> string) \<Rightarrow> string \<Rightarrow> string" where
  "block_link readlink dev = readlink (''/sys/block/'' @ stripDev dev)"

definition validateUSB :: "(string \<Rightarrow> string) \<Rightarrow> string \<Rightarrow> bool" where
  "validateUSB readlink dev \<longleftrightarrow> contains (block_link readlink dev) ''/usb''"

definition validateSATA :: "(string \<Rightarrow> string) \<Rightarrow> string \<Rightarrow> bool" where
  "validateSATA readlink dev \<longleftrightarrow> contains (block_link readlink dev) ''/ata''"

definition validateCFEX :: "(string \<Rightarrow> string) \<Rightarrow> (string \<Rightarrow> fread) \<Rightarrow> string \<Rightarrow> bool" where
  "validateCFEX readlink files dev \<longleftrightarrow>
     (let dest = block_link readlink dev
      in contains dest ''/ata''
         \<and> has_prefix (case files (path_Join [dest, ''device'', ''model'']) of Content c \<Rightarrow> c | _ \<Rightarrow> []) ''CFX'')"

definition validate9P :: "string \<Rightarrow> bool" where
  "validate9P dev \<longleftrightarrow> False"

definition ValidateFn :: "(string \<Rightarrow> string) \<Rightarrow> recoveryMediaS \<Rightarrow> string \<Rightarrow> bool" where
  "ValidateFn readlink m dev =
     (case rm_ValidateRDMethod m of
        NoValidation \<Rightarrow> True
      | ValidateUSB \<Rightarrow> validateUSB readlink dev
      | ValidateSATA \<Rightarrow> validateSATA readlink dev
      | Validate9P \<Rightarrow> validate9P dev)"

definition CheckRecoveryDev :: "(string \<Rightarrow> string) \<Rightarrow> Variant \<Rightarrow> string \<Rightarrow> bool" where
  "CheckRecoveryDev readlink v dev = ValidateFn readlink (vi_RecoveryMedia (v_i v)) dev"

definition RecoveryDevVirt :: "Variant \<Rightarrow> bool" where
  "RecoveryDevVirt v \<longleftrightarrow> rm_LocateRDMethod (vi_RecoveryMedia (v_i v)) = Locate9PVirt"

text \<open>\<open>locateByLabel\<close>: whether the device appeared in time, and the device the link leads to.\<close>

definition locateByLabel ::
    "(string \<Rightarrow> string) \<Rightarrow> Stringer option \<Rightarrow> bool \<Rightarrow> string option \<Rightarrow> recoveryMediaS \<Rightarrow> string \<times> string \<times> string" where
  "locateByLabel readlink impl appeared dev m =
     (let found = (''/dev/disk/by-label/'' @ st_RecVolName (strs_of impl), rm_FsType m, FsOpts m)
      in if \<not> appeared then found
         else (case dev of
                 None \<Rightarrow> ([], [], [])
               | Some d \<Rightarrow> if ValidateFn readlink m d then found else ([], [], [])))"

definition locate9PvirtRecov :: "Stringer option \<Rightarrow> recoveryMediaS \<Rightarrow> string \<times> string \<times> string" where
  "locate9PvirtRecov impl m = (st_RecVolName (strs_of impl), rm_FsType m, FsOpts m)"

definition FindRecoveryDev ::
    "(string \<Rightarrow> string) \<Rightarrow> Stringer option \<Rightarrow> bool \<Rightarrow> string option \<Rightarrow> Variant \<Rightarrow> string \<times> string \<times> string" where
  "FindRecoveryDev readlink impl appeared dev v =
     (let m = vi_RecoveryMedia (v_i v)
      in case rm_LocateRDMethod m of
           LocateByLabel \<Rightarrow> locateByLabel readlink impl appeared dev m
         | Locate9PVirt \<Rightarrow> locate9PvirtRecov impl m)"

definition RecoveryCandidates :: "BlockDev list \<Rightarrow> u64 \<Rightarrow> string list" where
  "RecoveryCandidates devs recoverySize = map bk_Name (filter (\<lambda>d. bk_Size d = recoverySize) devs)"

section \<open>Identification\<close>

text \<open>A question to DMI and what follows on the answer; a panic ends everything.\<close>

definition ask ::
    "(string \<Rightarrow> bool \<times> string) \<Rightarrow> string \<Rightarrow> (string \<Rightarrow> dmiCache \<Rightarrow> 'b outcome \<times> dmiCache) \<Rightarrow> dmiCache \<Rightarrow> 'b outcome \<times> dmiCache" where
  "ask runs key k d = (case dmi_str runs key d of (Panics, d1) \<Rightarrow> (Panics, d1) | (Returns s, d1) \<Rightarrow> k s d1)"

fun remove_cpu :: "string \<Rightarrow> string list \<Rightarrow> string list" where
  "remove_cpu vc [] = []"
| "remove_cpu vc (c # cs) = (if TrimSpace c = vc then cs else c # remove_cpu vc cs)"

definition processors_match :: "string \<Rightarrow> string \<Rightarrow> bool" where
  "processors_match cpu current \<longleftrightarrow>
     fold remove_cpu (split_on newline cpu) (split_on newline (TrimSpace current)) = []"

definition processorMatch ::
    "(string \<Rightarrow> bool \<times> string) \<Rightarrow> VariantI \<Rightarrow> (bool \<Rightarrow> dmiCache \<Rightarrow> 'b outcome \<times> dmiCache) \<Rightarrow> dmiCache \<Rightarrow> 'b outcome \<times> dmiCache" where
  "processorMatch runs v k d =
     (if vi_CPU v = [] then k True d
      else ask runs ''processor-version'' (\<lambda>cur. k (processors_match (vi_CPU v) cur)) d)"

text \<open>\<open>checkModelRe\<close>: the product model, from the field the description names, must match; an expression that does not
  compile (\<open>None\<close>) matches nothing.\<close>

definition checkModelRe ::
    "(string \<Rightarrow> string \<Rightarrow> bool option) \<Rightarrow> (int \<Rightarrow> bool \<times> string) \<Rightarrow> VariantI \<Rightarrow> string \<Rightarrow> dmiCache \<Rightarrow> string option" where
  "checkModelRe re_match runt v sku d =
     (let s = (if vi_DmiPMOverrideFld v \<noteq> [] then dmi_field runt (vi_DmiPMOverrideTyp v) (vi_DmiPMOverrideFld v) d else sku)
      in if re_match (vi_DmiProdModelRegex v) s = Some True then Some s else None)"

fun identify_loop ::
    "(string \<Rightarrow> string \<Rightarrow> bool option) \<Rightarrow> (string \<Rightarrow> bool \<times> string) \<Rightarrow> (int \<Rightarrow> bool \<times> string) \<Rightarrow> string \<Rightarrow> string \<Rightarrow> string
      \<Rightarrow> VariantI list \<Rightarrow> dmiCache \<Rightarrow> Variant option outcome \<times> dmiCache" where
  "identify_loop re_match runs runt mfg pname sku [] d = (Returns None, d)"
| "identify_loop re_match runs runt mfg pname sku (v # vs) d =
     (if mfg = vi_DmiMbMfg v \<and> pname = vi_DmiProdName v
      then
        (case checkModelRe re_match runt v sku d of
           None \<Rightarrow> identify_loop re_match runs runt mfg pname sku vs d
         | Some s \<Rightarrow>
             processorMatch runs v
               (\<lambda>ok d. if \<not> ok then identify_loop re_match runs runt mfg pname sku vs d
                       else ask runs (vi_SerNumField v)
                              (\<lambda>ser d. (Returns (Some \<lparr>v_i = v, v_mfg = mfg, v_prod = pname, v_sku = s, v_serial = ser\<rparr>), d)) d) d)
      else identify_loop re_match runs runt mfg pname sku vs d)"

text \<open>The package variables, and the DMI cache.\<close>

record appliance_state =
  ap_variants :: "VariantI list"
  ap_identified :: "Variant option"
  ap_usedFallback :: bool
  ap_dmi :: dmiCache

text \<open>\<open>Identify\<close> before its result is stored: by the board, else by the system.\<close>

definition identify_by ::
    "(string \<Rightarrow> string \<Rightarrow> bool option) \<Rightarrow> (string \<Rightarrow> bool \<times> string) \<Rightarrow> (int \<Rightarrow> bool \<times> string) \<Rightarrow> VariantI list
      \<Rightarrow> dmiCache \<Rightarrow> Variant option outcome \<times> dmiCache" where
  "identify_by re_match runs runt vs =
     ask runs ''baseboard-manufacturer'' (\<lambda>mfg.
     ask runs ''baseboard-product-name'' (\<lambda>pname d.
       let sku = dmi_field runt 1 ''SKU Number:'' d
       in case identify_loop re_match runs runt mfg pname sku vs d of
            (Panics, d1) \<Rightarrow> (Panics, d1)
          | (Returns (Some v), d1) \<Rightarrow> (Returns (Some v), d1)
          | (Returns None, d1) \<Rightarrow>
              ask runs ''system-manufacturer'' (\<lambda>sysMfg.
              ask runs ''system-product-name'' (\<lambda>sysProd d.
                case identify_loop re_match runs runt sysMfg sysProd sku vs d of
                  (Panics, d1) \<Rightarrow> (Panics, d1)
                | (Returns (Some v), d1) \<Rightarrow> (Returns (Some v), d1)
                | (Returns None, d1) \<Rightarrow> ask runs ''processor-version'' (\<lambda>_ d. (Returns None, d)) d1)) d1))"

definition Identify ::
    "(string \<Rightarrow> string \<Rightarrow> bool option) \<Rightarrow> (string \<Rightarrow> bool \<times> string) \<Rightarrow> (int \<Rightarrow> bool \<times> string)
      \<Rightarrow> appliance_state \<Rightarrow> Variant option outcome \<times> appliance_state" where
  "Identify re_match runs runt st =
     (case ap_identified st of
        Some v \<Rightarrow> (Returns (Some v), st)
      | None \<Rightarrow>
          (case identify_by re_match runs runt (ap_variants st) (ap_dmi st) of
             (Panics, d1) \<Rightarrow> (Panics, st\<lparr>ap_dmi := d1\<rparr>)
           | (Returns r, d1) \<Rightarrow> (Returns r, st\<lparr>ap_dmi := d1, ap_identified := r\<rparr>)))"

definition ReIdentify ::
    "(string \<Rightarrow> string \<Rightarrow> bool option) \<Rightarrow> (string \<Rightarrow> bool \<times> string) \<Rightarrow> (int \<Rightarrow> bool \<times> string)
      \<Rightarrow> appliance_state \<Rightarrow> Variant option outcome \<times> appliance_state" where
  "ReIdentify re_match runs runt st = Identify re_match runs runt (st\<lparr>ap_identified := None\<rparr>)"

text \<open>\<open>IdentifyWithFallback\<close>: \<open>fallback\<close> is the stored code name, or an error; the flag says whether that error is
  returned.\<close>

definition IdentifyWithFallback ::
    "(string \<Rightarrow> string \<Rightarrow> bool option) \<Rightarrow> (string \<Rightarrow> bool \<times> string) \<Rightarrow> (int \<Rightarrow> bool \<times> string) \<Rightarrow> string option
      \<Rightarrow> appliance_state \<Rightarrow> (Variant option \<times> bool) outcome \<times> appliance_state" where
  "IdentifyWithFallback re_match runs runt fallback st =
     (case Identify re_match runs runt st of
        (Panics, st1) \<Rightarrow> (Panics, st1)
      | (Returns _, st1) \<Rightarrow>
          if ap_identified st1 \<noteq> None then (Returns (ap_identified st1, False), st1)
          else
            (case fallback of
               None \<Rightarrow> (Returns (None, True), st1)
             | Some ident \<Rightarrow>
                 (let st2 = st1\<lparr>ap_usedFallback := True\<rparr>
                  in case find (\<lambda>v. vi_DevCodeName v = ident) (ap_variants st2) of
                       None \<Rightarrow> (Returns (None, False), st2)
                     | Some v \<Rightarrow>
                         (let sku = (if vi_DmiPMOverrideFld v \<noteq> [] then dmi_field runt (vi_DmiPMOverrideTyp v) (vi_DmiPMOverrideFld v) (ap_dmi st2)
                                     else dmi_field runt 1 ''SKU Number:'' (ap_dmi st2))
                          in case ask runs (vi_SerNumField v) (\<lambda>ser d. (Returns ser, d)) (ap_dmi st2) of
                               (Panics, d1) \<Rightarrow> (Panics, st2\<lparr>ap_dmi := d1\<rparr>)
                             | (Returns ser, d1) \<Rightarrow>
                                 (let r = Some \<lparr>v_i = v, v_mfg = vi_DmiMbMfg v, v_prod = vi_DmiProdName v, v_sku = sku, v_serial = ser\<rparr>
                                  in (Returns (r, False), st2\<lparr>ap_dmi := d1, ap_identified := r\<rparr>))))))"

definition IdentifiedViaFallback :: "appliance_state \<Rightarrow> bool" where
  "IdentifiedViaFallback st = ap_usedFallback st"

definition Get_variant :: "string \<Rightarrow> appliance_state \<Rightarrow> Variant option" where
  "Get_variant codename st =
     map_option (\<lambda>v. \<lparr>v_i = v, v_mfg = [], v_prod = [], v_sku = [], v_serial = []\<rparr>)
       (find (\<lambda>v. vi_DevCodeName v = codename) (ap_variants st))"

section \<open>Facts for the image\<close>

record PlatFacts =
  pf_Variant :: VariantI
  pf_Mfg :: string
  pf_Prod :: string
  pf_SKU :: string
  pf_Serial :: string

text \<open>\<open>WriteOut\<close>: what is written; a prototype may have another display than its description says.\<close>

definition WriteOut :: "LcdType \<Rightarrow> Variant \<Rightarrow> PlatFacts" where
  "WriteOut ltype v =
     (let i = (if vi_Prototype (v_i v) \<and> ltype \<noteq> NoLCD then (v_i v)\<lparr>vi_Lcd := ltype\<rparr> else v_i v)
      in \<lparr>pf_Variant = i, pf_Mfg = v_mfg v, pf_Prod = v_prod v, pf_SKU = v_sku v, pf_Serial = v_serial v\<rparr>)"

definition read_facts :: "PlatFacts \<Rightarrow> Variant" where
  "read_facts s = \<lparr>v_i = pf_Variant s, v_mfg = pf_Mfg s, v_prod = pf_Prod s, v_sku = pf_SKU s, v_serial = pf_Serial s\<rparr>"

definition Read_variant :: "PlatFacts option \<Rightarrow> appliance_state \<Rightarrow> Variant option" where
  "Read_variant file st = (case ap_identified st of Some v \<Rightarrow> Some v | None \<Rightarrow> map_option read_facts file)"

lemma facts_read_back: "read_facts (WriteOut NoLCD v) = v"
  by (simp add: read_facts_def WriteOut_def)

section \<open>Which model is identified\<close>

lemma ask_answers: "answers runs d val \<Longrightarrow> ask runs key k d = k (val key) (snd (dmi_str runs key d))"
  by (auto simp: ask_def answers_def split: prod.splits outcome.splits) (metis fst_conv outcome.distinct(1) outcome.inject)+

definition fits_model ::
    "(string \<Rightarrow> string \<Rightarrow> bool option) \<Rightarrow> (int \<Rightarrow> bool \<times> string) \<Rightarrow> (string \<Rightarrow> string) \<Rightarrow> dmiCache \<Rightarrow> string \<Rightarrow> string \<Rightarrow> VariantI \<Rightarrow> bool" where
  "fits_model re_match runt val d mfg pname v \<longleftrightarrow> mfg = vi_DmiMbMfg v \<and> pname = vi_DmiProdName v
     \<and> checkModelRe re_match runt v (dmi_field runt 1 ''SKU Number:'' d) d \<noteq> None
     \<and> (vi_CPU v = [] \<or> processors_match (vi_CPU v) (val ''processor-version''))"

definition as_model ::
    "(string \<Rightarrow> string \<Rightarrow> bool option) \<Rightarrow> (int \<Rightarrow> bool \<times> string) \<Rightarrow> (string \<Rightarrow> string) \<Rightarrow> dmiCache \<Rightarrow> string \<Rightarrow> string \<Rightarrow> VariantI \<Rightarrow> Variant" where
  "as_model re_match runt val d mfg pname v =
     \<lparr>v_i = v, v_mfg = mfg, v_prod = pname, v_sku = the (checkModelRe re_match runt v (dmi_field runt 1 ''SKU Number:'' d) d),
      v_serial = val (vi_SerNumField v)\<rparr>"

lemma checkModelRe_same: "same_tables d d1 \<Longrightarrow> checkModelRe re_match runt v sku d1 = checkModelRe re_match runt v sku d"
  by (simp add: checkModelRe_def dmi_field_same)

lemma identify_loop_first:
  assumes "answers runs d1 val" "same_tables d d1"
  shows "\<exists>d2. identify_loop re_match runs runt mfg pname (dmi_field runt 1 ''SKU Number:'' d) vs d1
      = (Returns (map_option (as_model re_match runt val d mfg pname) (find (fits_model re_match runt val d mfg pname) vs)), d2)
      \<and> answers runs d2 val \<and> same_tables d d2"
  using assms
proof (induction vs arbitrary: d1)
  case (Cons v vs)
  let ?sku = "dmi_field runt 1 ''SKU Number:'' d"
  have c: "checkModelRe re_match runt v ?sku d1 = checkModelRe re_match runt v ?sku d"
    using checkModelRe_same Cons.prems(2) .
  show ?case
  proof (cases "mfg = vi_DmiMbMfg v \<and> pname = vi_DmiProdName v \<and> checkModelRe re_match runt v ?sku d \<noteq> None")
    case False
    then have "identify_loop re_match runs runt mfg pname ?sku (v # vs) d1 = identify_loop re_match runs runt mfg pname ?sku vs d1"
      "\<not> fits_model re_match runt val d mfg pname v"
      by (auto simp: c fits_model_def)
    then show ?thesis
      using Cons.IH [OF Cons.prems] by simp
  next
    case True
    then obtain s where s: "checkModelRe re_match runt v ?sku d = Some s"
      by blast
    let ?d2 = "if vi_CPU v = [] then d1 else snd (dmi_str runs ''processor-version'' d1)"
    let ?ok = "vi_CPU v = [] \<or> processors_match (vi_CPU v) (val ''processor-version'')"
    have d2: "answers runs ?d2 val" "same_tables d ?d2"
      using Cons.prems answers_after same_tables_trans [OF Cons.prems(2) same_tables_after] by auto
    have step: "identify_loop re_match runs runt mfg pname ?sku (v # vs) d1 =
        (if \<not> ?ok then identify_loop re_match runs runt mfg pname ?sku vs ?d2
         else (Returns (Some (as_model re_match runt val d mfg pname v)), snd (dmi_str runs (vi_SerNumField v) ?d2)))"
      using True s ask_answers [OF Cons.prems(1)] ask_answers [OF answers_after [OF Cons.prems(1)]]
      by (auto simp: c processorMatch_def as_model_def)
    have "fits_model re_match runt val d mfg pname v \<longleftrightarrow> ?ok"
      using True s by (auto simp: fits_model_def)
    then show ?thesis
      using step Cons.IH [OF d2] answers_after [OF d2(1)] same_tables_trans [OF d2(2) same_tables_after] by auto
  qed
qed simp

text \<open>
  C26: if DMI answers, the model is the first whose board manufacturer and product are the unit's, and
  whose product model expression and processors match; if there is none, the first that matches with
  the manufacturer and product of the system instead.
\<close>

theorem Identify_first_match:
  assumes "ap_identified st = None" "answers runs (ap_dmi st) val"
  shows "fst (Identify re_match runs runt st) = Returns
    (let vs = ap_variants st; d = ap_dmi st; board = fits_model re_match runt val d (val ''baseboard-manufacturer'') (val ''baseboard-product-name'');
         sys = fits_model re_match runt val d (val ''system-manufacturer'') (val ''system-product-name'')
     in case find board vs of
          Some v \<Rightarrow> Some (as_model re_match runt val d (val ''baseboard-manufacturer'') (val ''baseboard-product-name'') v)
        | None \<Rightarrow> map_option (as_model re_match runt val d (val ''system-manufacturer'') (val ''system-product-name'')) (find sys vs))"
proof -
  define d where "d = ap_dmi st"
  have a: "answers runs d val" "same_tables d d"
    using assms(2) by (simp_all add: d_def)
  have after: "answers runs (snd (dmi_str runs k e)) val" "same_tables d (snd (dmi_str runs k e))"
    if "answers runs e val" "same_tables d e" for k e
    using that answers_after same_tables_trans [OF that(2) same_tables_after] by auto
  define d2 where "d2 = snd (dmi_str runs ''baseboard-product-name'' (snd (dmi_str runs ''baseboard-manufacturer'' d)))"
  have d2: "answers runs d2 val" "same_tables d d2"
    using after [OF after [OF a]] by (simp_all add: d2_def)
  obtain d3 where d3: "identify_loop re_match runs runt (val ''baseboard-manufacturer'') (val ''baseboard-product-name'')
        (dmi_field runt 1 ''SKU Number:'' d) (ap_variants st) d2
      = (Returns (map_option (as_model re_match runt val d (val ''baseboard-manufacturer'') (val ''baseboard-product-name''))
          (find (fits_model re_match runt val d (val ''baseboard-manufacturer'') (val ''baseboard-product-name'')) (ap_variants st))), d3)"
    "answers runs d3 val" "same_tables d d3"
    using identify_loop_first [OF d2] by blast
  define d4 where "d4 = snd (dmi_str runs ''system-product-name'' (snd (dmi_str runs ''system-manufacturer'' d3)))"
  have d4: "answers runs d4 val" "same_tables d d4"
    using after [OF after [OF d3(2,3)]] by (simp_all add: d4_def)
  obtain d5 where d5: "identify_loop re_match runs runt (val ''system-manufacturer'') (val ''system-product-name'')
        (dmi_field runt 1 ''SKU Number:'' d) (ap_variants st) d4
      = (Returns (map_option (as_model re_match runt val d (val ''system-manufacturer'') (val ''system-product-name''))
          (find (fits_model re_match runt val d (val ''system-manufacturer'') (val ''system-product-name'')) (ap_variants st))), d5)"
    "answers runs d5 val"
    using identify_loop_first [OF d4] by blast
  have step: "identify_by re_match runs runt (ap_variants st) d =
      (case identify_loop re_match runs runt (val ''baseboard-manufacturer'') (val ''baseboard-product-name'')
             (dmi_field runt 1 ''SKU Number:'' d) (ap_variants st) d2 of
          (Panics, e) \<Rightarrow> (Panics, e)
        | (Returns (Some v), e) \<Rightarrow> (Returns (Some v), e)
        | (Returns None, e) \<Rightarrow>
            ask runs ''system-manufacturer'' (\<lambda>sysMfg.
              ask runs ''system-product-name'' (\<lambda>sysProd e.
                case identify_loop re_match runs runt sysMfg sysProd (dmi_field runt 1 ''SKU Number:'' d) (ap_variants st) e of
                  (Panics, d1) \<Rightarrow> (Panics, d1)
                | (Returns (Some v), d1) \<Rightarrow> (Returns (Some v), d1)
                | (Returns None, d1) \<Rightarrow> ask runs ''processor-version'' (\<lambda>_ d. (Returns None, d)) d1)) e)"
    unfolding identify_by_def ask_answers [OF a(1)] ask_answers [OF after(1) [OF a]] Let_def d2_def [symmetric]
      dmi_field_same [OF d2(2)] by (rule refl)
  have fst_ask: "ask runs ''processor-version'' (\<lambda>_ d. (Returns None, d)) d5 = (Returns (None :: Variant option), snd (dmi_str runs ''processor-version'' d5))"
    by (simp add: ask_answers [OF d5(2)])
  have "fst (identify_by re_match runs runt (ap_variants st) d) = Returns
      (case find (fits_model re_match runt val d (val ''baseboard-manufacturer'') (val ''baseboard-product-name'')) (ap_variants st) of
         Some v \<Rightarrow> Some (as_model re_match runt val d (val ''baseboard-manufacturer'') (val ''baseboard-product-name'') v)
       | None \<Rightarrow> map_option (as_model re_match runt val d (val ''system-manufacturer'') (val ''system-product-name''))
           (find (fits_model re_match runt val d (val ''system-manufacturer'') (val ''system-product-name'')) (ap_variants st)))"
  proof (cases "find (fits_model re_match runt val d (val ''baseboard-manufacturer'') (val ''baseboard-product-name'')) (ap_variants st)")
    case None
    have "identify_by re_match runs runt (ap_variants st) d =
        (case identify_loop re_match runs runt (val ''system-manufacturer'') (val ''system-product-name'')
             (dmi_field runt 1 ''SKU Number:'' d) (ap_variants st) d4 of
            (Panics, d1) \<Rightarrow> (Panics, d1)
          | (Returns (Some v), d1) \<Rightarrow> (Returns (Some v), d1)
          | (Returns None, d1) \<Rightarrow> ask runs ''processor-version'' (\<lambda>_ d. (Returns None, d)) d1)"
      using step d3(1) None by (simp add: ask_answers [OF d3(2)] ask_answers [OF after(1) [OF d3(2,3)]] d4_def)
    then show ?thesis
      using d5(1) None fst_ask
      by (cases "find (fits_model re_match runt val d (val ''system-manufacturer'') (val ''system-product-name'')) (ap_variants st)") simp_all
  qed (simp add: step d3)
  then show ?thesis
    using assms(1) unfolding d_def
    by (cases "identify_by re_match runs runt (ap_variants st) (ap_dmi st)") (simp add: Identify_def Let_def)
qed


text \<open>The processors match if all those of the unit are listed; others may be listed besides.\<close>

lemma remove_cpu_mset:
  "mset (map TrimSpace (remove_cpu vc cs)) = mset (map TrimSpace cs) - {#vc#}"
  by (induction cs) auto

lemma processors_match_subset:
  "processors_match cpu current \<longleftrightarrow>
     mset (map TrimSpace (split_on newline (TrimSpace current))) \<subseteq># mset (split_on newline cpu)"
proof -
  have "mset (map TrimSpace (fold remove_cpu vs cs)) = mset (map TrimSpace cs) - mset vs" for vs cs
    by (induction vs arbitrary: cs) (simp_all only: fold_simps remove_cpu_mset comp_def, simp_all)
  then have "fold remove_cpu vs cs = [] \<longleftrightarrow> mset (map TrimSpace cs) - mset vs = {#}" for vs cs
    by (metis list.map_disc_iff mset_zero_iff)
  then show ?thesis
    by (simp add: processors_match_def Diff_eq_empty_iff_mset del: mset_map)
qed

text \<open>
  A unit with one of two processors is taken for one with both; and as a DMI answer is the last line only,
  so is every unit whose last socket is empty.
\<close>

lemma one_of_two_processors: "processors_match (''Cpu 1'' @ newline # ''Not Specified'') ''Not Specified''"
  by (simp add: processors_match_def newline_def TrimSpace_def is_space_def)

lemma dmi_answer_last_line: "dmi_trim (''Cpu 7'' @ newline # ''Not Specified'' @ [newline]) = Returns ''Not Specified''"
  by (simp add: dmi_trim_def last_newline_def last_line_def newline_def has_prefix_def)


definition sample_model :: "string \<Rightarrow> string \<Rightarrow> VariantI" where
  "sample_model cpu name =
     \<lparr>vi_Familyname = ''cputest'', vi_DmiMbMfg = ''cputest'', vi_DmiProdName = ''cputest'', vi_DmiProdModelRegex = ''.*'',
      vi_DmiPMOverrideTyp = 0, vi_DmiPMOverrideFld = [], vi_CPU = cpu, vi_SerNumField = ''system-serial-number'',
      vi_NICInfo = \<lparr>ni_SharedDiagPorts = [], ni_WANIndex = 0, ni_DefaultNamesNoDiag = [''Port 1 (WAN)''], ni_MACPrefix = []\<rparr>,
      vi_IPMI = False, vi_IPMIChannel = 0, vi_NumDataDisks = 1, vi_Disksize = 21474836480, vi_DiskIsSSD = True, vi_SwRaidlevel = - 1,
      vi_FakeraidType = [], vi_BiosConfigTool = [], vi_IpmiConfigTool = [], vi_Virttype = KVM,
      vi_RecoveryMedia = \<lparr>rm_LocateRDMethod = LocateByLabel, rm_ValidateRDMethod = ValidateUSB, rm_FsType = ''ext3'',
        rm_FsOptsAdditional = [], rm_FsOptsOverride = False, rm_SSD = True\<rparr>,
      vi_Lcd = NoLCD, vi_DevCodeName = name, vi_Partoffset = [], vi_Lowmemory = False, vi_Prototype = True, vi_DiskSTol = 0, vi_DiskTTol = 0\<rparr>"

definition sample_dmi :: "string \<Rightarrow> string option" where
  "sample_dmi = [''system-manufacturer'' \<mapsto> ''cputest'', ''system-product-name'' \<mapsto> ''cputest'', ''processor-version'' \<mapsto> ''someOtherVersion'']"

lemma answers_mock: "answers runs (TestingMock m t) (\<lambda>k. case m k of Some s \<Rightarrow> s | None \<Rightarrow> [])"
  by (auto simp: answers_def dmi_str_def TestingMock_def split: option.split)

theorem Identify_first_match_witness:
  "\<exists>v. fst (Identify (\<lambda>_ _. Some True) (\<lambda>_. (True, [])) (\<lambda>_. (True, []))
       \<lparr>ap_variants = [sample_model ''someVersion'' ''cputest1'', sample_model ''someOtherVersion'' ''cputest2''], ap_identified = None,
         ap_usedFallback = False, ap_dmi = TestingMock sample_dmi None\<rparr>) = Returns (Some v) \<and> vi_DevCodeName (v_i v) = ''cputest2''"
proof -
  let ?st = "\<lparr>ap_variants = [sample_model ''someVersion'' ''cputest1'', sample_model ''someOtherVersion'' ''cputest2''], ap_identified = None,
         ap_usedFallback = False, ap_dmi = TestingMock sample_dmi None\<rparr>"
  have a: "ap_identified ?st = None" "answers (\<lambda>_. (True, [])) (ap_dmi ?st) (\<lambda>k. case sample_dmi k of Some s \<Rightarrow> s | None \<Rightarrow> [])"
    using answers_mock by simp_all
  show ?thesis
    unfolding Identify_first_match [OF a]
    by (simp add: sample_dmi_def sample_model_def fits_model_def as_model_def checkModelRe_def processors_match_def newline_def
        TrimSpace_def is_space_def)
qed


text \<open>A prefix that does not parse leaves the empty list, which allows all cards.\<close>

lemma bad_prefix_allows_all: "ni_MACPrefix (vi_NICInfo (v_i v)) = [''56:78:9x''] \<Longrightarrow> MACPrefixes v = []"
  by (simp add: MACPrefixes_def Trim_def ParseUint16_def hex_val_def)

end
