(* ===== verification/NetAdjust.thy ===== *)
theory NetAdjust
  imports NetRoute Appliance
begin

text \<open>
  Changing routes and bringing up cards (\<open>pkg/net/route_linux.go\<close>, \<open>net_linux.go\<close>): the WAN port, giving way to
  its default route, and the cards to enable.  Commands are lists of words; whether one succeeds is a
  function of its words.
\<close>

section \<open>The WAN port\<close>

text \<open>\<open>WanDevice\<close> on the sorted cards: diagnosis ports are left out, unless that has been done already.\<close>

definition WanDevice :: "bool \<Rightarrow> int list \<Rightarrow> int \<Rightarrow> Nic list \<Rightarrow> Nic option outcome" where
  "WanDevice diagsHidden diagPorts idx interfaces =
     (let ifs = (if diagsHidden then interfaces else nic_Filter (NotFilter (IndexFilter diagPorts)) interfaces)
      in if int (length ifs) > idx then (if idx < 0 then Panics else Returns (Some (ifs ! nat idx)))
         else Returns None)"

text \<open>No port was disabled by the first process, or the cards have not been configured.\<close>

definition diags_hidden :: "nat \<Rightarrow> nat \<Rightarrow> bool \<Rightarrow> bool" where
  "diags_hidden pid disabledNics alreadyConfigured \<longleftrightarrow> \<not> (pid = 1 \<and> disabledNics = 0 \<or> \<not> alreadyConfigured)"

section \<open>Default routes\<close>

text \<open>A missing gateway prints as \<open><nil>\<close>.\<close>

definition gw_text :: "'ip ip_funs \<Rightarrow> 'ip option \<Rightarrow> string" where
  "gw_text ips g = (case g of None \<Rightarrow> ''<nil>'' | Some a \<Rightarrow> ip_show ips a)"

definition Remove_cmd :: "'ip ip_funs \<Rightarrow> 'ip Route \<Rightarrow> string list" where
  "Remove_cmd ips r = [''ip'', ''route'', ''del'', ''default'', ''via'', gw_text ips (rt_Gw r), ''dev'', rt_Iface r]"

definition add_cmd :: "'ip ip_funs \<Rightarrow> 'ip Route \<Rightarrow> 64 word \<Rightarrow> string list" where
  "add_cmd ips r metric =
     [''ip'', ''route'', ''add'', ''default'', ''via'', gw_text ips (rt_Gw r), ''dev'', rt_Iface r, ''proto'', proto2str (rt_Proto r)]
     @ (case rt_Src r of None \<Rightarrow> [] | Some s \<Rightarrow> [''src'', ip_show ips s]) @ [''metric'', show_dec (unat metric)]"

definition maxTries :: nat where "maxTries = 32"

text \<open>\<open>adjustMetric\<close>: the commands that are run, and the route as it is left.\<close>

function adjustMetric ::
    "'ip ip_funs \<Rightarrow> (string list \<Rightarrow> bool) \<Rightarrow> 64 word \<Rightarrow> nat \<Rightarrow> 'ip Route \<Rightarrow> string list list \<times> 'ip Route" where
  "adjustMetric ips ok newMetric prevTries r =
     (if prevTries \<ge> maxTries then ([], r)
      else if ok (add_cmd ips r newMetric)
      then ([Remove_cmd ips r, add_cmd ips r newMetric], r\<lparr>rt_Metric := newMetric\<rparr>)
      else (case adjustMetric ips ok (newMetric + 1) (prevTries + 1) r of
              (cmds, r1) \<Rightarrow> ([Remove_cmd ips r, add_cmd ips r newMetric] @ cmds, r1)))"
  by pat_completeness auto

termination
  by (relation "measure (\<lambda>(ips, ok, m, tries, r). maxTries - tries)") (auto simp: maxTries_def)

declare adjustMetric.simps [simp del]

text \<open>\<open>AdjustDupDefaultRoutes\<close> for a known WAN port: the commands, per route.\<close>

definition adjust_route ::
    "'ip ip_funs \<Rightarrow> (string list \<Rightarrow> bool) \<Rightarrow> string \<Rightarrow> 64 word \<Rightarrow> 'ip Route \<Rightarrow> string list list" where
  "adjust_route ips ok keep metric r =
     (if rt_Proto r = RTPROT_STATIC then []
      else if rt_Iface r \<noteq> keep
      then (if metric = 0 then [Remove_cmd ips r]
            else if rt_Metric r \<noteq> metric then fst (adjustMetric ips ok metric 0 r) else [])
      else [])"

definition kept_iface :: "string \<Rightarrow> 'ip Route list \<Rightarrow> string" where
  "kept_iface wan routes = (case find (\<lambda>r. rt_Iface r = wan) routes of Some r \<Rightarrow> rt_Iface r | None \<Rightarrow> [])"

definition AdjustDupDefaultRoutes ::
    "'ip ip_funs \<Rightarrow> (string list \<Rightarrow> bool) \<Rightarrow> string \<Rightarrow> 64 word \<Rightarrow> 'ip Route list \<Rightarrow> string list list" where
  "AdjustDupDefaultRoutes ips ok wan metric routes =
     (if wan = [] then [] else concat (map (adjust_route ips ok (kept_iface wan routes) metric) routes))"

section \<open>Bringing up cards\<close>

text \<open>What is known of an interface: whether it exists, is up and has an IPv4 address.\<close>

record if_state =
  is_exists :: bool
  is_up :: bool
  is_v4 :: bool

definition EnableNic_cmd :: "string \<Rightarrow> string list" where
  "EnableNic_cmd n =
     [''udhcpc'', ''-i'', n, ''-t'', ''3'', ''-T'', ''3'', ''-A'', ''10'', ''-s'', ''/usr/share/udhcpc/default.script'', ''-q'', ''-b'']"

text \<open>\<open>EnableNic\<close>: the command is run if the card could be brought up.\<close>

definition EnableNic :: "bool \<Rightarrow> (string list \<Rightarrow> bool) \<Rightarrow> string \<Rightarrow> bool" where
  "EnableNic upOk ok n \<longleftrightarrow> upOk \<and> ok (EnableNic_cmd n)"

text \<open>\<open>enableNetworkingIfaceList\<close>: the cards that are enabled, each in its own goroutine.\<close>

definition cards_to_enable :: "int list \<Rightarrow> (string \<Rightarrow> if_state) \<Rightarrow> Nic list \<Rightarrow> string list" where
  "cards_to_enable diags st ifaces =
     map (\<lambda>(i, n). nic_device n)
       (filter (\<lambda>(i, n). int i \<notin> set diags \<and> is_exists (st (nic_device n)) \<and> \<not> (is_up (st (nic_device n)) \<and> is_v4 (st (nic_device n))))
         (zip [0..<length ifaces] ifaces))"

definition HasIpv4 :: "(string \<Rightarrow> bool option) \<Rightarrow> string list \<Rightarrow> bool" where
  "HasIpv4 parse4 addrs \<longleftrightarrow> list_ex (\<lambda>a. parse4 a = Some True) addrs"

text \<open>\<open>WaitForIpv4\<close>: one look at all cards per second, while time is left.\<close>

fun WaitForIpv4 :: "(nat \<Rightarrow> string \<Rightarrow> if_state) \<Rightarrow> nat \<Rightarrow> nat \<Rightarrow> string list \<Rightarrow> bool" where
  "WaitForIpv4 st 0 t ifaces = False"
| "WaitForIpv4 st (Suc n) t ifaces =
     (if list_ex (\<lambda>i. is_exists (st t i) \<and> is_v4 (st t i)) ifaces then True else WaitForIpv4 st n (t + 1) ifaces)"

section \<open>What is changed\<close>

text \<open>The metric found is the first that is accepted, at most 31 above the one wanted.\<close>

lemma adjustMetric_first:
  assumes "k < maxTries - tries" "ok (add_cmd ips r (m + of_nat k))" "\<And>j. j < k \<Longrightarrow> \<not> ok (add_cmd ips r (m + of_nat j))"
  shows "snd (adjustMetric ips ok m tries r) = r\<lparr>rt_Metric := m + of_nat k\<rparr>"
    and "length (fst (adjustMetric ips ok m tries r)) = 2 * k + 2"
proof -
  have "snd (adjustMetric ips ok m tries r) = r\<lparr>rt_Metric := m + of_nat k\<rparr>
    \<and> length (fst (adjustMetric ips ok m tries r)) = 2 * k + 2"
    using assms
  proof (induction k arbitrary: m tries)
    case 0
    then show ?case
      by (simp add: adjustMetric.simps [of ips ok m tries r])
  next
    case (Suc k)
    have "\<not> ok (add_cmd ips r m)"
      using Suc.prems(3) [of 0] by simp
    moreover have "snd (adjustMetric ips ok (m + 1) (tries + 1) r) = r\<lparr>rt_Metric := m + 1 + of_nat k\<rparr>
        \<and> length (fst (adjustMetric ips ok (m + 1) (tries + 1) r)) = 2 * k + 2"
    proof (rule Suc.IH)
      show "k < maxTries - (tries + 1)" "ok (add_cmd ips r (m + 1 + of_nat k))"
        using Suc.prems(1,2) by (simp_all add: algebra_simps)
      show "\<not> ok (add_cmd ips r (m + 1 + of_nat j))" if "j < k" for j
        using Suc.prems(3) [of "Suc j"] that by (simp add: algebra_simps)
    qed
    ultimately show ?case
      using Suc.prems(1)
      by (cases "adjustMetric ips ok (m + 1) (tries + 1) r") (simp add: adjustMetric.simps [of ips ok m tries r] algebra_simps)
  qed
  then show "snd (adjustMetric ips ok m tries r) = r\<lparr>rt_Metric := m + of_nat k\<rparr>"
    and "length (fst (adjustMetric ips ok m tries r)) = 2 * k + 2"
    by blast+
qed

lemma adjustMetric_bounded: "length (fst (adjustMetric ips ok m tries r)) \<le> 2 * (maxTries - tries)"
proof (induction ips ok m tries r rule: adjustMetric.induct)
  case (1 ips ok m tries r)
  then show ?case
    by (subst adjustMetric.simps) (auto split: prod.splits)
qed

text \<open>
  If the WAN port has a default route, that of no other port with its name is touched, and without a
  metric exactly the others that are not static are removed, in order.
\<close>

lemma AdjustDup_removes_others:
  assumes "wan \<noteq> []" "list_ex (\<lambda>r. rt_Iface r = wan) routes"
  shows "AdjustDupDefaultRoutes ips ok wan 0 routes =
    map (Remove_cmd ips) (filter (\<lambda>r. rt_Proto r \<noteq> RTPROT_STATIC \<and> rt_Iface r \<noteq> wan) routes)"
proof -
  have "kept_iface wan routes = wan"
    using assms(2) by (induction routes) (auto simp: kept_iface_def)
  then have "concat (map (adjust_route ips ok (kept_iface wan routes) 0) rs) =
      map (Remove_cmd ips) (filter (\<lambda>r. rt_Proto r \<noteq> RTPROT_STATIC \<and> rt_Iface r \<noteq> wan) rs)" for rs
    by (induction rs) (auto simp: adjust_route_def)
  then show ?thesis
    using assms(1) by (simp add: AdjustDupDefaultRoutes_def)
qed

text \<open>If it has none, every default route that is not static is removed, and the unit has no way out.\<close>

lemma AdjustDup_removes_all:
  assumes "wan \<noteq> []" "\<not> list_ex (\<lambda>r. rt_Iface r = wan) routes" "list_all (\<lambda>r. rt_Iface r \<noteq> []) routes"
  shows "AdjustDupDefaultRoutes ips ok wan 0 routes =
    map (Remove_cmd ips) (filter (\<lambda>r. rt_Proto r \<noteq> RTPROT_STATIC) routes)"
proof -
  have "find (\<lambda>r. rt_Iface r = wan) routes = None"
    using assms(2) by (auto simp: find_None_iff list_ex_iff)
  then have k: "kept_iface wan routes = []"
    by (simp add: kept_iface_def)
  have "concat (map (adjust_route ips ok [] 0) rs) = map (Remove_cmd ips) (filter (\<lambda>r. rt_Proto r \<noteq> RTPROT_STATIC) rs)"
    if "list_all (\<lambda>r. rt_Iface r \<noteq> []) rs" for rs
    using that by (induction rs) (auto simp: adjust_route_def)
  then show ?thesis
    using assms(1,3) by (simp add: AdjustDupDefaultRoutes_def k)
qed

end
