(* ===== verification/Ipmi.thy ===== *)
theory Ipmi
  imports GoStd
begin

text \<open>
  The management controller (\<open>pkg/hw/ipmi\<close>): channels, users and addresses as \<open>ipmitool\<close> prints them.  The
  commands' outcomes are inputs.
\<close>

section \<open>Users\<close>

record IpmiUser =
  iu_Id :: int
  iu_Name :: string
  iu_LinkAuth :: bool
  iu_IpmiMsg :: bool
  iu_Privilege :: string
  iu_Enabled :: bool

definition new_user :: IpmiUser where
  "new_user = \<lparr>iu_Id = 0, iu_Name = [], iu_LinkAuth = False, iu_IpmiMsg = False, iu_Privilege = [], iu_Enabled = False\<rparr>"

text \<open>\<open>strconv.ParseBool\<close>\<close>

definition ParseBool :: "string \<Rightarrow> bool option" where
  "ParseBool s =
     (if s \<in> {''1'', ''t'', ''T'', ''TRUE'', ''true'', ''True''} then Some True
      else if s \<in> {''0'', ''f'', ''F'', ''FALSE'', ''false'', ''False''} then Some False else None)"

text \<open>\<open>parseUsers\<close> on the records the CSV reader yields; \<open>None\<close> is an error of the reader.  Any error empties
  the list.\<close>

definition parse_user :: "string list \<Rightarrow> IpmiUser option" where
  "parse_user rec =
     (if length rec \<noteq> 6 then None
      else
        (case (ParseInt10 (rec ! 0), ParseBool (rec ! 3), ParseBool (rec ! 4)) of
           ((i, False), Some la, Some im) \<Rightarrow>
             Some (new_user\<lparr>iu_Id := i, iu_Name := rec ! 1, iu_LinkAuth := la, iu_IpmiMsg := im, iu_Privilege := rec ! 5\<rparr>)
         | _ \<Rightarrow> None))"

fun parseUsers_from :: "string list option list \<Rightarrow> IpmiUser list \<Rightarrow> IpmiUser list" where
  "parseUsers_from [] users = users"
| "parseUsers_from (r # rs) users =
     (case r of
        None \<Rightarrow> []
      | Some rec \<Rightarrow> (case parse_user rec of None \<Rightarrow> [] | Some u \<Rightarrow> parseUsers_from rs (users @ [u])))"

definition parseUsers :: "string list option list \<Rightarrow> IpmiUser list" where
  "parseUsers rs = parseUsers_from rs []"

definition HasAdminPriv :: "IpmiUser \<Rightarrow> bool" where "HasAdminPriv u \<longleftrightarrow> iu_Privilege u = ''ADMINISTRATOR''"
definition IsEnabled :: "IpmiUser \<Rightarrow> bool" where "IsEnabled u = iu_Enabled u"

definition GuessEnabled :: "IpmiUser \<Rightarrow> bool" where
  "GuessEnabled u \<longleftrightarrow> iu_IpmiMsg u \<and> iu_Privilege u \<noteq> ''NO ACCESS'' \<and> iu_Privilege u \<noteq> ''Unknown (0x00)''"

definition OnlyEnabled :: "IpmiUser list \<Rightarrow> IpmiUser list" where "OnlyEnabled us = filter IsEnabled us"
definition OnlyPrivileged :: "IpmiUser list \<Rightarrow> IpmiUser list" where "OnlyPrivileged us = filter HasAdminPriv us"

definition OnlyNamed :: "IpmiUser list \<Rightarrow> IpmiUser list" where
  "OnlyNamed us = filter (\<lambda>u. iu_Name u \<noteq> [] \<and> \<not> has_prefix (ascii_lower (iu_Name u)) ''null'') us"

definition OnlyNamedAdmin :: "IpmiUser list \<Rightarrow> IpmiUser list" where
  "OnlyNamedAdmin us = filter (\<lambda>u. has_prefix (ascii_lower (iu_Name u)) ''admin'') us"

text \<open>\<open>SetPassword\<close> and \<open>SetName\<close> on the outcome of the command: whether it failed, and its output.\<close>

definition SetPassword :: "bool \<times> string \<Rightarrow> bool" where
  "SetPassword res = (case res of (err, out) \<Rightarrow> \<not> err \<and> contains out ''Set User Password command successful'')"

definition SetName :: "(string list \<Rightarrow> bool) \<Rightarrow> string \<Rightarrow> IpmiUser \<Rightarrow> bool \<times> IpmiUser" where
  "SetName ok name u =
     (if name = iu_Name u then (True, u)
      else if ok [''ipmitool'', ''user'', ''set'', ''name'', show_dec (nat (iu_Id u)), name] then (True, u\<lparr>iu_Name := name\<rparr>)
      else (False, u))"

section \<open>Channels\<close>

record Channel =
  ch_Id :: nat
  ch_Medium :: string
  ch_Users :: "IpmiUser list"

text \<open>A line of one key and one value.\<close>

definition key_value :: "string \<Rightarrow> (string \<times> string) option" where
  "key_value l = (case split_on CHR '':'' l of [k, v] \<Rightarrow> Some (TrimSpace k, TrimSpace v) | _ \<Rightarrow> None)"

fun find_medium :: "string list \<Rightarrow> string option" where
  "find_medium [] = None"
| "find_medium (l # ls) =
     (case key_value l of
        Some (k, v) \<Rightarrow> if k = ''Channel Medium Type'' then Some v else find_medium ls
      | None \<Rightarrow> find_medium ls)"

definition parseChannelInfo :: "string \<Rightarrow> Channel \<Rightarrow> Channel option" where
  "parseChannelInfo data ch =
     (let ls = split_on newline data
      in if length ls < 2 \<or> \<not> has_prefix (hd ls) ''Channel '' \<or> \<not> has_suffix (hd ls) '' info:'' then None
         else Some (case find_medium (tl ls) of Some m \<Rightarrow> ch\<lparr>ch_Medium := m\<rparr> | None \<Rightarrow> ch))"

definition getInfo :: "(nat \<Rightarrow> string option) \<Rightarrow> Channel \<Rightarrow> Channel option" where
  "getInfo info ch = (case info (ch_Id ch) of None \<Rightarrow> None | Some out \<Rightarrow> parseChannelInfo out ch)"

definition GetChannels :: "(nat \<Rightarrow> string option) \<Rightarrow> Channel list" where
  "GetChannels info =
     concat (map (\<lambda>i. case getInfo info \<lparr>ch_Id = i, ch_Medium = [], ch_Users = []\<rparr> of None \<Rightarrow> [] | Some c \<Rightarrow> [c]) [0..<16])"

definition IsLan :: "Channel \<Rightarrow> bool" where "IsLan ch \<longleftrightarrow> ch_Medium ch = ''802.3 LAN''"

definition FirstLAN :: "Channel list \<Rightarrow> Channel option" where "FirstLAN chs = find IsLan chs"

definition enaDisaToBool :: "string \<Rightarrow> bool" where
  "enaDisaToBool s = has_prefix (ascii_lower s) ''enable''"

text \<open>\<open>parseChannelUserInfo\<close>: the users so far, and the one being read, if any; a field before the first user
  is written through a null pointer.\<close>

definition set_user_field :: "string \<Rightarrow> string \<Rightarrow> IpmiUser \<Rightarrow> IpmiUser" where
  "set_user_field k v u =
     (if k = ''User Name'' then u\<lparr>iu_Name := v\<rparr>
      else if k = ''Link Authentication'' then u\<lparr>iu_LinkAuth := enaDisaToBool v\<rparr>
      else if k = ''IPMI Messaging'' then u\<lparr>iu_IpmiMsg := enaDisaToBool v\<rparr>
      else if k = ''Privilege Level'' then u\<lparr>iu_Privilege := v\<rparr>
      else u\<lparr>iu_Enabled := enaDisaToBool v\<rparr>)"

definition user_fields :: "string list" where
  "user_fields = [''User Name'', ''Link Authentication'', ''IPMI Messaging'', ''Privilege Level'', ''Enable Status'']"

fun parse_user_lines :: "string list \<Rightarrow> IpmiUser list \<Rightarrow> IpmiUser option \<Rightarrow> IpmiUser list option outcome" where
  "parse_user_lines [] users user = Returns (Some (users @ (case user of None \<Rightarrow> [] | Some u \<Rightarrow> [u])))"
| "parse_user_lines (l # ls) users user =
     (case key_value l of
        None \<Rightarrow> parse_user_lines ls users user
      | Some (k, v) \<Rightarrow>
          if k = ''User ID''
          then
            (case ParseInt10 v of
               (i, True) \<Rightarrow> Returns None
             | (i, False) \<Rightarrow>
                 parse_user_lines ls (users @ (case user of None \<Rightarrow> [] | Some u \<Rightarrow> [u])) (Some (new_user\<lparr>iu_Id := i\<rparr>)))
          else if k \<in> set user_fields
          then (case user of None \<Rightarrow> Panics | Some u \<Rightarrow> parse_user_lines ls users (Some (set_user_field k v u)))
          else parse_user_lines ls users user)"

definition parseChannelUserInfo :: "string \<Rightarrow> IpmiUser list option outcome" where
  "parseChannelUserInfo data = parse_user_lines (split_on newline data) [] None"

text \<open>\<open>GetUsers\<close>: an error of the parser leaves the channel without users.\<close>

definition GetUsers :: "(nat \<Rightarrow> string option) \<Rightarrow> Channel \<Rightarrow> (bool \<times> Channel) outcome" where
  "GetUsers access ch =
     (case access (ch_Id ch) of
        None \<Rightarrow> Returns (False, ch)
      | Some out \<Rightarrow>
          (case parseChannelUserInfo out of
             Panics \<Rightarrow> Panics
           | Returns None \<Rightarrow> Returns (False, ch\<lparr>ch_Users := []\<rparr>)
           | Returns (Some us) \<Rightarrow> Returns (True, ch\<lparr>ch_Users := us\<rparr>)))"

text \<open>\<open>mac\<close>: the last line with an address that looks like one; a line that does not clears it again.\<close>

definition count_char :: "char \<Rightarrow> string \<Rightarrow> nat" where
  "count_char c s = length (filter (\<lambda>x. x = c) s)"

definition mac_line :: "string \<Rightarrow> string \<Rightarrow> string" where
  "mac_line l mac =
     (if has_prefix (TrimSpace l) ''MAC Address''
      then
        (case index_of '':'' l of
           None \<Rightarrow> mac
         | Some i \<Rightarrow> (let m = TrimSpace (drop (i + 1) l) in if count_char CHR '':'' m \<noteq> 5 then [] else m))
      else mac)"

text \<open>The answer \<open>None\<close> is an error; without success of the command the program ends.\<close>

definition channel_mac :: "string \<Rightarrow> string option" where
  "channel_mac res = (let m = fold mac_line (split_on newline res) [] in if m = [] then None else Some m)"

definition LogMacs :: "(nat \<Rightarrow> string option) \<Rightarrow> (nat \<Rightarrow> string option) \<Rightarrow> string list option" where
  "LogMacs info lan =
     (let ms = map (\<lambda>c. case lan (ch_Id c) of None \<Rightarrow> None | Some out \<Rightarrow> channel_mac out) (filter IsLan (GetChannels info))
      in if None \<in> set ms then None else Some (map the ms))"

section \<open>The identification light\<close>

definition uid_Once :: "u8 \<Rightarrow> string list" where
  "uid_Once seconds = [''ipmiutil'', ''leds'', ''-i'' @ show_dec (unat seconds)]"

definition uid_Off :: "string list" where "uid_Off = uid_Once 0"
definition uid_On :: "string list" where "uid_On = uid_Once 255"

text \<open>\<open>BlinkUntil\<close>: the commands, given in how many periods the channel closes; \<open>None\<close> for times that are too short.\<close>

fun blink_loop :: "(nat \<Rightarrow> bool) \<Rightarrow> u8 \<Rightarrow> nat \<Rightarrow> nat \<Rightarrow> bool \<times> string list list" where
  "blink_loop ok onTime t n =
     (if \<not> ok t then (False, [uid_Once onTime])
      else (case n of
              0 \<Rightarrow> (ok (t + 1), [uid_Once onTime, uid_Off])
            | Suc k \<Rightarrow> (case blink_loop ok onTime (t + 1) k of (r, cmds) \<Rightarrow> (r, uid_Once onTime # cmds))))"

definition BlinkUntil :: "(nat \<Rightarrow> bool) \<Rightarrow> u8 \<Rightarrow> nat \<Rightarrow> (bool \<times> string list list) option" where
  "BlinkUntil ok onTime n = (if onTime \<le> 1 then None else Some (blink_loop ok onTime 0 n))"

section \<open>Facts\<close>

text \<open>Fields before the first user make the parser panic.\<close>

lemma field_before_user: "parseChannelUserInfo (''User Name : root'') = Panics"
  by (simp add: parseChannelUserInfo_def key_value_def newline_def TrimSpace_def is_space_def user_fields_def)

text \<open>Once a user has been seen it does not panic any more.\<close>

lemma parse_user_lines_total: "parse_user_lines ls users (Some u) \<noteq> Panics"
proof (induction ls arbitrary: users u)
  case (Cons l ls)
  then show ?case
    by (cases "key_value l") (simp_all split: prod.split bool.split)
qed simp

text \<open>The light is off after blinking, unless a command failed.\<close>

lemma blink_ends_off:
  "blink_loop ok onTime t n = (True, cmds) \<Longrightarrow> last cmds = uid_Off \<and> length cmds = n + 2"
proof (induction n arbitrary: t cmds)
  case (Suc n)
  then obtain cs where cs: "blink_loop ok onTime (t + 1) n = (True, cs)" "cmds = uid_Once onTime # cs"
    by (auto split: if_splits prod.splits)
  then have "last cs = uid_Off \<and> length cs = n + 2"
    using Suc.IH by blast
  then show ?case
    using cs(2) by auto
qed (auto split: if_splits)

end
