(* ===== verification/House.thy ===== *)
theory House
  imports GoStd
begin

text \<open>
  Housekeeping (\<open>pkg/init/housekeeping\<close>): lists of tasks to be done later, the latest first, and the list of
  what is done before a reboot.  What a task does is a parameter; it may also change the list.
\<close>

record HkTask =
  hk_Name :: string
  hk_Func :: nat

type_synonym HkList = "HkTask list"

definition hk_Filter :: "(HkTask \<Rightarrow> bool) \<Rightarrow> HkList \<Rightarrow> HkList" where
  "hk_Filter f hl = filter f hl"

definition hk_FilterOut :: "(HkTask \<Rightarrow> bool) \<Rightarrow> HkList \<Rightarrow> HkList" where
  "hk_FilterOut f hl = hk_Filter (\<lambda>t. \<not> f t) hl"

definition hk_Clear :: "HkList \<Rightarrow> HkList" where "hk_Clear hl = []"
definition hk_Add :: "HkTask \<Rightarrow> HkList \<Rightarrow> HkList" where "hk_Add t hl = hl @ [t]"
definition hk_AddFirst :: "HkTask \<Rightarrow> HkList \<Rightarrow> HkList" where "hk_AddFirst t hl = t # hl"

text \<open>\<open>Perform\<close>: the last task runs, then the list is cut to what it was before that task.  A task that made
  it shorter than this makes the cut reach beyond the end, which counts as a panic.\<close>

function Perform ::
    "(nat \<Rightarrow> bool \<Rightarrow> HkList \<times> 'w \<Rightarrow> HkList \<times> 'w) \<Rightarrow> bool \<Rightarrow> HkList \<times> 'w \<Rightarrow> (HkList \<times> 'w) outcome" where
  "Perform run success (hl, w) =
     (if hl = [] then Returns ([], w)
      else case run (hk_Func (last hl)) success (hl, w) of
             (hl1, w1) \<Rightarrow>
               if length hl1 < length hl - 1 then Panics else Perform run success (take (length hl - 1) hl1, w1))"
  by pat_completeness auto
termination by (relation "measure (\<lambda>(run, s, hl, w). length hl)") auto

declare Perform.simps [simp del]

text \<open>The tasks that come with every reboot; the numbers stand for their functions.\<close>

definition default_tasks :: "string list" where
  "default_tasks = [''lcd'', ''sync'', ''umount'', ''log.Finalize'']"

definition RemovePrebootDefaults :: "HkList \<Rightarrow> HkList" where
  "RemovePrebootDefaults hl =
     hk_FilterOut (\<lambda>t. hk_Name t \<in> {''umount'', ''sync'', ''log.Finish'', ''lcd''}) hl"

definition AddPrebootDefaults :: "nat \<Rightarrow> nat \<Rightarrow> nat \<Rightarrow> nat \<Rightarrow> HkList \<Rightarrow> HkList" where
  "AddPrebootDefaults flog fumount fsync flcd hl =
     hk_AddFirst \<lparr>hk_Name = ''lcd'', hk_Func = flcd\<rparr>
       (hk_AddFirst \<lparr>hk_Name = ''sync'', hk_Func = fsync\<rparr>
         (hk_AddFirst \<lparr>hk_Name = ''umount'', hk_Func = fumount\<rparr>
           (hk_AddFirst \<lparr>hk_Name = ''log.Finalize'', hk_Func = flog\<rparr> (RemovePrebootDefaults hl))))"

section \<open>The latest first\<close>

text \<open>Tasks that leave the list alone are done once each, from the last to the first.\<close>

definition only_world :: "(nat \<Rightarrow> bool \<Rightarrow> 'w \<Rightarrow> 'w) \<Rightarrow> nat \<Rightarrow> bool \<Rightarrow> HkList \<times> 'w \<Rightarrow> HkList \<times> 'w" where
  "only_world act f success s = (fst s, act f success (snd s))"

lemma only_world_apply [simp]: "only_world act f success (hl, w) = (hl, act f success w)"
  by (simp add: only_world_def)

lemma Perform_reverse:
  "Perform (only_world act) success (hl, w) = Returns ([], foldl (\<lambda>w t. act (hk_Func t) success w) w (rev hl))"
proof (induction hl arbitrary: w rule: rev_induct)
  case Nil
  show ?case by (simp add: Perform.simps)
next
  case (snoc t hl)
  then show ?case
    by (subst Perform.simps) simp
qed

text \<open>Before a reboot all other tasks are done before the log is finished, the file systems are unmounted, the
  disks are flushed and the display is closed, in this order.\<close>

theorem preboot_order:
  "Perform (only_world act) success (AddPrebootDefaults flog fumount fsync flcd hl, w) =
   Returns ([], act flcd success (act fsync success (act fumount success (act flog success
     (foldl (\<lambda>w t. act (hk_Func t) success w) w (rev (RemovePrebootDefaults hl)))))))"
  unfolding Perform_reverse by (simp add: AddPrebootDefaults_def hk_AddFirst_def)

text \<open>The name under which the log task is removed is not the one under which it is added, so with the defaults
  added twice the log is finished twice.\<close>

lemma defaults_twice:
  "map hk_Name (AddPrebootDefaults 1 2 3 4 (AddPrebootDefaults 1 2 3 4 [])) =
   [''lcd'', ''sync'', ''umount'', ''log.Finalize'', ''log.Finalize'']"
  by code_simp

text \<open>A task added by another while the list is worked off is lost; one that clears it ends in a panic if others wait.\<close>

lemma Perform_loses_added:
  assumes "run f success (hl @ [\<lparr>hk_Name = n, hk_Func = f\<rparr>], w) = (hk_Add t (hl @ [\<lparr>hk_Name = n, hk_Func = f\<rparr>]), w1)"
  shows "Perform run success (hl @ [\<lparr>hk_Name = n, hk_Func = f\<rparr>], w) = Perform run success (hl, w1)"
  using assms by (subst Perform.simps) (simp add: hk_Add_def)

lemma Perform_cleared:
  assumes "run f success (hl @ [\<lparr>hk_Name = n, hk_Func = f\<rparr>], w) = (hk_Clear hl, w1)" "hl \<noteq> []"
  shows "Perform run success (hl @ [\<lparr>hk_Name = n, hk_Func = f\<rparr>], w) = Panics"
  using assms by (subst Perform.simps) (simp add: hk_Clear_def)

end
