(* ===== verification/FileOps.thy ===== *)
theory FileOps
  imports FileUtil "HOL-Library.Word"
begin

text \<open>
  Files and directories (\<open>pkg/fileutil/dir.go\<close>, \<open>dir_linux.go\<close>, \<open>file_linux.go\<close>, \<open>file.go\<close>) and the owners they get
  (\<open>pkg/id\<close>).  Files are a map from paths to contents; listings of directories and what calls answer are inputs.
\<close>

section \<open>Users and groups\<close>

text \<open>\<open>strconv.Atoi\<close>; a line with too few fields is indexed out of range.\<close>

definition Atoi :: "string \<Rightarrow> int option" where
  "Atoi s = (case ParseInt10 s of (i, True) \<Rightarrow> None | (i, False) \<Rightarrow> Some i)"

fun find_id :: "string \<Rightarrow> string list \<Rightarrow> int option outcome" where
  "find_id name [] = Returns None"
| "find_id name (l # ls) =
     (let fields = split_on CHR '':'' l
      in if hd fields = name
         then (if length fields < 3 then Panics else Returns (Atoi (fields ! 2)))
         else find_id name ls)"

text \<open>\<open>GetGID\<close> and \<open>GetUID\<close> on the lines of the file, \<open>None\<close> if it cannot be opened; the answer is -1 on errors.\<close>

definition id_or_error :: "int option outcome \<Rightarrow> int outcome" where
  "id_or_error r = (case r of Panics \<Rightarrow> Panics | Returns None \<Rightarrow> Returns (- 1) | Returns (Some i) \<Rightarrow> Returns i)"

definition GetGID :: "(string \<Rightarrow> string list option) \<Rightarrow> string \<Rightarrow> string \<Rightarrow> int outcome" where
  "GetGID lines_in root grp =
     (case lines_in (path_Join [root, ''etc'', ''group'']) of None \<Rightarrow> Returns (- 1) | Some ls \<Rightarrow> id_or_error (find_id grp ls))"

definition GetUID :: "(string \<Rightarrow> string list option) \<Rightarrow> string \<Rightarrow> string \<Rightarrow> int outcome" where
  "GetUID lines_in root user =
     (case lines_in (path_Join [root, ''etc'', ''passwd'']) of None \<Rightarrow> Returns (- 1) | Some ls \<Rightarrow> id_or_error (find_id user ls))"

section \<open>Copying\<close>

type_synonym files = "string \<Rightarrow> bytes option"

text \<open>What the calls of a copy answer: opening the destination, the bytes copied (\<open>None\<close>: an error), the mode and
  the times.\<close>

record copy_answer =
  ca_open :: bool
  ca_copied :: "nat option"
  ca_chmod :: bool
  ca_chtimes :: bool

text \<open>\<open>CopyFile\<close>: the destination is emptied before the source is read.\<close>

definition copyFileI :: "copy_answer \<Rightarrow> string \<Rightarrow> string \<Rightarrow> nat \<Rightarrow> files \<Rightarrow> bool \<times> files" where
  "copyFileI a src dest sz fs =
     (if \<not> ca_open a then (False, fs)
      else
        (let fs1 = fs(dest \<mapsto> [])
         in case fs1 src of
              None \<Rightarrow> (False, fs1)
            | Some c \<Rightarrow>
                (case ca_copied a of
                   None \<Rightarrow> (False, fs1(dest := None))
                 | Some n \<Rightarrow>
                     (let fs2 = fs1(dest \<mapsto> take n c)
                      in if min n (length c) < sz then (False, fs2)
                         else if \<not> ca_chmod a then (False, fs2)
                         else (ca_chtimes a, fs2)))))"

definition CopyFile :: "copy_answer \<Rightarrow> string \<Rightarrow> string \<Rightarrow> files \<Rightarrow> bool \<times> files" where
  "CopyFile a src dest fs = (case fs src of None \<Rightarrow> (False, fs) | Some c \<Rightarrow> copyFileI a src dest (length c) fs)"

text \<open>\<open>CopySomeFiles\<close>: a file outside the directory ends it; a file that cannot be copied is skipped and counted.\<close>

fun CopySomeFiles_from ::
    "(string \<Rightarrow> bool) \<Rightarrow> (string \<Rightarrow> copy_answer) \<Rightarrow> string \<Rightarrow> string \<Rightarrow> string list \<Rightarrow> nat \<Rightarrow> files \<Rightarrow> bool \<times> files" where
  "CopySomeFiles_from mkdir answer srcDir destDir [] errs fs = (errs = 0, fs)"
| "CopySomeFiles_from mkdir answer srcDir destDir (src # rest) errs fs =
     (if \<not> has_prefix src srcDir then (False, fs)
      else
        (let dest = path_Join [destDir, trim_prefix srcDir src]
         in if \<not> mkdir (path_Dir dest) then CopySomeFiles_from mkdir answer srcDir destDir rest (errs + 1) fs
            else case CopyFile (answer src) src dest fs of
                   (ok, fs1) \<Rightarrow> CopySomeFiles_from mkdir answer srcDir destDir rest (if ok then errs else errs + 1) fs1))"

definition CopySomeFiles ::
    "(string \<Rightarrow> bool) \<Rightarrow> (string \<Rightarrow> copy_answer) \<Rightarrow> string \<Rightarrow> string \<Rightarrow> string list \<Rightarrow> files \<Rightarrow> bool \<times> files" where
  "CopySomeFiles mkdir answer srcDir destDir flist fs = CopySomeFiles_from mkdir answer srcDir destDir flist 0 fs"

section \<open>Directories\<close>

definition IsEmptyDir :: "string list option \<Rightarrow> bool" where "IsEmptyDir entries \<longleftrightarrow> entries = Some []"

fun first_hits :: "string \<Rightarrow> string list \<Rightarrow> string list \<Rightarrow> string list \<Rightarrow> string list" where
  "first_hits dir [] results names = results"
| "first_hits dir entries results [] = results"
| "first_hits dir entries results (n # names) =
     first_hits dir entries (map2 (\<lambda>e r. if ascii_lower n = e \<and> r = [] then path_Join [dir, n] else r) entries results) names"

definition DirMatchCaseInsensitive :: "string \<Rightarrow> string list \<Rightarrow> string list option \<Rightarrow> bool \<times> string list" where
  "DirMatchCaseInsensitive dir entries listing =
     (let es = map ascii_lower entries; empty = map (\<lambda>e. []) entries
      in case listing of
           None \<Rightarrow> (False, empty)
         | Some names \<Rightarrow>
             (list_ex (\<lambda>n. ascii_lower n \<in> set es) names, first_hits dir es empty names))"

definition Globlike :: "string \<Rightarrow> bool" where "Globlike p \<longleftrightarrow> contains p ''[]?*''"

text \<open>A file met on a walk: its path, base name, whether it is a directory or a link, its size, and an error.\<close>

record walked =
  wk_path :: string
  wk_name :: string
  wk_dir :: bool
  wk_link :: bool
  wk_size :: nat
  wk_err :: bool

text \<open>\<open>ListFilesAndSize\<close>; the pattern matcher is a parameter, \<open>None\<close> for a bad pattern.\<close>

fun list_files :: "(string \<Rightarrow> bool option) \<Rightarrow> walked list \<Rightarrow> nat \<Rightarrow> string list \<Rightarrow> (nat \<times> string list) option" where
  "list_files matches [] sz fs = Some (sz, fs)"
| "list_files matches (f # rest) sz fs =
     (if wk_dir f then (if wk_err f then None else list_files matches rest sz fs)
      else case matches (wk_name f) of
             None \<Rightarrow> None
           | Some True \<Rightarrow> list_files matches rest (sz + wk_size f) (fs @ [wk_path f])
           | Some False \<Rightarrow> list_files matches rest sz fs)"

definition ListFilesAndSize :: "(string \<Rightarrow> bool option) \<Rightarrow> walked list \<Rightarrow> nat \<times> string list" where
  "ListFilesAndSize matches walk = (case list_files matches walk 0 [] of None \<Rightarrow> (0, []) | Some r \<Rightarrow> r)"

definition mpFromLine :: "string \<Rightarrow> string" where
  "mpFromLine line = (let es = split_on CHR '' '' line in if length es < 6 then [] else es ! 4)"

definition IsMountpoint :: "string option \<Rightarrow> string \<Rightarrow> bool" where
  "IsMountpoint mountinfo dir =
     (case mountinfo of
        None \<Rightarrow> False
      | Some mi \<Rightarrow> list_ex (\<lambda>l. let t = TrimSpace l in t \<noteq> [] \<and> mpFromLine t = dir) (split_on newline mi))"

text \<open>\<open>MkdirOwned\<close>: what is done to the directory.  The mode is Go's number: of its low bits only the nine of the
  permissions reach the system.\<close>

datatype dir_effect = Mkdir string | Chown string int int | Chmod string nat

definition MkdirOwned ::
    "(dir_effect \<Rightarrow> bool) \<Rightarrow> (string \<Rightarrow> string list option) \<Rightarrow> string \<Rightarrow> string \<Rightarrow> string \<Rightarrow> string \<Rightarrow> nat \<Rightarrow> bool outcome \<times> dir_effect list" where
  "MkdirOwned works lines_in root dir owner grp mode =
     (let absDir = path_Join [root, dir]
      in if \<not> works (Mkdir absDir) then (Returns False, [Mkdir absDir])
         else case GetUID lines_in root owner of
                Panics \<Rightarrow> (Panics, [Mkdir absDir])
              | Returns uid \<Rightarrow>
                  (case GetGID lines_in root grp of
                     Panics \<Rightarrow> (Panics, [Mkdir absDir])
                   | Returns gid \<Rightarrow>
                       (if uid < 0 \<or> gid < 0 then (Returns False, [Mkdir absDir])
                        else if \<not> works (Chown absDir uid gid) then (Returns False, [Mkdir absDir, Chown absDir uid gid])
                        else (Returns (works (Chmod absDir (mode mod 512))), [Mkdir absDir, Chown absDir uid gid, Chmod absDir (mode mod 512)]))))"

text \<open>\<open>ForcePathCase\<close> on the names of a directory; renaming and removing may fail.\<close>

fun fix_case :: "(string \<Rightarrow> bool) \<Rightarrow> (string \<Rightarrow> bool) \<Rightarrow> string \<Rightarrow> bool \<Rightarrow> string list \<Rightarrow> string list \<Rightarrow> string list" where
  "fix_case ren rm target fst_one [] names = names"
| "fix_case ren rm target fst_one (m # ms) names =
     fix_case ren rm target False ms
       (if fst_one
        then (if ren m then map (\<lambda>n. if n = m then target else n) (filter (\<lambda>n. n \<noteq> target) names) else names)
        else if rm m then filter (\<lambda>n. n \<noteq> m) names else names)"

definition case_variants :: "string \<Rightarrow> string list \<Rightarrow> string list" where
  "case_variants target names = filter (\<lambda>n. n \<noteq> target \<and> ascii_lower n = ascii_lower target) names"

definition ForcePathCase :: "(string \<Rightarrow> bool) \<Rightarrow> (string \<Rightarrow> bool) \<Rightarrow> string \<Rightarrow> string list option \<Rightarrow> bool \<times> string list" where
  "ForcePathCase ren rm target listing =
     (case listing of
        None \<Rightarrow> (False, [])
      | Some names \<Rightarrow>
          (if case_variants target names = [] then (target \<in> set names, names)
           else (True, fix_case ren rm target True (case_variants target names) names)))"

section \<open>Configuration files\<close>

definition config_line :: "string \<Rightarrow> string" where
  "config_line s =
     (let l = TrimSpace s in if CHR ''#'' \<in> set l then TrimSpace (hd (split_on CHR ''#'' l)) else l)"

fun config_lines :: "int \<Rightarrow> string list \<Rightarrow> string list \<Rightarrow> string list" where
  "config_lines maxLines [] acc = acc"
| "config_lines maxLines (s # ss) acc =
     (let l = config_line s
      in if l = [] then config_lines maxLines ss acc
         else if int (length (acc @ [l])) = maxLines then acc @ [l]
         else config_lines maxLines ss (acc @ [l]))"

text \<open>\<open>ReadConfigLines\<close> on the lines scanned, \<open>None\<close> if the file cannot be read.\<close>

definition ReadConfigLines :: "string list option \<Rightarrow> int \<Rightarrow> string list option" where
  "ReadConfigLines content maxLines = map_option (\<lambda>ls. config_lines maxLines ls []) content"


section \<open>What they do\<close>

text \<open>A copy that reports success is complete and leaves all other files alone.\<close>

theorem CopyFile_success:
  assumes "CopyFile a src dest fs = (True, fs1)" "src \<noteq> dest"
  shows "fs src \<noteq> None \<and> fs1 = fs(dest := fs src)"
  using assms by (auto simp: CopyFile_def copyFileI_def Let_def min_def split: option.splits if_splits)

lemma CopyFile_success_witness:
  "\<exists>fs1. CopyFile \<lparr>ca_open = True, ca_copied = Some 3, ca_chmod = True, ca_chtimes = True\<rparr> ''a'' ''b'' [''a'' \<mapsto> [1, 2, 3]] = (True, fs1)
     \<and> fs1 ''b'' = Some [1, 2, 3]"
proof -
  let ?a = "\<lparr>ca_open = True, ca_copied = Some 3, ca_chmod = True, ca_chtimes = True\<rparr>"
  obtain fs1 where c: "CopyFile ?a ''a'' ''b'' [''a'' \<mapsto> [1, 2, 3]] = (True, fs1)"
    by (simp add: CopyFile_def copyFileI_def Let_def)
  from CopyFile_success [OF c] have "fs1 = [''a'' \<mapsto> [1, 2, 3]](''b'' := [''a'' \<mapsto> [1, 2, 3]] ''a'')"
    by simp
  with c show ?thesis by simp
qed

text \<open>A file copied onto itself is lost.\<close>

lemma CopyFile_onto_itself:
  "ca_open a \<Longrightarrow> ca_copied a = Some n \<Longrightarrow> fs f = Some c \<Longrightarrow> c \<noteq> [] \<Longrightarrow> CopyFile a f f fs = (False, fs(f \<mapsto> []))"
  by (simp add: CopyFile_def copyFileI_def)

text \<open>The crude check for patterns finds none of the usual ones.\<close>

lemma Globlike_misses: "\<not> Globlike ''/mnt/*'' \<and> \<not> Globlike ''file?'' \<and> Globlike ''a[]?*''"
  by code_simp

text \<open>A mode written in decimal: 2755 sets rights that nobody wants, and not the group bit.\<close>

lemma mode_2755: "2755 mod 512 = 3 * 64 + 0 * 8 + (3 :: nat)"
  by simp

text \<open>With the right name and one variant there, the variant takes the place of the right one, or both stay.\<close>

lemma ForcePathCase_two:
  "ForcePathCase (\<lambda>m. True) (\<lambda>m. True) ''Image'' (Some [''Image'', ''image'']) = (True, [''Image''])"
  "ForcePathCase (\<lambda>m. False) (\<lambda>m. True) ''Image'' (Some [''Image'', ''image'']) = (True, [''Image'', ''image''])"
  by code_simp+

lemma fix_case_rest:
  "list_all (\<lambda>m. m \<noteq> target) ms \<Longrightarrow>
   set (fix_case (\<lambda>m. True) (\<lambda>m. True) target False ms names) = set names - set ms"
proof (induction ms arbitrary: names)
  case (Cons m ms)
  have "set (fix_case (\<lambda>m. True) (\<lambda>m. True) target False ms (filter (\<lambda>n. n \<noteq> m) names)) = set (filter (\<lambda>n. n \<noteq> m) names) - set ms"
    by (rule Cons.IH) (use Cons.prems in simp)
  then show ?case by auto
qed simp

text \<open>When the calls work, exactly the right name remains.\<close>

theorem ForcePathCase_unique:
  assumes "ForcePathCase (\<lambda>m. True) (\<lambda>m. True) target (Some names) = (True, names1)"
  shows "target \<in> set names1 \<and> case_variants target names1 = []"
proof (cases "case_variants target names")
  case Nil
  with assms show ?thesis by (auto simp: ForcePathCase_def)
next
  case (Cons m ms)
  have m: "m \<in> set names" "m \<noteq> target" "ascii_lower m = ascii_lower target"
    and ms: "list_all (\<lambda>x. x \<noteq> target) ms" "set (case_variants target names) = insert m (set ms)"
  proof -
    have "m \<in> set (case_variants target names)" by (simp add: Cons)
    then show "m \<in> set names" "m \<noteq> target" "ascii_lower m = ascii_lower target"
      by (auto simp: case_variants_def)
    have "x \<noteq> target" if "x \<in> set ms" for x
    proof -
      from that have "x \<in> set (case_variants target names)" by (simp add: Cons)
      then show ?thesis by (simp add: case_variants_def)
    qed
    then show "list_all (\<lambda>x. x \<noteq> target) ms" by (simp add: list_all_iff)
    show "set (case_variants target names) = insert m (set ms)" by (simp add: Cons)
  qed
  define ns where "ns = map (\<lambda>n. if n = m then target else n) (filter (\<lambda>n. n \<noteq> target) names)"
  have n1: "names1 = fix_case (\<lambda>m. True) (\<lambda>m. True) target False ms ns"
    using assms by (simp add: ForcePathCase_def Cons ns_def)
  have s: "set names1 = set ns - set ms"
    unfolding n1 by (rule fix_case_rest [OF ms(1)])
  have t: "target \<in> set ns"
    using m by (force simp: ns_def)
  have "target \<notin> set ms"
    using ms(1) by (auto simp: list_all_iff)
  moreover have "x \<in> set ms \<or> x = target" if "x \<in> set ns" "ascii_lower x = ascii_lower target" for x
  proof (rule ccontr)
    assume x: "\<not> (x \<in> set ms \<or> x = target)"
    then have "x \<in> set names" "x \<noteq> m"
      using that(1) by (auto simp: ns_def split: if_splits)
    then have "x \<in> set (case_variants target names)"
      using x that(2) by (simp add: case_variants_def)
    with ms(2) x \<open>x \<noteq> m\<close> show False by simp
  qed
  ultimately show ?thesis
    using s t by (auto simp: case_variants_def filter_empty_conv)
qed


lemma ForcePathCase_unique_witness:
  "case_variants ''Image'' (snd (ForcePathCase (\<lambda>m. True) (\<lambda>m. True) ''Image'' (Some [''IMAGE'', ''log'', ''image'']))) = []"
proof -
  have f: "ForcePathCase (\<lambda>m. True) (\<lambda>m. True) ''Image'' (Some [''IMAGE'', ''log'', ''image'']) = (True, [''Image'', ''log''])"
    by code_simp
  from ForcePathCase_unique [OF f] show ?thesis by (simp add: f)
qed

end
