(* ===== verification/Xfer.thy ===== *)
theory Xfer
  imports FileOps
begin

text \<open>
  Transfer of files with verification (\<open>pkg/net/xfer/file.go\<close>): download to an intermediate place, checking of the
  hash, retries, moving to the final place.  The answers of the server and of the file system are inputs;
  the hash, as text, is a parameter.
\<close>

record TVFile =
  tv_Dest :: string
  tv_Src :: string
  tv_Sha1 :: string
  tv_useIntermediate :: bool
  tv_intermediateFile :: string
  tv_finalized :: bool
  tv_mode :: nat

definition new_TVFile :: "string \<Rightarrow> string \<Rightarrow> string \<Rightarrow> TVFile" where
  "new_TVFile dest src sha =
     \<lparr>tv_Dest = dest, tv_Src = src, tv_Sha1 = sha, tv_useIntermediate = False, tv_intermediateFile = [], tv_finalized = False, tv_mode = 0\<rparr>"

definition is_url :: "string \<Rightarrow> bool" where
  "is_url u \<longleftrightarrow> has_prefix u ''http://'' \<or> has_prefix u ''https://''"

text \<open>\<open>GetFile\<close>: over the net or from the file system.\<close>

definition GetFile :: "(string \<Rightarrow> bytes option) \<Rightarrow> files \<Rightarrow> string \<Rightarrow> bytes option" where
  "GetFile http fs url = (if is_url url then http url else fs url)"

definition Basename :: "TVFile \<Rightarrow> string" where "Basename tvf = path_Base (tv_Src tvf)"

text \<open>\<open>UseIntermediateDir\<close>: the name of the temporary file, \<open>None\<close> if it cannot be created; it is created empty.\<close>

definition UseIntermediateDir :: "string option \<Rightarrow> string \<Rightarrow> TVFile \<Rightarrow> files \<Rightarrow> TVFile \<times> files" where
  "UseIntermediateDir tmp dir tvf fs =
     (case tmp of
        None \<Rightarrow> (tvf\<lparr>tv_useIntermediate := True, tv_intermediateFile := path_Join [dir, Basename tvf]\<rparr>, fs)
      | Some f \<Rightarrow> (tvf\<lparr>tv_useIntermediate := True, tv_intermediateFile := f\<rparr>, fs(f \<mapsto> [])))"

definition GetIntermediate :: "TVFile \<Rightarrow> string outcome" where
  "GetIntermediate tvf = (if \<not> tv_useIntermediate tvf then Panics else Returns (tv_intermediateFile tvf))"

definition tv_verify :: "(bytes \<Rightarrow> string) \<Rightarrow> files \<Rightarrow> string \<Rightarrow> string \<Rightarrow> bool" where
  "tv_verify sha1 fs fname sha = (case fs fname of None \<Rightarrow> False | Some c \<Rightarrow> sha = sha1 c)"

text \<open>\<open>Verify\<close>; whether the file could be flushed is a parameter.\<close>

definition current_file :: "TVFile \<Rightarrow> string" where
  "current_file tvf = (if tv_useIntermediate tvf \<and> \<not> tv_finalized tvf then tv_intermediateFile tvf else tv_Dest tvf)"

definition tv_Verify :: "(bytes \<Rightarrow> string) \<Rightarrow> bool \<Rightarrow> TVFile \<Rightarrow> files \<Rightarrow> bool" where
  "tv_Verify sha1 synced tvf fs =
     (fs (current_file tvf) \<noteq> None \<and> synced \<and> tv_verify sha1 fs (current_file tvf) (tv_Sha1 tvf))"

text \<open>One answer of the server: none, the file cannot be opened, or a body that is read whole or up to an error.\<close>

datatype response = NoAnswer | CannotOpen | Body bytes bool

definition get_dest :: "TVFile \<Rightarrow> string" where
  "get_dest tvf = (if tv_useIntermediate tvf then tv_intermediateFile tvf else tv_Dest tvf)"

definition tv_Get :: "(bytes \<Rightarrow> string) \<Rightarrow> response \<Rightarrow> TVFile \<times> files \<Rightarrow> bool \<times> TVFile \<times> files" where
  "tv_Get sha1 resp s =
     (case s of (tvf, fs) \<Rightarrow>
        if \<not> is_url (tv_Src tvf) then (False, tvf, fs)
        else case resp of
               NoAnswer \<Rightarrow> (False, tvf, fs)
             | CannotOpen \<Rightarrow> (False, tvf\<lparr>tv_mode := (if tv_mode tvf = 0 then 438 else tv_mode tvf)\<rparr>, fs)
             | Body b whole \<Rightarrow>
                 (let tvf1 = tvf\<lparr>tv_mode := (if tv_mode tvf = 0 then 438 else tv_mode tvf)\<rparr>;
                      fs1 = fs(get_dest tvf \<mapsto> b)
                  in (whole \<and> tv_verify sha1 fs1 (get_dest tvf) (tv_Sha1 tvf), tvf1, fs1)))"

definition tv_Mode :: "nat \<Rightarrow> TVFile \<Rightarrow> TVFile" where "tv_Mode m tvf = tvf\<lparr>tv_mode := m\<rparr>"

text \<open>\<open>GetWithRetry\<close>: the times slept, in seconds, are returned too.  There is an answer for each of the tries.\<close>

fun get_retries :: "(bytes \<Rightarrow> string) \<Rightarrow> nat \<Rightarrow> nat \<Rightarrow> (nat \<Rightarrow> response) \<Rightarrow> TVFile \<times> files \<Rightarrow> nat list \<Rightarrow> bool \<times> nat list \<times> TVFile \<times> files" where
  "get_retries sha1 0 sleepTime resp s slept = (False, slept, s)"
| "get_retries sha1 (Suc n) sleepTime resp s slept =
     (case tv_Get sha1 (resp 0) s of
        (True, s1) \<Rightarrow> (True, slept, s1)
      | (False, s1) \<Rightarrow> get_retries sha1 n (2 * sleepTime) (\<lambda>i. resp (i + 1)) s1 (slept @ [sleepTime]))"

definition GetWithRetry :: "(bytes \<Rightarrow> string) \<Rightarrow> (nat \<Rightarrow> response) \<Rightarrow> TVFile \<times> files \<Rightarrow> bool \<times> nat list \<times> TVFile \<times> files" where
  "GetWithRetry sha1 resp s = get_retries sha1 5 10 resp s []"

text \<open>\<open>Finalize\<close>: a file that is not there is a panic.\<close>

definition Finalize_file :: "copy_answer \<Rightarrow> bool \<Rightarrow> TVFile \<times> files \<Rightarrow> bool outcome \<times> TVFile \<times> files" where
  "Finalize_file a removes s =
     (case s of (tvf, fs) \<Rightarrow>
        if fs (current_file tvf) = None then (Panics, tvf, fs)
        else if tv_useIntermediate tvf
        then (case CopyFile a (tv_intermediateFile tvf) (tv_Dest tvf) fs of
                (ok, fs1) \<Rightarrow>
                  (Returns ok, tvf\<lparr>tv_finalized := ok\<rparr>, if ok \<and> removes then fs1(tv_intermediateFile tvf := None) else fs1))
        else (Returns True, tvf\<lparr>tv_finalized := True\<rparr>, fs))"

section \<open>What is transferred is what was asked for\<close>

lemma tv_Get_True:
  assumes "tv_Get sha1 resp (tvf, fs) = (True, tvf1, fs1)"
  shows "\<exists>b. fs1 = fs(get_dest tvf \<mapsto> b) \<and> sha1 b = tv_Sha1 tvf \<and> get_dest tvf1 = get_dest tvf \<and> tv_Dest tvf1 = tv_Dest tvf
    \<and> tv_useIntermediate tvf1 = tv_useIntermediate tvf \<and> tv_intermediateFile tvf1 = tv_intermediateFile tvf
    \<and> tv_finalized tvf1 = tv_finalized tvf \<and> tv_Sha1 tvf1 = tv_Sha1 tvf"
  using assms by (auto simp: tv_Get_def Let_def tv_verify_def get_dest_def split: if_splits response.splits)

lemma tv_Get_keeps:
  assumes "tv_Get sha1 resp (tvf, fs) = (r, tvf1, fs1)"
  shows "get_dest tvf1 = get_dest tvf \<and> tv_Dest tvf1 = tv_Dest tvf \<and> tv_useIntermediate tvf1 = tv_useIntermediate tvf
    \<and> tv_intermediateFile tvf1 = tv_intermediateFile tvf \<and> tv_finalized tvf1 = tv_finalized tvf \<and> tv_Sha1 tvf1 = tv_Sha1 tvf
    \<and> (\<forall>p. p \<noteq> get_dest tvf \<longrightarrow> fs1 p = fs p)"
  using assms by (auto simp: tv_Get_def Let_def get_dest_def split: if_splits response.splits)

lemma get_retries_True:
  "get_retries sha1 n t resp (tvf, fs) slept = (True, sl, tvf1, fs1) \<Longrightarrow>
   (\<exists>b. fs1 (get_dest tvf) = Some b \<and> sha1 b = tv_Sha1 tvf) \<and> (\<forall>p. p \<noteq> get_dest tvf \<longrightarrow> fs1 p = fs p)
   \<and> get_dest tvf1 = get_dest tvf \<and> tv_Dest tvf1 = tv_Dest tvf \<and> tv_useIntermediate tvf1 = tv_useIntermediate tvf
   \<and> tv_intermediateFile tvf1 = tv_intermediateFile tvf \<and> tv_finalized tvf1 = tv_finalized tvf \<and> tv_Sha1 tvf1 = tv_Sha1 tvf"
proof (induction n arbitrary: t resp tvf fs slept)
  case (Suc n)
  obtain r tvf2 fs2 where g: "tv_Get sha1 (resp 0) (tvf, fs) = (r, tvf2, fs2)"
    by (metis prod.exhaust)
  show ?case
  proof (cases r)
    case True
    then show ?thesis
      using Suc.prems g tv_Get_True [of sha1 "resp 0" tvf fs tvf2 fs2] by auto
  next
    case False
    then have "get_retries sha1 n (2 * t) (\<lambda>i. resp (i + 1)) (tvf2, fs2) (slept @ [t]) = (True, sl, tvf1, fs1)"
      using Suc.prems g by simp
    from Suc.IH [OF this] tv_Get_keeps [OF g] show ?thesis by auto
  qed
qed simp

text \<open>A file that was retrieved and then moved to its final place has the hash that was asked for, nothing else was
  touched, and the intermediate file is gone.\<close>

theorem transfer_verified:
  assumes "GetWithRetry sha1 resp (tvf, fs) = (True, slept, tvf1, fs1)"
    and "Finalize_file a True (tvf1, fs1) = (Returns True, tvf2, fs2)"
    and "\<not> tv_finalized tvf" "tv_intermediateFile tvf \<noteq> tv_Dest tvf"
  shows "(\<exists>b. fs2 (tv_Dest tvf) = Some b \<and> sha1 b = tv_Sha1 tvf) \<and> tv_finalized tvf2
    \<and> (tv_useIntermediate tvf \<longrightarrow> fs2 (tv_intermediateFile tvf) = None)
    \<and> (\<forall>p. p \<noteq> tv_Dest tvf \<longrightarrow> p \<noteq> tv_intermediateFile tvf \<longrightarrow> fs2 p = fs p)"
proof -
  note g = get_retries_True [OF assms(1) [unfolded GetWithRetry_def]]
  show ?thesis
  proof (cases "tv_useIntermediate tvf")
    case False
    with g assms(2) show ?thesis
      by (auto simp: Finalize_file_def get_dest_def split: if_splits)
  next
    case True
    obtain fs3 where c: "CopyFile a (tv_intermediateFile tvf) (tv_Dest tvf) fs1 = (True, fs3)"
      and f: "fs2 = fs3(tv_intermediateFile tvf := None)" "tv_finalized tvf2"
      using True g assms(2) by (auto simp: Finalize_file_def split: if_splits prod.splits)
    have "fs3 = fs1(tv_Dest tvf := fs1 (tv_intermediateFile tvf))"
      using c assms(4) by (auto simp: CopyFile_def copyFileI_def Let_def min_def split: option.splits if_splits)
    with f g True assms(4) show ?thesis
      by (auto simp: get_dest_def)
  qed
qed

lemma transfer_verified_witness:
  "\<exists>fs2 :: files. fs2 ''/r/f'' = Some [1, 2] \<and> fs2 ''/tmp/f1'' = None"
proof -
  let ?sha = "\<lambda>b. if b = [1, 2] then ''aa'' else ''bb''" and ?resp = "\<lambda>i. if i = 0 then NoAnswer else if i = 1 then Body [1] True else Body [1, 2] True"
  let ?t = "(new_TVFile ''/r/f'' ''http://h/f'' ''aa'')\<lparr>tv_useIntermediate := True, tv_intermediateFile := ''/tmp/f1''\<rparr>"
  let ?t1 = "?t\<lparr>tv_mode := 438\<rparr>" and ?fs1 = "Map.empty(''/tmp/f1'' \<mapsto> [1, 2 :: u8])"
  have u: "is_url ''http://h/f''" by code_simp
  have g: "GetWithRetry ?sha ?resp (?t, Map.empty) = (True, [10, 20], ?t1, ?fs1)"
    using u by (simp add: GetWithRetry_def numeral_eq_Suc tv_Get_def new_TVFile_def tv_verify_def get_dest_def)
  have f: "Finalize_file \<lparr>ca_open = True, ca_copied = Some 2, ca_chmod = True, ca_chtimes = True\<rparr> True (?t1, ?fs1) =
      (Returns True, ?t1\<lparr>tv_finalized := True\<rparr>, ?fs1(''/r/f'' \<mapsto> [1, 2], ''/tmp/f1'' := None))"
    by (simp add: Finalize_file_def current_file_def new_TVFile_def CopyFile_def copyFileI_def Let_def)
  have "\<not> tv_finalized ?t" "tv_intermediateFile ?t \<noteq> tv_Dest ?t"
    by (simp_all add: new_TVFile_def)
  from transfer_verified [OF g f this] show ?thesis
    by (intro exI [of _ "?fs1(''/r/f'' \<mapsto> [1, 2], ''/tmp/f1'' := None)"]) (auto simp: new_TVFile_def split: if_splits)
qed

section \<open>Retries\<close>

text \<open>Five tries at most, with a pause after each failed one, also after the last: 310 seconds in all.\<close>

lemma GetWithRetry_fails:
  assumes "GetWithRetry sha1 resp s = (False, slept, s1)"
  shows "slept = [10, 20, 40, 80, 160]"
  using assms by (auto simp: GetWithRetry_def numeral_eq_Suc split: prod.splits bool.splits)

text \<open>It succeeds as soon as one of the five answers is good.\<close>

definition good :: "(bytes \<Rightarrow> string) \<Rightarrow> string \<Rightarrow> response \<Rightarrow> bool" where
  "good sha1 sha r = (case r of Body b True \<Rightarrow> sha1 b = sha | _ \<Rightarrow> False)"

lemma tv_Get_good: "is_url (tv_Src tvf) \<Longrightarrow> fst (tv_Get sha1 r (tvf, fs)) = good sha1 (tv_Sha1 tvf) r"
  by (auto simp: tv_Get_def good_def Let_def tv_verify_def split: response.splits bool.splits)

lemma get_retries_good:
  "is_url (tv_Src tvf) \<Longrightarrow> fst (get_retries sha1 n t resp (tvf, fs) slept) = list_ex (\<lambda>i. good sha1 (tv_Sha1 tvf) (resp i)) [0..<n]"
proof (induction n arbitrary: t resp tvf fs slept)
  case (Suc n)
  obtain r tvf2 fs2 where g: "tv_Get sha1 (resp 0) (tvf, fs) = (r, tvf2, fs2)"
    by (metis prod.exhaust)
  have r: "r = good sha1 (tv_Sha1 tvf) (resp 0)"
    using tv_Get_good [OF Suc.prems, of sha1 "resp 0" fs] g by simp
  have k: "tv_Src tvf2 = tv_Src tvf" "tv_Sha1 tvf2 = tv_Sha1 tvf"
    using g by (auto simp: tv_Get_def Let_def split: if_splits response.splits)
  have l: "list_ex P [0..<Suc n] = (P 0 \<or> list_ex (\<lambda>i. P (i + 1)) [0..<n])" for P :: "nat \<Rightarrow> bool"
    using Ex_less_Suc2 [of n P] by (simp add: list_ex_iff Bex_def del: upt_Suc)
  show ?case
    using Suc.IH [of tvf2 "2 * t" "\<lambda>i. resp (i + 1)" fs2 "slept @ [t]"] Suc.prems g r k
    unfolding l by (cases r) (simp_all del: upt_Suc)
qed simp

theorem GetWithRetry_perseveres:
  assumes "is_url (tv_Src tvf)"
  shows "fst (GetWithRetry sha1 resp (tvf, fs)) = list_ex (\<lambda>i. good sha1 (tv_Sha1 tvf) (resp i)) [0..<5]"
  unfolding GetWithRetry_def by (rule get_retries_good [OF assms])

lemma GetWithRetry_perseveres_witness:
  "fst (GetWithRetry (\<lambda>b. ''aa'') (\<lambda>i. if i = 4 then Body [] True else NoAnswer) (new_TVFile ''/f'' ''http://h/f'' ''aa'', Map.empty))"
proof -
  have u: "is_url (tv_Src (new_TVFile ''/f'' ''http://h/f'' ''aa''))" by code_simp
  show ?thesis
    using GetWithRetry_perseveres [OF u, of "\<lambda>b. ''aa''" "\<lambda>i. if i = 4 then Body [] True else NoAnswer" Map.empty]
    by (simp add: good_def new_TVFile_def list_ex_iff)
qed

text \<open>Finalising a second time fails and forgets that the file is in place.\<close>

lemma Finalize_twice:
  assumes "tv_useIntermediate tvf" "tv_finalized tvf" "fs (tv_Dest tvf) = Some c" "fs (tv_intermediateFile tvf) = None"
  shows "Finalize_file a r (tvf, fs) = (Returns False, tvf\<lparr>tv_finalized := False\<rparr>, fs)"
  using assms by (simp add: Finalize_file_def current_file_def CopyFile_def)

end
