(* ===== verification/GoTemplate.thy ===== *)
theory GoTemplate
  imports GoStd
begin

text \<open>
  What is used of Go's \<open>text/template\<close>: fields in braces are replaced by their values.  Anything else between
  the braces counts as an error.
\<close>

function fill :: "(string \<Rightarrow> string option) \<Rightarrow> string \<Rightarrow> string option" where
  "fill f s =
     (case index_of ''{{'' s of
        None \<Rightarrow> Some s
      | Some i \<Rightarrow>
          (case index_of ''}}'' (drop (i + 2) s) of
             None \<Rightarrow> None
           | Some j \<Rightarrow>
               (case f (TrimSpace (take j (drop (i + 2) s))) of
                  None \<Rightarrow> None
                | Some v \<Rightarrow>
                    (case fill f (drop (i + j + 4) s) of
                       None \<Rightarrow> None
                     | Some r \<Rightarrow> Some (take i s @ v @ r)))))"
  by pat_completeness auto
termination
proof (relation "measure (\<lambda>(f, s). length s)")
  fix f s i j v
  assume "index_of ''{{'' s = Some i"
  then show "((f, drop (i + j + 4) s), f, s) \<in> measure (\<lambda>(f, s). length s)"
    by (cases s) auto
qed simp

declare fill.simps [simp del]

text \<open>Whether a template can be filled depends only on the fields there are.\<close>

lemma fill_fields: "(\<And>n. f n = None \<longleftrightarrow> g n = None) \<Longrightarrow> fill f s = None \<longleftrightarrow> fill g s = None"
proof (induction f s rule: fill.induct)
  case (1 f s)
  show ?case
  proof (cases "index_of ''{{'' s")
    case None
    then show ?thesis by (simp add: fill.simps [of _ s])
  next
    case (Some i)
    show ?thesis
    proof (cases "index_of ''}}'' (drop (i + 2) s)")
      case None
      with Some show ?thesis by (simp add: fill.simps [of _ s])
    next
      case (Some j)
      define n where "n = TrimSpace (take j (drop (i + 2) s))"
      show ?thesis
      proof (cases "f n")
        case None
        with 1(2) [of n] Some \<open>index_of ''{{'' s = Some i\<close> show ?thesis by (simp add: fill.simps [of _ s] n_def)
      next
        case (Some v)
        then obtain u where u: "g n = Some u"
          using 1(2) [of n] by (cases "g n") auto
        have "fill f (drop (i + j + 4) s) = None \<longleftrightarrow> fill g (drop (i + j + 4) s) = None"
          using 1(1) [OF \<open>index_of ''{{'' s = Some i\<close> \<open>index_of ''}}'' (drop (i + 2) s) = Some j\<close> Some [unfolded n_def] 1(2)] .
        with Some u \<open>index_of ''{{'' s = Some i\<close> \<open>index_of ''}}'' (drop (i + 2) s) = Some j\<close> show ?thesis
          by (auto simp: fill.simps [of _ s] n_def split: option.splits)
      qed
    qed
  qed
qed

end
