(* ===== verification/MfgStep.thy ===== *)
theory MfgStep
  imports GoTemplate
begin

text \<open>
  Configurable steps of manufacturing (\<open>pkg/mfg/configStep\<close>): when a step runs, the files it downloads and the
  commands it executes with their expected result.  Downloads, commands, the temporary directory and
  splitting in the manner of a shell are parameters; what was done is recorded.
\<close>

section \<open>When, and with which result\<close>

datatype WhenType = RunBeforeQA | RunAfterQA | RunBeforeImaging | RunAfterImaging | RunBeforeMfg | RunAfterMfg
  | RunBeforePWSet | RunAfterPWSet

datatype ExitStatus = ESMustSucceed | ESDontCare | ESMustFail

definition json_word :: "string \<Rightarrow> string" where
  "json_word b = ascii_lower (Trim CHR 0x22 b)"

definition WhenType_Unmarshal :: "string \<Rightarrow> WhenType option" where
  "WhenType_Unmarshal b =
     (let s = json_word b
      in if s \<in> {''beforeqa'', ''runbeforeqa''} then Some RunBeforeQA
         else if s \<in> {''afterqa'', ''runafterqa''} then Some RunAfterQA
         else if s \<in> {''beforeimaging'', ''runbeforeimaging''} then Some RunBeforeImaging
         else if s \<in> {''afterimaging'', ''runafterimaging''} then Some RunAfterImaging
         else if s \<in> {''beforemfg'', ''runbeforemfg''} then Some RunBeforeMfg
         else if s \<in> {''aftermfg'', ''runaftermfg''} then Some RunAfterMfg
         else if s \<in> {''beforepwset'', ''runbeforepwset''} then Some RunBeforePWSet
         else if s \<in> {''afterpwset'', ''runafterpwset''} then Some RunAfterPWSet
         else None)"

definition ExitStatus_Unmarshal :: "string \<Rightarrow> ExitStatus option" where
  "ExitStatus_Unmarshal b =
     (let s = json_word b
      in if s \<in> {''mustsucceed'', ''esmustsucceed''} then Some ESMustSucceed
         else if s \<in> {''dontcare'', ''esdontcare''} then Some ESDontCare
         else if s \<in> {''mustfail'', ''esmustfail''} then Some ESMustFail
         else None)"

section \<open>Data\<close>

record StepCmd =
  sc_ExitStatus :: ExitStatus
  sc_Command :: string
  sc_AddPath :: string
  sc_AddLibPath :: string

record CommonData =
  cd_RecoveryDir :: string
  cd_Serial :: string
  cd_BiosPass :: string
  cd_IpmiPass :: string
  cd_OSPass :: string

definition AddPWs :: "string \<Rightarrow> string \<Rightarrow> string \<Rightarrow> CommonData \<Rightarrow> CommonData" where
  "AddPWs bios ipmi os c = c\<lparr>cd_BiosPass := bios, cd_IpmiPass := ipmi, cd_OSPass := os\<rparr>"

text \<open>A file to download is its base name here.\<close>

record Step =
  sp_Name :: string
  sp_When :: WhenType
  sp_Files :: "string list"
  sp_Commands :: "StepCmd list"

record PlatformConfig =
  pc_DevCodeName :: string
  pc_ConfigSteps :: "Step list"

fun Find_config :: "string \<Rightarrow> PlatformConfig list \<Rightarrow> Step list" where
  "Find_config codeName [] = []"
| "Find_config codeName (c # cs) = (if pc_DevCodeName c = codeName then pc_ConfigSteps c else Find_config codeName cs)"

text \<open>The values a template can use: the common data and the download directory.\<close>

definition step_field :: "CommonData \<Rightarrow> string \<Rightarrow> string \<Rightarrow> string option" where
  "step_field c dldir n =
     (if n = ''.RecoveryDir'' then Some (cd_RecoveryDir c)
      else if n = ''.Serial'' then Some (cd_Serial c)
      else if n = ''.BiosPass'' then Some (cd_BiosPass c)
      else if n = ''.IpmiPass'' then Some (cd_IpmiPass c)
      else if n = ''.OSPass'' then Some (cd_OSPass c)
      else if n = ''.DLDir'' then Some dldir
      else None)"

definition applyTmpl :: "CommonData \<Rightarrow> string \<Rightarrow> string \<Rightarrow> string option" where
  "applyTmpl c dldir inp = fill (step_field c dldir) inp"

section \<open>Names and environments\<close>

text \<open>Names are ASCII here.\<close>

definition safe_char :: "char \<Rightarrow> char" where
  "safe_char r =
     (let n = of_char r :: nat
      in if n < 35 \<or> n > 122 then CHR ''_''
         else if r \<in> set ''*?:/'' \<or> n = 92 then CHR ''_''
         else r)"

definition makeFsSafeName :: "string \<Rightarrow> string" where
  "makeFsSafeName inp = map safe_char (take 20 inp)"

text \<open>\<open>addEnv\<close>: \<open>None\<close> is the environment not set yet, with which a command inherits that of the program.\<close>

fun add_to_var :: "string \<Rightarrow> string \<Rightarrow> string list \<Rightarrow> string list option" where
  "add_to_var vname val [] = None"
| "add_to_var vname val (e # es) =
     (case index_of ''='' e of
        None \<Rightarrow> map_option (\<lambda>r. e # r) (add_to_var vname val es)
      | Some i \<Rightarrow>
          if take i e = vname then Some ((vname @ ''='' @ val @ '':'' @ drop (i + 1) e) # es)
          else map_option (\<lambda>r. e # r) (add_to_var vname val es))"

definition addEnv :: "string \<Rightarrow> string \<Rightarrow> string list option \<Rightarrow> string list" where
  "addEnv vname val env =
     (case env of
        None \<Rightarrow> [vname @ ''='' @ val]
      | Some es \<Rightarrow> (case add_to_var vname val es of Some es1 \<Rightarrow> es1 | None \<Rightarrow> es @ [vname @ ''='' @ val]))"

section \<open>Running\<close>

datatype step_effect =
    MadeTemp string
  | Downloaded string
  | Extracted string
  | Executed "string list" "string list option"
  | RemovedAll string

record step_env =
  se_tempdir :: "string \<Rightarrow> string option"
  se_get :: "string \<Rightarrow> bool"
  se_extract :: "string \<Rightarrow> bool"
  se_split :: "string \<Rightarrow> string list option"
  se_exec :: "string list \<Rightarrow> string list option \<Rightarrow> bool"

text \<open>\<open>runCmd\<close>: \<open>True\<close> for no error.  A command that splits into no words is indexed out of range.\<close>

definition exit_ok :: "bool \<Rightarrow> ExitStatus \<Rightarrow> bool" where
  "exit_ok success es \<longleftrightarrow> \<not> (success \<and> es = ESMustFail) \<and> \<not> (\<not> success \<and> es = ESMustSucceed)"

definition add_path :: "CommonData \<Rightarrow> string \<Rightarrow> string \<Rightarrow> string \<Rightarrow> string list option \<Rightarrow> string list option option" where
  "add_path c dldir vname tmpl env =
     (if tmpl = [] then Some env
      else case applyTmpl c dldir tmpl of None \<Rightarrow> None | Some p \<Rightarrow> Some (Some (addEnv vname p env)))"

definition runCmd :: "step_env \<Rightarrow> CommonData \<Rightarrow> string \<Rightarrow> StepCmd \<Rightarrow> step_effect list \<Rightarrow> bool outcome \<times> step_effect list" where
  "runCmd se c dldir cmd did =
     (case applyTmpl c dldir (sc_Command cmd) of
        None \<Rightarrow> (Returns False, did)
      | Some out \<Rightarrow>
          (case se_split se out of
             None \<Rightarrow> (Returns False, did)
           | Some [] \<Rightarrow> (Panics, did)
           | Some args \<Rightarrow>
               (case add_path c dldir ''PATH'' (sc_AddPath cmd) None of
                  None \<Rightarrow> (Returns False, did)
                | Some env1 \<Rightarrow>
                    (case add_path c dldir ''LD_LIBRARY_PATH'' (sc_AddLibPath cmd) env1 of
                       None \<Rightarrow> (Returns False, did)
                     | Some env2 \<Rightarrow>
                         (Returns (exit_ok (se_exec se args env2) (sc_ExitStatus cmd)), did @ [Executed args env2])))))"

fun runCmds :: "step_env \<Rightarrow> CommonData \<Rightarrow> string \<Rightarrow> StepCmd list \<Rightarrow> step_effect list \<Rightarrow> bool outcome \<times> step_effect list" where
  "runCmds se c dldir [] did = (Returns True, did)"
| "runCmds se c dldir (cmd # cmds) did =
     (case runCmd se c dldir cmd did of
        (Returns True, did1) \<Rightarrow> runCmds se c dldir cmds did1
      | r \<Rightarrow> r)"

fun getFiles :: "step_env \<Rightarrow> string \<Rightarrow> string list \<Rightarrow> step_effect list \<Rightarrow> bool \<times> step_effect list" where
  "getFiles se dldir [] did = (True, did)"
| "getFiles se dldir (f # fs) did =
     (let dest = path_Join [dldir, f]; did1 = did @ [Downloaded dest]
      in if \<not> se_get se dest then (False, did1)
         else if has_suffix dest ''.txz'' \<or> has_suffix dest ''.tar.xz''
         then (if se_extract se dest then getFiles se dldir fs (did1 @ [Extracted dest]) else (False, did1 @ [Extracted dest]))
         else getFiles se dldir fs did1)"

definition Step_Run :: "step_env \<Rightarrow> CommonData \<Rightarrow> Step \<Rightarrow> step_effect list \<Rightarrow> bool outcome \<times> step_effect list" where
  "Step_Run se c s did =
     (if sp_Files s = [] then runCmds se c [] (sp_Commands s) did
      else case se_tempdir se (makeFsSafeName (sp_Name s)) of
             None \<Rightarrow> (Returns False, did)
           | Some dldir \<Rightarrow>
               (case getFiles se dldir (sp_Files s) (did @ [MadeTemp dldir]) of
                  (False, did1) \<Rightarrow> (Returns False, did1 @ [RemovedAll dldir])
                | (True, did1) \<Rightarrow>
                    (case runCmds se c dldir (sp_Commands s) did1 of (r, did2) \<Rightarrow> (r, did2 @ [RemovedAll dldir]))))"

fun RunApplicable :: "step_env \<Rightarrow> CommonData \<Rightarrow> WhenType \<Rightarrow> Step list \<Rightarrow> step_effect list \<Rightarrow> bool outcome \<times> step_effect list" where
  "RunApplicable se c When [] did = (Returns True, did)"
| "RunApplicable se c When (s # ss) did =
     (if sp_When s = When
      then (case Step_Run se c s did of
              (Returns True, did1) \<Rightarrow> RunApplicable se c When ss did1
            | r \<Rightarrow> r)
      else RunApplicable se c When ss did)"


section \<open>What a successful run has done\<close>

text \<open>What a step has to do, stated over the step alone: the environment of a command has at most the two
  variables it names, its words are those of its own text with the fields filled in, and it ends as required.\<close>

definition env_done :: "CommonData \<Rightarrow> string \<Rightarrow> StepCmd \<Rightarrow> string list option \<Rightarrow> bool" where
  "env_done c dldir cmd env \<longleftrightarrow>
     (\<exists>p q. (if sc_AddPath cmd = [] then p = [] else \<exists>v. applyTmpl c dldir (sc_AddPath cmd) = Some v \<and> p = [''PATH='' @ v])
        \<and> (if sc_AddLibPath cmd = [] then q = []
           else \<exists>v. applyTmpl c dldir (sc_AddLibPath cmd) = Some v \<and> q = [''LD_LIBRARY_PATH='' @ v])
        \<and> env = (if p @ q = [] then None else Some (p @ q)))"

definition ended_ok :: "step_env \<Rightarrow> string list \<times> string list option \<Rightarrow> StepCmd \<Rightarrow> bool" where
  "ended_ok se x cmd \<longleftrightarrow>
     (sc_ExitStatus cmd = ESMustSucceed \<longrightarrow> se_exec se (fst x) (snd x)) \<and> (sc_ExitStatus cmd = ESMustFail \<longrightarrow> \<not> se_exec se (fst x) (snd x))"

definition cmd_done :: "step_env \<Rightarrow> CommonData \<Rightarrow> string \<Rightarrow> string list \<times> string list option \<Rightarrow> StepCmd \<Rightarrow> bool" where
  "cmd_done se c dldir x cmd \<longleftrightarrow>
     (\<exists>line. applyTmpl c dldir (sc_Command cmd) = Some line \<and> se_split se line = Some (fst x)) \<and> fst x \<noteq> []
     \<and> env_done c dldir cmd (snd x) \<and> ended_ok se x cmd"

abbreviation run_effects :: "(string list \<times> string list option) list \<Rightarrow> step_effect list" where
  "run_effects xs \<equiv> map (\<lambda>x. Executed (fst x) (snd x)) xs"

definition fetched :: "string \<Rightarrow> string \<Rightarrow> step_effect list" where
  "fetched dldir f =
     (let dest = path_Join [dldir, f]
      in if has_suffix dest ''.txz'' \<or> has_suffix dest ''.tar.xz'' then [Downloaded dest, Extracted dest] else [Downloaded dest])"

fun fetch_ok :: "step_env \<Rightarrow> step_effect \<Rightarrow> bool" where
  "fetch_ok se (Downloaded d) = se_get se d"
| "fetch_ok se (Extracted d) = se_extract se d"
| "fetch_ok se _ = True"

definition step_done :: "step_env \<Rightarrow> CommonData \<Rightarrow> step_effect list \<Rightarrow> Step \<Rightarrow> bool" where
  "step_done se c es s \<longleftrightarrow>
     (if sp_Files s = [] then \<exists>xs. es = run_effects xs \<and> list_all2 (cmd_done se c []) xs (sp_Commands s)
      else \<exists>dldir xs. se_tempdir se (makeFsSafeName (sp_Name s)) = Some dldir
        \<and> es = [MadeTemp dldir] @ concat (map (fetched dldir) (sp_Files s)) @ run_effects xs @ [RemovedAll dldir]
        \<and> list_all2 (cmd_done se c dldir) xs (sp_Commands s)
        \<and> list_all (fetch_ok se) es)"

text \<open>The commands executed, in order.\<close>

fun executed :: "step_effect list \<Rightarrow> (string list \<times> string list option) list" where
  "executed [] = []"
| "executed (Executed args env # es) = (args, env) # executed es"
| "executed (_ # es) = executed es"

lemma executed_append [simp]: "executed (a @ b) = executed a @ executed b"
  by (induction a rule: executed.induct) simp_all

lemma executed_run [simp]: "executed (run_effects xs) = xs"
  by (induction xs) simp_all

lemma add_path_env:
  assumes "add_path c dldir ''PATH'' (sc_AddPath cmd) None = Some env1"
    and "add_path c dldir ''LD_LIBRARY_PATH'' (sc_AddLibPath cmd) env1 = Some env2"
  shows "env_done c dldir cmd env2"
  using assms by (auto simp: env_done_def add_path_def addEnv_def split: if_splits option.splits)

lemma runCmd_True:
  assumes "runCmd se c dldir cmd did = (Returns True, did1)"
  shows "\<exists>x. did1 = did @ run_effects [x] \<and> cmd_done se c dldir x cmd"
proof -
  obtain line args env1 env2 where r: "applyTmpl c dldir (sc_Command cmd) = Some line" "se_split se line = Some args" "args \<noteq> []"
    "add_path c dldir ''PATH'' (sc_AddPath cmd) None = Some env1"
    "add_path c dldir ''LD_LIBRARY_PATH'' (sc_AddLibPath cmd) env1 = Some env2"
    "exit_ok (se_exec se args env2) (sc_ExitStatus cmd)" "did1 = did @ [Executed args env2]"
    using assms by (auto simp: runCmd_def split: option.splits list.splits)
  then have "cmd_done se c dldir (args, env2) cmd"
    using add_path_env [OF r(4,5)] by (simp add: cmd_done_def ended_ok_def exit_ok_def) metis
  with r(7) show ?thesis
    by (intro exI [of _ "(args, env2)"]) simp
qed

lemma runCmds_True:
  "runCmds se c dldir cmds did = (Returns True, did1) \<Longrightarrow>
   \<exists>xs. did1 = did @ run_effects xs \<and> list_all2 (cmd_done se c dldir) xs cmds"
proof (induction cmds arbitrary: did)
  case (Cons cmd cmds)
  obtain did2 where 1: "runCmd se c dldir cmd did = (Returns True, did2)" and 2: "runCmds se c dldir cmds did2 = (Returns True, did1)"
    using Cons.prems by (auto split: prod.splits outcome.splits bool.splits)
  from runCmd_True [OF 1] obtain x where x: "did2 = did @ run_effects [x]" "cmd_done se c dldir x cmd" by blast
  from Cons.IH [OF 2] obtain xs where xs: "did1 = did2 @ run_effects xs" "list_all2 (cmd_done se c dldir) xs cmds" by blast
  show ?case
    by (intro exI [of _ "x # xs"]) (simp add: x xs)
qed simp

lemma getFiles_Cons:
  assumes "getFiles se dldir (f # fs) did = (True, did1)"
  shows "getFiles se dldir fs (did @ fetched dldir f) = (True, did1) \<and> list_all (fetch_ok se) (fetched dldir f)"
  using assms by (auto simp: fetched_def Let_def split: if_splits)

lemma getFiles_True:
  "getFiles se dldir fs did = (True, did1) \<Longrightarrow>
   did1 = did @ concat (map (fetched dldir) fs) \<and> list_all (fetch_ok se) (concat (map (fetched dldir) fs))"
proof (induction fs arbitrary: did)
  case (Cons f fs)
  note c = getFiles_Cons [OF Cons.prems]
  show ?case
    using Cons.IH [OF conjunct1 [OF c]] c by simp
qed simp

lemma Step_Run_True:
  assumes "Step_Run se c s did = (Returns True, did1)"
  shows "\<exists>es. did1 = did @ es \<and> step_done se c es s"
proof (cases "sp_Files s = []")
  case True
  with assms have "runCmds se c [] (sp_Commands s) did = (Returns True, did1)"
    by (simp add: Step_Run_def)
  from runCmds_True [OF this] True show ?thesis by (auto simp: step_done_def)
next
  case False
  then obtain dldir did2 did3 where t: "se_tempdir se (makeFsSafeName (sp_Name s)) = Some dldir"
    and g: "getFiles se dldir (sp_Files s) (did @ [MadeTemp dldir]) = (True, did2)"
    and c: "runCmds se c dldir (sp_Commands s) did2 = (Returns True, did3)" and d: "did1 = did3 @ [RemovedAll dldir]"
    using assms by (auto simp: Step_Run_def split: option.splits prod.splits bool.splits)
  from runCmds_True [OF c] obtain xs where xs: "did3 = did2 @ run_effects xs" "list_all2 (cmd_done se c dldir) xs (sp_Commands s)"
    by blast
  let ?es = "[MadeTemp dldir] @ concat (map (fetched dldir) (sp_Files s)) @ run_effects xs @ [RemovedAll dldir]"
  have "list_all (fetch_ok se) ?es"
    using getFiles_True [OF g] by (auto simp: list_all_iff)
  then have "step_done se c ?es s"
    unfolding step_done_def using False t xs(2) by auto
  then show ?thesis
    using getFiles_True [OF g] d xs(1) by (intro exI [of _ ?es]) simp
qed

text \<open>
  C35: A successful run has done exactly what its applicable steps say, step by step and in their order.  A step
  with files makes its directory, downloads them in order, extracts the archives among them, each with success,
  and removes the directory at the end.  In between it executes its commands in order: each with the words of its own
  command line after the template is filled in, with exactly the variables it names in the environment, and
  each succeeds if it has to and fails if it has to.
\<close>

theorem RunApplicable_complete:
  "RunApplicable se c When ss did = (Returns True, did1) \<Longrightarrow>
   \<exists>ess. did1 = did @ concat ess \<and> list_all2 (step_done se c) ess (filter (\<lambda>s. sp_When s = When) ss)"
proof (induction ss arbitrary: did)
  case (Cons s ss)
  show ?case
  proof (cases "sp_When s = When")
    case False
    with Cons show ?thesis by simp
  next
    case True
    then obtain did2 where 1: "Step_Run se c s did = (Returns True, did2)" and 2: "RunApplicable se c When ss did2 = (Returns True, did1)"
      using Cons.prems by (auto split: prod.splits outcome.splits bool.splits)
    from Step_Run_True [OF 1] obtain es where es: "did2 = did @ es" "step_done se c es s" by blast
    from Cons.IH [OF 2] obtain ess where "did1 = did2 @ concat ess"
      "list_all2 (step_done se c) ess (filter (\<lambda>s. sp_When s = When) ss)" by blast
    then show ?thesis
      using es True by (intro exI [of _ "es # ess"]) simp
  qed
qed simp

definition example_step_env :: step_env where
  "example_step_env = \<lparr>se_tempdir = (\<lambda>n. Some (''/tmp/'' @ n)), se_get = (\<lambda>f. True), se_extract = (\<lambda>f. True),
     se_split = (\<lambda>s. Some (split_on CHR '' '' s)), se_exec = (\<lambda>args env. hd args \<noteq> ''false'')\<rparr>"

definition example_data :: CommonData where
  "example_data = \<lparr>cd_RecoveryDir = ''/mnt/r'', cd_Serial = ''SN1'', cd_BiosPass = [], cd_IpmiPass = [], cd_OSPass = []\<rparr>"

definition example_steps :: "Step list" where
  "example_steps = [\<lparr>sp_Name = ''fw'', sp_When = RunBeforeQA, sp_Files = [''fw.txz''],
     sp_Commands = [\<lparr>sc_ExitStatus = ESMustSucceed, sc_Command = ''echo {{.Serial}}'', sc_AddPath = [], sc_AddLibPath = []\<rparr>,
                    \<lparr>sc_ExitStatus = ESMustFail, sc_Command = ''false'', sc_AddPath = ''{{.DLDir}}'', sc_AddLibPath = []\<rparr>]\<rparr>]"

lemma RunApplicable_complete_witness:
  "\<exists>es. step_done example_step_env example_data es (hd example_steps)
     \<and> executed es = [([''echo'', ''SN1''], None), ([''false''], Some [''PATH=/tmp/fw''])]"
proof -
  let ?d = "[MadeTemp ''/tmp/fw'', Downloaded ''/tmp/fw/fw.txz'', Extracted ''/tmp/fw/fw.txz'', Executed [''echo'', ''SN1''] None,
      Executed [''false''] (Some [''PATH=/tmp/fw'']), RemovedAll ''/tmp/fw'']"
  have r: "RunApplicable example_step_env example_data RunBeforeQA example_steps [] = (Returns True, ?d)"
    by code_simp
  have f: "filter (\<lambda>s. sp_When s = RunBeforeQA) example_steps = [hd example_steps]"
    by (simp add: example_steps_def)
  from RunApplicable_complete [OF r] have "step_done example_step_env example_data ?d (hd example_steps)"
    unfolding f by (auto simp: list_all2_Cons2)
  then show ?thesis
    by (intro exI [of _ ?d]) simp
qed

section \<open>Cleaning up\<close>

text \<open>Every temporary directory is removed again, however the steps end.\<close>

lemma runCmd_extends: "runCmd se c dldir cmd did = (r, did1) \<Longrightarrow> \<exists>xs. did1 = did @ map (\<lambda>x. Executed (fst x) (snd x)) xs"
  by (auto simp: runCmd_def split: option.splits list.splits intro: exI [of _ "[]"] exI [of _ "[(a, b)]" for a b])

lemma runCmds_extends: "runCmds se c dldir cmds did = (r, did1) \<Longrightarrow> \<exists>xs. did1 = did @ map (\<lambda>x. Executed (fst x) (snd x)) xs"
proof (induction cmds arbitrary: did)
  case (Cons cmd cmds)
  obtain r2 did2 where 1: "runCmd se c dldir cmd did = (r2, did2)"
    by (cases "runCmd se c dldir cmd did")
  from runCmd_extends [OF 1] obtain xs where xs: "did2 = did @ map (\<lambda>x. Executed (fst x) (snd x)) xs" by blast
  show ?case
  proof (cases "r2 = Returns True")
    case True
    then have "runCmds se c dldir cmds did2 = (r, did1)"
      using Cons.prems 1 by simp
    from Cons.IH [OF this] obtain ys where "did1 = did2 @ map (\<lambda>x. Executed (fst x) (snd x)) ys" by blast
    with xs show ?thesis by (intro exI [of _ "xs @ ys"]) simp
  next
    case False
    then have "did1 = did2"
      using Cons.prems 1 by (auto split: outcome.splits bool.splits)
    with xs show ?thesis by blast
  qed
qed (auto intro: exI [of _ "[]"])

definition balanced :: "step_effect list \<Rightarrow> bool" where
  "balanced es \<longleftrightarrow> (\<forall>d. count_list es (MadeTemp d) = count_list es (RemovedAll d))"

lemma count_executed [simp]:
  "count_list (map (\<lambda>x. Executed (fst x) (snd x)) xs) (MadeTemp d) = 0"
  "count_list (map (\<lambda>x. Executed (fst x) (snd x)) xs) (RemovedAll d) = 0"
  by (induction xs) simp_all

lemma getFiles_balanced: "getFiles se dldir fs did = (r, did1) \<Longrightarrow>
   count_list did1 (MadeTemp d) = count_list did (MadeTemp d) \<and> count_list did1 (RemovedAll d) = count_list did (RemovedAll d)"
  by (induction fs arbitrary: did) (auto simp: Let_def split: if_splits)

lemma Step_Run_balanced:
  assumes "Step_Run se c s did = (r, did1)" "balanced did"
  shows "balanced did1"
proof (cases "sp_Files s = []")
  case True
  with assms(1) have "runCmds se c [] (sp_Commands s) did = (r, did1)"
    by (simp add: Step_Run_def)
  from runCmds_extends [OF this] assms(2) show ?thesis by (auto simp: balanced_def)
next
  case False
  show ?thesis
  proof (cases "se_tempdir se (makeFsSafeName (sp_Name s))")
    case None
    with False assms show ?thesis by (simp add: Step_Run_def)
  next
    case (Some dldir)
    obtain ok did2 where g: "getFiles se dldir (sp_Files s) (did @ [MadeTemp dldir]) = (ok, did2)"
      by (cases "getFiles se dldir (sp_Files s) (did @ [MadeTemp dldir])")
    obtain did3 where d3: "did1 = did3 @ [RemovedAll dldir]" "\<exists>xs. did3 = did2 @ map (\<lambda>x. Executed (fst x) (snd x)) xs"
    proof (cases ok)
      case True
      obtain r1 did3 where c: "runCmds se c dldir (sp_Commands s) did2 = (r1, did3)"
        by (cases "runCmds se c dldir (sp_Commands s) did2")
      with that [of did3] runCmds_extends [OF c] assms(1) False Some g True show ?thesis by (simp add: Step_Run_def)
    next
      case False
      with that [of did2] assms(1) \<open>sp_Files s \<noteq> []\<close> Some g show ?thesis
        by (auto simp: Step_Run_def intro: exI [of _ "[]"])
    qed
    then show ?thesis
      using getFiles_balanced [OF g] assms(2) by (auto simp: balanced_def)
  qed
qed

lemma RunApplicable_balanced: "balanced did \<Longrightarrow> balanced (snd (RunApplicable se c When ss did))"
proof (induction ss arbitrary: did)
  case (Cons s ss)
  obtain r did1 where s: "Step_Run se c s did = (r, did1)"
    by (cases "Step_Run se c s did")
  with Step_Run_balanced Cons.prems have "balanced did1" by blast
  then show ?case
    using Cons s by (auto split: outcome.splits bool.splits)
qed simp

theorem RunApplicable_cleans_up: "balanced (snd (RunApplicable se c When ss []))"
  by (rule RunApplicable_balanced) (simp add: balanced_def)

section \<open>Surprises\<close>

text \<open>A command of blanks only panics; with a directory to add, a command sees nothing else of the environment;
  characters that matter to the splitting remain in the name of the temporary directory.\<close>

lemma runCmd_empty: "applyTmpl c dldir (sc_Command cmd) = Some out \<Longrightarrow> se_split se out = Some [] \<Longrightarrow> fst (runCmd se c dldir cmd did) = Panics"
  by (simp add: runCmd_def)

lemma addEnv_alone: "addEnv ''PATH'' ''/tmp/fw'' None = [''PATH=/tmp/fw'']"
  by (simp add: addEnv_def)

lemma makeFsSafeName_quote: "makeFsSafeName ''it is John's #1'' = ''it_is_John's_#1''"
  by code_simp

lemma makeFsSafeName_bounds: "length (makeFsSafeName inp) \<le> 20 \<and> CHR ''/'' \<notin> set (makeFsSafeName inp)"
  by (auto simp: makeFsSafeName_def safe_char_def Let_def split: if_splits)

end
