(* ===== verification/Partition.thy ===== *)
theory Partition
  imports GoStd
begin

text \<open>
  Partition tables (\<open>pkg/hw/block/partitioning\<close>): the interface \<open>Partitioner\<close> is a locale, met by GPT and
  MBR.  A table is built up and then written by a command, of which only success or failure is known.
\<close>

datatype partType = Unused | FAT32 | NTFS | Linux | LinuxRaid | ESP

fun partType_String :: "partType \<Rightarrow> string" where
  "partType_String Unused = ''unused partition''"
| "partType_String FAT32 = ''fat32 partition''"
| "partType_String NTFS = ''ntfs partition''"
| "partType_String Linux = ''linux partition''"
| "partType_String LinuxRaid = ''linux raid partition''"
| "partType_String ESP = ''EFI system (boot) partition''"

record Partition =
  pt_sizeMegs :: nat
  pt_boot :: bool
  pt_ptype :: partType
  pt_name :: string

record ptable =
  tb_device :: string
  tb_partitions :: "Partition list"
  tb_committed :: bool

definition NewTable :: "string \<Rightarrow> ptable" where
  "NewTable dev = \<lparr>tb_device = dev, tb_partitions = [], tb_committed = False\<rparr>"

section \<open>GPT\<close>

fun gptTypes :: "partType \<Rightarrow> string" where
  "gptTypes Unused = ''0000''"
| "gptTypes FAT32 = ''0c00''"
| "gptTypes NTFS = ''0700''"
| "gptTypes Linux = ''8300''"
| "gptTypes LinuxRaid = ''fd00''"
| "gptTypes ESP = ''ef00''"

definition gpt_Add :: "nat \<Rightarrow> partType \<Rightarrow> bool \<Rightarrow> string \<Rightarrow> ptable \<Rightarrow> ptable fatal" where
  "gpt_Add sizeMegs ptype boot name t =
     (if tb_committed t then Fatal
      else Ok (t\<lparr>tb_partitions := tb_partitions t @ [\<lparr>pt_sizeMegs = sizeMegs, pt_boot = boot, pt_ptype = ptype, pt_name = name\<rparr>]\<rparr>))"

fun assembleArgs_from :: "nat \<Rightarrow> Partition list \<Rightarrow> string list" where
  "assembleArgs_from i [] = []"
| "assembleArgs_from i (p # ps) =
     [''--new='' @ show_dec (i + 1) @ ''::'' @ (if pt_sizeMegs p > 0 then ''+'' @ show_dec (pt_sizeMegs p) @ ''M'' else []),
      ''--typecode='' @ show_dec (i + 1) @ '':'' @ gptTypes (pt_ptype p)]
     @ (if pt_name p \<noteq> [] then [''--change-name='' @ show_dec (i + 1) @ '':'' @ pt_name p] else [])
     @ assembleArgs_from (i + 1) ps"

definition assembleArgs :: "ptable \<Rightarrow> string list" where
  "assembleArgs t = assembleArgs_from 0 (tb_partitions t)"

definition gpt_Commit :: "(string list \<Rightarrow> bool) \<Rightarrow> ptable \<Rightarrow> bool \<times> ptable" where
  "gpt_Commit ok t =
     (if tb_committed t then (True, t)
      else if ok ([''sgdisk'', ''--clear'', ''--mbrtogpt''] @ assembleArgs t @ [tb_device t]) then (True, t\<lparr>tb_committed := True\<rparr>)
      else (False, t))"

section \<open>MBR\<close>

fun mbrTypes :: "partType \<Rightarrow> string" where
  "mbrTypes Unused = ''0''"
| "mbrTypes FAT32 = ''c''"
| "mbrTypes NTFS = ''7''"
| "mbrTypes Linux = ''83''"
| "mbrTypes LinuxRaid = ''fd''"
| "mbrTypes ESP = ''ef''"

definition haveBootable :: "ptable \<Rightarrow> bool" where
  "haveBootable t \<longleftrightarrow> list_ex pt_boot (tb_partitions t)"

definition mbr_Add :: "nat \<Rightarrow> partType \<Rightarrow> bool \<Rightarrow> string \<Rightarrow> ptable \<Rightarrow> ptable fatal" where
  "mbr_Add sizeMegs ptype boot name t =
     (if tb_committed t then Fatal
      else
        (let b = (if boot \<and> (length (tb_partitions t) > 3 \<or> haveBootable t) then False else boot)
         in Ok (t\<lparr>tb_partitions := tb_partitions t @ [\<lparr>pt_sizeMegs = sizeMegs, pt_boot = b, pt_ptype = ptype, pt_name = name\<rparr>]\<rparr>)))"

text \<open>The input of \<open>sfdisk\<close>.\<close>

definition mbr_commands :: "ptable \<Rightarrow> string" where
  "mbr_commands t =
     concat (map (\<lambda>p. '','' @ (if pt_sizeMegs p > 0 then show_dec (pt_sizeMegs p) @ ''M'' else []) @ '','' @ mbrTypes (pt_ptype p)
                      @ '','' @ (if pt_boot p then ''*'' else []) @ [newline]) (tb_partitions t))"

definition mbr_Commit :: "(string list \<times> string \<Rightarrow> bool) \<Rightarrow> ptable \<Rightarrow> bool \<times> ptable" where
  "mbr_Commit ok t =
     (if tb_committed t then (True, t)
      else if ok ([''sfdisk'', ''--wipe'', ''always'', ''--wipe-partitions'', ''always'', tb_device t], mbr_commands t)
      then (True, t\<lparr>tb_committed := True\<rparr>)
      else (False, t))"

section \<open>The table of the machine's firmware\<close>

text \<open>\<open>NewPTable\<close>: GPT on machines booted by UEFI, else MBR.  Both commands get their arguments and their
  standard input.\<close>

definition pt_Add :: "bool \<Rightarrow> nat \<Rightarrow> partType \<Rightarrow> bool \<Rightarrow> string \<Rightarrow> ptable \<Rightarrow> ptable fatal" where
  "pt_Add uefi = (if uefi then gpt_Add else mbr_Add)"

definition pt_Commit :: "(string list \<times> string \<Rightarrow> bool) \<Rightarrow> bool \<Rightarrow> ptable \<Rightarrow> bool \<times> ptable" where
  "pt_Commit ok uefi t = (if uefi then gpt_Commit (\<lambda>args. ok (args, [])) t else mbr_Commit ok t)"

section \<open>The interface\<close>

locale partitioner =
  fixes add :: "nat \<Rightarrow> partType \<Rightarrow> bool \<Rightarrow> string \<Rightarrow> ptable \<Rightarrow> ptable fatal"
    and commit :: "ptable \<Rightarrow> bool \<times> ptable"
  assumes add_open: "\<not> tb_committed t \<Longrightarrow>
      \<exists>b. (b \<longrightarrow> boot) \<and> add s ty boot n t =
        Ok (t\<lparr>tb_partitions := tb_partitions t @ [\<lparr>pt_sizeMegs = s, pt_boot = b, pt_ptype = ty, pt_name = n\<rparr>]\<rparr>)"
    and add_closed: "tb_committed t \<Longrightarrow> add s ty boot n t = Fatal"
    and commit_keeps: "tb_partitions (snd (commit t)) = tb_partitions t \<and> tb_device (snd (commit t)) = tb_device t"
    and commit_success: "fst (commit t) = tb_committed (snd (commit t))"
    and commit_again: "tb_committed t \<Longrightarrow> commit t = (True, t)"

text \<open>A list of partitions added in order.\<close>

fun add_all ::
    "(nat \<Rightarrow> partType \<Rightarrow> bool \<Rightarrow> string \<Rightarrow> ptable \<Rightarrow> ptable fatal) \<Rightarrow> Partition list \<Rightarrow> ptable \<Rightarrow> ptable fatal" where
  "add_all add [] t = Ok t"
| "add_all add (p # ps) t =
     (case add (pt_sizeMegs p) (pt_ptype p) (pt_boot p) (pt_name p) t of
        Ok t1 \<Rightarrow> add_all add ps t1
      | Fatal \<Rightarrow> Fatal
      | Panicked \<Rightarrow> Panicked)"

definition layout :: "Partition list \<Rightarrow> (nat \<times> partType \<times> string) list" where
  "layout ps = map (\<lambda>p. (pt_sizeMegs p, pt_ptype p, pt_name p)) ps"

context partitioner
begin

text \<open>An open table takes all partitions, in order, with their sizes, types and names.\<close>

lemma add_all_open:
  "\<not> tb_committed t \<Longrightarrow> \<exists>t1. add_all add ps t = Ok t1 \<and> \<not> tb_committed t1 \<and> tb_device t1 = tb_device t
     \<and> layout (tb_partitions t1) = layout (tb_partitions t) @ layout ps"
proof (induction ps arbitrary: t)
  case (Cons p ps)
  obtain b where b: "add (pt_sizeMegs p) (pt_ptype p) (pt_boot p) (pt_name p) t =
      Ok (t\<lparr>tb_partitions := tb_partitions t @ [\<lparr>pt_sizeMegs = pt_sizeMegs p, pt_boot = b, pt_ptype = pt_ptype p, pt_name = pt_name p\<rparr>]\<rparr>)"
    using add_open [OF Cons.prems] by blast
  show ?case
    using Cons.IH [of "t\<lparr>tb_partitions := tb_partitions t @ [\<lparr>pt_sizeMegs = pt_sizeMegs p, pt_boot = b, pt_ptype = pt_ptype p, pt_name = pt_name p\<rparr>]\<rparr>"]
      Cons.prems by (simp add: b layout_def)
qed (simp add: layout_def)

text \<open>After the table was written, nothing can be added.\<close>

lemma no_add_after_commit:
  "fst (commit t) \<Longrightarrow> add s ty boot n (snd (commit t)) = Fatal"
  using commit_success add_closed by simp

end

interpretation gpt: partitioner gpt_Add "gpt_Commit ok"
  by unfold_locales (auto simp: gpt_Add_def gpt_Commit_def)

interpretation mbr: partitioner mbr_Add "mbr_Commit ok"
  by unfold_locales (auto simp: mbr_Add_def mbr_Commit_def Let_def)

interpretation tbl: partitioner "pt_Add uefi" "pt_Commit ok uefi"
  by unfold_locales
    (auto simp: pt_Add_def pt_Commit_def gpt_Add_def gpt_Commit_def mbr_Add_def mbr_Commit_def Let_def split: if_splits)

text \<open>An MBR has at most one partition that boots.\<close>

lemma mbr_one_bootable:
  "mbr_Add s ty boot n t = Ok t1 \<Longrightarrow> length (filter pt_boot (tb_partitions t)) \<le> 1 \<Longrightarrow> length (filter pt_boot (tb_partitions t1)) \<le> 1"
  by (auto simp: mbr_Add_def Let_def haveBootable_def list_ex_iff filter_empty_conv split: if_splits)

end
