(* ===== verification/RecDisk.thy ===== *)
theory RecDisk
  imports Partition Appliance
begin

text \<open>
  The disks that recovery partitions and installs to (\<open>pkg/recovery/disk/disk.go\<close>): choosing those of the right
  size among all there are, and their partitions.  Sizes are signed 64-bit integers.
\<close>

section \<open>Disks\<close>

record RDisk =
  rk_identifier :: string
  rk_size :: u64
  rk_target :: int
  rk_numParts :: nat

definition DiskFromDev :: "BlockDev \<Rightarrow> RDisk" where
  "DiskFromDev dev = \<lparr>rk_identifier = path_Base (bk_Name dev), rk_size = bk_Size dev, rk_target = - 1, rk_numParts = 0\<rparr>"

definition rd_Device :: "RDisk \<Rightarrow> string" where
  "rd_Device d = ''/dev/'' @ rk_identifier d"

definition rd_Valid :: "RDisk \<Rightarrow> bool" where
  "rd_Valid d \<longleftrightarrow> rk_identifier d \<noteq> []"

section \<open>The choice\<close>

definition iabs :: "u64 \<Rightarrow> u64" where
  "iabs v = (if 0 <s v then v else - v)"

text \<open>\<open>closest\<close>: the index, the distance so far (-1 at first) and the position of the rest of the list.\<close>

fun closest_from :: "u64 \<Rightarrow> nat \<Rightarrow> u64 \<Rightarrow> nat \<Rightarrow> RDisk list \<Rightarrow> nat" where
  "closest_from tgt idx delta i [] = idx"
| "closest_from tgt idx delta i (d # ds) =
     (let dist = iabs (tgt - rk_size d)
      in if delta = - 1 \<or> dist <s delta then closest_from tgt i dist (i + 1) ds
         else closest_from tgt idx delta (i + 1) ds)"

definition closest :: "u64 \<Rightarrow> RDisk list \<Rightarrow> nat" where
  "closest tgt dl = closest_from tgt 0 (- 1) 0 dl"

definition remove_at :: "nat \<Rightarrow> 'a list \<Rightarrow> 'a list" where
  "remove_at i xs = take i xs @ drop (i + 1) xs"

text \<open>The loop of \<open>filter\<close>: disks are taken in order of their distance; the first is given up when the second
  does not match it.\<close>

function pick_disks :: "u64 \<Rightarrow> nat \<Rightarrow> u64 \<Rightarrow> RDisk list \<Rightarrow> RDisk list \<Rightarrow> RDisk list option" where
  "pick_disks tgt cnt setTol work out =
     (if length out \<ge> cnt then Some out
      else if work = [] then None
      else
        (let c = closest tgt work; out1 = out @ [work ! c]; work1 = remove_at c work
         in pick_disks tgt cnt setTol work1
              (if length out1 > 1 \<and> \<not> SizeToleranceMatch (rk_size (out1 ! 0)) (rk_size (out1 ! 1)) setTol then tl out1 else out1)))"
  by pat_completeness auto

lemma closest_from_less:
  "idx < i \<or> delta = - 1 \<and> ds \<noteq> [] \<Longrightarrow> closest_from tgt idx delta i ds < i + length ds"
proof (induction ds arbitrary: idx delta i)
  case (Cons d ds)
  show ?case
  proof (cases "delta = - 1 \<or> iabs (tgt - rk_size d) <s delta")
    case True
    then show ?thesis
      using Cons.IH [of i "i + 1" "iabs (tgt - rk_size d)"] by (simp add: Let_def)
  next
    case False
    then show ?thesis
      using Cons.IH [of idx "i + 1" delta] Cons.prems by (auto simp: Let_def)
  qed
qed auto

lemma closest_less: "ds \<noteq> [] \<Longrightarrow> closest tgt ds < length ds"
  using closest_from_less [of 0 0 "- 1" ds tgt] by (simp add: closest_def)

lemma length_remove_at: "i < length xs \<Longrightarrow> length (remove_at i xs) < length xs"
  by (simp add: remove_at_def)

termination pick_disks
  by (relation "measure (\<lambda>(tgt, cnt, setTol, work, out). length work)") (simp_all add: length_remove_at closest_less)

declare pick_disks.simps [simp del]

definition size_max :: "u64 list \<Rightarrow> u64" where
  "size_max ss = (case ss of [] \<Rightarrow> 0 | s # ss1 \<Rightarrow> fold (\<lambda>x m. if m <s x then x else m) ss1 s)"

definition size_min :: "u64 list \<Rightarrow> u64" where
  "size_min ss = (case ss of [] \<Rightarrow> 0 | s # ss1 \<Rightarrow> fold (\<lambda>x m. if x <s m then x else m) ss1 s)"

text \<open>\<open>filter\<close>: if no disk is asked for, the last of none is looked at.\<close>

definition disk_filter :: "u64 \<Rightarrow> nat \<Rightarrow> u64 \<Rightarrow> u64 \<Rightarrow> RDisk list \<Rightarrow> RDisk list outcome" where
  "disk_filter tgt cnt setTol tgtTol dl =
     (if cnt > length dl then Returns []
      else
        (case pick_disks tgt cnt setTol dl [] of
           None \<Rightarrow> Returns []
         | Some out0 \<Rightarrow>
             (let out = take cnt out0
              in if out = [] then Panics
                 else
                   (let out1 = (if \<not> SizeToleranceMatch (rk_size (last out)) tgt tgtTol then [] else out);
                        ss = map rk_size out1
                    in if \<not> SizeToleranceMatch (size_min ss) (size_max ss) setTol then Returns [] else Returns out1))))"

text \<open>\<open>FindTargets\<close>: without the disks that are wanted it is a fatal error.\<close>

definition FindTargets :: "Variant \<Rightarrow> BlockDev list \<Rightarrow> RDisk list fatal" where
  "FindTargets platform devs =
     (case disk_filter (DiskSize platform) (nat (DataDisks platform)) (DiskSetTol platform) (DiskTgtTol platform) (map DiskFromDev devs) of
        Panics \<Rightarrow> Panicked
      | Returns disks \<Rightarrow> if int (length disks) \<noteq> DataDisks platform then Fatal else Ok disks)"

section \<open>Partitions\<close>

text \<open>\<open>Zero\<close>: megabytes of zeros written at one end of the disk.\<close>

datatype whence = SeekStart | SeekEnd

definition Zero :: "RDisk \<Rightarrow> nat \<Rightarrow> whence \<Rightarrow> string \<times> nat \<times> whence" where
  "Zero d megs w = (rd_Device d, megs, w)"

fun add_parts :: "bool \<Rightarrow> (nat \<times> partType \<times> bool \<times> string) list \<Rightarrow> ptable \<Rightarrow> ptable fatal" where
  "add_parts uefi [] t = Ok t"
| "add_parts uefi ((s, ty, b, n) # ps) t =
     (case pt_Add uefi s ty b n t of Ok t1 \<Rightarrow> add_parts uefi ps t1 | Fatal \<Rightarrow> Fatal | Panicked \<Rightarrow> Panicked)"

text \<open>\<open>Partition\<close>: the areas zeroed, success and the table as committed, and the disk as it is left.\<close>

definition Disk_Partition ::
    "(string list \<times> string \<Rightarrow> bool) \<Rightarrow> bool \<Rightarrow> Stringer option \<Rightarrow> Variant \<Rightarrow> RDisk
     \<Rightarrow> (string \<times> nat \<times> whence) list \<times> (bool \<times> ptable \<times> RDisk) fatal" where
  "Disk_Partition ok uefi impl platform d =
     (let main = (if HasRaid platform then LinuxRaid else Linux);
          name = st_PriVolName (strs_of impl);
          adds = (if uefi then [(0, main, False, name)] else [(200, Linux, False, ''g4d''), (0, main, False, name)]);
          d1 = (if uefi then d\<lparr>rk_target := 1, rk_numParts := 1\<rparr> else d\<lparr>rk_target := 2, rk_numParts := 2\<rparr>)
      in ([Zero d 250 SeekStart, Zero d 100 SeekEnd],
          case add_parts uefi adds (NewTable (rd_Device d)) of
            Ok t \<Rightarrow> (case pt_Commit ok uefi t of (r, t1) \<Rightarrow> Ok (r, t1, d1))
          | Fatal \<Rightarrow> Fatal
          | Panicked \<Rightarrow> Panicked))"

definition PartitionRecovery ::
    "(string list \<times> string \<Rightarrow> bool) \<Rightarrow> bool \<Rightarrow> RDisk \<Rightarrow> (bool \<times> ptable \<times> RDisk) fatal" where
  "PartitionRecovery ok uefi d =
     (let adds = (if uefi then [(200, ESP, True, ''ESP''), (0, Linux, False, ''recovery'')] else [(0, Linux, True, ''recovery'')]);
          d1 = (if uefi then d\<lparr>rk_numParts := 2\<rparr> else d\<lparr>rk_numParts := 1\<rparr>)
      in case add_parts uefi adds (NewTable (rd_Device d)) of
           Ok t \<Rightarrow> (case pt_Commit ok uefi t of (r, t1) \<Rightarrow> Ok (r, t1, d1))
         | Fatal \<Rightarrow> Fatal
         | Panicked \<Rightarrow> Panicked)"

definition TargetDev :: "RDisk \<Rightarrow> string" where
  "TargetDev d = ''/dev/'' @ rk_identifier d @ show_int (rk_target d)"

text \<open>Adding parts is adding partitions through the interface, so an open table takes them all.\<close>

lemma add_parts_add_all:
  "add_parts uefi ps t = add_all (pt_Add uefi) (map (\<lambda>(s, ty, b, n). \<lparr>pt_sizeMegs = s, pt_boot = b, pt_ptype = ty, pt_name = n\<rparr>) ps) t"
  by (induction ps arbitrary: t) (auto split: fatal.splits)

lemma add_parts_open:
  "\<not> tb_committed t \<Longrightarrow> \<exists>t1. add_parts uefi ps t = Ok t1 \<and> \<not> tb_committed t1
     \<and> layout (tb_partitions t1) = layout (tb_partitions t) @ map (\<lambda>(s, ty, b, n). (s, ty, n)) ps"
  using tbl.add_all_open [of t uefi "map (\<lambda>(s, ty, b, n). \<lparr>pt_sizeMegs = s, pt_boot = b, pt_ptype = ty, pt_name = n\<rparr>) ps"]
  by (auto simp: add_parts_add_all layout_def comp_def case_prod_unfold)

text \<open>Partitioning reaches the command with both ends zeroed; the target is the last partition of the table.\<close>

lemma Disk_Partition_layout:
  "\<exists>r t d1. Disk_Partition ok uefi impl platform d = ([(rd_Device d, 250, SeekStart), (rd_Device d, 100, SeekEnd)], Ok (r, t, d1))
     \<and> tb_committed t = r \<and> rk_target d1 = int (length (tb_partitions t)) \<and> rk_numParts d1 = length (tb_partitions t)
     \<and> snd (last (layout (tb_partitions t))) = (if HasRaid platform then LinuxRaid else Linux, st_PriVolName (strs_of impl))"
proof -
  define adds where "adds = (let main = (if HasRaid platform then LinuxRaid else Linux); name = st_PriVolName (strs_of impl)
    in if uefi then [(0::nat, main, False, name)] else [(200, Linux, False, ''g4d''), (0, main, False, name)])"
  obtain t where t: "add_parts uefi adds (NewTable (rd_Device d)) = Ok t"
    "layout (tb_partitions t) = map (\<lambda>(s, ty, b, n). (s, ty, n)) adds"
    using add_parts_open [of "NewTable (rd_Device d)" uefi adds] by (auto simp: NewTable_def layout_def)
  obtain r t1 where c: "pt_Commit ok uefi t = (r, t1)"
    by (cases "pt_Commit ok uefi t")
  have k: "tb_partitions t1 = tb_partitions t" "tb_committed t1 = r"
    using tbl.commit_keeps [of ok uefi t] tbl.commit_success [of ok uefi t] by (simp_all add: c)
  have l: "length (tb_partitions t) = length adds"
    using arg_cong [OF t(2), of length] by (simp add: layout_def)
  define d1 where "d1 = (if uefi then d\<lparr>rk_target := 1, rk_numParts := 1\<rparr> else d\<lparr>rk_target := 2, rk_numParts := 2\<rparr>)"
  have "Disk_Partition ok uefi impl platform d = ([(rd_Device d, 250, SeekStart), (rd_Device d, 100, SeekEnd)], Ok (r, t1, d1))"
    using t(1) by (simp add: Disk_Partition_def Let_def adds_def d1_def c Zero_def)
  moreover have "rk_target d1 = int (length adds)" "rk_numParts d1 = length adds"
    by (simp_all add: d1_def adds_def Let_def)
  moreover have "snd (last (layout (tb_partitions t))) = (if HasRaid platform then LinuxRaid else Linux, st_PriVolName (strs_of impl))"
    by (simp add: t(2) adds_def Let_def)
  ultimately show ?thesis
    using k l by auto
qed

section \<open>The disks chosen\<close>

definition dist :: "u64 \<Rightarrow> RDisk \<Rightarrow> int" where
  "dist tgt d = \<bar>uint tgt - uint (rk_size d)\<bar>"

definition sane :: "u64 \<Rightarrow> bool" where
  "sane s \<longleftrightarrow> uint s < 2 ^ 63"

lemma iabs_abs: "iabs v = abs_word v"
proof -
  have "v <s 0 \<or> v = 0 \<or> 0 <s v"
    unfolding word_sless_alt by (metis linorder_cases sint_0 signed_word_eqI)
  then show ?thesis
    by (auto simp: iabs_def abs_word_def word_sless_alt)
qed

lemma uint_iabs: "sane tgt \<Longrightarrow> sane (rk_size d) \<Longrightarrow> uint (iabs (tgt - rk_size d)) = dist tgt d"
  by (simp add: iabs_abs abs_word_diff sane_def dist_def)

lemma dist_bound: "sane tgt \<Longrightarrow> sane (rk_size d) \<Longrightarrow> 0 \<le> dist tgt d \<and> dist tgt d < 2 ^ 63"
  using uint_nonnegative [of tgt] uint_nonnegative [of "rk_size d"] unfolding sane_def dist_def by linarith

lemma sint_sane: "sane s \<Longrightarrow> sint s = uint s"
proof -
  assume "sane s"
  then have "- (2 ^ 63) \<le> uint s" "uint s < 2 ^ 63"
    using uint_nonnegative [of s] unfolding sane_def by linarith+
  then have "signed_take_bit 63 (uint s) = uint s"
    by (rule signed_take_bit_int_eq_self)
  then show ?thesis
    by (simp add: sint_uint)
qed

lemma sless_sane: "sane a \<Longrightarrow> sane b \<Longrightarrow> a <s b \<longleftrightarrow> uint a < uint b"
  by (simp add: word_sless_alt sint_sane)

lemma sane_not_minus_1: "sane s \<Longrightarrow> s \<noteq> - 1"
proof -
  have "uint (- 1 :: u64) = 2 ^ 64 - 1"
    by (simp add: unsigned_minus_1_eq_mask mask_eq_exp_minus_1)
  then show "sane s \<Longrightarrow> s \<noteq> - 1"
    unfolding sane_def by auto
qed

lemma closest_from_spec:
  fixes i idx :: nat
  assumes "sane tgt" "list_all (\<lambda>d. sane (rk_size d)) ds" "delta = - 1 \<and> ds \<noteq> [] \<or> sane delta"
  defines "r \<equiv> closest_from tgt idx delta i ds"
  shows "(delta \<noteq> - 1 \<and> r = idx \<and> (\<forall>d\<in>set ds. uint delta \<le> dist tgt d))
    \<or> (\<exists>k<length ds. r = i + k \<and> (\<forall>d\<in>set ds. dist tgt (ds ! k) \<le> dist tgt d) \<and> (delta = - 1 \<or> dist tgt (ds ! k) < uint delta))"
  using assms(2,3) unfolding r_def
proof (induction ds arbitrary: idx delta i)
  case (Cons d ds)
  let ?x = "iabs (tgt - rk_size d)"
  have x: "uint ?x = dist tgt d" "sane ?x"
    using uint_iabs [of tgt d] dist_bound [of tgt d] assms(1) Cons.prems(1) by (simp_all add: sane_def)
  have ds: "list_all (\<lambda>d. sane (rk_size d)) ds"
    using Cons.prems(1) by simp
  show ?case
  proof (cases "delta = - 1 \<or> ?x <s delta")
    case True
    then have lt: "delta = - 1 \<or> dist tgt d < uint delta"
      using x sless_sane Cons.prems(2) sane_not_minus_1 by fastforce
    from Cons.IH [OF ds disjI2 [OF x(2)], of i "i + 1"] show ?thesis
    proof
      assume "?x \<noteq> - 1 \<and> closest_from tgt i ?x (i + 1) ds = i \<and> (\<forall>d\<in>set ds. uint ?x \<le> dist tgt d)"
      then show ?thesis
        using True lt x(1) by (intro disjI2 exI [of _ 0]) (simp add: Let_def)
    next
      assume "\<exists>k<length ds. closest_from tgt i ?x (i + 1) ds = i + 1 + k \<and> (\<forall>d\<in>set ds. dist tgt (ds ! k) \<le> dist tgt d)
        \<and> (?x = - 1 \<or> dist tgt (ds ! k) < uint ?x)"
      then obtain k where "k < length ds" "closest_from tgt i ?x (i + 1) ds = i + 1 + k"
        "\<forall>d\<in>set ds. dist tgt (ds ! k) \<le> dist tgt d" "dist tgt (ds ! k) < dist tgt d"
        using sane_not_minus_1 [OF x(2)] x(1) by auto
      then show ?thesis
        using True lt by (intro disjI2 exI [of _ "Suc k"]) (auto simp: Let_def)
    qed
  next
    case False
    then have d: "sane delta" "uint delta \<le> dist tgt d" "delta \<noteq> - 1"
      using Cons.prems(2) sless_sane [OF x(2)] x(1) by auto
    from Cons.IH [OF ds disjI2 [OF d(1)], of idx "i + 1"] show ?thesis
    proof
      assume "delta \<noteq> - 1 \<and> closest_from tgt idx delta (i + 1) ds = idx \<and> (\<forall>d\<in>set ds. uint delta \<le> dist tgt d)"
      then show ?thesis
        using False d by (simp add: Let_def)
    next
      assume "\<exists>k<length ds. closest_from tgt idx delta (i + 1) ds = i + 1 + k \<and> (\<forall>d\<in>set ds. dist tgt (ds ! k) \<le> dist tgt d)
        \<and> (delta = - 1 \<or> dist tgt (ds ! k) < uint delta)"
      then obtain k where "k < length ds" "closest_from tgt idx delta (i + 1) ds = i + 1 + k"
        "\<forall>d\<in>set ds. dist tgt (ds ! k) \<le> dist tgt d" "dist tgt (ds ! k) < uint delta"
        using d(3) by auto
      then show ?thesis
        using False d by (intro disjI2 exI [of _ "Suc k"]) (auto simp: Let_def)
    qed
  qed
qed (use sane_not_minus_1 in auto)

lemma closest_spec:
  assumes "sane tgt" "list_all (\<lambda>d. sane (rk_size d)) ds" "ds \<noteq> []"
  shows "closest tgt ds < length ds" "\<And>d. d \<in> set ds \<Longrightarrow> dist tgt (ds ! closest tgt ds) \<le> dist tgt d"
  using closest_from_spec [OF assms(1,2), of "- 1" 0 0] assms(3) unfolding closest_def by auto


text \<open>The disks taken are disks of the list, each once, in order of their distance.\<close>

definition picked :: "u64 \<Rightarrow> RDisk list \<Rightarrow> RDisk list \<Rightarrow> RDisk list \<Rightarrow> bool" where
  "picked tgt dl work out \<longleftrightarrow> mset work + mset out \<subseteq># mset dl \<and> sorted (map (dist tgt) out)
     \<and> list_all (\<lambda>d. list_all (\<lambda>e. dist tgt d \<le> dist tgt e) work) out"

lemma mset_remove_at: "i < length xs \<Longrightarrow> mset (remove_at i xs) + {#xs ! i#} = mset xs"
proof -
  assume "i < length xs"
  then have "xs = take i xs @ xs ! i # drop (i + 1) xs"
    by (simp add: id_take_nth_drop)
  then have "mset xs = mset (take i xs) + add_mset (xs ! i) (mset (drop (i + 1) xs))"
    by (metis mset_append mset.simps(2))
  then show ?thesis
    by (simp add: remove_at_def)
qed

lemma picked_step:
  assumes "picked tgt dl work out" "sane tgt" "list_all (\<lambda>d. sane (rk_size d)) dl" "work \<noteq> []"
  defines "c \<equiv> closest tgt work"
  shows "picked tgt dl (remove_at c work) (out @ [work ! c])"
proof -
  have "set work \<subseteq> set dl"
    using assms(1) unfolding picked_def by (metis mset_subset_eqD set_mset_mset subset_eq union_iff)
  then have sane_work: "list_all (\<lambda>d. sane (rk_size d)) work"
    using assms(3) by (auto simp: list_all_iff)
  note c = closest_spec [OF assms(2) sane_work assms(4), folded c_def]
  have m: "mset (remove_at c work) + mset (out @ [work ! c]) = mset work + mset out"
    using mset_remove_at [OF c(1)] by simp
  have "set (remove_at c work) \<subseteq> set work"
    by (auto simp: remove_at_def dest: in_set_takeD in_set_dropD)
  moreover have "work ! c \<in> set work"
    using c(1) by simp
  ultimately show ?thesis
    using assms(1) c(2) unfolding picked_def m by (auto simp: sorted_append list_all_iff)
qed

lemma picked_tl: "picked tgt dl work (d # out) \<Longrightarrow> picked tgt dl work out"
proof -
  assume p: "picked tgt dl work (d # out)"
  have "mset work + mset out \<subseteq># add_mset d (mset work + mset out)"
    by simp
  also have "\<dots> \<subseteq># mset dl"
    using p by (simp add: picked_def)
  finally show ?thesis
    using p by (simp add: picked_def)
qed

lemma pick_disks_spec:
  "list_all (\<lambda>d. sane (rk_size d)) dl \<Longrightarrow> sane tgt \<Longrightarrow> picked tgt dl work out \<Longrightarrow> length out \<le> cnt \<Longrightarrow>
   pick_disks tgt cnt setTol work out = Some r \<Longrightarrow> length r = cnt \<and> (\<exists>w. picked tgt dl w r)"
proof (induction tgt cnt setTol work out rule: pick_disks.induct)
  case (1 tgt cnt setTol work out)
  show ?case
  proof (cases "length out \<ge> cnt")
    case True
    then show ?thesis
      using "1.prems" pick_disks.simps [of tgt cnt setTol work out] by auto
  next
    case False
    then have work: "work \<noteq> []"
      using "1.prems"(5) pick_disks.simps [of tgt cnt setTol work out] by auto
    define c where "c = closest tgt work"
    define out1 where "out1 = out @ [work ! c]"
    define out2 where "out2 = (if length out1 > 1 \<and> \<not> SizeToleranceMatch (rk_size (out1 ! 0)) (rk_size (out1 ! 1)) setTol then tl out1 else out1)"
    have step: "pick_disks tgt cnt setTol work out = pick_disks tgt cnt setTol (remove_at c work) out2"
      using False work pick_disks.simps [of tgt cnt setTol work out] by (simp add: c_def out1_def out2_def Let_def)
    have p1: "picked tgt dl (remove_at c work) out1"
      using picked_step [OF "1.prems"(3,2,1) work] by (simp add: c_def out1_def)
    then have p2: "picked tgt dl (remove_at c work) out2"
      using picked_tl by (cases out1) (auto simp: out2_def)
    have "length out2 \<le> cnt"
      using False by (auto simp: out2_def out1_def)
    then show ?thesis
      using "1.IH" [OF False work c_def out1_def refl] "1.prems"(1,2,5) p2 unfolding step out2_def by blast
  qed
qed

text \<open>The disk chosen last is the farthest from the target, so its tolerance is that of all.\<close>

lemma tolerance_mono:
  assumes "sane tgt" "sane (rk_size d)" "sane (rk_size e)" "dist tgt d \<le> dist tgt e" "SizeToleranceMatch (rk_size e) tgt tol"
  shows "SizeToleranceMatch (rk_size d) tgt tol"
proof -
  have "uint (abs_word (tgt - rk_size x)) = dist tgt x" if "sane (rk_size x)" for x
    using assms(1) that by (simp add: abs_word_diff sane_def dist_def)
  then show ?thesis
    using assms unfolding SizeToleranceMatch_def word_le_def by simp
qed

lemma fold_max:
  "list_all sane (s # ss) \<Longrightarrow> fold (\<lambda>x m. if m <s x then x else m) ss s \<in> set (s # ss)
     \<and> (\<forall>x\<in>set (s # ss). uint x \<le> uint (fold (\<lambda>x m. if m <s x then x else m) ss s))"
proof (induction ss arbitrary: s)
  case (Cons x ss)
  define m where "m = (if s <s x then x else s)"
  have "m = (if uint s < uint x then x else s)"
    using Cons.prems sless_sane by (simp add: m_def)
  moreover have "list_all sane (m # ss)"
    using Cons.prems by (simp add: m_def)
  ultimately show ?case
    using Cons.IH [of m] by (auto simp: m_def [symmetric] split: if_splits)
qed simp

lemma fold_min:
  "list_all sane (s # ss) \<Longrightarrow> fold (\<lambda>x m. if x <s m then x else m) ss s \<in> set (s # ss)
     \<and> (\<forall>x\<in>set (s # ss). uint (fold (\<lambda>x m. if x <s m then x else m) ss s) \<le> uint x)"
proof (induction ss arbitrary: s)
  case (Cons x ss)
  define m where "m = (if x <s s then x else s)"
  have "m = (if uint x < uint s then x else s)"
    using Cons.prems sless_sane by (simp add: m_def)
  moreover have "list_all sane (m # ss)"
    using Cons.prems by (simp add: m_def)
  ultimately show ?case
    using Cons.IH [of m] by (auto simp: m_def [symmetric] split: if_splits)
qed simp

text \<open>How much two disks of a set may differ: the set's tolerance of its largest disk.\<close>

definition within_set :: "u64 \<Rightarrow> RDisk list \<Rightarrow> bool" where
  "within_set setTol out \<longleftrightarrow>
     list_all (\<lambda>d. list_all (\<lambda>e. \<bar>uint (rk_size d) - uint (rk_size e)\<bar> \<le> uint (size_max (map rk_size out) * setTol div 100)) out) out"

lemma within_set_if:
  assumes "list_all (\<lambda>d. sane (rk_size d)) out" "SizeToleranceMatch (size_min (map rk_size out)) (size_max (map rk_size out)) setTol"
  shows "within_set setTol out"
proof (cases out)
  case (Cons d0 ds)
  have sane: "list_all sane (rk_size d0 # map rk_size ds)"
    using assms(1) Cons by (simp add: list_all_iff)
  define mx mn where "mx = size_max (map rk_size out)" and "mn = size_min (map rk_size out)"
  have b: "mx \<in> set (map rk_size out)" "mn \<in> set (map rk_size out)"
    "\<And>d. d \<in> set out \<Longrightarrow> uint (rk_size d) \<le> uint mx \<and> uint mn \<le> uint (rk_size d)"
    using fold_max [OF sane] fold_min [OF sane] by (auto simp: mx_def mn_def size_max_def size_min_def Cons)
  have "sane mx" "sane mn"
    using b(1,2) assms(1) by (auto simp: list_all_iff)
  then have "uint (abs_word (mx - mn)) = \<bar>uint mx - uint mn\<bar>"
    by (simp add: abs_word_diff sane_def)
  then have lim: "uint mx - uint mn \<le> uint (mx * setTol div 100)"
    using assms(2) unfolding SizeToleranceMatch_def word_le_def mx_def [symmetric] mn_def [symmetric] by linarith
  have "\<bar>uint (rk_size d) - uint (rk_size e)\<bar> \<le> uint (mx * setTol div 100)" if "d \<in> set out" "e \<in> set out" for d e
    using b(3) [OF that(1)] b(3) [OF that(2)] lim by linarith
  then show ?thesis
    unfolding within_set_def mx_def [symmetric] list_all_iff by blast
qed (simp add: within_set_def)

text \<open>
  C13: if disks are chosen, they are as many as wanted, each of them one of the list and none twice, all of
  a size within the tolerance of the target, and no two farther apart than the tolerance of the set.
\<close>

theorem disk_filter_sound:
  assumes "disk_filter tgt cnt setTol tgtTol dl = Returns out" "out \<noteq> []" "sane tgt" "list_all (\<lambda>d. sane (rk_size d)) dl"
  shows "length out = cnt \<and> mset out \<subseteq># mset dl \<and> list_all (\<lambda>d. SizeToleranceMatch (rk_size d) tgt tgtTol) out \<and> within_set setTol out"
proof -
  obtain out0 where p: "pick_disks tgt cnt setTol dl [] = Some out0" "take cnt out0 \<noteq> []"
    and f: "disk_filter tgt cnt setTol tgtTol dl =
      (let out1 = (if \<not> SizeToleranceMatch (rk_size (last (take cnt out0))) tgt tgtTol then [] else take cnt out0)
       in if \<not> SizeToleranceMatch (size_min (map rk_size out1)) (size_max (map rk_size out1)) setTol then Returns [] else Returns out1)"
    using assms(1,2) by (auto simp: disk_filter_def Let_def split: option.splits if_splits)
  have "picked tgt dl dl []"
    by (simp add: picked_def)
  from pick_disks_spec [OF assms(4,3) this _ p(1)] obtain w where len: "length out0 = cnt" and pk: "picked tgt dl w out0"
    by auto
  have out: "out = out0" "SizeToleranceMatch (rk_size (last out0)) tgt tgtTol"
    "SizeToleranceMatch (size_min (map rk_size out0)) (size_max (map rk_size out0)) setTol"
    using f assms(1,2) len by (auto simp: Let_def split: if_splits)
  have "mset out0 \<subseteq># mset w + mset out0"
    by simp
  also have "\<dots> \<subseteq># mset dl"
    using pk by (simp add: picked_def)
  finally have sub: "mset out0 \<subseteq># mset dl" .
  then have sane: "list_all (\<lambda>d. sane (rk_size d)) out0"
    using assms(4) by (auto simp: list_all_iff dest: mset_subset_eqD)
  have ne: "out0 \<noteq> []"
    using assms(2) out(1) by simp
  have "SizeToleranceMatch (rk_size d) tgt tgtTol" if "d \<in> set out0" for d
  proof (rule tolerance_mono [OF assms(3) _ _ _ out(2)])
    show "sane (rk_size d)" "sane (rk_size (last out0))"
      using sane that ne by (auto simp: list_all_iff)
    show "dist tgt d \<le> dist tgt (last out0)"
    proof -
      obtain xs where xs: "out0 = xs @ [last out0]"
        using ne by (metis append_butlast_last_id)
      have "sorted (map (dist tgt) (xs @ [last out0]))"
        using pk xs by (simp add: picked_def)
      moreover have "d \<in> set (xs @ [last out0])"
        using that xs by metis
      ultimately show ?thesis
        by (auto simp: sorted_append)
    qed
  qed
  then show ?thesis
    using out(1) len sub within_set_if [OF sane out(3)] by (auto simp: list_all_iff)
qed


definition disk_of :: "string \<Rightarrow> u64 \<Rightarrow> RDisk" where
  "disk_of n s = \<lparr>rk_identifier = n, rk_size = s, rk_target = - 1, rk_numParts = 0\<rparr>"

lemma disk_filter_example:
  "disk_filter 100 2 1 5 [disk_of ''sda'' 200, disk_of ''sdb'' 101, disk_of ''sdc'' 8, disk_of ''sdd'' 101] =
     Returns [disk_of ''sdb'' 101, disk_of ''sdd'' 101]"
  by code_simp

theorem disk_filter_sound_witness:
  "within_set 1 [disk_of ''sdb'' 101, disk_of ''sdd'' 101]
   \<and> list_all (\<lambda>d. SizeToleranceMatch (rk_size d) 100 5) [disk_of ''sdb'' 101, disk_of ''sdd'' 101]"
  using disk_filter_sound [OF disk_filter_example] by (simp add: sane_def disk_of_def)

text \<open>
  The comment says that a disk which does not match the next one has no better match; yet two disks of one
  size go unnoticed when another one, just as far from the target, lies between them in the list.
\<close>

lemma disk_filter_misses:
  "disk_filter 100 2 1 5 [disk_of ''sda'' 104, disk_of ''sdb'' 96, disk_of ''sdc'' 104] = Returns []"
  "disk_filter 100 2 1 5 [disk_of ''sda'' 104, disk_of ''sdc'' 104, disk_of ''sdb'' 96] =
     Returns [disk_of ''sda'' 104, disk_of ''sdc'' 104]"
  by code_simp+

lemma disk_filter_none_wanted: "disk_filter tgt 0 setTol tgtTol dl = Panics"
  by (simp add: disk_filter_def pick_disks.simps)

end
