(* ===== verification/RecFs.thy ===== *)
theory RecFs
  imports RecDisk
begin

text \<open>
  File systems of the recovery (\<open>pkg/recovery/disk/fs.go\<close>): their descriptions, mounting and unmounting,
  formatting, and the table \<open>/etc/fstab\<close>.  Calls of the system and commands are recorded in order; how they
  end is given by functions of their arguments.
\<close>

section \<open>Strings\<close>

text \<open>\<open>strings.Replace(s, old, new, -1)\<close> for a nonempty \<open>old\<close>; the number counts characters of an occurrence still to be skipped.\<close>

fun replace_from :: "'a list \<Rightarrow> 'a list \<Rightarrow> nat \<Rightarrow> 'a list \<Rightarrow> 'a list" where
  "replace_from old new k [] = []"
| "replace_from old new (Suc k) (x # xs) = replace_from old new k xs"
| "replace_from old new 0 (x # xs) =
     (if has_prefix (x # xs) old then new @ replace_from old new (length old - 1) xs else x # replace_from old new 0 xs)"

definition replace_all :: "'a list \<Rightarrow> 'a list \<Rightarrow> 'a list \<Rightarrow> 'a list" where
  "replace_all old new s = replace_from old new 0 s"

definition quote :: char where "quote = CHR 0x22"

text \<open>\<open>removeOpts\<close>: an option to remove that ends with \<open>=\<close> stands for all options it begins.\<close>

definition removed :: "string list \<Rightarrow> string \<Rightarrow> bool" where
  "removed removes opt \<longleftrightarrow> list_ex (\<lambda>r. r = opt \<or> (has_suffix r ''='' \<and> has_prefix opt r)) removes"

definition removeOpts :: "string \<Rightarrow> string list \<Rightarrow> string" where
  "removeOpts opts removes =
     Trim CHR '','' (concat (map (\<lambda>opt. if removed removes opt then [] else opt @ '','') (split_on CHR '','' opts)))"

section \<open>The system\<close>

text \<open>What is done, in order: a command is run by itself, with a file as its input, or on the output of another.\<close>

datatype effect =
    Ran "string list"
  | RanFrom string "string list"
  | Piped "string list" "string list"
  | Zeroed string nat whence
  | MountCall string string string string
  | UmountCall string
  | MadeDir string
  | Created string
  | Appended string string
  | Wrote string string
  | Copied string string
  | Linked string string
  | Removed string
  | Partitioned ptable

text \<open>How commands and calls end; the environment, links, and the files built into the program.\<close>

record system =
  sy_run :: "string list \<Rightarrow> bool \<times> string"
  sy_mount :: "string \<Rightarrow> string \<Rightarrow> string \<Rightarrow> string \<Rightarrow> bool"
  sy_umount :: "string \<Rightarrow> bool"
  sy_dev :: "string list"
  sy_env :: "string \<Rightarrow> string"
  sy_copy :: "string \<Rightarrow> string \<Rightarrow> bool"
  sy_write :: "string \<Rightarrow> bool"
  sy_stat :: "string \<Rightarrow> stat_result"
  sy_resolve :: "string \<Rightarrow> string option"
  sy_fstype :: "string \<Rightarrow> FsType"
  sy_asset :: "string \<Rightarrow> string option"

text \<open>\<open>mounted\<close>, the list of mount points to unmount at the end, and what was done.\<close>

record fsworld =
  fw_mounted :: "string list"
  fw_did :: "effect list"

definition did :: "effect \<Rightarrow> fsworld \<Rightarrow> fsworld" where
  "did e w = w\<lparr>fw_did := fw_did w @ [e]\<rparr>"

section \<open>Descriptions\<close>

record Filesystem =
  fs_blkdev :: string
  fs_formatted :: bool
  fs_isRecovery :: bool
  fs_mounted :: bool
  fs_mountType :: string
  fs_mountOpts :: string
  fs_mountPoint :: string
  fs_currentMountPoint :: string
  fs_fsid :: string
  fs_label :: string

definition new_fs :: Filesystem where
  "new_fs = \<lparr>fs_blkdev = [], fs_formatted = False, fs_isRecovery = False, fs_mounted = False, fs_mountType = [],
     fs_mountOpts = [], fs_mountPoint = [], fs_currentMountPoint = [], fs_fsid = [], fs_label = []\<rparr>"

definition ExistingFs :: "string \<Rightarrow> string \<Rightarrow> string \<Rightarrow> bool \<Rightarrow> Filesystem" where
  "ExistingFs device mntType mntOpts mntd =
     new_fs\<lparr>fs_mountType := mntType, fs_mountOpts := mntOpts, fs_blkdev := device, fs_formatted := True, fs_mounted := mntd\<rparr>"

definition ExistingExt4Fs :: "string \<Rightarrow> bool \<Rightarrow> Filesystem" where
  "ExistingExt4Fs device mntd = ExistingFs device ''ext4'' ''auto,relatime'' mntd"

definition TestFilesystem :: "string \<Rightarrow> Filesystem" where
  "TestFilesystem dir = new_fs\<lparr>fs_mounted := True, fs_mountPoint := dir\<rparr>"

definition fs_Path :: "Filesystem \<Rightarrow> string" where
  "fs_Path fs =
     (if fs_mounted fs then (if fs_currentMountPoint fs \<noteq> [] then fs_currentMountPoint fs else fs_mountPoint fs)
      else ''/dev/null'')"

definition fs_Valid :: "Filesystem \<Rightarrow> bool" where "fs_Valid fs \<longleftrightarrow> fs_blkdev fs \<noteq> []"
definition IsMounted :: "Filesystem \<Rightarrow> bool" where "IsMounted fs = fs_mounted fs"
definition fs_Device :: "Filesystem \<Rightarrow> string" where "fs_Device fs = fs_blkdev fs"
definition FstabMountpoint :: "Filesystem \<Rightarrow> string" where "FstabMountpoint fs = fs_mountPoint fs"
definition Fsid :: "Filesystem \<Rightarrow> string" where "Fsid fs = fs_fsid fs"

definition SetMountpoint :: "string \<Rightarrow> Filesystem \<Rightarrow> Filesystem" where
  "SetMountpoint pt fs =
     (let fs1 = (if fs_mounted fs \<and> fs_mountPoint fs \<noteq> [] then fs\<lparr>fs_currentMountPoint := fs_mountPoint fs\<rparr> else fs)
      in fs1\<lparr>fs_mountPoint := pt\<rparr>)"

definition AutoUnmount :: "Filesystem \<Rightarrow> fsworld \<Rightarrow> fsworld" where
  "AutoUnmount fs w =
     (if \<not> fs_mounted fs then w
      else if fs_Path fs \<in> set (fw_mounted w) then w
      else w\<lparr>fw_mounted := fw_mounted w @ [fs_Path fs]\<rparr>)"

text \<open>\<open>FixupRecoveryFS\<close>: the options of the recovery file system may not all fit its type.\<close>

datatype fixup_error = NotRecoveryFS | CantHandleThisFS

definition owner_opts :: "string list" where
  "owner_opts = [''uid='', ''gid='', ''user_id='', ''group_id='']"

definition FixupRecoveryFS :: "(string \<Rightarrow> FsType) \<Rightarrow> Stringer option \<Rightarrow> Filesystem \<Rightarrow> fixup_error option \<times> Filesystem" where
  "FixupRecoveryFS fstype impl fs =
     (if \<not> fs_isRecovery fs then (Some NotRecoveryFS, fs)
      else if fs_mountType fs = ''9p'' \<and> fs_blkdev fs = st_RecVolName (strs_of impl)
      then (None, fs\<lparr>fs_mountOpts := removeOpts (fs_mountOpts fs) owner_opts\<rparr>)
      else if fstype (fs_blkdev fs) = FsNtfs
      then (None, fs\<lparr>fs_mountOpts := removeOpts (fs_mountOpts fs) [''discard''], fs_mountType := ''ntfs-3g''\<rparr>)
      else if fstype (fs_blkdev fs) = FsExt4
      then (None, fs\<lparr>fs_mountOpts := removeOpts (fs_mountOpts fs) owner_opts, fs_mountType := ''ext4''\<rparr>)
      else (Some CantHandleThisFS, fs))"

definition FstabEntry :: "string \<Rightarrow> string \<Rightarrow> Filesystem \<Rightarrow> string" where
  "FstabEntry uid gid fs =
     (let pass = (if fs_mountPoint fs = ''/'' then 1 else 2);
          opts = replace_all ''$g'' gid (replace_all ''$u'' uid (fs_mountOpts fs));
          dev = (if fs_fsid fs \<noteq> [] \<and> \<not> contains (fs_blkdev fs) ''by-label''
                 then ''UUID='' @ [quote] @ fs_fsid fs @ [quote] else fs_blkdev fs)
      in dev @ '' '' @ fs_mountPoint fs @ '' '' @ fs_mountType fs @ '' '' @ opts @ '' '' @ show_dec 0 @ '' '' @ show_dec pass
         @ '' #'' @ fs_blkdev fs @ [newline])"


section \<open>Formatting\<close>

definition uuid_in :: "string \<Rightarrow> string option" where
  "uuid_in out =
     (case index_of ''UUID: '' out of
        None \<Rightarrow> None
      | Some uu \<Rightarrow>
          (case index_of [newline] (drop uu out) of
             None \<Rightarrow> None
           | Some n \<Rightarrow> Some (take (n - 6) (drop (uu + 6) out))))"

definition mkfs_args :: "string \<Rightarrow> Filesystem \<Rightarrow> string list" where
  "mkfs_args label fs =
     (if fs_mountType fs = ''vfat'' then [''mkdosfs'', ''-n'', label, fs_blkdev fs]
      else [''mke2fs'', ''-L'', label, ''-m'', ''1'', ''-t'', fs_mountType fs]
           @ (if fs_mountType fs = ''ext4'' then [''-O'', ''encrypt''] else []) @ [fs_blkdev fs])"

definition Format :: "system \<Rightarrow> string \<Rightarrow> Filesystem \<Rightarrow> fsworld \<Rightarrow> bool \<times> Filesystem \<times> fsworld" where
  "Format sy label fs w =
     (if fs_formatted fs then (True, fs, w)
      else
        (let fs1 = fs\<lparr>fs_label := label, fs_mountType := (if fs_mountType fs = [] then ''ext4'' else fs_mountType fs)\<rparr>;
             argv = mkfs_args label fs1;
             w1 = did (Ran argv) (did (Zeroed (fs_blkdev fs) 1 SeekStart) w)
         in case sy_run sy argv of
              (False, out) \<Rightarrow> (False, fs1\<lparr>fs_mountType := []\<rparr>, w1)
            | (True, out) \<Rightarrow>
                (if fs_mountType fs1 = ''vfat'' then (True, fs1\<lparr>fs_formatted := True\<rparr>, w1)
                 else (case uuid_in out of
                         None \<Rightarrow> (False, fs1, w1)
                       | Some u \<Rightarrow> (True, fs1\<lparr>fs_fsid := u, fs_formatted := True\<rparr>, w1)))))"

section \<open>Mounting\<close>

definition mount_opts :: "Filesystem \<Rightarrow> string" where
  "mount_opts fs = removeOpts (fs_mountOpts fs) ([''nofail'', ''auto''] @ owner_opts)"

text \<open>\<open>MountErr\<close>: the path, success, and what is left; the system call first, then the command.\<close>

definition MountErr :: "system \<Rightarrow> Filesystem \<Rightarrow> fsworld \<Rightarrow> string \<times> bool \<times> Filesystem \<times> fsworld" where
  "MountErr sy fs w =
     (if fs_mountPoint fs = [] then ([], False, fs, w)
      else if fs_mounted fs then (fs_mountPoint fs, True, fs, w)
      else
        (let w1 = did (MountCall (fs_blkdev fs) (fs_mountPoint fs) (fs_mountType fs) (mount_opts fs)) (did (MadeDir (fs_mountPoint fs)) w);
             argv = [''mount'', fs_blkdev fs, fs_mountPoint fs, ''-t'', fs_mountType fs]
                    @ (if mount_opts fs \<noteq> [] then [''-o'', mount_opts fs] else []);
             fs1 = fs\<lparr>fs_mounted := True\<rparr>
         in if sy_mount sy (fs_blkdev fs) (fs_mountPoint fs) (fs_mountType fs) (mount_opts fs)
            then (fs_mountPoint fs, True, fs1, w1\<lparr>fw_mounted := fw_mounted w1 @ [fs_mountPoint fs]\<rparr>)
            else
              (let w2 = did (Ran argv) w1
               in if fst (sy_run sy argv) then (fs_mountPoint fs, True, fs1, w2\<lparr>fw_mounted := fw_mounted w2 @ [fs_mountPoint fs]\<rparr>)
                  else ([], False, fs, w2))))"

text \<open>\<open>Mount\<close>: on an error the names in \<open>/dev\<close> are compared with the first two characters of the mount
  point, which must be there.\<close>

definition fs_Mount :: "system \<Rightarrow> Filesystem \<Rightarrow> fsworld \<Rightarrow> (Filesystem \<times> fsworld) fatal" where
  "fs_Mount sy fs w =
     (case MountErr sy fs w of
        (p, True, fs1, w1) \<Rightarrow> Ok (fs1, w1)
      | (p, False, fs1, w1) \<Rightarrow> if sy_dev sy \<noteq> [] \<and> length (fs_mountPoint fs) < 2 then Panicked else Fatal)"

definition Umount :: "system \<Rightarrow> Filesystem \<Rightarrow> fsworld \<Rightarrow> Filesystem \<times> fsworld" where
  "Umount sy fs w =
     (if \<not> fs_mounted fs then (fs, w)
      else ((if sy_umount sy (fs_blkdev fs) then fs\<lparr>fs_mounted := False\<rparr> else fs), did (UmountCall (fs_blkdev fs)) w))"

definition UnmountAll :: "fsworld \<Rightarrow> fsworld" where
  "UnmountAll w =
     foldl (\<lambda>w m. did (Ran [''umount'', ''-lr'', m]) w) w (rev (fw_mounted w)) \<lparr>fw_mounted := []\<rparr>"

section \<open>The table of file systems\<close>

text \<open>\<open>WriteFstab\<close>, for anything with an entry and a mount point; whether the file can be created is a parameter.\<close>

fun fstab_entries :: "('f \<Rightarrow> string) \<Rightarrow> ('f \<Rightarrow> string) \<Rightarrow> string \<Rightarrow> string \<Rightarrow> 'f list \<Rightarrow> fsworld \<Rightarrow> fsworld" where
  "fstab_entries entry mpoint root file [] w = w"
| "fstab_entries entry mpoint root file (m # ms) w =
     fstab_entries entry mpoint root file ms
       (did (MadeDir (path_Join [root, mpoint m])) (did (Appended file (entry m)) w))"

definition WriteFstab ::
    "(string \<Rightarrow> bool) \<Rightarrow> ('f \<Rightarrow> string) \<Rightarrow> ('f \<Rightarrow> string) \<Rightarrow> Filesystem \<Rightarrow> 'f list \<Rightarrow> fsworld \<Rightarrow> fsworld fatal" where
  "WriteFstab creatable entry mpoint fs mounts w =
     (let file = path_Join [fs_Path fs, ''etc'', ''fstab'']
      in if \<not> creatable file then Fatal
         else Ok (fstab_entries entry mpoint (fs_Path fs) file mounts (did (Created file) w)))"

section \<open>Devices, copies, owners\<close>

function strip_to_device :: "(string \<Rightarrow> bool) \<Rightarrow> string \<Rightarrow> string" where
  "strip_to_device known dev =
     (if known (path_Join [''/sys'', ''block'', dev]) then dev
      else if length dev < 2 then []
      else strip_to_device known (take (length dev - 1) dev))"
  by pat_completeness auto
termination by (relation "measure (\<lambda>(k, d). length d)") auto

definition UnderlyingDevice :: "(string \<Rightarrow> string option) \<Rightarrow> (string \<Rightarrow> bool) \<Rightarrow> Filesystem \<Rightarrow> string" where
  "UnderlyingDevice resolve known fs =
     strip_to_device known (path_Base (case resolve (fs_blkdev fs) of Some r \<Rightarrow> r | None \<Rightarrow> fs_blkdev fs))"

definition copy2boot :: "string \<Rightarrow> Filesystem \<Rightarrow> Filesystem \<Rightarrow> fsworld \<Rightarrow> fsworld" where
  "copy2boot fname dest source w =
     did (Copied (path_Join [fs_Path source, ''boot'', fname]) (path_Join [fs_Path dest, fname])) w"

definition SetOwnerAndPerms :: "system \<Rightarrow> string \<Rightarrow> string \<Rightarrow> Filesystem \<Rightarrow> fsworld \<Rightarrow> fsworld" where
  "SetOwnerAndPerms sy uid gid fs w =
     (if \<not> fs_mounted fs then w
      else
        (let own = [''chown'', ''-R'', uid @ '':'' @ gid, fs_Path fs]; mode = [''chmod'', ''-R'', ''a+rX'', fs_Path fs]
         in if fst (sy_run sy own) then did (Ran mode) (did (Ran own) w) else did (Ran own) w))"


section \<open>Options\<close>

lemma split_on_items: "list_all (\<lambda>i. c \<notin> set i) items \<Longrightarrow> split_on c (concat (map (\<lambda>i. i @ [c]) items)) = items @ [[]]"
  by (induction items) (simp_all add: split_on_append)

lemma split_on_parts: "p \<in> set (split_on c s) \<Longrightarrow> c \<notin> set p"
  by (induction s arbitrary: p) (auto split: if_splits list.splits)

lemma split_on_snoc: "split_on c (s @ [c]) = split_on c s @ [[]]"
  by (induction s) (auto split: list.splits)

abbreviation items :: "char \<Rightarrow> string \<Rightarrow> string list" where
  "items c s \<equiv> filter (\<lambda>i. i \<noteq> []) (split_on c s)"

lemma items_drop_left: "items c (dropWhile (\<lambda>x. x = c) s) = items c s"
  by (induction s) auto

lemma items_drop_right: "items c (rev (dropWhile (\<lambda>x. x = c) (rev s))) = items c s"
  by (induction s rule: rev_induct) (auto simp: split_on_snoc)

lemma items_Trim: "items c (Trim c s) = items c s"
  by (simp add: Trim_def items_drop_left items_drop_right)

lemma concat_filter_map: "concat (map (\<lambda>i. if P i then [] else f i) xs) = concat (map f (filter (\<lambda>i. \<not> P i) xs))"
  by (induction xs) auto

text \<open>What is left of the options: those not to be removed, in order.\<close>

lemma removeOpts_items: "items CHR '','' (removeOpts opts rs) = filter (\<lambda>i. i \<noteq> [] \<and> \<not> removed rs i) (split_on CHR '','' opts)"
proof -
  have "list_all (\<lambda>i. CHR '','' \<notin> set i) (filter (\<lambda>i. \<not> removed rs i) (split_on CHR '','' opts))"
    by (auto simp: list_all_iff dest: split_on_parts)
  from split_on_items [OF this] show ?thesis
    by (simp add: removeOpts_def items_Trim concat_filter_map filter_filter conj_commute cong: conj_cong)
qed

text \<open>After a successful repair the recovery file system is mounted by the driver its contents ask for, with all the
  options but those this driver rejects.\<close>

theorem FixupRecoveryFS_repairs:
  assumes "FixupRecoveryFS fstype impl fs = (None, fs1)" "fs_mountType fs \<noteq> ''9p''"
  shows "\<exists>rs. (fstype (fs_blkdev fs) = FsNtfs \<and> fs_mountType fs1 = ''ntfs-3g'' \<and> rs = [''discard'']
                \<or> fstype (fs_blkdev fs) = FsExt4 \<and> fs_mountType fs1 = ''ext4'' \<and> rs = owner_opts)
     \<and> items CHR '','' (fs_mountOpts fs1) = filter (\<lambda>i. i \<noteq> [] \<and> \<not> removed rs i) (split_on CHR '','' (fs_mountOpts fs))"
  using assms by (auto simp: FixupRecoveryFS_def removeOpts_items split: if_splits)

lemma FixupRecoveryFS_repairs_witness:
  "fs_mountOpts (snd (FixupRecoveryFS (\<lambda>d. FsExt4) None
      (new_fs\<lparr>fs_isRecovery := True, fs_blkdev := ''/dev/sdb1'', fs_mountOpts := StandardMountOpts\<rparr>))) = ''auto,noexec,relatime,nofail''
   \<and> items CHR '','' ''auto,noexec,relatime,nofail''
       = filter (\<lambda>i. i \<noteq> [] \<and> \<not> removed owner_opts i) (split_on CHR '','' StandardMountOpts)"
proof -
  let ?fs = "new_fs\<lparr>fs_isRecovery := True, fs_blkdev := ''/dev/sdb1'', fs_mountOpts := StandardMountOpts\<rparr>"
  have f: "FixupRecoveryFS (\<lambda>d. FsExt4) None ?fs =
      (None, ?fs\<lparr>fs_mountOpts := ''auto,noexec,relatime,nofail'', fs_mountType := ''ext4''\<rparr>)"
    by code_simp
  from FixupRecoveryFS_repairs [OF f] show ?thesis
    unfolding f by (simp add: new_fs_def del: split_on.simps)
qed

section \<open>Mount points\<close>

text \<open>The operations on one file system, with the place where the kernel has it as third component.\<close>

lemma did_mounted [simp]: "fw_mounted (did e w) = fw_mounted w"
  by (simp add: did_def)

datatype fs_op =
    OpFormat string
  | OpMount
  | OpUmount
  | OpFixup "string \<Rightarrow> FsType" "Stringer option"
  | OpOwner string string
  | OpAuto
  | OpMove string

definition fs_do :: "system \<Rightarrow> fs_op \<Rightarrow> Filesystem \<times> fsworld \<times> string option \<Rightarrow> Filesystem \<times> fsworld \<times> string option" where
  "fs_do sy oper s =
     (case s of (fs, w, k) \<Rightarrow>
        (case oper of
           OpFormat label \<Rightarrow> (case Format sy label fs w of (r, fs1, w1) \<Rightarrow> (fs1, w1, k))
         | OpMount \<Rightarrow>
             (case MountErr sy fs w of
                (p, r, fs1, w1) \<Rightarrow> (fs1, w1, if r \<and> \<not> fs_mounted fs then Some (fs_mountPoint fs) else k))
         | OpUmount \<Rightarrow> (case Umount sy fs w of (fs1, w1) \<Rightarrow> (fs1, w1, if fs_mounted fs1 then k else None))
         | OpFixup fstype impl \<Rightarrow> (snd (FixupRecoveryFS fstype impl fs), w, k)
         | OpOwner uid gid \<Rightarrow> (fs, SetOwnerAndPerms sy uid gid fs w, k)
         | OpAuto \<Rightarrow> (fs, AutoUnmount fs w, k)
         | OpMove pt \<Rightarrow> (SetMountpoint pt fs, w, k)))"

text \<open>Each operation meets a system of its own, so that each may fail or not.\<close>

fun fs_run :: "(system \<times> fs_op) list \<Rightarrow> Filesystem \<times> fsworld \<times> string option \<Rightarrow> Filesystem \<times> fsworld \<times> string option" where
  "fs_run [] s = s"
| "fs_run ((sy, oper) # ops) s = fs_run ops (fs_do sy oper s)"

text \<open>What the code has to keep to: once it was moved while mounted, a file system is neither moved nor mounted again.\<close>

fun moves_or_mounts :: "fs_op \<Rightarrow> bool" where
  "moves_or_mounts OpMount = True"
| "moves_or_mounts (OpMove pt) = True"
| "moves_or_mounts _ = False"

fun is_move :: "fs_op \<Rightarrow> bool" where
  "is_move (OpMove pt) = True"
| "is_move _ = False"

fun moved_once :: "(system \<times> fs_op) list \<Rightarrow> Filesystem \<times> fsworld \<times> string option \<Rightarrow> bool" where
  "moved_once [] s = True"
| "moved_once ((sy, oper) # ops) s =
     ((is_move oper \<and> fs_mounted (fst s) \<longrightarrow> list_all (\<lambda>(sy, later). \<not> moves_or_mounts later) ops)
      \<and> moved_once ops (fs_do sy oper s))"

text \<open>The description knows the place, and the place will be unmounted at the end.\<close>

definition located :: "Filesystem \<times> fsworld \<times> string option \<Rightarrow> bool" where
  "located s = (case s of (fs, w, k) \<Rightarrow>
     (case k of None \<Rightarrow> \<not> fs_mounted fs
      | Some p \<Rightarrow> fs_mounted fs \<and> p \<noteq> [] \<and> fs_Path fs = p \<and> p \<in> set (fw_mounted w)))"

lemma SetMountpoint_Path:
  "fs_mounted fs \<Longrightarrow> fs_Path fs \<noteq> [] \<Longrightarrow> fs_currentMountPoint fs = [] \<Longrightarrow> fs_Path (SetMountpoint pt fs) = fs_Path fs"
  by (simp add: SetMountpoint_def fs_Path_def)

lemma Format_keeps:
  "Format sy label fs w = (r, fs1, w1) \<Longrightarrow>
   fw_mounted w1 = fw_mounted w \<and> fs_Path fs1 = fs_Path fs \<and> fs_mounted fs1 = fs_mounted fs
   \<and> fs_currentMountPoint fs1 = fs_currentMountPoint fs"
  by (auto simp: Format_def Let_def fs_Path_def split: if_splits prod.splits bool.splits option.splits)

lemma FixupRecoveryFS_keeps:
  "fs_Path (snd (FixupRecoveryFS fstype impl fs)) = fs_Path fs
   \<and> fs_mounted (snd (FixupRecoveryFS fstype impl fs)) = fs_mounted fs
   \<and> fs_currentMountPoint (snd (FixupRecoveryFS fstype impl fs)) = fs_currentMountPoint fs"
  by (simp add: FixupRecoveryFS_def fs_Path_def)

lemma MountErr_mounts:
  "MountErr sy fs w = (p, True, fs1, w1) \<Longrightarrow> \<not> fs_mounted fs \<Longrightarrow>
   fs1 = fs\<lparr>fs_mounted := True\<rparr> \<and> fs_mountPoint fs \<noteq> [] \<and> fw_mounted w1 = fw_mounted w @ [fs_mountPoint fs]"
  by (auto simp: MountErr_def Let_def split: if_splits)

lemma MountErr_keeps:
  "MountErr sy fs w = (p, r, fs1, w1) \<Longrightarrow> fs_mounted fs \<or> \<not> r \<Longrightarrow> fs1 = fs \<and> fw_mounted w1 = fw_mounted w"
  by (auto simp: MountErr_def Let_def split: if_splits)

text \<open>An operation keeps the location, if a moved file system is spared the two that would lose it.\<close>

lemma located_do:
  assumes "located (fs, w, k)" "fs_currentMountPoint fs = [] \<or> \<not> moves_or_mounts oper"
  shows "located (fs_do sy oper (fs, w, k))"
proof (cases oper)
  case (OpFormat label)
  obtain r fs1 w1 where f: "Format sy label fs w = (r, fs1, w1)"
    by (cases "Format sy label fs w")
  show ?thesis
    using assms(1) Format_keeps [OF f] OpFormat by (simp add: fs_do_def f located_def split: option.splits)
next
  case OpMount
  obtain p r fs1 w1 where m: "MountErr sy fs w = (p, r, fs1, w1)"
    by (cases "MountErr sy fs w")
  show ?thesis
  proof (cases "r \<and> \<not> fs_mounted fs")
    case True
    then show ?thesis
      using OpMount m MountErr_mounts [of sy fs w p fs1 w1] assms
      by (auto simp: fs_do_def located_def fs_Path_def)
  next
    case False
    then show ?thesis
      using OpMount m MountErr_keeps [OF m] assms(1) by (auto simp: fs_do_def located_def split: option.splits)
  qed
next
  case (OpMove pt)
  then have "fs_mounted (SetMountpoint pt fs) = fs_mounted fs" "fs_currentMountPoint fs = []"
    using assms(2) by (simp_all add: SetMountpoint_def Let_def)
  with SetMountpoint_Path [of fs pt] OpMove assms(1) show ?thesis
    by (auto simp: fs_do_def located_def split: option.splits)
next
  case OpUmount
  then show ?thesis
    using assms(1) by (auto simp: fs_do_def located_def Umount_def fs_Path_def split: option.splits)
next
  case (OpFixup fstype impl)
  then show ?thesis
    using assms(1) FixupRecoveryFS_keeps [of fstype impl fs] by (simp add: fs_do_def located_def split: option.splits)
next
  case (OpOwner uid gid)
  then show ?thesis
    using assms(1) by (simp add: fs_do_def located_def SetOwnerAndPerms_def Let_def split: option.splits)
next
  case OpAuto
  then show ?thesis
    using assms(1) by (auto simp: fs_do_def located_def AutoUnmount_def split: option.splits)
qed

lemma fs_do_current:
  "\<not> (is_move oper \<and> fs_mounted fs) \<Longrightarrow>
   fs_currentMountPoint (fst (fs_do sy oper (fs, w, k))) = fs_currentMountPoint fs"
  using Format_keeps [of sy _ fs w] FixupRecoveryFS_keeps
  by (auto simp: fs_do_def MountErr_def Umount_def SetMountpoint_def Let_def split: fs_op.split prod.splits)

lemma located_run:
  "located s \<Longrightarrow> moved_once ops s \<Longrightarrow>
   fs_currentMountPoint (fst s) = [] \<or> list_all (\<lambda>(sy, later). \<not> moves_or_mounts later) ops \<Longrightarrow> located (fs_run ops s)"
proof (induction ops s rule: fs_run.induct)
  case (2 sy oper ops s)
  obtain fs w k where s: "s = (fs, w, k)"
    by (cases s)
  have "located (fs_do sy oper s)"
    using located_do [of fs w k oper sy] "2.prems" by (auto simp: s)
  moreover have "fs_currentMountPoint (fst (fs_do sy oper s)) = [] \<or> list_all (\<lambda>(sy, later). \<not> moves_or_mounts later) ops"
  proof (cases "is_move oper \<and> fs_mounted fs")
    case True
    then show ?thesis
      using "2.prems"(2) by (simp add: s)
  next
    case False
    from fs_do_current [OF this, of sy w k] "2.prems"(3) show ?thesis
      by (auto simp: s)
  qed
  ultimately show ?case
    using "2.IH" "2.prems"(2) by simp
qed simp

text \<open>At the end everything is unmounted, the latest first.\<close>

lemma UnmountAll_order:
  "fw_mounted (UnmountAll w) = [] \<and> fw_did (UnmountAll w) = fw_did w @ map (\<lambda>m. Ran [''umount'', ''-lr'', m]) (rev (fw_mounted w))"
proof -
  have "fw_did (foldl (\<lambda>w m. did (Ran [''umount'', ''-lr'', m]) w) w ms) = fw_did w @ map (\<lambda>m. Ran [''umount'', ''-lr'', m]) ms" for ms w
    by (induction ms arbitrary: w) (simp_all add: did_def)
  then show ?thesis by (simp add: UnmountAll_def)
qed

lemma UnmountAll_unmounts: "p \<in> set (fw_mounted w) \<Longrightarrow> Ran [''umount'', ''-lr'', p] \<in> set (fw_did (UnmountAll w))"
  by (simp add: UnmountAll_order)

text \<open>C14: a file system starts unmounted and never moved, any of its operations are done with it in any order, and
  any of them may fail.  If it is neither moved nor mounted again once it was moved while mounted, its description
  says at the end whether it is mounted and at which place, and \<open>UnmountAll\<close> unmounts that place.\<close>

theorem fs_located:
  assumes "\<not> fs_mounted fs" "fs_currentMountPoint fs = []" "moved_once ops (fs, w, None)"
    and "fs_run ops (fs, w, None) = (fs1, w1, place)"
  shows "case place of
      None \<Rightarrow> \<not> fs_mounted fs1
    | Some p \<Rightarrow> fs_mounted fs1 \<and> p \<noteq> [] \<and> fs_Path fs1 = p \<and> Ran [''umount'', ''-lr'', p] \<in> set (fw_did (UnmountAll w1))"
  using located_run [of "(fs, w, None)" ops] assms UnmountAll_unmounts [of _ w1]
  by (auto simp: located_def split: option.splits)

definition example_system :: system where
  "example_system = \<lparr>sy_run = (\<lambda>argv. (True, ''UUID: 0a'' @ [newline])), sy_mount = (\<lambda>d p t opts. True), sy_umount = (\<lambda>d. True),
     sy_dev = [''sda''], sy_env = (\<lambda>v. []), sy_copy = (\<lambda>a b. True), sy_write = (\<lambda>p. True), sy_stat = (\<lambda>p. StatOk),
     sy_resolve = Some, sy_fstype = (\<lambda>d. FsExt4), sy_asset = (\<lambda>n. None)\<rparr>"

definition example_fs :: Filesystem where
  "example_fs = new_fs\<lparr>fs_blkdev := ''/dev/md0'', fs_mountPoint := ''/mnt/md0'', fs_mountOpts := ''auto,relatime''\<rparr>"

definition example_world :: fsworld where "example_world = \<lparr>fw_mounted = [], fw_did = []\<rparr>"

definition example_ops :: "(system \<times> fs_op) list" where
  "example_ops = map (Pair example_system) [OpFormat ''PRIMARY'', OpMount, OpUmount, OpMount, OpMove ''/'', OpAuto]"

lemma fs_located_witness:
  "\<exists>fs w. fs_run example_ops (example_fs, example_world, None) = (fs, w, Some ''/mnt/md0'')
     \<and> fs_Path fs = ''/mnt/md0'' \<and> fs_mountPoint fs = ''/''"
proof -
  have c: "\<not> fs_mounted example_fs" "fs_currentMountPoint example_fs = []"
    by (simp_all add: example_fs_def new_fs_def)
  have m: "moved_once example_ops (example_fs, example_world, None)"
    by code_simp
  define r where "r = fs_run example_ops (example_fs, example_world, None)"
  have v: "snd (snd r) = Some ''/mnt/md0''" "fs_mountPoint (fst r) = ''/''"
    unfolding r_def by code_simp+
  then have "fs_run example_ops (example_fs, example_world, None) = (fst r, fst (snd r), Some ''/mnt/md0'')"
    by (simp add: r_def [symmetric] prod_eq_iff)
  with fs_located [OF c m this] v(2) show ?thesis
    by (intro exI [of _ "fst r"] exI [of _ "fst (snd r)"]) simp
qed

text \<open>A second move, or mounting again after a move, and the description is wrong.\<close>

lemma SetMountpoint_twice:
  "fs_mounted fs \<Longrightarrow> fs_mountPoint fs \<noteq> [] \<Longrightarrow> a \<noteq> [] \<Longrightarrow> fs_Path (SetMountpoint b (SetMountpoint a fs)) = a"
  by (simp add: SetMountpoint_def fs_Path_def)

lemma mount_after_move:
  assumes "fs_mounted fs" "fs_mountPoint fs \<noteq> []" "pt \<noteq> []" "sy_umount sy (fs_blkdev fs)" "sy_mount sy = (\<lambda>d p t opts. True)"
  shows "\<exists>fs1 w1 fs2 w2. Umount sy (SetMountpoint pt fs) w = (fs1, w1) \<and> MountErr sy fs1 w1 = (pt, True, fs2, w2) \<and> fs_Path fs2 = fs_mountPoint fs"
  using assms by (simp add: Umount_def MountErr_def SetMountpoint_def fs_Path_def Let_def)

text \<open>A file system without a mount point cannot be mounted; the message about it reads past its end.\<close>

lemma Mount_without_mountpoint: "fs_mountPoint fs = [] \<Longrightarrow> sy_dev sy \<noteq> [] \<Longrightarrow> fs_Mount sy fs w = Panicked"
  by (simp add: fs_Mount_def MountErr_def)

section \<open>The device of a partition\<close>

declare strip_to_device.simps [simp del]

text \<open>The search by cutting off characters finds the longest beginning of the name that is a device.\<close>

lemma strip_to_device_longest:
  "strip_to_device known dev =
     (case find (\<lambda>p. known (path_Join [''/sys'', ''block'', p])) (map (\<lambda>n. take n dev) (rev [1..<Suc (length dev)])) of
        Some p \<Rightarrow> p | None \<Rightarrow> [])"
proof (induction known dev rule: strip_to_device.induct)
  case (1 known dev)
  show ?case
  proof (cases dev rule: rev_cases)
    case Nil
    then show ?thesis by (simp add: strip_to_device.simps)
  next
    case (snoc d c)
    have m: "map (\<lambda>n. take n (d @ [c])) (rev [1..<Suc (length d)]) = map (\<lambda>n. take n d) (rev [1..<Suc (length d)])"
      by (rule map_cong) auto
    have l: "map (\<lambda>n. take n dev) (rev [1..<Suc (length dev)]) = dev # map (\<lambda>n. take n d) (rev [1..<Suc (length d)])"
      using m by (simp add: snoc)
    have z: "length d = 0 \<Longrightarrow> map (\<lambda>n. take n d) (rev [1..<Suc (length d)]) = []"
      by simp
    show ?thesis
      using 1 unfolding l by (subst strip_to_device.simps) (auto simp: snoc z)
  qed
qed

section \<open>The table\<close>

lemma replace_from_chars: "set (replace_from old new k s) \<subseteq> set s \<union> set new"
  by (induction old new k s rule: replace_from.induct) auto

lemma replace_all_no: "c \<notin> set s \<Longrightarrow> c \<notin> set new \<Longrightarrow> c \<notin> set (replace_all old new s)"
  using replace_from_chars [of old new 0 s] by (auto simp: replace_all_def)

lemma show_dec_no_space: "CHR '' '' \<notin> set (show_dec n)"
  using show_dec_chars by fastforce


text \<open>The columns of an entry that has no blanks inside them.\<close>

definition no_blanks :: "string \<Rightarrow> bool" where
  "no_blanks s \<longleftrightarrow> CHR '' '' \<notin> set s"

definition fs_plain :: "Filesystem \<Rightarrow> bool" where
  "fs_plain fs \<longleftrightarrow> no_blanks (fs_blkdev fs) \<and> no_blanks (fs_mountPoint fs) \<and> no_blanks (fs_mountType fs)
     \<and> no_blanks (fs_mountOpts fs) \<and> no_blanks (fs_fsid fs)"

definition fstab_source :: "Filesystem \<Rightarrow> string" where
  "fstab_source fs =
     (if fs_fsid fs \<noteq> [] \<and> \<not> contains (fs_blkdev fs) ''by-label'' then ''UUID='' @ [quote] @ fs_fsid fs @ [quote] else fs_blkdev fs)"

lemma FstabEntry_columns:
  assumes "fs_plain fs" "no_blanks uid" "no_blanks gid"
  shows "split_on CHR '' '' (FstabEntry uid gid fs) =
    [fstab_source fs, fs_mountPoint fs, fs_mountType fs, replace_all ''$g'' gid (replace_all ''$u'' uid (fs_mountOpts fs)),
     ''0'', if fs_mountPoint fs = ''/'' then ''1'' else ''2'', ''#'' @ fs_blkdev fs @ [newline]]"
proof -
  have nb: "CHR '' '' \<notin> set (fstab_source fs)" "CHR '' '' \<notin> set (fs_mountPoint fs)" "CHR '' '' \<notin> set (fs_mountType fs)"
    "CHR '' '' \<notin> set (replace_all ''$g'' gid (replace_all ''$u'' uid (fs_mountOpts fs)))"
    "CHR '' '' \<notin> set (''#'' @ fs_blkdev fs @ [newline])"
    using assms by (simp_all add: fs_plain_def no_blanks_def fstab_source_def quote_def newline_def replace_all_no)
  have d: "show_dec 0 = ''0''" "show_dec 1 = ''1''" "show_dec 2 = ''2''"
    by code_simp+
  define pass where "pass = (if fs_mountPoint fs = ''/'' then ''1'' else ''2'')"
  have p: "CHR '' '' \<notin> set pass"
    by (simp add: pass_def)
  have e: "FstabEntry uid gid fs = fstab_source fs @ CHR '' '' # fs_mountPoint fs @ CHR '' '' # fs_mountType fs @ CHR '' '' #
      replace_all ''$g'' gid (replace_all ''$u'' uid (fs_mountOpts fs)) @ CHR '' '' # ''0'' @ CHR '' '' # pass @ CHR '' '' #
      (''#'' @ fs_blkdev fs @ [newline])"
    using d(2) by (simp add: FstabEntry_def fstab_source_def pass_def d)
  show ?thesis
    unfolding e split_on_append [OF nb(1)] split_on_append [OF nb(2)] split_on_append [OF nb(3)] split_on_append [OF nb(4)]
      split_on_append [OF p] split_on_no_sep [OF nb(5)]
    using split_on_append [of "CHR '' ''" "''0''"] nb(5)
    by (simp add: pass_def split_on_append [OF p, unfolded pass_def] split_on_no_sep)
qed

text \<open>Anything that can be put into the table.\<close>

locale fstaber =
  fixes entry :: "'f \<Rightarrow> string"
    and mpoint :: "'f \<Rightarrow> string"
    and plain :: "'f \<Rightarrow> bool"
  assumes columns: "plain f \<Longrightarrow> \<exists>src opts ty rest. split_on CHR '' '' (entry f) = [src, mpoint f, ty] @ opts # rest"
begin

text \<open>The table has an entry for each of them, in order, with a directory to mount it on.\<close>

lemma fstab_entries_did:
  "fw_did (fstab_entries entry mpoint root file ms w) =
     fw_did w @ concat (map (\<lambda>m. [Appended file (entry m), MadeDir (path_Join [root, mpoint m])]) ms)
   \<and> fw_mounted (fstab_entries entry mpoint root file ms w) = fw_mounted w"
  by (induction ms arbitrary: w) (simp_all add: did_def)

lemma WriteFstab_did:
  "WriteFstab creatable entry mpoint fs ms w = Ok w1 \<Longrightarrow>
   fw_did w1 = (fw_did w @ [Created (path_Join [fs_Path fs, ''etc'', ''fstab''])]) @
     concat (map (\<lambda>m. [Appended (path_Join [fs_Path fs, ''etc'', ''fstab'']) (entry m), MadeDir (path_Join [fs_Path fs, mpoint m])]) ms)"
  by (auto simp: WriteFstab_def Let_def fstab_entries_did split: if_splits) (simp add: did_def)

lemma fstab_lists:
  assumes "WriteFstab creatable entry mpoint fs ms w = Ok w1" "list_all plain ms" "fw_did w = []"
  shows "map (\<lambda>l. split_on CHR '' '' l ! 1) (concat (map (\<lambda>e. case e of Appended f l \<Rightarrow> [l] | _ \<Rightarrow> []) (fw_did w1))) = map mpoint ms"
proof -
  note d = WriteFstab_did [OF assms(1), unfolded assms(3)]
  have "concat (map (\<lambda>e. case e of Appended f l \<Rightarrow> [l] | _ \<Rightarrow> [])
      (concat (map (\<lambda>m. [Appended f (entry m), MadeDir (path_Join [root, mpoint m])]) ms))) = map entry ms" for f root
    by (induction ms) simp_all
  moreover have "split_on CHR '' '' (entry m) ! 1 = mpoint m" if "m \<in> set ms" for m
    using columns [of m] assms(2) that by (auto simp: list_all_iff)
  ultimately show ?thesis
    by (simp add: d)
qed

end

interpretation fstab: fstaber "FstabEntry uid gid" FstabMountpoint "\<lambda>fs. fs_plain fs \<and> no_blanks uid \<and> no_blanks gid"
  by unfold_locales (simp add: FstabEntry_columns FstabMountpoint_def)

text \<open>The table written for a system lists the mount points of its file systems in order, the root as first to be
  checked and all others after it.\<close>

theorem WriteFstab_lists:
  assumes "WriteFstab creatable (FstabEntry uid gid) FstabMountpoint fs mounts w = Ok w1"
    and "list_all fs_plain mounts" "no_blanks uid" "no_blanks gid" "fw_did w = []"
  shows "map (\<lambda>l. split_on CHR '' '' l ! 1) (concat (map (\<lambda>e. case e of Appended f l \<Rightarrow> [l] | _ \<Rightarrow> []) (fw_did w1)))
    = map fs_mountPoint mounts"
proof -
  have "list_all (\<lambda>fs. fs_plain fs \<and> no_blanks uid \<and> no_blanks gid) mounts"
    using assms(2-4) by (simp add: list_all_iff)
  from fstab.fstab_lists [OF assms(1) this assms(5)] show ?thesis
    by (simp add: FstabMountpoint_def)
qed

lemma WriteFstab_lists_witness:
  "\<exists>w1. WriteFstab (\<lambda>f. True) (FstabEntry ''100'' ''10'') FstabMountpoint (example_fs\<lparr>fs_mounted := True\<rparr>) [example_fs] example_world = Ok w1
     \<and> map (\<lambda>l. split_on CHR '' '' l ! 1) (concat (map (\<lambda>e. case e of Appended f l \<Rightarrow> [l] | _ \<Rightarrow> []) (fw_did w1))) = [''/mnt/md0'']"
proof -
  obtain w1 where w: "WriteFstab (\<lambda>f. True) (FstabEntry ''100'' ''10'') FstabMountpoint (example_fs\<lparr>fs_mounted := True\<rparr>) [example_fs] example_world = Ok w1"
    by (simp add: WriteFstab_def Let_def)
  have h: "list_all fs_plain [example_fs]" "no_blanks ''100''" "no_blanks ''10''" "fw_did example_world = []"
    by code_simp+
  from WriteFstab_lists [OF w h] w show ?thesis
    by (intro exI [of _ w1]) (simp add: example_fs_def)
qed

end
