(* ===== verification/RecBoot.thy ===== *)
theory RecBoot
  imports RecFs UefiVars GoTemplate
begin

text \<open>
  Making the recovered system start (\<open>pkg/recovery/disk/bootable.go\<close>, \<open>misc.go\<close>): kernel arguments, the
  templates of the boot files, boot entries and boot partitions, the choice of the newer kernel, arrays.
\<close>

section \<open>Kernel arguments\<close>

definition K_OVERRIDE :: string where "K_OVERRIDE = ''KERNEL_OVERRIDE''"

definition kArgsFromEnv :: "(string \<Rightarrow> string) \<Rightarrow> Stringer option \<Rightarrow> bool \<Rightarrow> string" where
  "kArgsFromEnv env impl hasConsole =
     (let ie = env (IntegEnv impl); ve = env (VerboseEnv impl); ko = env K_OVERRIDE
      in join_with '' ''
          ((if ie \<noteq> []
            then (if hasConsole then [] else [''console=ttyS0'', ''console=tty0''])
                 @ [IntegEnv impl @ ''='' @ ie] @ (if ve \<noteq> [] then [VerboseEnv impl @ ''='' @ ve] else [])
            else [])
           @ (if ko \<noteq> [] then [K_OVERRIDE @ ''='' @ ko] else [])))"

definition fixupGrub :: "(string \<Rightarrow> string) \<Rightarrow> Stringer option \<Rightarrow> string \<Rightarrow> string" where
  "fixupGrub env impl inp = replace_all ''quiet'' (kArgsFromEnv env impl (contains inp ''console='')) inp"

section \<open>Templates\<close>

record bootData =
  bd_Root_uuid :: string
  bd_Extra_opts :: string
  bd_Kernel :: string
  bd_HddFile :: string
  bd_FallFile :: string

definition bd_field :: "bootData \<Rightarrow> string \<Rightarrow> string option" where
  "bd_field bd n =
     (if n = ''.Root_uuid'' then Some (bd_Root_uuid bd)
      else if n = ''.Extra_opts'' then Some (bd_Extra_opts bd)
      else if n = ''.Kernel'' then Some (bd_Kernel bd)
      else if n = ''.HddFile'' then Some (bd_HddFile bd)
      else if n = ''.FallFile'' then Some (bd_FallFile bd)
      else None)"

definition processTemplate :: "bootData \<Rightarrow> string \<Rightarrow> string option" where
  "processTemplate bd inp = fill (bd_field bd) inp"

definition lines_of :: "string list \<Rightarrow> string" where
  "lines_of ls = concat (map (\<lambda>l. l @ [newline]) ls)"

definition hddBootFile :: string where "hddBootFile = ''GPROVHDD.boot''"
definition fallbackBootFile :: string where "fallbackBootFile = ''GPROVFBK.boot''"

definition defaultFallback :: string where
  "defaultFallback = lines_of
     [''timeout 0'', ''default 0'', '''', ''title Recovery'', ''errorcheck off'', ''find --set-root /{{.FallFile}}'',
      ''if not %@root:~5,1%==0 && root (hd0,0)'', ''errorcheck on'', ''kernel /{{.Kernel}} quiet'']"

definition defaultHdd :: string where
  "defaultHdd = lines_of
     [''timeout 0'', ''default 0'', ''fallback 1'', '''', ''title Normal'', ''find --set-root /{{.Kernel}}'',
      ''if not %@root:~5,1%==0 && root (hd0,0)'', ''kernel /{{.Kernel}} real_root=UUID={{.Root_uuid}} quiet {{.Extra_opts}}'', '''',
      ''title Recovery'', ''find --set-root /{{.Kernel}}'', ''if not %@root:~5,1%==0 && root (hd0,0)'', ''kernel /{{.Kernel}} quiet'']"

definition defaultMenu :: string where
  "defaultMenu = lines_of
     [''timeout 1'', ''default 0'', ''fallback 1'', '''', ''title Detecting active bootmedia'', ''errorcheck off'', ''root (hd0,0)'',
      ''find --set-root /{{.HddFile}}'', ''if not %@root:~5,1%==0 && root (hd0,0)'',
      ''if exist /{{.HddFile}} && configfile /{{.HddFile}}'', ''root (hd0,0)'', ''find --set-root /{{.FallFile}}'',
      ''if not %@root:~5,1%==0 && root (hd0,0)'', ''configfile /{{.FallFile}}'', ''errorcheck on'', '''',
      ''title Recovery'', ''errorcheck off'', ''root (hd0,0)'', ''find --set-root /{{.Kernel}}'',
      ''if not %@root:~5,1%==0 && root (hd0,0)'', ''errorcheck on'', ''kernel /{{.Kernel}} quiet'']"

text \<open>A file built into the program, or its default.\<close>

definition asset_or :: "system \<Rightarrow> string \<Rightarrow> string \<Rightarrow> string" where
  "asset_or sy n dflt = (case sy_asset sy n of Some t \<Rightarrow> t | None \<Rightarrow> dflt)"

definition finalizeGrubConf :: "system \<Rightarrow> Stringer option \<Rightarrow> string \<Rightarrow> string \<Rightarrow> string outcome" where
  "finalizeGrubConf sy impl root_uuid extra_opts =
     (case processTemplate \<lparr>bd_Root_uuid = root_uuid, bd_Extra_opts = extra_opts, bd_Kernel = st_BootKernel (strs_of impl),
                            bd_HddFile = [], bd_FallFile = []\<rparr> (asset_or sy hddBootFile defaultHdd) of
        None \<Rightarrow> Panics
      | Some out \<Rightarrow> Returns (fixupGrub (sy_env sy) impl out))"

definition WriteFallbackBootMenu :: "system \<Rightarrow> Stringer option \<Rightarrow> Filesystem \<Rightarrow> fsworld \<Rightarrow> fsworld outcome" where
  "WriteFallbackBootMenu sy impl fs w =
     (case processTemplate \<lparr>bd_Root_uuid = [], bd_Extra_opts = [], bd_Kernel = st_BootKernel (strs_of impl),
                            bd_HddFile = [], bd_FallFile = fallbackBootFile\<rparr> (asset_or sy fallbackBootFile defaultFallback) of
        None \<Rightarrow> Panics
      | Some out \<Rightarrow> Returns (did (Wrote (path_Join [fs_Path fs, fallbackBootFile]) (fixupGrub (sy_env sy) impl out)) w))"


section \<open>The boot loader\<close>

text \<open>\<open>InstallGrub4Dos\<close>: the device, the boot record, the loader, then the menu; any failure is fatal.\<close>

definition device_known :: "system \<Rightarrow> string \<Rightarrow> bool" where
  "device_known sy p \<longleftrightarrow> sy_stat sy p \<noteq> StatNotExist"

definition InstallGrub4Dos :: "system \<Rightarrow> Stringer option \<Rightarrow> Filesystem \<Rightarrow> fsworld \<Rightarrow> fsworld fatal" where
  "InstallGrub4Dos sy impl fs w =
     (let dev = UnderlyingDevice (sy_resolve sy) (device_known sy) fs;
          lace = [''/g4d/bootlace64.com'', ''--no-backup-mbr'', ''--boot-prevmbr-last'', ''--time-out=0'', ''/dev/'' @ dev];
          grldr = fs_Path fs @ ''/grldr'';
          menu = fs_Path fs @ ''/menu.lst'';
          w1 = did (Copied ''/g4d/grldr'' grldr) (did (Ran lace) w)
      in if dev = [] then Fatal
         else if \<not> fst (sy_run sy lace) then Fatal
         else if \<not> sy_copy sy ''/g4d/grldr'' grldr then Fatal
         else
           (case processTemplate \<lparr>bd_Root_uuid = [], bd_Extra_opts = [], bd_Kernel = st_BootKernel (strs_of impl),
                                  bd_HddFile = hddBootFile, bd_FallFile = fallbackBootFile\<rparr> (asset_or sy ''menu.lst'' defaultMenu) of
              None \<Rightarrow> Panicked
            | Some out \<Rightarrow>
                (if \<not> sy_write sy menu then Fatal else Ok (did (Wrote menu (fixupGrub (sy_env sy) impl out)) w1))))"

section \<open>Boot entries of the firmware\<close>

text \<open>How \<open>efibootmgr\<close> adds and removes entries; a removal that fails changes nothing.\<close>

record firmware =
  fm_add :: "command \<Rightarrow> BootEntryVar list \<Rightarrow> BootEntryVar list option"
  fm_remove :: "u16 \<Rightarrow> BootEntryVar list \<Rightarrow> BootEntryVar list option"

text \<open>The device and the number of the partition, from the name of the partition: its last character.\<close>

definition esp_location :: "string \<Rightarrow> string \<times> nat option" where
  "esp_location dev = (butlast dev, ParseUint10 8 [last dev])"

definition esp_fs :: "Filesystem \<Rightarrow> Filesystem" where
  "esp_fs recov =
     new_fs\<lparr>fs_blkdev := ''/dev/disk/by-label/ESP'', fs_mountPoint := path_Join [fs_Path recov, ''ESP''],
            fs_mountType := ''vfat'', fs_mountOpts := StandardMountOpts, fs_formatted := True\<rparr>"

definition remove_ours :: "firmware \<Rightarrow> BootEntryVar list \<Rightarrow> BootEntryVar list" where
  "remove_ours fm es = foldl (\<lambda>es e. case fm_remove fm (b_Number e) es of Some es1 \<Rightarrow> es1 | None \<Rightarrow> es) es (Ours es)"

definition fix_entries ::
    "system \<Rightarrow> firmware \<Rightarrow> Stringer option \<Rightarrow> string \<Rightarrow> string \<Rightarrow> BootEntryVar list \<Rightarrow> BootEntryVar list fatal" where
  "fix_entries sy fm impl blkdev extra es =
     (let dev = (case sy_resolve sy blkdev of Some d \<Rightarrow> d | None \<Rightarrow> []);
          kargs = kArgsFromEnv (sy_env sy) impl False
      in if dev = [] then Panicked
         else case esp_location dev of
                (d, None) \<Rightarrow> Fatal
              | (d, Some n) \<Rightarrow>
                  (case FixMissing (fm_add fm) impl es
                          \<lparr>e_Device = d, e_PartNum = n, e_Label = [], e_AbsPath = ''/'' @ st_BootKernel (strs_of impl),
                           e_Args = (if kargs \<noteq> [] then kargs else ''quiet''), e_autoBoot = False\<rparr> extra es of
                     None \<Rightarrow> Fatal
                   | Some es1 \<Rightarrow> Ok es1))"

definition ConfigUEFIBoot ::
    "system \<Rightarrow> firmware \<Rightarrow> Stringer option \<Rightarrow> Filesystem \<Rightarrow> Filesystem option \<Rightarrow> bool \<Rightarrow> string \<Rightarrow> fsworld \<times> BootEntryVar list
     \<Rightarrow> (Filesystem list \<times> fsworld \<times> BootEntryVar list) fatal" where
  "ConfigUEFIBoot sy fm impl recov given overwrite extra s =
     (case s of (w, es) \<Rightarrow>
        if fs_mountPoint recov = [] then Fatal
        else if given = None \<and> sy_stat sy ''/dev/disk/by-label/ESP'' \<noteq> StatOk then Fatal
        else
          (let esp = (case given of Some e \<Rightarrow> e | None \<Rightarrow> esp_fs recov)
           in fbind (fs_Mount sy esp (did (MadeDir (fs_mountPoint esp)) w)) (\<lambda>(esp1, w1).
                let esp2 = SetMountpoint (path_Join [fs_mountPoint recov, ''ESP'']) esp1
                in if \<not> overwrite \<and> OursPresent es then Ok ([esp2], w1, es)
                   else fbind (fix_entries sy fm impl (fs_blkdev esp2) extra (if overwrite then remove_ours fm es else es))
                          (\<lambda>es1. Ok ([esp2], w1, es1)))))"

section \<open>The recovery volume\<close>

definition FindRecovery ::
    "system \<Rightarrow> (string \<Rightarrow> string) \<Rightarrow> Stringer option \<Rightarrow> bool \<Rightarrow> string option \<Rightarrow> Variant option \<Rightarrow> Filesystem option fatal" where
  "FindRecovery sy readlink impl appeared dev platform =
     (case platform of
        None \<Rightarrow> Ok None
      | Some v \<Rightarrow>
          (case FindRecoveryDev readlink impl appeared dev v of
             (ident, ty, opts) \<Rightarrow>
               if ident = [] then Ok None
               else
                 (case FixupRecoveryFS (sy_fstype sy) impl
                        (new_fs\<lparr>fs_isRecovery := True, fs_blkdev := ident, fs_formatted := True, fs_mountOpts := opts,
                                fs_mountType := ty, fs_mountPoint := ''/mnt/recov''\<rparr>) of
                    (Some e, fs) \<Rightarrow> Fatal
                  | (None, fs) \<Rightarrow> Ok (Some fs))))"

text \<open>\<open>CreateRecovery\<close>: exactly one disk of the size is taken; whether the command that writes its partitions
  works is the parameter \<open>pt_ok\<close>.\<close>

definition new_recovery :: "RDisk \<Rightarrow> Filesystem" where
  "new_recovery d =
     new_fs\<lparr>fs_blkdev := ''/dev/'' @ rk_identifier d @ show_dec (rk_numParts d), fs_isRecovery := True, fs_mountType := ''ext3''\<rparr>"

definition new_esp :: "RDisk \<Rightarrow> Filesystem" where
  "new_esp d = new_fs\<lparr>fs_blkdev := ''/dev/'' @ rk_identifier d @ ''1'', fs_mountType := ''vfat''\<rparr>"

definition CreateRecovery ::
    "system \<Rightarrow> firmware \<Rightarrow> (string list \<times> string \<Rightarrow> bool) \<Rightarrow> bool \<Rightarrow> Stringer option \<Rightarrow> BlockDev list \<Rightarrow> u64 \<Rightarrow> string
     \<Rightarrow> fsworld \<times> BootEntryVar list \<Rightarrow> (Filesystem option \<times> fsworld \<times> BootEntryVar list) fatal" where
  "CreateRecovery sy fm pt_ok uefi impl devs recoverySize extra s =
     (case s of (w, es) \<Rightarrow>
        (case RecoveryCandidates devs recoverySize of
           [c] \<Rightarrow>
             fbind (PartitionRecovery pt_ok uefi \<lparr>rk_identifier = path_Base c, rk_size = 0, rk_target = 0, rk_numParts = 0\<rparr>) (\<lambda>(r, t, d).
               if \<not> r then Fatal
               else case Format sy (st_RecVolName (strs_of impl)) (new_recovery d) w of (r1, recov, w1) \<Rightarrow>
                 fbind (fs_Mount sy (recov\<lparr>fs_mountPoint := ''/mnt/recov''\<rparr>) w1) (\<lambda>(recov1, w2).
                   if rk_numParts d = 2
                   then case Format sy ''ESP'' (new_esp d) w2 of (r2, esp, w3) \<Rightarrow>
                     fbind (fs_Mount sy (esp\<lparr>fs_mountPoint := fs_mountPoint recov1 @ ''/ESP''\<rparr>) w3) (\<lambda>(esp1, w4).
                       fbind (ConfigUEFIBoot sy fm impl recov1 (Some esp1) True extra (w4, es)) (\<lambda>(ps, w5, es1).
                         Ok (Some recov1, w5, es1)))
                   else fbind (InstallGrub4Dos sy impl recov1 w2) (\<lambda>w3. Ok (Some recov1, w3, es))))
         | _ \<Rightarrow> Ok (None, w, es)))"


section \<open>The newer kernel\<close>

definition kBuildNum :: "string \<Rightarrow> string \<Rightarrow> nat option" where
  "kBuildNum out kpath =
     (let ostr = TrimSpace (trim_prefix (kpath @ '':'') out)
      in if \<not> contains ostr ''Linux kernel x86 boot executable'' then None
         else case split_on CHR ''#'' ostr of
                [a, b] \<Rightarrow>
                  (case index_of '' '' b of None \<Rightarrow> None | Some i \<Rightarrow> ParseUint10 64 (take i b))
              | _ \<Rightarrow> None)"

definition getKBuild :: "system \<Rightarrow> string \<Rightarrow> nat option" where
  "getKBuild sy kpath =
     (if sy_stat sy kpath \<noteq> StatOk then None
      else case sy_run sy [''file'', kpath] of (False, out) \<Rightarrow> None | (True, out) \<Rightarrow> kBuildNum out kpath)"

definition compareKernelVersions :: "system \<Rightarrow> string \<Rightarrow> string \<Rightarrow> string" where
  "compareKernelVersions sy kernel1 kernel2 =
     (case getKBuild sy kernel1 of
        None \<Rightarrow> kernel2
      | Some ver1 \<Rightarrow>
          (case getKBuild sy kernel2 of
             None \<Rightarrow> kernel1
           | Some ver2 \<Rightarrow> if ver2 = ver1 then [] else if ver2 < ver1 then kernel1 else kernel2))"

definition useLatestKernel :: "system \<Rightarrow> Stringer option \<Rightarrow> Filesystem \<Rightarrow> Filesystem \<Rightarrow> fsworld \<Rightarrow> fsworld" where
  "useLatestKernel sy impl target recov w =
     (let imgKernel = path_Join [fs_Path target, ''boot'', st_BootKernel (strs_of impl)];
          recoveryKernel = path_Join [fs_Path recov, st_BootKernel (strs_of impl)];
          newer = compareKernelVersions sy imgKernel recoveryKernel
      in if sy_env sy K_OVERRIDE \<noteq> ''recovery'' \<and> newer = [] then w
         else if sy_env sy K_OVERRIDE \<noteq> ''recovery'' \<and> newer = imgKernel then did (Copied imgKernel recoveryKernel) w
         else did (Copied recoveryKernel imgKernel) w)"

section \<open>The file system to install to\<close>

definition data_opts :: "Variant \<Rightarrow> string" where
  "data_opts platform = ''auto,relatime'' @ (if vSSD platform then '',discard'' else [])"

text \<open>\<open>CreateArray\<close>; the command also reads a confirming answer.\<close>

definition CreateArray :: "system \<Rightarrow> RDisk list \<Rightarrow> string \<Rightarrow> Variant \<Rightarrow> fsworld \<Rightarrow> (Filesystem \<times> fsworld) fatal" where
  "CreateArray sy disks host platform w =
     (let md = new_fs\<lparr>fs_blkdev := ''/dev/md0'', fs_mountPoint := ''/mnt/md0'', fs_mountOpts := data_opts platform\<rparr>;
          argv = [''mdadm'', ''--create'', ''/dev/md0'', ''--homehost'', host, ''-l'', ''raid'' @ show_int (RaidLevel platform),
                  ''-n'', show_dec (length disks)] @ map TargetDev disks
      in if fst (sy_run sy argv) then Ok (md, did (Ran argv) w) else Fatal)"

definition CreateNonArray :: "RDisk \<Rightarrow> Variant \<Rightarrow> Filesystem" where
  "CreateNonArray d platform =
     new_fs\<lparr>fs_blkdev := TargetDev d, fs_mountPoint := ''/mnt/'' @ rk_identifier d @ show_int (rk_target d),
            fs_mountOpts := data_opts platform\<rparr>"

section \<open>Boot partitions\<close>

definition bootTgt :: "int \<Rightarrow> int" where "bootTgt i = (if i = 1 then 2 else 1)"

definition boot_part :: "Variant \<Rightarrow> RDisk \<Rightarrow> Filesystem" where
  "boot_part platform d =
     (let bdev = rk_identifier d @ show_int (bootTgt (rk_target d))
      in new_fs\<lparr>fs_blkdev := path_Join [''/dev'', bdev], fs_mountPoint := path_Join [''/mnt'', bdev], fs_mountType := ''ext3'',
                fs_mountOpts := ''noauto,relatime,noexec'' @ (if vSSD platform then '',discard'' else [])\<rparr>)"

fun write_boot_parts ::
    "system \<Rightarrow> Stringer option \<Rightarrow> string \<Rightarrow> Filesystem \<Rightarrow> Variant \<Rightarrow> nat \<Rightarrow> RDisk list \<Rightarrow> fsworld \<Rightarrow> (Filesystem list \<times> fsworld) fatal" where
  "write_boot_parts sy impl conf target platform i [] w = Ok ([], w)"
| "write_boot_parts sy impl conf target platform i (d # ds) w =
     (case Format sy (''boot'' @ show_dec i) (boot_part platform d) w of (r, b, w1) \<Rightarrow>
        fbind (fs_Mount sy b w1) (\<lambda>(b1, w2).
          fbind (InstallGrub4Dos sy impl b1
                   (copy2boot (st_BootKernel (strs_of impl)) b1 target (did (Wrote (path_Join [fs_Path b1, hddBootFile]) conf) w2))) (\<lambda>w3.
            fbind (write_boot_parts sy impl conf target platform (i + 1) ds w3) (\<lambda>(bs, w4). Ok (b1 # bs, w4)))))"

definition WriteLegacyBootParts ::
    "system \<Rightarrow> Stringer option \<Rightarrow> RDisk list \<Rightarrow> Filesystem \<Rightarrow> Filesystem \<Rightarrow> Variant \<Rightarrow> string \<Rightarrow> fsworld
     \<Rightarrow> (Filesystem list \<times> fsworld) fatal" where
  "WriteLegacyBootParts sy impl disks target recov platform extraOpts w =
     (let extra = (if extraOpts \<noteq> [] then '' '' @ extraOpts else []) @ (if FamilyName platform = ''qemu'' then '' console=ttyS0 console=tty0'' else [])
      in case finalizeGrubConf sy impl (Fsid target) extra of
           Panics \<Rightarrow> Panicked
         | Returns conf \<Rightarrow> write_boot_parts sy impl conf target platform 0 disks (useLatestKernel sy impl target recov w))"

definition MakeBootable ::
    "system \<Rightarrow> firmware \<Rightarrow> bool \<Rightarrow> Stringer option \<Rightarrow> RDisk list \<Rightarrow> Filesystem \<Rightarrow> Filesystem \<Rightarrow> Variant \<Rightarrow> string
     \<Rightarrow> fsworld \<times> BootEntryVar list \<Rightarrow> (Filesystem list \<times> fsworld \<times> BootEntryVar list) fatal" where
  "MakeBootable sy fm uefi impl disks mainFS recov platform extraOpts s =
     (if uefi then ConfigUEFIBoot sy fm impl recov None False extraOpts s
      else case s of (w, es) \<Rightarrow>
        fbind (WriteLegacyBootParts sy impl disks mainFS recov platform extraOpts w) (\<lambda>(ps, w1). Ok (ps, w1, es)))"

section \<open>Copying with progress, the model's name\<close>

datatype read_end = RNone | REof | RError
datatype copy_error = CShortWrite | CWrite | CRead

text \<open>\<open>IOCopy\<close> on the answers of the reader; the writer, which has taken the first bytes so far, answers with how
  many more it takes and whether it succeeded.  Without an end the copy goes on, \<open>None\<close>.\<close>

fun IOCopy :: "(bytes \<Rightarrow> bytes \<Rightarrow> nat \<times> bool) \<Rightarrow> (bytes \<times> read_end) list \<Rightarrow> bytes \<Rightarrow> nat list \<Rightarrow> (bytes \<times> nat list \<times> copy_error option) option" where
  "IOCopy wr [] written progress = None"
| "IOCopy wr ((buf, er) # rs) written progress =
     (let nw = (if buf = [] then 0 else fst (wr written buf));
          ok = (buf = [] \<or> snd (wr written buf));
          written1 = written @ take nw buf;
          progress1 = (if 0 < nw then progress @ [length written1] else progress)
      in if \<not> ok then Some (written1, progress1, Some CWrite)
         else if nw \<noteq> length buf then Some (written1, progress1, Some CShortWrite)
         else if er = REof then Some (written1, progress1, None)
         else if er = RError then Some (written1, progress1, Some CRead)
         else IOCopy wr rs written1 progress1)"

definition altIdent_Read :: "(string \<Rightarrow> string option) \<Rightarrow> string \<Rightarrow> string" where
  "altIdent_Read readfile recov =
     TrimSpace (case readfile (path_Join [recov, ''platform.ident'']) of None \<Rightarrow> [] | Some d \<Rightarrow> d)"

definition altIdent_Write :: "string \<Rightarrow> string \<Rightarrow> string \<times> string" where
  "altIdent_Write recov plat = (path_Join [recov, ''platform.ident''], TrimSpace plat)"

definition PlatIdentFromRecovery ::
    "system \<Rightarrow> (string \<Rightarrow> string option) \<Rightarrow> Stringer option \<Rightarrow> bool \<Rightarrow> fsworld \<Rightarrow> (string option \<times> fsworld) fatal" where
  "PlatIdentFromRecovery sy readfile impl appeared w =
     (if \<not> appeared then Ok (None, w)
      else case sy_resolve sy (''/dev/disk/by-label/'' @ st_RecVolName (strs_of impl)) of
             None \<Rightarrow> Ok (None, w)
           | Some dev \<Rightarrow>
               fbind (fs_Mount sy (SetMountpoint ''/mnt/r'' (ExistingFs dev ''ntfs,vfat,ext4'' ''ro'' False)) (did (MadeDir ''/mnt/r'') w))
                 (\<lambda>(fs, w1).
                    let content = altIdent_Read readfile ''/mnt/r''; w2 = snd (Umount sy fs w1)
                    in Ok (if content = [] then None else Some content, w2)))"


section \<open>Entries are complete\<close>

text \<open>What is missing is added, before or after our entries are removed.\<close>

lemma ConfigUEFIBoot_complete:
  assumes "\<And>b es es'. fm_add fm (efi_command b) es = Some es' \<Longrightarrow> set es \<subseteq> set es' \<and> has_label (e_Label b) es'"
    and "ConfigUEFIBoot sy fm impl recov given overwrite extra (w, es) = Ok (ps, w1, es1)"
  shows "CheckMissing es1 = (True, True, True) \<and> (OursPresent es \<and> \<not> overwrite \<longrightarrow> es1 = es)
    \<and> (\<exists>esp. ps = [esp] \<and> fs_mounted esp \<and> fs_mountPoint esp = path_Join [fs_mountPoint recov, ''ESP''])"
proof -
  define e0 where "e0 = (case given of Some e \<Rightarrow> e | None \<Rightarrow> esp_fs recov)"
  obtain esp1 wm where m: "fs_Mount sy e0 (did (MadeDir (fs_mountPoint e0)) w) = Ok (esp1, wm)"
    and ps: "ps = [SetMountpoint (path_Join [fs_mountPoint recov, ''ESP'']) esp1]"
    and es1: "if \<not> overwrite \<and> OursPresent es then es1 = es
      else fix_entries sy fm impl (fs_blkdev (SetMountpoint (path_Join [fs_mountPoint recov, ''ESP'']) esp1)) extra
             (if overwrite then remove_ours fm es else es) = Ok es1"
    using assms(2) by (auto simp: ConfigUEFIBoot_def Let_def e0_def split: if_splits)
  have mtd: "fs_mounted esp1"
    using m by (auto simp: fs_Mount_def MountErr_def Let_def split: if_splits prod.splits bool.splits)
  have p: "CheckMissing es = (True, True, True)" if "OursPresent es"
  proof -
    have "has_label BootLabelNorm (Ours es) \<and> has_label BootLabelFR (Ours es) \<and> has_label BootLabelErase (Ours es)"
      using that by (auto simp: OursPresent_def CheckMissing_labels Let_def split: if_splits)
    then show ?thesis
      by (auto simp: CheckMissing_labels has_label_def Ours_def)
  qed
  have "CheckMissing es1 = (True, True, True)"
  proof (cases "\<not> overwrite \<and> OursPresent es")
    case True
    then show ?thesis using es1 p by simp
  next
    case False
    then obtain b es0 where "FixMissing (fm_add fm) impl es0 b extra es0 = Some es1"
      using es1 by (auto simp: fix_entries_def Let_def split: if_splits prod.splits option.splits)
    from FixMissing_adds [OF assms(1) this] show ?thesis by blast
  qed
  moreover have "fs_mounted (hd ps) \<and> fs_mountPoint (hd ps) = path_Join [fs_mountPoint recov, ''ESP'']"
    using mtd by (simp add: ps SetMountpoint_def Let_def)
  ultimately show ?thesis
    using es1 by (auto simp: ps)
qed


definition example_firmware :: firmware where
  "example_firmware = \<lparr>fm_add = example_efibootmgr, fm_remove = (\<lambda>n es. Some (filter (\<lambda>e. b_Number e \<noteq> n) es))\<rparr>"


text \<open>The partition is read off the last character of the name, so two-digit numbers and names with a separator
  come out wrong.\<close>

lemma esp_location_one_digit: "0 < n \<Longrightarrow> n < 10 \<Longrightarrow> esp_location (d @ show_dec n) = (d, Some n)"
proof -
  assume n: "0 < n" "n < 10"
  have s: "show_dec n = [hex_digit n]"
    using n by (subst show_dec.simps) simp
  then have "ParseUint10 8 [hex_digit n] = Some n"
    using ParseUint10_show [of n 8] n by simp
  with s show ?thesis by (simp add: esp_location_def)
qed

lemma esp_location_wrong:
  "esp_location ''/dev/sda12'' = (''/dev/sda1'', Some 2)" "esp_location ''/dev/nvme0n1p1'' = (''/dev/nvme0n1p'', Some 1)"
  by code_simp+

section \<open>Boot files\<close>

text \<open>The built-in boot files can always be filled, whatever the names, identifiers and options.\<close>

theorem default_boot_files_fill: "list_all (\<lambda>t. processTemplate bd t \<noteq> None) [defaultHdd, defaultFallback, defaultMenu]"
proof -
  let ?e = "\<lparr>bd_Root_uuid = [], bd_Extra_opts = [], bd_Kernel = [], bd_HddFile = [], bd_FallFile = []\<rparr>"
  have "processTemplate bd t = None \<longleftrightarrow> processTemplate ?e t = None" for t
    unfolding processTemplate_def by (rule fill_fields) (simp add: bd_field_def)
  moreover have "processTemplate ?e defaultHdd \<noteq> None" "processTemplate ?e defaultFallback \<noteq> None" "processTemplate ?e defaultMenu \<noteq> None"
    by code_simp+
  ultimately show ?thesis
    by simp
qed

text \<open>Without any of the environment variables the argument \<open>quiet\<close> is lost.\<close>

lemma fixupGrub_drops_quiet: "fixupGrub (\<lambda>v. []) None ''kernel /norm_boot quiet'' = ''kernel /norm_boot ''"
  by code_simp


section \<open>The newer kernel is kept\<close>

lemma contains_prefix: "contains (p @ s) p"
  unfolding contains_iff by (metis append_Nil)

text \<open>The build number is read from what \<open>file\<close> prints for a kernel.\<close>

lemma index_of_blank: "CHR '' '' \<notin> set a \<Longrightarrow> index_of '' '' (a @ CHR '' '' # b) = Some (length a)"
  by (induction a) (auto simp: has_prefix_def)

lemma kBuildNum_reads:
  assumes "CHR ''#'' \<notin> set v" "CHR ''#'' \<notin> set rest" "n < 2 ^ 64" "rest \<noteq> []" "\<not> is_space (last rest)"
  shows "kBuildNum (kpath @ '':'' @ '' Linux kernel x86 boot executable'' @ v @ ''#'' @ show_dec n @ '' '' @ rest) kpath = Some n"
proof -
  define body where "body = ''Linux kernel x86 boot executable'' @ v @ ''#'' @ show_dec n @ '' '' @ rest"
  obtain r c where rest: "rest = r @ [c]"
    using assms(4) by (cases rest rule: rev_cases) auto
  have t: "TrimSpace (CHR '' '' # body) = body"
  proof -
    have "dropWhile is_space (CHR '' '' # body) = body"
      by (simp add: body_def is_space_def)
    moreover have "dropWhile is_space (rev body) = rev body"
      using assms(5) by (simp add: body_def rest)
    ultimately show ?thesis
      by (simp add: TrimSpace_def)
  qed
  have d: "CHR ''#'' \<notin> set (show_dec n)" "CHR '' '' \<notin> set (show_dec n)"
    using show_dec_chars by fastforce+
  define pre where "pre = ''Linux kernel x86 boot executable'' @ v"
  have pre: "CHR ''#'' \<notin> set pre"
    using assms(1) by (simp add: pre_def)
  have post: "CHR ''#'' \<notin> set (show_dec n @ '' '' @ rest)"
    using assms(2) d(1) by simp
  have "body = pre @ CHR ''#'' # show_dec n @ '' '' @ rest"
    by (simp add: body_def pre_def)
  then have s: "split_on CHR ''#'' body = [pre, show_dec n @ '' '' @ rest]"
    by (simp only: split_on_append [OF pre] split_on_no_sep [OF post])
  have i: "index_of '' '' (show_dec n @ '' '' @ rest) = Some (length (show_dec n))"
    using index_of_blank [OF d(2)] by simp
  have c: "contains body ''Linux kernel x86 boot executable''"
    unfolding body_def by (rule contains_prefix)
  have p: "trim_prefix (kpath @ '':'') (kpath @ '':'' @ '' Linux kernel x86 boot executable'' @ v @ ''#'' @ show_dec n @ '' '' @ rest) = CHR '' '' # body"
    using trim_prefix_append [of "kpath @ '':''" "CHR '' '' # body"] by (simp add: body_def)
  show ?thesis
    unfolding kBuildNum_def Let_def p t using c s i assms(3) by simp
qed

text \<open>Of two kernels whose builds are known the older one is replaced by the newer one; equal ones are left alone.\<close>

theorem useLatestKernel_keeps_newer:
  fixes sy impl target recov
  defines "img \<equiv> path_Join [fs_Path target, ''boot'', st_BootKernel (strs_of impl)]"
    and "rec \<equiv> path_Join [fs_Path recov, st_BootKernel (strs_of impl)]"
  assumes "getKBuild sy img = Some vi" "getKBuild sy rec = Some vr" "sy_env sy K_OVERRIDE \<noteq> ''recovery''" "img \<noteq> []" "rec \<noteq> []" "img \<noteq> rec"
  shows "fw_did (useLatestKernel sy impl target recov w) =
    fw_did w @ (if vr < vi then [Copied img rec] else if vi < vr then [Copied rec img] else [])"
  using assms by (auto simp: useLatestKernel_def compareKernelVersions_def Let_def did_def)

definition example_builds :: system where
  "example_builds = example_system\<lparr>sy_run := (\<lambda>argv. (True, argv ! 1 @ '': Linux kernel x86 boot executable bzImage, version 5 #''
      @ (if argv ! 1 = ''/mnt/recov/norm_boot'' then ''9'' else ''10'') @ '' SMP, RO''))\<rparr>"

lemma useLatestKernel_keeps_newer_witness:
  "fw_did (useLatestKernel example_builds None (example_fs\<lparr>fs_mounted := True\<rparr>)
      (example_fs\<lparr>fs_mounted := True, fs_mountPoint := ''/mnt/recov''\<rparr>) example_world)
   = [Copied ''/mnt/md0/boot/norm_boot'' ''/mnt/recov/norm_boot'']"
proof -
  let ?t = "example_fs\<lparr>fs_mounted := True\<rparr>" and ?r = "example_fs\<lparr>fs_mounted := True, fs_mountPoint := ''/mnt/recov''\<rparr>"
  have p: "path_Join [fs_Path ?t, ''boot'', st_BootKernel (strs_of None)] = ''/mnt/md0/boot/norm_boot''"
    "path_Join [fs_Path ?r, st_BootKernel (strs_of None)] = ''/mnt/recov/norm_boot''"
    by code_simp+
  have d: "show_dec 10 = ''10''" "show_dec 9 = ''9''"
    by code_simp+
  have k: "getKBuild example_builds ''/mnt/md0/boot/norm_boot'' = Some 10"
    "getKBuild example_builds ''/mnt/recov/norm_boot'' = Some 9"
    using kBuildNum_reads [of "'' bzImage, version 5 ''" "''SMP, RO''" 10 "''/mnt/md0/boot/norm_boot''"]
      kBuildNum_reads [of "'' bzImage, version 5 ''" "''SMP, RO''" 9 "''/mnt/recov/norm_boot''"]
    by (simp_all add: getKBuild_def example_builds_def example_system_def d is_space_def)
  have "fw_did (useLatestKernel example_builds None ?t ?r example_world) =
    fw_did example_world @ (if (9::nat) < 10 then [Copied ''/mnt/md0/boot/norm_boot'' ''/mnt/recov/norm_boot'']
      else if 10 < (9::nat) then [Copied ''/mnt/recov/norm_boot'' ''/mnt/md0/boot/norm_boot''] else [])"
    using useLatestKernel_keeps_newer [of example_builds ?t None 10 ?r 9 example_world, unfolded p, OF k]
    by (simp add: example_builds_def example_system_def)
  then show ?thesis by (simp add: example_world_def)
qed

section \<open>Copies are complete\<close>

text \<open>C8: a copy takes the data in order; if it ends without an error, all data up to the end of the input was taken.
  The progress reported never goes back.\<close>

theorem IOCopy_complete:
  assumes "IOCopy wr rs written progress = Some (out, ps, e)" "list_all (\<lambda>n. n \<le> length written) progress" "sorted progress"
  shows "\<exists>k < length rs. (e = None \<longrightarrow> snd (rs ! k) = REof \<and> out = written @ concat (map fst (take (k + 1) rs)))
     \<and> (\<exists>m. out = written @ take m (concat (map fst (take (k + 1) rs))))
     \<and> sorted ps \<and> list_all (\<lambda>n. n \<le> length out) ps"
  using assms
proof (induction wr rs written progress rule: IOCopy.induct)
  case (2 wr buf er rs written progress)
  define nw where "nw = (if buf = [] then 0 else fst (wr written buf))"
  define out1 where "out1 = written @ take nw buf"
  define ps1 where "ps1 = (if 0 < nw then progress @ [length out1] else progress)"
  have ps1: "list_all (\<lambda>n. n \<le> length out1) ps1" "sorted ps1"
    using 2(3,4) by (auto simp: ps1_def out1_def list_all_iff sorted_append le_SucI trans_le_add1)
  have r: "IOCopy wr ((buf, er) # rs) written progress =
      (if \<not> (buf = [] \<or> snd (wr written buf)) then Some (out1, ps1, Some CWrite)
       else if nw \<noteq> length buf then Some (out1, ps1, Some CShortWrite)
       else if er = REof then Some (out1, ps1, None)
       else if er = RError then Some (out1, ps1, Some CRead)
       else IOCopy wr rs out1 ps1)"
    by (simp add: nw_def out1_def ps1_def Let_def)
  show ?case
  proof (cases "(buf = [] \<or> snd (wr written buf)) \<and> nw = length buf \<and> er = RNone")
    case True
    then have o1: "out1 = written @ buf"
      by (simp add: out1_def)
    have ih: "IOCopy wr rs out1 ps1 = Some (out, ps, e)"
      using 2(2) True unfolding r by (auto split: if_splits)
    have "\<exists>k<length rs. (e = None \<longrightarrow> snd (rs ! k) = REof \<and> out = out1 @ concat (map fst (take (k + 1) rs)))
        \<and> (\<exists>m. out = out1 @ take m (concat (map fst (take (k + 1) rs)))) \<and> sorted ps \<and> list_all (\<lambda>n. n \<le> length out) ps"
      by (rule 2(1) [OF refl refl refl refl, folded nw_def, folded out1_def, folded ps1_def]) (use True ih ps1 in auto)
    then obtain k m where k: "k < length rs" "e = None \<longrightarrow> snd (rs ! k) = REof \<and> out = out1 @ concat (map fst (take (k + 1) rs))"
      "out = out1 @ take m (concat (map fst (take (k + 1) rs)))" "sorted ps" "list_all (\<lambda>n. n \<le> length out) ps"
      by blast
    have "out = written @ take (length buf + m) (concat (map fst (take (Suc k + 1) ((buf, er) # rs))))"
      using k(3) by (simp add: o1)
    moreover have "e = None \<longrightarrow> snd (((buf, er) # rs) ! Suc k) = REof \<and> out = written @ concat (map fst (take (Suc k + 1) ((buf, er) # rs)))"
      using k(2) by (simp add: o1)
    ultimately show ?thesis
      using k(1,4,5) by (intro exI [of _ "Suc k"] conjI exI [of _ "length buf + m"]) simp_all
  next
    case False
    then have e: "out = out1" "ps = ps1" "e = None \<longrightarrow> er = REof \<and> nw = length buf"
      using 2(2) unfolding r by (cases er; auto split: if_splits)+
    show ?thesis
      by (rule exI [of _ 0]) (use e ps1 in \<open>auto simp: out1_def\<close>)
  qed
qed simp

lemma IOCopy_complete_witness:
  "\<exists>out ps. IOCopy (\<lambda>w b. (length b, True)) [([1, 2], RNone), ([3], REof)] [] [] = Some (out, ps, None) \<and> out = [1, 2, 3] \<and> sorted ps"
proof -
  have r: "IOCopy (\<lambda>w b. (length b, True)) [([1, 2], RNone), ([3], REof)] [] [] = Some ([1, 2, 3], [2, 3], None)"
    by simp
  from IOCopy_complete [OF r] r show ?thesis by auto
qed

end
