(* ===== verification/MfgData.thy ===== *)
theory MfgData
  imports Xfer MfgStep RecBoot QaSpecs
begin

text \<open>
  Data of manufacturing (\<open>pkg/mfg/mdata\<close>): where the files of the recovery volume go, and how they are written;
  the flags of test runs (\<open>pkg/mfg/mfgflags\<close>); setting the time (\<open>pkg/mfg/time.go\<close>); wiping the main disks.
\<close>

section \<open>Destinations\<close>

definition isImage :: "Stringer option \<Rightarrow> string \<Rightarrow> bool" where
  "isImage impl name \<longleftrightarrow> has_prefix name (st_ImgPrefix (strs_of impl)) \<and> has_suffix name ''.upd''"

text \<open>\<open>checkDest\<close>: \<open>False\<close> is the fatal error.\<close>

definition checkDest :: "string \<Rightarrow> bool" where
  "checkDest d =
     (let d1 = dropWhile (\<lambda>c. c = CHR ''/'') d
      in has_prefix d1 ''Image/'' \<or> \<not> has_prefix (ascii_lower d1) ''image/'')"

text \<open>The destination of a file, and the link that has to be made for it.\<close>

definition file_dest :: "Stringer option \<Rightarrow> bool \<Rightarrow> string \<Rightarrow> TVFile \<Rightarrow> string \<times> (string \<times> string) option" where
  "file_dest impl uefi rdir f =
     (let base = Basename f
      in if tv_Dest f = []
         then
           (if isImage impl base then (path_Join [rdir, ''Image'', base], None)
            else if base = st_BootKernel (strs_of impl) \<and> uefi
            then (path_Join [rdir, ''ESP'', base], Some (path_Join [''ESP'', base], path_Join [rdir, base]))
            else (path_Join [rdir, base], None))
         else if hd (tv_Dest f) \<noteq> CHR ''/'' then (path_Join [rdir, tv_Dest f], None)
         else (tv_Dest f, None))"

text \<open>What the outside answers while one file is written.\<close>

record file_answers =
  fa_symlink :: bool
  fa_temp :: "string option"
  fa_responses :: "nat \<Rightarrow> response"
  fa_copy :: copy_answer
  fa_removes :: bool

definition write_file ::
    "(bytes \<Rightarrow> string) \<Rightarrow> Stringer option \<Rightarrow> bool \<Rightarrow> string \<Rightarrow> file_answers \<Rightarrow> TVFile \<times> files \<Rightarrow> (TVFile \<times> files) fatal" where
  "write_file sha1 impl uefi rdir a s =
     (case s of (f, fs) \<Rightarrow>
        (case file_dest impl uefi rdir f of (dest, link) \<Rightarrow>
           if link \<noteq> None \<and> \<not> fa_symlink a then Fatal
           else if \<not> checkDest dest then Fatal
           else
             (case GetWithRetry sha1 (fa_responses a) (UseIntermediateDir (fa_temp a) ''/tmp/'' (f\<lparr>tv_Dest := dest\<rparr>) fs) of
                (False, slept, s1) \<Rightarrow> Fatal
              | (True, slept, s1) \<Rightarrow>
                  (case Finalize_file (fa_copy a) (fa_removes a) s1 of
                     (Panics, s2) \<Rightarrow> Panicked
                   | (Returns False, s2) \<Rightarrow> Fatal
                   | (Returns True, s2) \<Rightarrow> Ok s2))))"

fun write_files ::
    "(bytes \<Rightarrow> string) \<Rightarrow> Stringer option \<Rightarrow> bool \<Rightarrow> string \<Rightarrow> (TVFile \<times> file_answers) list \<Rightarrow> files \<Rightarrow> (TVFile list \<times> files) fatal" where
  "write_files sha1 impl uefi rdir [] fs = Ok ([], fs)"
| "write_files sha1 impl uefi rdir ((f, a) # rest) fs =
     fbind (write_file sha1 impl uefi rdir a (f, fs)) (\<lambda>(f1, fs1).
       fbind (write_files sha1 impl uefi rdir rest fs1) (\<lambda>(fs_done, fs2). Ok (f1 # fs_done, fs2)))"

definition WriteFiles ::
    "system \<Rightarrow> (bytes \<Rightarrow> string) \<Rightarrow> Stringer option \<Rightarrow> bool \<Rightarrow> Filesystem \<Rightarrow> (TVFile \<times> file_answers) list \<Rightarrow> files \<times> fsworld
     \<Rightarrow> (TVFile list \<times> files \<times> fsworld) fatal" where
  "WriteFiles sy sha1 impl uefi r fls s =
     (case s of (fs, w) \<Rightarrow>
        fbind (write_files sha1 impl uefi (fs_Path r) fls fs) (\<lambda>(fls1, fs1).
          if uefi then Ok (fls1, fs1, w)
          else case WriteFallbackBootMenu sy impl r w of Panics \<Rightarrow> Panicked | Returns w1 \<Rightarrow> Ok (fls1, fs1, w1)))"

definition FindImage :: "Stringer option \<Rightarrow> TVFile list \<Rightarrow> TVFile option" where
  "FindImage impl fls = find (\<lambda>f. isImage impl (Basename f)) fls"

definition FindSpecs :: "string \<Rightarrow> Specs list \<Rightarrow> Specs fatal" where
  "FindSpecs codeName vs = (case find (\<lambda>v. sp_DevCodeName v = codeName) vs of Some v \<Rightarrow> Ok v | None \<Rightarrow> Fatal)"

section \<open>Flags\<close>

definition mfg_Flag :: "string \<Rightarrow> string \<Rightarrow> bool" where "mfg_Flag env str = contains env str"

definition mfg_Verbose :: "string \<Rightarrow> bool" where "mfg_Verbose env = mfg_Flag env ''Verbose-logging''"

definition BehaviorAltered :: "string \<Rightarrow> bool" where
  "BehaviorAltered env \<longleftrightarrow> env \<noteq> [] \<and> env \<noteq> ''Verbose-logging''"

section \<open>Time\<close>

definition queryMax :: nat where "queryMax = 5"
definition maxQueries :: nat where "maxQueries = 10"

text \<open>\<open>serverTimeUTC\<close>: each query takes some seconds and yields a time; the pauses are returned too.  \<open>None\<close> is fatal.\<close>

fun time_queries :: "(nat \<times> string) list \<Rightarrow> nat \<Rightarrow> nat \<Rightarrow> nat list \<Rightarrow> (string \<times> nat list) option option" where
  "time_queries [] tries left slept = (if left = 0 then Some None else None)"
| "time_queries ((delta, t) # qs) tries left slept =
     (if left = 0 then Some None
      else if delta < queryMax then Some (Some (t, slept))
      else time_queries qs (tries + 1) (left - 1) (slept @ [5 * (tries + 1)]))"

definition serverTimeUTC :: "(nat \<times> string) list \<Rightarrow> (string \<times> nat list) option option" where
  "serverTimeUTC qs = time_queries qs 0 maxQueries []"

section \<open>The main disks\<close>

text \<open>Wiping the partition tables, unless a disk holds the recovery volume.\<close>

fun wipe_disks :: "string \<Rightarrow> RDisk list \<Rightarrow> (string \<times> nat \<times> whence) list fatal" where
  "wipe_disks recov [] = Ok []"
| "wipe_disks recov (d # ds) =
     (if has_prefix recov (rd_Device d) then Fatal
      else fbind (wipe_disks recov ds) (\<lambda>zs. Ok (Zero d 100 SeekStart # zs)))"


section \<open>What is written\<close>

text \<open>Every file of the list ends at its destination with the hash asked for, unless a later file takes the place.\<close>

lemma write_file_Ok:
  assumes "write_file sha1 impl uefi rdir a (f, fs) = Ok (f1, fs1)" "\<not> tv_finalized f" "fa_removes a"
    "fa_temp a \<noteq> Some (fst (file_dest impl uefi rdir f))" "fa_temp a \<noteq> None"
  shows "(\<exists>b. fs1 (fst (file_dest impl uefi rdir f)) = Some b \<and> sha1 b = tv_Sha1 f)
    \<and> checkDest (fst (file_dest impl uefi rdir f))
    \<and> (\<forall>p. p \<noteq> fst (file_dest impl uefi rdir f) \<longrightarrow> Some p \<noteq> fa_temp a \<longrightarrow> fs1 p = fs p)"
proof -
  obtain dest link where d: "file_dest impl uefi rdir f = (dest, link)"
    by (cases "file_dest impl uefi rdir f")
  obtain tmp where t: "fa_temp a = Some tmp"
    using assms(5) by auto
  define f0 where "f0 = f\<lparr>tv_Dest := dest, tv_useIntermediate := True, tv_intermediateFile := tmp\<rparr>"
  have u: "UseIntermediateDir (fa_temp a) ''/tmp/'' (f\<lparr>tv_Dest := dest\<rparr>) fs = (f0, fs(tmp \<mapsto> []))"
    by (simp add: UseIntermediateDir_def t f0_def)
  obtain slept f2 fs2 where g: "GetWithRetry sha1 (fa_responses a) (f0, fs(tmp \<mapsto> [])) = (True, slept, f2, fs2)"
    and c: "checkDest dest" and z: "Finalize_file (fa_copy a) True (f2, fs2) = (Returns True, f1, fs1)"
    using assms(1,3) unfolding write_file_def d u prod.case
    by (auto split: if_splits prod.splits bool.splits outcome.splits)
  note gg = get_retries_True [OF g [unfolded GetWithRetry_def]]
  obtain fs3 where cp: "CopyFile (fa_copy a) tmp dest fs2 = (True, fs3)" and f1: "fs1 = fs3(tmp := None)"
    using z gg by (auto simp: Finalize_file_def f0_def split: if_splits prod.splits)
  have "tmp \<noteq> dest"
    using assms(4) by (simp add: d t)
  then have "fs3 = fs2(dest := fs2 tmp)"
    using cp by (auto simp: CopyFile_def copyFileI_def Let_def min_def split: option.splits if_splits)
  then show ?thesis
    using gg f1 c \<open>tmp \<noteq> dest\<close> by (auto simp: d t f0_def get_dest_def)
qed

definition dest_of :: "Stringer option \<Rightarrow> bool \<Rightarrow> string \<Rightarrow> TVFile \<Rightarrow> string" where
  "dest_of impl uefi rdir f = fst (file_dest impl uefi rdir f)"

text \<open>The temporary files have names of their own.\<close>

definition temps_apart :: "Stringer option \<Rightarrow> bool \<Rightarrow> string \<Rightarrow> (TVFile \<times> file_answers) list \<Rightarrow> bool" where
  "temps_apart impl uefi rdir fls \<longleftrightarrow>
     list_all (\<lambda>(f, a). \<not> tv_finalized f \<and> fa_removes a \<and> fa_temp a \<noteq> None
       \<and> list_all (\<lambda>(g, b). fa_temp a \<noteq> Some (dest_of impl uefi rdir g)) fls) fls"

lemma write_files_Ok:
  "write_files sha1 impl uefi rdir fls fs = Ok (fls1, fs1) \<Longrightarrow>
   list_all (\<lambda>(f, a). \<not> tv_finalized f \<and> fa_removes a \<and> fa_temp a \<noteq> None) fls \<Longrightarrow>
   list_all (\<lambda>(f, a). list_all (\<lambda>d. fa_temp a \<noteq> Some d) ds) fls \<Longrightarrow>
   set (map (dest_of impl uefi rdir \<circ> fst) fls) \<subseteq> set ds \<Longrightarrow> distinct (map (dest_of impl uefi rdir \<circ> fst) fls) \<Longrightarrow>
   list_all (\<lambda>(f, a). (\<exists>b. fs1 (dest_of impl uefi rdir f) = Some b \<and> sha1 b = tv_Sha1 f) \<and> checkDest (dest_of impl uefi rdir f)) fls
   \<and> (\<forall>p \<in> set ds. p \<notin> set (map (dest_of impl uefi rdir \<circ> fst) fls) \<longrightarrow> fs1 p = fs p)"
proof (induction fls arbitrary: fs fls1 fs1)
  case (Cons x fls)
  obtain f a where x: "x = (f, a)" by (cases x)
  obtain f1 fs2 fls2 where w: "write_file sha1 impl uefi rdir a (f, fs) = Ok (f1, fs2)"
    and ws: "write_files sha1 impl uefi rdir fls fs2 = Ok (fls2, fs1)"
    using Cons.prems(1) by (auto simp: x)
  have t: "fa_temp a \<noteq> Some (fst (file_dest impl uefi rdir f))" "\<forall>d \<in> set ds. fa_temp a \<noteq> Some d"
    using Cons.prems(3,4) by (auto simp: x list_all_iff dest_of_def)
  have o: "\<not> tv_finalized f" "fa_removes a" "fa_temp a \<noteq> None"
    using Cons.prems(2) by (simp_all add: x)
  note f = write_file_Ok [OF w o(1,2) t(1) o(3), folded dest_of_def]
  have ih: "list_all (\<lambda>(f, a). (\<exists>b. fs1 (dest_of impl uefi rdir f) = Some b \<and> sha1 b = tv_Sha1 f) \<and> checkDest (dest_of impl uefi rdir f)) fls
     \<and> (\<forall>p \<in> set ds. p \<notin> set (map (dest_of impl uefi rdir \<circ> fst) fls) \<longrightarrow> fs1 p = fs2 p)"
    by (rule Cons.IH [OF ws]) (use Cons.prems in \<open>simp_all add: x\<close>)
  have d: "dest_of impl uefi rdir f \<in> set ds" "dest_of impl uefi rdir f \<notin> set (map (dest_of impl uefi rdir \<circ> fst) fls)"
    using Cons.prems(4,5) by (simp_all add: x)
  have "fs1 p = fs p" if "p \<in> set ds" "p \<notin> set (map (dest_of impl uefi rdir \<circ> fst) (x # fls))" for p
  proof -
    have "fs1 p = fs2 p"
      using ih that by simp
    moreover have "fs2 p = fs p"
      using f that t(2) by (auto simp: x)
    ultimately show ?thesis by simp
  qed
  then show ?case
    using ih f d by (simp add: x)
qed simp

text \<open>After the files of the recovery volume are written, each of them is at its destination with the hash that was
  asked for, and no destination differs from the image directory only by case.\<close>

theorem WriteFiles_verified:
  assumes "WriteFiles sy sha1 impl uefi r fls (fs, w) = Ok (fls1, fs1, w1)"
    and "temps_apart impl uefi (fs_Path r) fls" "distinct (map (dest_of impl uefi (fs_Path r) \<circ> fst) fls)"
  shows "list_all (\<lambda>(f, a). (\<exists>b. fs1 (dest_of impl uefi (fs_Path r) f) = Some b \<and> sha1 b = tv_Sha1 f)
     \<and> checkDest (dest_of impl uefi (fs_Path r) f)) fls"
proof -
  have w: "write_files sha1 impl uefi (fs_Path r) fls fs = Ok (fls1, fs1)"
    using assms(1) by (auto simp: WriteFiles_def split: if_splits outcome.splits)
  have a: "list_all (\<lambda>(f, a). \<not> tv_finalized f \<and> fa_removes a \<and> fa_temp a \<noteq> None) fls"
    "list_all (\<lambda>(f, a). list_all (\<lambda>d. fa_temp a \<noteq> Some d) (map (dest_of impl uefi (fs_Path r) \<circ> fst) fls)) fls"
    using assms(2) by (fastforce simp: temps_apart_def list_all_iff)+
  from write_files_Ok [OF w a _ assms(3)] show ?thesis by simp
qed

definition example_answers :: file_answers where
  "example_answers = \<lparr>fa_symlink = True, fa_temp = Some ''/tmp/f1'', fa_responses = (\<lambda>i. Body [1] True),
     fa_copy = \<lparr>ca_open = True, ca_copied = Some 1, ca_chmod = True, ca_chtimes = True\<rparr>, fa_removes = True\<rparr>"

lemma WriteFiles_verified_witness:
  "\<exists>fls1 fs1 w1. WriteFiles example_system (\<lambda>b. ''aa'') None True (example_fs\<lparr>fs_mounted := True\<rparr>)
      [(new_TVFile [] ''http://h/WIDGET.LNX.SHINY.1.upd'' ''aa'', example_answers)] (Map.empty, example_world) = Ok (fls1, fs1, w1)
    \<and> fs1 ''/mnt/md0/Image/WIDGET.LNX.SHINY.1.upd'' \<noteq> None"
proof -
  let ?f = "new_TVFile [] ''http://h/WIDGET.LNX.SHINY.1.upd'' ''aa''" and ?r = "example_fs\<lparr>fs_mounted := True\<rparr>"
  have p: "fs_Path ?r = ''/mnt/md0''"
    by code_simp
  have d: "file_dest None True ''/mnt/md0'' ?f = (''/mnt/md0/Image/WIDGET.LNX.SHINY.1.upd'', None)"
    by code_simp
  have c: "checkDest ''/mnt/md0/Image/WIDGET.LNX.SHINY.1.upd''" "is_url ''http://h/WIDGET.LNX.SHINY.1.upd''"
    by code_simp+
  let ?d = "''/mnt/md0/Image/WIDGET.LNX.SHINY.1.upd''" and ?fs = "Map.empty(''/tmp/f1'' \<mapsto> [1 :: u8])"
  let ?tmpf = "?f\<lparr>tv_Dest := ?d, tv_useIntermediate := True, tv_intermediateFile := ''/tmp/f1''\<rparr>"
  have u: "UseIntermediateDir (fa_temp example_answers) ''/tmp/'' (?f\<lparr>tv_Dest := ?d\<rparr>) Map.empty = (?tmpf, Map.empty(''/tmp/f1'' \<mapsto> []))"
    by (simp add: UseIntermediateDir_def example_answers_def)
  have g: "GetWithRetry (\<lambda>b. ''aa'') (fa_responses example_answers) (?tmpf, Map.empty(''/tmp/f1'' \<mapsto> [])) = (True, [], ?tmpf\<lparr>tv_mode := 438\<rparr>, ?fs)"
    using c(2) by (simp add: GetWithRetry_def numeral_eq_Suc tv_Get_def Let_def new_TVFile_def tv_verify_def get_dest_def example_answers_def)
  have z: "Finalize_file (fa_copy example_answers) (fa_removes example_answers) (?tmpf\<lparr>tv_mode := 438\<rparr>, ?fs) =
      (Returns True, ?tmpf\<lparr>tv_mode := 438, tv_finalized := True\<rparr>, ?fs(?d \<mapsto> [1], ''/tmp/f1'' := None))"
    by (simp add: Finalize_file_def current_file_def new_TVFile_def CopyFile_def copyFileI_def Let_def example_answers_def)
  have "\<exists>fls1 fs1. write_files (\<lambda>b. ''aa'') None True ''/mnt/md0'' [(?f, example_answers)] Map.empty = Ok (fls1, fs1)"
    unfolding write_files.simps write_file_def d prod.case u g z using c(1) by simp
  then obtain fls1 fs1 where "WriteFiles example_system (\<lambda>b. ''aa'') None True ?r [(?f, example_answers)] (Map.empty, example_world) = Ok (fls1, fs1, example_world)"
    by (auto simp: WriteFiles_def p)
  moreover have "temps_apart None True (fs_Path ?r) [(?f, example_answers)]"
    by (simp add: temps_apart_def dest_of_def p d example_answers_def) (simp add: new_TVFile_def)
  moreover have "distinct (map (dest_of None True (fs_Path ?r) \<circ> fst) [(?f, example_answers)])"
    by simp
  ultimately show ?thesis
    using WriteFiles_verified [of example_system "\<lambda>b. ''aa''" None True ?r "[(?f, example_answers)]" Map.empty example_world fls1 fs1 example_world]
    by (auto simp: dest_of_def p d)
qed

section \<open>Wiping\<close>

text \<open>A disk that begins the name of the recovery device is never wiped; under its label the device is not recognised.\<close>

theorem wipe_disks_spares:
  "wipe_disks recov ds = Ok zs \<Longrightarrow> list_all (\<lambda>(dev, megs, w). \<not> has_prefix recov dev) zs"
  by (induction ds arbitrary: zs) (auto simp: Zero_def split: if_splits)

lemma wipe_by_label:
  "wipe_disks ''/dev/disk/by-label/RECOVERY'' [\<lparr>rk_identifier = ''sda'', rk_size = 0, rk_target = - 1, rk_numParts = 0\<rparr>]
   = Ok [(''/dev/sda'', 100, SeekStart)]"
  by code_simp

section \<open>The time of the server\<close>

text \<open>The time taken is the first that came fast enough, among at most ten.\<close>

lemma time_queries_first:
  "time_queries qs tries left slept = Some (Some (t, sl)) \<Longrightarrow>
   \<exists>k < left. k < length qs \<and> snd (qs ! k) = t \<and> fst (qs ! k) < queryMax \<and> (\<forall>i < k. queryMax \<le> fst (qs ! i))"
proof (induction qs tries left slept rule: time_queries.induct)
  case (2 delta t0 qs tries left slept)
  show ?case
  proof (cases "delta < queryMax")
    case True
    with 2 show ?thesis by (intro exI [of _ 0]) (auto split: if_splits)
  next
    case False
    then obtain k where k: "k < left - 1" "k < length qs" "snd (qs ! k) = t" "fst (qs ! k) < queryMax" "\<forall>i < k. queryMax \<le> fst (qs ! i)"
      using 2 by (auto split: if_splits)
    have "\<forall>i < Suc k. queryMax \<le> fst (((delta, t0) # qs) ! i)"
      using k(5) False by (auto simp: less_Suc_eq_0_disj)
    with k show ?thesis by (intro exI [of _ "Suc k"]) auto
  qed
qed (auto split: if_splits)

end
