(* ===== verification/RecConf.thy ===== *)
theory RecConf
  imports RecBoot FileOps DiskTag
begin

text \<open>
  Configuring the recovered system (\<open>pkg/recovery/configure.go\<close>): host name, hosts, machine identity, the RAID
  setting of the BIOS; and the files of the emergency mode (\<open>pkg/recovery/emode\<close>).
\<close>

section \<open>Host name\<close>

text \<open>Names are ASCII here.\<close>

definition hostify0 :: "char \<Rightarrow> char" where
  "hostify0 c =
     (let n = of_char c :: nat
      in if 65 \<le> n \<and> n \<le> 90 then char_of (n + 32)
         else if 97 \<le> n \<and> n \<le> 122 then c
         else if 48 \<le> n \<and> n \<le> 57 then c
         else CHR ''-'')"

definition Hostify :: "Stringer option \<Rightarrow> string \<Rightarrow> string" where
  "Hostify impl ident =
     (let hn = st_HostPrefix (strs_of impl) @ map hostify0 ident;
          hn1 = (if hn = [] then ''badhost'' else hn)
      in if last hn1 = CHR ''-'' then butlast hn1 @ ''0'' else hn1)"

definition alnum :: "char \<Rightarrow> bool" where
  "alnum c = (let n = of_char c :: nat in 97 \<le> n \<and> n \<le> 122 \<or> 48 \<le> n \<and> n \<le> 57)"

definition host_char :: "char \<Rightarrow> bool" where "host_char c \<longleftrightarrow> alnum c \<or> c = CHR ''-''"

lemma hostify0_host: "host_char (hostify0 c)"
proof -
  have "(of_char (char_of (n + 32) :: char) :: nat) = n + 32" if "n \<le> 90" for n :: nat
    using that by simp
  then show ?thesis
    by (auto simp: hostify0_def host_char_def alnum_def Let_def)
qed

text \<open>The host name is one letter or digit, then letters, digits and hyphens, then a letter or digit.\<close>

theorem Hostify_valid:
  fixes impl
  defines "p \<equiv> st_HostPrefix (strs_of impl)"
  assumes "2 \<le> length p" "alnum (hd p)" "list_all host_char p"
  shows "2 \<le> length (Hostify impl ident) \<and> alnum (hd (Hostify impl ident)) \<and> alnum (last (Hostify impl ident))
    \<and> list_all host_char (Hostify impl ident)"
proof -
  define hn where "hn = p @ map hostify0 ident"
  have hn: "2 \<le> length hn" "alnum (hd hn)" "list_all host_char hn" "hn \<noteq> []"
    using assms hostify0_host by (auto simp: hn_def list_all_iff hd_append)
  obtain a b where ab: "hn = a @ [b]" "a \<noteq> []"
    using hn(1,4) by (cases hn rule: rev_cases) (auto simp: Suc_le_eq)
  have h: "Hostify impl ident = (if last hn = CHR ''-'' then butlast hn @ ''0'' else hn)"
    using hn(4) by (simp add: Hostify_def Let_def hn_def p_def)
  have z: "alnum CHR ''0''" "\<not> alnum CHR ''-''"
    by (simp_all add: alnum_def)
  show ?thesis
    using hn ab z unfolding h by (auto simp: host_char_def hd_append)
qed

lemma Hostify_valid_witness:
  "Hostify None ''SN 12/'' = ''gp-sn-120'' \<and> alnum (last (Hostify None ''SN 12/''))"
proof -
  have p: "2 \<le> length (st_HostPrefix (strs_of None))" "alnum (hd (st_HostPrefix (strs_of None)))"
    "list_all host_char (st_HostPrefix (strs_of None))"
    by code_simp+
  have "Hostify None ''SN 12/'' = ''gp-sn-120''"
    by code_simp
  with Hostify_valid [OF p, of "''SN 12/''"] show ?thesis by simp
qed

section \<open>Hosts\<close>

text \<open>The expression \<open>127.0.0.1.*localhost\<close> on a line: the leftmost beginning, the last end.\<close>

definition is_lo :: "string \<Rightarrow> bool" where
  "is_lo s \<longleftrightarrow> 9 \<le> length s \<and> take 3 s = ''127'' \<and> s ! 4 = CHR ''0'' \<and> s ! 6 = CHR ''0'' \<and> s ! 8 = CHR ''1''"

definition lo_match :: "string \<Rightarrow> (nat \<times> nat) option" where
  "lo_match s =
     (case find (\<lambda>i. is_lo (drop i s) \<and> contains (drop (i + 9) s) ''localhost'') [0..<length s] of
        None \<Rightarrow> None
      | Some i \<Rightarrow>
          (case find (\<lambda>j. has_prefix (drop j s) ''localhost'') (rev [i + 9..<length s]) of
             None \<Rightarrow> None
           | Some j \<Rightarrow> Some (i, j + 9)))"

definition replace_lo :: "string \<Rightarrow> string \<Rightarrow> string" where
  "replace_lo new s = (case lo_match s of None \<Rightarrow> s | Some (i, j) \<Rightarrow> take i s @ new @ drop j s)"

definition new_hosts :: "string \<Rightarrow> string option \<Rightarrow> string" where
  "new_hosts hostName hosts =
     (let localhost = ''127.0.0.1   '' @ hostName @ '' localhost''; blocalhost = [newline] @ localhost @ [newline]
      in case hosts of
           None \<Rightarrow> blocalhost
         | Some h \<Rightarrow>
             (if list_ex (\<lambda>l. lo_match l \<noteq> None) (split_on newline h)
              then join_with [newline] (map (replace_lo localhost) (split_on newline h))
              else h @ blocalhost))"

text \<open>\<open>hostInfo\<close>: the files written; \<open>hex\<close> is the hash of the doubled serial number as text.\<close>

definition hostInfo :: "(string \<Rightarrow> string) \<Rightarrow> (string \<Rightarrow> bool) \<Rightarrow> (string \<Rightarrow> string option) \<Rightarrow> string \<Rightarrow> string \<Rightarrow> string \<Rightarrow> fsworld \<Rightarrow> fsworld" where
  "hostInfo hex creatable readfile rdir hostName serial w =
     (let w1 = (if creatable (rdir @ ''/etc/hostname'') then did (Wrote (rdir @ ''/etc/hostname'') (hostName @ [newline])) w else w);
          w2 = did (Wrote (rdir @ ''/etc/hosts'') (new_hosts hostName (readfile (rdir @ ''/etc/hosts'')))) w1;
          w3 = (if creatable (rdir @ ''/etc/machine-id'')
                then did (Wrote (rdir @ ''/etc/machine-id'') (hex (serial @ serial) @ [newline])) w2 else w2)
      in did (Linked ''/usr/share/zoneinfo/Etc/UTC'' (path_Join [rdir, ''/etc/localtime''])) (did (Removed (path_Join [rdir, ''/etc/localtime''])) w3))"

lemma contains_mid: "contains (a @ p @ b) p"
  by (auto simp: contains_iff)

lemma join_with_mid: "x \<in> set xs \<Longrightarrow> \<exists>a b. join_with sep xs = a @ x @ b"
proof (induction sep xs rule: join_with.induct)
  case (3 sep a b xs)
  show ?case
  proof (cases "x = a")
    case True
    then show ?thesis by (auto intro: exI [of _ "[]"])
  next
    case False
    with 3 obtain u v where "join_with sep (b # xs) = u @ x @ v" by auto
    then have "join_with sep (a # b # xs) = (a @ sep @ u) @ x @ v" by simp
    then show ?thesis by blast
  qed
qed (auto intro: exI [of _ "[]"])

text \<open>Whatever the file held, afterwards the host name is that of the machine itself.\<close>

theorem new_hosts_names_host: "contains (new_hosts hostName hosts) (''127.0.0.1   '' @ hostName @ '' localhost'')"
proof -
  define lh where "lh = ''127.0.0.1   '' @ hostName @ '' localhost''"
  have "contains (new_hosts hostName hosts) lh"
  proof (cases hosts)
    case None
    then have "new_hosts hostName hosts = [newline] @ lh @ [newline]"
      by (simp add: new_hosts_def lh_def)
    then show ?thesis
      by (simp only: contains_mid)
  next
    case (Some h)
    show ?thesis
    proof (cases "list_ex (\<lambda>l. lo_match l \<noteq> None) (split_on newline h)")
      case False
      with Some have "new_hosts hostName hosts = (h @ [newline]) @ lh @ [newline]"
        by (simp add: new_hosts_def lh_def)
      then show ?thesis
        by (simp only: contains_mid)
    next
      case True
      then obtain l i j where l: "l \<in> set (split_on newline h)" "lo_match l = Some (i, j)"
        by (auto simp: list_ex_iff)
      have "take i l @ lh @ drop j l \<in> set (map (replace_lo lh) (split_on newline h))"
        using l by (auto simp: replace_lo_def intro!: image_eqI [of _ _ l])
      from join_with_mid [OF this, of "[newline]"] obtain a b where
        m: "join_with [newline] (map (replace_lo lh) (split_on newline h)) = (a @ take i l) @ lh @ (drop j l @ b)"
        by auto
      have "new_hosts hostName hosts = (a @ take i l) @ lh @ (drop j l @ b)"
        using Some True unfolding m [symmetric] by (simp add: new_hosts_def lh_def)
      then show ?thesis
        by (simp only: contains_mid)
    qed
  qed
  then show ?thesis by (simp add: lh_def)
qed

section \<open>The BIOS\<close>

definition bios_section :: string where "bios_section = ''Mass Storage Controller Configuration''"
definition bios_item :: string where "bios_item = ''AHCI Capable SATA Controller''"

text \<open>A run of the tool is a success if it exits normally and prints the words expected.\<close>

definition tool_ok :: "string \<Rightarrow> bool \<times> string \<Rightarrow> bool" where
  "tool_ok words r \<longleftrightarrow> fst r \<and> contains (snd r) words"

text \<open>\<open>CheckBios\<close>: whether the BIOS runs a RAID of its own, and the commands run; the attempt without a password
  comes in any case.\<close>

definition CheckBios :: "(string list \<Rightarrow> bool \<times> string) \<Rightarrow> string \<Rightarrow> string \<Rightarrow> bool \<Rightarrow> bool \<Rightarrow> (bool \<times> string list list) fatal" where
  "CheckBios run pw tool update reboot =
     (if tool = [] then Ok (False, [])
      else
        (let rd = [tool, ''/d'', ''BIOSSETTINGS'', ''group'', bios_section, bios_item];
             st = [tool, ''/bcs'', pw, bios_item, ''02''];
             st_nopw = [tool, ''/bcs'', '''', bios_item, ''02''];
             fakeraid = (\<not> contains (snd (run rd)) ''Current Value : AHCI'')
         in if \<not> tool_ok ''Current Value'' (run rd) \<and> reboot then Fatal
            else if \<not> (update \<and> fakeraid) then Ok (fakeraid, [rd])
            else if reboot then Fatal
            else Ok (fakeraid, [rd, st, st_nopw])))"

text \<open>A BIOS that cannot be read counts as one with a RAID.\<close>

lemma CheckBios_unreadable: "tool \<noteq> [] \<Longrightarrow> \<exists>cs. CheckBios (\<lambda>argv. (False, [])) pw tool False False = Ok (True, cs)"
  by (simp add: CheckBios_def tool_ok_def)

section \<open>The account and the first boot\<close>

text \<open>\<open>adminUser\<close>: without a password it is fatal; the command reads the account and the password.\<close>

definition adminUser :: "string \<Rightarrow> string \<Rightarrow> fsworld \<Rightarrow> fsworld fatal" where
  "adminUser pw rdir w =
     (if pw = [] then Fatal else Ok (did (Ran [''busybox'', ''chroot'', rdir, ''chpasswd'']) w))"

text \<open>\<open>Firstboot\<close>: what is done for the journal's directory is returned apart.\<close>

definition Firstboot ::
    "(dir_effect \<Rightarrow> bool) \<Rightarrow> (string \<Rightarrow> string list option) \<Rightarrow> (string \<Rightarrow> string) \<Rightarrow> (string \<Rightarrow> bool) \<Rightarrow> (string \<Rightarrow> string option)
     \<Rightarrow> Stringer option \<Rightarrow> string \<Rightarrow> disktag_state \<Rightarrow> string \<Rightarrow> string \<Rightarrow> string \<Rightarrow> fsworld \<Rightarrow> (dir_effect list \<times> fsworld) fatal" where
  "Firstboot works lines_in hex creatable readfile impl pw tag rdir serial hostName w =
     (case MkdirOwned works lines_in rdir (path_Join [''var'', ''log'', ''journal'']) ''root'' ''systemd-journal'' 2755 of
        (Panics, ds) \<Rightarrow> Panicked
      | (Returns r, ds) \<Rightarrow>
          fbind (adminUser pw rdir (hostInfo hex creatable readfile rdir hostName serial w)) (\<lambda>w2.
            case dt_Write rdir tag of
              Panics \<Rightarrow> Panicked
            | Returns t \<Rightarrow>
                (let cfgDir = path_Join [rdir, st_ConfDir (strs_of impl)]
                 in Ok (ds, did (Wrote (path_Join [cfgDir, ''serial'']) serial) (did (MadeDir cfgDir) (did (Wrote t []) w2))))))"

section \<open>Emergency files\<close>

text \<open>A file given: its size, \<open>None\<close> if it cannot be read, and whether it has the signature of an image.\<close>

record efile =
  ef_name :: string
  ef_size :: "nat option"
  ef_image :: bool

definition jsonMaxSize :: nat where "jsonMaxSize = 1024 * 1024"

fun checkFiles :: "efile list \<Rightarrow> string list \<times> string list" where
  "checkFiles [] = ([], [])"
| "checkFiles (f # fs) =
     (case checkFiles fs of (imgs, jsons) \<Rightarrow>
        (case ef_size f of
           None \<Rightarrow> (imgs, jsons)
         | Some sz \<Rightarrow>
             (if ef_image f then (ef_name f # imgs, jsons)
              else if sz \<le> jsonMaxSize then (imgs, ef_name f # jsons)
              else (imgs, jsons))))"

text \<open>\<open>None\<close>: the user has to switch the unit off.\<close>

definition CheckForEmergency :: "efile list \<Rightarrow> (string list \<times> string) option" where
  "CheckForEmergency efiles =
     (if efiles = [] then Some ([], [])
      else case checkFiles efiles of
             (img # imgs, jsons) \<Rightarrow> Some ([], img)
           | ([], []) \<Rightarrow> None
           | ([], jsons) \<Rightarrow> Some (jsons, []))"

text \<open>An image wins over all other files, and of several the first is taken; otherwise the small readable files count.\<close>

lemma checkFiles_filter:
  "checkFiles fs = (map ef_name (filter (\<lambda>f. ef_size f \<noteq> None \<and> ef_image f) fs),
     map ef_name (filter (\<lambda>f. \<not> ef_image f \<and> (case ef_size f of None \<Rightarrow> False | Some sz \<Rightarrow> sz \<le> jsonMaxSize)) fs))"
  by (induction fs) (auto split: option.splits)

theorem CheckForEmergency_chooses:
  assumes "CheckForEmergency efiles = Some (jsons, img)"
  shows "case find (\<lambda>f. ef_size f \<noteq> None \<and> ef_image f) efiles of
      Some f \<Rightarrow> jsons = [] \<and> img = ef_name f
    | None \<Rightarrow> img = []
        \<and> jsons = map ef_name (filter (\<lambda>f. \<not> ef_image f \<and> (case ef_size f of None \<Rightarrow> False | Some sz \<Rightarrow> sz \<le> jsonMaxSize)) efiles)"
proof -
  have f: "find P xs = (case filter P xs of [] \<Rightarrow> None | y # ys \<Rightarrow> Some y)" for P and xs :: "efile list"
    by (induction xs) auto
  show ?thesis
    using assms by (auto simp: CheckForEmergency_def checkFiles_filter f split: if_splits list.splits)
qed

lemma CheckForEmergency_chooses_witness:
  "CheckForEmergency [\<lparr>ef_name = ''a.json'', ef_size = Some 10, ef_image = False\<rparr>, \<lparr>ef_name = ''b.upd'', ef_size = Some 9, ef_image = True\<rparr>]
   = Some ([], ''b.upd'')"
proof -
  have c: "CheckForEmergency [\<lparr>ef_name = ''a.json'', ef_size = Some 10, ef_image = False\<rparr>, \<lparr>ef_name = ''b.upd'', ef_size = Some 9, ef_image = True\<rparr>]
   = Some ([], ''b.upd'')"
    by (simp add: CheckForEmergency_def jsonMaxSize_def)
  from CheckForEmergency_chooses [OF c] c show ?thesis by simp
qed

end
