(* ===== verification/RecDriver.thy ===== *)
theory RecDriver
  imports RecConf Archive
begin

text \<open>
  The recovery itself (\<open>pkg/recovery/recover.go\<close>), from the choice of the disks to the table of file systems, and
  what is kept of the configuration, with the unpacking of the chosen image (\<open>applyUpd\<close> of
  \<open>pkg/recovery/archive/ar.go\<close>).  The progress shown while \<open>tar\<close> runs is left out.
\<close>

section \<open>Owners and facts\<close>

text \<open>\<open>getUidGid\<close>: a guess if the files cannot be read.\<close>

definition getUidGid :: "(string \<Rightarrow> string list option) \<Rightarrow> string \<Rightarrow> (string \<times> string) outcome" where
  "getUidGid lines_in path =
     (case GetUID lines_in path ''admin'' of
        Panics \<Rightarrow> Panics
      | Returns u \<Rightarrow>
          (case GetGID lines_in path ''admin'' of
             Panics \<Rightarrow> Panics
           | Returns g \<Rightarrow> Returns (if 0 \<le> u then show_int u else ''1001'', if 0 \<le> g then show_int g else ''1001'')))"

text \<open>\<open>writeFacts\<close>: the display of a prototype is the one that was found.\<close>

definition facts_lcd :: "Variant \<Rightarrow> LcdType option \<Rightarrow> LcdType" where
  "facts_lcd platform found =
     (if IsPrototype platform \<and> vLcd platform = NoLCD then (case found of Some m \<Rightarrow> m | None \<Rightarrow> vLcd platform) else vLcd platform)"

section \<open>Network configuration\<close>

text \<open>What the calls of \<open>restoreNetworkConfig\<close> answer.\<close>

record netconf_answers =
  nc_stat :: stat_result
  nc_ignore :: bool
  nc_mkdir :: bool
  nc_untar :: bool
  nc_flag :: bool

definition restoreNetworkConfig :: "netconf_answers \<Rightarrow> Stringer option \<Rightarrow> string \<Rightarrow> string \<Rightarrow> fsworld \<Rightarrow> bool \<times> fsworld" where
  "restoreNetworkConfig a impl recov target w =
     (let netConf = path_Join [recov, st_RecoveryLogDir (strs_of impl), ''netd.tar''];
          netDir = target @ ''/etc/systemd/network'';
          w1 = did (Removed netDir) w;
          w2 = did (MadeDir netDir) w1;
          w3 = did (Ran [''tar'', ''xf'', netConf, ''-C'', netDir]) w2
      in case nc_stat a of
           StatNotExist \<Rightarrow> (False, w)
         | StatOther \<Rightarrow> (False, w)
         | StatOk \<Rightarrow>
             (if nc_ignore a then (False, did (Removed netConf) w)
              else if \<not> nc_mkdir a then (False, w2)
              else if \<not> nc_untar a then (False, w3)
              else if \<not> nc_flag a then (False, w3)
              else (True, did (Removed netConf) (did (Created (netDir @ ''/.config-preserved'')) w3))))"

text \<open>The saved configuration is removed only if it is to be ignored or was restored.\<close>

lemma netconf_kept:
  "restoreNetworkConfig a impl recov target w = (r, w1) \<Longrightarrow> \<not> r \<Longrightarrow> \<not> (nc_stat a = StatOk \<and> nc_ignore a) \<Longrightarrow>
   \<exists>es. fw_did w1 = fw_did w @ es \<and> (Removed (path_Join [recov, st_RecoveryLogDir (strs_of impl), ''netd.tar'']) \<in> set es
     \<longrightarrow> path_Join [recov, st_RecoveryLogDir (strs_of impl), ''netd.tar''] = target @ ''/etc/systemd/network'')"
  by (auto simp: restoreNetworkConfig_def Let_def did_def split: stat_result.splits if_splits)

section \<open>The disks\<close>

text \<open>All disks are partitioned; what fails is only logged.\<close>

definition zero_all :: "(string \<times> nat \<times> whence) list \<Rightarrow> fsworld \<Rightarrow> fsworld" where
  "zero_all zs w = foldl (\<lambda>w (d, m, wh). did (Zeroed d m wh) w) w zs"

fun partition_all ::
    "(string list \<times> string \<Rightarrow> bool) \<Rightarrow> bool \<Rightarrow> Stringer option \<Rightarrow> Variant \<Rightarrow> RDisk list \<Rightarrow> fsworld \<Rightarrow> (RDisk list \<times> fsworld) fatal" where
  "partition_all pt_ok uefi impl platform [] w = Ok ([], w)"
| "partition_all pt_ok uefi impl platform (d # ds) w =
     (case Disk_Partition pt_ok uefi impl platform d of
        (zs, r) \<Rightarrow>
          fbind r (\<lambda>(ok, t, d1).
            fbind (partition_all pt_ok uefi impl platform ds (did (Partitioned t) (zero_all zs w))) (\<lambda>(ds1, w1). Ok (d1 # ds1, w1))))"

definition make_target ::
    "system \<Rightarrow> string \<Rightarrow> Variant \<Rightarrow> RDisk list \<Rightarrow> fsworld \<Rightarrow> (Filesystem \<times> fsworld) fatal" where
  "make_target sy hostName platform disks w =
     (if HasRaid platform then CreateArray sy disks hostName platform w
      else case disks of [d] \<Rightarrow> Ok (CreateNonArray d platform, w) | _ \<Rightarrow> Fatal)"

section \<open>Unpacking the image\<close>

text \<open>
  \<open>applyUpd\<close>: \<open>tar\<close> reads the buffer that validation filled or, on a device with low memory or if the buffer
  cannot be opened, the output of \<open>xz\<close> on the chosen file, which then is only logged about.  \<open>up_buf\<close> says
  whether the buffer can be opened, \<open>up_tar\<close> how \<open>tar\<close> ends, \<open>up_vars\<close> are the variables of the package.
\<close>

record unpacking =
  up_vars :: upd_state
  up_buf :: bool
  up_tar :: "effect \<Rightarrow> bool"
  up_emergency :: string

definition decompressBuf :: string where "decompressBuf = ''/buf''"

definition untar_args :: "Filesystem \<Rightarrow> string list" where
  "untar_args target =
     [''tar'', ''x'', ''-i'', ''--xattrs'', ''--totals=USR1'', ''--warning=no-timestamp'', ''-C'', fs_Path target]"

definition applyUpd :: "Filesystem \<Rightarrow> unpacking \<Rightarrow> fsworld \<Rightarrow> bool \<times> unpacking \<times> fsworld" where
  "applyUpd target u w =
     (let from_buf = (\<not> us_low (up_vars u) \<and> up_buf u);
          u1 = (if from_buf then u else u\<lparr>up_vars := (up_vars u)\<lparr>us_low := True\<rparr>\<rparr>);
          e = (if from_buf then RanFrom decompressBuf (untar_args target)
               else Piped [''xz'', ''-dc'', us_full (up_vars u)] (untar_args target));
          w1 = did e w
      in (up_tar u e, u1, if from_buf then did (Removed decompressBuf) w1 else w1))"

definition ApplyUpdate :: "Filesystem \<Rightarrow> unpacking \<Rightarrow> fsworld \<Rightarrow> (unpacking \<times> fsworld) fatal" where
  "ApplyUpdate target u w = (case applyUpd target u w of (ok, u1, w1) \<Rightarrow> if ok then Ok (u1, w1) else Fatal)"

text \<open>An emergency image is on a drive of its own, which is unmounted afterwards.\<close>

definition apply_image :: "Filesystem \<Rightarrow> unpacking \<Rightarrow> fsworld \<Rightarrow> fsworld fatal" where
  "apply_image target u w =
     fbind (ApplyUpdate target u w) (\<lambda>(u1, w1).
       Ok (if up_emergency u \<noteq> [] then did (UmountCall (path_Dir (up_emergency u))) w1 else w1))"

section \<open>Installing\<close>

text \<open>The part of \<open>recovery\<close> that lays out the disks and installs the image, up to the table.\<close>

record installed =
  in_target :: Filesystem
  in_recov :: Filesystem
  in_parts :: "Filesystem list"
  in_world :: fsworld
  in_entries :: "BootEntryVar list"

definition write_table ::
    "(string \<Rightarrow> string list option) \<Rightarrow> (string \<Rightarrow> bool) \<Rightarrow> Filesystem \<Rightarrow> Filesystem \<Rightarrow> Filesystem list \<Rightarrow> fsworld
     \<Rightarrow> BootEntryVar list \<Rightarrow> installed fatal" where
  "write_table lines_in creatable target recov parts w es =
     (case getUidGid lines_in (fs_Path target) of
        Panics \<Rightarrow> Panicked
      | Returns (uid, gid) \<Rightarrow>
          fbind (WriteFstab creatable (FstabEntry uid gid) FstabMountpoint target ([target, recov] @ parts) w) (\<lambda>w1.
            Ok \<lparr>in_target = target, in_recov = recov, in_parts = parts, in_world = w1, in_entries = es\<rparr>))"

definition recovery_install ::
    "system \<Rightarrow> firmware \<Rightarrow> (string list \<times> string \<Rightarrow> bool) \<Rightarrow> bool \<Rightarrow> Stringer option \<Rightarrow> Variant \<Rightarrow> BlockDev list \<Rightarrow> string \<Rightarrow> string
     \<Rightarrow> unpacking \<Rightarrow> (string \<Rightarrow> string list option) \<Rightarrow> (string \<Rightarrow> bool)
     \<Rightarrow> Filesystem \<Rightarrow> fsworld \<times> BootEntryVar list \<Rightarrow> installed fatal" where
  "recovery_install sy fm pt_ok uefi impl platform devs serial bootArgs u lines_in creatable recov s =
     (case s of (w, es) \<Rightarrow>
        fbind (FindTargets platform devs) (\<lambda>disks.
        fbind (partition_all pt_ok uefi impl platform disks w) (\<lambda>(disks1, w1).
        fbind (make_target sy (Hostify impl serial) platform disks1 w1) (\<lambda>(t0, w2).
        case Format sy (st_PriVolName (strs_of impl)) t0 w2 of (r, t1, w3) \<Rightarrow>
        fbind (fs_Mount sy t1 w3) (\<lambda>(t2, w4).
        fbind (apply_image t2 u w4) (\<lambda>w5.
        let recov1 = SetMountpoint (''/mnt/'' @ st_RecVolName (strs_of impl)) recov; t3 = SetMountpoint ''/'' t2
        in fbind (MakeBootable sy fm uefi impl disks1 t3 recov1 platform bootArgs (w5, es)) (\<lambda>(parts, w6, es1).
           write_table lines_in creatable t3 recov1 parts w6 es1)))))))"

section \<open>Only more is done\<close>

text \<open>Every operation adds to what was done and takes nothing back.\<close>

definition extends :: "fsworld \<Rightarrow> fsworld \<Rightarrow> bool" where
  "extends w w1 \<longleftrightarrow> (\<exists>es. fw_did w1 = fw_did w @ es)"

named_theorems extended

lemma extends_refl [simp]: "extends w w"
  by (simp add: extends_def)

lemma extends_trans [trans]: "extends w w1 \<Longrightarrow> extends w1 w2 \<Longrightarrow> extends w w2"
  by (auto simp: extends_def)

lemma extends_did [extended]: "extends w w1 \<Longrightarrow> extends w (did e w1)"
  by (auto simp: extends_def did_def)

lemma extends_mounted [extended]: "extends w w1 \<Longrightarrow> extends w (w1\<lparr>fw_mounted := m\<rparr>)"
  by (simp add: extends_def)

lemma extends_Mount: "fs_Mount sy fs w = Ok (fs1, w1) \<Longrightarrow> extends w w1"
  by (auto simp: fs_Mount_def MountErr_def Let_def intro!: extended split: if_splits prod.splits bool.splits)

lemma extends_Format: "Format sy l fs w = (r, fs1, w1) \<Longrightarrow> extends w w1"
  by (auto simp: Format_def Let_def intro!: extended split: if_splits prod.splits bool.splits option.splits)

lemma extends_InstallGrub4Dos: "InstallGrub4Dos sy impl fs w = Ok w1 \<Longrightarrow> extends w w1"
  by (auto simp: InstallGrub4Dos_def Let_def intro!: extended split: if_splits option.splits)

lemma extends_ConfigUEFIBoot: "ConfigUEFIBoot sy fm impl recov g ow extra (w, es) = Ok (ps, w1, es1) \<Longrightarrow> extends w w1"
  by (auto simp: ConfigUEFIBoot_def Let_def split: if_splits option.splits dest!: extends_Mount)
    (auto simp: extends_def did_def)

lemma extends_useLatestKernel: "extends w (useLatestKernel sy impl target recov w)"
  by (auto simp: useLatestKernel_def Let_def intro!: extended)

lemma extends_write_boot_parts: "write_boot_parts sy impl conf target platform i ds w = Ok (ps, w1) \<Longrightarrow> extends w w1"
proof (induction ds arbitrary: i w ps w1)
  case (Cons d ds)
  obtain r b w2 where f: "Format sy (''boot'' @ show_dec i) (boot_part platform d) w = (r, b, w2)"
    by (cases "Format sy (''boot'' @ show_dec i) (boot_part platform d) w")
  from Cons.prems f obtain b1 w3 w4 bs where m: "fs_Mount sy b w2 = Ok (b1, w3)"
    and g: "InstallGrub4Dos sy impl b1 (copy2boot (st_BootKernel (strs_of impl)) b1 target
        (did (Wrote (path_Join [fs_Path b1, hddBootFile]) conf) w3)) = Ok w4"
    and rest: "write_boot_parts sy impl conf target platform (i + 1) ds w4 = Ok (bs, w1)"
    by auto
  have "extends w w3"
    using extends_Format [OF f] extends_Mount [OF m] by (rule extends_trans)
  then have "extends w (copy2boot (st_BootKernel (strs_of impl)) b1 target
        (did (Wrote (path_Join [fs_Path b1, hddBootFile]) conf) w3))"
    by (simp add: copy2boot_def extended)
  also note extends_InstallGrub4Dos [OF g]
  also note Cons.IH [OF rest]
  finally show ?case .
qed simp

lemma extends_MakeBootable: "MakeBootable sy fm uefi impl ds fs recov pl x (w, es) = Ok (ps, w1, es1) \<Longrightarrow> extends w w1"
  by (auto simp: MakeBootable_def WriteLegacyBootParts_def Let_def extends_ConfigUEFIBoot
      intro: extends_trans [OF extends_useLatestKernel extends_write_boot_parts] split: if_splits outcome.splits)

section \<open>An installation\<close>

text \<open>The mounting of a device at a place, by the system call or by the command, and the unpacking into a place.\<close>

definition mounts_at :: "string \<Rightarrow> string \<Rightarrow> effect \<Rightarrow> bool" where
  "mounts_at dev place e \<longleftrightarrow>
     (\<exists>ty opts. e = MountCall dev place ty opts) \<or> (\<exists>rest. e = Ran ([''mount'', dev, place] @ rest))"

definition unpacks_to :: "unpacking \<Rightarrow> string \<Rightarrow> effect \<Rightarrow> bool" where
  "unpacks_to u place e \<longleftrightarrow> up_tar u e \<and>
     (let tar = [''tar'', ''x'', ''-i'', ''--xattrs'', ''--totals=USR1'', ''--warning=no-timestamp'', ''-C'', place]
      in e = (if us_low (up_vars u) \<or> \<not> up_buf u then Piped [''xz'', ''-dc'', us_full (up_vars u)] tar
              else RanFrom ''/buf'' tar))"

lemma apply_image_unpacks:
  assumes "apply_image t u w = Ok w1"
  shows "\<exists>e es. unpacks_to u (fs_Path t) e \<and> fw_did w1 = fw_did w @ e # es"
  using assms
  by (auto simp: apply_image_def ApplyUpdate_def applyUpd_def unpacks_to_def untar_args_def decompressBuf_def did_def Let_def
      split: if_splits)

lemma fs_Mount_mounts:
  assumes "fs_Mount sy t w = Ok (t1, w1)" "\<not> fs_mounted t" "fs_currentMountPoint t = []"
  shows "t1 = t\<lparr>fs_mounted := True\<rparr> \<and> (\<exists>pre m. fw_did w1 = pre @ [m] \<and> mounts_at (fs_blkdev t) (fs_mountPoint t) m)"
  using assms
  by (auto simp: fs_Mount_def MountErr_def mounts_at_def did_def Let_def split: if_splits prod.splits bool.splits)

text \<open>
  C12: In a successful installation the file system installed to was mounted, and at that place, which is not
  \<open>/\<close>, the chosen image was unpacked with success right away: from the buffer, or from \<open>xz\<close> on a device with
  low memory or without the buffer.  At the end that file system is still mounted there and is to be the root;
  the last things done are the entries of its table, for itself first, then for the recovery volume, then for
  the boot partitions, each with its directory.  On a UEFI machine no boot entry is missing then, if
  \<open>efibootmgr\<close> adds the entries it is told to and keeps the others.
\<close>

theorem recovery_install_correct:
  assumes "recovery_install sy fm pt_ok uefi impl platform devs serial bootArgs u lines_in creatable recov (w, es) = Ok r"
    and "\<And>b es es'. fm_add fm (efi_command b) es = Some es' \<Longrightarrow> set es \<subseteq> set es' \<and> has_label (e_Label b) es'"
  shows "fs_mounted (in_target r) \<and> fs_mountPoint (in_target r) = ''/'' \<and> fs_Path (in_target r) \<noteq> ''/''
    \<and> (\<exists>uid gid pre m e mid. fw_did (in_world r) = pre @ m # e # mid @
          concat (map (\<lambda>m. [Appended (path_Join [fs_Path (in_target r), ''etc'', ''fstab'']) (FstabEntry uid gid m),
                             MadeDir (path_Join [fs_Path (in_target r), fs_mountPoint m])])
                  ([in_target r, in_recov r] @ in_parts r))
        \<and> mounts_at (fs_blkdev (in_target r)) (fs_Path (in_target r)) m \<and> unpacks_to u (fs_Path (in_target r)) e)
    \<and> (\<not> uefi \<or> CheckMissing (in_entries r) = (True, True, True))"
proof -
  define rv where "rv = SetMountpoint (''/mnt/'' @ st_RecVolName (strs_of impl)) recov"
  obtain disks1 w1 t0 w2 where
    tg: "make_target sy (Hostify impl serial) platform disks1 w1 = Ok (t0, w2)"
    and rest: "(case Format sy (st_PriVolName (strs_of impl)) t0 w2 of (r0, t1, w3) \<Rightarrow>
        fbind (fs_Mount sy t1 w3) (\<lambda>(t2, w4). fbind (apply_image t2 u w4) (\<lambda>w5.
          fbind (MakeBootable sy fm uefi impl disks1 (SetMountpoint ''/'' t2) rv platform bootArgs (w5, es)) (\<lambda>(parts, w6, es1).
            write_table lines_in creatable (SetMountpoint ''/'' t2) rv parts w6 es1)))) = Ok r"
    using assms(1) unfolding recovery_install_def rv_def Let_def by auto
  obtain r0 t1 w3 where f: "Format sy (st_PriVolName (strs_of impl)) t0 w2 = (r0, t1, w3)"
    by (cases "Format sy (st_PriVolName (strs_of impl)) t0 w2")
  from rest obtain t2 w4 w5 parts w6 es1 where
    m: "fs_Mount sy t1 w3 = Ok (t2, w4)" and ap: "apply_image t2 u w4 = Ok w5" and
    b: "MakeBootable sy fm uefi impl disks1 (SetMountpoint ''/'' t2) rv platform bootArgs (w5, es) = Ok (parts, w6, es1)" and
    wt: "write_table lines_in creatable (SetMountpoint ''/'' t2) rv parts w6 es1 = Ok r"
    unfolding f prod.case by auto
  from wt obtain uid gid w7 where
    t: "WriteFstab creatable (FstabEntry uid gid) FstabMountpoint (SetMountpoint ''/'' t2) ([SetMountpoint ''/'' t2, rv] @ parts) w6 = Ok w7" and
    r: "r = \<lparr>in_target = SetMountpoint ''/'' t2, in_recov = rv, in_parts = parts, in_world = w7, in_entries = es1\<rparr>"
    unfolding write_table_def by (auto split: outcome.splits)
  have t0: "\<exists>p. fs_mountPoint t0 = ''/mnt/'' @ p" "\<not> fs_mounted t0" "fs_currentMountPoint t0 = []"
    using tg by (auto simp: make_target_def CreateArray_def CreateNonArray_def new_fs_def Let_def split: if_splits list.splits)
  have t1: "fs_mountPoint t1 = fs_mountPoint t0" "fs_mounted t1 = fs_mounted t0" "fs_currentMountPoint t1 = fs_currentMountPoint t0"
    using f by (auto simp: Format_def Let_def split: if_splits prod.splits bool.splits option.splits)
  obtain pre mo where t2: "t2 = t1\<lparr>fs_mounted := True\<rparr>" and
    mo: "fw_did w4 = pre @ [mo]" "mounts_at (fs_blkdev t1) (fs_mountPoint t1) mo"
    using fs_Mount_mounts [OF m] t0 t1 by auto
  have target: "fs_mounted (in_target r)" "fs_mountPoint (in_target r) = ''/''" "fs_Path (in_target r) = fs_mountPoint t0"
    "fs_Path t2 = fs_mountPoint t0" "fs_blkdev (in_target r) = fs_blkdev t1"
    using t0 t1 by (auto simp: r t2 SetMountpoint_def fs_Path_def)
  obtain e es2 where un: "unpacks_to u (fs_Path t2) e" "fw_did w5 = fw_did w4 @ e # es2"
    using apply_image_unpacks [OF ap] by blast
  obtain es3 where "fw_did w6 = fw_did w5 @ es3"
    using extends_MakeBootable [OF b] by (auto simp: extends_def)
  then have table: "fw_did (in_world r) = pre @ mo # e # (es2 @ es3 @ [Created (path_Join [fs_Path (in_target r), ''etc'', ''fstab''])]) @
          concat (map (\<lambda>m. [Appended (path_Join [fs_Path (in_target r), ''etc'', ''fstab'']) (FstabEntry uid gid m),
                             MadeDir (path_Join [fs_Path (in_target r), fs_mountPoint m])])
                  ([in_target r, in_recov r] @ in_parts r))"
    using fstab.WriteFstab_did [OF t] un(2) mo(1) unfolding r installed.simps FstabMountpoint_def by simp
  have place: "fs_Path (in_target r) \<noteq> ''/''"
    using t0(1) target(3) by auto
  have entries: "\<not> uefi \<or> CheckMissing (in_entries r) = (True, True, True)"
  proof (cases uefi)
    case True
    then have "ConfigUEFIBoot sy fm impl rv None False bootArgs (w5, es) = Ok (parts, w6, es1)"
      using b by (simp add: MakeBootable_def)
    from ConfigUEFIBoot_complete [OF assms(2) this] show ?thesis by (simp add: r)
  qed simp
  have steps: "mounts_at (fs_blkdev (in_target r)) (fs_Path (in_target r)) mo" "unpacks_to u (fs_Path (in_target r)) e"
    using mo(2) un(1) target t1 by simp_all
  show ?thesis
    using target(1,2) place steps entries by (intro conjI exI [of _ uid] exI [of _ gid]) (assumption | rule exI table conjI)+
qed

text \<open>An appliance with one disk, installed from a mounted recovery volume.\<close>

definition example_platform :: Variant where
  "example_platform =
     \<lparr>v_i = (sample_model ''cpu'' ''one'')\<lparr>vi_Disksize := 100, vi_DiskTTol := 5\<rparr>, v_mfg = [], v_prod = [], v_sku = [], v_serial = []\<rparr>"

definition example_dev :: BlockDev where
  "example_dev = \<lparr>bk_Name = ''sda'', bk_Size = 101, bk_Model = [], bk_Vendor = []\<rparr>"

definition example_unpacking :: unpacking where
  "example_unpacking = \<lparr>up_vars = fresh_upd, up_buf = True, up_tar = (\<lambda>e. True), up_emergency = []\<rparr>"

theorem recovery_install_correct_witness:
  "\<exists>r. recovery_install (example_system\<lparr>sy_resolve := (\<lambda>l. Some ''/dev/sdb1'')\<rparr>) example_firmware (\<lambda>c. True) True None example_platform
        [example_dev] ''123'' [] example_unpacking (\<lambda>p. None) (\<lambda>p. True) (example_fs\<lparr>fs_mounted := True\<rparr>) (example_world, []) = Ok r
     \<and> fs_mounted (in_target r) \<and> CheckMissing (in_entries r) = (True, True, True)"
proof -
  let ?r = "recovery_install (example_system\<lparr>sy_resolve := (\<lambda>l. Some ''/dev/sdb1'')\<rparr>) example_firmware (\<lambda>c. True) True None example_platform
        [example_dev] ''123'' [] example_unpacking (\<lambda>p. None) (\<lambda>p. True) (example_fs\<lparr>fs_mounted := True\<rparr>) (example_world, [])"
  have "(case ?r of Ok _ \<Rightarrow> True | _ \<Rightarrow> False)"
    by code_simp
  then obtain r where r: "?r = Ok r"
    by (auto split: fatal.splits)
  have "fm_add example_firmware (efi_command b) es = Some es' \<Longrightarrow> set es \<subseteq> set es' \<and> has_label (e_Label b) es'" for b es es'
    by (auto simp: example_firmware_def example_efibootmgr_def efi_command_def has_label_def)
  from recovery_install_correct [OF r this] r show ?thesis by simp
qed

end
