(* ===== verification/InitBoot.thy ===== *)
theory InitBoot
  imports CfaQuestion Block Strs
begin

text \<open>
  The start of the machine (\<open>pkg/init\<close>): what is mounted, what the kernel's arguments ask for, the search for files
  on external media, the boot menu, and the decision between normal boot, recovery, and erasing.  What is done is
  recorded as a list of acts; whether an act comes back is an answer of the environment, as are the keys, the
  mounts and the files.
\<close>

section \<open>The root device\<close>

definition validIdType :: "string \<Rightarrow> bool" where
  "validIdType i \<longleftrightarrow> i \<in> {''id'', ''label'', ''partlabel'', ''partuuid'', ''path'', ''uuid''}"

definition getRoot :: "Stringer option \<Rightarrow> string \<Rightarrow> string" where
  "getRoot impl rr =
     (let fallback = ''/dev/disk/by-label/'' @ st_PriVolName (strs_of impl)
      in case split_on CHR ''='' rr of
           [t, ident] \<Rightarrow>
             (if validIdType (ascii_lower t) then ''/dev/disk/by-'' @ ascii_lower t @ ''/'' @ ident else fallback)
         | _ \<Rightarrow> fallback)"

section \<open>Directories and early mounts\<close>

definition init_dirs :: "string list" where
  "init_dirs = [''/etc'', ''/etc/udev'', ''/etc/udev/hwdb.d'', ''/etc/udev/rules.d'', ''/dev'', ''/mnt'', ''/proc'', ''/run'', ''/sys'',
     ''/temp'', ''/tmp'', ''/var'']"

record emount =
  em_fstype :: string
  em_dev :: string
  em_path :: string
  em_data :: string

definition emounts :: "emount list" where
  "emounts =
     [\<lparr>em_fstype = ''sysfs'', em_dev = ''sysfs'', em_path = ''/sys'', em_data = []\<rparr>,
      \<lparr>em_fstype = ''devtmpfs'', em_dev = ''devtmpfs'', em_path = ''/dev'', em_data = []\<rparr>,
      \<lparr>em_fstype = ''proc'', em_dev = ''proc'', em_path = ''/proc'', em_data = []\<rparr>,
      \<lparr>em_fstype = [], em_dev = [], em_path = ''/'', em_data = ''remount,rw''\<rparr>]"

definition EarlyMounts :: "string list" where "EarlyMounts = map em_path emounts"

definition EarlyUmounts :: "string list" where
  "EarlyUmounts = map em_path (filter (\<lambda>u. \<not> contains ''remount'' (em_data u)) emounts)"

text \<open>The variables that act on the run time of the program are removed; \<open>Some\<close> is a start of the program anew.\<close>

definition bad_vars :: "string list" where
  "bad_vars = [''GOGC='', ''GODEBUG='', ''GOMAXPROCS='', ''GOTRACEBACK='']"

definition handleEnvVars :: "string list \<Rightarrow> string list option" where
  "handleEnvVars current =
     (let env = filter (\<lambda>v. \<forall>bad \<in> set bad_vars. \<not> has_prefix v bad) current
      in if length env < length current then Some env else None)"

text \<open>Where the early start is logged to over the network: nowhere, or under a serial number.  In released programs
  only a test machine is allowed to.\<close>

definition ext_log :: "bool \<Rightarrow> string \<Rightarrow> (string \<times> string) option \<Rightarrow> bool \<Rightarrow> bool \<Rightarrow> string option" where
  "ext_log release xl plat net_skip net_any =
     (if xl = [] then None
      else if release \<and> (case plat of None \<Rightarrow> True | Some (family, ser) \<Rightarrow> family \<noteq> ''qemu'') then None
      else case plat of
             Some (family, ser) \<Rightarrow> if net_skip then Some ser else None
           | None \<Rightarrow> if net_any then Some ''UNKNOWN'' else None)"

section \<open>What is still mounted\<close>

definition NewRoot :: string where "NewRoot = ''/newroot''"
definition ExtDir :: string where "ExtDir = ''/ext_usb''"

text \<open>\<open>listMounts\<close>: the words of each line; a line of the wrong length is logged and kept.\<close>

definition listMounts :: "string option \<Rightarrow> string list list option" where
  "listMounts mounts_file =
     (case mounts_file of None \<Rightarrow> None | Some c \<Rightarrow> map_option (map (split_on CHR '' '')) (scan_lines c))"

definition stays_mounted :: "string \<Rightarrow> bool" where
  "stays_mounted p \<longleftrightarrow> p = ''/'' \<or> (\<exists>sfx \<in> set [NewRoot, ''/dev/'', ''/proc/'', ''/sys/'', ''/run/'']. has_suffix p sfx)"

text \<open>\<open>cleanMounts\<close>: the places unmounted; a line of one word panics.\<close>

fun clean_mounts :: "string list list \<Rightarrow> string list outcome" where
  "clean_mounts [] = Returns []"
| "clean_mounts (mnt # ms) =
     (if length mnt < 2 then Panics
      else case clean_mounts ms of
             Panics \<Rightarrow> Panics
           | Returns us \<Rightarrow> Returns (if stays_mounted (mnt ! 1) then us else mnt ! 1 # us))"

definition cleanMounts :: "string option \<Rightarrow> string list outcome" where
  "cleanMounts mounts_file = clean_mounts (case listMounts mounts_file of None \<Rightarrow> [] | Some ms \<Rightarrow> ms)"

text \<open>The suffixes end in a slash, which no mount point does, so the kernel's file systems are unmounted as well.\<close>

lemma cleanMounts_unmounts_dev:
  "cleanMounts (Some (''devtmpfs /dev devtmpfs rw 0 0'' @ [newline] @ ''x /newroot ext4 ro 0 0'' @ [newline])) = Returns [''/dev'']"
  by (simp add: cleanMounts_def listMounts_def scan_lines_def newline_def drop_cr_def stays_mounted_def has_suffix_def NewRoot_def)

section \<open>Files on external media\<close>

text \<open>What is found on a file system: whether it can be mounted, the files of the pattern, and whether it can be
  unmounted again.\<close>

record ext_fs =
  xf_info :: BlkInfo
  xf_mounts :: bool
  xf_files :: "string list option"
  xf_unmounts :: bool

fun checkExtUsb_from :: "string list \<Rightarrow> ext_fs list \<Rightarrow> string list" where
  "checkExtUsb_from checked [] = []"
| "checkExtUsb_from checked (x # xs) =
     (if bi_UUID (xf_info x) \<in> set checked \<or> \<not> xf_mounts x then checkExtUsb_from checked xs
      else case xf_files x of
             Some (f # fs) \<Rightarrow> f # fs
           | r \<Rightarrow>
               (if r \<noteq> None \<and> xf_unmounts x \<and> bi_UUID (xf_info x) \<noteq> []
                then checkExtUsb_from (checked @ [bi_UUID (xf_info x)]) xs
                else checkExtUsb_from checked xs))"

definition checkExtUsb :: "ext_fs list \<Rightarrow> string list" where "checkExtUsb xs = checkExtUsb_from [] xs"

text \<open>As long as twins of a file system hold the same files, leaving them out loses nothing: the files are those of
  the first file system that can be mounted and has any.\<close>

definition has_files :: "ext_fs \<Rightarrow> bool" where
  "has_files x \<longleftrightarrow> xf_mounts x \<and> (\<exists>f fs. xf_files x = Some (f # fs))"

lemma checkExtUsb_from_first:
  assumes "\<forall>x \<in> set xs. \<forall>i \<in> set checked. bi_UUID (xf_info x) = i \<longrightarrow> \<not> has_files x"
    and "\<forall>x \<in> set xs. \<forall>y \<in> set xs. bi_UUID (xf_info x) = bi_UUID (xf_info y) \<longrightarrow> bi_UUID (xf_info x) \<noteq> [] \<longrightarrow> has_files x = has_files y"
  shows "checkExtUsb_from checked xs = (case find has_files xs of None \<Rightarrow> [] | Some x \<Rightarrow> the (xf_files x))"
  using assms
proof (induction xs arbitrary: checked)
  case (Cons x xs)
  show ?case
  proof (cases "has_files x")
    case True
    then have "bi_UUID (xf_info x) \<notin> set checked"
      using Cons.prems(1) by auto
    then show ?thesis
      using True by (auto simp: has_files_def)
  next
    case False
    then have none: "\<not> xf_mounts x \<or> xf_files x = None \<or> xf_files x = Some []"
      by (auto simp: has_files_def neq_Nil_conv) (metis list.exhaust option.exhaust)
    have twins: "\<forall>y \<in> set xs. bi_UUID (xf_info y) = bi_UUID (xf_info x) \<longrightarrow> bi_UUID (xf_info x) \<noteq> [] \<longrightarrow> \<not> has_files y"
      using Cons.prems(2) False by (metis list.set_intros)
    have rest: "\<forall>y \<in> set xs. \<forall>z \<in> set xs. bi_UUID (xf_info y) = bi_UUID (xf_info z) \<longrightarrow> bi_UUID (xf_info y) \<noteq> [] \<longrightarrow> has_files y = has_files z"
      using Cons.prems(2) by (meson list.set_intros(2))
    have old: "\<forall>y \<in> set xs. \<forall>i \<in> set checked. bi_UUID (xf_info y) = i \<longrightarrow> \<not> has_files y"
      using Cons.prems(1) by simp
    have step: "checkExtUsb_from checked (x # xs) = checkExtUsb_from checked xs \<or>
        bi_UUID (xf_info x) \<noteq> [] \<and> checkExtUsb_from checked (x # xs) = checkExtUsb_from (checked @ [bi_UUID (xf_info x)]) xs"
      using none by (auto split: option.splits list.splits)
    have new: "\<forall>y \<in> set xs. \<forall>i \<in> set (checked @ [bi_UUID (xf_info x)]). bi_UUID (xf_info y) = i \<longrightarrow> \<not> has_files y"
      if "bi_UUID (xf_info x) \<noteq> []"
      using old twins that by auto
    from step show ?thesis
      using Cons.IH [OF old rest] Cons.IH [OF new rest] False by (auto simp del: checkExtUsb_from.simps)
  qed
qed simp

section \<open>Acts\<close>

datatype rmode = WithDefaults | WithImgOpt string | WithEmergencyFile "string list"

datatype boot_act =
    Erases | Restores rmode | SwitchesRoot string | PowersOff | Reboots bool
  | MountsRoot string | UnmountsRoot | LoadsKey | ForksProgress | KillsUdev | Unmounts string

text \<open>How a call comes out: it goes on, the program ends (restart, another program), it panics, or it waits for more
  input than there is.\<close>

datatype 'a flow = Goes 'a | Ended | Crashed | Waiting

record init_env =
  ie_impl :: "Stringer option"
  ie_ends :: "boot_act \<Rightarrow> bool"
  ie_mounts_root :: bool
  ie_flag :: bool
  ie_key :: bool
  ie_mounts :: "string option"
  ie_release :: bool
  ie_integ :: string
  ie_pid1 :: bool
  ie_udev :: bool

record boot =
  bt_lcd :: "Lcd option"
  bt_did :: "boot_act list"

fun bt_then :: "'a flow \<times> boot \<Rightarrow> ('a \<Rightarrow> boot \<Rightarrow> 'b flow \<times> boot) \<Rightarrow> 'b flow \<times> boot" where
  "bt_then (Goes a, b) f = f a b"
| "bt_then (Ended, b) f = (Ended, b)"
| "bt_then (Crashed, b) f = (Crashed, b)"
| "bt_then (Waiting, b) f = (Waiting, b)"

text \<open>Acts that always come back, and acts after which the program may not go on.\<close>

definition act :: "boot_act \<Rightarrow> boot \<Rightarrow> unit flow \<times> boot" where
  "act a b = (Goes (), b\<lparr>bt_did := bt_did b @ [a]\<rparr>)"

definition act_if :: "bool \<Rightarrow> boot_act \<Rightarrow> boot \<Rightarrow> unit flow \<times> boot" where
  "act_if c a b = (if c then act a b else (Goes (), b))"

definition acts :: "boot_act list \<Rightarrow> boot \<Rightarrow> unit flow \<times> boot" where
  "acts as b = (Goes (), b\<lparr>bt_did := bt_did b @ as\<rparr>)"

definition leave :: "init_env \<Rightarrow> boot_act \<Rightarrow> boot \<Rightarrow> unit flow \<times> boot" where
  "leave e a b = (if ie_ends e a then Ended else Goes (), b\<lparr>bt_did := bt_did b @ [a]\<rparr>)"

text \<open>A message on the display, if there is one.\<close>

definition show_msg :: "string \<Rightarrow> boot \<Rightarrow> unit flow \<times> boot" where
  "show_msg t b =
     (case bt_lcd b of
        None \<Rightarrow> (Goes (), b)
      | Some l \<Rightarrow> (case Msg (ascii t) l of None \<Rightarrow> (Waiting, b) | Some (r, l1) \<Rightarrow> (Goes (), b\<lparr>bt_lcd := Some l1\<rparr>)))"

section \<open>Normal boot\<close>

definition switchroot :: "init_env \<Rightarrow> string \<Rightarrow> boot \<Rightarrow> unit flow \<times> boot" where
  "switchroot e rootDev b =
     (if \<not> ie_mounts_root e then (Goes (), b)
      else bt_then (act (MountsRoot rootDev) b) (\<lambda>_ b1.
        if \<not> ie_flag e then act UnmountsRoot b1
        else bt_then (act_if (ie_key e) LoadsKey b1) (\<lambda>_ b2.
             bt_then (act ForksProgress b2) (\<lambda>_ b3.
             bt_then (act_if (ie_udev e) KillsUdev b3) (\<lambda>_ b4.
               case cleanMounts (ie_mounts e) of
                 Panics \<Rightarrow> (Crashed, b4)
               | Returns us \<Rightarrow>
                   bt_then (acts (map Unmounts us) b4) (\<lambda>_ b5.
                   bt_then (leave e (SwitchesRoot rootDev) b5) (\<lambda>_. leave e (Reboots True))))))))"

section \<open>The boot menu\<close>

definition bootMenuItems :: "bytes list" where
  "bootMenuItems = [ascii ''Resume normal boot'', ascii ''Power off'', [], ascii ''Factory Restore to latest image'',
     ascii ''Factory Restore to original image'', ascii ''Factory Restore (choose image)'', [], ascii ''Data Erase'']"

definition Choice_resume :: int where "Choice_resume = 0"
definition Choice_poweroff :: int where "Choice_poweroff = 1"
definition Choice_FR_latest :: int where "Choice_FR_latest = 3"
definition Choice_FR_original :: int where "Choice_FR_original = 4"
definition Choice_FR_choose :: int where "Choice_FR_choose = 5"
definition Choice_erase :: int where "Choice_erase = 7"

lemmas choice_defs = Choice_resume_def Choice_poweroff_def Choice_FR_latest_def Choice_FR_original_def Choice_FR_choose_def
  Choice_erase_def CHOICE_NONE_def CHOICE_CANCEL_def

text \<open>The keys of one turn of the menu: those of the confirmed menu, and those of the question asked again before
  erasing.\<close>

type_synonym menu_keys = "((u8 \<times> (nat \<Rightarrow> bool)) list \<times> u8 list) list \<times> u8 list"

definition ask_menu :: "((u8 \<times> (nat \<Rightarrow> bool)) list \<times> u8 list) list \<Rightarrow> boot \<Rightarrow> (int \<times> Answer) flow \<times> boot" where
  "ask_menu rounds b =
     (case bt_lcd b of
        None \<Rightarrow> (Goes (CHOICE_NONE, ANSWER_NA), b)
      | Some l \<Rightarrow>
          (case MenuWithConfirm (ascii ''boot option'') bootMenuItems False rounds l of
             None \<Rightarrow> (Waiting, b)
           | Some (r, l1) \<Rightarrow> (Goes r, b\<lparr>bt_lcd := Some l1\<rparr>)))"

definition erase_warning :: string where
  "erase_warning = ''Data erase ERASES YOUR DATA and can take HOURS. A power failure or other interruption may render the device unusable. Choose NO unless absolutely certain.''"

definition ask_erase :: "u8 list \<Rightarrow> boot \<Rightarrow> Answer flow \<times> boot" where
  "ask_erase again b =
     (case bt_lcd b of
        None \<Rightarrow> (Goes ANSWER_NA, b)
      | Some l \<Rightarrow>
          (case YesNo (ascii erase_warning) again l of
             None \<Rightarrow> (Waiting, b)
           | Some (a, l1) \<Rightarrow> (Goes a, b\<lparr>bt_lcd := Some l1\<rparr>)))"

text \<open>What is done with a choice: \<open>None\<close> leaves the menu, \<open>Some\<close> is the answer the loop goes by.\<close>

definition do_choice :: "init_env \<Rightarrow> string \<Rightarrow> u8 list \<Rightarrow> int \<times> Answer \<Rightarrow> boot \<Rightarrow> Answer option flow \<times> boot" where
  "do_choice e rootDev again r b =
     (case r of (choice, answer) \<Rightarrow>
        if choice \<in> {CHOICE_CANCEL, CHOICE_NONE, Choice_resume}
        then bt_then (show_msg ''Continuing normal boot...'' b) (\<lambda>_ b1. bt_then (switchroot e rootDev b1) (\<lambda>_ b2. (Goes None, b2)))
        else if choice = Choice_poweroff
        then bt_then (show_msg ''Powering off...'' b) (\<lambda>_ b1. bt_then (leave e PowersOff b1) (\<lambda>_ b2. (Goes (Some answer), b2)))
        else if choice = Choice_FR_latest
        then bt_then (show_msg ''Factory restore with latest image...'' b) (\<lambda>_ b1.
          bt_then (leave e (Restores WithDefaults) b1) (\<lambda>_ b2. (Goes (Some answer), b2)))
        else if choice = Choice_FR_original
        then bt_then (show_msg ''Factory restore with original image...'' b) (\<lambda>_ b1.
          bt_then (leave e (Restores (WithImgOpt ''oldest'')) b1) (\<lambda>_ b2. (Goes (Some answer), b2)))
        else if choice = Choice_FR_choose
        then bt_then (show_msg ''Choose image to factory restore...'' b) (\<lambda>_ b1.
          bt_then (leave e (Restores (WithImgOpt ''menu'')) b1) (\<lambda>_ b2. (Goes (Some ANSWER_NA), b2)))
        else if choice = Choice_erase
        then bt_then (ask_erase again b) (\<lambda>re b1.
          if re \<noteq> ANSWER_YES then (Goes (Some ANSWER_NA), b1)
          else bt_then (leave e Erases b1) (\<lambda>_ b2. (Goes (Some answer), b2)))
        else if choice < 0 \<or> choice \<ge> int (length bootMenuItems) then (Crashed, b)
        else if bootMenuItems ! nat choice = []
        then bt_then (show_msg ''Invalid selection, continuing normal boot...'' b) (\<lambda>_ b1.
          bt_then (switchroot e rootDev b1) (\<lambda>_ b2. (Goes (Some answer), b2)))
        else (Goes (Some answer), b))"

fun bootMenu_loop :: "init_env \<Rightarrow> string \<Rightarrow> menu_keys list \<Rightarrow> boot \<Rightarrow> unit flow \<times> boot" where
  "bootMenu_loop e rootDev [] b = (Waiting, b)"
| "bootMenu_loop e rootDev ((rounds, again) # turns) b =
     bt_then (ask_menu rounds b) (\<lambda>r b1. bt_then (do_choice e rootDev again r b1) (\<lambda>nx b2.
       case nx of
         Some ANSWER_NA \<Rightarrow> bootMenu_loop e rootDev turns b2
       | _ \<Rightarrow> (Goes (), b2)))"

text \<open>Keys pressed earlier are discarded, so they are not among the keys of the menu.  Without a display this
  panics.\<close>

definition bootMenu :: "init_env \<Rightarrow> string \<Rightarrow> menu_keys list \<Rightarrow> boot \<Rightarrow> unit flow \<times> boot" where
  "bootMenu e rootDev turns b = (if bt_lcd b = None then (Crashed, b) else bootMenu_loop e rootDev turns b)"

section \<open>The decision\<close>

text \<open>What was seen while waiting: a key, the root device, and files on external media.\<close>

record seen =
  sn_pressed :: bool
  sn_root :: bool
  sn_files :: "string list"

definition testOpts :: "init_env \<Rightarrow> boot \<Rightarrow> unit flow \<times> boot" where
  "testOpts e b =
     (if ie_release e \<or> ie_integ e \<noteq> ''ck'' then (Goes (), b)
      else bt_then (act_if (ie_key e) LoadsKey b) (\<lambda>_ b1. bt_then (leave e PowersOff b1) (\<lambda>_ b2. (Ended, b2))))"

definition tryNormalBoot :: "init_env \<Rightarrow> string \<Rightarrow> seen \<Rightarrow> menu_keys list \<Rightarrow> boot \<Rightarrow> unit flow \<times> boot" where
  "tryNormalBoot e real_root sn turns b =
     (let rootDev = getRoot (ie_impl e) real_root
      in bt_then (testOpts e b) (\<lambda>_ b1.
           if sn_pressed sn then bootMenu e rootDev turns b1
           else if sn_files sn \<noteq> []
           then bt_then (show_msg ''Emergency-mode file found. Processing...'' b1) (\<lambda>_ b2.
             bt_then (leave e (Restores (WithEmergencyFile (sn_files sn))) b2) (\<lambda>_. leave e (Reboots True)))
           else if sn_root sn
           then bt_then (show_msg ''Continuing normal boot...'' b1) (\<lambda>_. switchroot e rootDev)
           else (Goes (), b1)))"

definition recover :: "init_env \<Rightarrow> boot \<Rightarrow> unit flow \<times> boot" where
  "recover e b = bt_then (leave e (Restores WithDefaults) b) (\<lambda>_. leave e (Reboots False))"

definition stage2 :: "init_env \<Rightarrow> string \<Rightarrow> string \<Rightarrow> seen \<Rightarrow> menu_keys list \<Rightarrow> boot \<Rightarrow> unit flow \<times> boot" where
  "stage2 e real_root se sn turns b =
     (if se \<noteq> [] then bt_then (leave e Erases b) (\<lambda>_ b1. bt_then (leave e (Reboots True) b1) (\<lambda>_. recover e))
      else if real_root \<noteq> []
      then bt_then (tryNormalBoot e real_root sn turns b) (\<lambda>_ b1. if \<not> ie_pid1 e then (Goes (), b1) else recover e b1)
      else recover e b)"


section \<open>What a call adds\<close>

text \<open>The acts that decide what becomes of the machine.\<close>

definition main_act :: "boot_act \<Rightarrow> bool" where
  "main_act a \<longleftrightarrow> (case a of Erases \<Rightarrow> True | Restores m \<Rightarrow> True | SwitchesRoot d \<Rightarrow> True | PowersOff \<Rightarrow> True | _ \<Rightarrow> False)"

definition bt_ok :: "boot \<Rightarrow> bool" where
  "bt_ok b \<longleftrightarrow> (case bt_lcd b of None \<Rightarrow> True | Some l \<Rightarrow> lcd_ok l)"

text \<open>After the call the display is in order, and exactly these acts have been added.\<close>

definition adds :: "boot \<Rightarrow> boot_act list \<Rightarrow> 'a flow \<times> boot \<Rightarrow> bool" where
  "adds b es x \<longleftrightarrow> bt_ok (snd x) \<and> (bt_lcd (snd x) = None \<longleftrightarrow> bt_lcd b = None) \<and> bt_did (snd x) = bt_did b @ es"

lemma adds_Goes [simp]: "adds b [] (Goes r, b) = bt_ok b"
  by (simp add: adds_def)

lemma adds_ends [simp]: "adds b [] (Crashed, b) = bt_ok b" "adds b [] (Waiting, b) = bt_ok b" "adds b [] (Ended, b) = bt_ok b"
  by (simp_all add: adds_def)

lemma adds_act: "bt_ok b \<Longrightarrow> \<exists>b1. act a b = (Goes (), b1) \<and> adds b [a] (Goes (), b1)"
  by (simp add: adds_def act_def bt_ok_def)

lemma adds_acts: "bt_ok b \<Longrightarrow> \<exists>b1. acts as b = (Goes (), b1) \<and> adds b as (Goes (), b1)"
  by (simp add: adds_def acts_def bt_ok_def)

lemma adds_act_if: "bt_ok b \<Longrightarrow> \<exists>b1. act_if c a b = (Goes (), b1) \<and> adds b (if c then [a] else []) (Goes (), b1)"
  by (simp add: adds_def act_def act_if_def bt_ok_def)

lemma adds_leave: "bt_ok b \<Longrightarrow> adds b [a] (leave e a b)"
  by (simp add: adds_def leave_def bt_ok_def)

lemma adds_show_msg: "bt_ok b \<Longrightarrow> \<exists>b1. show_msg t b = (Goes (), b1) \<and> adds b [] (Goes (), b1)"
  using Msg_ok [of "the (bt_lcd b)" "ascii t"] by (auto simp: adds_def show_msg_def bt_ok_def split: option.splits)

lemma adds_ask_menu:
  assumes "bt_ok b" "bt_lcd b \<noteq> None"
  shows "(case confirm_spec 8 (map round_keys rounds) 0 of
            None \<Rightarrow> ask_menu rounds b = (Waiting, b)
          | Some r \<Rightarrow> \<exists>b1. ask_menu rounds b = (Goes r, b1) \<and> adds b [] (Goes r, b1))"
proof -
  obtain l where l: "bt_lcd b = Some l" "lcd_ok l"
    using assms by (auto simp: bt_ok_def)
  define m where "m = MenuWithConfirm (ascii ''boot option'') bootMenuItems False rounds l"
  have c: "confirm_spec 8 (map round_keys rounds) 0 = map_option fst m"
    using MenuWithConfirm_loop_ok [OF l(2), of "ascii ''boot option''" bootMenuItems False rounds 0]
    by (simp add: m_def MenuWithConfirm_def bootMenuItems_def)
  have k: "lcd_ok l'" if "m = Some (r, l')" for r l'
    using MenuWithConfirm_loop_lcd [OF l(2)] that by (auto simp: m_def MenuWithConfirm_def)
  show ?thesis
    unfolding c ask_menu_def l(1) option.case m_def [symmetric]
    using k l(1) by (cases m) (auto simp: adds_def bt_ok_def)
qed

lemma adds_ask_erase:
  assumes "bt_ok b" "bt_lcd b \<noteq> None"
  shows "\<exists>b1. ask_erase again b = (Goes (answer_of (question_spec 2 0 (map q_key_of again))), b1)
    \<and> adds b [] (Goes (answer_of (question_spec 2 0 (map q_key_of again))), b1)"
proof -
  obtain l where l: "bt_lcd b = Some l" "lcd_ok l"
    using assms by (auto simp: bt_ok_def)
  from YesNo_ok [OF l(2), of "ascii erase_warning" again] show ?thesis
    by (auto simp: ask_erase_def adds_def bt_ok_def l(1))
qed

lemma adds_then:
  assumes "adds b es x" and "\<And>r b1. x = (Goes r, b1) \<Longrightarrow> adds b es (Goes r, b1) \<Longrightarrow> bt_ok b1 \<Longrightarrow> \<exists>es1. adds b1 es1 (f r b1) \<and> P (es @ es1)"
    and "P es"
  shows "\<exists>es2. adds b es2 (bt_then x f) \<and> P es2"
proof (cases x)
  case (Pair fl b1)
  show ?thesis
  proof (cases fl)
    case (Goes r)
    with assms(1) Pair have x: "x = (Goes r, b1)" "adds b es (Goes r, b1)" "bt_ok b1"
      by (auto simp: adds_def)
    from assms(2) [OF this] obtain es1 where e: "adds b1 es1 (f r b1)" "P (es @ es1)"
      by auto
    then have "adds b (es @ es1) (bt_then x f)"
      using x by (auto simp: adds_def)
    with e(2) show ?thesis by blast
  qed (use assms(1,3) Pair in \<open>auto simp: adds_def\<close>)
qed

lemma adds_Goes_ok: "adds b es (Goes r, b1) \<Longrightarrow> bt_ok b1 \<and> (bt_lcd b1 = None \<longleftrightarrow> bt_lcd b = None)"
  by (simp add: adds_def)

lemma adds_chain: "adds b es (Goes r, b1) \<Longrightarrow> adds b1 es1 x \<Longrightarrow> adds b (es @ es1) x"
  by (auto simp: adds_def)


section \<open>The decision, stated\<close>

definition switchable :: "init_env \<Rightarrow> bool" where
  "switchable e \<longleftrightarrow> ie_mounts_root e \<and> ie_flag e"

text \<open>After the root is switched to nothing else is decided; if it cannot be, \<open>d\<close> is.\<close>

definition switch_decision :: "init_env \<Rightarrow> string \<Rightarrow> boot_act option \<Rightarrow> boot_act option" where
  "switch_decision e dev d =
     (if \<not> switchable e then d else if cleanMounts (ie_mounts e) = Panics then None else Some (SwitchesRoot dev))"

text \<open>The user's decision, from the keys.\<close>

fun menu_decision :: "init_env \<Rightarrow> string \<Rightarrow> boot_act option \<Rightarrow> menu_keys list \<Rightarrow> boot_act option" where
  "menu_decision e dev d [] = None"
| "menu_decision e dev d ((rounds, again) # turns) =
     (case confirm_spec 8 (map round_keys rounds) 0 of
        None \<Rightarrow> None
      | Some (c, a) \<Rightarrow>
          (if c = 1 then Some PowersOff
           else if c = 3 then Some (Restores WithDefaults)
           else if c = 4 then Some (Restores (WithImgOpt ''oldest''))
           else if c = 5 then Some (Restores (WithImgOpt ''menu''))
           else if c = 7
           then (if question_spec 2 0 (map q_key_of again) = 1 then Some Erases else menu_decision e dev d turns)
           else switch_decision e dev d))"

definition boot_decision :: "init_env \<Rightarrow> string \<Rightarrow> string \<Rightarrow> seen \<Rightarrow> menu_keys list \<Rightarrow> bool \<Rightarrow> boot_act option" where
  "boot_decision e real_root se sn turns lcd =
     (let d = (if ie_pid1 e then Some (Restores WithDefaults) else None); dev = getRoot (ie_impl e) real_root
      in if se \<noteq> [] then Some Erases
         else if real_root = [] then Some (Restores WithDefaults)
         else if \<not> ie_release e \<and> ie_integ e = ''ck'' then Some PowersOff
         else if sn_pressed sn then (if lcd then menu_decision e dev d turns else None)
         else if sn_files sn \<noteq> [] then Some (Restores (WithEmergencyFile (sn_files sn)))
         else if sn_root sn then switch_decision e dev d
         else d)"

text \<open>A user who asks for it: the item is chosen and confirmed, and the question is answered with yes.\<close>

definition asked_to_erase :: "menu_keys list \<Rightarrow> bool" where
  "asked_to_erase turns \<longleftrightarrow>
     list_ex (\<lambda>(rounds, again). confirm_spec 8 (map round_keys rounds) 0 = Some (7, ANSWER_YES)
       \<and> question_spec 2 0 (map q_key_of again) = 1) turns"

lemma find_main_simps [simp]:
  "find main_act (a # as) = (if main_act a then Some a else find main_act as)"
  "main_act Erases" "main_act (Restores m)" "main_act (SwitchesRoot dev)" "main_act PowersOff"
  "\<not> main_act (Reboots s)" "\<not> main_act (MountsRoot dev)" "\<not> main_act UnmountsRoot" "\<not> main_act LoadsKey"
  "\<not> main_act ForksProgress" "\<not> main_act KillsUdev" "\<not> main_act (Unmounts p)"
  by (simp_all add: main_act_def)

lemma find_main_in: "find main_act as = Some a \<Longrightarrow> a \<in> set as"
  by (induction as) (auto split: if_splits)

lemma find_append: "find P (xs @ ys) = (case find P xs of None \<Rightarrow> find P ys | Some x \<Rightarrow> Some x)"
  by (induction xs) auto

lemma find_main_unmounts [simp]: "find main_act (map Unmounts us @ as) = find main_act as"
  by (induction us) simp_all

lemma switchroot_adds:
  assumes "bt_ok b"
  shows "\<exists>es. adds b es (switchroot e dev b) \<and> Erases \<notin> set es \<and> find main_act es = switch_decision e dev None
    \<and> (switch_decision e dev None = None \<longrightarrow> switchable e \<and> fst (switchroot e dev b) = Crashed \<or> \<not> switchable e \<and> fst (switchroot e dev b) = Goes ())"
proof (cases "switchable e")
  case False
  then show ?thesis
    using assms
    by (intro exI [of _ "if ie_mounts_root e then [MountsRoot dev, UnmountsRoot] else []"])
      (auto simp: switchable_def switchroot_def switch_decision_def adds_def act_def bt_ok_def)
next
  case True
  define pre where "pre = MountsRoot dev # (if ie_key e then [LoadsKey] else []) @ ForksProgress # (if ie_udev e then [KillsUdev] else [])"
  show ?thesis
  proof (cases "cleanMounts (ie_mounts e)")
    case (Returns us)
    show ?thesis
      using assms True Returns
      by (intro exI [of _ "pre @ map Unmounts us @ SwitchesRoot dev # (if ie_ends e (SwitchesRoot dev) then [] else [Reboots True])"])
        (auto simp: switchable_def switchroot_def switch_decision_def adds_def act_def act_if_def acts_def leave_def bt_ok_def pre_def)
  next
    case Panics
    then show ?thesis
      using assms True
      by (intro exI [of _ pre])
        (auto simp: switchable_def switchroot_def switch_decision_def adds_def act_def act_if_def acts_def leave_def bt_ok_def pre_def)
  qed
qed


lemma bt_then_assoc [simp]: "bt_then (bt_then x f) g = bt_then x (\<lambda>r b. bt_then (f r b) g)"
  by (cases "(x, f)" rule: bt_then.cases) auto

text \<open>The first deciding act of a call, and that it erases only if \<open>C\<close>.\<close>

definition decides :: "boot \<Rightarrow> boot_act option \<Rightarrow> bool \<Rightarrow> 'a flow \<times> boot \<Rightarrow> bool" where
  "decides b d C x \<longleftrightarrow> (\<exists>es. adds b es x \<and> find main_act es = d \<and> (Erases \<in> set es \<longrightarrow> C))"

definition same_display :: "boot \<Rightarrow> boot \<Rightarrow> bool" where
  "same_display b b1 \<longleftrightarrow> bt_ok b1 \<and> (bt_lcd b1 = None \<longleftrightarrow> bt_lcd b = None)"

lemma decides_done: "bt_ok b \<Longrightarrow> decides b None C (Goes r, b)" "bt_ok b \<Longrightarrow> decides b None C (Waiting, b)"
  "bt_ok b \<Longrightarrow> decides b None C (Crashed, b)"
  by (auto simp: decides_def intro: exI [of _ "[]"])

lemma decides_leave:
  "bt_ok b \<Longrightarrow> (a = Erases \<Longrightarrow> C) \<Longrightarrow> decides b (if main_act a then Some a else None) C (leave e a b)"
  unfolding decides_def by (rule exI [of _ "[a]"]) (auto simp: adds_leave)

lemma decides_weaken: "decides b d C x \<Longrightarrow> (C \<Longrightarrow> D) \<Longrightarrow> decides b d D x"
  by (auto simp: decides_def)

lemma decides_pre:
  assumes "adds b [] (Goes r, b1)" and "decides b1 d C (f r b1)"
  shows "decides b d C (bt_then (Goes r, b1) f)"
  using assms by (auto simp: decides_def adds_def)

lemma decides_then:
  assumes "decides b (Some a) C x" and "\<And>r b1. same_display b b1 \<Longrightarrow> \<exists>d. decides b1 d C (f r b1)"
  shows "decides b (Some a) C (bt_then x f)"
proof (cases "\<exists>r b1. x = (Goes r, b1)")
  case True
  then obtain r b1 where x: "x = (Goes r, b1)" by blast
  from assms(1) obtain es where es: "adds b es (Goes r, b1)" "find main_act es = Some a" "Erases \<in> set es \<longrightarrow> C"
    by (auto simp: decides_def x)
  then have "same_display b b1" by (simp add: adds_def same_display_def)
  from assms(2) [OF this] obtain es1 where "adds b1 es1 (f r b1)" "Erases \<in> set es1 \<longrightarrow> C"
    by (auto simp: decides_def)
  with es show ?thesis
    unfolding decides_def x bt_then.simps
    by (intro exI [of _ "es @ es1"]) (auto simp: find_append intro: adds_chain)
next
  case False
  then have "bt_then x f = (case x of (Ended, b1) \<Rightarrow> (Ended, b1) | (Crashed, b1) \<Rightarrow> (Crashed, b1) | (Waiting, b1) \<Rightarrow> (Waiting, b1))"
    by (auto split: prod.splits flow.splits)
  then show ?thesis
    using assms(1) False by (auto simp: decides_def adds_def split: prod.splits flow.splits)
qed

lemma decides_switch:
  assumes "bt_ok b" and "\<And>b1. same_display b b1 \<Longrightarrow> decides b1 d C (f () b1)"
  shows "decides b (switch_decision e dev d) C (bt_then (switchroot e dev b) f)"
proof -
  from switchroot_adds [OF assms(1), of e dev] obtain es where
    es: "adds b es (switchroot e dev b)" "Erases \<notin> set es" "find main_act es = switch_decision e dev None"
      "switch_decision e dev None = None \<longrightarrow>
         switchable e \<and> fst (switchroot e dev b) = Crashed \<or> \<not> switchable e \<and> fst (switchroot e dev b) = Goes ()"
    by (elim exE conjE)
  show ?thesis
  proof (cases "switch_decision e dev None")
    case (Some a)
    then have "decides b (Some a) C (switchroot e dev b)"
      using es by (auto simp: decides_def)
    then have "decides b (Some a) C (bt_then (switchroot e dev b) f)"
    proof (rule decides_then)
      show "\<exists>d. decides b1 d C (f r b1)" if "same_display b b1" for r b1
        using assms(2) [OF that] by (cases r) blast
    qed
    moreover have "switch_decision e dev d = Some a"
      using Some by (auto simp: switch_decision_def split: if_splits)
    ultimately show ?thesis by simp
  next
    case None
    then consider "switchable e" "fst (switchroot e dev b) = Crashed" | "\<not> switchable e" "fst (switchroot e dev b) = Goes ()"
      using es(4) by blast
    then show ?thesis
    proof cases
      case 1
      have "switch_decision e dev d = None"
        using None 1(1) by (auto simp: switch_decision_def split: if_splits)
      then show ?thesis
        using 1(2) es None by (cases "switchroot e dev b") (auto simp: decides_def adds_def)
    next
      case 2
      obtain b1 where b1: "switchroot e dev b = (Goes (), b1)"
        using 2(2) by (cases "switchroot e dev b") auto
      then have "same_display b b1" using es(1) by (simp add: adds_def same_display_def)
      from assms(2) [OF this] obtain es1 where e1: "adds b1 es1 (f () b1)" "find main_act es1 = d" "Erases \<in> set es1 \<longrightarrow> C"
        by (auto simp: decides_def)
      moreover have "adds b (es @ es1) (f () b1)"
        using es(1) e1(1) by (auto simp: b1 intro: adds_chain)
      moreover have "switch_decision e dev d = d" using 2(1) by (simp add: switch_decision_def)
      ultimately show ?thesis
        using es(2,3) None by (auto simp: decides_def b1 find_append)
    qed
  qed
qed


lemma decides_show:
  assumes "bt_ok b" and "\<And>b1. same_display b b1 \<Longrightarrow> decides b1 d C (f () b1)"
  shows "decides b d C (bt_then (show_msg t b) f)"
proof -
  from adds_show_msg [OF assms(1), of t] obtain b1 where b1: "show_msg t b = (Goes (), b1)" "adds b [] (Goes (), b1)"
    by blast
  then have "same_display b b1" by (simp add: adds_def same_display_def)
  from decides_pre [OF b1(2), of d C f] assms(2) [OF this] show ?thesis by (simp only: b1(1))
qed

lemma decides_ask_menu:
  assumes "bt_ok b" "bt_lcd b \<noteq> None"
    and "\<And>c a b1. confirm_spec 8 (map round_keys rounds) 0 = Some (c, a) \<Longrightarrow> same_display b b1 \<Longrightarrow> decides b1 (g c a) C (f (c, a) b1)"
  shows "decides b (case confirm_spec 8 (map round_keys rounds) 0 of None \<Rightarrow> None | Some (c, a) \<Rightarrow> g c a) C (bt_then (ask_menu rounds b) f)"
proof (cases "confirm_spec 8 (map round_keys rounds) 0")
  case None
  with adds_ask_menu [OF assms(1,2), of rounds] assms(1) show ?thesis by (simp add: decides_done)
next
  case (Some r)
  obtain c a where r: "r = (c, a)" by (cases r)
  from adds_ask_menu [OF assms(1,2), of rounds] Some r obtain b1 where
    b1: "ask_menu rounds b = (Goes (c, a), b1)" "adds b [] (Goes (c, a), b1)" by auto
  then have "same_display b b1" by (simp add: adds_def same_display_def)
  from decides_pre [OF b1(2), of "g c a" C f] assms(3) [OF _ this] Some r show ?thesis by (simp add: b1(1))
qed

lemma decides_ask_erase:
  assumes "bt_ok b" "bt_lcd b \<noteq> None"
    and "\<And>b1. same_display b b1 \<Longrightarrow> decides b1 d C (f (answer_of (question_spec 2 0 (map q_key_of again))) b1)"
  shows "decides b d C (bt_then (ask_erase again b) f)"
proof -
  from adds_ask_erase [OF assms(1,2), of again] obtain b1 where
    b1: "ask_erase again b = (Goes (answer_of (question_spec 2 0 (map q_key_of again))), b1)"
      "adds b [] (Goes (answer_of (question_spec 2 0 (map q_key_of again))), b1)" by blast
  then have "same_display b b1" by (simp add: adds_def same_display_def)
  from decides_pre [OF b1(2), of d C f] assms(3) [OF this] show ?thesis by (simp only: b1(1))
qed

lemma decides_main:
  assumes "bt_ok b" "main_act a" "a = Erases \<Longrightarrow> C" and "\<And>b1. same_display b b1 \<Longrightarrow> \<exists>d. decides b1 d C (f () b1)"
  shows "decides b (Some a) C (bt_then (leave e a b) f)"
proof (rule decides_then)
  show "decides b (Some a) C (leave e a b)"
    using decides_leave [OF assms(1), of a C e] assms(2,3) by simp
  show "\<exists>d. decides b1 d C (f r b1)" if "same_display b b1" for r b1
    using assms(4) [OF that] by (cases r) auto
qed

lemma decides_minor:
  "bt_ok b \<Longrightarrow> \<not> main_act a \<Longrightarrow> decides b None C (leave e a b)"
  unfolding decides_def by (rule exI [of _ "[a]"]) (auto simp: adds_leave)

lemma same_displayD: "same_display b b1 \<Longrightarrow> bt_ok b1" "same_display b b1 \<Longrightarrow> bt_lcd b \<noteq> None \<Longrightarrow> bt_lcd b1 \<noteq> None"
  by (auto simp: same_display_def)

lemma bootMenu_loop_decides:
  assumes "bt_ok b" "bt_lcd b \<noteq> None"
    and g: "\<And>b1. bt_ok b1 \<Longrightarrow> decides b1 d C (g () b1)"
  shows "decides b (menu_decision e dev d turns) (asked_to_erase turns \<or> C) (bt_then (bootMenu_loop e dev turns b) g)"
  using assms(1,2)
proof (induction turns arbitrary: b)
  case Nil
  then show ?case by (simp add: decides_done)
next
  case (Cons t turns)
  obtain rounds again where t: "t = (rounds, again)" by (cases t)
  define D where "D = (asked_to_erase (t # turns) \<or> C)"
  have g': "bt_ok b1 \<Longrightarrow> decides b1 d D (g () b1)" for b1
    using g by (auto simp: D_def intro: decides_weaken)
  have IH: "decides b1 (menu_decision e dev d turns) D (bt_then (bootMenu_loop e dev turns b1) g)"
    if "same_display b b1" for b1
    using Cons.IH [of b1] same_displayD [OF that] Cons.prems(2)
    by (auto simp: D_def asked_to_erase_def intro: decides_weaken)
  show ?case
    unfolding D_def [symmetric] unfolding t bootMenu_loop.simps menu_decision.simps bt_then_assoc
  proof (rule decides_ask_menu [OF Cons.prems])
    fix c a b1
    assume r: "confirm_spec 8 (map round_keys rounds) 0 = Some (c, a)" and b1: "same_display b b1"
    note ok1 = same_displayD [OF b1] Cons.prems(2)
    from confirm_spec_result [OF _ _ r] have c: "-2 \<le> c" "c < 8" "a = ANSWER_YES \<or> c = CHOICE_NONE" by auto
    have erase: "D" if "c = 7" "question_spec 2 0 (map q_key_of again) = 1"
      using that r c by (auto simp: D_def t asked_to_erase_def CHOICE_NONE_def)
    have trans: "same_display b1 b2 \<Longrightarrow> same_display b b2" for b2
      using b1 by (simp add: same_display_def)
    have next_g: "\<exists>d'. decides b3 d' D
        (bt_then (case Some a of Some ANSWER_NA \<Rightarrow> bootMenu_loop e dev turns b3 | _ \<Rightarrow> (Goes (), b3)) g)"
      if "a = ANSWER_YES" "bt_ok b3" for b3
      using g' that by auto
    consider "c \<in> {-2, -1, 0}" | "c = 1" | "c = 3" | "c = 4" | "c = 5" | "c = 7" | "c \<in> {2, 6}"
    proof -
      have "c = -2 \<or> c = -1 \<or> c = 0 \<or> c = 1 \<or> c = 2 \<or> c = 3 \<or> c = 4 \<or> c = 5 \<or> c = 6 \<or> c = 7"
        using c(1,2) by presburger
      then show thesis using that by blast
    qed
    then show "decides b1
        (if c = 1 then Some PowersOff else if c = 3 then Some (Restores WithDefaults)
         else if c = 4 then Some (Restores (WithImgOpt ''oldest'')) else if c = 5 then Some (Restores (WithImgOpt ''menu''))
         else if c = 7 then (if question_spec 2 0 (map q_key_of again) = 1 then Some Erases else menu_decision e dev d turns)
         else switch_decision e dev d) D
        (bt_then (do_choice e dev again (c, a) b1) (\<lambda>nx b2.
           bt_then (case nx of Some ANSWER_NA \<Rightarrow> bootMenu_loop e dev turns b2 | _ \<Rightarrow> (Goes (), b2)) g))"
    proof cases
      case 1
      then show ?thesis
        using ok1 g' by (auto simp: do_choice_def choice_defs same_display_def intro!: decides_show decides_switch)
    next
      case 2
      then show ?thesis
        using ok1 c next_g by (auto simp: do_choice_def choice_defs same_display_def intro!: decides_show decides_main)
    next
      case 3
      then show ?thesis
        using ok1 c next_g by (auto simp: do_choice_def choice_defs same_display_def intro!: decides_show decides_main)
    next
      case 4
      then show ?thesis
        using ok1 c next_g by (auto simp: do_choice_def choice_defs same_display_def intro!: decides_show decides_main)
    next
      case 5
      have "\<exists>d'. decides b3 d' D (bt_then (bootMenu_loop e dev turns b3) g)" if "same_display b b3" for b3
        using IH [OF that] by blast
      then show ?thesis
        using 5 ok1 b1 by (auto simp: do_choice_def choice_defs same_display_def intro!: decides_show decides_main)
    next
      case 6
      have "answer_of (question_spec 2 0 (map q_key_of again)) = ANSWER_YES \<longleftrightarrow> question_spec 2 0 (map q_key_of again) = 1"
        by (simp add: answer_of_def)
      then show ?thesis
        using 6 ok1 b1 c next_g erase IH Cons.prems
        by (auto simp: do_choice_def choice_defs same_display_def intro!: decides_ask_erase decides_main)
    next
      case 7
      then show ?thesis
        using ok1 c g' by (auto simp: do_choice_def choice_defs same_display_def bootMenuItems_def intro!: decides_show decides_switch)
    qed
  qed
qed


lemma decides_recover:
  assumes "bt_ok b"
  shows "decides b (Some (Restores WithDefaults)) C (recover e b)"
  unfolding recover_def
proof (rule decides_main [OF assms])
  show "\<exists>d. decides b1 d C (leave e (Reboots False) b1)" if "same_display b b1" for b1
    using decides_minor [of b1 "Reboots False" C e] same_displayD(1) [OF that] by auto
qed simp_all

lemma decides_testOpts:
  assumes "bt_ok b" and "\<And>b1. same_display b b1 \<Longrightarrow> decides b1 d C (f () b1)"
  shows "decides b (if \<not> ie_release e \<and> ie_integ e = ''ck'' then Some PowersOff else d) C (bt_then (testOpts e b) f)"
proof (cases "\<not> ie_release e \<and> ie_integ e = ''ck''")
  case True
  have "decides b (Some PowersOff) C (bt_then (act_if (ie_key e) LoadsKey b) (\<lambda>_ b1. bt_then (leave e PowersOff b1) (\<lambda>_ b2. (Ended, b2))))"
    using assms(1) unfolding decides_def
    by (intro exI [of _ "(if ie_key e then [LoadsKey] else []) @ [PowersOff]"])
      (auto simp: act_if_def act_def leave_def adds_def bt_ok_def)
  then have "decides b (Some PowersOff) C (bt_then (testOpts e b) f)"
    unfolding testOpts_def using True
    by (auto simp: act_if_def act_def leave_def)
  then show ?thesis using True by simp
next
  case False
  then have "testOpts e b = (Goes (), b)" by (auto simp: testOpts_def)
  then show ?thesis using assms False by (auto simp: same_display_def)
qed

lemma stage2_decides:
  assumes "bt_ok b"
  shows "decides b (boot_decision e real_root se sn turns (bt_lcd b \<noteq> None)) (se \<noteq> [] \<or> sn_pressed sn \<and> asked_to_erase turns)
    (stage2 e real_root se sn turns b)"
proof -
  define C where "C = (se \<noteq> [] \<or> sn_pressed sn \<and> asked_to_erase turns)"
  define d where "d = (if ie_pid1 e then Some (Restores WithDefaults) else None)"
  define k where "k = (\<lambda>(u :: unit) b1. if \<not> ie_pid1 e then (Goes (), b1) else recover e b1)"
  define dev where "dev = getRoot (ie_impl e) real_root"
  have k: "decides b1 d D (k () b1)" if "bt_ok b1" for b1 D
    using that by (simp add: k_def d_def decides_done decides_recover)
  have main: "decides b (if \<not> ie_release e \<and> ie_integ e = ''ck'' then Some PowersOff
       else if sn_pressed sn then (if bt_lcd b \<noteq> None then menu_decision e dev d turns else None)
       else if sn_files sn \<noteq> [] then Some (Restores (WithEmergencyFile (sn_files sn)))
       else if sn_root sn then switch_decision e dev d else d) C
     (bt_then (tryNormalBoot e real_root sn turns b) k)"
    unfolding tryNormalBoot_def Let_def dev_def [symmetric] bt_then_assoc
  proof (rule decides_testOpts [OF assms])
    fix b1 assume b1: "same_display b b1"
    note ok1 = same_displayD(1) [OF b1]
    have lcd: "(bt_lcd b1 = None) = (bt_lcd b = None)" using b1 by (simp add: same_display_def)
    consider "sn_pressed sn" "bt_lcd b1 \<noteq> None" | "sn_pressed sn" "bt_lcd b1 = None"
      | "\<not> sn_pressed sn" "sn_files sn \<noteq> []" | "\<not> sn_pressed sn" "sn_files sn = []" "sn_root sn"
      | "\<not> sn_pressed sn" "sn_files sn = []" "\<not> sn_root sn" by blast
    then show "decides b1
        (if sn_pressed sn then if bt_lcd b \<noteq> None then menu_decision e dev d turns else None
         else if sn_files sn \<noteq> [] then Some (Restores (WithEmergencyFile (sn_files sn)))
         else if sn_root sn then switch_decision e dev d else d) C
        (bt_then (if sn_pressed sn then bootMenu e dev turns b1
           else if sn_files sn \<noteq> []
           then bt_then (show_msg ''Emergency-mode file found. Processing...'' b1) (\<lambda>_ b2.
             bt_then (leave e (Restores (WithEmergencyFile (sn_files sn))) b2) (\<lambda>_. leave e (Reboots True)))
           else if sn_root sn
           then bt_then (show_msg ''Continuing normal boot...'' b1) (\<lambda>_. switchroot e dev)
           else (Goes (), b1)) k)"
    proof cases
      case 1
      have "decides b1 (menu_decision e dev d turns) (asked_to_erase turns \<or> C) (bt_then (bootMenu_loop e dev turns b1) k)"
        by (rule bootMenu_loop_decides [OF ok1 1(2)]) (rule k)
      then have "decides b1 (menu_decision e dev d turns) C (bt_then (bootMenu_loop e dev turns b1) k)"
        by (rule decides_weaken) (use 1 in \<open>auto simp: C_def\<close>)
      then show ?thesis using 1 lcd by (auto simp: bootMenu_def)
    next
      case 2
      then show ?thesis using lcd ok1 by (simp add: bootMenu_def decides_done)
    next
      case 3
      have "\<exists>d'. decides b2 d' C (bt_then (leave e (Reboots True) b2) k)" if "bt_ok b2" for b2
        using that k by (cases "ie_ends e (Reboots True)") (auto simp: decides_def leave_def adds_def bt_ok_def d_def k_def recover_def)
      then show ?thesis using 3 ok1
        by (auto simp: same_display_def intro!: decides_show decides_main)
    next
      case 4
      then show ?thesis using ok1 k
        by (auto simp: same_display_def intro!: decides_show decides_switch)
    next
      case 5
      then show ?thesis using ok1 k by auto
    qed
  qed
  have ends: "\<exists>d'. decides b1 d' C (bt_then (leave e (Reboots True) b1) (\<lambda>_. recover e))" if "bt_ok b1" for b1
    using that by (cases "ie_ends e (Reboots True)") (auto simp: decides_def leave_def adds_def bt_ok_def recover_def)
  show ?thesis
    unfolding C_def [symmetric] boot_decision_def Let_def d_def [symmetric] dev_def [symmetric] stage2_def
    using main assms ends C_def
    by (auto simp: k_def same_display_def decides_recover intro!: decides_main)
qed


section \<open>Properties\<close>

text \<open>C15: whatever the calls that end the program do, the first act that decides about the machine is the one the order
  of precedence gives: the request to erase, the key and what is chosen in the menu with it, emergency files, the
  root file system if it is ready, and otherwise the recovery.\<close>

theorem stage2_follows_precedence:
  assumes "bt_ok b" "bt_did b = []"
  shows "find main_act (bt_did (snd (stage2 e real_root se sn turns b))) = boot_decision e real_root se sn turns (bt_lcd b \<noteq> None)"
  using stage2_decides [OF assms(1)] assms(2) unfolding decides_def adds_def by auto

text \<open>Keys for the last item of the menu, confirmed, and for a yes.\<close>

definition erase_keys :: menu_keys where
  "erase_keys =
     ([(map (\<lambda>k. (k, \<lambda>_. True)) [KEY_DOWN_RELEASE, KEY_DOWN_RELEASE, KEY_DOWN_RELEASE, KEY_DOWN_RELEASE, KEY_DOWN_RELEASE,
          KEY_DOWN_RELEASE, KEY_DOWN_RELEASE, KEY_ENTER_RELEASE], [KEY_RIGHT_RELEASE, KEY_ENTER_RELEASE])],
      [KEY_RIGHT_RELEASE, KEY_ENTER_RELEASE])"

definition example_init :: init_env where
  "example_init = \<lparr>ie_impl = None, ie_ends = (\<lambda>a. True), ie_mounts_root = True, ie_flag = True, ie_key = False, ie_mounts = None,
     ie_release = True, ie_integ = [], ie_pid1 = True, ie_udev = True\<rparr>"

lemma erase_keys_spec:
  "confirm_spec 8 (map round_keys (fst erase_keys)) 0 = Some (7, ANSWER_YES)"
  "question_spec 2 0 (map q_key_of (snd erase_keys)) = 1"
  by (simp_all add: erase_keys_def round_keys_def menu_key_of_def q_key_of_def key_defs answer_of_def CHOICE_NONE_def)

lemma boot_decision_erase:
  "boot_decision example_init ''UUID=1'' [] \<lparr>sn_pressed = True, sn_root = True, sn_files = [''f'']\<rparr> [erase_keys] True = Some Erases"
proof -
  obtain rounds again where k: "erase_keys = (rounds, again)" by (cases erase_keys)
  from erase_keys_spec [unfolded k] show ?thesis
    unfolding k by (simp add: boot_decision_def example_init_def)
qed

theorem stage2_follows_precedence_witness:
  "find main_act (bt_did (snd (stage2 example_init ''UUID=1'' [] \<lparr>sn_pressed = True, sn_root = True, sn_files = [''f'']\<rparr> [erase_keys]
     \<lparr>bt_lcd = Some (test_lcd Cfa635 silent), bt_did = []\<rparr>))) = Some Erases"
  by (subst stage2_follows_precedence) (simp_all add: bt_ok_def boot_decision_erase)

text \<open>C38: the data is erased only if the kernel's arguments ask for it, or if a key was pressed at the start, the item
  of the menu was chosen and confirmed, and the further question was answered with yes.\<close>

theorem erase_needs_consent:
  assumes "bt_ok b" "bt_did b = []" "Erases \<in> set (bt_did (snd (stage2 e real_root se sn turns b)))"
  shows "se \<noteq> [] \<or> sn_pressed sn \<and> (\<exists>(rounds, again) \<in> set turns.
    confirm_spec 8 (map round_keys rounds) 0 = Some (7, ANSWER_YES) \<and> question_spec 2 0 (map q_key_of again) = 1)"
proof -
  have "se \<noteq> [] \<or> sn_pressed sn \<and> asked_to_erase turns"
    using stage2_decides [OF assms(1), of e real_root se sn turns] assms(2,3) unfolding decides_def adds_def by auto
  then show ?thesis
    by (auto simp: asked_to_erase_def list_ex_iff)
qed

lemma stage2_erases:
  "Erases \<in> set (bt_did (snd (stage2 example_init ''UUID=1'' [] \<lparr>sn_pressed = True, sn_root = True, sn_files = [''f'']\<rparr> [erase_keys]
     \<lparr>bt_lcd = Some (test_lcd Cfa635 silent), bt_did = []\<rparr>)))"
proof -
  have "bt_ok \<lparr>bt_lcd = Some (test_lcd Cfa635 silent), bt_did = []\<rparr>" by (simp add: bt_ok_def)
  from stage2_decides [OF this, of example_init "''UUID=1''" "[]" "\<lparr>sn_pressed = True, sn_root = True, sn_files = [''f'']\<rparr>" "[erase_keys]"]
  show ?thesis
    unfolding decides_def adds_def by (auto simp: boot_decision_erase dest: find_main_in)
qed

theorem erase_needs_consent_witness:
  "\<exists>(rounds, again) \<in> set [erase_keys].
    confirm_spec 8 (map round_keys rounds) 0 = Some (7, ANSWER_YES) \<and> question_spec 2 0 (map q_key_of again) = 1"
  using erase_needs_consent [OF _ _ stage2_erases] by (simp add: bt_ok_def)

text \<open>A unit whose root cannot be used is restored also when the user asks to resume the normal boot.\<close>

lemma resume_without_flag:
  assumes "\<not> switchable e" "confirm_spec 8 (map round_keys rounds) 0 = Some (0, a)"
  shows "menu_decision e dev d [(rounds, again)] = d"
  using assms by (simp add: switch_decision_def)

section \<open>Devices, variables, logging\<close>

lemma getRoot_identifies:
  "validIdType (ascii_lower t) \<Longrightarrow> CHR ''='' \<notin> set t \<Longrightarrow> CHR ''='' \<notin> set i \<Longrightarrow>
     getRoot impl (t @ CHR ''='' # i) = ''/dev/disk/by-'' @ ascii_lower t @ ''/'' @ i"
  by (simp add: getRoot_def split_on_append split_on_no_sep)

text \<open>An argument with a further equals sign, as in a label, is not understood.\<close>

lemma getRoot_label_with_equals: "getRoot None ''LABEL=a=b'' = ''/dev/disk/by-label/PRIMARY''"
  by (simp add: getRoot_def default_strings_def strs_of_def)

lemma init_dirs_parents_first:
  "i < length init_dirs \<Longrightarrow> path_Dir (init_dirs ! i) \<in> insert ''/'' (set (take i init_dirs))"
proof -
  have "list_all (\<lambda>i. path_Dir (init_dirs ! i) \<in> insert ''/'' (set (take i init_dirs))) [0..<length init_dirs]"
    by code_simp
  then show "i < length init_dirs \<Longrightarrow> path_Dir (init_dirs ! i) \<in> insert ''/'' (set (take i init_dirs))"
    by (simp add: list_all_iff)
qed

text \<open>Once the variables are removed the program is not started again.\<close>

lemma handleEnvVars_once: "handleEnvVars current = Some env \<Longrightarrow> handleEnvVars env = None"
  by (auto simp: handleEnvVars_def Let_def split: if_splits)

lemma handleEnvVars_keeps:
  "handleEnvVars current = Some env \<Longrightarrow> v \<in> set env \<longleftrightarrow> v \<in> set current \<and> (\<forall>bad \<in> set bad_vars. \<not> has_prefix v bad)"
  by (auto simp: handleEnvVars_def Let_def split: if_splits)

text \<open>A released program logs the early start of no machine but a test machine.\<close>

lemma ext_log_released:
  "ext_log True xl plat skip any = Some ser \<Longrightarrow> plat = Some (''qemu'', ser) \<and> xl \<noteq> []"
  by (auto simp: ext_log_def split: if_splits option.splits prod.splits)

end
