(* ===== verification/Kver.thy ===== *)
theory Kver
  imports GoStd
begin

text \<open>
  Kernel versions (\<open>pkg/fileutil/kver\<close>): the description in the header of a kernel image, and its parts.  The
  reading of the build time is a parameter.
\<close>

datatype kv_error = EIo | EBootSig | EBadSig | EBadOff | EBadStr | EParse | ENumber | ETime

section \<open>The description\<close>

text \<open>Reading into the first \<open>n\<close> bytes of a buffer: what the file does not fill stays as it was, and at the end of the file
  it is an error.\<close>

definition read_into :: "bytes \<Rightarrow> nat \<Rightarrow> nat \<Rightarrow> bytes \<Rightarrow> bytes option" where
  "read_into file off n buf =
     (let r = take n (drop off file) in if r = [] then None else Some (r @ drop (length r) buf))"

definition GetKDesc :: "bytes \<Rightarrow> kv_error + string" where
  "GetKDesc file =
     (case read_into file 0 530 (replicate 1024 0) of
        None \<Rightarrow> Inl EIo
      | Some buf \<Rightarrow>
          (if take 2 (drop 510 buf) \<noteq> [0x55, 0xaa] then Inl EBootSig
           else if take 4 (drop 514 buf) \<noteq> ascii ''HdrS'' then Inl EBadSig
           else if take 4 (drop 526 buf) = [0, 0, 0, 0] then Inl EBadOff
           else case read_into file (unat (le_val (take 2 (drop 526 buf)) :: u16) + 0x200) 1024 buf of
                  None \<Rightarrow> Inl EIo
                | Some buf1 \<Rightarrow>
                    (let s = takeWhile (\<lambda>b. b \<noteq> 0) buf1
                     in if length s \<ge> 1023 then Inl EBadStr else Inr (map (\<lambda>b. char_of (unat b)) s))))"

section \<open>Its parts\<close>

record 't KInfo =
  ki_Release :: string
  ki_Version :: string
  ki_Builder :: string
  ki_BuildNum :: nat
  ki_BuildTime :: 't
  ki_Maj :: nat
  ki_Min :: nat
  ki_Patch :: nat
  ki_LocalVer :: string

text \<open>\<open>strings.SplitN\<close> into at most two, and \<open>strings.Trim\<close> with a set of characters.\<close>

definition split_two :: "char \<Rightarrow> string \<Rightarrow> string list" where
  "split_two c s = (case split_on c s of p # q # ps \<Rightarrow> [p, join_with [c] (q # ps)] | ps \<Rightarrow> ps)"

definition trim_set :: "char set \<Rightarrow> string \<Rightarrow> string" where
  "trim_set cs s = rev (dropWhile (\<lambda>c. c \<in> cs) (rev (dropWhile (\<lambda>c. c \<in> cs) s)))"

text \<open>The numbers of the release: \<open>None\<close> if there are too few.\<close>

definition parse_release :: "string \<Rightarrow> kv_error + (nat \<times> nat \<times> nat \<times> string)" where
  "parse_release rel =
     (let es = split_on CHR ''.'' rel
      in if length es < 3 then Inl EParse
         else case (ParseUint10 64 (es ! 0), ParseUint10 64 (es ! 1), ParseUint10 64 (hd (split_two CHR ''-'' (es ! 2)))) of
                (Some a, Some b, Some c) \<Rightarrow>
                  Inr (a, b, c, case split_two CHR ''-'' (last es) of [_, l] \<Rightarrow> l | _ \<Rightarrow> [])
              | _ \<Rightarrow> Inl ENumber)"

definition ParseDesc :: "(string \<Rightarrow> 't option) \<Rightarrow> string \<Rightarrow> kv_error + 't KInfo" where
  "ParseDesc parse_time desc =
     (case split_on CHR ''#'' desc of
        [first, rest] \<Rightarrow>
          (let els = split_two CHR '' '' first;
               builder = (case els of [_, b] \<Rightarrow> trim_set {CHR '' '', CHR ''('', CHR '')''} b | _ \<Rightarrow> [])
           in case split_two CHR '' '' rest of
                [num, t0] \<Rightarrow>
                  (case ParseUint10 64 num of
                     None \<Rightarrow> Inl ENumber
                   | Some n \<Rightarrow>
                       (case parse_time (TrimSpace (trim_prefix ''SMP'' t0)) of
                          None \<Rightarrow> Inl ETime
                        | Some t \<Rightarrow>
                            (case parse_release (hd els) of
                               Inl e \<Rightarrow> Inl e
                             | Inr (a, b, c, l) \<Rightarrow>
                                 Inr \<lparr>ki_Release = hd els, ki_Version = ''#'' @ rest, ki_Builder = builder, ki_BuildNum = n, ki_BuildTime = t,
                                      ki_Maj = a, ki_Min = b, ki_Patch = c, ki_LocalVer = l\<rparr>)))
              | _ \<Rightarrow> Inl EParse)
      | _ \<Rightarrow> Inl EParse)"

section \<open>Reading back\<close>

lemma split_two_first:
  assumes "c \<notin> set a"
  shows "split_two c (a @ c # s) = [a, s]"
proof -
  obtain p ps where p: "split_on c s = p # ps"
    by (cases "split_on c s") auto
  with join_split [of c s] have "join_with [c] (p # ps) = s" by simp
  then show ?thesis
    using assms p by (simp add: split_two_def split_on_append)
qed

lemma split_two_none: "c \<notin> set a \<Longrightarrow> split_two c a = [a]"
  by (simp add: split_two_def split_on_no_sep)

lemma dropWhile_kept: "s \<noteq> [] \<Longrightarrow> \<not> P (hd s) \<Longrightarrow> dropWhile P (s @ t) = s @ t"
  by (cases s) auto

lemma trim_set_around:
  assumes "s \<noteq> []" "hd s \<notin> cs" "last s \<notin> cs" "set pre \<subseteq> cs" "set post \<subseteq> cs"
  shows "trim_set cs (pre @ s @ post) = s"
proof -
  have "dropWhile (\<lambda>c. c \<in> cs) (pre @ s @ post) = dropWhile (\<lambda>c. c \<in> cs) (s @ post)"
    using assms(4) by (intro dropWhile_append2) auto
  also have "\<dots> = s @ post"
    using assms(1,2) by (rule dropWhile_kept)
  finally have 1: "dropWhile (\<lambda>c. c \<in> cs) (pre @ s @ post) = s @ post" .
  have "dropWhile (\<lambda>c. c \<in> cs) (rev post @ rev s) = dropWhile (\<lambda>c. c \<in> cs) (rev s)"
    using assms(5) by (intro dropWhile_append2) auto
  also have "\<dots> = rev s"
    using dropWhile_kept [of "rev s" "\<lambda>c. c \<in> cs" "[]"] assms(1,3) by (simp add: hd_rev)
  finally show ?thesis by (simp add: trim_set_def 1)
qed

text \<open>The release is read back from its numbers and a local version without dots.\<close>

lemma show_dec_free: "c \<notin> set ''0123456789'' \<Longrightarrow> c \<notin> set (show_dec n)"
  using show_dec_chars by blast

lemma parse_release_reads_back:
  assumes "a < 2 ^ 64" "b < 2 ^ 64" "c < 2 ^ 64" "CHR ''.'' \<notin> set l"
  shows "parse_release (show_dec a @ ''.'' @ show_dec b @ ''.'' @ show_dec c @ ''-'' @ l) = Inr (a, b, c, l)"
proof -
  have free: "CHR ''.'' \<notin> set (show_dec n)" "CHR ''-'' \<notin> set (show_dec n)" for n
    by (rule show_dec_free; simp)+
  have "split_on CHR ''.'' (show_dec a @ ''.'' @ show_dec b @ ''.'' @ show_dec c @ ''-'' @ l) = [show_dec a, show_dec b, show_dec c @ ''-'' @ l]"
    using assms(4) free by (simp add: split_on_append split_on_no_sep)
  then show ?thesis
    using assms(1-3) free by (simp add: parse_release_def split_two_first)
qed

text \<open>With dots in it the local version is lost or cut.\<close>

lemma parse_release_dots: "parse_release ''3.10.0-957.el7.x86_64'' = Inr (3, 10, 0, [])"
  by (simp add: parse_release_def split_two_def ParseUint10_def all_digits_def dec_val_def digit_val_def)

lemma TrimSpace_around:
  assumes "s \<noteq> []" "\<not> is_space (hd s)" "\<not> is_space (last s)"
  shows "TrimSpace (CHR '' '' # s) = s"
proof -
  have "dropWhile is_space (CHR '' '' # s) = s"
    using dropWhile_kept [of s is_space "[]"] assms(1,2) by (simp add: is_space_def)
  moreover have "dropWhile is_space (rev s) = rev s"
    using dropWhile_kept [of "rev s" is_space "[]"] assms(1,3) by (simp add: hd_rev)
  ultimately show ?thesis by (simp add: TrimSpace_def)
qed

section \<open>Properties\<close>

text \<open>A description in the kernel's form is taken apart into the parts it was made of.\<close>

theorem ParseDesc_reads_back:
  assumes "a < 2 ^ 64" "b < 2 ^ 64" "c < 2 ^ 64" "n < 2 ^ 64"
    and "set l \<inter> set ''.# '' = {}" "CHR ''#'' \<notin> set builder" "CHR ''#'' \<notin> set t"
    and "builder \<noteq> []" "hd builder \<notin> set '' ()''" "last builder \<notin> set '' ()''"
    and "t \<noteq> []" "\<not> is_space (hd t)" "\<not> is_space (last t)" "parse_time t = Some time"
  shows "ParseDesc parse_time (show_dec a @ ''.'' @ show_dec b @ ''.'' @ show_dec c @ ''-'' @ l @ '' ('' @ builder @ '') #'' @ show_dec n @ '' SMP '' @ t)
    = Inr \<lparr>ki_Release = show_dec a @ ''.'' @ show_dec b @ ''.'' @ show_dec c @ ''-'' @ l, ki_Version = ''#'' @ show_dec n @ '' SMP '' @ t,
        ki_Builder = builder, ki_BuildNum = n, ki_BuildTime = time, ki_Maj = a, ki_Min = b, ki_Patch = c, ki_LocalVer = l\<rparr>"
proof -
  define rel where "rel = show_dec a @ ''.'' @ show_dec b @ ''.'' @ show_dec c @ ''-'' @ l"
  have free: "CHR ''#'' \<notin> set (show_dec k)" "CHR '' '' \<notin> set (show_dec k)" for k
    by (rule show_dec_free; simp)+
  have r: "CHR ''#'' \<notin> set rel" "CHR '' '' \<notin> set rel" "parse_release rel = Inr (a, b, c, l)"
    using assms(1-3,5) free parse_release_reads_back [of a b c l] by (auto simp: rel_def)
  have s: "split_on CHR ''#'' (rel @ '' ('' @ builder @ '') #'' @ show_dec n @ '' SMP '' @ t) =
      [rel @ '' ('' @ builder @ '') '', show_dec n @ '' SMP '' @ t]"
    using split_on_append [of "CHR ''#''" "rel @ '' ('' @ builder @ '') ''" "show_dec n @ '' SMP '' @ t"]
      r(1) assms(6,7) free by (simp add: split_on_no_sep)
  have b: "trim_set {CHR '' '', CHR ''('', CHR '')''} (''('' @ builder @ '') '') = builder"
    using assms(8-10) by (intro trim_set_around) auto
  have e: "split_two CHR '' '' (rel @ '' ('' @ builder @ '') '') = [rel, ''('' @ builder @ '') '']"
    using split_two_first [OF r(2)] by simp
  have e2: "split_two CHR '' '' (show_dec n @ '' SMP '' @ t) = [show_dec n, ''SMP '' @ t]"
    using split_two_first [OF free(2)] by simp
  have t: "TrimSpace (trim_prefix ''SMP'' (''SMP '' @ t)) = t"
    using TrimSpace_around [OF assms(11-13)] trim_prefix_append [of "''SMP''" "CHR '' '' # t"] by simp
  have "ParseDesc parse_time (rel @ '' ('' @ builder @ '') #'' @ show_dec n @ '' SMP '' @ t) =
      Inr \<lparr>ki_Release = rel, ki_Version = ''#'' @ show_dec n @ '' SMP '' @ t, ki_Builder = builder, ki_BuildNum = n, ki_BuildTime = time,
        ki_Maj = a, ki_Min = b, ki_Patch = c, ki_LocalVer = l\<rparr>"
    unfolding ParseDesc_def s list.case Let_def e e2 t b
    using assms(4,14) r(3) by simp
  then show ?thesis by (simp add: rel_def)
qed

theorem ParseDesc_reads_back_witness:
  "ParseDesc (\<lambda>t. if t = ''Fri Jan 25 16:32:19 UTC 2019'' then Some (1548433939 :: int) else None)
     (show_dec 4 @ ''.'' @ show_dec 19 @ ''.'' @ show_dec 16 @ ''-'' @ ''norm_boot'' @ '' ('' @ ''user@host'' @ '') #'' @ show_dec 300
        @ '' SMP '' @ ''Fri Jan 25 16:32:19 UTC 2019'')
   = Inr \<lparr>ki_Release = show_dec 4 @ ''.'' @ show_dec 19 @ ''.'' @ show_dec 16 @ ''-'' @ ''norm_boot'',
        ki_Version = ''#'' @ show_dec 300 @ '' SMP '' @ ''Fri Jan 25 16:32:19 UTC 2019'', ki_Builder = ''user@host'', ki_BuildNum = 300,
        ki_BuildTime = 1548433939, ki_Maj = 4, ki_Min = 19, ki_Patch = 16, ki_LocalVer = ''norm_boot''\<rparr>"
  by (rule ParseDesc_reads_back) (simp_all add: is_space_def)

text \<open>The description is found where the header says, up to its zero byte.\<close>

lemma read_into_take:
  assumes "read_into file off n buf = Some buf1" "i + k \<le> n" "off + i + k \<le> length file"
  shows "take k (drop i buf1) = take k (drop (off + i) file)"
proof -
  have l: "length (take n (drop off file)) \<ge> i + k" using assms(2,3) by simp
  have "buf1 = take n (drop off file) @ drop (length (take n (drop off file))) buf"
    using assms(1) by (auto simp: read_into_def Let_def split: if_splits)
  then have "take k (drop i buf1) = take k (drop i (take n (drop off file)))"
    using l by simp
  also have "\<dots> = take k (drop (off + i) file)"
    using assms(2) by (simp add: drop_take add.commute min_def)
  finally show ?thesis .
qed

lemma takeWhile_stop: "list_all P xs \<Longrightarrow> \<not> P y \<Longrightarrow> takeWhile P (xs @ y # ys) = xs"
  by (induction xs) auto

theorem GetKDesc_finds_description:
  assumes "take 2 (drop 510 file) = [0x55, 0xaa]" "take 4 (drop 514 file) = ascii ''HdrS''" "length file \<ge> 530"
    and "take 4 (drop 526 file) \<noteq> [0, 0, 0, 0]"
    and "drop (unat (le_val (take 2 (drop 526 file)) :: u16) + 0x200) file = s @ 0 # rest"
    and "list_all (\<lambda>b. b \<noteq> 0) s" "length s < 1023"
  shows "GetKDesc file = Inr (map (\<lambda>b. char_of (unat b)) s)"
proof -
  define off where "off = unat (le_val (take 2 (drop 526 file)) :: u16) + 0x200"
  have "take 530 file \<noteq> []" using assms(3) by auto
  then obtain buf where buf: "read_into file 0 530 (replicate 1024 0) = Some buf"
    by (auto simp: read_into_def Let_def)
  note rd = read_into_take [OF buf]
  have h: "take 2 (drop 510 buf) = [0x55, 0xaa]" "take 4 (drop 514 buf) = ascii ''HdrS''"
    "take 4 (drop 526 buf) = take 4 (drop 526 file)" "take 2 (drop 526 buf) = take 2 (drop 526 file)"
    using rd [of 510 2] rd [of 514 4] rd [of 526 4] rd [of 526 2] assms(1-3) by simp_all
  have "take 1024 (drop off file) = s @ 0 # take (1023 - length s) rest"
    using assms(5,7) by (simp add: off_def take_Cons' Suc_diff_le)
  then obtain more where "read_into file off 1024 buf = Some (s @ 0 # more)"
    by (simp add: read_into_def Let_def)
  moreover have "takeWhile (\<lambda>b. b \<noteq> 0) (s @ 0 # more) = s"
    using assms(6) by (intro takeWhile_stop) simp_all
  ultimately show ?thesis
    using h assms(4,7) by (simp add: GetKDesc_def buf off_def)
qed

text \<open>A small image.\<close>

definition kernel_image :: "bytes \<Rightarrow> bytes" where
  "kernel_image desc = replicate 510 0 @ [0x55, 0xaa, 0, 0] @ ascii ''HdrS'' @ replicate 8 0 @ [18, 0, 0, 0] @ desc"

theorem GetKDesc_finds_description_witness:
  "GetKDesc (kernel_image (ascii ''4.19.16-norm_boot'' @ [0])) = Inr ''4.19.16-norm_boot''"
proof -
  have "GetKDesc (kernel_image (ascii ''4.19.16-norm_boot'' @ [0])) = Inr (map (\<lambda>b. char_of (unat b)) (ascii ''4.19.16-norm_boot''))"
    by (rule GetKDesc_finds_description [where rest = "[]"]) (simp_all add: kernel_image_def ascii_def)
  moreover have "map (\<lambda>b. char_of (unat b)) (ascii ''4.19.16-norm_boot'') = ''4.19.16-norm_boot''"
    by code_simp
  ultimately show ?thesis by simp
qed


text \<open>A description at the end of the file without its zero byte is not rejected: the bytes of the header that the
  buffer still holds follow it.\<close>

lemma GetKDesc_leftover:
  "GetKDesc (replicate 510 55 @ [0x55, 0xaa, 0, 0] @ ascii ''HdrS'' @ replicate 8 0 @ [18, 0, 0, 0] @ ascii ''4.1'')
   = Inr (''4.1'' @ replicate 507 CHR ''7'' @ [char_of (0x55 :: nat), char_of (0xaa :: nat)])"
proof -
  define img where "img = replicate 510 55 @ [0x55, 0xaa, 0, 0] @ ascii ''HdrS'' @ replicate 8 0 @ [18, 0, 0, 0] @ ascii ''4.1''"
  define buf where "buf = take 530 img @ replicate 494 0"
  have b: "read_into img 0 530 (replicate 1024 0) = Some buf"
    by (simp add: read_into_def Let_def img_def buf_def ascii_def)
  have h: "take 2 (drop 510 buf) = [0x55, 0xaa]" "take 4 (drop 514 buf) = ascii ''HdrS''" "take 4 (drop 526 buf) = [18, 0, 0, 0]"
    "take 2 (drop 526 buf) = [18, 0]"
    by (simp_all add: buf_def img_def ascii_def)
  have "read_into img 530 1024 buf = Some (ascii ''4.1'' @ replicate 507 55 @ [0x55, 0xaa] @ 0 # drop 513 buf)"
    by (simp add: read_into_def Let_def buf_def img_def ascii_def)
  moreover have "takeWhile (\<lambda>b. b \<noteq> 0) ((ascii ''4.1'' @ replicate 507 55 @ [0x55, 0xaa]) @ 0 # drop 513 buf) = ascii ''4.1'' @ replicate 507 55 @ [0x55, 0xaa]"
    by (rule takeWhile_stop) (simp_all add: ascii_def list_all_iff)
  moreover have "unat (le_val [18, 0 :: u8] :: u16) + 0x200 = 530"
    by code_simp
  moreover have "map (\<lambda>b. char_of (unat b)) (ascii ''4.1'' @ replicate 507 55 @ [0x55, 0xaa]) = ''4.1'' @ replicate 507 CHR ''7'' @ [char_of (0x55 :: nat), char_of (0xaa :: nat)]"
    by (simp add: ascii_def) code_simp
  ultimately show ?thesis
    unfolding img_def [symmetric] by (simp add: GetKDesc_def b h ascii_def)
qed

end
