(* ===== verification/Spec2Isabelle.thy ===== *)
theory Spec2Isabelle
  imports Prelude CfaQuestion CfaMock UefiVars LogSpec Archive Erase NicXps QaSpecs NetAdjust Ipmi House MfgData RecDriver InitBoot Kver
begin

text \<open>
  A verification development for gprovision, the Go program that provisions, images, recovers and
  erases server appliances.  It runs in an initramfs, talks to the user through a small LCD with a
  few keys and through logs, decides which image to install from a history of failed boots, registers
  boot entries with the UEFI firmware, and erases the data disks on demand.

  \<^bold>\<open>Parts, theories and sources.\<close>

  \<^item> The LCD (\<open>src/pkg/hw/cfa\<close>), from the wire up.  \<open>CfaPacket\<close>: packets, checksum and commands
    (\<open>packet.go\<close>, \<open>command.go\<close>).  \<open>CfaPort\<close> and \<open>CfaSerial\<close>: reading packets from a port, sending with
    retries, and the reader goroutine with its two channels as an inductive step relation (\<open>serial.go\<close>).
    \<open>CfaKeys\<close>: keys and legends (\<open>buttons.go\<close>).  \<open>CfaText\<close>: word wrap and windows (\<open>util.go\<close>).  \<open>CfaLcd\<close>: the
    driver (\<open>lcd.go\<close>, \<open>message.go\<close>, \<open>backlight.go\<close>).  \<open>CfaBlurb\<close>: text that scrolls or flashes (\<open>blurb.go\<close>);
    its Go interface is a locale, interpreted for its implementations.  \<open>CfaMenu\<close>, \<open>CfaQuestion\<close>: menus,
    questions, confirmation, the spinner (\<open>menu.go\<close>, \<open>question.go\<close>, \<open>spinner.go\<close>).  \<open>CfaMock\<close>: the mock
    port (\<open>mock.go\<close>).  The display and all that lies behind it is a record; a call passes it on.
  \<^item> UEFI (\<open>src/pkg/hw/uefi\<close>).  \<open>UefiPath\<close>: GUIDs and device paths.  \<open>UefiVars\<close>: variables and boot entries.
  \<^item> \<open>Strs\<close>: the product's strings (\<open>src/pkg/common/strs\<close>).  \<open>Prelude\<close> and \<open>GoStd\<close>: fixed-width
    integers, byte slices, and what is used of Go's \<open>strings\<close> and \<open>path\<close>; panics are the second
    constructor of \<open>outcome\<close>, and a call that may not return is an option around it.
  \<^item> Logging (\<open>src/pkg/log\<close>).  \<open>LogStack\<close>: entries, flags, and the memory, file, console and display
    loggers; the interface \<open>StackableLogger\<close> is a locale with an interpretation for each of them and
    for the sum of them.  \<open>Log\<close>: the operations on the linked stack, which lives in a heap of loggers with
    the files and screens they write to.  \<open>LogSpec\<close>: the stack as a list, and what it promises.
  \<^item> Recovery.  \<open>DiskTag\<close> (\<open>src/pkg/disktag\<close>) and \<open>History\<close> (\<open>src/pkg/recovery/history\<close>): the installed image
    and the counters of attempts and failures per image, in a heap of results because a result is
    updated through a pointer and found again through a list.  \<open>FileUtil\<close>: file signatures
    (\<open>src/pkg/fileutil\<close>).  \<open>UpdSort\<close> and \<open>Archive\<close>: the order, validation and choice of update archives
    (\<open>src/pkg/recovery/archive\<close>; the unpacking of the one chosen is in \<open>RecDriver\<close>); the choice consults the history, sets the disk tag, and asks
    through the LCD menu of \<open>CfaQuestion\<close>.
  \<^item> Data erase (\<open>src/pkg/erase\<close>).  \<open>RaidDevice\<close>: aligned reading and writing of whole disks.  \<open>RaidMeta\<close>:
    detecting, saving and restoring RAID metadata.  \<open>RaidArray\<close>: grouping disks into arrays.  \<open>Erase\<close>:
    canaries, the erase command or overwriting, verification, and the whole run over them.
  \<^item> Hardware (\<open>src/pkg/hw\<close>).  \<open>CpuTopo\<close> (\<open>cpu\<close>): processor lists, masks, siblings, the least used processors.
    \<open>NicList\<close> and \<open>NicXps\<close> (\<open>nic\<close>): lists and order of network cards; queues, interrupts and transmit masks.
    \<open>Dmi\<close> (\<open>dmi\<close>): the output of \<open>dmidecode\<close> with its cache.  \<open>Block\<close> (\<open>block\<close>): block devices, size
    tolerance, the output of \<open>blkid\<close>.  \<open>Partition\<close> (\<open>block/partitioning\<close>): tables of both kinds behind one
    interface, a locale.  \<open>Ipmi\<close> (\<open>ipmi\<close>): users, channels, addresses, the identify light.
  \<^item> Choosing and checking a unit.  \<open>Appliance\<close> (\<open>src/pkg/appliance\<close>): descriptions of models and the
    identification by DMI.  \<open>QaDevices\<close>, \<open>QaDisks\<close>, \<open>QaSpecs\<close> (\<open>src/pkg/mfg/qa\<close>): what a unit has, compared
    with what it must have.
  \<^item> Installing (\<open>src/pkg/recovery\<close>).  \<open>RecDisk\<close> (\<open>disk/disk.go\<close>): the disks to install to, and their partitions.
    \<open>RecFs\<close> (\<open>disk/fs.go\<close>): file systems, mounting and formatting, the table of file systems.  \<open>GoTemplate\<close> and
    \<open>RecBoot\<close> (\<open>disk/bootable.go\<close>, \<open>disk/misc.go\<close>): boot files and boot partitions, arrays, copying.  \<open>RecConf\<close>
    (\<open>configure.go\<close>, \<open>emode\<close>): host name, first boot, BIOS setting, emergency files.  \<open>RecDriver\<close> (\<open>recover.go\<close>):
    the installation, which calls all of these in the order of the code.  What reaches the system is a list of
    effects; what its calls answer is the record \<open>system\<close>.
  \<^item> Start of the machine (\<open>src/pkg/init\<close>).  \<open>InitBoot\<close>: the decision between normal boot, boot menu, emergency files,
    recovery and erasing, on top of the menus of \<open>CfaQuestion\<close>.  \<open>House\<close> (\<open>housekeeping\<close>): what is done before a reboot.
  \<^item> Factory (\<open>src/pkg/mfg\<close>).  \<open>MfgStep\<close> (\<open>configStep\<close>): steps with downloads and commands.  \<open>MfgData\<close> (\<open>mdata\<close>,
    \<open>mfgflags\<close>, \<open>time.go\<close>): the files to write, flags, the time of the server, wiping.
  \<^item> Files.  \<open>FileOps\<close> (\<open>src/pkg/fileutil\<close>, \<open>src/pkg/id\<close>): copies, listings, owners, the case of names.  \<open>Xfer\<close>
    (\<open>src/pkg/net/xfer\<close>): verified downloads.  \<open>Kver\<close> (\<open>src/pkg/fileutil/kver\<close>): kernel versions.
  \<^item> Network (\<open>src/pkg/net\<close>).  \<open>NetRoute\<close>: parsing and printing of routes; the text of addresses is a locale,
    interpreted for IPv4.  \<open>NetAdjust\<close>: the WAN port, duplicate default routes, cards to enable.

  \<^bold>\<open>What the lemmas show.\<close>

  \<^item> Wire: packets are read back, damaged ones rejected; the retry loop is bounded, and survives as
    many lost replies as it has retries; in every interleaving the reader keeps the order of packets, but it
    receives no more once key polls have filled the event channel and nobody takes the events.
  \<^item> Display: all drawing stays within its window and lines, messages and windows show their text,
    captured settings are restored; menus and questions answer as a function of the keys says,
    and a menu's redraw flags are set exactly when the screen has to change.
  \<^item> UEFI: the parser accounts for every byte and never panics; device paths and boot entries with fields in range
    and ASCII text are read back, others, as lemmas beside them show, are not; missing boot entries are completed.
  \<^item> Logging: the linked stack refines a list of loggers; an entry reaches each of them once; every
    sequence of operations keeps the stack well formed; what removing a logger does, and where it goes wrong,
    is stated by the place of the logger.
  \<^item> Recovery: recording a boot changes the record it has to, in the fields and by the amounts stated, an image is given
    up exactly when its failures exceed the limit, sorting by rounded decimal fractions is sorting by date and build
    under stated conditions on the names, and the chosen update is the first that the history permits and that validates in the memory mode
    reached by then.
  \<^item> Erase: aligned reads return exactly the range asked for; metadata saved before and restored after
    an erase is what it was and nothing else is touched; arrays partition the disks by type; an erase
    that completes has seen each canary before and none after the erase command.
  \<^item> Hardware and units: cards with distinct addresses are sorted by address, for any correct sort; each processor serves one queue;
    the model identified is the first that fits; a unit that passes has what its specification names;
    disks chosen for the system are distinct, enough, and alike; printed routes of three or more pairs of words are read back.
  \<^item> Installing: a file system knows where it is mounted through every sequence of operations in which it is neither moved
    nor mounted again after a move; a copy that ends without an error is complete; an installation mounts the target,
    unpacks the image there, and leaves the target as the root, with the recovery volume and the boot partitions after
    it in the table and no boot entry missing; host names are valid.
  \<^item> Start: the first act that decides about the machine is the one the stated order of precedence gives, over all
    keys and answers; data is erased only if it was asked for and confirmed twice, or by the boot arguments; the
    tasks before a reboot run in their order.
  \<^item> Factory and files: a successful run has done what each step says, with the words and the environment of each of its
    commands, each ending as required; files
    that were fetched have the hash asked for, also under retries; kernel descriptions are read back.

  \<^bold>\<open>Bounds and fuel.\<close>  Loops that end by construction are structural or have a measure.  Those whose
  end depends on the outside are \<open>partial_function\<close>, without fuel: not returning is \<open>None\<close>, and that
  they return is proved where a property says so.  Only the recursion over display lines and retries
  counts down, from the number of lines or tries the code has.  Sizes are bounded where Go's
  integers would wrap: 64 TiB for disks, 2 ^ 64 for counters; byte arithmetic of the display and
  the offsets computed from RAID metadata wrap as in the code.

  \<^bold>\<open>Parameters.\<close>  Outside code is a parameter or a field of a state record: the port and its errors,
  random and temporary names, the clock, file contents, hash functions, the answers of servers, the format of build times, \<open>xz\<close>, \<open>efibootmgr\<close>, \<open>hdparm\<close>, \<open>dmidecode\<close>, \<open>ipmitool\<close>,
  \<open>ethtool\<close>, regular expressions, splitting in the manner of a shell, the text form of UUIDs and addresses, the
  visiting order of maps,
  and the sorting algorithm, of which only the contract of \<open>sort.Sort\<close> is assumed (locale \<open>go_sort\<close>, met by
  insertion sort).  Disks answer reads and writes; the erase lemmas assume that a disk knows its
  size and that reads which succeed are not cut short.

  \<^bold>\<open>Not modelled.\<close>  Terminal and \<open>ioctl\<close> system calls, the beeper, \<open>udev\<close>, power and console: they only call the
  system.  Goroutines and timers other than the reader of the LCD: what they deliver is an input, such as the
  outcome of the wait at the start.  The log server and the stash, which are services and generated protocol code;
  the set-up of logs, history and remote logging in the recovery before the disks are chosen; the order of the
  whole factory run.  The progress shown while \<open>tar\<close> unpacks; netlink; decoding of JSON by the standard library; templates
  with anything but fields, and with them the files of \<open>networkd\<close>.  Core dumps, which are processed by \<open>gdb\<close> and
  uploaded.  The Windows tools, the demo of the LCD, the commands, build scripts and tests.
\<close>

end
